(* ===== verification/Parrot_Prelude.thy ===== *)
theory Parrot_Prelude
  imports Complex_Main "HOL-Library.AList" "HOL-Library.Multiset" "HOL-Library.Sublist"
begin

text \<open>
  The shared vocabulary of the development.
  \<^item> \<open>py_error\<close> is the class of the exception that a Python call raises: the
    hierarchy of \<^verbatim>\<open>parrot/exceptions.py\<close> and the builtin exceptions the sources raise
    (explicitly, or through a subscript or an \<^verbatim>\<open>assert\<close>). Messages are left out.
  \<^item> \<open>('a, 's) py\<close> is what a Python call that may raise leaves behind: the
    exception or the returned value, and the state. A raise does not undo the
    mutations made before it, so the state is there in both cases.
  \<^item> \<open>('k, 'v) dict\<close> is a Python dictionary: an association list in insertion order.
    \<open>dict_set\<close> overwrites in place or appends, as \<^verbatim>\<open>d[k] = v\<close> does; \<open>dict_pop\<close>
    removes. The order is kept because the sources iterate over dictionaries.
\<close>

section \<open>Exceptions and results\<close>

datatype py_error =
    ParrotError
  | ParrotCoreUserError
  | ParrotCoreInternalError
  | ParrotEngineUserError
  | ParrotEngineInternalError
  | AssertionError
  | ValueError
  | KeyError
  | IndexError
  | AttributeError
  | TypeError
  | RuntimeError
  | NotImplementedError
  | UnboundLocalError
  | ZeroDivisionError
  | TimeoutError

type_synonym ('a, 's) py = "(py_error + 'a) \<times> 's"

named_theorems py_simps \<open>unfolding rules of the result combinators\<close>
named_theorems dict_simps \<open>rewriting of dictionary lookups and key sets\<close>

definition py_return :: "'a \<Rightarrow> 's \<Rightarrow> ('a, 's) py" where
  "py_return x s = (Inr x, s)"

definition py_raise :: "py_error \<Rightarrow> 's \<Rightarrow> ('a, 's) py" where
  "py_raise e s = (Inl e, s)"

definition py_bind :: "('a, 's) py \<Rightarrow> ('a \<Rightarrow> 's \<Rightarrow> ('b, 's) py) \<Rightarrow> ('b, 's) py" where
  "py_bind r f = (case r of (Inl e, s) \<Rightarrow> (Inl e, s) | (Inr x, s) \<Rightarrow> f x s)"

text \<open>Run an operation of a part of the state (a field of a record) inside the whole.\<close>

definition py_lift :: "('p \<Rightarrow> 's) \<Rightarrow> ('a, 'p) py \<Rightarrow> ('a, 's) py" where
  "py_lift put r = (fst r, put (snd r))"

text \<open>\<^verbatim>\<open>parrot_assert(cond, msg)\<close>: raises \<^verbatim>\<open>ParrotError(AssertionError(msg))\<close>.\<close>

definition parrot_assert :: "bool \<Rightarrow> 's \<Rightarrow> (unit, 's) py" where
  "parrot_assert cond s = (if \<not> cond then py_raise ParrotError s else py_return () s)"

text \<open>\<^verbatim>\<open>for x in xs: body\<close> over a list fixed before the loop starts.\<close>

primrec py_for :: "('x \<Rightarrow> 's \<Rightarrow> (unit, 's) py) \<Rightarrow> 'x list \<Rightarrow> 's \<Rightarrow> (unit, 's) py" where
  "py_for body [] s = py_return () s"
| "py_for body (x # xs) s = py_bind (body x s) (\<lambda>_ s'. py_for body xs s')"

lemma py_bind_return [simp, py_simps]: "py_bind (py_return x s) f = f x s"
  by (simp add: py_bind_def py_return_def)

lemma py_bind_raise [simp, py_simps]: "py_bind (py_raise e s) f = py_raise e s"
  by (simp add: py_bind_def py_raise_def)

lemma py_bind_Inr [simp, py_simps]: "py_bind (Inr x, s) f = f x s"
  by (simp add: py_bind_def)

lemma py_bind_Inl [simp, py_simps]: "py_bind (Inl e, s) f = (Inl e, s)"
  by (simp add: py_bind_def)

lemma py_lift_pair [simp, py_simps]: "py_lift put (r, p) = (r, put p)"
  by (simp add: py_lift_def)

lemma py_lift_return [simp, py_simps]: "py_lift put (py_return x p) = py_return x (put p)"
  by (simp add: py_lift_def py_return_def)

lemma py_lift_raise [simp, py_simps]: "py_lift put (py_raise e p) = py_raise e (put p)"
  by (simp add: py_lift_def py_raise_def)

lemma parrot_assert_simps [simp, py_simps]:
  "parrot_assert True s = py_return () s"
  "parrot_assert False s = py_raise ParrotError s"
  by (simp_all add: parrot_assert_def)

lemma py_return_eq [simp]: "py_return x s = (r, t) \<longleftrightarrow> r = Inr x \<and> t = s"
  by (auto simp: py_return_def)

lemma py_raise_eq [simp]: "py_raise e s = (r, t) \<longleftrightarrow> r = Inl e \<and> t = s"
  by (auto simp: py_raise_def)

lemma snd_py_return [simp]: "snd (py_return x s) = s" "fst (py_return x s) = Inr x"
  by (simp_all add: py_return_def)

lemma snd_py_raise [simp]: "snd (py_raise e s) = s" "fst (py_raise e s) = Inl e"
  by (simp_all add: py_raise_def)

lemma py_bind_eq_Inr:
  "py_bind r f = (Inr y, t) \<longleftrightarrow> (\<exists>x s. r = (Inr x, s) \<and> f x s = (Inr y, t))"
  by (cases r) (auto simp: py_bind_def split: sum.splits)

lemma py_bind_eq_Inl:
  "py_bind r f = (Inl e, t) \<longleftrightarrow>
    r = (Inl e, t) \<or> (\<exists>x s. r = (Inr x, s) \<and> f x s = (Inl e, t))"
  by (cases r) (auto simp: py_bind_def split: sum.splits)

text \<open>An invariant of the state that the first call keeps, and the rest keeps from there.\<close>

lemma py_bind_snd:
  assumes "\<And>e s. r = (Inl e, s) \<Longrightarrow> P s"
    and "\<And>x s. r = (Inr x, s) \<Longrightarrow> P (snd (f x s))"
  shows "P (snd (py_bind r f))"
  using assms by (cases r) (auto simp: py_bind_def split: sum.splits)

lemma py_for_invariant:
  assumes "\<And>x s. x \<in> set xs \<Longrightarrow> P s \<Longrightarrow> P (snd (body x s))" and "P s"
  shows "P (snd (py_for body xs s))"
  using assms
proof (induction xs arbitrary: s)
  case Nil
  then show ?case by simp
next
  case (Cons x xs)
  show ?case
    unfolding py_for.simps
  proof (rule py_bind_snd [where P = P])
    fix e t
    assume "body x s = (Inl e, t)"
    with Cons.prems(1) [of x s] Cons.prems(2) show "P t" by simp
  next
    fix u t
    assume "body x s = (Inr u, t)"
    with Cons.prems(1) [of x s] Cons.prems(2) have "P t" by simp
    then show "P (snd (py_for body xs t))" by (rule Cons.IH [rotated]) (simp add: Cons.prems(1))
  qed
qed

text \<open>A loop whose body succeeds on every element from every state of the invariant.\<close>

lemma py_for_succeeds:
  assumes "\<And>x s. x \<in> set xs \<Longrightarrow> P s \<Longrightarrow> \<exists>s'. body x s = (Inr (), s') \<and> P s'" and "P s"
  shows "\<exists>s'. py_for body xs s = (Inr (), s') \<and> P s'"
  using assms
proof (induction xs arbitrary: s)
  case Nil
  then show ?case by simp
next
  case (Cons x xs)
  obtain s' where "body x s = (Inr (), s')" "P s'" using Cons.prems by fastforce
  then show ?case using Cons.IH [of s'] Cons.prems(1) by auto
qed

text \<open>\<open>py_ensures Q r\<close>: \<open>Q\<close> holds of the outcome and of the state it leaves.\<close>

definition py_ensures :: "(py_error + 'a \<Rightarrow> 's \<Rightarrow> bool) \<Rightarrow> ('a, 's) py \<Rightarrow> bool" where
  "py_ensures Q r \<longleftrightarrow> Q (fst r) (snd r)"

lemma py_ensures_simps [simp]:
  "py_ensures Q (x, s) \<longleftrightarrow> Q x s"
  "py_ensures Q (py_return y s) \<longleftrightarrow> Q (Inr y) s"
  "py_ensures Q (py_raise e s) \<longleftrightarrow> Q (Inl e) s"
  by (simp_all add: py_ensures_def)

lemma py_ensures_bind:
  assumes "py_ensures P r" and "\<And>e s. P (Inl e) s \<Longrightarrow> Q (Inl e) s"
    and "\<And>y s. P (Inr y) s \<Longrightarrow> py_ensures Q (f y s)"
  shows "py_ensures Q (py_bind r f)"
proof -
  obtain x s where "r = (x, s)" by (cases r)
  with assms show ?thesis by (cases x) auto
qed

lemma py_ensures_mono: "py_ensures P r \<Longrightarrow> (\<And>x s. P x s \<Longrightarrow> Q x s) \<Longrightarrow> py_ensures Q r"
  by (simp add: py_ensures_def)

lemma py_ensures_lift: "py_ensures Q (py_lift put r) \<longleftrightarrow> py_ensures (\<lambda>x p. Q x (put p)) r"
  by (simp add: py_ensures_def py_lift_def)

lemma py_ensures_for:
  assumes "\<And>x s. x \<in> set xs \<Longrightarrow> I s \<Longrightarrow> py_ensures (\<lambda>_ s. I s) (body x s)" and "I s"
  shows "py_ensures (\<lambda>_ s. I s) (py_for body xs s)"
  unfolding py_ensures_def
  by (rule py_for_invariant [where P = I]) (use assms in \<open>auto simp: py_ensures_def\<close>)

lemma py_for_append:
  "py_for body (xs @ ys) s = py_bind (py_for body xs s) (\<lambda>_ s'. py_for body ys s')"
  by (induction xs arbitrary: s) (auto simp: py_bind_def split: prod.splits sum.splits)

section \<open>Calls that may not return\<close>

text \<open>
  A call that follows references may run forever: \<open>None\<close> is a call that does not return.
  The loop keeps a local variable, as \<^verbatim>\<open>for x in xs: acc = ...\<close> does. Both combinators are
  monotone, so that recursive calls below them have a least solution.
\<close>

type_synonym ('a, 's) pyo = "('a, 's) py option"

definition pyo_bind :: "('a, 's) pyo \<Rightarrow> ('a \<Rightarrow> 's \<Rightarrow> ('b, 's) pyo) \<Rightarrow> ('b, 's) pyo" where
  "pyo_bind r f = Option.bind r (\<lambda>(x, s). case x of Inl e \<Rightarrow> Some (py_raise e s) | Inr y \<Rightarrow> f y s)"

primrec pyo_fold :: "('x \<Rightarrow> 'a \<Rightarrow> 's \<Rightarrow> ('a, 's) pyo) \<Rightarrow> 'x list \<Rightarrow> 'a \<Rightarrow> 's \<Rightarrow> ('a, 's) pyo" where
  "pyo_fold step [] acc s = Some (py_return acc s)"
| "pyo_fold step (x # xs) acc s = pyo_bind (step x acc s) (\<lambda>acc s. pyo_fold step xs acc s)"

lemma pyo_bind_simps [simp]:
  "pyo_bind None f = None"
  "pyo_bind (Some (Inr x, s)) f = f x s"
  "pyo_bind (Some (Inl e, s)) f = Some (Inl e, s)"
  "pyo_bind (Some (py_return x s)) f = f x s"
  "pyo_bind (Some (py_raise e s)) f = Some (py_raise e s)"
  by (simp_all add: pyo_bind_def py_return_def py_raise_def)

lemma pyo_bind_mono [partial_function_mono]:
  assumes "mono_option r" and "\<And>x s. mono_option (\<lambda>f. g f x s)"
  shows "mono_option (\<lambda>f. pyo_bind (r f) (g f))"
  unfolding pyo_bind_def
proof (rule bind_mono [OF assms(1)])
  fix y :: "(py_error + 'c) \<times> 'd"
  obtain x s where y: "y = (x, s)" by (rule prod.exhaust)
  show "mono_option (\<lambda>f. case y of (x, s) \<Rightarrow> case x of Inl e \<Rightarrow> Some (py_raise e s) | Inr z \<Rightarrow> g f z s)"
    unfolding y by (cases x) (simp_all add: assms(2) option.const_mono)
qed

lemma pyo_fold_mono [partial_function_mono]:
  assumes "\<And>x acc s. mono_option (\<lambda>f. step f x acc s)"
  shows "mono_option (\<lambda>f. pyo_fold (step f) xs acc s)"
proof (induction xs arbitrary: acc s)
  case Nil
  show ?case by (simp add: option.const_mono)
next
  case (Cons x xs)
  show ?case unfolding pyo_fold.simps by (intro pyo_bind_mono assms Cons.IH)
qed

definition pyo_lift :: "('p \<Rightarrow> 's) \<Rightarrow> ('a, 'p) pyo \<Rightarrow> ('a, 's) pyo" where
  "pyo_lift put r = map_option (py_lift put) r"

lemma pyo_lift_simps [simp]:
  "pyo_lift put None = None"
  "pyo_lift put (Some (x, p)) = Some (x, put p)"
  "pyo_lift put (Some (py_return y p)) = Some (py_return y (put p))"
  "pyo_lift put (Some (py_raise e p)) = Some (py_raise e (put p))"
  by (simp_all add: pyo_lift_def)

text \<open>\<open>pyo_ensures Q r\<close>: the call returns or raises, and then \<open>Q\<close> holds of the outcome and the state.\<close>

definition pyo_ensures :: "(py_error + 'a \<Rightarrow> 's \<Rightarrow> bool) \<Rightarrow> ('a, 's) pyo \<Rightarrow> bool" where
  "pyo_ensures Q r \<longleftrightarrow> (\<exists>x s. r = Some (x, s) \<and> Q x s)"

lemma pyo_ensures_Some [simp]: "pyo_ensures Q (Some (x, s)) \<longleftrightarrow> Q x s"
  by (simp add: pyo_ensures_def)

lemma pyo_ensures_return [simp]: "pyo_ensures Q (Some (py_return y s)) \<longleftrightarrow> Q (Inr y) s"
  by (simp add: pyo_ensures_def)

lemma pyo_ensures_raise [simp]: "pyo_ensures Q (Some (py_raise e s)) \<longleftrightarrow> Q (Inl e) s"
  by (simp add: pyo_ensures_def)

lemma pyo_ensures_Some_iff: "pyo_ensures Q (Some r) \<longleftrightarrow> py_ensures Q r"
  by (cases r) simp

lemma pyo_ensures_bind:
  assumes "pyo_ensures P r" and "\<And>e s. P (Inl e) s \<Longrightarrow> Q (Inl e) s"
    and "\<And>y s. P (Inr y) s \<Longrightarrow> pyo_ensures Q (f y s)"
  shows "pyo_ensures Q (pyo_bind r f)"
proof -
  obtain x s where "r = Some (x, s)" "P x s" using assms(1) by (auto simp: pyo_ensures_def)
  with assms(2,3) show ?thesis by (cases x) auto
qed

lemma pyo_ensures_mono: "pyo_ensures P r \<Longrightarrow> (\<And>x s. P x s \<Longrightarrow> Q x s) \<Longrightarrow> pyo_ensures Q r"
  by (auto simp: pyo_ensures_def)

lemma pyo_ensures_lift: "pyo_ensures Q (pyo_lift put r) \<longleftrightarrow> pyo_ensures (\<lambda>x p. Q x (put p)) r"
  by (cases r) (auto simp: pyo_ensures_def)

lemma pyo_ensures_fold:
  assumes "\<And>x acc s. x \<in> set xs \<Longrightarrow> I acc s \<Longrightarrow> pyo_ensures (\<lambda>r s. case r of Inl e \<Rightarrow> E e s | Inr acc \<Rightarrow> I acc s) (step x acc s)"
    and "I acc s"
  shows "pyo_ensures (\<lambda>r s. case r of Inl e \<Rightarrow> E e s | Inr acc \<Rightarrow> I acc s) (pyo_fold step xs acc s)"
  using assms
proof (induction xs arbitrary: acc s)
  case (Cons x xs)
  show ?case
    unfolding pyo_fold.simps
    by (rule pyo_ensures_bind [OF Cons.prems(1)]) (use Cons in auto)
qed simp

text \<open>
  A loop whose body returns from every state of the invariant returns. \<open>Q\<close> is what an element has
  established; it is kept as the state moves on and the local variable grows.
\<close>

lemma pyo_fold_returns:
  fixes acc :: "'a :: order"
  assumes step: "\<And>x acc s. x \<in> set xs \<Longrightarrow> I s \<Longrightarrow>
      \<exists>r s'. step x acc s = Some (r, s') \<and> I s' \<and> R s s' \<and> (\<forall>acc'. r = Inr acc' \<longrightarrow> acc \<le> acc' \<and> Q x acc' s')"
    and stable: "\<And>x acc acc' s s'. Q x acc s \<Longrightarrow> R s s' \<Longrightarrow> acc \<le> acc' \<Longrightarrow> Q x acc' s'"
    and refl: "\<And>s. R s s" and trans: "\<And>s t u. R s t \<Longrightarrow> R t u \<Longrightarrow> R s u"
    and "I s"
  shows "\<exists>r s'. pyo_fold step xs acc s = Some (r, s') \<and> I s' \<and> R s s' \<and>
    (\<forall>acc'. r = Inr acc' \<longrightarrow> acc \<le> acc' \<and> (\<forall>x \<in> set xs. Q x acc' s'))"
  using step \<open>I s\<close>
proof (induction xs arbitrary: acc s)
  case Nil
  then show ?case by (simp add: refl)
next
  case (Cons x xs)
  obtain r s1 where s1: "step x acc s = Some (r, s1)" "I s1" "R s s1"
      "\<forall>acc'. r = Inr acc' \<longrightarrow> acc \<le> acc' \<and> Q x acc' s1"
    using Cons.prems(1) [of x s acc] Cons.prems(2) by auto
  show ?case
  proof (cases r)
    case (Inl e)
    with s1 show ?thesis by simp
  next
    case (Inr acc1)
    obtain r2 s2 where s2: "pyo_fold step xs acc1 s1 = Some (r2, s2)" "I s2" "R s1 s2"
        "\<forall>acc'. r2 = Inr acc' \<longrightarrow> acc1 \<le> acc' \<and> (\<forall>x \<in> set xs. Q x acc' s2)"
      using Cons.IH [of s1 acc1] Cons.prems(1) s1(2) by auto
    have "Q x acc' s2" if "r2 = Inr acc'" for acc'
      using stable [of x acc1 s1 s2 acc'] s1(4) s2(3,4) Inr that by blast
    with s1 s2 Inr trans show ?thesis by (auto intro: order_trans)
  qed
qed

section \<open>Dictionaries\<close>

type_synonym ('k, 'v) dict = "('k \<times> 'v) list"

definition dict_set :: "'k \<Rightarrow> 'v \<Rightarrow> ('k, 'v) dict \<Rightarrow> ('k, 'v) dict" where
  "dict_set k v d = AList.update k v d"

definition dict_pop :: "'k \<Rightarrow> ('k, 'v) dict \<Rightarrow> ('k, 'v) dict" where
  "dict_pop k d = AList.delete k d"

definition dict_mem :: "'k \<Rightarrow> ('k, 'v) dict \<Rightarrow> bool" where
  "dict_mem k d = (map_of d k \<noteq> None)"

abbreviation dict_keys :: "('k, 'v) dict \<Rightarrow> 'k list" where
  "dict_keys d \<equiv> map fst d"

abbreviation dict_values :: "('k, 'v) dict \<Rightarrow> 'v list" where
  "dict_values d \<equiv> map snd d"

text \<open>Every dictionary the sources build has one entry per key.\<close>

abbreviation dict_ok :: "('k, 'v) dict \<Rightarrow> bool" where
  "dict_ok d \<equiv> distinct (map fst d)"

text \<open>Lookups stay lookups: the library would turn them into membership in the list.\<close>

declare map_of_eq_Some_iff [simp del] Some_eq_map_of_iff [simp del]

lemma dict_set_simps [simp]:
  "dict_set k v [] = [(k, v)]"
  "dict_set k v ((k', v') # d) = (if k' = k then (k, v) # d else (k', v') # dict_set k v d)"
  by (simp_all add: dict_set_def)

lemma dict_pop_simps [simp]:
  "dict_pop k [] = []"
  "dict_pop k ((k', v') # d) = (if k' = k then dict_pop k d else (k', v') # dict_pop k d)"
  by (simp_all add: dict_pop_def)

lemma map_of_dict_set [simp, dict_simps]: "map_of (dict_set k v d) = (map_of d)(k \<mapsto> v)"
  by (simp add: dict_set_def update_conv')

lemma map_of_dict_pop [simp, dict_simps]: "map_of (dict_pop k d) = (map_of d)(k := None)"
  by (simp add: dict_pop_def delete_conv')

lemma dict_ok_set [simp]: "dict_ok d \<Longrightarrow> dict_ok (dict_set k v d)"
  by (simp add: dict_set_def distinct_update)

lemma dict_ok_pop [simp]: "dict_ok d \<Longrightarrow> dict_ok (dict_pop k d)"
  by (simp add: dict_pop_def distinct_delete)

lemma dict_mem_iff [simp]: "dict_mem k d \<longleftrightarrow> k \<in> fst ` set d"
  by (simp add: dict_mem_def map_of_eq_None_iff)

lemma dict_keys_set [dict_simps]: "fst ` set (dict_set k v d) = insert k (fst ` set d)"
  by (simp add: dict_set_def dom_update)

lemma dict_keys_pop [dict_simps]: "fst ` set (dict_pop k d) = fst ` set d - {k}"
  by (simp flip: dom_map_of_conv_image_fst)

lemma dict_pop_absent: "k \<notin> fst ` set d \<Longrightarrow> dict_pop k d = d"
  by (simp add: dict_pop_def)

lemma dict_set_append: "k \<notin> fst ` set d \<Longrightarrow> dict_set k v d = d @ [(k, v)]"
  by (induction d) auto

lemma dict_pop_set_new: "k \<notin> fst ` set d \<Longrightarrow> dict_pop k (dict_set k v d) = d"
  by (induction d) (auto simp: dict_pop_absent)

lemma dict_ok_image_value:
  "dict_ok d \<Longrightarrow> (k, v) \<in> set d \<longleftrightarrow> map_of d k = Some v"
  by (simp add: map_of_eq_Some_iff)

lemma dict_pop_filter: "dict_pop k d = filter (\<lambda>e. fst e \<noteq> k) d"
  by (induction d) auto

lemma dict_pop_subset: "set (dict_pop k d) \<subseteq> set d"
  by (induction d) (auto split: if_splits)

lemma dict_set_subset: "set (dict_set k v d) \<subseteq> insert (k, v) (set d)"
proof (induction d)
  case (Cons x d)
  then show ?case by (cases x) (simp, blast)
qed simp

lemma map_of_Some_key: "map_of d k = Some v \<Longrightarrow> k \<in> fst ` set d"
  by (metis domI dom_map_of_conv_image_fst)

lemma key_map_of_Some: "k \<in> fst ` set d \<Longrightarrow> \<exists>v. map_of d k = Some v"
  by (metis domD dom_map_of_conv_image_fst)

lemma key_iff_map_of: "k \<in> fst ` set d \<longleftrightarrow> map_of d k \<noteq> None"
  by (simp add: map_of_eq_None_iff)

lemma no_lookup_Nil:
  assumes "\<And>k. map_of d k = None"
  shows "d = []"
proof (cases d)
  case (Cons e d')
  then have "map_of d (fst e) \<noteq> None" by (cases e) simp
  with assms [of "fst e"] show ?thesis by simp
qed simp

text \<open>\<^verbatim>\<open>d[k]\<close> and \<^verbatim>\<open>d.pop(k)\<close> raise \<^verbatim>\<open>KeyError\<close> on a missing key.\<close>

definition dict_get :: "('k, 'v) dict \<Rightarrow> 'k \<Rightarrow> 's \<Rightarrow> ('v, 's) py" where
  "dict_get d k s = (case map_of d k of None \<Rightarrow> py_raise KeyError s | Some v \<Rightarrow> py_return v s)"

lemma dict_get_Some [simp]: "map_of d k = Some v \<Longrightarrow> dict_get d k s = py_return v s"
  by (simp add: dict_get_def)

lemma dict_get_None [simp]: "map_of d k = None \<Longrightarrow> dict_get d k s = py_raise KeyError s"
  by (simp add: dict_get_def)

lemma snd_dict_get [simp]: "snd (dict_get d k s) = s"
  by (simp add: dict_get_def split: option.splits)

lemma dict_get_eq_Inr: "dict_get d k s = (Inr v, t) \<longleftrightarrow> map_of d k = Some v \<and> t = s"
  by (auto simp: dict_get_def split: option.splits)

section \<open>Decimal printing\<close>

text \<open>\<^verbatim>\<open>str(n)\<close> of an integer. Different integers print differently.\<close>

fun str_nat :: "nat \<Rightarrow> string" where
  "str_nat n = (if n < 10 then [char_of (48 + n)] else str_nat (n div 10) @ [char_of (48 + n mod 10)])"

declare str_nat.simps [simp del]

definition py_str :: "int \<Rightarrow> string" where
  "py_str i = (if i < 0 then CHR ''-'' # str_nat (nat (- i)) else str_nat (nat i))"

fun read_nat :: "string \<Rightarrow> nat" where
  "read_nat s = foldl (\<lambda>a c. 10 * a + (of_char c - 48)) 0 s"

lemma digit_of_char: "d < 10 \<Longrightarrow> of_char (char_of (48 + d :: nat) :: char) = 48 + d"
  by (simp add: of_char_of take_bit_eq_mod)

lemma read_str_nat: "read_nat (str_nat n) = n"
proof (induction n rule: str_nat.induct)
  case (1 n)
  show ?case
  proof (cases "n < 10")
    case True
    then show ?thesis by (simp add: str_nat.simps [of n] digit_of_char)
  next
    case False
    with 1 have "foldl (\<lambda>a c. 10 * a + (of_char c - 48)) 0 (str_nat (n div 10)) = n div 10" by simp
    with False show ?thesis
      using digit_of_char [of "n mod 10"] by (simp add: str_nat.simps [of n])
  qed
qed

lemma str_nat_digits: "c \<in> set (str_nat n) \<Longrightarrow> 48 \<le> (of_char c :: nat) \<and> (of_char c :: nat) < 58"
proof (induction n rule: str_nat.induct)
  case (1 n)
  show ?case
  proof (cases "n < 10")
    case True
    with 1 show ?thesis by (auto simp: str_nat.simps [of n] digit_of_char)
  next
    case False
    with 1 show ?thesis
      using digit_of_char [of "n mod 10"] by (auto simp: str_nat.simps [of n])
  qed
qed

lemma str_nat_inject: "str_nat m = str_nat n \<longleftrightarrow> m = n"
  using read_str_nat by metis

lemma minus_not_digit: "CHR ''-'' \<notin> set (str_nat n)"
  using str_nat_digits [of "CHR ''-''" n] by auto

lemma py_str_inject: "py_str i = py_str j \<longleftrightarrow> i = j"
proof -
  have "CHR ''-'' # xs \<noteq> str_nat n" for xs n using minus_not_digit [of n] by (metis list.set_intros(1))
  then show ?thesis by (auto simp: py_str_def str_nat_inject split: if_splits) metis+
qed

section \<open>Payload values\<close>

text \<open>The values of a JSON payload, as \<^verbatim>\<open>json.loads\<close> builds them; a number with a fraction is a rational.\<close>

datatype json =
    JNone
  | JBool bool
  | JInt int
  | JFloat rat
  | JStr string
  | JList "json list"
  | JDict "(string, json) dict"

section \<open>Sums over dictionaries\<close>

text \<open>The sum over the values of a dictionary, when one entry comes, goes or changes.\<close>

lemma sum_list_dict_set_new:
  "k \<notin> fst ` set d \<Longrightarrow>
    sum_list (map snd (dict_set k v d)) = sum_list (map snd d) + (v :: int)"
  by (simp add: dict_set_append)

lemma sum_list_dict_pop:
  "dict_ok d \<Longrightarrow> map_of d k = Some v \<Longrightarrow>
    sum_list (map snd (dict_pop k d)) = sum_list (map snd d) - (v :: int)"
  by (induction d) (auto simp: dict_pop_absent split: if_splits)

section \<open>Sorting by a key\<close>

lemma insort_key_cong:
  "(\<And>y. y \<in> insert x (set xs) \<Longrightarrow> f y = g y) \<Longrightarrow> insort_key f x xs = insort_key g x xs"
  by (induction xs) auto

lemma sort_key_cong:
  "(\<And>y. y \<in> set xs \<Longrightarrow> f y = g y) \<Longrightarrow> sort_key f xs = sort_key g xs"
proof (induction xs)
  case (Cons x xs)
  have "insort_key f x (sort_key g xs) = insort_key g x (sort_key g xs)"
    by (rule insort_key_cong) (use Cons.prems in auto)
  with Cons show ?case by simp
qed simp

lemma sum_list_ones: "list_all (\<lambda>x. f x = (1 :: int)) xs \<Longrightarrow> sum_list (map f xs) = int (length xs)"
  by (induction xs) auto

end
