(* ===== verification/Prefix_Matcher.thy ===== *)
theory Prefix_Matcher
  imports Parrot_Prelude
begin

text \<open>
  \<^verbatim>\<open>parrot/serve/prefix_matcher.py\<close>: the heuristic that finds prefixes shared by many
  prompts. The class keeps a two-level table of counters; the specification below
  forgets the table and speaks of the history of added prompts only. The refinement
  theorem shows that the table answers every query as the specification does.
\<close>

section \<open>The class\<close>

definition START_LEN :: nat where
  "START_LEN = 40"

definition GP_THRESHOLD :: int where
  "GP_THRESHOLD = 3"

record prefix_matcher =
  prefix_counter :: "(string, (string, int) dict) dict"

definition new_prefix_matcher :: prefix_matcher where
  "new_prefix_matcher = \<lparr>prefix_counter = []\<rparr>"

text \<open>\<^verbatim>\<open>while i < len(k) and i < len(prefix) and k[i] == prefix[i]: i += 1\<close>\<close>

function match_len :: "string \<Rightarrow> string \<Rightarrow> nat \<Rightarrow> nat" where
  "match_len k p i =
    (if i < length k \<and> i < length p \<and> k ! i = p ! i then match_len k p (Suc i) else i)"
  by pat_completeness auto
termination
  by (relation "measure (\<lambda>(k, p, i). length k - i)") auto

declare match_len.simps [simp del]

text \<open>
  The loop over the snapshot of the bucket's keys, and the insertion after it. A key
  shorter than \<open>START_LEN + 1\<close> would make the subscript raise.
\<close>

fun add_loop :: "string \<Rightarrow> string list \<Rightarrow> (string, int) dict \<Rightarrow> (unit, (string, int) dict) py" where
  "add_loop p [] b = py_return () (dict_set p 1 b)"
| "add_loop p (k # ks) b =
    (if length k \<le> START_LEN then py_raise IndexError b
     else if k ! START_LEN = p ! START_LEN then
       (let i = match_len k p START_LEN;
            new_k = take i k
        in if i = length k then
             py_bind (dict_get b k b) (\<lambda>v b. py_return () (dict_set k (v + 1) b))
           else
             py_bind (dict_get b k b)
               (\<lambda>v b. py_return () (dict_pop k (dict_set new_k (v + 1) b))))
     else add_loop p ks b)"

definition add_prefix :: "string \<Rightarrow> prefix_matcher \<Rightarrow> (unit, prefix_matcher) py" where
  "add_prefix p m =
    (if length p \<le> START_LEN then py_return () m
     else
       (let lookup = take START_LEN p;
            m = (if dict_mem lookup (prefix_counter m) then m
                 else m\<lparr>prefix_counter := dict_set lookup [] (prefix_counter m)\<rparr>)
        in py_bind (dict_get (prefix_counter m) lookup m)
             (\<lambda>b m. py_lift (\<lambda>b'. m\<lparr>prefix_counter := dict_set lookup b' (prefix_counter m)\<rparr>)
               (add_loop p (dict_keys b) b))))"

fun query_loop :: "string \<Rightarrow> (string, int) dict \<Rightarrow> int" where
  "query_loop p [] = -1"
| "query_loop p ((k, v) # kvs) =
    (if v > GP_THRESHOLD \<and> prefix k p then int (length k) else query_loop p kvs)"

definition query_prefix :: "string \<Rightarrow> prefix_matcher \<Rightarrow> int" where
  "query_prefix p m =
    (if length p \<le> START_LEN then -1
     else case map_of (prefix_counter m) (take START_LEN p) of
       None \<Rightarrow> -1
     | Some b \<Rightarrow> query_loop p b)"

text \<open>A history of calls of \<open>add_prefix\<close>.\<close>

definition add_prefixes :: "string list \<Rightarrow> prefix_matcher \<Rightarrow> (unit, prefix_matcher) py" where
  "add_prefixes ps m = py_for add_prefix ps m"

section \<open>The specification: histories of prompts\<close>

text \<open>
  Prompts longer than \<open>START_LEN\<close> fall into groups by their first \<open>START_LEN + 1\<close>
  characters. The matcher remembers, for each group, its size and the longest common
  prefix of its members.
\<close>

definition prompt_group :: "string list \<Rightarrow> string \<Rightarrow> string list" where
  "prompt_group h g = filter (\<lambda>s. START_LEN < length s \<and> take (Suc START_LEN) s = g) h"

fun common_prefix :: "'a list list \<Rightarrow> 'a list" where
  "common_prefix [] = []"
| "common_prefix (x # xs) = foldl longest_common_prefix x xs"

definition spec_query :: "string list \<Rightarrow> string \<Rightarrow> int" where
  "spec_query h p =
    (if length p \<le> START_LEN then -1
     else (let G = prompt_group h (take (Suc START_LEN) p)
       in if GP_THRESHOLD < int (length G) \<and> prefix (common_prefix G) p
          then int (length (common_prefix G)) else -1))"

subsection \<open>Longest common prefixes\<close>

lemma common_prefix_snoc:
  "G \<noteq> [] \<Longrightarrow> common_prefix (G @ [s]) = longest_common_prefix (common_prefix G) s"
  by (cases G) auto

lemma foldl_lcp_greatest:
  "prefix g x \<Longrightarrow> (\<And>s. s \<in> set xs \<Longrightarrow> prefix g s) \<Longrightarrow> prefix g (foldl longest_common_prefix x xs)"
  by (induction xs arbitrary: x) (auto intro: longest_common_prefix_max_prefix)

lemma foldl_lcp_prefix:
  "prefix (foldl longest_common_prefix x xs) x \<and>
    (\<forall>s \<in> set xs. prefix (foldl longest_common_prefix x xs) s)"
proof (induction xs arbitrary: x)
  case (Cons y ys)
  let ?f = "foldl longest_common_prefix (longest_common_prefix x y) ys"
  have "prefix ?f (longest_common_prefix x y)" using Cons by blast
  moreover have "prefix (longest_common_prefix x y) x" "prefix (longest_common_prefix x y) y"
    by (rule longest_common_prefix_prefix1, rule longest_common_prefix_prefix2)
  ultimately have "prefix ?f x" "prefix ?f y" by (blast intro: prefix_order.trans)+
  with Cons show ?case by simp
qed simp

lemma common_prefix_greatest:
  "G \<noteq> [] \<Longrightarrow> (\<And>s. s \<in> set G \<Longrightarrow> prefix g s) \<Longrightarrow> prefix g (common_prefix G)"
  by (cases G) (auto intro: foldl_lcp_greatest)

lemma common_prefix_prefix: "s \<in> set G \<Longrightarrow> prefix (common_prefix G) s"
  by (cases G) (use foldl_lcp_prefix in auto)

text \<open>The character loop computes the length of the longest common prefix.\<close>

lemma match_len_lcp:
  "take i k = take i p \<Longrightarrow> i \<le> length k \<Longrightarrow> i \<le> length p \<Longrightarrow>
    match_len k p i = length (longest_common_prefix k p)"
proof (induction k p i rule: match_len.induct)
  case (1 k p i)
  let ?l = "longest_common_prefix k p"
  show ?case
  proof (cases "i < length k \<and> i < length p \<and> k ! i = p ! i")
    case True
    then have "take (Suc i) k = take (Suc i) p" using "1.prems" by (simp add: take_Suc_conv_app_nth)
    with True "1.IH" show ?thesis by (simp add: match_len.simps [of k p i])
  next
    case False
    have "prefix (take i k) ?l"
      by (rule longest_common_prefix_max_prefix) (metis take_is_prefix "1.prems"(1))+
    then have ge: "i \<le> length ?l" using "1.prems" by (auto dest: prefix_length_le)
    have pk: "prefix ?l k" and pp: "prefix ?l p"
      by (rule longest_common_prefix_prefix1, rule longest_common_prefix_prefix2)
    have "\<not> i < length ?l"
    proof
      assume "i < length ?l"
      moreover from this have "k ! i = ?l ! i" "p ! i = ?l ! i"
        using pk pp by (metis nth_append prefixE)+
      ultimately show False using False prefix_length_le [OF pk] prefix_length_le [OF pp] by simp
    qed
    with ge have "i = length ?l" by simp
    moreover have "match_len k p i = i" using False by (subst match_len.simps) auto
    ultimately show ?thesis by simp
  qed
qed

lemma take_match_len:
  assumes "take i k = take i p" "i \<le> length k" "i \<le> length p"
  shows "take (match_len k p i) k = longest_common_prefix k p"
  using match_len_lcp [OF assms] longest_common_prefix_prefix1 [of k p]
  by (metis append_eq_conv_conj prefixE)

subsection \<open>Groups\<close>

lemma prompt_group_snoc:
  "prompt_group (h @ [s]) g =
    prompt_group h g @ (if START_LEN < length s \<and> take (Suc START_LEN) s = g then [s] else [])"
  by (simp add: prompt_group_def)

lemma prompt_group_prefix: "s \<in> set (prompt_group h g) \<Longrightarrow> prefix g s"
  by (auto simp: prompt_group_def take_is_prefix)

lemma prompt_group_length: "s \<in> set (prompt_group h g) \<Longrightarrow> length g = Suc START_LEN"
  by (auto simp: prompt_group_def)

lemma common_prefix_group:
  assumes "prompt_group h g \<noteq> []"
  shows "START_LEN < length (common_prefix (prompt_group h g))"
    and "take (Suc START_LEN) (common_prefix (prompt_group h g)) = g"
proof -
  obtain s where s: "s \<in> set (prompt_group h g)" using assms by (cases "prompt_group h g") auto
  have len: "length g = Suc START_LEN" using prompt_group_length [OF s] .
  have "prefix g (common_prefix (prompt_group h g))"
    using assms prompt_group_prefix by (rule common_prefix_greatest)
  with len show "START_LEN < length (common_prefix (prompt_group h g))"
    and "take (Suc START_LEN) (common_prefix (prompt_group h g)) = g"
    by (auto simp: prefix_def)
qed

section \<open>The table represents the history\<close>

definition group_entry :: "string list \<Rightarrow> string \<Rightarrow> int \<Rightarrow> bool" where
  "group_entry h k v \<longleftrightarrow>
    START_LEN < length k \<and>
    (let G = prompt_group h (take (Suc START_LEN) k)
     in G \<noteq> [] \<and> k = common_prefix G \<and> v = int (length G))"

definition bucket_repr :: "string list \<Rightarrow> string \<Rightarrow> (string, int) dict \<Rightarrow> bool" where
  "bucket_repr h lk b \<longleftrightarrow> dict_ok b \<and>
    (\<forall>k v. map_of b k = Some v \<longleftrightarrow> take START_LEN k = lk \<and> group_entry h k v)"

definition matcher_repr :: "string list \<Rightarrow> prefix_matcher \<Rightarrow> bool" where
  "matcher_repr h m \<longleftrightarrow> dict_ok (prefix_counter m) \<and>
    (\<forall>lk b. map_of (prefix_counter m) lk = Some b \<longrightarrow> bucket_repr h lk b) \<and>
    (\<forall>s \<in> set h. START_LEN < length s \<longrightarrow> map_of (prefix_counter m) (take START_LEN s) \<noteq> None)"

lemma take_Suc_eq_iff:
  assumes "START_LEN < length k" "START_LEN < length p" "take START_LEN k = take START_LEN p"
  shows "take (Suc START_LEN) k = take (Suc START_LEN) p \<longleftrightarrow> k ! START_LEN = p ! START_LEN"
  using assms by (simp add: take_Suc_conv_app_nth)

lemma take_START_LEN_eq:
  "take (Suc START_LEN) k = take (Suc START_LEN) p \<Longrightarrow> take START_LEN k = take START_LEN p"
  by (metis min.absorb2 min.commute n_not_Suc_n nat_le_linear not_less_eq_eq take_take)

lemma group_entry_unique:
  "group_entry h k v \<Longrightarrow> group_entry h k' v' \<Longrightarrow>
    take (Suc START_LEN) k = take (Suc START_LEN) k' \<Longrightarrow> k = k' \<and> v = v'"
  by (auto simp: group_entry_def Let_def)

text \<open>One new prompt changes the entry of its own group only.\<close>

lemma group_entry_snoc_other:
  "take (Suc START_LEN) k \<noteq> take (Suc START_LEN) s \<Longrightarrow>
    group_entry (h @ [s]) k v \<longleftrightarrow> group_entry h k v"
  by (auto simp: group_entry_def prompt_group_snoc Let_def)

lemma group_entry_snoc_same:
  assumes "take (Suc START_LEN) k = take (Suc START_LEN) s" "START_LEN < length s"
    and "G = prompt_group h (take (Suc START_LEN) s)"
  shows "group_entry (h @ [s]) k v \<longleftrightarrow>
    k = common_prefix (G @ [s]) \<and> v = int (length G) + 1"
proof -
  have G': "prompt_group (h @ [s]) (take (Suc START_LEN) s) = G @ [s]"
    using assms by (simp add: prompt_group_snoc)
  have "START_LEN < length (common_prefix (G @ [s]))"
    using common_prefix_group(1) [of "h @ [s]" "take (Suc START_LEN) s"] G' by simp
  with assms(1) G' show ?thesis by (auto simp: group_entry_def Let_def)
qed

subsection \<open>The loop over a bucket\<close>

lemma add_loop_no_match:
  assumes "\<And>k. k \<in> set ks \<Longrightarrow> START_LEN < length k \<and> k ! START_LEN \<noteq> p ! START_LEN"
  shows "add_loop p ks b = (Inr (), dict_set p 1 b)"
  using assms
proof (induction ks)
  case (Cons k ks)
  have "START_LEN < length k" "k ! START_LEN \<noteq> p ! START_LEN" using Cons.prems [of k] by simp_all
  moreover have "add_loop p ks b = (Inr (), dict_set p 1 b)" using Cons by simp
  ultimately show ?case by simp
qed (simp add: py_return_def)

lemma add_loop_match:
  assumes "\<And>k. k \<in> set ks \<Longrightarrow> START_LEN < length k" and "k0 \<in> set ks"
    and "\<And>k. k \<in> set ks \<Longrightarrow> k ! START_LEN = p ! START_LEN \<longleftrightarrow> k = k0"
    and "map_of b k0 = Some v"
  shows "add_loop p ks b =
    (Inr (), if match_len k0 p START_LEN = length k0 then dict_set k0 (v + 1) b
             else dict_pop k0 (dict_set (take (match_len k0 p START_LEN) k0) (v + 1) b))"
  using assms(1-3)
proof (induction ks)
  case (Cons k ks)
  show ?case
  proof (cases "k = k0")
    case True
    with Cons.prems assms(4) show ?thesis by (simp add: Let_def py_return_def not_le)
  next
    case False
    moreover have "START_LEN < length k" using Cons.prems(1) by simp
    ultimately have "add_loop p (k # ks) b = add_loop p ks b" using Cons.prems(3) [of k] by simp
    with Cons False show ?thesis by simp
  qed
qed simp

lemma add_loop_repr:
  assumes repr: "bucket_repr h (take START_LEN s) b" and long: "START_LEN < length s"
  shows "\<exists>b'. add_loop s (dict_keys b) b = (Inr (), b') \<and> bucket_repr (h @ [s]) (take START_LEN s) b'"
proof -
  define G where "G = prompt_group h (take (Suc START_LEN) s)"
  define k' where "k' = common_prefix (G @ [s])"
  have entry: "map_of b k = Some v \<longleftrightarrow> take START_LEN k = take START_LEN s \<and> group_entry h k v" for k v
    using repr by (simp add: bucket_repr_def)
  have keyD: "START_LEN < length k \<and> take START_LEN k = take START_LEN s \<and> (\<exists>v. group_entry h k v)"
    if "k \<in> set (dict_keys b)" for k
    using that entry by (auto simp: group_entry_def dest!: key_map_of_Some)
  have same: "k ! START_LEN = s ! START_LEN \<longleftrightarrow> take (Suc START_LEN) k = take (Suc START_LEN) s"
    if "k \<in> set (dict_keys b)" for k
    using keyD [OF that] take_Suc_eq_iff [of k s] long by simp
  have final: "bucket_repr (h @ [s]) (take START_LEN s) b'"
    if "dict_ok b'" and b': "\<And>k. map_of b' k =
      (if take (Suc START_LEN) k = take (Suc START_LEN) s
       then (if k = k' then Some (int (length G) + 1) else None) else map_of b k)" for b'
    unfolding bucket_repr_def
  proof (intro conjI allI)
    fix k v
    show "map_of b' k = Some v \<longleftrightarrow> take START_LEN k = take START_LEN s \<and> group_entry (h @ [s]) k v"
    proof (cases "take (Suc START_LEN) k = take (Suc START_LEN) s")
      case True
      then show ?thesis
        using b' [of k] group_entry_snoc_same [OF True long G_def, of v] take_START_LEN_eq [OF True]
        by (auto simp: k'_def)
    next
      case False
      then show ?thesis using b' [of k] entry group_entry_snoc_other [OF False] by simp
    qed
  qed (fact that(1))
  have ok: "dict_ok b" using repr by (simp add: bucket_repr_def)
  show ?thesis
  proof (cases "G = []")
    case True
    then have none: "take (Suc START_LEN) k \<noteq> take (Suc START_LEN) s" if "k \<in> set (dict_keys b)" for k
      using keyD [OF that] by (auto simp: group_entry_def G_def Let_def)
    then have "add_loop s (dict_keys b) b = (Inr (), dict_set s 1 b)"
      using keyD same by (intro add_loop_no_match) auto
    moreover have "bucket_repr (h @ [s]) (take START_LEN s) (dict_set s 1 b)"
    proof (rule final)
      show "map_of (dict_set s 1 b) k =
        (if take (Suc START_LEN) k = take (Suc START_LEN) s
         then (if k = k' then Some (int (length G) + 1) else None) else map_of b k)" for k
        using True none by (auto simp: k'_def map_of_eq_None_iff)
    qed (simp add: ok)
    ultimately show ?thesis by blast
  next
    case False
    define k0 where "k0 = common_prefix G"
    have k0: "START_LEN < length k0" "take (Suc START_LEN) k0 = take (Suc START_LEN) s"
      using common_prefix_group [of h "take (Suc START_LEN) s"] False by (simp_all add: G_def k0_def)
    have e0: "group_entry h k0 (int (length G))"
      using k0 False by (simp add: group_entry_def G_def k0_def)
    have m0: "map_of b k0 = Some (int (length G))" using e0 entry take_START_LEN_eq [OF k0(2)] by simp
    have uniq: "take (Suc START_LEN) k = take (Suc START_LEN) s \<longleftrightarrow> k = k0" if "k \<in> set (dict_keys b)" for k
      using keyD [OF that] group_entry_unique [OF _ e0] k0(2) by auto
    have gone: "map_of b k = None" if "take (Suc START_LEN) k = take (Suc START_LEN) s" "k \<noteq> k0" for k
      using uniq [of k] that by (auto simp: map_of_eq_None_iff)
    have lcp: "match_len k0 s START_LEN = length k'" "take (match_len k0 s START_LEN) k0 = k'"
      using match_len_lcp [of START_LEN k0 s] take_match_len [of START_LEN k0 s] k0 long
        take_START_LEN_eq [OF k0(2)] common_prefix_snoc [OF False, of s] by (simp_all add: k'_def k0_def)
    have k': "take (Suc START_LEN) k' = take (Suc START_LEN) s"
      using common_prefix_group(2) [of "h @ [s]" "take (Suc START_LEN) s"] long
      by (simp add: prompt_group_snoc G_def k'_def)
    have loop: "add_loop s (dict_keys b) b =
        (Inr (), if length k' = length k0 then dict_set k0 (int (length G) + 1) b
                 else dict_pop k0 (dict_set k' (int (length G) + 1) b))" (is "_ = (_, ?b')")
      using add_loop_match [of "dict_keys b" k0 s b "int (length G)"] keyD same uniq m0 lcp
        map_of_Some_key [OF m0] by auto
    have eq: "k' = k0" if "length k' = length k0" using lcp that by simp
    have "bucket_repr (h @ [s]) (take START_LEN s) ?b'"
    proof (rule final)
      show "map_of ?b' k = (if take (Suc START_LEN) k = take (Suc START_LEN) s
          then (if k = k' then Some (int (length G) + 1) else None) else map_of b k)" for k
        using gone [of k] k0(2) k' eq by auto
    qed (simp add: ok)
    with loop show ?thesis by blast
  qed
qed

subsection \<open>Whole calls\<close>

lemma bucket_repr_other:
  assumes "bucket_repr h lk b" and "take START_LEN s \<noteq> lk"
  shows "bucket_repr (h @ [s]) lk b"
proof -
  have "group_entry (h @ [s]) k v \<longleftrightarrow> group_entry h k v" if "take START_LEN k = lk" for k v
    by (rule group_entry_snoc_other) (use that assms(2) take_START_LEN_eq [of k s] in auto)
  with assms(1) show ?thesis by (auto simp: bucket_repr_def)
qed

lemma bucket_repr_empty:
  assumes "\<forall>s \<in> set h. START_LEN < length s \<longrightarrow> take START_LEN s \<noteq> lk"
  shows "bucket_repr h lk []"
proof -
  have False if k: "take START_LEN k = lk" and e: "group_entry h k v" for k v
  proof -
    have "prompt_group h (take (Suc START_LEN) k) \<noteq> []" using e by (simp add: group_entry_def Let_def)
    then obtain s where "s \<in> set (prompt_group h (take (Suc START_LEN) k))"
      by (meson list.set_sel(1))
    then have "s \<in> set h" "START_LEN < length s" "take START_LEN s = take START_LEN k"
      using take_START_LEN_eq by (auto simp: prompt_group_def)
    with k assms show False by blast
  qed
  then show ?thesis by (auto simp: bucket_repr_def)
qed

lemma bucket_repr_short: "length s \<le> START_LEN \<Longrightarrow> bucket_repr (h @ [s]) = bucket_repr h"
  by (simp add: fun_eq_iff bucket_repr_def group_entry_def prompt_group_snoc)

lemma add_prefix_repr:
  assumes repr: "matcher_repr h m"
  shows "\<exists>m'. add_prefix s m = (Inr (), m') \<and> matcher_repr (h @ [s]) m'"
proof (cases "length s \<le> START_LEN")
  case True
  then show ?thesis
    using repr by (simp add: add_prefix_def matcher_repr_def bucket_repr_short)
next
  case False
  then have long: "START_LEN < length s" by simp
  let ?lk = "take START_LEN s"
  define b where "b = (case map_of (prefix_counter m) ?lk of None \<Rightarrow> [] | Some b \<Rightarrow> b)"
  have "bucket_repr h ?lk b"
    using repr bucket_repr_empty [of h ?lk]
    by (fastforce simp: b_def matcher_repr_def split: option.splits)
  then obtain b' where b': "add_loop s (dict_keys b) b = (Inr (), b')"
    and new: "bucket_repr (h @ [s]) ?lk b'"
    using add_loop_repr long by blast
  have "add_prefix s m = (Inr (), m\<lparr>prefix_counter := dict_set ?lk b' (prefix_counter
      (if dict_mem ?lk (prefix_counter m) then m
       else m\<lparr>prefix_counter := dict_set ?lk [] (prefix_counter m)\<rparr>))\<rparr>)" (is "_ = (_, ?m')")
    using long b' by (cases "map_of (prefix_counter m) ?lk")
      (simp_all add: add_prefix_def b_def Let_def key_iff_map_of py_return_def)
  moreover have "matcher_repr (h @ [s]) ?m'"
    using repr new bucket_repr_other [where h = h and s = s]
    by (auto simp: matcher_repr_def split: if_splits)
  ultimately show ?thesis by blast
qed

lemma add_prefixes_repr:
  "matcher_repr h m \<Longrightarrow> \<exists>m'. add_prefixes ps m = (Inr (), m') \<and> matcher_repr (h @ ps) m'"
proof (induction ps arbitrary: h m)
  case Nil
  then show ?case by (simp add: add_prefixes_def)
next
  case (Cons p ps)
  obtain m1 where m1: "add_prefix p m = (Inr (), m1)" "matcher_repr (h @ [p]) m1"
    using add_prefix_repr [OF Cons.prems] by blast
  from Cons.IH [OF m1(2)] m1(1) show ?case by (simp add: add_prefixes_def)
qed

lemma query_loop_none:
  "(\<And>k v. (k, v) \<in> set b \<Longrightarrow> \<not> (v > GP_THRESHOLD \<and> prefix k p)) \<Longrightarrow> query_loop p b = -1"
proof (induction b)
  case (Cons kv b)
  have "\<not> (snd kv > GP_THRESHOLD \<and> prefix (fst kv) p)"
    using Cons.prems [of "fst kv" "snd kv"] by simp
  moreover have "query_loop p b = -1" using Cons by (meson list.set_intros(2))
  ultimately show ?case by (cases kv) auto
qed simp

lemma query_loop_some:
  "(k0, v0) \<in> set b \<Longrightarrow> v0 > GP_THRESHOLD \<Longrightarrow> prefix k0 p \<Longrightarrow>
    (\<And>k v. (k, v) \<in> set b \<Longrightarrow> prefix k p \<Longrightarrow> k = k0) \<Longrightarrow> query_loop p b = int (length k0)"
proof (induction b)
  case (Cons kv b)
  obtain k v where kv: "kv = (k, v)" by (cases kv)
  show ?case
  proof (cases "v > GP_THRESHOLD \<and> prefix k p")
    case True
    with Cons.prems(4) [of k v] kv show ?thesis by simp
  next
    case False
    with Cons.prems(1-3) kv have "(k0, v0) \<in> set b" by auto
    then have "query_loop p b = int (length k0)"
      using Cons.IH Cons.prems(2-4) by (meson list.set_intros(2))
    with False kv show ?thesis by auto
  qed
qed simp

lemma query_prefix_spec:
  assumes "matcher_repr h m"
  shows "query_prefix p m = spec_query h p"
proof (cases "length p \<le> START_LEN")
  case True
  then show ?thesis by (simp add: query_prefix_def spec_query_def)
next
  case False
  then have long: "START_LEN < length p" by simp
  let ?g = "take (Suc START_LEN) p"
  let ?G = "prompt_group h ?g"
  show ?thesis
  proof (cases "map_of (prefix_counter m) (take START_LEN p)")
    case None
    have "\<not> (START_LEN < length s \<and> take (Suc START_LEN) s = ?g)" if "s \<in> set h" for s
      using assms that None take_START_LEN_eq [of s p] by (auto simp only: matcher_repr_def)
    then have "?G = []" by (simp add: prompt_group_def filter_empty_conv)
    with None long show ?thesis by (simp add: query_prefix_def spec_query_def Let_def GP_THRESHOLD_def)
  next
    case (Some b)
    then have repr: "bucket_repr h (take START_LEN p) b" using assms by (simp add: matcher_repr_def)
    have item: "(k, v) \<in> set b \<longleftrightarrow> take START_LEN k = take START_LEN p \<and> group_entry h k v" for k v
      using repr dict_ok_image_value [of b k v] by (simp add: bucket_repr_def)
    have mine: "k = common_prefix ?G \<and> v = int (length ?G)" if "(k, v) \<in> set b" "prefix k p" for k v
    proof -
      have e: "group_entry h k v" using that item by blast
      then have "START_LEN < length k" by (simp add: group_entry_def)
      with that(2) have "take (Suc START_LEN) k = ?g" by (auto simp: prefix_def)
      with e show ?thesis by (simp add: group_entry_def Let_def)
    qed
    show ?thesis
    proof (cases "GP_THRESHOLD < int (length ?G) \<and> prefix (common_prefix ?G) p")
      case True
      then have "?G \<noteq> []" by (auto simp: GP_THRESHOLD_def)
      then have "(common_prefix ?G, int (length ?G)) \<in> set b"
        using common_prefix_group [of h ?g] item take_START_LEN_eq [of "common_prefix ?G" p]
        by (simp add: group_entry_def)
      then have "query_loop p b = int (length (common_prefix ?G))"
        by (rule query_loop_some) (use True mine in blast)+
      with Some long True show ?thesis by (simp add: query_prefix_def spec_query_def)
    next
      case False
      then have "query_loop p b = -1" using mine by (intro query_loop_none) blast
      with Some long False show ?thesis by (auto simp: query_prefix_def spec_query_def Let_def)
    qed
  qed
qed

lemma matcher_repr_new: "matcher_repr [] new_prefix_matcher"
  by (simp add: matcher_repr_def new_prefix_matcher_def)

text \<open>
  C12. After any history of \<^verbatim>\<open>add_prefix\<close> calls, none of which raises,
  \<^verbatim>\<open>query_prefix\<close> answers exactly as the specification over that history: it returns
  \<open>n\<close> when more than \<^verbatim>\<open>_GP_THRESHOLD\<close> earlier prompts share the query's first
  \<^verbatim>\<open>_START_LEN + 1\<close> characters, their longest common prefix has length \<open>n\<close> and is
  a prefix of the query; otherwise \<open>-1\<close>.
\<close>

theorem prefix_matcher_refines_history:
  "\<exists>m. add_prefixes h new_prefix_matcher = (Inr (), m) \<and> query_prefix p m = spec_query h p"
  using add_prefixes_repr [OF matcher_repr_new, of h] query_prefix_spec by auto

end
