(* ===== verification/Recycle_Pool.thy ===== *)
theory Recycle_Pool
  imports Parrot_Prelude
begin

text \<open>
  \<^verbatim>\<open>parrot/utils/recycle_pool.py\<close>: the id allocator behind contexts, sessions,
  engines, graph nodes, tasks, variable seeds and the KV-cache blocks.
  The locale \<open>id_pool\<close> is the contract its clients rely on (an allocated id is not
  live, only live ids are freed), \<open>id_registry\<close> what a manager gets that keeps its
  objects in a dictionary keyed by pool ids; \<open>RecyclePool\<close> is shown to provide it.
\<close>

section \<open>The class\<close>

record recycle_pool =
  pool_size :: "int option"
  allocated_num :: int
  cur_max_id :: int
  free_ids :: "int list"
  history_max :: int
  debug_mode :: bool

definition new_pool :: "int option \<Rightarrow> bool \<Rightarrow> recycle_pool" where
  "new_pool psize debug =
    \<lparr>pool_size = psize, allocated_num = 0, cur_max_id = 0, free_ids = [],
     history_max = 0, debug_mode = debug\<rparr>"

definition get_allocated_num :: "recycle_pool \<Rightarrow> int" where
  "get_allocated_num p = allocated_num p"

definition get_history_max_allocated_num :: "recycle_pool \<Rightarrow> int" where
  "get_history_max_allocated_num p = history_max p"

definition pool_allocate :: "recycle_pool \<Rightarrow> (int, recycle_pool) py" where
  "pool_allocate p0 =
    (let p = p0\<lparr>allocated_num := allocated_num p0 + 1\<rparr> in
     if free_ids p = [] \<or> debug_mode p then
       (let p = p\<lparr>cur_max_id := cur_max_id p + 1\<rparr> in
        case pool_size p of
          Some n \<Rightarrow>
            if cur_max_id p \<ge> n then py_raise ParrotError p
            else py_return (cur_max_id p - 1) p
        | None \<Rightarrow> py_return (cur_max_id p - 1) p)
     else
       (let allocated_id = hd (free_ids p);
            p = p\<lparr>free_ids := tl (free_ids p)\<rparr>;
            p = p\<lparr>history_max := max (history_max p) (get_allocated_num p)\<rparr>
        in py_return allocated_id p))"

definition pool_free :: "int \<Rightarrow> recycle_pool \<Rightarrow> (unit, recycle_pool) py" where
  "pool_free i p0 =
    (let p = p0\<lparr>allocated_num := allocated_num p0 - 1\<rparr> in
     if i \<in> set (free_ids p) then py_raise ValueError p
     else py_return () (p\<lparr>free_ids := free_ids p @ [i]\<rparr>))"

section \<open>The contract of an id pool\<close>

locale id_pool =
  fixes alloc :: "'p \<Rightarrow> (int, 'p) py"
    and release :: "int \<Rightarrow> 'p \<Rightarrow> (unit, 'p) py"
    and pinv :: "'p \<Rightarrow> int set \<Rightarrow> bool"
  assumes alloc_ok: "pinv p L \<Longrightarrow> alloc p = (Inr i, p') \<Longrightarrow> 0 \<le> i \<and> i \<notin> L \<and> pinv p' (insert i L)"
    and alloc_fail: "pinv p L \<Longrightarrow> alloc p = (Inl e, p') \<Longrightarrow> pinv p' L"
    and release_ok: "pinv p L \<Longrightarrow> i \<in> L \<Longrightarrow> \<exists>p'. release i p = (Inr (), p') \<and> pinv p' (L - {i})"
    and pinv_nonneg: "pinv p L \<Longrightarrow> i \<in> L \<Longrightarrow> 0 \<le> i"
begin

lemma alloc_cases:
  assumes "pinv p L"
  obtains (ok) i p' where "alloc p = (Inr i, p')" "i \<notin> L" "0 \<le> i" "pinv p' (insert i L)"
    | (fail) e p' where "alloc p = (Inl e, p')" "pinv p' L"
proof (cases "fst (alloc p)")
  case (Inl e)
  then have "alloc p = (Inl e, snd (alloc p))" by (metis prod.collapse)
  with assms alloc_fail fail show thesis by blast
next
  case (Inr i)
  then have "alloc p = (Inr i, snd (alloc p))" by (metis prod.collapse)
  with assms alloc_ok ok show thesis by blast
qed

end

text \<open>
  A manager keeps its objects in a dictionary and takes their keys from a pool. Its
  invariant is that the keys are exactly the live ids of the pool.
\<close>

locale id_registry = id_pool alloc release pinv
  for alloc :: "'p \<Rightarrow> (int, 'p) py"
    and release :: "int \<Rightarrow> 'p \<Rightarrow> (unit, 'p) py"
    and pinv :: "'p \<Rightarrow> int set \<Rightarrow> bool"
begin

lemma register_fresh:
  assumes "pinv p (fst ` set d)" and "alloc p = (Inr i, p')"
  shows "i \<notin> fst ` set d" and "pinv p' (fst ` set (dict_set i v d))"
    and "dict_set i v d = d @ [(i, v)]"
  using alloc_ok [OF assms] by (auto simp: dict_simps dict_set_append)

lemma unregister_ok:
  assumes "pinv p (fst ` set d)" and "i \<in> fst ` set d"
  shows "\<exists>p'. release i p = (Inr (), p') \<and> pinv p' (fst ` set (dict_pop i d))"
  using release_ok [OF assms] by (simp add: dict_simps)

end

section \<open>\<open>RecyclePool\<close> provides the contract\<close>

text \<open>
  \<open>L\<close> is the set of ids handed out and not yet freed. A failed allocation still moves
  \<open>cur_max_id\<close>, so the ids below it are covered but not partitioned by the live and the
  free ones.
\<close>

definition pool_inv :: "recycle_pool \<Rightarrow> int set \<Rightarrow> bool" where
  "pool_inv p L \<longleftrightarrow>
    distinct (free_ids p) \<and> set (free_ids p) \<inter> L = {} \<and>
    set (free_ids p) \<union> L \<subseteq> {0..<cur_max_id p} \<and> 0 \<le> cur_max_id p \<and>
    (case pool_size p of None \<Rightarrow> True | Some n \<Rightarrow> \<forall>i \<in> L \<union> set (free_ids p). i + 1 < n)"

lemma pool_inv_new [simp]: "pool_inv (new_pool psize debug) {}"
  by (simp add: pool_inv_def new_pool_def split: option.splits)

lemma pool_allocate_inv:
  assumes "pool_inv p L" and "pool_allocate p = (Inr i, p')"
  shows "0 \<le> i" and "i \<notin> L" and "pool_inv p' (insert i L)"
proof -
  consider (fresh) "free_ids p = [] \<or> debug_mode p" | (reuse) x xs where "free_ids p = x # xs" "\<not> debug_mode p"
    by (cases "free_ids p") auto
  then have "0 \<le> i \<and> i \<notin> L \<and> pool_inv p' (insert i L)"
  proof cases
    case fresh
    with assms show ?thesis
      by (force simp: pool_allocate_def pool_inv_def Let_def split: option.splits if_splits)
  next
    case reuse
    with assms show ?thesis
      by (auto simp: pool_allocate_def pool_inv_def Let_def split: option.splits)
  qed
  then show "0 \<le> i" "i \<notin> L" "pool_inv p' (insert i L)" by simp_all
qed

lemma pool_allocate_fail_inv:
  assumes "pool_inv p L" and "pool_allocate p = (Inl e, p')"
  shows "pool_inv p' L"
  using assms
  by (force simp: pool_allocate_def pool_inv_def Let_def split: option.splits if_splits)

lemma pool_free_inv:
  assumes "pool_inv p L" and "i \<in> L"
  shows "\<exists>p'. pool_free i p = (Inr (), p') \<and> pool_inv p' (L - {i})"
  using assms by (auto simp: pool_free_def pool_inv_def Let_def split: option.splits)

lemma pool_inv_nonneg: "pool_inv p L \<Longrightarrow> i \<in> L \<Longrightarrow> 0 \<le> i"
  by (auto simp: pool_inv_def)

lemma pool_inv_bounded:
  assumes "pool_inv p L" and "pool_size p = Some n"
  shows "L \<subseteq> {0..<n - 1}"
proof
  fix i
  assume "i \<in> L"
  with assms have "0 \<le> i" "i + 1 < n" by (auto simp: pool_inv_def)
  then show "i \<in> {0..<n - 1}" by simp
qed

interpretation rp: id_registry pool_allocate pool_free pool_inv
proof unfold_locales
  fix p L i p'
  assume "pool_inv p L" "pool_allocate p = (Inr i, p')"
  then show "0 \<le> i \<and> i \<notin> L \<and> pool_inv p' (insert i L)" using pool_allocate_inv by blast
next
  fix p L e p'
  assume "pool_inv p L" "pool_allocate p = (Inl e, p')"
  then show "pool_inv p' L" by (rule pool_allocate_fail_inv)
next
  fix p L i
  assume "pool_inv p L" "i \<in> L"
  then show "\<exists>p'. pool_free i p = (Inr (), p') \<and> pool_inv p' (L - {i})" by (rule pool_free_inv)
next
  fix p L i
  assume "pool_inv p L" "i \<in> L"
  then show "0 \<le> i" by (rule pool_inv_nonneg)
qed

lemma pool_allocate_unbounded:
  assumes "pool_size p = None"
  shows "\<exists>i p'. pool_allocate p = (Inr i, p') \<and> pool_size p' = None"
  using assms by (auto simp: pool_allocate_def Let_def)

lemma pool_free_size:
  "pool_free i p = (r, p') \<Longrightarrow> pool_size p' = pool_size p"
  by (auto simp: pool_free_def Let_def split: if_splits)

section \<open>Runs of a pool\<close>

text \<open>
  A client's history: allocations, and frees of ids it holds. \<open>pool_run\<close> threads the
  pool and the set of held ids. A history that frees an id nobody holds is none of a well-behaved client (the class would
  put the id among the free ones, or raise): it has no result.
\<close>

datatype pool_op = Alloc | Free int

fun pool_run :: "pool_op list \<Rightarrow> recycle_pool \<Rightarrow> int set \<Rightarrow> (recycle_pool \<times> int set) option" where
  "pool_run [] p L = Some (p, L)"
| "pool_run (Alloc # ops) p L =
    (case pool_allocate p of (Inr i, p') \<Rightarrow> pool_run ops p' (insert i L) | (Inl e, p') \<Rightarrow> pool_run ops p' L)"
| "pool_run (Free i # ops) p L =
    (if i \<in> L then (case pool_free i p of (r, p') \<Rightarrow> pool_run ops p' (L - {i})) else None)"

lemma pool_run_inv:
  "pool_inv p L \<Longrightarrow> pool_run ops p L = Some (p', L') \<Longrightarrow> pool_inv p' L'"
proof (induction ops p L rule: pool_run.induct)
  case (2 ops p L)
  from \<open>pool_inv p L\<close> show ?case
  proof (cases rule: rp.alloc_cases)
    case (ok i q)
    with 2 show ?thesis by simp
  next
    case (fail e q)
    with 2 show ?thesis by simp
  qed
next
  case (3 i ops p L)
  show ?case
  proof (cases "i \<in> L")
    case True
    with 3 show ?thesis using rp.release_ok [of p L i] by auto
  next
    case False
    with 3 show ?thesis by simp
  qed
qed simp

lemma pool_run_size: "pool_run ops p L = Some (p', L') \<Longrightarrow> pool_size p' = pool_size p"
proof (induction ops p L rule: pool_run.induct)
  case (2 ops p L)
  have "pool_size (snd (pool_allocate p)) = pool_size p"
    by (simp add: pool_allocate_def Let_def split: option.splits)
  with 2 show ?case by (cases "pool_allocate p") (auto split: sum.splits)
next
  case (3 i ops p L)
  then show ?case by (auto split: if_splits prod.splits dest: pool_free_size)
qed simp

text \<open>The live ids of a bounded pool are below \<^verbatim>\<open>pool_size - 1\<close>: the last id is never used.\<close>

lemma pool_inv_card:
  assumes "pool_inv p L" and "pool_size p = Some n" and "0 < n"
  shows "finite L" and "int (card L) \<le> n - 1"
proof -
  have sub: "L \<subseteq> {0..<n - 1}" using pool_inv_bounded [OF assms(1,2)] .
  then show "finite L" using finite_subset by blast
  have "card L \<le> card {0..<n - 1}" by (rule card_mono) (use sub in auto)
  with \<open>0 < n\<close> show "int (card L) \<le> n - 1" by simp
qed

text \<open>
  C32. In every history of a pool that starts empty and whose client frees only ids it holds, an allocation that succeeds returns
  an id that no one holds; afterwards the client holds it, and frees of held ids always
  succeed.
\<close>

theorem pool_ids_unique:
  assumes "pool_run ops (new_pool psize debug) {} = Some (p, L)"
  shows "(\<forall>i p'. pool_allocate p = (Inr i, p') \<longrightarrow> i \<notin> L \<and> 0 \<le> i) \<and>
    (\<forall>i \<in> L. \<exists>p'. pool_free i p = (Inr (), p'))"
proof -
  have inv: "pool_inv p L" using pool_run_inv [OF pool_inv_new assms] .
  then show ?thesis using rp.alloc_ok rp.release_ok by blast
qed

theorem pool_ids_unique_witness:
  "pool_run [Alloc, Alloc, Free 0, Alloc] (new_pool (Some 4) False) {} =
      Some (\<lparr>pool_size = Some 4, allocated_num = 2, cur_max_id = 2, free_ids = [],
        history_max = 2, debug_mode = False\<rparr>, {0, 1}) \<and>
    (\<exists>p'. pool_free 1 \<lparr>pool_size = Some 4, allocated_num = 2, cur_max_id = 2, free_ids = [],
        history_max = 2, debug_mode = False\<rparr> = (Inr (), p'))"
proof -
  have run: "pool_run [Alloc, Alloc, Free 0, Alloc] (new_pool (Some 4) False) {} =
      Some (\<lparr>pool_size = Some 4, allocated_num = 2, cur_max_id = 2, free_ids = [],
        history_max = 2, debug_mode = False\<rparr>, {0, 1})"
    by (simp add: new_pool_def pool_allocate_def pool_free_def get_allocated_num_def
        py_return_def Let_def insert_commute)
  with pool_ids_unique [OF run] show ?thesis by simp
qed

text \<open>
  A bounded pool never hands out more than \<^verbatim>\<open>pool_size - 1\<close> ids at a time, each of
  them below \<^verbatim>\<open>pool_size - 1\<close>: the size check runs after the increment, so the last
  id of the range the pool is built for stays unused.
\<close>

lemma pool_capacity:
  assumes "pool_run ops (new_pool (Some n) debug) {} = Some (p, L)" and "0 < n"
  shows "int (card L) \<le> n - 1 \<and> (\<forall>i \<in> L. 0 \<le> i \<and> i < n - 1)"
proof -
  have inv: "pool_inv p L" using pool_run_inv [OF pool_inv_new assms(1)] .
  have size: "pool_size p = Some n"
    using pool_run_size [OF assms(1)] by (simp add: new_pool_def)
  show ?thesis
    using pool_inv_card [OF inv size \<open>0 < n\<close>] pool_inv_bounded [OF inv size] by auto
qed

lemma pool_capacity_witness:
  "pool_run [Alloc, Alloc] (new_pool (Some 2) False) {} =
      Some (\<lparr>pool_size = Some 2, allocated_num = 2, cur_max_id = 2, free_ids = [],
        history_max = 0, debug_mode = False\<rparr>, {0}) \<and>
    int (card {0 :: int}) \<le> 2 - 1"
proof -
  have run: "pool_run [Alloc, Alloc] (new_pool (Some 2) False) {} =
      Some (\<lparr>pool_size = Some 2, allocated_num = 2, cur_max_id = 2, free_ids = [],
        history_max = 0, debug_mode = False\<rparr>, {0})"
    by (simp add: new_pool_def pool_allocate_def py_return_def py_raise_def Let_def)
  with pool_capacity [OF run] show ?thesis by simp
qed

end
