(* ===== verification/Backend_Repr.thy ===== *)
theory Backend_Repr
  imports Recycle_Pool
begin

text \<open>
  The representation that the serve layer keeps of the backend:
  \<^verbatim>\<open>engine/config.py\<close> (\<^verbatim>\<open>EngineConfig\<close>), \<^verbatim>\<open>serve/backend_repr/model.py\<close>,
  \<^verbatim>\<open>engine.py\<close>, \<^verbatim>\<open>context.py\<close> and \<^verbatim>\<open>protocol/internal/runtime_info.py\<close>.
  Engines and contexts are shared, mutable objects: a reference to one is an index
  into the store that holds the objects in creation order, and an operation that reads
  an engine takes the store as a function from references to engines.
  Floats are only stored, passed on and multiplied here and are rationals.
\<close>

section \<open>Constants and configuration\<close>

definition NONE_CONTEXT_ID :: int where
  "NONE_CONTEXT_ID = - 1"

definition ENGINE_TYPE_BUILTIN :: string where
  "ENGINE_TYPE_BUILTIN = ''builtin''"

definition ENGINE_TYPE_OPENAI :: string where
  "ENGINE_TYPE_OPENAI = ''openai''"

definition ENGINE_TYPES :: "string list" where
  "ENGINE_TYPES = [ENGINE_TYPE_BUILTIN, ENGINE_TYPE_OPENAI]"

record engine_config =
  cfg_model :: string
  host :: string
  port :: int
  heartbeat_interval :: int
  engine_name :: string
  engine_type :: string
  random_seed :: int
  cfg_tokenizer :: string
  fill_chunk_size :: int
  dtype :: string
  device :: string
  tasks_capacity :: int
  tokens_capacity :: int

definition default_engine_config :: engine_config where
  "default_engine_config =
    \<lparr>cfg_model = ''unknown'', host = ''localhost'', port = 9001, heartbeat_interval = 3,
     engine_name = ''unknown'', engine_type = ENGINE_TYPE_BUILTIN, random_seed = 0,
     cfg_tokenizer = ''unknown'', fill_chunk_size = - 1, dtype = ''float16'', device = ''cuda'',
     tasks_capacity = 256, tokens_capacity = 99999999999999999\<rparr>"

text \<open>\<^verbatim>\<open>EngineConfig.verify_config\<close>: the subscript raises when \<^verbatim>\<open>engine_type\<close> is missing.\<close>

definition verify_config :: "(string, json) dict \<Rightarrow> 's \<Rightarrow> (bool, 's) py" where
  "verify_config config s =
    (if \<not> dict_mem ''instance'' config \<or> \<not> dict_mem ''scheduler'' config then py_return False s
     else py_bind (dict_get config ''engine_type'' s) (\<lambda>t s.
       if t \<notin> JStr ` set ENGINE_TYPES then py_return False s else py_return True s))"

section \<open>Language models\<close>

datatype model_type = TOKEN_ID | TEXT

definition MODEL_TYPE_MAP :: "(string, model_type) dict" where
  "MODEL_TYPE_MAP = [(ENGINE_TYPE_BUILTIN, TOKEN_ID), (ENGINE_TYPE_OPENAI, TEXT)]"

definition get_model_type :: "string \<Rightarrow> 's \<Rightarrow> (model_type, 's) py" where
  "get_model_type model_type_str s =
    (if model_type_str = ''token_id'' then py_return TOKEN_ID s
     else if model_type_str = ''text'' then py_return TEXT s
     else py_raise ParrotCoreUserError s)"

record language_model =
  model_name :: string
  model_tokenizer_name :: string
  language_model_type :: model_type

definition language_model_from_engine_config :: "engine_config \<Rightarrow> 's \<Rightarrow> (language_model, 's) py" where
  "language_model_from_engine_config config s =
    py_bind (dict_get MODEL_TYPE_MAP (engine_type config) s) (\<lambda>mt s.
      py_return \<lparr>model_name = cfg_model config, model_tokenizer_name = cfg_tokenizer config,
                 language_model_type = mt\<rparr> s)"

section \<open>Execution engines\<close>

datatype engine_status = RUNNING | DEAD | BAD

record engine_runtime_info =
  num_cached_tokens :: int
  num_max_blocks :: int
  num_running_jobs :: int
  num_total_jobs :: int
  cache_mem :: rat
  model_mem :: rat
  profiled_cpu_mem :: rat
  profiled_gpu_tensor_mem :: rat
  profiled_gpu_allocate_mem :: rat
  recent_average_latency :: rat

definition default_engine_runtime_info :: engine_runtime_info where
  "default_engine_runtime_info =
    \<lparr>num_cached_tokens = 0, num_max_blocks = 0, num_running_jobs = 0, num_total_jobs = 0,
     cache_mem = 0, model_mem = 0, profiled_cpu_mem = 0, profiled_gpu_tensor_mem = 0,
     profiled_gpu_allocate_mem = 0, recent_average_latency = 0\<rparr>"

record serve_layer_runtime_info =
  num_tasks :: int
  tokens_num :: rat
  tasks_num_upperbounds :: "(int, int) dict"

definition new_serve_layer_runtime_info :: serve_layer_runtime_info where
  "new_serve_layer_runtime_info = \<lparr>num_tasks = 0, tokens_num = 0, tasks_num_upperbounds = []\<rparr>"

record execution_engine =
  engine_id :: int
  config :: engine_config
  model :: language_model
  status :: engine_status
  bad_exception :: "py_error option"
  real_time_runtime_info :: engine_runtime_info
  serve_layer_info :: serve_layer_runtime_info

text \<open>A reference to an engine object, and the objects behind the references.\<close>

type_synonym engine_ref = nat
type_synonym engine_store = "engine_ref \<Rightarrow> execution_engine"

definition new_execution_engine :: "int \<Rightarrow> engine_config \<Rightarrow> language_model \<Rightarrow> execution_engine" where
  "new_execution_engine eid cfg m =
    \<lparr>engine_id = eid, config = cfg, model = m, status = RUNNING, bad_exception = None,
     real_time_runtime_info = default_engine_runtime_info,
     serve_layer_info = new_serve_layer_runtime_info\<rparr>"

definition engine_from_engine_config :: "int \<Rightarrow> engine_config \<Rightarrow> 's \<Rightarrow> (execution_engine, 's) py" where
  "engine_from_engine_config eid cfg s =
    py_bind (language_model_from_engine_config cfg s) (\<lambda>m s.
      py_return (new_execution_engine eid cfg m) s)"

definition mark_bad :: "py_error \<Rightarrow> execution_engine \<Rightarrow> execution_engine" where
  "mark_bad e eng = eng\<lparr>status := BAD, bad_exception := Some e\<rparr>"

definition is_running :: "execution_engine \<Rightarrow> bool" where
  "is_running eng = (status eng = RUNNING)"

definition engine_display_name :: "execution_engine \<Rightarrow> string" where
  "engine_display_name eng = engine_name (config eng)"

definition http_address :: "execution_engine \<Rightarrow> string" where
  "http_address eng = ''http://'' @ host (config eng) @ '':'' @ py_str (port (config eng))"

definition engine_model_name :: "execution_engine \<Rightarrow> string" where
  "engine_model_name eng = model_name (model eng)"

definition engine_model_type :: "execution_engine \<Rightarrow> model_type" where
  "engine_model_type eng = language_model_type (model eng)"

definition engine_tokenizer_name :: "execution_engine \<Rightarrow> 's \<Rightarrow> (string, 's) py" where
  "engine_tokenizer_name eng s =
    py_bind (parrot_assert (engine_model_type eng = TOKEN_ID) s) (\<lambda>_ s.
      py_return (model_tokenizer_name (model eng)) s)"

definition requires_token_ids :: "execution_engine \<Rightarrow> bool" where
  "requires_token_ids eng = (engine_model_type eng = TOKEN_ID)"

definition get_num_tasks :: "execution_engine \<Rightarrow> int" where
  "get_num_tasks eng = num_tasks (serve_layer_info eng)"

definition get_tokens_num :: "execution_engine \<Rightarrow> rat" where
  "get_tokens_num eng = tokens_num (serve_layer_info eng)"

definition get_remain_tokens_capacity :: "execution_engine \<Rightarrow> rat" where
  "get_remain_tokens_capacity eng = of_int (tokens_capacity (config eng)) - tokens_num (serve_layer_info eng)"

definition get_remain_tasks_capacity :: "execution_engine \<Rightarrow> int" where
  "get_remain_tasks_capacity eng = tasks_capacity (config eng) - num_tasks (serve_layer_info eng)"

definition get_tasks_num_upperbound :: "execution_engine \<Rightarrow> int" where
  "get_tasks_num_upperbound eng =
    foldl min 9999999999 (dict_values (tasks_num_upperbounds (serve_layer_info eng)))"

definition update_realtime_runtime_info :: "engine_runtime_info \<Rightarrow> execution_engine \<Rightarrow> execution_engine" where
  "update_realtime_runtime_info info eng = eng\<lparr>real_time_runtime_info := info\<rparr>"

definition get_cache_mem :: "execution_engine \<Rightarrow> rat" where
  "get_cache_mem eng = cache_mem (real_time_runtime_info eng)"

definition get_num_cached_tokens :: "execution_engine \<Rightarrow> int" where
  "get_num_cached_tokens eng = num_cached_tokens (real_time_runtime_info eng)"

section \<open>Contexts\<close>

type_synonym context_ref = nat

record ctx =
  context_id :: int
  ctx_engine :: engine_ref
  parent_context :: "context_ref option"
  start_event :: bool
  ready_event :: bool
  ctx_tokens_num :: int

definition new_ctx :: "int \<Rightarrow> engine_ref \<Rightarrow> context_ref option \<Rightarrow> ctx" where
  "new_ctx cid eng parent =
    \<lparr>context_id = cid, ctx_engine = eng, parent_context = parent,
     start_event = False, ready_event = False, ctx_tokens_num = 0\<rparr>"

definition has_parent_context :: "ctx \<Rightarrow> bool" where
  "has_parent_context c = (parent_context c \<noteq> None)"

definition parent_context_id :: "ctx list \<Rightarrow> ctx \<Rightarrow> int" where
  "parent_context_id heap c =
    (case parent_context c of Some p \<Rightarrow> context_id (heap ! p) | None \<Rightarrow> NONE_CONTEXT_ID)"

definition memory_usage :: "engine_store \<Rightarrow> ctx \<Rightarrow> rat" where
  "memory_usage E c =
    (let n = get_num_cached_tokens (E (ctx_engine c));
         memory_per_token = (if n > 0 then get_cache_mem (E (ctx_engine c)) / of_int n else 0)
     in memory_per_token * of_int (ctx_tokens_num c))"

definition engine_url :: "engine_store \<Rightarrow> ctx \<Rightarrow> string" where
  "engine_url E c = http_address (E (ctx_engine c))"

section \<open>Facts about engines\<close>

lemma foldl_min_le:
  "foldl min (a :: int) xs \<le> a" and foldl_min_le_member: "x \<in> set xs \<Longrightarrow> foldl min a xs \<le> x"
proof (induction xs arbitrary: a)
  case Nil
  { case 1 show ?case by simp }
  { case 2 then show ?case by simp }
next
  case (Cons y ys)
  { case 1 show ?case using Cons(1) [of "min a y"] by simp }
  { case 2 show ?case
    proof (cases "x = y")
      case True
      then show ?thesis using Cons(1) [of "min a y"] by simp
    next
      case False
      with 2 show ?thesis using Cons(2) [of "min a y"] by simp
    qed }
qed

lemma foldl_min_cases: "foldl min (a :: int) xs \<in> insert a (set xs)"
  by (induction xs arbitrary: a) (auto simp: min_def)

lemma foldl_min_greatest: "b \<le> a \<Longrightarrow> \<forall>x \<in> set xs. b \<le> x \<Longrightarrow> b \<le> foldl min (a :: int) xs"
  using foldl_min_cases [of a xs] by auto

text \<open>The bound of an engine is the smallest bound of the tasks it holds.\<close>

lemma tasks_num_upperbound_le:
  "map_of (tasks_num_upperbounds (serve_layer_info eng)) t = Some b \<Longrightarrow> get_tasks_num_upperbound eng \<le> b"
  unfolding get_tasks_num_upperbound_def
  by (intro foldl_min_le_member) (metis image_eqI map_of_SomeD set_map snd_conv)

lemma memory_usage_no_tokens [simp]:
  "get_num_cached_tokens (E (ctx_engine c)) \<le> 0 \<Longrightarrow> memory_usage E c = 0"
  by (simp add: memory_usage_def)

end
