(* ===== verification/Call_Request.thy ===== *)
theory Call_Request
  imports Parrot_Prelude
begin

text \<open>
  Call requests: \<^verbatim>\<open>serve/graph/call_request.py\<close>, \<^verbatim>\<open>serve/graph/perf_criteria.py\<close> and
  \<^verbatim>\<open>parrot/sampling_config.py\<close>. A payload is untyped JSON, so the fields that the sources
  copy from it without a check are \<open>json\<close> values here, read the way Python reads them
  (truth value, iteration, \<^verbatim>\<open>is None\<close>). The template is cut by the matches of the
  placeholder regex, \<open>finditer\<close>, and the loop of \<^verbatim>\<open>parse_from_payload\<close> is over them.
  The lemmas show that a parsed body prints back to the template, that positions number
  the chunks, and that a printed body is parsed back.
\<close>

section \<open>Performance criteria and sampling\<close>

datatype performance_criteria = LATENCY | THROUGHPUT | TTFT | TPOT

definition get_performance_criteria :: "string \<Rightarrow> 's \<Rightarrow> (performance_criteria, 's) py" where
  "get_performance_criteria criteria s =
    (if criteria = ''latency'' then py_return LATENCY s
     else if criteria = ''throughput'' then py_return THROUGHPUT s
     else if criteria = ''TTFT'' then py_return TTFT s
     else if criteria = ''TPOT'' then py_return TPOT s
     else py_raise NotImplementedError s)"

fun get_performance_criteria_str :: "performance_criteria \<Rightarrow> string" where
  "get_performance_criteria_str LATENCY = ''latency''"
| "get_performance_criteria_str THROUGHPUT = ''throughput''"
| "get_performance_criteria_str TTFT = ''TTFT''"
| "get_performance_criteria_str TPOT = ''TPOT''"

text \<open>The truth value of a JSON value, and the elements a \<^verbatim>\<open>for\<close> loop over it visits.\<close>

fun py_truth :: "json \<Rightarrow> bool" where
  "py_truth JNone = False"
| "py_truth (JBool b) = b"
| "py_truth (JInt n) = (n \<noteq> 0)"
| "py_truth (JFloat x) = (x \<noteq> 0)"
| "py_truth (JStr t) = (t \<noteq> [])"
| "py_truth (JList xs) = (xs \<noteq> [])"
| "py_truth (JDict d) = (d \<noteq> [])"

fun py_iter :: "json \<Rightarrow> json list option" where
  "py_iter (JStr t) = Some (map (\<lambda>c. JStr [c]) t)"
| "py_iter (JList xs) = Some xs"
| "py_iter (JDict d) = Some (map (\<lambda>e. JStr (fst e)) d)"
| "py_iter _ = None"

fun py_hashable :: "json \<Rightarrow> bool" where
  "py_hashable (JList _) = False"
| "py_hashable (JDict _) = False"
| "py_hashable _ = True"

text \<open>
  A dictionary takes \<^verbatim>\<open>1\<close>, \<^verbatim>\<open>True\<close> and \<^verbatim>\<open>1.0\<close> for the same key: hashable values that are numbers are
  compared as numbers.
\<close>

fun py_key :: "json \<Rightarrow> json" where
  "py_key (JInt n) = JFloat (of_int n)"
| "py_key (JBool b) = JFloat (of_bool b)"
| "py_key k = k"

definition py_mem :: "json \<Rightarrow> (json, 'v) dict \<Rightarrow> bool" where
  "py_mem k d = list_ex (\<lambda>e. py_key (fst e) = py_key k) d"

lemma py_key_str [simp]: "py_key k = JStr t \<longleftrightarrow> k = JStr t"
  by (cases k) simp_all

lemma py_mem_str [simp]: "py_mem (JStr t) d \<longleftrightarrow> JStr t \<in> fst ` set d"
  by (force simp: py_mem_def list_ex_iff)

record sampling_config =
  temperature :: json
  top_p :: json
  max_gen_length :: json
  ignore_tokenizer_eos :: json
  stop_token_ids :: json
  stop_str :: json
  presence_penalty :: json
  frequency_penalty :: json
  sample_n :: json
  best_of :: json
  logit_bias :: json
  repetition_penalty :: json
  length_penalty :: json

definition default_sampling_config :: sampling_config where
  "default_sampling_config =
    \<lparr>temperature = JFloat 1, top_p = JFloat 1, max_gen_length = JInt 512,
     ignore_tokenizer_eos = JBool False, stop_token_ids = JList [], stop_str = JNone,
     presence_penalty = JFloat 0, frequency_penalty = JFloat 0, sample_n = JInt 1,
     best_of = JInt 1, logit_bias = JNone, repetition_penalty = JFloat 0,
     length_penalty = JFloat 0\<rparr>"

text \<open>\<^verbatim>\<open>SamplingConfig(**d)\<close>: an unknown keyword is a \<^verbatim>\<open>TypeError\<close>.\<close>

definition set_sampling_field :: "string \<Rightarrow> json \<Rightarrow> sampling_config \<Rightarrow> sampling_config option" where
  "set_sampling_field k v c =
    (if k = ''temperature'' then Some (c\<lparr>temperature := v\<rparr>)
     else if k = ''top_p'' then Some (c\<lparr>top_p := v\<rparr>)
     else if k = ''max_gen_length'' then Some (c\<lparr>max_gen_length := v\<rparr>)
     else if k = ''ignore_tokenizer_eos'' then Some (c\<lparr>ignore_tokenizer_eos := v\<rparr>)
     else if k = ''stop_token_ids'' then Some (c\<lparr>stop_token_ids := v\<rparr>)
     else if k = ''stop_str'' then Some (c\<lparr>stop_str := v\<rparr>)
     else if k = ''presence_penalty'' then Some (c\<lparr>presence_penalty := v\<rparr>)
     else if k = ''frequency_penalty'' then Some (c\<lparr>frequency_penalty := v\<rparr>)
     else if k = ''n'' then Some (c\<lparr>sample_n := v\<rparr>)
     else if k = ''best_of'' then Some (c\<lparr>best_of := v\<rparr>)
     else if k = ''logit_bias'' then Some (c\<lparr>logit_bias := v\<rparr>)
     else if k = ''repetition_penalty'' then Some (c\<lparr>repetition_penalty := v\<rparr>)
     else if k = ''length_penalty'' then Some (c\<lparr>length_penalty := v\<rparr>)
     else None)"

fun sampling_config_of_dict :: "(string, json) dict \<Rightarrow> sampling_config \<Rightarrow> sampling_config option" where
  "sampling_config_of_dict [] c = Some c"
| "sampling_config_of_dict ((k, v) # d) c =
    (case set_sampling_field k v c of None \<Rightarrow> None | Some c' \<Rightarrow> sampling_config_of_dict d c')"

definition get_openai_params :: "sampling_config \<Rightarrow> (string, json) dict" where
  "get_openai_params c =
    [(''temperature'', temperature c), (''top_p'', top_p c), (''max_tokens'', max_gen_length c),
     (''stop'', stop_str c), (''presence_penalty'', presence_penalty c),
     (''frequency_penalty'', frequency_penalty c)]"

section \<open>Parameters\<close>

record function_parameter =
  param_name :: json
  is_output :: json
  param_var_id :: json
  param_value :: json

record semantic_function_parameter = function_parameter +
  param_sampling_config :: "sampling_config option"

text \<open>
  Keyword construction \<^verbatim>\<open>C(**parameter)\<close>: a missing required field or an unknown one is a
  \<^verbatim>\<open>TypeError\<close>; a missing optional field is \<^verbatim>\<open>None\<close>.
\<close>

definition check_keywords :: "string list \<Rightarrow> string list \<Rightarrow> (string, json) dict \<Rightarrow> bool" where
  "check_keywords required optional d \<longleftrightarrow>
    list_all (\<lambda>k. dict_mem k d) required \<and>
    list_all (\<lambda>k. k \<in> set (required @ optional)) (dict_keys d)"

definition field_or_none :: "(string, json) dict \<Rightarrow> string \<Rightarrow> json" where
  "field_or_none d k = (case map_of d k of None \<Rightarrow> JNone | Some v \<Rightarrow> v)"

text \<open>
  \<^verbatim>\<open>SemanticFunctionParameter.__post_init__\<close> on the raw fields: first the cast of the
  sampling configuration, then the checks in the order of the source. A sampling
  configuration of a payload is a dictionary, \<^verbatim>\<open>None\<close>, or a value that the cast leaves as it
  is: \<open>Inr\<close> carries what a \<^verbatim>\<open>SamplingConfig\<close> is known of.
\<close>

definition semantic_param_post_init ::
  "json \<Rightarrow> json \<Rightarrow> json \<Rightarrow> json \<Rightarrow> json \<Rightarrow> py_error + semantic_function_parameter" where
  "semantic_param_post_init nm out vid v samp =
    (let cast = (case samp of JDict d \<Rightarrow> map_option Some (sampling_config_of_dict d default_sampling_config)
                            | _ \<Rightarrow> Some None)
     in case cast of
          None \<Rightarrow> Inl TypeError
        | Some given \<Rightarrow>
            if py_truth out \<and> vid \<noteq> JNone then Inl ValueError
            else if \<not> py_truth out \<and> samp \<noteq> JNone then Inl ValueError
            else if vid \<noteq> JNone \<and> v \<noteq> JNone then Inl ValueError
            else if \<not> py_truth out \<and> vid = JNone \<and> v = JNone then Inl ValueError
            else Inr \<lparr>param_name = nm, is_output = out, param_var_id = vid, param_value = v,
                      param_sampling_config =
                        (if py_truth out \<and> samp = JNone then Some default_sampling_config else given)\<rparr>)"

definition new_semantic_parameter :: "json \<Rightarrow> py_error + semantic_function_parameter" where
  "new_semantic_parameter p =
    (case p of
       JDict d \<Rightarrow>
         if \<not> check_keywords [''name'', ''is_output''] [''var_id'', ''value'', ''sampling_config''] d
         then Inl TypeError
         else semantic_param_post_init (field_or_none d ''name'') (field_or_none d ''is_output'')
                (field_or_none d ''var_id'') (field_or_none d ''value'') (field_or_none d ''sampling_config'')
     | _ \<Rightarrow> Inl TypeError)"

definition native_param_post_init :: "json \<Rightarrow> json \<Rightarrow> json \<Rightarrow> json \<Rightarrow> py_error + function_parameter" where
  "native_param_post_init nm out vid v =
    (if py_truth out \<and> vid \<noteq> JNone then Inl ValueError
     else if vid \<noteq> JNone \<and> v \<noteq> JNone then Inl ValueError
     else if \<not> py_truth out \<and> vid = JNone \<and> v = JNone then Inl ValueError
     else Inr \<lparr>param_name = nm, is_output = out, param_var_id = vid, param_value = v\<rparr>)"

definition new_native_parameter :: "json \<Rightarrow> py_error + function_parameter" where
  "new_native_parameter p =
    (case p of
       JDict d \<Rightarrow>
         if \<not> check_keywords [''name'', ''is_output''] [''var_id'', ''value''] d then Inl TypeError
         else native_param_post_init (field_or_none d ''name'') (field_or_none d ''is_output'')
                (field_or_none d ''var_id'') (field_or_none d ''value'')
     | _ \<Rightarrow> Inl TypeError)"

definition has_var :: "('a) function_parameter_scheme \<Rightarrow> bool" where
  "has_var p = (param_var_id p \<noteq> JNone)"

definition has_value :: "('a) function_parameter_scheme \<Rightarrow> bool" where
  "has_value p = (param_value p \<noteq> JNone)"

definition should_create :: "('a) function_parameter_scheme \<Rightarrow> bool" where
  "should_create p = (py_truth (is_output p) \<or> \<not> has_var p)"

section \<open>Semantic call requests\<close>

record semantic_call_metadata =
  models :: json
  metadata_model_type :: json
  remove_pure_fill :: json
  cache_prefix :: json
  output_criteria :: json
  fuse_fill :: json

definition semantic_default_dict :: "(string, json) dict" where
  "semantic_default_dict =
    [(''models'', JList []), (''model_type'', JStr ''token_id''), (''remove_pure_fill'', JBool True),
     (''cache_prefix'', JBool True), (''output_criteria'', JNone), (''fuse_fill'', JBool False)]"

definition semantic_metadata_of_dict :: "(string, json) dict \<Rightarrow> semantic_call_metadata" where
  "semantic_metadata_of_dict d =
    \<lparr>models = field_or_none d ''models'', metadata_model_type = field_or_none d ''model_type'',
     remove_pure_fill = field_or_none d ''remove_pure_fill'',
     cache_prefix = field_or_none d ''cache_prefix'',
     output_criteria = field_or_none d ''output_criteria'', fuse_fill = field_or_none d ''fuse_fill''\<rparr>"

definition semantic_metadata_default :: semantic_call_metadata where
  "semantic_metadata_default = semantic_metadata_of_dict semantic_default_dict"

text \<open>The loop \<^verbatim>\<open>for key in REQUEST_METADATA_KEYS: if key in payload: metadata_dict[key] = payload[key]\<close>.\<close>

definition override_metadata :: "string list \<Rightarrow> (string, json) dict \<Rightarrow> (string, json) dict \<Rightarrow> (string, json) dict" where
  "override_metadata keys payload d =
    foldl (\<lambda>d key. case map_of payload key of None \<Rightarrow> d | Some v \<Rightarrow> dict_set key v d) d keys"

definition SEMANTIC_METADATA_KEYS :: "string list" where
  "SEMANTIC_METADATA_KEYS =
    [''models'', ''model_type'', ''remove_pure_fill'', ''cache_prefix'', ''output_criteria'', ''fuse_fill'']"

datatype body_chunk =
    TextChunk (pos_id: int) (chunk_text: string)
  | PlaceholderChunk (pos_id: int) (chunk_name: string)

record chunked_request =
  request_id :: int
  session_id :: int
  metadata :: semantic_call_metadata
  body :: "body_chunk list"
  parameters_map :: "(json, semantic_function_parameter) dict"

definition new_chunked_request :: "int \<Rightarrow> int \<Rightarrow> semantic_call_metadata \<Rightarrow> chunked_request" where
  "new_chunked_request rid sid m =
    \<lparr>request_id = rid, session_id = sid, metadata = m, body = [], parameters_map = []\<rparr>"

definition push_chunk :: "(int \<Rightarrow> string \<Rightarrow> body_chunk) \<Rightarrow> string \<Rightarrow> chunked_request \<Rightarrow> chunked_request" where
  "push_chunk chunk_type info r = r\<lparr>body := body r @ [chunk_type (int (length (body r))) info]\<rparr>"

fun add_pos :: "int \<Rightarrow> body_chunk \<Rightarrow> body_chunk" where
  "add_pos d (TextChunk i t) = TextChunk (i + d) t"
| "add_pos d (PlaceholderChunk i n) = PlaceholderChunk (i + d) n"

text \<open>\<^verbatim>\<open>split_prefix_chunk\<close>: the first chunk is mutated, a new one is inserted behind it.\<close>

definition split_prefix_chunk :: "int \<Rightarrow> chunked_request \<Rightarrow> (unit, chunked_request) py" where
  "split_prefix_chunk split_pos r =
    (case body r of
       [] \<Rightarrow> py_raise IndexError r
     | PlaceholderChunk i n # rest \<Rightarrow> py_raise ParrotError r
     | TextChunk i prefix_text # rest \<Rightarrow>
         py_bind (parrot_assert (0 \<le> split_pos \<and> split_pos < int (length prefix_text)) r) (\<lambda>_ r.
           py_return ()
             (r\<lparr>body := TextChunk i (take (nat split_pos) prefix_text) #
                        TextChunk 1 (drop (nat split_pos) prefix_text) #
                        map (add_pos 1) rest\<rparr>)))"

section \<open>Matching placeholders\<close>

text \<open>
  The regular expression \<^verbatim>\<open>{{[a-zA-Z_][a-zA-Z0-9_]*}}\<close>: the length of the match at the front of
  a string. The character class of the name has no brace, so the greedy star has one
  way to match.
\<close>

definition in_range :: "char \<Rightarrow> char \<Rightarrow> char \<Rightarrow> bool" where
  "in_range lo hi c \<longleftrightarrow> (of_char lo :: nat) \<le> of_char c \<and> (of_char c :: nat) \<le> of_char hi"

definition ident_start :: "char \<Rightarrow> bool" where
  "ident_start c \<longleftrightarrow> in_range (CHR ''a'') (CHR ''z'') c \<or> in_range (CHR ''A'') (CHR ''Z'') c \<or> c = CHR ''_''"

definition ident_char :: "char \<Rightarrow> bool" where
  "ident_char c \<longleftrightarrow> ident_start c \<or> in_range (CHR ''0'') (CHR ''9'') c"

definition match_here :: "string \<Rightarrow> nat option" where
  "match_here s =
    (if take 2 s = ''{{'' then
       (case drop 2 s of
          [] \<Rightarrow> None
        | c # cs \<Rightarrow>
            if ident_start c \<and> take 2 (dropWhile ident_char cs) = ''}}''
            then Some (length (takeWhile ident_char cs) + 5) else None)
     else None)"

lemma match_here_length: "match_here s = Some n \<Longrightarrow> 0 < n \<and> n \<le> length s"
proof -
  assume "match_here s = Some n"
  then obtain c cs where m: "take 2 s = ''{{''" "drop 2 s = c # cs"
      "take 2 (dropWhile ident_char cs) = ''}}''" "n = length (takeWhile ident_char cs) + 5"
    by (auto simp: match_here_def split: list.splits if_splits)
  have "2 \<le> length (dropWhile ident_char cs)" using arg_cong [OF m(3), of length] by simp
  then have "length (takeWhile ident_char cs) + 2 \<le> length cs"
    by (metis add_left_mono length_append takeWhile_dropWhile_id)
  moreover have "length s = length cs + 3" using arg_cong [OF m(2), of length] by simp
  ultimately show ?thesis using m(4) by simp
qed

text \<open>\<^verbatim>\<open>finditer\<close>: the leftmost matches that do not overlap, as start and end positions.\<close>

function finditer :: "nat \<Rightarrow> string \<Rightarrow> (nat \<times> nat) list" where
  "finditer i s =
    (case s of
       [] \<Rightarrow> []
     | c # cs \<Rightarrow>
        (case match_here s of
           None \<Rightarrow> finditer (i + 1) cs
         | Some n \<Rightarrow> (i, i + n) # finditer (i + n) (drop n s)))"
  by pat_completeness auto
termination
  by (relation "measure (\<lambda>(i, s). length s)") (auto dest: match_here_length)

declare finditer.simps [simp del]

text \<open>\<^verbatim>\<open>template[a:b]\<close> for positions of the string.\<close>

definition slice :: "nat \<Rightarrow> nat \<Rightarrow> string \<Rightarrow> string" where
  "slice a b s = take (b - a) (drop a s)"

text \<open>The loop over the matches, with \<^verbatim>\<open>last_pos\<close>; it returns the final \<^verbatim>\<open>last_pos\<close>.\<close>

fun push_matches :: "string \<Rightarrow> nat \<Rightarrow> (nat \<times> nat) list \<Rightarrow> chunked_request \<Rightarrow> nat \<times> chunked_request" where
  "push_matches template last_pos [] r = (last_pos, r)"
| "push_matches template last_pos ((start, stop) # ms) r =
    (let prev_text_chunk = slice last_pos start template;
         r = (if prev_text_chunk \<noteq> [] then push_chunk TextChunk prev_text_chunk r else r);
         r = push_chunk PlaceholderChunk (slice (start + 2) (stop - 2) template) r
     in push_matches template stop ms r)"

text \<open>Step 2 of \<^verbatim>\<open>parse_from_payload\<close>: the parameters, in the order of the payload.\<close>

fun add_parameters ::
  "(json \<Rightarrow> py_error + 'p) \<Rightarrow> ('p \<Rightarrow> json) \<Rightarrow> json list \<Rightarrow> (json, 'p) dict \<Rightarrow> py_error + (json, 'p) dict" where
  "add_parameters new nameof [] m = Inr m"
| "add_parameters new nameof (p # ps) m =
    (case new p of
       Inl e \<Rightarrow> Inl ParrotCoreUserError
     | Inr q \<Rightarrow>
         if \<not> py_hashable (nameof q) then Inl TypeError
         else if py_mem (nameof q) m then Inl ParrotError
         else add_parameters new nameof ps (dict_set (nameof q) q m))"

text \<open>Steps 1 to 3 of \<^verbatim>\<open>ChunkedSemanticCallRequest.parse_from_payload\<close>.\<close>

definition parse_from_payload :: "int \<Rightarrow> int \<Rightarrow> (string, json) dict \<Rightarrow> py_error + chunked_request" where
  "parse_from_payload rid sid payload =
    (case (map_of payload ''template'', map_of payload ''parameters'') of
       (None, _) \<Rightarrow> Inl ParrotError
     | (Some _, None) \<Rightarrow> Inl ParrotError
     | (Some template, Some parameters) \<Rightarrow>
        (let m = semantic_metadata_of_dict
                   (override_metadata SEMANTIC_METADATA_KEYS payload semantic_default_dict);
             r = new_chunked_request rid sid m
         in case py_iter parameters of
              None \<Rightarrow> Inl TypeError
            | Some ps \<Rightarrow>
              (case add_parameters new_semantic_parameter param_name ps [] of
                 Inl e \<Rightarrow> Inl e
               | Inr pm \<Rightarrow>
                 (case template of
                    JStr t \<Rightarrow>
                      (let (last_pos, r) = push_matches t 0 (finditer 0 t) (r\<lparr>parameters_map := pm\<rparr>);
                           last_text_chunk = drop last_pos t
                       in Inr (if \<not> py_truth (remove_pure_fill m) \<and> last_text_chunk \<noteq> []
                               then push_chunk TextChunk last_text_chunk r else r))
                  | _ \<Rightarrow> Inl TypeError))))"

section \<open>Printing a body\<close>

fun print_chunk :: "body_chunk \<Rightarrow> string" where
  "print_chunk (TextChunk i t) = t"
| "print_chunk (PlaceholderChunk i n) = ''{{'' @ n @ ''}}''"

definition print_body :: "body_chunk list \<Rightarrow> string" where
  "print_body cs = concat (map print_chunk cs)"

fun renumber :: "nat \<Rightarrow> body_chunk list \<Rightarrow> body_chunk list" where
  "renumber k [] = []"
| "renumber k (TextChunk i t # cs) = TextChunk (int k) t # renumber (k + 1) cs"
| "renumber k (PlaceholderChunk i n # cs) = PlaceholderChunk (int k) n # renumber (k + 1) cs"

text \<open>The position of a chunk is its index in the body.\<close>

definition positions_ok :: "body_chunk list \<Rightarrow> bool" where
  "positions_ok cs \<longleftrightarrow> map pos_id cs = map int [0..<length cs]"

definition ident :: "string \<Rightarrow> bool" where
  "ident n \<longleftrightarrow> (case n of [] \<Rightarrow> False | c # cs \<Rightarrow> ident_start c \<and> list_all ident_char cs)"

fun chunk_ok :: "body_chunk \<Rightarrow> bool" where
  "chunk_ok (TextChunk i t) = (t \<noteq> [])"
| "chunk_ok (PlaceholderChunk i n) = ident n"

lemma print_body_simps [simp]:
  "print_body [] = []"
  "print_body (c # cs) = print_chunk c @ print_body cs"
  "print_body (cs @ ds) = print_body cs @ print_body ds"
  by (simp_all add: print_body_def)

lemma positions_ok_nth: "positions_ok cs \<longleftrightarrow> (\<forall>i < length cs. pos_id (cs ! i) = int i)"
  unfolding positions_ok_def by (subst list_eq_iff_nth_eq) simp

lemma pos_id_add_pos: "pos_id (add_pos d c) = pos_id c + d"
  by (cases c) auto

lemma positions_ok_snoc: "positions_ok (cs @ [c]) \<longleftrightarrow> positions_ok cs \<and> pos_id c = int (length cs)"
  by (auto simp: positions_ok_def)

lemma push_chunk_positions:
  assumes "\<And>i t. pos_id (ct i t) = i" and "positions_ok (body r)"
  shows "positions_ok (body (push_chunk ct info r))"
  using assms by (simp add: push_chunk_def positions_ok_snoc)

lemma renumber_positions: "map pos_id cs = map int [k..<k + length cs] \<Longrightarrow> renumber k cs = cs"
proof (induction cs arbitrary: k)
  case (Cons c cs)
  have "[k..<k + length (c # cs)] = k # [Suc k..<Suc k + length cs]"
    by (simp add: upt_conv_Cons del: upt_Suc)
  with Cons.prems have "pos_id c = int k" and "map pos_id cs = map int [Suc k..<Suc k + length cs]"
    by (simp_all del: upt_Suc)
  with Cons.IH [of "Suc k"] show ?case by (cases c) auto
qed simp

lemma match_here_shape:
  assumes "match_here s = Some n"
  obtains name rest where "s = ''{{'' @ name @ ''}}'' @ rest" "ident name" "n = length name + 4"
proof -
  from assms obtain c cs where m: "take 2 s = ''{{''" "drop 2 s = c # cs" "ident_start c"
      "take 2 (dropWhile ident_char cs) = ''}}''" "n = length (takeWhile ident_char cs) + 5"
    by (auto simp: match_here_def split: list.splits if_splits)
  let ?w = "takeWhile ident_char cs"
  have "s = ''{{'' @ c # cs" using append_take_drop_id [of 2 s] m(1,2) by simp
  moreover have "cs = ?w @ ''}}'' @ drop 2 (dropWhile ident_char cs)"
    using append_take_drop_id [of 2 "dropWhile ident_char cs"] m(4)
    by (metis takeWhile_dropWhile_id)
  ultimately have "s = ''{{'' @ (c # ?w) @ ''}}'' @ drop 2 (dropWhile ident_char cs)" by simp
  moreover have "ident (c # ?w)" using m(3) by (auto simp: ident_def list_all_iff dest: set_takeWhileD)
  ultimately show ?thesis using that [of "c # ?w"] m(5) by simp
qed

lemma ident_char_no_brace: "\<not> ident_char (CHR ''}'')" "\<not> ident_start (CHR ''{'')"
  by (simp_all add: ident_char_def ident_start_def in_range_def)

lemma match_here_ident:
  assumes "ident n"
  shows "match_here (''{{'' @ n @ ''}}'' @ rest) = Some (length n + 4)"
proof -
  obtain c cs where n: "n = c # cs" "ident_start c" "list_all ident_char cs"
    using assms by (auto simp: ident_def split: list.splits)
  have "dropWhile ident_char (cs @ ''}}'' @ rest) = ''}}'' @ rest"
    and "takeWhile ident_char (cs @ ''}}'' @ rest) = cs"
    using n(3) ident_char_no_brace by (simp_all add: list_all_iff dropWhile_append3 takeWhile_append2)
  with n show ?thesis by (simp add: match_here_def)
qed

lemma match_here_no_brace: "c \<noteq> CHR ''{'' \<Longrightarrow> match_here (c # s) = None"
  by (cases s) (auto simp: match_here_def)

lemma finditer_skip: "match_here (c # cs) = None \<Longrightarrow> finditer i (c # cs) = finditer (i + 1) cs"
  by (subst finditer.simps) simp

lemma finditer_match: "match_here s = Some n \<Longrightarrow> finditer i s = (i, i + n) # finditer (i + n) (drop n s)"
  by (subst finditer.simps) (auto simp: match_here_def split: list.splits)

lemma finditer_text:
  "CHR ''{'' \<notin> set t \<Longrightarrow> finditer i (t @ s) = finditer (i + length t) s"
proof (induction t arbitrary: i)
  case (Cons c t)
  then have "match_here (c # t @ s) = None" by (intro match_here_no_brace) auto
  then have "finditer i ((c # t) @ s) = finditer (i + 1) (t @ s)" by (simp add: finditer_skip)
  with Cons show ?case by simp
qed simp

lemma finditer_ident:
  assumes "ident n"
  shows "finditer i (''{{'' @ n @ ''}}'' @ rest) =
    (i, i + (length n + 4)) # finditer (i + (length n + 4)) rest"
proof -
  have "drop (length n + 4) (''{{'' @ n @ ''}}'' @ rest) = rest"
    by (simp add: eval_nat_numeral)
  then show ?thesis
    using finditer_match [OF match_here_ident [OF assms, of rest], of i] by simp
qed

lemma finditer_Nil [simp]: "finditer i [] = []"
  by (simp add: finditer.simps)

section \<open>The parser and the printer\<close>

text \<open>
  Pushing the matches keeps what is printed: what the request prints, and then the
  template from \<^verbatim>\<open>last_pos\<close> on, stays the same.
\<close>

lemma slice_self_append: "slice (length p) (length p + length u) (p @ u @ s) = u"
  by (simp add: slice_def)

lemma slice_name:
  "slice (length p + 2) (length p + (length n + 4) - 2) (p @ ''{{'' @ n @ ''}}'' @ rest) = n"
  by (simp add: slice_def eval_nat_numeral)

lemma push_text_body:
  "body (if t \<noteq> [] then push_chunk TextChunk t r else r) =
    body r @ (if t \<noteq> [] then [TextChunk (int (length (body r))) t] else [])"
  by (simp add: push_chunk_def)

lemma push_chunk_body [simp]:
  "body (push_chunk ct info r) = body r @ [ct (int (length (body r))) info]"
  by (simp add: push_chunk_def)

definition body_wf :: "chunked_request \<Rightarrow> bool" where
  "body_wf r \<longleftrightarrow> positions_ok (body r) \<and> list_all chunk_ok (body r)"

lemma body_wf_push:
  "body_wf r \<Longrightarrow> t \<noteq> [] \<Longrightarrow> body_wf (push_chunk TextChunk t r)"
  "body_wf r \<Longrightarrow> ident n \<Longrightarrow> body_wf (push_chunk PlaceholderChunk n r)"
  by (simp_all add: body_wf_def push_chunk_positions positions_ok_snoc)

lemma push_matches_placeholder:
  assumes "ident n" and q: "q = p @ u @ ''{{'' @ n @ ''}}''"
  shows "push_matches (p @ u @ ''{{'' @ n @ ''}}'' @ rest) (length p)
      (finditer (length p + length u) (''{{'' @ n @ ''}}'' @ rest)) r =
    push_matches (q @ [] @ rest) (length q) (finditer (length q + length ([] :: string)) rest)
      (push_chunk PlaceholderChunk n (if u \<noteq> [] then push_chunk TextChunk u r else r))"
proof -
  let ?t = "p @ u @ ''{{'' @ n @ ''}}'' @ rest"
  have lq: "length p + length u + (length n + 4) = length q" by (simp add: q)
  have fi: "finditer (length p + length u) (''{{'' @ n @ ''}}'' @ rest) =
      (length p + length u, length q) # finditer (length q + length ([] :: string)) rest"
    unfolding finditer_ident [OF assms(1)] lq by simp
  have sl: "slice (length p) (length p + length u) ?t = u"
    "slice (length p + length u + 2) (length q - 2) ?t = n"
    using slice_name [of "p @ u" n rest] slice_self_append lq by simp_all
  have t: "?t = q @ [] @ rest" by (simp add: q)
  show ?thesis unfolding fi push_matches.simps Let_def sl by (simp only: t)
qed

lemma push_matches_prints:
  assumes "push_matches (p @ u @ s) (length p) (finditer (length p + length u) s) r = (lp, r')"
    and "body_wf r"
  shows "print_body (body r') @ drop lp (p @ u @ s) = print_body (body r) @ u @ s \<and> body_wf r' \<and>
    lp \<le> length (p @ u @ s)"
  using assms
proof (induction s arbitrary: p u r rule: length_induct)
  case (1 s)
  show ?case
  proof (cases s)
    case Nil
    with "1.prems" show ?thesis by auto
  next
    case (Cons c cs)
    show ?thesis
    proof (cases "match_here s")
      case None
      then have "finditer (length p + length u) s = finditer (length p + length (u @ [c])) cs"
        using Cons by (simp add: finditer_skip)
      moreover have "p @ u @ s = p @ (u @ [c]) @ cs" using Cons by simp
      ultimately have "push_matches (p @ (u @ [c]) @ cs) (length p) (finditer (length p + length (u @ [c])) cs) r = (lp, r')"
        using "1.prems"(1) by simp
      moreover have "length cs < length s" using Cons by simp
      ultimately have "print_body (body r') @ drop lp (p @ (u @ [c]) @ cs) = print_body (body r) @ (u @ [c]) @ cs \<and>
          body_wf r' \<and> lp \<le> length (p @ (u @ [c]) @ cs)"
        using "1.IH" "1.prems"(2) by blast
      with Cons show ?thesis by simp
    next
      case (Some k)
      then obtain n rest where s: "s = ''{{'' @ n @ ''}}'' @ rest" "ident n" by (rule match_here_shape)
      define r1 where "r1 = (if u \<noteq> [] then push_chunk TextChunk u r else r)"
      define r2 where "r2 = push_chunk PlaceholderChunk n r1"
      have r1: "print_body (body r1) = print_body (body r) @ u" "body_wf r1"
        using "1.prems"(2) by (auto simp: r1_def body_wf_push)
      have r2: "print_body (body r2) = print_body (body r) @ u @ ''{{'' @ n @ ''}}''" "body_wf r2"
        using r1 s(2) by (auto simp: r2_def body_wf_push)
      let ?q = "p @ u @ ''{{'' @ n @ ''}}''"
      have "push_matches (?q @ [] @ rest) (length ?q) (finditer (length ?q + length ([] :: string)) rest) r2 = (lp, r')"
        using "1.prems"(1) push_matches_placeholder [OF s(2) refl, of p u rest r]
        unfolding s(1) r2_def r1_def by simp
      moreover have "length rest < length s" using s(1) by simp
      ultimately have "print_body (body r') @ drop lp (?q @ [] @ rest) = print_body (body r2) @ [] @ rest \<and> body_wf r' \<and>
          lp \<le> length (?q @ [] @ rest)"
        using "1.IH" r2(2) by blast
      with r2(1) s(1) show ?thesis by simp
    qed
  qed
qed

text \<open>
  The other direction. A canonical body has no empty and no adjacent text chunks, no brace
  in its texts and identifiers as names.
\<close>

fun canonical :: "body_chunk list \<Rightarrow> bool" where
  "canonical [] = True"
| "canonical (PlaceholderChunk i n # cs) = (ident n \<and> canonical cs)"
| "canonical (TextChunk i t # cs) =
    (t \<noteq> [] \<and> CHR ''{'' \<notin> set t \<and>
     (case cs of TextChunk j u # _ \<Rightarrow> False | _ \<Rightarrow> True) \<and> canonical cs)"

definition push_tail :: "string \<Rightarrow> nat \<times> chunked_request \<Rightarrow> chunked_request" where
  "push_tail template lr =
    (let last_text_chunk = drop (fst lr) template
     in if last_text_chunk \<noteq> [] then push_chunk TextChunk last_text_chunk (snd lr) else snd lr)"

abbreviation text_chunks :: "string \<Rightarrow> body_chunk list" where
  "text_chunks u \<equiv> (if u \<noteq> [] then [TextChunk 0 u] else [])"

lemma renumber_text_chunks:
  "body (if u \<noteq> [] then push_chunk TextChunk u r else r) @
     renumber (length (body (if u \<noteq> [] then push_chunk TextChunk u r else r))) cs =
   body r @ renumber (length (body r)) (text_chunks u @ cs)"
  by simp

lemma push_chunk_only_body: "push_chunk ct info r = r\<lparr>body := body (push_chunk ct info r)\<rparr>"
  by (simp add: push_chunk_def)

lemma push_matches_canonical:
  assumes "canonical cs"
    and "u \<noteq> [] \<Longrightarrow> (case cs of TextChunk j t # _ \<Rightarrow> False | _ \<Rightarrow> True)"
  shows "push_tail (p @ u @ print_body cs)
      (push_matches (p @ u @ print_body cs) (length p)
        (finditer (length p + length u) (print_body cs)) r) =
    r\<lparr>body := body r @ renumber (length (body r)) (text_chunks u @ cs)\<rparr>"
  using assms
proof (induction cs arbitrary: p u r rule: canonical.induct)
  case 1
  then show ?case by (simp add: push_tail_def push_chunk_def)
next
  case (2 i n cs)
  define r1 where "r1 = (if u \<noteq> [] then push_chunk TextChunk u r else r)"
  let ?r2 = "push_chunk PlaceholderChunk n r1"
  let ?q = "p @ u @ ''{{'' @ n @ ''}}''"
  have n: "ident n" and cs: "canonical cs" using 2 by simp_all
  have "push_tail (?q @ [] @ print_body cs) (push_matches (?q @ [] @ print_body cs) (length ?q)
      (finditer (length ?q + length ([] :: string)) (print_body cs)) ?r2) =
    ?r2\<lparr>body := body ?r2 @ renumber (length (body ?r2)) cs\<rparr>"
    using "2.IH" [of "[]" ?q ?r2] cs by simp
  moreover have "push_matches (p @ u @ print_body (PlaceholderChunk i n # cs)) (length p)
      (finditer (length p + length u) (print_body (PlaceholderChunk i n # cs))) r =
    push_matches (?q @ [] @ print_body cs) (length ?q)
      (finditer (length ?q + length ([] :: string)) (print_body cs)) ?r2"
    using push_matches_placeholder [OF n refl, of p u "print_body cs" r] by (simp add: r1_def)
  ultimately show ?case by (simp add: r1_def push_chunk_def)
next
  case (3 i t cs)
  then have u: "u = []" by auto
  have t: "t \<noteq> []" "CHR ''{'' \<notin> set t" using 3 by simp_all
  have "push_tail (p @ t @ print_body cs) (push_matches (p @ t @ print_body cs) (length p)
      (finditer (length p + length t) (print_body cs)) r) =
    r\<lparr>body := body r @ renumber (length (body r)) (text_chunks t @ cs)\<rparr>"
    using "3.IH" [of t p r] "3.prems" by simp
  then show ?case using u t finditer_text [OF t(2)] by simp
qed

section \<open>Native call requests\<close>

record native_call_metadata =
  timeout :: json
  native_output_criteria :: json

definition native_default_dict :: "(string, json) dict" where
  "native_default_dict = [(''timeout'', JFloat 1), (''output_criteria'', JNone)]"

definition NATIVE_METADATA_KEYS :: "string list" where
  "NATIVE_METADATA_KEYS = [''timeout'', ''output_criteria'']"

definition native_metadata_of_dict :: "(string, json) dict \<Rightarrow> native_call_metadata" where
  "native_metadata_of_dict d =
    \<lparr>timeout = field_or_none d ''timeout'', native_output_criteria = field_or_none d ''output_criteria''\<rparr>"

record 'code native_request =
  native_request_id :: int
  native_session_id :: int
  func_name :: json
  executable_func :: "'code option"
  native_metadata :: native_call_metadata
  native_parameters_map :: "(json, function_parameter) dict"

text \<open>
  \<^verbatim>\<open>PyNativeCallRequest.parse_from_payload\<close>. Decoding the code (base64 and the marshalled
  function object) is a parameter. The variable \<^verbatim>\<open>func_code\<close> is assigned under the test that
  the payload has one only, so without it the constructor call raises.
\<close>

definition parse_native_from_payload ::
  "(json \<Rightarrow> py_error + 'code) \<Rightarrow> int \<Rightarrow> int \<Rightarrow> (string, json) dict \<Rightarrow> py_error + 'code native_request" where
  "parse_native_from_payload deserialize rid sid payload =
    (case (map_of payload ''func_name'', map_of payload ''parameters'') of
       (None, _) \<Rightarrow> Inl ParrotError
     | (Some _, None) \<Rightarrow> Inl ParrotError
     | (Some fname, Some parameters) \<Rightarrow>
        (let m = native_metadata_of_dict
                   (override_metadata NATIVE_METADATA_KEYS payload native_default_dict)
         in if field_or_none payload ''func_code'' = JNone then Inl UnboundLocalError
            else case deserialize (field_or_none payload ''func_code'') of
              Inl e \<Rightarrow> Inl e
            | Inr code \<Rightarrow>
              (case py_iter parameters of
                 None \<Rightarrow> Inl TypeError
               | Some ps \<Rightarrow>
                 (case add_parameters new_native_parameter param_name ps [] of
                    Inl e \<Rightarrow> Inl e
                  | Inr pm \<Rightarrow>
                      Inr \<lparr>native_request_id = rid, native_session_id = sid, func_name = fname,
                           executable_func = Some code, native_metadata = m,
                           native_parameters_map = pm\<rparr>))))"

section \<open>Properties\<close>

text \<open>What a successful parse goes through.\<close>

lemma parse_from_payloadE:
  assumes "parse_from_payload rid sid payload = Inr r"
  obtains t parameters ps pm m lp r1 where
    "map_of payload ''template'' = Some (JStr t)" "map_of payload ''parameters'' = Some parameters"
    "py_iter parameters = Some ps" "add_parameters new_semantic_parameter param_name ps [] = Inr pm"
    "m = semantic_metadata_of_dict (override_metadata SEMANTIC_METADATA_KEYS payload semantic_default_dict)"
    "push_matches t 0 (finditer 0 t) ((new_chunked_request rid sid m)\<lparr>parameters_map := pm\<rparr>) = (lp, r1)"
    "r = (if \<not> py_truth (remove_pure_fill m) \<and> drop lp t \<noteq> [] then push_chunk TextChunk (drop lp t) r1 else r1)"
  using assms
  by (auto simp: parse_from_payload_def Let_def
      split: option.splits sum.splits json.splits prod.splits)

lemma override_metadata_lookup:
  "map_of (override_metadata keys payload d) k =
    (if k \<in> set keys then (case map_of payload k of None \<Rightarrow> map_of d k | Some v \<Rightarrow> Some v) else map_of d k)"
  unfolding override_metadata_def
  by (induction keys arbitrary: d) (auto split: option.splits)

lemma push_chunk_frame [simp]:
  "metadata (push_chunk ct i r) = metadata r" "parameters_map (push_chunk ct i r) = parameters_map r"
  "request_id (push_chunk ct i r) = request_id r" "session_id (push_chunk ct i r) = session_id r"
  by (simp_all add: push_chunk_def)

lemma push_matches_frame:
  "push_matches t lp ms r = (lp', r') \<Longrightarrow>
    metadata r' = metadata r \<and> parameters_map r' = parameters_map r \<and>
    request_id r' = request_id r \<and> session_id r' = session_id r"
  by (induction t lp ms r rule: push_matches.induct) (auto simp: Let_def split: if_splits)

lemma body_wf_new [simp]: "body_wf ((new_chunked_request rid sid m)\<lparr>parameters_map := pm\<rparr>)"
  by (simp add: body_wf_def new_chunked_request_def positions_ok_def)

text \<open>
  What the parser must find, without the matcher: \<open>opens s\<close> says that a placeholder starts at the front of
  \<open>s\<close>. In a leftmost decomposition of a template the chunks print to the template up to the tail, names are identifiers, no
  placeholder starts inside a text chunk or in the tail, and every text chunk stands directly before a placeholder.
\<close>

definition opens :: "string \<Rightarrow> bool" where
  "opens s \<longleftrightarrow> (\<exists>n rest. ident n \<and> s = ''{{'' @ n @ ''}}'' @ rest)"

fun leftmost :: "body_chunk list \<Rightarrow> string \<Rightarrow> bool" where
  "leftmost [] tail = (\<forall>k. \<not> opens (drop k tail))"
| "leftmost (PlaceholderChunk i n # cs) tail = (ident n \<and> leftmost cs tail)"
| "leftmost (TextChunk i t # cs) tail =
    (t \<noteq> [] \<and> (\<forall>k < length t. \<not> opens (drop k (t @ print_body cs @ tail))) \<and>
     (case cs of PlaceholderChunk j n # _ \<Rightarrow> True | _ \<Rightarrow> False) \<and> leftmost cs tail)"

lemma opens_match_here: "opens s \<longleftrightarrow> match_here s \<noteq> None"
  unfolding opens_def by (metis match_here_ident match_here_shape option.exhaust option.distinct(1))

lemma opens_name:
  assumes "ident n" "ident n'" and "''{{'' @ n @ ''}}'' @ rest = ''{{'' @ n' @ ''}}'' @ rest'"
  shows "n = n' \<and> rest = rest'"
proof -
  have "length n = length n'" using match_here_ident [OF assms(1), of rest] match_here_ident [OF assms(2), of rest'] assms(3) by simp
  with assms(3) show ?thesis by simp
qed

lemma not_opens_Nil [simp]: "\<not> opens []"
  by (simp add: opens_def)

text \<open>There is one leftmost decomposition.\<close>

lemma leftmost_front:
  assumes "leftmost (TextChunk i t # cs) tail"
  obtains j n cs' where "cs = PlaceholderChunk j n # cs'" "ident n" "opens (print_body cs @ tail)"
  using assms by (auto simp: opens_def split: list.splits body_chunk.splits)

lemma leftmost_unique:
  assumes "leftmost cs tail" "leftmost ds tail'" "print_body cs @ tail = print_body ds @ tail'"
    and "map pos_id cs = map int [k..<k + length cs]" "map pos_id ds = map int [k..<k + length ds]"
  shows "cs = ds \<and> tail = tail'"
  using assms
proof (induction cs arbitrary: ds k)
  case Nil
  show ?case
  proof (cases ds)
    case (Cons d ds')
    have "\<not> opens (drop m (print_body ds @ tail'))" for m using Nil.prems(1,3) by (metis leftmost.simps(1) print_body_simps(1) append_Nil)
    moreover have "\<exists>m. opens (drop m (print_body ds @ tail'))"
    proof (cases d)
      case (TextChunk i t)
      then have "leftmost (TextChunk i t # ds') tail'" using Nil.prems(2) Cons by simp
      then have "opens (print_body ds' @ tail')" by (rule leftmost_front)
      then have "opens (drop (length t) (print_body ds @ tail'))" using Cons TextChunk by simp
      then show ?thesis ..
    next
      case (PlaceholderChunk i n)
      then have "opens (drop 0 (print_body ds @ tail'))" using Nil.prems(2) Cons by (auto simp: opens_def)
      then show ?thesis ..
    qed
    ultimately show ?thesis by blast
  qed (use Nil.prems in simp)
next
  case (Cons c cs)
  have up: "[k..<k + length (c # xs)] = k # [Suc k..<Suc k + length xs]" for xs :: "body_chunk list" and c
    by (simp add: upt_conv_Cons del: upt_Suc)
  have nf: "\<not> (\<exists>m. opens (drop m tail'))" if "ds = []" using that Cons.prems(2) by simp
  show ?case
  proof (cases ds)
    case Nil
    have "\<exists>m. opens (drop m (print_body (c # cs) @ tail))"
    proof (cases c)
      case (TextChunk i t)
      then have "leftmost (TextChunk i t # cs) tail" using Cons.prems(1) by simp
      then have "opens (print_body cs @ tail)" by (rule leftmost_front)
      then have "opens (drop (length t) (print_body (c # cs) @ tail))" using TextChunk by simp
      then show ?thesis ..
    next
      case (PlaceholderChunk i n)
      then have "opens (drop 0 (print_body (c # cs) @ tail))" using Cons.prems(1) by (auto simp: opens_def)
      then show ?thesis ..
    qed
    with Cons.prems(3) Nil nf show ?thesis by simp
  next
    case d: (Cons d ds')
    have pc: "pos_id c = int k" "map pos_id cs = map int [Suc k..<Suc k + length cs]"
      using Cons.prems(4) unfolding up by (simp_all del: upt_Suc)
    have pd: "pos_id d = int k" "map pos_id ds' = map int [Suc k..<Suc k + length ds']"
      using Cons.prems(5) unfolding d up by (simp_all del: upt_Suc)
    have step: "cs = ds' \<and> tail = tail'" if "print_chunk c = print_chunk d" "leftmost cs tail" "leftmost ds' tail'"
      using Cons.IH [OF that(2,3) _ pc(2) pd(2)] Cons.prems(3) d that(1) by simp
    show ?thesis
    proof (cases c)
      case c: (TextChunk i t)
      have lc: "leftmost (TextChunk i t # cs) tail" using Cons.prems(1) c by simp
      have oc: "opens (print_body cs @ tail)" using lc by (rule leftmost_front)
      show ?thesis
      proof (cases d)
        case e: (TextChunk j u)
        have ld: "leftmost (TextChunk j u # ds') tail'" using Cons.prems(2) d e by simp
        have od: "opens (print_body ds' @ tail')" using ld by (rule leftmost_front)
        have eq: "t @ print_body cs @ tail = u @ print_body ds' @ tail'" using Cons.prems(3) c d e by simp
        have "\<not> length t < length u"
        proof
          assume "length t < length u"
          moreover have "\<forall>k < length u. \<not> opens (drop k (u @ print_body ds' @ tail'))" using ld [unfolded leftmost.simps] by blast
          ultimately have "\<not> opens (drop (length t) (t @ print_body cs @ tail))" unfolding eq by blast
          with oc show False by simp
        qed
        moreover have "\<not> length u < length t"
        proof
          assume "length u < length t"
          moreover have "\<forall>k < length t. \<not> opens (drop k (t @ print_body cs @ tail))" using lc [unfolded leftmost.simps] by blast
          ultimately have "\<not> opens (drop (length u) (u @ print_body ds' @ tail'))" unfolding eq by blast
          with od show False by simp
        qed
        ultimately have "t = u" using eq by simp
        with step lc ld c d e pc pd show ?thesis by simp
      next
        case (PlaceholderChunk j n)
        then have "opens (print_body ds @ tail')" using Cons.prems(2) d by (auto simp: opens_def)
        then have "opens (drop 0 (t @ print_body cs @ tail))" using Cons.prems(3) c by simp
        with lc show ?thesis by auto
      qed
    next
      case c: (PlaceholderChunk i n)
      then have oc: "opens (print_body (c # cs) @ tail)" using Cons.prems(1) by (auto simp: opens_def)
      show ?thesis
      proof (cases d)
        case e: (TextChunk j u)
        then have ld: "leftmost (TextChunk j u # ds') tail'" using Cons.prems(2) d by simp
        have "opens (drop 0 (u @ print_body ds' @ tail'))" using oc Cons.prems(3) d e by simp
        with ld show ?thesis by auto
      next
        case e: (PlaceholderChunk j m)
        have idn: "ident n" "ident m" using Cons.prems(1,2) c d e by auto
        have "n = m" using opens_name [OF idn, of "print_body cs @ tail" "print_body ds' @ tail'"] Cons.prems(3) c d e by simp
        with step Cons.prems(1,2) c d e pc pd show ?thesis by simp
      qed
    qed
  qed
qed

text \<open>The loop over the matches finds it; \<open>u\<close> is the text since the last match.\<close>

lemma push_matches_leftmost:
  assumes "push_matches (p @ u @ s) (length p) (finditer (length p + length u) s) r = (lp, r')"
    and "\<forall>k < length u. \<not> opens (drop k (u @ s))"
  shows "\<exists>cs tail. body r' = body r @ cs \<and> drop lp (p @ u @ s) = tail \<and> u @ s = print_body cs @ tail \<and> leftmost cs tail"
  using assms
proof (induction s arbitrary: p u r rule: length_induct)
  case (1 s)
  show ?case
  proof (cases s)
    case Nil
    have "\<not> opens (drop k u)" for k using "1.prems"(2) Nil by (cases "k < length u") auto
    with Nil "1.prems"(1) show ?thesis by (intro exI [of _ "[]"] exI [of _ u]) auto
  next
    case (Cons c cs)
    show ?thesis
    proof (cases "match_here s")
      case None
      have fi: "finditer (length p + length u) s = finditer (length p + length (u @ [c])) cs"
        using Cons None by (simp add: finditer_skip)
      have e: "p @ u @ s = p @ (u @ [c]) @ cs" "u @ s = (u @ [c]) @ cs" using Cons by simp_all
      have "\<not> opens (drop k ((u @ [c]) @ cs))" if "k < length (u @ [c])" for k
      proof (cases "k = length u")
        case True
        with None Cons show ?thesis by (simp add: opens_match_here)
      next
        case False
        with that "1.prems"(2) show ?thesis unfolding e(2) [symmetric] by simp
      qed
      moreover have "length cs < length s" using Cons by simp
      ultimately have "\<exists>ds tail. body r' = body r @ ds \<and> drop lp (p @ (u @ [c]) @ cs) = tail \<and> (u @ [c]) @ cs = print_body ds @ tail \<and> leftmost ds tail"
        using "1.IH" "1.prems"(1) unfolding fi e(1) by blast
      then show ?thesis unfolding e .
    next
      case (Some k)
      then obtain n rest where s: "s = ''{{'' @ n @ ''}}'' @ rest" "ident n" by (rule match_here_shape)
      define r1 where "r1 = (if u \<noteq> [] then push_chunk TextChunk u r else r)"
      define r2 where "r2 = push_chunk PlaceholderChunk n r1"
      let ?q = "p @ u @ ''{{'' @ n @ ''}}''"
      have "push_matches (?q @ [] @ rest) (length ?q) (finditer (length ?q + length ([] :: string)) rest) r2 = (lp, r')"
        using "1.prems"(1) push_matches_placeholder [OF s(2) refl, of p u rest r]
        unfolding s(1) r2_def r1_def by simp
      moreover have "length rest < length s" using s(1) by simp
      moreover have "\<forall>k < length ([] :: string). \<not> opens (drop k ([] @ rest))" by simp
      ultimately obtain ds tail where ds: "body r' = body r2 @ ds" "drop lp (?q @ [] @ rest) = tail" "[] @ rest = print_body ds @ tail" "leftmost ds tail"
        using "1.IH" by blast
      define j where "j = int (length (body r1))"
      let ?cs = "(if u \<noteq> [] then [TextChunk (int (length (body r))) u] else []) @ PlaceholderChunk j n # ds"
      have "body r' = body r @ ?cs" using ds(1) by (simp add: r2_def r1_def j_def)
      moreover have "leftmost ?cs tail" using ds(3,4) s "1.prems"(2) by auto
      ultimately show ?thesis using ds(2,3) s(1) by (intro exI [of _ ?cs] exI [of _ tail]) auto
    qed
  qed
qed

text \<open>
  C24. The body of a parsed request is the leftmost decomposition of the template into texts and placeholders, which is
  unique: its chunks print, placeholders in double braces, to the template up to the tail behind the last placeholder; the names are
  identifiers; no placeholder starts inside a text chunk or in the tail. The tail is the last text chunk of the body when it is not empty
  and \<^verbatim>\<open>remove_pure_fill\<close> is off, and is dropped otherwise. Positions number the chunks.
\<close>

theorem parse_prints_template:
  assumes "parse_from_payload rid sid payload = Inr r"
    and "map_of payload ''template'' = Some (JStr t)"
  shows "positions_ok (body r) \<and>
    (\<exists>cs tail. leftmost cs tail \<and> print_body cs @ tail = t \<and>
      body r = cs @ (if py_truth (remove_pure_fill (metadata r)) \<or> tail = [] then [] else [TextChunk (int (length cs)) tail]) \<and>
      (\<forall>ds tail'. leftmost ds tail' \<and> print_body ds @ tail' = t \<and> positions_ok ds \<longrightarrow> ds = cs \<and> tail' = tail))"
proof -
  from assms(1) obtain t' pm m lp r1 where r:
    "map_of payload ''template'' = Some (JStr t')"
    "push_matches t' 0 (finditer 0 t') ((new_chunked_request rid sid m)\<lparr>parameters_map := pm\<rparr>) = (lp, r1)"
    "r = (if \<not> py_truth (remove_pure_fill m) \<and> drop lp t' \<noteq> [] then push_chunk TextChunk (drop lp t') r1 else r1)"
    by (rule parse_from_payloadE)
  have t: "t' = t" using r(1) assms(2) by simp
  have pm: "push_matches ([] @ [] @ t) (length ([] :: string)) (finditer (length ([] :: string) + length ([] :: string)) t)
      ((new_chunked_request rid sid m)\<lparr>parameters_map := pm\<rparr>) = (lp, r1)"
    using r(2) t by simp
  from push_matches_prints [OF this body_wf_new] have pr: "positions_ok (body r1)" by (simp add: body_wf_def)
  have "\<exists>cs tail. body r1 = cs \<and> drop lp t = tail \<and> t = print_body cs @ tail \<and> leftmost cs tail"
    using push_matches_leftmost [OF pm] by (simp add: new_chunked_request_def)
  then obtain cs tail where cs: "body r1 = cs" "drop lp t = tail" "t = print_body cs @ tail" "leftmost cs tail" by blast
  have meta: "metadata r = m" using push_matches_frame [OF r(2)] r(3) by (simp add: new_chunked_request_def)
  have uniq: "ds = cs \<and> tail' = tail" if "leftmost ds tail'" "print_body ds @ tail' = t" "positions_ok ds" for ds tail'
    using leftmost_unique [OF that(1) cs(4), of 0] that(2,3) cs(1,3) pr by (simp add: positions_ok_def)
  have "positions_ok (body r)" using r(3) pr by (auto simp: positions_ok_snoc)
  moreover have "body r = cs @ (if py_truth (remove_pure_fill (metadata r)) \<or> tail = [] then [] else [TextChunk (int (length cs)) tail])"
    using r(3) cs(1,2) t meta by simp
  moreover have "\<forall>ds tail'. leftmost ds tail' \<and> print_body ds @ tail' = t \<and> positions_ok ds \<longrightarrow> ds = cs \<and> tail' = tail"
    using uniq by blast
  ultimately show ?thesis using cs(3) [symmetric] cs(4) by blast
qed

abbreviation example_payload :: "(string, json) dict" where
  "example_payload \<equiv>
    [(''template'', JStr ''Hi {{a}}!{{b}}''),
     (''parameters'', JList
       [JDict [(''name'', JStr ''a''), (''is_output'', JBool False), (''value'', JStr ''x'')],
        JDict [(''name'', JStr ''b''), (''is_output'', JBool True)]])]"

lemma parse_example_body:
  "map_sum id body (parse_from_payload 0 0 example_payload) =
    Inr [TextChunk 0 ''Hi '', PlaceholderChunk 1 ''a'', TextChunk 2 ''!'', PlaceholderChunk 3 ''b'']"
  by code_simp

lemma parse_example: "\<exists>r. parse_from_payload 0 0 example_payload = Inr r"
  using parse_example_body by (cases "parse_from_payload 0 0 example_payload") simp_all

theorem parse_prints_template_witness:
  "\<exists>r cs tail. parse_from_payload 0 0 example_payload = Inr r \<and> leftmost cs tail \<and> print_body cs @ tail = ''Hi {{a}}!{{b}}'' \<and>
    body r = cs \<and> cs = [TextChunk 0 ''Hi '', PlaceholderChunk 1 ''a'', TextChunk 2 ''!'', PlaceholderChunk 3 ''b'']"
proof -
  let ?cs = "[TextChunk 0 ''Hi '', PlaceholderChunk 1 ''a'', TextChunk 2 ''!'', PlaceholderChunk 3 ''b'']"
  obtain r where r: "parse_from_payload 0 0 example_payload = Inr r" using parse_example by blast
  then have b: "body r = ?cs" using parse_example_body by simp
  from parse_prints_template [OF r, of "''Hi {{a}}!{{b}}''"] obtain cs tail where
    cs: "leftmost cs tail" "print_body cs @ tail = ''Hi {{a}}!{{b}}''"
      "body r = cs @ (if py_truth (remove_pure_fill (metadata r)) \<or> tail = [] then [] else [TextChunk (int (length cs)) tail])"
    by auto
  have "body r = cs" using cs(2,3) b by (auto split: if_splits)
  with cs b r show ?thesis by blast
qed

text \<open>
  A printed body is parsed back to itself: a payload whose template is the print of a
  canonical body, whose parameters are accepted and which keeps the trailing text
  (\<^verbatim>\<open>remove_pure_fill\<close> off) is parsed to a request with this body.
\<close>

lemma print_parse_roundtrip:
  assumes "canonical cs" and "positions_ok cs"
    and "map_of payload ''template'' = Some (JStr (print_body cs))"
    and "map_of payload ''parameters'' = Some parameters" and "py_iter parameters = Some ps"
    and "add_parameters new_semantic_parameter param_name ps [] = Inr pm"
    and "map_of payload ''remove_pure_fill'' = Some (JBool False)"
  shows "\<exists>r. parse_from_payload rid sid payload = Inr r \<and> body r = cs \<and> parameters_map r = pm"
proof -
  define m where "m = semantic_metadata_of_dict (override_metadata SEMANTIC_METADATA_KEYS payload semantic_default_dict)"
  define r0 where "r0 = (new_chunked_request rid sid m)\<lparr>parameters_map := pm\<rparr>"
  have rpf: "remove_pure_fill m = JBool False"
    using assms(7)
    by (simp add: m_def override_metadata_lookup semantic_metadata_of_dict_def field_or_none_def
        SEMANTIC_METADATA_KEYS_def)
  have "push_tail (print_body cs) (push_matches (print_body cs) 0 (finditer 0 (print_body cs)) r0) =
      r0\<lparr>body := renumber 0 cs\<rparr>"
    using push_matches_canonical [OF assms(1), of "[]" "[]" r0] by (simp add: r0_def new_chunked_request_def)
  moreover have "renumber 0 cs = cs"
    using assms(2) by (intro renumber_positions) (simp add: positions_ok_def)
  ultimately have "push_tail (print_body cs) (push_matches (print_body cs) 0 (finditer 0 (print_body cs)) r0) =
      r0\<lparr>body := cs\<rparr>" by simp
  moreover have "parse_from_payload rid sid payload =
      Inr (push_tail (print_body cs) (push_matches (print_body cs) 0 (finditer 0 (print_body cs)) r0))"
    using assms(3-6) rpf
    by (simp add: parse_from_payload_def push_tail_def Let_def case_prod_unfold flip: m_def r0_def)
  ultimately show ?thesis by (simp add: r0_def)
qed

lemma print_parse_roundtrip_witness:
  "\<exists>r. parse_from_payload 7 1
      [(''template'', JStr ''Say {{x}} now''), (''remove_pure_fill'', JBool False),
       (''parameters'', JList [JDict [(''name'', JStr ''x''), (''is_output'', JBool False), (''var_id'', JStr ''v'')]])] = Inr r \<and>
    body r = [TextChunk 0 ''Say '', PlaceholderChunk 1 ''x'', TextChunk 2 '' now'']"
proof -
  let ?cs = "[TextChunk 0 ''Say '', PlaceholderChunk 1 ''x'', TextChunk 2 '' now'']"
  let ?p = "[JDict [(''name'', JStr ''x''), (''is_output'', JBool False), (''var_id'', JStr ''v'')]]"
  have "canonical ?cs" "positions_ok ?cs" by code_simp+
  moreover have "\<exists>pm. add_parameters new_semantic_parameter param_name ?p [] = Inr pm"
    by (simp add: new_semantic_parameter_def check_keywords_def field_or_none_def semantic_param_post_init_def)
  ultimately show ?thesis
    using print_parse_roundtrip [of ?cs "[(''template'', JStr ''Say {{x}} now''),
      (''remove_pure_fill'', JBool False), (''parameters'', JList ?p)]" "JList ?p" ?p _ 7 1] by auto
qed

text \<open>
  Splitting the prefix chunk keeps the prompt: the body prints the same, has one chunk more,
  its positions still number the chunks, and the first chunk is the prefix of the
  requested length. It is refused (and nothing changes) outside the text of the first chunk.
\<close>

lemma split_prefix_keeps_prompt:
  assumes "positions_ok (body r)"
  shows "case split_prefix_chunk k r of
      (Inr _, r') \<Rightarrow> print_body (body r') = print_body (body r) \<and> positions_ok (body r') \<and>
        length (body r') = length (body r) + 1 \<and> chunk_text (hd (body r')) = take (nat k) (print_body (body r)) \<and>
        metadata r' = metadata r \<and> parameters_map r' = parameters_map r
    | (Inl e, r') \<Rightarrow> r' = r \<and> e = (if body r = [] then IndexError else ParrotError)"
proof (cases "body r")
  case Nil
  then show ?thesis by (simp add: split_prefix_chunk_def py_raise_def)
next
  case (Cons c cs)
  show ?thesis
  proof (cases c)
    case (PlaceholderChunk i n)
    with Cons show ?thesis by (simp add: split_prefix_chunk_def py_raise_def)
  next
    case (TextChunk i t)
    have pr: "print_body (map (add_pos d) cs) = print_body cs" for d
    proof (induction cs)
      case (Cons a cs)
      then show ?case by (cases a) auto
    qed simp
    have "pos_id (add_pos 1 (cs ! j)) = int (Suc (Suc j))" if "j < length cs" for j
      using assms Cons that by (auto simp: positions_ok_nth pos_id_add_pos dest: spec [of _ "Suc j"])
    moreover have i: "i = 0" using assms Cons TextChunk by (auto simp: positions_ok_nth)
    ultimately have ok: "positions_ok (TextChunk i u # TextChunk 1 w # map (add_pos 1) cs)" for u w
      unfolding positions_ok_nth by (auto simp: nth_Cons split: nat.split)
    show ?thesis
      using Cons TextChunk pr ok
      by (auto simp: split_prefix_chunk_def parrot_assert_def py_raise_def py_return_def)
  qed
qed

lemma split_prefix_keeps_prompt_witness:
  "print_body (body (snd (split_prefix_chunk 2
     ((new_chunked_request 0 0 semantic_metadata_default)\<lparr>body := [TextChunk 0 ''abcd'', PlaceholderChunk 1 ''x'']\<rparr>)))) = ''abcd{{x}}''"
proof -
  let ?r = "(new_chunked_request 0 0 semantic_metadata_default)\<lparr>body := [TextChunk 0 ''abcd'', PlaceholderChunk 1 ''x'']\<rparr>"
  have "positions_ok (body ?r)" by (simp add: positions_ok_def)
  from split_prefix_keeps_prompt [OF this, of 2] show ?thesis
    by (simp add: split_prefix_chunk_def py_return_def)
qed

text \<open>
  A well-formed parameter: an output has no variable yet, an input has exactly one of a
  variable and a value and no sampling configuration.
\<close>

definition param_valid :: "semantic_function_parameter \<Rightarrow> bool" where
  "param_valid p \<longleftrightarrow>
    (if py_truth (is_output p) then \<not> has_var p
     else has_var p \<noteq> has_value p \<and> param_sampling_config p = None)"

lemma new_semantic_parameter_valid: "new_semantic_parameter j = Inr p \<Longrightarrow> param_valid p"
  by (auto simp: new_semantic_parameter_def semantic_param_post_init_def param_valid_def
      has_var_def has_value_def Let_def split: json.splits option.splits if_splits)

lemma add_parameters_ok:
  assumes "add_parameters new nameof ps m = Inr m'" and "\<And>j q. new j = Inr q \<Longrightarrow> P q"
    and "distinct (map (py_key \<circ> fst) m)" and "\<forall>e \<in> set m. fst e = nameof (snd e) \<and> P (snd e)"
  shows "distinct (map (py_key \<circ> fst) m') \<and> (\<forall>e \<in> set m'. fst e = nameof (snd e) \<and> P (snd e)) \<and>
    map (Inr \<circ> snd) m' = map (Inr \<circ> snd) m @ map new ps"
  using assms
proof (induction ps arbitrary: m)
  case (Cons p ps)
  from Cons.prems(1) obtain q where q: "new p = Inr q" "\<not> py_mem (nameof q) m"
      "add_parameters new nameof ps (dict_set (nameof q) q m) = Inr m'"
    by (auto split: sum.splits if_splits)
  have n: "nameof q \<notin> fst ` set m" "py_key (nameof q) \<notin> set (map (py_key \<circ> fst) m)"
    using q(2) by (force simp: py_mem_def list_ex_iff)+
  have vals: "\<forall>e \<in> set (dict_set (nameof q) q m). fst e = nameof (snd e) \<and> P (snd e)"
    using Cons.prems(2) [OF q(1)] Cons.prems(4) n(1) by (simp add: dict_set_append)
  have dist: "distinct (map (py_key \<circ> fst) (dict_set (nameof q) q m))"
    using Cons.prems(3) n by (simp add: dict_set_append comp_def)
  show ?case using Cons.IH [OF q(3) Cons.prems(2) dist vals] q(1) by (simp add: dict_set_append [OF n(1)])
qed simp

text \<open>
  C33. The parameters of a parsed request: one entry per parameter of the payload, in its order, under
  names that Python tells apart. An input has either a variable or a value, and no sampling configuration; an output names
  no variable (it may carry a value). A new semantic variable is made for exactly the parameters without a variable.
\<close>

theorem parsed_parameters_valid:
  assumes "parse_from_payload rid sid payload = Inr r"
  shows "distinct (map (py_key \<circ> fst) (parameters_map r)) \<and>
    (\<exists>parameters ps. map_of payload ''parameters'' = Some parameters \<and> py_iter parameters = Some ps \<and>
      map (Inr \<circ> snd) (parameters_map r) = map new_semantic_parameter ps) \<and>
    list_all (\<lambda>(k, p). k = param_name p \<and> param_valid p \<and> should_create p = (\<not> has_var p)) (parameters_map r)"
proof -
  from assms obtain parameters ps pm m lp t r1 where r:
    "add_parameters new_semantic_parameter param_name ps [] = Inr pm"
    "map_of payload ''parameters'' = Some parameters" "py_iter parameters = Some ps"
    "push_matches t 0 (finditer 0 t) ((new_chunked_request rid sid m)\<lparr>parameters_map := pm\<rparr>) = (lp, r1)"
    "r = (if \<not> py_truth (remove_pure_fill m) \<and> drop lp t \<noteq> [] then push_chunk TextChunk (drop lp t) r1 else r1)"
    by (rule parse_from_payloadE)
  have "parameters_map r = pm" using r(5) push_matches_frame [OF r(4)] by simp
  moreover have "distinct (map (py_key \<circ> fst) pm) \<and> (\<forall>e \<in> set pm. fst e = param_name (snd e) \<and> param_valid (snd e)) \<and>
      map (Inr \<circ> snd) pm = map new_semantic_parameter ps"
    using add_parameters_ok [OF r(1), of param_valid] new_semantic_parameter_valid by auto
  ultimately show ?thesis
    using r(2,3) by (auto simp: list_all_iff should_create_def param_valid_def split: if_splits)
qed

theorem parsed_parameters_valid_witness:
  "\<exists>r. parse_from_payload 0 0 example_payload = Inr r \<and> distinct (map (py_key \<circ> fst) (parameters_map r)) \<and>
    length (parameters_map r) = 2"
proof -
  obtain r where "parse_from_payload 0 0 example_payload = Inr r" using parse_example by blast
  moreover from this parsed_parameters_valid [OF this]
  have "distinct (map (py_key \<circ> fst) (parameters_map r))" "map (Inr \<circ> snd) (parameters_map r) = map new_semantic_parameter
      [JDict [(''name'', JStr ''a''), (''is_output'', JBool False), (''value'', JStr ''x'')],
       JDict [(''name'', JStr ''b''), (''is_output'', JBool True)]]"
    by auto
  ultimately show ?thesis by (metis (no_types, lifting) length_map list.size(3,4) One_nat_def Suc_1 plus_1_eq_Suc add.commute)
qed

text \<open>
  A native call request without code is never accepted: the parser always raises, since
  \<^verbatim>\<open>func_code\<close> is unbound when the payload has no (or a null) \<^verbatim>\<open>func_code\<close>.
\<close>

lemma native_without_code_raises:
  assumes "field_or_none payload ''func_code'' = JNone"
  shows "parse_native_from_payload deserialize rid sid payload =
    (if dict_mem ''func_name'' payload \<and> dict_mem ''parameters'' payload
     then Inl UnboundLocalError else Inl ParrotError)"
  using assms by (auto simp: parse_native_from_payload_def dict_mem_def key_iff_map_of split: option.splits)

lemma native_without_code_raises_witness:
  "parse_native_from_payload (\<lambda>_. Inr ()) 0 0 [(''func_name'', JStr ''f''), (''parameters'', JList [])] =
    Inl UnboundLocalError"
  using native_without_code_raises [of "[(''func_name'', JStr ''f''), (''parameters'', JList [])]" "\<lambda>_. Inr ()" 0 0]
  by (simp add: field_or_none_def)

lemma performance_criteria_roundtrip:
  "get_performance_criteria (get_performance_criteria_str c) s = py_return c s"
  by (cases c) (simp_all add: get_performance_criteria_def)

end
