(* ===== verification/Tokenizers.thy ===== *)
theory Tokenizers
  imports Parrot_Prelude
begin

text \<open>
  \<^verbatim>\<open>serve/tokenizer_wrapper.py\<close>: the tokenizers in use, by name. The tokenizers themselves are
  third-party objects: \<open>'tok\<close> is their type, and a \<open>tokenizer_lib\<close> gives loading by name
  (which may raise), encoding and decoding.
\<close>

record 'tok tokenizer_lib =
  from_pretrained :: "string \<Rightarrow> py_error + 'tok"
  encode :: "'tok \<Rightarrow> string \<Rightarrow> int list"
  decode :: "'tok \<Rightarrow> int list \<Rightarrow> string"

type_synonym 'tok tokenizers = "(string, 'tok) dict"

definition register_tokenizer :: "'tok tokenizer_lib \<Rightarrow> string \<Rightarrow> 'tok tokenizers \<Rightarrow> (unit, 'tok tokenizers) py" where
  "register_tokenizer lib name ts =
    (if \<not> dict_mem name ts then
       (case from_pretrained lib name of
          Inl e \<Rightarrow> py_raise e ts
        | Inr tok \<Rightarrow> py_return () (dict_set name tok ts))
     else py_return () ts)"

definition remove_tokenizer :: "string \<Rightarrow> 'tok tokenizers \<Rightarrow> (unit, 'tok tokenizers) py" where
  "remove_tokenizer name ts =
    py_bind (parrot_assert (dict_mem name ts) ts) (\<lambda>_ ts. py_return () (dict_pop name ts))"

definition get_tokenizer :: "string \<Rightarrow> 'tok tokenizers \<Rightarrow> ('tok, 'tok tokenizers) py" where
  "get_tokenizer name ts =
    py_bind (parrot_assert (dict_mem name ts) ts) (\<lambda>_ ts. dict_get ts name ts)"

definition tokenize :: "'tok tokenizer_lib \<Rightarrow> string \<Rightarrow> string \<Rightarrow> 'tok tokenizers \<Rightarrow> (int list, 'tok tokenizers) py" where
  "tokenize lib inp name ts =
    py_bind (get_tokenizer name ts) (\<lambda>tok ts. py_return (encode lib tok inp) ts)"

fun tokenize_loop ::
  "'tok tokenizer_lib \<Rightarrow> string \<Rightarrow> string list \<Rightarrow> (string, int list) dict \<Rightarrow> 'tok tokenizers \<Rightarrow>
   ((string, int list) dict, 'tok tokenizers) py" where
  "tokenize_loop lib inp [] result ts = py_return result ts"
| "tokenize_loop lib inp (name # names) result ts =
    py_bind (tokenize lib inp name ts) (\<lambda>ids ts. tokenize_loop lib inp names (dict_set name ids result) ts)"

definition tokenize_all :: "'tok tokenizer_lib \<Rightarrow> string \<Rightarrow> 'tok tokenizers \<Rightarrow> ((string, int list) dict, 'tok tokenizers) py" where
  "tokenize_all lib inp ts = tokenize_loop lib inp (dict_keys ts) [] ts"

definition detokenize :: "'tok tokenizer_lib \<Rightarrow> int list \<Rightarrow> string \<Rightarrow> 'tok tokenizers \<Rightarrow> (string, 'tok tokenizers) py" where
  "detokenize lib ids name ts =
    py_bind (get_tokenizer name ts) (\<lambda>tok ts. py_return (decode lib tok ids) ts)"

lemma register_tokenizer_ok:
  assumes "from_pretrained lib name = Inr tok"
  shows "\<exists>ts'. register_tokenizer lib name ts = (Inr (), ts') \<and> fst ` set ts' = insert name (fst ` set ts)"
proof (cases "name \<in> fst ` set ts")
  case True
  then have "register_tokenizer lib name ts = (Inr (), ts)" by (simp add: register_tokenizer_def)
  with True show ?thesis by blast
next
  case False
  then have "register_tokenizer lib name ts = (Inr (), dict_set name tok ts)"
    using assms by (simp add: register_tokenizer_def)
  then show ?thesis using dict_keys_set by metis
qed

lemma tokenize_member:
  "map_of ts name = Some tok \<Longrightarrow> tokenize lib inp name ts = py_return (encode lib tok inp) ts"
  by (simp add: tokenize_def get_tokenizer_def map_of_Some_key)

lemma tokenize_loop_ok:
  assumes "set names \<subseteq> fst ` set ts"
  shows "\<exists>res. tokenize_loop lib inp names result ts = (Inr res, ts) \<and>
    map_of res = (\<lambda>n. if n \<in> set names then map_option (\<lambda>tok. encode lib tok inp) (map_of ts n)
                       else map_of result n)"
  using assms
proof (induction names arbitrary: result)
  case (Cons n ns)
  obtain tok where tok: "map_of ts n = Some tok" using Cons.prems key_map_of_Some [of n ts] by auto
  obtain res where "tokenize_loop lib inp ns (dict_set n (encode lib tok inp) result) ts = (Inr res, ts)"
    "map_of res = (\<lambda>k. if k \<in> set ns then map_option (\<lambda>tok. encode lib tok inp) (map_of ts k)
                        else map_of (dict_set n (encode lib tok inp) result) k)"
    using Cons.IH [of "dict_set n (encode lib tok inp) result"] Cons.prems by auto
  then show ?case using tok by (auto simp: tokenize_member fun_eq_iff)
qed simp

text \<open>Tokenizing with all tokenizers succeeds and gives each tokenizer's encoding of the text.\<close>

lemma tokenize_all_ok:
  "\<exists>res. tokenize_all lib inp ts = (Inr res, ts) \<and>
    map_of res = (\<lambda>n. map_option (\<lambda>tok. encode lib tok inp) (map_of ts n))"
proof -
  obtain res where res: "tokenize_loop lib inp (dict_keys ts) [] ts = (Inr res, ts)"
    "map_of res = (\<lambda>n. if n \<in> set (dict_keys ts) then map_option (\<lambda>tok. encode lib tok inp) (map_of ts n)
                        else map_of [] n)"
    using tokenize_loop_ok [of "dict_keys ts" ts lib inp "[]"] by auto
  then have "map_of res n = map_option (\<lambda>tok. encode lib tok inp) (map_of ts n)" for n
    by (cases "map_of ts n") (simp_all add: key_iff_map_of)
  with res(1) show ?thesis by (auto simp: tokenize_all_def)
qed

end
