(* ===== verification/Completion_Task.thy ===== *)
theory Completion_Task
  imports Backend_Repr Call_Request Tokenizers
begin

text \<open>
  Completion tasks: \<^verbatim>\<open>serve/scheduler/completion_task.py\<close>, \<^verbatim>\<open>schedule_annotation.py\<close>,
  \<^verbatim>\<open>task_creator.py\<close> and the two methods of \<^verbatim>\<open>ExecutionEngine\<close> that account a task.
  A task wraps a completion chain of the graph. What tasks, the scheduler and the context
  manager read of a chain is the record \<open>comp_chain\<close>: the nodes its two iterators visit,
  the request's metadata, the groups, and of the Gen node its sampling configuration
  and the activation of its variable.
  The theorems show that the engine accounting is exact: adding and removing a task
  restores the engine, and the counters are sums over the tasks the engine holds.
\<close>

section \<open>Chains as tasks see them\<close>

record chain_node =
  node_var_id :: string
  node_is_gen :: bool
  node_is_constant_prefix :: bool
  node_content :: "string option"

record gen_node_view =
  gen_sampling_config :: "sampling_config option"
  gen_criteria :: "performance_criteria option"
  gen_depth :: int

record comp_chain =
  chain_session_id :: int
  chain_request_id :: int
  sv_created :: bool
  chain_iter :: "chain_node list"
  chain_iter_fill :: "chain_node list"
  chain_metadata :: semantic_call_metadata
  chain_groups :: "nat list"
  first_sv :: nat
  gen_node :: "gen_node_view option"

section \<open>Tasks\<close>

record schedule_annotation =
  tasks_num_upperbound :: int
  tokens_num_upperbound :: int
  ddl_requirement :: rat

definition default_schedule_annotation :: schedule_annotation where
  "default_schedule_annotation =
    \<lparr>tasks_num_upperbound = 256, tokens_num_upperbound = 2048, ddl_requirement = 0\<rparr>"

datatype task_status = CREATED | INQUEUE | EXECUTING | FINISHED | ERROR

record completion_task =
  task_id :: int
  chain :: comp_chain
  task_status :: task_status
  tokenized_result :: "(string, int list list) dict option"
  contexts :: "context_ref list"
  scheduled_event :: bool
  annotation :: schedule_annotation
  task_engine :: "engine_ref option"

definition new_task :: "int \<Rightarrow> comp_chain \<Rightarrow> schedule_annotation \<Rightarrow> completion_task" where
  "new_task tid ch ann =
    \<lparr>task_id = tid, chain = ch, task_status = CREATED, tokenized_result = None, contexts = [],
     scheduled_event = False, annotation = ann, task_engine = None\<rparr>"

definition is_tokenized :: "completion_task \<Rightarrow> bool" where
  "is_tokenized t = (tokenized_result t \<noteq> None)"

definition context_bound :: "completion_task \<Rightarrow> bool" where
  "context_bound t = (length (contexts t) > 0)"

definition is_scheduled :: "completion_task \<Rightarrow> bool" where
  "is_scheduled t = scheduled_event t"

text \<open>The result of the fill node is appended to the list of each tokenizer.\<close>

definition add_tokenized :: "string \<times> int list \<Rightarrow> (string, int list list) dict \<Rightarrow> (string, int list list) dict" where
  "add_tokenized kv d =
    (let d' = (if \<not> dict_mem (fst kv) d then dict_set (fst kv) [] d else d)
     in dict_set (fst kv) (the (map_of d' (fst kv)) @ [snd kv]) d')"

definition tokenize_chain :: "'tok tokenizer_lib \<Rightarrow> 'tok tokenizers \<Rightarrow> completion_task \<Rightarrow> (unit, completion_task) py" where
  "tokenize_chain lib ts t =
    py_bind (parrot_assert (\<not> is_tokenized t) t) (\<lambda>_ t.
    py_bind (parrot_assert (sv_created (chain t)) t) (\<lambda>_ t.
      py_for (\<lambda>fill_node t.
          case node_content fill_node of
            None \<Rightarrow> py_raise ParrotError t
          | Some inp \<Rightarrow>
              (case fst (tokenize_all lib inp ts) of
                 Inl e \<Rightarrow> py_raise e t
               | Inr res \<Rightarrow>
                   py_return () (t\<lparr>tokenized_result := map_option (fold add_tokenized res) (tokenized_result t)\<rparr>)))
        (chain_iter_fill (chain t)) (t\<lparr>tokenized_result := Some []\<rparr>)))"

text \<open>
  \<^verbatim>\<open>get_token_nums\<close>: the fill tokens and the generation length. A chain without a Gen node or a
  parameter without a \<^verbatim>\<open>SamplingConfig\<close> raises \<^verbatim>\<open>AttributeError\<close>, a length that is no number \<^verbatim>\<open>TypeError\<close>.
  A payload may give the length as a float or a bool, which \<^verbatim>\<open>+=\<close> takes as a number; the counts are rationals, floats without rounding.
\<close>

definition gen_length :: "comp_chain \<Rightarrow> 's \<Rightarrow> (rat, 's) py" where
  "gen_length ch s =
    (case gen_node ch of
       None \<Rightarrow> py_raise AttributeError s
     | Some g \<Rightarrow>
        (case gen_sampling_config g of
           None \<Rightarrow> py_raise AttributeError s
         | Some sc \<Rightarrow> (case max_gen_length sc of
               JInt n \<Rightarrow> py_return (of_int n) s
             | JBool b \<Rightarrow> py_return (of_bool b) s
             | JFloat x \<Rightarrow> py_return x s
             | _ \<Rightarrow> py_raise TypeError s)))"

definition get_token_nums :: "completion_task \<Rightarrow> string \<Rightarrow> 's \<Rightarrow> (rat, 's) py" where
  "get_token_nums t tokenizer_name s =
    (case tokenized_result t of
       None \<Rightarrow> py_raise ParrotError s
     | Some res \<Rightarrow>
        py_bind (dict_get res tokenizer_name s) (\<lambda>ids s.
        py_bind (gen_length (chain t) s) (\<lambda>n s.
          py_return (of_int (foldl (\<lambda>tokens_num token_ids. tokens_num + int (length token_ids)) 0 ids) + n) s)))"

section \<open>Accounting a task on its engine\<close>

definition update_servelayer_runtime_info_add_task ::
  "completion_task \<Rightarrow> execution_engine \<Rightarrow> (unit, execution_engine) py" where
  "update_servelayer_runtime_info_add_task t eng =
    py_bind (parrot_assert (is_scheduled t) eng) (\<lambda>_ eng.
      let info = serve_layer_info eng;
          info = info\<lparr>num_tasks := num_tasks info + 1,
                      tasks_num_upperbounds :=
                        dict_set (task_id t) (tasks_num_upperbound (annotation t)) (tasks_num_upperbounds info)\<rparr>;
          eng = eng\<lparr>serve_layer_info := info\<rparr>
      in if engine_model_type eng = TOKEN_ID then
           py_bind (engine_tokenizer_name eng eng) (\<lambda>name eng.
           py_bind (get_token_nums t name eng) (\<lambda>n eng.
             py_return () (eng\<lparr>serve_layer_info := (serve_layer_info eng)\<lparr>tokens_num := tokens_num (serve_layer_info eng) + n\<rparr>\<rparr>)))
         else py_return () eng)"

definition update_servelayer_runtime_info_remove_task ::
  "completion_task \<Rightarrow> execution_engine \<Rightarrow> (unit, execution_engine) py" where
  "update_servelayer_runtime_info_remove_task t eng =
    py_bind (parrot_assert (is_scheduled t) eng) (\<lambda>_ eng.
      let eng = eng\<lparr>serve_layer_info := (serve_layer_info eng)\<lparr>num_tasks := num_tasks (serve_layer_info eng) - 1\<rparr>\<rparr>
      in if \<not> dict_mem (task_id t) (tasks_num_upperbounds (serve_layer_info eng)) then py_raise KeyError eng
         else
           let eng = eng\<lparr>serve_layer_info := (serve_layer_info eng)\<lparr>tasks_num_upperbounds :=
                           dict_pop (task_id t) (tasks_num_upperbounds (serve_layer_info eng))\<rparr>\<rparr>
           in if engine_model_type eng = TOKEN_ID then
                py_bind (engine_tokenizer_name eng eng) (\<lambda>name eng.
                py_bind (get_token_nums t name eng) (\<lambda>n eng.
                  py_return () (eng\<lparr>serve_layer_info := (serve_layer_info eng)\<lparr>tokens_num := tokens_num (serve_layer_info eng) - n\<rparr>\<rparr>)))
              else py_return () eng)"

text \<open>\<^verbatim>\<open>schedule_to\<close> and \<^verbatim>\<open>leave_scheduled\<close> on the task and the store of engines.\<close>

definition schedule_to ::
  "engine_ref \<Rightarrow> bool \<Rightarrow> completion_task \<times> execution_engine list \<Rightarrow> (unit, completion_task \<times> execution_engine list) py" where
  "schedule_to e update_engine_info s =
    (let t = (fst s)\<lparr>task_engine := Some e, scheduled_event := True\<rparr>; es = snd s
     in if update_engine_info
        then py_lift (\<lambda>eng. (t, es[e := eng])) (update_servelayer_runtime_info_add_task t (es ! e))
        else py_return () (t, es))"

definition leave_scheduled :: "completion_task \<Rightarrow> execution_engine list \<Rightarrow> (unit, execution_engine list) py" where
  "leave_scheduled t es =
    (case task_engine t of
       None \<Rightarrow> py_raise AttributeError es
     | Some e \<Rightarrow> py_lift (\<lambda>eng. es[e := eng]) (update_servelayer_runtime_info_remove_task t (es ! e)))"

section \<open>Creating and freeing tasks\<close>

definition lower_criteria :: "performance_criteria \<Rightarrow> 's \<Rightarrow> (schedule_annotation, 's) py" where
  "lower_criteria criteria s =
    (if criteria = LATENCY then
       py_return \<lparr>tasks_num_upperbound = 4, tokens_num_upperbound = 4096, ddl_requirement = 0\<rparr> s
     else if criteria = THROUGHPUT then
       py_return \<lparr>tasks_num_upperbound = 99999, tokens_num_upperbound = 9999999999999, ddl_requirement = 0\<rparr> s
     else py_raise NotImplementedError s)"

definition create_task :: "comp_chain \<Rightarrow> recycle_pool \<Rightarrow> (completion_task, recycle_pool) py" where
  "create_task ch pool =
    (case gen_node ch of
       None \<Rightarrow> py_raise ParrotError pool
     | Some g \<Rightarrow>
        (case gen_criteria g of
           None \<Rightarrow> py_raise ParrotError pool
         | Some criteria \<Rightarrow>
             py_bind (pool_allocate pool) (\<lambda>tid pool.
             py_bind (lower_criteria criteria pool) (\<lambda>ann pool.
               py_return (new_task tid ch ann) pool))))"

definition free_task :: "completion_task \<Rightarrow> recycle_pool \<times> execution_engine list \<Rightarrow> (unit, recycle_pool \<times> execution_engine list) py" where
  "free_task t s =
    py_bind (py_lift (\<lambda>pool. (pool, snd s)) (pool_free (task_id t) (fst s))) (\<lambda>_ s.
      py_lift (\<lambda>es. (fst s, es)) (leave_scheduled t (snd s)))"

section \<open>The accounting is exact\<close>

text \<open>The tokens a task takes on an engine; \<open>None\<close> when they cannot be counted there.\<close>

definition task_tokens :: "execution_engine \<Rightarrow> completion_task \<Rightarrow> rat option" where
  "task_tokens eng t =
    (if engine_model_type eng = TOKEN_ID
     then (case fst (get_token_nums t (model_tokenizer_name (model eng)) ()) of Inr n \<Rightarrow> Some n | Inl _ \<Rightarrow> None)
     else Some 0)"

lemma dict_get_state: "dict_get d k s = (fst (dict_get d k ()), s)"
  by (simp add: dict_get_def py_raise_def py_return_def split: option.splits)

lemma gen_length_state: "gen_length ch s = (fst (gen_length ch ()), s)"
  by (simp add: gen_length_def py_raise_def py_return_def split: option.splits json.splits)

text \<open>Counting tokens does not look at the state.\<close>

lemma get_token_nums_state: "get_token_nums t name s = (fst (get_token_nums t name ()), s)"
proof (cases "tokenized_result t")
  case None
  then show ?thesis by (simp add: get_token_nums_def py_raise_def)
next
  case (Some res)
  show ?thesis
  proof (cases "map_of res name")
    case None
    with Some show ?thesis by (simp add: get_token_nums_def py_raise_def)
  next
    case (Some ids)
    with \<open>tokenized_result t = Some res\<close> show ?thesis
      using gen_length_state [of "chain t" s]
      by (cases "gen_length (chain t) ()") (auto simp: get_token_nums_def py_bind_def py_return_def split: sum.splits)
  qed
qed

lemma task_tokens_Some:
  assumes "task_tokens eng t = Some n" and "engine_model_type eng = TOKEN_ID"
  shows "get_token_nums t (model_tokenizer_name (model eng)) s = py_return n s"
  using assms get_token_nums_state [of t _ s]
  by (auto simp: task_tokens_def py_return_def split: sum.splits)

abbreviation (input) add_task_info :: "completion_task \<Rightarrow> rat \<Rightarrow> serve_layer_runtime_info \<Rightarrow> serve_layer_runtime_info" where
  "add_task_info t n info \<equiv> info\<lparr>num_tasks := num_tasks info + 1,
     tasks_num_upperbounds := dict_set (task_id t) (tasks_num_upperbound (annotation t)) (tasks_num_upperbounds info),
     tokens_num := tokens_num info + n\<rparr>"

abbreviation (input) remove_task_info :: "completion_task \<Rightarrow> rat \<Rightarrow> serve_layer_runtime_info \<Rightarrow> serve_layer_runtime_info" where
  "remove_task_info t n info \<equiv> info\<lparr>num_tasks := num_tasks info - 1,
     tasks_num_upperbounds := dict_pop (task_id t) (tasks_num_upperbounds info),
     tokens_num := tokens_num info - n\<rparr>"

lemma engine_model_type_frame [simp]:
  "engine_model_type (eng\<lparr>serve_layer_info := i\<rparr>) = engine_model_type eng"
  "task_tokens (eng\<lparr>serve_layer_info := i\<rparr>) t = task_tokens eng t"
  by (simp_all add: engine_model_type_def task_tokens_def)

lemma add_task_ok:
  assumes "is_scheduled t" and "task_tokens eng t = Some n"
  shows "update_servelayer_runtime_info_add_task t eng =
    py_return () (eng\<lparr>serve_layer_info := add_task_info t n (serve_layer_info eng)\<rparr>)"
proof (cases "engine_model_type eng = TOKEN_ID")
  case True
  with assms show ?thesis
    by (simp add: task_tokens_Some [OF assms(2) True] update_servelayer_runtime_info_add_task_def engine_tokenizer_name_def Let_def)
next
  case False
  with assms have "n = 0" by (simp add: task_tokens_def)
  with assms(1) False show ?thesis
    by (simp add: update_servelayer_runtime_info_add_task_def Let_def)
qed

lemma remove_task_ok:
  assumes "is_scheduled t" and "task_tokens eng t = Some n"
    and "task_id t \<in> fst ` set (tasks_num_upperbounds (serve_layer_info eng))"
  shows "update_servelayer_runtime_info_remove_task t eng =
    py_return () (eng\<lparr>serve_layer_info := remove_task_info t n (serve_layer_info eng)\<rparr>)"
proof (cases "engine_model_type eng = TOKEN_ID")
  case True
  with assms show ?thesis
    by (simp add: task_tokens_Some [OF assms(2) True] update_servelayer_runtime_info_remove_task_def engine_tokenizer_name_def Let_def)
next
  case False
  with assms have "n = 0" by (simp add: task_tokens_def)
  with assms(1,3) False show ?thesis
    by (simp add: update_servelayer_runtime_info_remove_task_def Let_def)
qed

text \<open>The serve-layer info of an engine is the sum over the tasks it holds.\<close>

definition engine_accounts :: "execution_engine \<Rightarrow> completion_task list \<Rightarrow> bool" where
  "engine_accounts eng ts \<longleftrightarrow>
    distinct (map task_id ts) \<and> list_all (\<lambda>t. is_scheduled t \<and> task_tokens eng t \<noteq> None) ts \<and>
    num_tasks (serve_layer_info eng) = int (length ts) \<and>
    tokens_num (serve_layer_info eng) = sum_list (map (\<lambda>t. the (task_tokens eng t)) ts) \<and>
    tasks_num_upperbounds (serve_layer_info eng) =
      map (\<lambda>t. (task_id t, tasks_num_upperbound (annotation t))) ts"

lemma engine_accounts_new: "engine_accounts (new_execution_engine eid cfg m) []"
  by (simp add: engine_accounts_def new_execution_engine_def new_serve_layer_runtime_info_def)

lemma engine_accounts_add:
  assumes "engine_accounts eng ts" and "is_scheduled t" and "task_tokens eng t = Some n"
    and "task_id t \<notin> task_id ` set ts"
  shows "\<exists>eng'. update_servelayer_runtime_info_add_task t eng = (Inr (), eng') \<and>
    engine_accounts eng' (ts @ [t]) \<and> eng'\<lparr>serve_layer_info := serve_layer_info eng\<rparr> = eng"
  using assms
  by (simp add: add_task_ok engine_accounts_def dict_set_append image_image list_all_iff)

lemma dict_pop_tasks:
  "dict_pop (task_id t) (map (\<lambda>t. (task_id t, f t)) ts) =
    map (\<lambda>t. (task_id t, f t)) (filter (\<lambda>u. task_id u \<noteq> task_id t) ts)"
  by (induction ts) auto

lemma sum_list_filter_id:
  "distinct (map task_id ts) \<Longrightarrow> t \<in> set ts \<Longrightarrow>
    sum_list (map f (filter (\<lambda>u. task_id u \<noteq> task_id t) ts)) = sum_list (map f ts) - (f t :: 'b :: ab_group_add)"
proof (induction ts)
  case (Cons u us)
  show ?case
  proof (cases "u = t")
    case True
    then have "filter (\<lambda>u. task_id u \<noteq> task_id t) us = us"
      using Cons.prems(1) by (intro filter_True) (auto simp: image_iff)
    with True show ?thesis by simp
  next
    case False
    then have "task_id u \<noteq> task_id t" using Cons.prems by force
    with False Cons show ?thesis by simp
  qed
qed simp

lemma length_filter_id:
  assumes "distinct (map task_id ts)" and "t \<in> set ts"
  shows "int (length (filter (\<lambda>u. task_id u \<noteq> task_id t) ts)) = int (length ts) - 1"
  using sum_list_filter_id [OF assms, of "\<lambda>_. 1 :: int"] by (simp add: sum_list_triv)

lemma engine_accounts_remove:
  assumes "engine_accounts eng ts" and "t \<in> set ts"
  shows "\<exists>eng'. update_servelayer_runtime_info_remove_task t eng = (Inr (), eng') \<and>
    engine_accounts eng' (filter (\<lambda>u. task_id u \<noteq> task_id t) ts) \<and>
    eng'\<lparr>serve_layer_info := serve_layer_info eng\<rparr> = eng"
proof -
  obtain n where n: "task_tokens eng t = Some n" "is_scheduled t"
    using assms by (auto simp: engine_accounts_def list_all_iff)
  have d: "distinct (map task_id ts)" using assms(1) by (simp add: engine_accounts_def)
  have mem: "task_id t \<in> fst ` set (tasks_num_upperbounds (serve_layer_info eng))"
    using assms by (force simp: engine_accounts_def)
  show ?thesis
    unfolding remove_task_ok [OF n(2,1) mem]
    using assms(1) n length_filter_id [OF d assms(2)] sum_list_filter_id [OF d assms(2), of "\<lambda>t. the (task_tokens eng t)"]
    by (simp add: engine_accounts_def dict_pop_tasks distinct_map_filter list_all_iff)
qed

section \<open>Properties\<close>

lemma get_token_nums_frame [simp]:
  "get_token_nums (t\<lparr>task_engine := x, scheduled_event := b\<rparr>) name s = get_token_nums t name s"
  by (simp add: get_token_nums_def split: option.split)

lemma task_tokens_frame [simp]:
  "task_tokens eng (t\<lparr>task_engine := x, scheduled_event := b\<rparr>) = task_tokens eng t"
  by (simp add: task_tokens_def)

text \<open>
  C31. Scheduling a task to an engine and leaving it is a round trip. When the engine can count the
  task's tokens and does not hold its id, \<^verbatim>\<open>schedule_to\<close> succeeds, marks the task and adds
  exactly its tokens, its bound and one task to the engine, and \<^verbatim>\<open>leave_scheduled\<close> restores
  every engine to what it was.
\<close>

theorem schedule_leave_roundtrip:
  assumes "e < length es" and "task_tokens (es ! e) t = Some n"
    and "task_id t \<notin> fst ` set (tasks_num_upperbounds (serve_layer_info (es ! e)))"
  shows "\<exists>t' es'. schedule_to e True (t, es) = (Inr (), (t', es')) \<and> is_scheduled t' \<and> task_engine t' = Some e \<and>
    get_num_tasks (es' ! e) = get_num_tasks (es ! e) + 1 \<and>
    get_remain_tokens_capacity (es' ! e) = get_remain_tokens_capacity (es ! e) - n \<and>
    get_tasks_num_upperbound (es' ! e) = min (get_tasks_num_upperbound (es ! e)) (tasks_num_upperbound (annotation t)) \<and>
    leave_scheduled t' es' = (Inr (), es)"
proof -
  define t' where "t' = t\<lparr>task_engine := Some e, scheduled_event := True\<rparr>"
  define eng' where "eng' = (es ! e)\<lparr>serve_layer_info := add_task_info t n (serve_layer_info (es ! e))\<rparr>"
  have add: "update_servelayer_runtime_info_add_task t' (es ! e) = py_return () eng'"
    using add_task_ok [of t' "es ! e" n] assms(2) by (simp add: t'_def is_scheduled_def eng'_def)
  have "update_servelayer_runtime_info_remove_task t' eng' =
      py_return () (eng'\<lparr>serve_layer_info := remove_task_info t' n (serve_layer_info eng')\<rparr>)"
    using assms(2) by (intro remove_task_ok) (simp_all add: t'_def is_scheduled_def eng'_def dict_simps)
  also have "\<dots> = py_return () (es ! e)"
    using assms(3) by (simp add: eng'_def t'_def dict_pop_set_new)
  finally have remove: "update_servelayer_runtime_info_remove_task t' eng' = py_return () (es ! e)" .
  have "schedule_to e True (t, es) = (Inr (), (t', es[e := eng']))"
    using add by (simp add: schedule_to_def Let_def flip: t'_def)
  moreover have "leave_scheduled t' (es[e := eng']) = (Inr (), es)"
    using remove assms(1) by (simp add: leave_scheduled_def t'_def)
  moreover have "get_tasks_num_upperbound eng' = min (get_tasks_num_upperbound (es ! e)) (tasks_num_upperbound (annotation t))"
    using assms(3) by (simp add: eng'_def get_tasks_num_upperbound_def dict_set_append)
  ultimately show ?thesis using assms(1)
    by (simp add: is_scheduled_def t'_def eng'_def get_num_tasks_def get_remain_tokens_capacity_def)
qed

abbreviation example_chain :: comp_chain where
  "example_chain \<equiv>
    \<lparr>chain_session_id = 0, chain_request_id = 0, sv_created = True,
     chain_iter = [\<lparr>node_var_id = ''a'', node_is_gen = False, node_is_constant_prefix = True, node_content = Some ''hi''\<rparr>,
                   \<lparr>node_var_id = ''b'', node_is_gen = True, node_is_constant_prefix = False, node_content = None\<rparr>],
     chain_iter_fill = [\<lparr>node_var_id = ''a'', node_is_gen = False, node_is_constant_prefix = True, node_content = Some ''hi''\<rparr>],
     chain_metadata = semantic_metadata_default, chain_groups = [], first_sv = 0,
     gen_node = Some \<lparr>gen_sampling_config = Some default_sampling_config, gen_criteria = Some LATENCY, gen_depth = 0\<rparr>\<rparr>"

abbreviation example_engine :: execution_engine where
  "example_engine \<equiv> new_execution_engine 0 default_engine_config
    \<lparr>model_name = ''m'', model_tokenizer_name = ''tok'', language_model_type = TOKEN_ID\<rparr>"

abbreviation example_task :: completion_task where
  "example_task \<equiv> (new_task 5 example_chain default_schedule_annotation)\<lparr>tokenized_result := Some [(''tok'', [[1, 2]])]\<rparr>"

lemma example_task_tokens: "task_tokens example_engine example_task = Some 514"
  by (simp add: task_tokens_def engine_model_type_def new_execution_engine_def get_token_nums_def new_task_def
      gen_length_def default_sampling_config_def)

theorem schedule_leave_roundtrip_witness:
  "\<exists>t' es'. schedule_to 0 True (example_task, [example_engine]) = (Inr (), (t', es')) \<and>
    get_num_tasks (es' ! 0) = 1 \<and> leave_scheduled t' es' = (Inr (), [example_engine])"
  using schedule_leave_roundtrip [of 0 "[example_engine]" example_task 514] example_task_tokens
  by (auto simp: new_execution_engine_def new_serve_layer_runtime_info_def get_num_tasks_def)

text \<open>
  \<^verbatim>\<open>create_task\<close> gives a task with an id no live task has, in state CREATED, not scheduled and with
  the bounds of its criteria (4 tasks for latency, 99999 for throughput). For the criteria
  TTFT and TPOT, which \<^verbatim>\<open>_lower_criteria\<close> does not support, it raises after it took an id: the
  pool counts one id more and nobody holds it.
\<close>

lemma create_task_outcome:
  assumes "gen_node ch = Some g" and "gen_criteria g = Some c" and "pool_inv pool live" and "pool_size pool = None"
  shows "\<exists>tid pool'. tid \<notin> live \<and> pool_inv pool' (insert tid live) \<and>
    get_allocated_num pool' = get_allocated_num pool + 1 \<and>
    (if c \<in> {LATENCY, THROUGHPUT}
     then \<exists>t. create_task ch pool = (Inr t, pool') \<and> task_id t = tid \<and> \<not> is_scheduled t \<and> chain t = ch \<and>
            task_status t = CREATED \<and> tasks_num_upperbound (annotation t) = (if c = LATENCY then 4 else 99999)
     else create_task ch pool = (Inl NotImplementedError, pool'))"
proof -
  obtain tid pool' where a: "pool_allocate pool = (Inr tid, pool')"
    using pool_allocate_unbounded [OF assms(4)] by blast
  have n: "get_allocated_num pool' = get_allocated_num pool + 1"
    using a assms(4) by (auto simp: pool_allocate_def get_allocated_num_def Let_def split: if_splits)
  show ?thesis
    using pool_allocate_inv [OF assms(3) a] n assms(1,2) a
    by (intro exI [of _ tid] exI [of _ pool'], cases c)
      (simp_all add: create_task_def lower_criteria_def new_task_def is_scheduled_def)
qed

lemma create_task_outcome_witness:
  "\<exists>t pool'. create_task example_chain (new_pool None True) = (Inr t, pool') \<and> tasks_num_upperbound (annotation t) = 4"
proof -
  have "pool_size (new_pool None True) = None" by (simp add: new_pool_def)
  from create_task_outcome [OF _ _ pool_inv_new this, of example_chain _ LATENCY] show ?thesis by auto
qed

end
