(* ===== verification/Context_Manager.thy ===== *)
theory Context_Manager
  imports Completion_Task
begin

text \<open>
  \<^verbatim>\<open>serve/context_manager.py\<close>: the prefix cache of an engine and the manager of all contexts.
  Contexts are shared objects and ids are recycled, so the manager's state has the store
  of the context objects created so far, and the dictionaries and the tasks hold
  references into it. Freeing a context calls its engine over HTTP: \<open>net url cid\<close> says
  whether this call succeeds. \<open>E\<close> is the store of the engines.
\<close>

section \<open>The prefix cache\<close>

definition PREFIX_HASH_BRACKET_LEFT :: string where
  "PREFIX_HASH_BRACKET_LEFT = ''{{''"

definition PREFIX_HASH_BRACKET_RIGHT :: string where
  "PREFIX_HASH_BRACKET_RIGHT = ''}}''"

record prefix_cache =
  prefix_ctx_map :: "(string, int) dict"
  prefix_ctx_map_reversed :: "(int, string) dict"

definition new_prefix_cache :: prefix_cache where
  "new_prefix_cache = \<lparr>prefix_ctx_map = [], prefix_ctx_map_reversed = []\<rparr>"

definition get_cached_prefix_context :: "prefix_cache \<Rightarrow> string \<Rightarrow> int" where
  "get_cached_prefix_context pc prefix_hash =
    (case map_of (prefix_ctx_map pc) prefix_hash of None \<Rightarrow> NONE_CONTEXT_ID | Some cid \<Rightarrow> cid)"

definition cache_prefix_context :: "string \<Rightarrow> int \<Rightarrow> prefix_cache \<Rightarrow> (unit, prefix_cache) py" where
  "cache_prefix_context prefix_hash cid pc =
    py_bind (parrot_assert (\<not> dict_mem prefix_hash (prefix_ctx_map pc)) pc) (\<lambda>_ pc.
      py_return () (pc\<lparr>prefix_ctx_map := dict_set prefix_hash cid (prefix_ctx_map pc),
                       prefix_ctx_map_reversed := dict_set cid prefix_hash (prefix_ctx_map_reversed pc)\<rparr>))"

definition remove_context_id :: "int \<Rightarrow> prefix_cache \<Rightarrow> (unit, prefix_cache) py" where
  "remove_context_id cid pc =
    (case map_of (prefix_ctx_map_reversed pc) cid of
       None \<Rightarrow> py_return () pc
     | Some prefix_hash \<Rightarrow>
         if \<not> dict_mem prefix_hash (prefix_ctx_map pc) then py_raise KeyError pc
         else py_return () (pc\<lparr>prefix_ctx_map := dict_pop prefix_hash (prefix_ctx_map pc),
                               prefix_ctx_map_reversed := dict_pop cid (prefix_ctx_map_reversed pc)\<rparr>))"

section \<open>The manager\<close>

record context_manager =
  ctx_heap :: "ctx list"
  mgr_contexts :: "(int, context_ref) dict"
  session_contexts :: "(int, context_ref list) dict"
  constant_prefix_contexts :: "(string, context_ref list) dict"
  context_ref_counter :: "(int, int) dict"
  context_id_pool :: recycle_pool
  prefix_caches :: "(int, prefix_cache) dict"

type_synonym net = "string \<Rightarrow> int \<Rightarrow> bool"

definition new_context_manager :: context_manager where
  "new_context_manager =
    \<lparr>ctx_heap = [], mgr_contexts = [], session_contexts = [], constant_prefix_contexts = [],
     context_ref_counter = [], context_id_pool = new_pool None False, prefix_caches = []\<rparr>"

definition hash_var_id :: "string \<Rightarrow> string" where
  "hash_var_id vid = PREFIX_HASH_BRACKET_LEFT @ vid @ PREFIX_HASH_BRACKET_RIGHT"

abbreviation cid_of :: "context_manager \<Rightarrow> context_ref \<Rightarrow> int" where
  "cid_of m c \<equiv> context_id (ctx_heap m ! c)"

definition add_ref_counter :: "context_ref \<Rightarrow> context_manager \<Rightarrow> context_manager" where
  "add_ref_counter c m =
    (let cid = cid_of m c;
         d = context_ref_counter m;
         d = (if \<not> dict_mem cid d then dict_set cid 0 d else d)
     in m\<lparr>context_ref_counter := dict_set cid (the (map_of d cid) + 1) d\<rparr>)"

definition allocate_context_id :: "context_manager \<Rightarrow> (int, context_manager) py" where
  "allocate_context_id m = py_lift (\<lambda>p. m\<lparr>context_id_pool := p\<rparr>) (pool_allocate (context_id_pool m))"

text \<open>The object is made, entered in \<^verbatim>\<open>self.contexts\<close> and gets its first reference.\<close>

definition enter_context :: "ctx \<Rightarrow> context_manager \<Rightarrow> (context_ref, context_manager) py" where
  "enter_context c m =
    (let r = length (ctx_heap m);
         m = m\<lparr>ctx_heap := ctx_heap m @ [c], mgr_contexts := dict_set (context_id c) r (mgr_contexts m)\<rparr>
     in py_return r (add_ref_counter r m))"

definition new_context :: "engine_ref \<Rightarrow> context_manager \<Rightarrow> (context_ref, context_manager) py" where
  "new_context eng m =
    py_bind (allocate_context_id m) (\<lambda>cid m. enter_context (new_ctx cid eng None) m)"

definition fork_context :: "context_ref \<Rightarrow> context_manager \<Rightarrow> (context_ref, context_manager) py" where
  "fork_context parent m =
    py_bind (allocate_context_id m) (\<lambda>cid m.
      enter_context (new_ctx cid (ctx_engine (ctx_heap m ! parent)) (Some parent)) m)"

definition free_context_obj :: "engine_store \<Rightarrow> net \<Rightarrow> context_ref \<Rightarrow> context_manager \<Rightarrow> (unit, context_manager) py" where
  "free_context_obj E net c m =
    (let cid = cid_of m c; eng = E (ctx_engine (ctx_heap m ! c)) in
     py_bind (parrot_assert (dict_mem cid (context_ref_counter m)) m) (\<lambda>_ m.
     let m = m\<lparr>context_ref_counter := dict_set cid (the (map_of (context_ref_counter m) cid) - 1) (context_ref_counter m)\<rparr> in
     if the (map_of (context_ref_counter m) cid) > 0 then py_return () m
     else if \<not> net (http_address eng) cid then py_raise ParrotCoreInternalError m
     else
       py_bind (dict_get (prefix_caches m) (engine_id eng) m) (\<lambda>pc m.
       py_bind (py_lift (\<lambda>pc. m\<lparr>prefix_caches := dict_set (engine_id eng) pc (prefix_caches m)\<rparr>)
                  (remove_context_id cid pc)) (\<lambda>_ m.
       if \<not> dict_mem cid (mgr_contexts m) then py_raise KeyError m
       else
         let m = m\<lparr>mgr_contexts := dict_pop cid (mgr_contexts m)\<rparr>
         in py_lift (\<lambda>p. m\<lparr>context_id_pool := p\<rparr>) (pool_free cid (context_id_pool m))))))"

definition free_context :: "engine_store \<Rightarrow> net \<Rightarrow> context_ref \<Rightarrow> context_manager \<Rightarrow> (unit, context_manager) py" where
  "free_context E net c m =
    py_bind (parrot_assert (dict_mem (cid_of m c) (mgr_contexts m)) m) (\<lambda>_ m. free_context_obj E net c m)"

text \<open>The extra reference of a constant prefix; \<^verbatim>\<open>not in\<close> compares contexts by identity.\<close>

definition add_constant_prefix :: "string \<Rightarrow> context_ref \<Rightarrow> context_manager \<Rightarrow> (unit, context_manager) py" where
  "add_constant_prefix vid c m =
    (let d = constant_prefix_contexts m;
         d = (if \<not> dict_mem vid d then dict_set vid [] d else d);
         refs = the (map_of d vid);
         m = m\<lparr>constant_prefix_contexts := d\<rparr>
     in py_bind (parrot_assert (c \<notin> set refs) m) (\<lambda>_ m.
          py_return () (add_ref_counter c (m\<lparr>constant_prefix_contexts := dict_set vid (refs @ [c]) d\<rparr>))))"

text \<open>The context of a node whose prefix is not cached.\<close>

definition make_node_context ::
  "completion_task \<Rightarrow> engine_ref \<Rightarrow> chain_node \<Rightarrow> context_manager \<Rightarrow> (context_ref, context_manager) py" where
  "make_node_context t eng node m =
    (if length (contexts t) = 0 then
       py_bind (new_context eng m) (\<lambda>c m.
         if node_is_constant_prefix node
         then py_bind (add_constant_prefix (node_var_id node) c m) (\<lambda>_ m. py_return c m)
         else py_return c m)
     else if py_truth (fuse_fill (chain_metadata (chain t))) \<and> \<not> node_is_gen node
     then py_return (last (contexts t)) m
     else fork_context (last (contexts t)) m)"

abbreviation cache_of :: "context_manager \<Rightarrow> int \<Rightarrow> prefix_cache" where
  "cache_of m eid \<equiv> the (map_of (prefix_caches m) eid)"

text \<open>The loop over the nodes: \<open>h\<close> is \<^verbatim>\<open>prefix_hash\<close>, \<open>no_cache\<close> is \<^verbatim>\<open>prefix_no_cache_flag\<close>.\<close>

fun set_nodes ::
  "engine_store \<Rightarrow> engine_ref \<Rightarrow> chain_node list \<Rightarrow> string \<Rightarrow> bool \<Rightarrow> completion_task \<times> context_manager \<Rightarrow>
   (unit, completion_task \<times> context_manager) py" where
  "set_nodes E eng [] h no_cache s = py_return () s"
| "set_nodes E eng (node # nodes) h no_cache (t, m) =
    (let h = h @ hash_var_id (node_var_id node);
         eid = engine_id (E eng);
         cid = get_cached_prefix_context (cache_of m eid) h
     in if \<not> no_cache \<and> cid \<noteq> NONE_CONTEXT_ID then
          py_bind (dict_get (mgr_contexts m) cid (t, m)) (\<lambda>c (t, m).
            set_nodes E eng nodes h False (t\<lparr>contexts := contexts t @ [c]\<rparr>, add_ref_counter c m))
        else
          py_bind (py_lift (Pair t) (make_node_context t eng node m)) (\<lambda>c (t, m).
            let t = t\<lparr>contexts := contexts t @ [c]\<rparr> in
            if \<not> node_is_gen node then
              py_bind (py_lift (\<lambda>pc. (t, m\<lparr>prefix_caches := dict_set eid pc (prefix_caches m)\<rparr>))
                         (cache_prefix_context h (cid_of m c) (cache_of m eid))) (\<lambda>_ s.
                set_nodes E eng nodes h True s)
            else set_nodes E eng nodes h True (t, m)))"

text \<open>
  \<^verbatim>\<open>parrot_assert(task._scheduled_event, ...)\<close> tests an \<^verbatim>\<open>asyncio.Event\<close> object, which is true whether
  it is set or not, so it is no branch here. A task without an engine raises \<^verbatim>\<open>AttributeError\<close>.
\<close>

definition set_task_contexts ::
  "engine_store \<Rightarrow> completion_task \<times> context_manager \<Rightarrow> (unit, completion_task \<times> context_manager) py" where
  "set_task_contexts E s =
    py_bind (parrot_assert (sv_created (chain (fst s))) s) (\<lambda>_ (t, m).
      case task_engine t of
        None \<Rightarrow> py_raise AttributeError (t, m)
      | Some eng \<Rightarrow>
          py_bind (dict_get (prefix_caches m) (engine_id (E eng)) (t, m)) (\<lambda>_ s.
            set_nodes E eng (chain_iter (chain t)) [] False s))"

fun free_refs :: "engine_store \<Rightarrow> net \<Rightarrow> context_ref list \<Rightarrow> int set \<Rightarrow> context_manager \<Rightarrow> (unit, context_manager) py" where
  "free_refs E net [] visited m = py_return () m"
| "free_refs E net (c # cs) visited m =
    (if cid_of m c \<in> visited then free_refs E net cs visited m
     else py_bind (free_context_obj E net c m) (\<lambda>_ m. free_refs E net cs (insert (cid_of m c) visited) m))"

definition free_task_contexts :: "engine_store \<Rightarrow> net \<Rightarrow> completion_task \<Rightarrow> context_manager \<Rightarrow> (unit, context_manager) py" where
  "free_task_contexts E net t m = free_refs E net (rev (contexts t)) {} m"

definition free_constant_prefix_contexts :: "engine_store \<Rightarrow> net \<Rightarrow> string \<Rightarrow> context_manager \<Rightarrow> (unit, context_manager) py" where
  "free_constant_prefix_contexts E net vid m =
    (case map_of (constant_prefix_contexts m) vid of
       None \<Rightarrow> py_raise ParrotError m
     | Some refs \<Rightarrow>
         py_bind (py_for (free_context_obj E net) refs m) (\<lambda>_ m.
           py_return () (m\<lparr>constant_prefix_contexts := dict_pop vid (constant_prefix_contexts m)\<rparr>)))"

section \<open>For the scheduler, profiling and registering\<close>

fun cached_prefix_num :: "prefix_cache \<Rightarrow> chain_node list \<Rightarrow> string \<Rightarrow> int" where
  "cached_prefix_num pc [] h = 0"
| "cached_prefix_num pc (node # nodes) h =
    (let h = h @ hash_var_id (node_var_id node) in
     if get_cached_prefix_context pc h \<noteq> NONE_CONTEXT_ID then 1 + cached_prefix_num pc nodes h else 0)"

definition query_prefixes_in_engines :: "completion_task \<Rightarrow> context_manager \<Rightarrow> (int list, context_manager) py" where
  "query_prefixes_in_engines t m =
    py_bind (parrot_assert (\<not> is_scheduled t) m) (\<lambda>_ m.
      let sort_dict = filter (\<lambda>(eid, n). n > 0)
            (map (\<lambda>(eid, pc). (eid, cached_prefix_num pc (chain_iter (chain t)) [])) (prefix_caches m))
      in py_return (sort_key (\<lambda>eid. - the (map_of sort_dict eid)) (dict_keys sort_dict)) m)"

definition profile_session_memory :: "engine_store \<Rightarrow> int \<Rightarrow> context_manager \<Rightarrow> (rat, context_manager) py" where
  "profile_session_memory E sid m =
    (case map_of (session_contexts m) sid of
       None \<Rightarrow> py_raise ParrotError m
     | Some refs \<Rightarrow> py_return (sum_list (map (\<lambda>c. memory_usage E (ctx_heap m ! c)) refs)) m)"

definition profile_session_tokens :: "int \<Rightarrow> context_manager \<Rightarrow> (int, context_manager) py" where
  "profile_session_tokens sid m =
    (case map_of (session_contexts m) sid of
       None \<Rightarrow> py_raise ParrotError m
     | Some refs \<Rightarrow> py_return (sum_list (map (\<lambda>c. ctx_tokens_num (ctx_heap m ! c)) refs)) m)"

definition register_session_contexts :: "int \<Rightarrow> context_manager \<Rightarrow> context_manager" where
  "register_session_contexts sid m = m\<lparr>session_contexts := dict_set sid [] (session_contexts m)\<rparr>"

definition free_session_contexts :: "engine_store \<Rightarrow> net \<Rightarrow> int \<Rightarrow> context_manager \<Rightarrow> (unit, context_manager) py" where
  "free_session_contexts E net sid m =
    (case map_of (session_contexts m) sid of
       None \<Rightarrow> py_return () m
     | Some refs \<Rightarrow>
         py_bind (py_for (free_context_obj E net) refs m) (\<lambda>_ m.
           py_return () (m\<lparr>session_contexts := dict_pop sid (session_contexts m)\<rparr>)))"

definition register_engine_prefix_cache :: "int \<Rightarrow> context_manager \<Rightarrow> context_manager" where
  "register_engine_prefix_cache eid m = m\<lparr>prefix_caches := dict_set eid new_prefix_cache (prefix_caches m)\<rparr>"

definition remove_engine_prefix_cache :: "int \<Rightarrow> context_manager \<Rightarrow> (unit, context_manager) py" where
  "remove_engine_prefix_cache eid m =
    (if \<not> dict_mem eid (prefix_caches m) then py_raise KeyError m
     else py_return () (m\<lparr>prefix_caches := dict_pop eid (prefix_caches m)\<rparr>))"

section \<open>The dictionaries of the manager\<close>

text \<open>
  \<open>ledger E m R J\<close>: the dictionaries of the manager agree with \<open>R\<close>, how many references each
  context has, and \<open>J\<close>, which context is cached for which prefix hash of which engine.
\<close>

abbreviation eid_of :: "engine_store \<Rightarrow> context_manager \<Rightarrow> context_ref \<Rightarrow> int" where
  "eid_of E m c \<equiv> engine_id (E (ctx_engine (ctx_heap m ! c)))"

definition ctx_live :: "context_manager \<Rightarrow> context_ref \<Rightarrow> bool" where
  "ctx_live m c \<longleftrightarrow> c < length (ctx_heap m) \<and> map_of (mgr_contexts m) (cid_of m c) = Some c"

definition cache_agrees :: "context_manager \<Rightarrow> (int \<times> string \<times> context_ref) set \<Rightarrow> int \<Rightarrow> prefix_cache \<Rightarrow> bool" where
  "cache_agrees m J eid pc \<longleftrightarrow>
    (\<forall>h cid. (map_of (prefix_ctx_map pc) h = Some cid) = (\<exists>c. cid_of m c = cid \<and> (eid, h, c) \<in> J)) \<and>
    (\<forall>h cid. (map_of (prefix_ctx_map_reversed pc) cid = Some h) = (\<exists>c. cid_of m c = cid \<and> (eid, h, c) \<in> J))"

definition ledger ::
  "engine_store \<Rightarrow> context_manager \<Rightarrow> (context_ref \<Rightarrow> nat) \<Rightarrow> (int \<times> string \<times> context_ref) set \<Rightarrow> bool" where
  "ledger E m R J \<longleftrightarrow>
    pool_inv (context_id_pool m) (fst ` set (mgr_contexts m)) \<and> pool_size (context_id_pool m) = None \<and>
    (\<forall>cid c. map_of (mgr_contexts m) cid = Some c \<longrightarrow>
       c < length (ctx_heap m) \<and> cid_of m c = cid \<and> eid_of E m c \<in> fst ` set (prefix_caches m) \<and>
       R c > 0 \<and> map_of (context_ref_counter m) cid = Some (int (R c))) \<and>
    (\<forall>cid. map_of (mgr_contexts m) cid = None \<longrightarrow> map_of (context_ref_counter m) cid \<in> {None, Some 0}) \<and>
    (\<forall>c. R c > 0 \<longrightarrow> ctx_live m c) \<and>
    (\<forall>(eid, h, c) \<in> J. ctx_live m c \<and> eid_of E m c = eid) \<and>
    (\<forall>eid pc. map_of (prefix_caches m) eid = Some pc \<longrightarrow> cache_agrees m J eid pc)"

text \<open>The parts of the manager that no reference operation touches.\<close>

definition same_frame :: "context_manager \<Rightarrow> context_manager \<Rightarrow> bool" where
  "same_frame m m' \<longleftrightarrow>
    constant_prefix_contexts m' = constant_prefix_contexts m \<and> session_contexts m' = session_contexts m \<and>
    fst ` set (prefix_caches m') = fst ` set (prefix_caches m)"

lemma same_frame_refl [simp]: "same_frame m m"
  by (simp add: same_frame_def)

lemma same_frame_trans: "same_frame a b \<Longrightarrow> same_frame b c \<Longrightarrow> same_frame a c"
  by (simp add: same_frame_def)

lemma ledger_live_iff: "ledger E m R J \<Longrightarrow> ctx_live m c \<longleftrightarrow> R c > 0"
  by (auto simp: ledger_def ctx_live_def)

lemma ledger_live_inj:
  "ctx_live m c \<Longrightarrow> ctx_live m c' \<Longrightarrow> cid_of m c = cid_of m c' \<Longrightarrow> c = c'"
  by (simp add: ctx_live_def)

lemma ledger_J_live: "ledger E m R J \<Longrightarrow> (eid, h, c) \<in> J \<Longrightarrow> ctx_live m c \<and> eid_of E m c = eid"
  by (auto simp: ledger_def)

lemma ledger_engine: "ledger E m R J \<Longrightarrow> ctx_live m c \<Longrightarrow> eid_of E m c \<in> fst ` set (prefix_caches m)"
  by (auto simp: ledger_def ctx_live_def)

lemma ledger_cid_nonneg: "ledger E m R J \<Longrightarrow> ctx_live m c \<Longrightarrow> 0 \<le> cid_of m c"
  by (auto simp: ledger_def ctx_live_def intro: pool_inv_nonneg map_of_Some_key)

lemma ledger_ctx:
  "ledger E m R J \<Longrightarrow> map_of (mgr_contexts m) cid = Some c \<Longrightarrow>
    c < length (ctx_heap m) \<and> cid_of m c = cid \<and> eid_of E m c \<in> fst ` set (prefix_caches m) \<and>
    R c > 0 \<and> map_of (context_ref_counter m) cid = Some (int (R c))"
  by (simp add: ledger_def)

lemma ledger_dead:
  "ledger E m R J \<Longrightarrow> map_of (mgr_contexts m) cid = None \<Longrightarrow>
    map_of (context_ref_counter m) cid = None \<or> map_of (context_ref_counter m) cid = Some 0"
  by (auto simp: ledger_def)

text \<open>A cached prefix has one context, and a context is cached for one prefix.\<close>

lemma ledger_J_unique:
  assumes "ledger E m R J" and "(eid, h, c) \<in> J" and "(eid, h', c') \<in> J"
  shows "h = h' \<longleftrightarrow> c = c'"
proof -
  obtain pc where pc: "map_of (prefix_caches m) eid = Some pc"
    using ledger_J_live [OF assms(1,2)] ledger_engine [OF assms(1)] key_map_of_Some by metis
  then have ag: "cache_agrees m J eid pc" using assms(1) by (simp add: ledger_def)
  have live: "ctx_live m c" "ctx_live m c'" using ledger_J_live assms by blast+
  show ?thesis
  proof
    assume "h = h'"
    then have "cid_of m c = cid_of m c'"
      using ag assms(2,3) unfolding cache_agrees_def by (metis option.inject)
    then show "c = c'" using live ledger_live_inj by blast
  next
    assume "c = c'"
    then show "h = h'" using ag assms(2,3) unfolding cache_agrees_def by (metis option.inject)
  qed
qed

text \<open>What \<^verbatim>\<open>get_cached_prefix_context\<close> answers.\<close>

lemma ledger_get_cached:
  assumes "ledger E m R J" and "map_of (prefix_caches m) eid = Some pc"
  shows "(eid, h, c) \<in> J \<Longrightarrow> get_cached_prefix_context pc h = cid_of m c"
    and "get_cached_prefix_context pc h \<noteq> NONE_CONTEXT_ID \<Longrightarrow>
      \<exists>c. (eid, h, c) \<in> J \<and> get_cached_prefix_context pc h = cid_of m c"
    and "get_cached_prefix_context pc h = NONE_CONTEXT_ID \<Longrightarrow> (eid, h, c) \<notin> J"
proof -
  have ag: "cache_agrees m J eid pc" using assms by (simp add: ledger_def)
  show hit: "get_cached_prefix_context pc h = cid_of m c" if "(eid, h, c) \<in> J" for c
  proof -
    have "map_of (prefix_ctx_map pc) h = Some (cid_of m c)"
      using ag that unfolding cache_agrees_def by blast
    then show ?thesis by (simp add: get_cached_prefix_context_def)
  qed
  show "\<exists>c. (eid, h, c) \<in> J \<and> get_cached_prefix_context pc h = cid_of m c"
    if "get_cached_prefix_context pc h \<noteq> NONE_CONTEXT_ID"
  proof -
    obtain cid where cid: "map_of (prefix_ctx_map pc) h = Some cid"
      using \<open>get_cached_prefix_context pc h \<noteq> NONE_CONTEXT_ID\<close>
      by (auto simp: get_cached_prefix_context_def split: option.splits)
    then obtain c where "cid_of m c = cid" "(eid, h, c) \<in> J" using ag unfolding cache_agrees_def by blast
    with cid show ?thesis by (auto simp: get_cached_prefix_context_def)
  qed
  show "(eid, h, c) \<notin> J" if "get_cached_prefix_context pc h = NONE_CONTEXT_ID"
    using hit [of c] that ledger_J_live [OF assms(1), of eid h c] ledger_cid_nonneg [OF assms(1), of c]
    by (auto simp: NONE_CONTEXT_ID_def)
qed

subsection \<open>Taking and dropping references\<close>

lemma add_ref_counter_frame [simp]:
  "ctx_heap (add_ref_counter c m) = ctx_heap m" "mgr_contexts (add_ref_counter c m) = mgr_contexts m"
  "session_contexts (add_ref_counter c m) = session_contexts m"
  "constant_prefix_contexts (add_ref_counter c m) = constant_prefix_contexts m"
  "context_id_pool (add_ref_counter c m) = context_id_pool m"
  "prefix_caches (add_ref_counter c m) = prefix_caches m"
  "ctx_live (add_ref_counter c m) = ctx_live m" "same_frame m (add_ref_counter c m)"
  by (simp_all add: add_ref_counter_def Let_def ctx_live_def fun_eq_iff same_frame_def)

lemma add_ref_counter_counter:
  "map_of (context_ref_counter (add_ref_counter c m)) =
    (map_of (context_ref_counter m))(cid_of m c \<mapsto>
      (case map_of (context_ref_counter m) (cid_of m c) of None \<Rightarrow> 0 | Some n \<Rightarrow> n) + 1)"
  by (auto simp: add_ref_counter_def Let_def key_iff_map_of split: option.splits)

lemma cache_agrees_frame:
  "ctx_heap m' = ctx_heap m \<Longrightarrow> cache_agrees m' J eid pc = cache_agrees m J eid pc"
  by (simp add: cache_agrees_def)

lemma ledger_add_ref:
  assumes "ledger E m R J" and "ctx_live m c"
  shows "ledger E (add_ref_counter c m) (R(c := R c + 1)) J"
proof -
  have cnt: "map_of (context_ref_counter m) (cid_of m c) = Some (int (R c))"
    using assms by (simp add: ledger_def ctx_live_def)
  have "map_of (context_ref_counter (add_ref_counter c m)) cid =
      (if cid = cid_of m c then Some (int (R c) + 1) else map_of (context_ref_counter m) cid)" for cid
    using cnt by (simp add: add_ref_counter_counter)
  with assms show ?thesis
    unfolding ledger_def
    by (auto simp: ctx_live_def cache_agrees_frame [of "add_ref_counter c m" m])
qed

text \<open>A new context, before any prefix is cached for it.\<close>

lemma ctx_live_less: "ctx_live m c \<Longrightarrow> c < length (ctx_heap m)"
  by (simp add: ctx_live_def)

lemma cache_agrees_append:
  assumes "ctx_heap m' = ctx_heap m @ xs" and "\<forall>(eid, h, c) \<in> J. c < length (ctx_heap m)"
  shows "cache_agrees m' J eid pc = cache_agrees m J eid pc"
proof -
  have "(\<exists>c. cid_of m' c = cid \<and> (eid, h, c) \<in> J) = (\<exists>c. cid_of m c = cid \<and> (eid, h, c) \<in> J)" for cid h
    using assms by (metis (no_types, lifting) case_prodD nth_append)
  then show ?thesis by (simp add: cache_agrees_def)
qed

lemma ledger_enter:
  assumes inv: "ledger E m R J" and alloc: "pool_allocate (context_id_pool m) = (Inr cid, p)"
    and c: "context_id c = cid" "engine_id (E (ctx_engine c)) \<in> fst ` set (prefix_caches m)"
  shows "\<exists>m'. enter_context c (m\<lparr>context_id_pool := p\<rparr>) = (Inr (length (ctx_heap m)), m') \<and>
    ledger E m' (R(length (ctx_heap m) := 1)) J \<and> ctx_heap m' = ctx_heap m @ [c] \<and> same_frame m m' \<and>
    prefix_caches m' = prefix_caches m \<and> (\<forall>x. ctx_live m x \<longrightarrow> ctx_live m' x)"
proof -
  let ?r = "length (ctx_heap m)"
  define m1 where "m1 = m\<lparr>context_id_pool := p, ctx_heap := ctx_heap m @ [c], mgr_contexts := dict_set cid ?r (mgr_contexts m)\<rparr>"
  define m' where "m' = add_ref_counter ?r m1"
  have inv': "pool_inv (context_id_pool m) (fst ` set (mgr_contexts m))" "pool_size (context_id_pool m) = None"
    using inv by (simp_all add: ledger_def)
  have fresh: "map_of (mgr_contexts m) cid = None"
    using rp.register_fresh(1) [OF inv'(1) alloc] by (simp add: map_of_eq_None_iff)
  have pool: "pool_inv p (fst ` set (dict_set cid ?r (mgr_contexts m)))" "pool_size p = None"
    using rp.register_fresh(2) [OF inv'(1) alloc] pool_allocate_unbounded [OF inv'(2)] alloc by simp_all
  have cnt: "map_of (context_ref_counter m') k =
      (if k = cid then Some 1 else map_of (context_ref_counter m) k)" for k
    using ledger_dead [OF inv fresh] c(1) by (auto simp: m'_def add_ref_counter_counter m1_def)
  have f: "ctx_heap m' = ctx_heap m @ [c]" "mgr_contexts m' = dict_set cid ?r (mgr_contexts m)"
    "context_id_pool m' = p" "prefix_caches m' = prefix_caches m" "same_frame m m'"
    by (simp_all add: m'_def m1_def same_frame_def)
  have old: "ctx_live m x \<Longrightarrow> ctx_live m' x" for x
    using fresh by (auto simp: ctx_live_def f nth_append)
  have R0: "\<not> R ?r > 0" using inv by (auto simp: ledger_def ctx_live_def)
  have J: "\<forall>(eid, h, x) \<in> J. x < length (ctx_heap m)" using inv by (auto simp: ledger_def ctx_live_def)
  have "ledger E m' (R(?r := 1)) J"
    unfolding ledger_def
  proof (intro conjI allI impI)
    fix k x
    assume k: "map_of (mgr_contexts m') k = Some x"
    have "k = cid \<and> x = ?r \<or> k \<noteq> cid \<and> map_of (mgr_contexts m) k = Some x"
      using k by (auto simp: f split: if_splits)
    then show "x < length (ctx_heap m')" "cid_of m' x = k" "eid_of E m' x \<in> fst ` set (prefix_caches m')"
      "0 < (R(?r := 1)) x" "map_of (context_ref_counter m') k = Some (int ((R(?r := 1)) x))"
      using c ledger_ctx [OF inv, of k x] by (elim disjE; simp add: f cnt nth_append)+
  next
    fix k
    assume "map_of (mgr_contexts m') k = None"
    then show "map_of (context_ref_counter m') k \<in> {None, Some 0}"
      using ledger_dead [OF inv, of k] by (auto simp: f cnt split: if_splits)
  next
    fix x
    assume x: "0 < (R(?r := 1)) x"
    show "ctx_live m' x"
    proof (cases "x = ?r")
      case True
      then show ?thesis by (simp add: ctx_live_def f c(1))
    next
      case False
      with x show ?thesis using ledger_live_iff [OF inv, of x] old by simp
    qed
  next
    show "\<forall>(eid, h, x) \<in> J. ctx_live m' x \<and> eid_of E m' x = eid"
      using ledger_J_live [OF inv] old J by (auto simp: f nth_append)
  next
    fix eid pc
    assume "map_of (prefix_caches m') eid = Some pc"
    then show "cache_agrees m' J eid pc"
      using inv cache_agrees_append [OF f(1) J] by (simp add: f ledger_def)
  qed (use pool f in simp_all)
  moreover have "enter_context c (m\<lparr>context_id_pool := p\<rparr>) = (Inr ?r, m')"
    by (simp add: enter_context_def Let_def c(1) m'_def m1_def)
  ultimately show ?thesis using f old by blast
qed

text \<open>Caching a prefix that is not cached, for a context that is not.\<close>

lemma ledger_cache:
  assumes inv: "ledger E m R J" and live: "ctx_live m c" and eid: "eid_of E m c = eid"
    and newh: "\<And>x. (eid, h, x) \<notin> J" and newc: "\<And>h'. (eid, h', c) \<notin> J"
  shows "\<exists>pc. cache_prefix_context h (cid_of m c) (cache_of m eid) = (Inr (), pc) \<and>
    ledger E (m\<lparr>prefix_caches := dict_set eid pc (prefix_caches m)\<rparr>) R (insert (eid, h, c) J) \<and>
    same_frame m (m\<lparr>prefix_caches := dict_set eid pc (prefix_caches m)\<rparr>)"
proof -
  have mem: "eid \<in> fst ` set (prefix_caches m)" using ledger_engine [OF inv live] eid by simp
  then obtain pc where pc: "map_of (prefix_caches m) eid = Some pc" using key_map_of_Some by metis
  have ag: "cache_agrees m J eid pc" using inv pc by (simp add: ledger_def)
  have nh: "map_of (prefix_ctx_map pc) h = None"
    using ag newh unfolding cache_agrees_def by (meson not_Some_eq)
  have nc: "(eid, h', x) \<in> J \<Longrightarrow> cid_of m x \<noteq> cid_of m c" for h' x
    using ledger_live_inj [OF _ live] ledger_J_live [OF inv] newc by metis
  define pc' where "pc' = pc\<lparr>prefix_ctx_map := dict_set h (cid_of m c) (prefix_ctx_map pc),
    prefix_ctx_map_reversed := dict_set (cid_of m c) h (prefix_ctx_map_reversed pc)\<rparr>"
  define m' where "m' = m\<lparr>prefix_caches := dict_set eid pc' (prefix_caches m)\<rparr>"
  have ok: "cache_prefix_context h (cid_of m c) pc = (Inr (), pc')"
    using nh by (simp add: cache_prefix_context_def key_iff_map_of pc'_def)
  have keys: "fst ` set (prefix_caches m') = fst ` set (prefix_caches m)"
    using mem by (auto simp: m'_def dict_keys_set)
  have mine: "cache_agrees m' (insert (eid, h, c) J) eid pc'"
    unfolding cache_agrees_def
  proof (intro conjI allI)
    fix h' cid
    show "(map_of (prefix_ctx_map pc') h' = Some cid) = (\<exists>x. cid_of m' x = cid \<and> (eid, h', x) \<in> insert (eid, h, c) J)"
      using ag newh by (auto simp: pc'_def m'_def cache_agrees_def)
    show "(map_of (prefix_ctx_map_reversed pc') cid = Some h') = (\<exists>x. cid_of m' x = cid \<and> (eid, h', x) \<in> insert (eid, h, c) J)"
      using ag nc by (auto simp: pc'_def m'_def cache_agrees_def)
  qed
  have other: "cache_agrees m' (insert (eid, h, c) J) e p" if "e \<noteq> eid" "map_of (prefix_caches m) e = Some p" for e p
    using inv that by (auto simp: ledger_def cache_agrees_def m'_def)
  have "ledger E m' R (insert (eid, h, c) J)"
    using inv keys mine other eid live
    by (auto simp: ledger_def m'_def ctx_live_def)
  then show ?thesis using ok pc keys by (auto simp: m'_def same_frame_def)
qed

text \<open>
  Dropping a reference: the last one frees the context, on the engine, in the prefix
  cache and in the manager.
\<close>

definition drop_ref :: "(context_ref \<Rightarrow> nat) \<Rightarrow> context_ref \<Rightarrow> context_ref \<Rightarrow> nat" where
  "drop_ref R c = R(c := R c - 1)"

definition drop_cached ::
  "(context_ref \<Rightarrow> nat) \<Rightarrow> context_ref \<Rightarrow> (int \<times> string \<times> context_ref) set \<Rightarrow> (int \<times> string \<times> context_ref) set" where
  "drop_cached R c J = (if R c = 1 then {(e, h, x) \<in> J. x \<noteq> c} else J)"

lemma remove_context_id_agrees:
  assumes inv: "ledger E m R J" and live: "ctx_live m c" and pc: "map_of (prefix_caches m) (eid_of E m c) = Some pc"
    and heap: "ctx_heap m' = ctx_heap m"
  shows "\<exists>pc'. remove_context_id (cid_of m c) pc = (Inr (), pc') \<and>
    cache_agrees m' {(e, h, x) \<in> J. x \<noteq> c} (eid_of E m c) pc'"
proof -
  let ?eid = "eid_of E m c"
  have ag: "cache_agrees m J ?eid pc" using inv pc by (simp add: ledger_def)
  have J: "(?eid, h, x) \<in> J \<Longrightarrow> cid_of m x = cid_of m c \<longleftrightarrow> x = c" for h x
    using ledger_live_inj [OF _ live, of x] ledger_J_live [OF inv] by blast
  show ?thesis
  proof (cases "map_of (prefix_ctx_map_reversed pc) (cid_of m c)")
    case None
    then have "(?eid, h, c) \<notin> J" for h using ag unfolding cache_agrees_def by (metis option.distinct(1))
    then have "cache_agrees m' {(e, h, x) \<in> J. x \<noteq> c} ?eid pc"
      using ag heap unfolding cache_agrees_def by (simp add: set_eq_iff) metis
    with None show ?thesis by (simp add: remove_context_id_def)
  next
    case (Some h0)
    then have Jc: "(?eid, h0, c) \<in> J" using ag J unfolding cache_agrees_def by metis
    have h0: "map_of (prefix_ctx_map pc) h0 = Some (cid_of m c)"
      using ag Jc unfolding cache_agrees_def by blast
    define pc' where "pc' = pc\<lparr>prefix_ctx_map := dict_pop h0 (prefix_ctx_map pc),
      prefix_ctx_map_reversed := dict_pop (cid_of m c) (prefix_ctx_map_reversed pc)\<rparr>"
    have "cache_agrees m' {(e, h, x) \<in> J. x \<noteq> c} ?eid pc'"
      unfolding cache_agrees_def
    proof (intro conjI allI)
      fix h cid
      have other: "h \<noteq> h0 \<longleftrightarrow> x \<noteq> c" if "(?eid, h, x) \<in> J" for x
        using ledger_J_unique [OF inv that Jc] by simp
      show "(map_of (prefix_ctx_map pc') h = Some cid) = (\<exists>x. cid_of m' x = cid \<and> (?eid, h, x) \<in> {(e, h, x) \<in> J. x \<noteq> c})"
        using ag other heap by (auto simp: pc'_def cache_agrees_def)
      show "(map_of (prefix_ctx_map_reversed pc') cid = Some h) = (\<exists>x. cid_of m' x = cid \<and> (?eid, h, x) \<in> {(e, h, x) \<in> J. x \<noteq> c})"
        using ag J heap by (auto simp: pc'_def cache_agrees_def)
    qed
    moreover have "remove_context_id (cid_of m c) pc = (Inr (), pc')"
      using Some h0 by (simp add: remove_context_id_def key_iff_map_of pc'_def)
    ultimately show ?thesis by blast
  qed
qed

lemma ledger_decrement:
  assumes inv: "ledger E m R J" and live: "ctx_live m c" and more: "R c > 1"
    and m': "m' = m\<lparr>context_ref_counter := dict_set (cid_of m c) (int (R c) - 1) (context_ref_counter m)\<rparr>"
  shows "ledger E m' (drop_ref R c) J"
proof -
  have cnt: "map_of (context_ref_counter m') k =
      (if k = cid_of m c then Some (int (R c) - 1) else map_of (context_ref_counter m) k)" for k
    by (simp add: m')
  have f: "ctx_heap m' = ctx_heap m" "mgr_contexts m' = mgr_contexts m" "context_id_pool m' = context_id_pool m"
    "prefix_caches m' = prefix_caches m" "ctx_live m' = ctx_live m"
    by (simp_all add: m' ctx_live_def fun_eq_iff)
  have R: "drop_ref R c x > 0 \<longleftrightarrow> R x > 0" for x using more by (simp add: drop_ref_def)
  have c: "map_of (mgr_contexts m) (cid_of m c) = Some c" using live by (simp add: ctx_live_def)
  show ?thesis
    unfolding ledger_def f R
  proof (intro conjI allI impI)
    fix k x
    assume k: "map_of (mgr_contexts m) k = Some x"
    show "x < length (ctx_heap m)" "cid_of m x = k" "eid_of E m x \<in> fst ` set (prefix_caches m)" "0 < R x"
      using ledger_ctx [OF inv k] by simp_all
    show "map_of (context_ref_counter m') k = Some (int (drop_ref R c x))"
      using ledger_ctx [OF inv k] more c k by (auto simp: cnt drop_ref_def)
  next
    fix k
    assume "map_of (mgr_contexts m) k = None"
    with ledger_dead [OF inv this] c show "map_of (context_ref_counter m') k \<in> {None, Some 0}"
      by (auto simp: cnt)
  qed (use inv in \<open>auto simp: ledger_def cache_agrees_frame [OF f(1)]\<close>)
qed

lemma ledger_last:
  assumes inv: "ledger E m R J" and live: "ctx_live m c" and one: "R c = 1"
    and f: "ctx_heap m' = ctx_heap m" "mgr_contexts m' = dict_pop (cid_of m c) (mgr_contexts m)"
      "prefix_caches m' = dict_set (eid_of E m c) pc' (prefix_caches m)"
      "map_of (context_ref_counter m') = (map_of (context_ref_counter m))(cid_of m c \<mapsto> 0)"
    and pool: "pool_inv (context_id_pool m') (fst ` set (mgr_contexts m'))" "pool_size (context_id_pool m') = None"
    and ag: "cache_agrees m' {(e, h, x) \<in> J. x \<noteq> c} (eid_of E m c) pc'"
  shows "ledger E m' (drop_ref R c) {(e, h, x) \<in> J. x \<noteq> c}"
proof -
  have c: "map_of (mgr_contexts m) (cid_of m c) = Some c" using live by (simp add: ctx_live_def)
  have keys: "fst ` set (prefix_caches m') = fst ` set (prefix_caches m)"
    using ledger_engine [OF inv live] unfolding f(3) dict_keys_set by blast
  have live': "ctx_live m' x \<longleftrightarrow> ctx_live m x \<and> x \<noteq> c" for x
    using live by (auto simp: ctx_live_def f(1,2))
  have R: "drop_ref R c x > 0 \<longleftrightarrow> R x > 0 \<and> x \<noteq> c" for x using one by (simp add: drop_ref_def)
  show ?thesis
    unfolding ledger_def keys f(1) R
  proof (intro conjI allI impI)
    fix k x
    assume "map_of (mgr_contexts m') k = Some x"
    then have k: "map_of (mgr_contexts m) k = Some x" "k \<noteq> cid_of m c" by (auto simp: f(2) split: if_splits)
    show "x < length (ctx_heap m)" "cid_of m x = k" "eid_of E m x \<in> fst ` set (prefix_caches m)" "0 < R x"
      using ledger_ctx [OF inv k(1)] by simp_all
    show "x \<noteq> c" using ledger_ctx [OF inv k(1)] k(2) by auto
    then show "map_of (context_ref_counter m') k = Some (int (drop_ref R c x))"
      using ledger_ctx [OF inv k(1)] k(2) by (simp add: f(4) drop_ref_def)
  next
    fix k
    assume "map_of (mgr_contexts m') k = None"
    then show "map_of (context_ref_counter m') k \<in> {None, Some 0}"
      using ledger_dead [OF inv, of k] by (auto simp: f(2,4) split: if_splits)
  next
    fix x
    assume "0 < R x \<and> x \<noteq> c"
    then show "ctx_live m' x" using live' ledger_live_iff [OF inv] by blast
  next
    show "\<forall>(eid, h, x) \<in> {(e, h, x) \<in> J. x \<noteq> c}. ctx_live m' x \<and> eid_of E m x = eid"
      using ledger_J_live [OF inv] live' by auto
  next
    fix e p
    assume p: "map_of (prefix_caches m') e = Some p"
    show "cache_agrees m' {(e, h, x) \<in> J. x \<noteq> c} e p"
    proof (cases "e = eid_of E m c")
      case True
      with p ag show ?thesis by (simp add: f(3))
    next
      case False
      then have "cache_agrees m J e p" using p inv by (simp add: f(3) ledger_def)
      moreover have "(e, h, c) \<notin> J" for h using ledger_J_live [OF inv] False by auto
      ultimately show ?thesis unfolding cache_agrees_def f(1) by (simp add: set_eq_iff) metis
    qed
  qed (use pool in simp_all)
qed

lemma ledger_free:
  assumes inv: "ledger E m R J" and live: "ctx_live m c"
  shows "\<exists>m'. free_context_obj E (\<lambda>_ _. True) c m = (Inr (), m') \<and>
    ledger E m' (drop_ref R c) (drop_cached R c J) \<and> ctx_heap m' = ctx_heap m \<and> same_frame m m' \<and>
    mgr_contexts m' = (if R c = 1 then dict_pop (cid_of m c) (mgr_contexts m) else mgr_contexts m)"
proof -
  let ?cid = "cid_of m c"
  have cnt: "map_of (context_ref_counter m) ?cid = Some (int (R c))" and pos: "R c > 0"
    and mem: "map_of (mgr_contexts m) ?cid = Some c"
    using inv live by (auto simp: ledger_def ctx_live_def)
  define m1 where "m1 = m\<lparr>context_ref_counter := dict_set ?cid (int (R c) - 1) (context_ref_counter m)\<rparr>"
  show ?thesis
  proof (cases "R c = 1")
    case False
    then have "free_context_obj E (\<lambda>_ _. True) c m = (Inr (), m1)"
      using cnt pos by (simp add: free_context_obj_def Let_def key_iff_map_of m1_def)
    moreover have "ledger E m1 (drop_ref R c) J"
      using ledger_decrement [OF inv live _ m1_def] pos False by simp
    ultimately show ?thesis using False by (simp add: drop_cached_def m1_def same_frame_def)
  next
    case True
    let ?eid = "eid_of E m c"
    obtain pc where pc: "map_of (prefix_caches m) ?eid = Some pc"
      using ledger_engine [OF inv live] key_map_of_Some by metis
    have pl: "pool_inv (context_id_pool m) (fst ` set (mgr_contexts m))" "pool_size (context_id_pool m) = None"
      using inv by (simp_all add: ledger_def)
    obtain p where p: "pool_free ?cid (context_id_pool m) = (Inr (), p)"
        "pool_inv p (fst ` set (dict_pop ?cid (mgr_contexts m)))"
      using rp.unregister_ok [OF pl(1) map_of_Some_key [OF mem]] by blast
    have psize: "pool_size p = None" using pool_free_size [OF p(1)] pl(2) by simp
    obtain pc' where pc': "remove_context_id ?cid pc = (Inr (), pc')"
        "cache_agrees m {(e, h, x) \<in> J. x \<noteq> c} ?eid pc'"
      using remove_context_id_agrees [OF inv live pc refl] by blast
    define m' where "m' = m1\<lparr>prefix_caches := dict_set ?eid pc' (prefix_caches m),
      mgr_contexts := dict_pop ?cid (mgr_contexts m), context_id_pool := p\<rparr>"
    have "free_context_obj E (\<lambda>_ _. True) c m = (Inr (), m')"
      using cnt True pc pc'(1) p(1) mem
      by (simp add: free_context_obj_def Let_def key_iff_map_of m'_def m1_def)
    moreover have "ledger E m' (drop_ref R c) {(e, h, x) \<in> J. x \<noteq> c}"
      using pc'(2) p psize True
      by (intro ledger_last [OF inv live True, of m' pc']) (simp_all add: m'_def m1_def cache_agrees_def)
    moreover have "same_frame m m'"
      using ledger_engine [OF inv live] by (auto simp: same_frame_def m'_def m1_def dict_keys_set)
    ultimately show ?thesis using True by (simp add: drop_cached_def m'_def m1_def)
  qed
qed

end
