(* ===== verification/Context_Ownership.thy ===== *)
theory Context_Ownership
  imports Context_Manager
begin

text \<open>
  Who holds which context. \<open>ctx_inv E m K H\<close> is the invariant of the context manager \<open>m\<close>
  when the tasks \<open>H\<close> have contexts and the constant-prefix variables \<open>K\<close> hold their
  extra references: the reference counters count exactly the holders, the prefix cache of
  an engine maps exactly the prefixes that are held, and the contexts of a task form a
  chain of forks on the task's engine. The theorems show that binding contexts to a task
  succeeds and reuses exactly the cached prefix, that freeing a task's contexts gives back
  exactly what nobody else holds, and that nothing is left when all holders are gone.
  Tasks with \<^verbatim>\<open>fuse_fill\<close> are excluded, and the last section shows what goes wrong for them.
\<close>

section \<open>Prefix hashes\<close>

definition hash_vars :: "string list \<Rightarrow> string" where
  "hash_vars vs = concat (map hash_var_id vs)"

definition plain_id :: "string \<Rightarrow> bool" where
  "plain_id v \<longleftrightarrow> CHR ''}'' \<notin> set v"

lemma hash_vars_simps [simp]:
  "hash_vars [] = []" "hash_vars (v # vs) = hash_var_id v @ hash_vars vs"
  "hash_vars (vs @ ws) = hash_vars vs @ hash_vars ws"
  by (simp_all add: hash_vars_def)

lemma hash_var_id_nonempty [simp]: "hash_var_id v \<noteq> []"
  by (simp add: hash_var_id_def PREFIX_HASH_BRACKET_LEFT_def)

lemma hash_var_id_append_inject:
  assumes "hash_var_id v @ s = hash_var_id w @ s'" and "plain_id v" and "plain_id w"
  shows "v = w \<and> s = s'"
proof -
  have eq: "v @ CHR ''}'' # CHR ''}'' # s = w @ CHR ''}'' # CHR ''}'' # s'"
    using assms(1) by (simp add: hash_var_id_def PREFIX_HASH_BRACKET_LEFT_def PREFIX_HASH_BRACKET_RIGHT_def)
  have tw: "takeWhile (\<lambda>c. c \<noteq> CHR ''}'') (u @ CHR ''}'' # r) = u" if "plain_id u" for u r
    using that by (subst takeWhile_append2) (auto simp: plain_id_def)
  have "v = w" using arg_cong [OF eq, of "takeWhile (\<lambda>c. c \<noteq> CHR ''}'')"] tw assms(2,3) by simp
  with eq show ?thesis by simp
qed

text \<open>A prefix hash determines its list of variables.\<close>

lemma hash_vars_inject:
  assumes "hash_vars vs = hash_vars ws" and "list_all plain_id vs" and "list_all plain_id ws"
  shows "vs = ws"
  using assms
proof (induction vs arbitrary: ws)
  case Nil
  then show ?case by (cases ws) auto
next
  case (Cons v vs)
  from Cons.prems(1) have "ws \<noteq> []" by auto
  then obtain w us where ws: "ws = w # us" by (cases ws) auto
  then have "v = w" "hash_vars vs = hash_vars us"
    using hash_var_id_append_inject [of v "hash_vars vs" w "hash_vars us"] Cons.prems by auto
  with Cons ws show ?case by auto
qed

section \<open>The invariant\<close>

abbreviation nodes_of :: "completion_task \<Rightarrow> chain_node list" where
  "nodes_of t \<equiv> chain_iter (chain t)"

definition task_hash :: "completion_task \<Rightarrow> nat \<Rightarrow> string" where
  "task_hash t i = hash_vars (take i (map node_var_id (nodes_of t)))"

abbreviation task_eid :: "engine_store \<Rightarrow> completion_task \<Rightarrow> int" where
  "task_eid E t \<equiv> engine_id (E (the (task_engine t)))"

definition node_wf :: "chain_node \<Rightarrow> bool" where
  "node_wf n \<longleftrightarrow> plain_id (node_var_id n) \<and> \<not> (node_is_gen n \<and> node_is_constant_prefix n)"

text \<open>
  A schedulable task: its chain is Fill nodes and at most a Gen node at the end, as the
  chain iterator of the graph gives it.
\<close>

definition task_wf :: "completion_task \<Rightarrow> bool" where
  "task_wf t \<longleftrightarrow>
    task_engine t \<noteq> None \<and> \<not> py_truth (fuse_fill (chain_metadata (chain t))) \<and>
    list_all node_wf (nodes_of t) \<and> list_all (\<lambda>n. \<not> node_is_gen n) (butlast (nodes_of t)) \<and>
    length (contexts t) \<le> length (nodes_of t)"

definition held_prefixes :: "engine_store \<Rightarrow> completion_task \<Rightarrow> (int \<times> string \<times> context_ref) set" where
  "held_prefixes E t =
    {(task_eid E t, task_hash t (Suc i), contexts t ! i) | i. i < length (contexts t) \<and> \<not> node_is_gen (nodes_of t ! i)}"

definition const_prefixes ::
  "engine_store \<Rightarrow> context_manager \<Rightarrow> (string, context_ref list) dict \<Rightarrow> (int \<times> string \<times> context_ref) set" where
  "const_prefixes E m K = {(eid_of E m c, hash_var_id v, c) | v refs c. (v, refs) \<in> set K \<and> c \<in> set refs}"

definition cached ::
  "engine_store \<Rightarrow> context_manager \<Rightarrow> (string, context_ref list) dict \<Rightarrow> completion_task list \<Rightarrow> (int \<times> string \<times> context_ref) set" where
  "cached E m K H = (\<Union>t \<in> set H. held_prefixes E t) \<union> const_prefixes E m K"

definition refs_num :: "(string, context_ref list) dict \<Rightarrow> completion_task list \<Rightarrow> context_ref \<Rightarrow> nat" where
  "refs_num K H c = length (filter (\<lambda>t. c \<in> set (contexts t)) H) + sum_list (map (\<lambda>e. count_list (snd e) c) K)"

definition task_inv :: "engine_store \<Rightarrow> context_manager \<Rightarrow> completion_task \<Rightarrow> bool" where
  "task_inv E m t \<longleftrightarrow>
    task_wf t \<and> task_eid E t \<in> fst ` set (prefix_caches m) \<and> distinct (contexts t) \<and>
    (\<forall>i < length (contexts t).
       contexts t ! i < length (ctx_heap m) \<and> eid_of E m (contexts t ! i) = task_eid E t \<and>
       parent_context (ctx_heap m ! (contexts t ! i)) = (if i = 0 then None else Some (contexts t ! (i - 1))))"

definition const_inv :: "engine_store \<Rightarrow> context_manager \<Rightarrow> (string, context_ref list) dict \<Rightarrow> bool" where
  "const_inv E m K \<longleftrightarrow>
    dict_ok K \<and>
    (\<forall>(v, refs) \<in> set K. plain_id v \<and> distinct refs \<and>
       (\<forall>c \<in> set refs. c < length (ctx_heap m) \<and> parent_context (ctx_heap m ! c) = None))"

definition gen_inv ::
  "(string, context_ref list) dict \<Rightarrow> completion_task list \<Rightarrow> (int \<times> string \<times> context_ref) set \<Rightarrow> bool" where
  "gen_inv K H J \<longleftrightarrow>
    (\<forall>t \<in> set H. \<forall>i < length (contexts t). node_is_gen (nodes_of t ! i) \<longrightarrow>
       refs_num K H (contexts t ! i) = 1 \<and> (\<forall>e h. (e, h, contexts t ! i) \<notin> J))"

definition ctx_inv ::
  "engine_store \<Rightarrow> context_manager \<Rightarrow> (string, context_ref list) dict \<Rightarrow> completion_task list \<Rightarrow> bool" where
  "ctx_inv E m K H \<longleftrightarrow>
    ledger E m (refs_num K H) (cached E m K H) \<and> (\<forall>t \<in> set H. task_inv E m t) \<and>
    const_inv E m K \<and> gen_inv K H (cached E m K H)"

text \<open>Between the operations, \<open>K\<close> is what the manager records, and no session holds contexts.\<close>

definition manager_inv :: "engine_store \<Rightarrow> context_manager \<Rightarrow> completion_task list \<Rightarrow> bool" where
  "manager_inv E m H \<longleftrightarrow>
    ctx_inv E m (constant_prefix_contexts m) H \<and> list_all (\<lambda>e. snd e = []) (session_contexts m)"

subsection \<open>Consequences\<close>

lemma task_hash_inject:
  assumes "task_hash t i = task_hash u j" and "task_wf t" and "task_wf u"
    and "i \<le> length (nodes_of t)" and "j \<le> length (nodes_of u)"
  shows "i = j \<and> take i (map node_var_id (nodes_of t)) = take j (map node_var_id (nodes_of u))"
proof -
  have p: "list_all plain_id (take k (map node_var_id (nodes_of x)))" if "task_wf x" for x k
    using that by (auto simp: task_wf_def node_wf_def list_all_iff dest!: in_set_takeD)
  have "take i (map node_var_id (nodes_of t)) = take j (map node_var_id (nodes_of u))"
    using hash_vars_inject [OF assms(1) [unfolded task_hash_def] p [OF assms(2)] p [OF assms(3)]] .
  moreover from arg_cong [OF this, of length] assms(4,5) have "i = j" by simp
  ultimately show ?thesis by simp
qed

lemma task_hash_Suc:
  "i < length (nodes_of t) \<Longrightarrow> task_hash t (Suc i) = task_hash t i @ hash_var_id (node_var_id (nodes_of t ! i))"
  by (simp add: task_hash_def take_Suc_conv_app_nth)

lemma task_hash_0 [simp]: "task_hash t 0 = []"
  by (simp add: task_hash_def)

lemma task_hash_prefix:
  assumes "task_hash t (Suc i) = task_hash u (Suc i)" and "task_wf t" and "task_wf u"
    and "i < length (nodes_of t)" and "i < length (nodes_of u)"
  shows "task_hash t i = task_hash u i"
proof -
  have "take (Suc i) (map node_var_id (nodes_of t)) = take (Suc i) (map node_var_id (nodes_of u))"
    using task_hash_inject [OF assms(1-3)] assms(4,5) by simp
  then have "take i (take (Suc i) (map node_var_id (nodes_of t))) = take i (take (Suc i) (map node_var_id (nodes_of u)))" by simp
  then show ?thesis by (simp add: task_hash_def min_def)
qed

lemma refs_num_Cons: "refs_num K (t # H) c = (if c \<in> set (contexts t) then 1 else 0) + refs_num K H c"
  by (simp add: refs_num_def)

lemma cached_Cons: "cached E m K (t # H) = held_prefixes E t \<union> cached E m K H"
  by (auto simp: cached_def)

lemma non_gen_prefix: "task_wf t \<Longrightarrow> Suc i < length (nodes_of t) \<Longrightarrow> \<not> node_is_gen (nodes_of t ! i)"
  by (auto simp: task_wf_def list_all_length nth_butlast)

lemma refs_num_perm: "mset H = mset H' \<Longrightarrow> refs_num K H = refs_num K H'"
  by (simp add: refs_num_def fun_eq_iff) (metis mset_filter size_mset)

lemma ctx_inv_perm:
  assumes "mset H = mset H'"
  shows "ctx_inv E m K H = ctx_inv E m K H'"
  using refs_num_perm [OF assms] mset_eq_setD [OF assms]
  by (simp add: ctx_inv_def cached_def gen_inv_def)

section \<open>Giving contexts back\<close>

abbreviation with_contexts :: "completion_task \<Rightarrow> context_ref list \<Rightarrow> completion_task" where
  "with_contexts t cs \<equiv> t\<lparr>contexts := cs\<rparr>"

lemma task_frame [simp]:
  "task_hash (with_contexts t cs) i = task_hash t i"
  by (simp add: task_hash_def)

lemma held_prefixes_snoc:
  "held_prefixes E (with_contexts t (cs @ [c])) =
    held_prefixes E (with_contexts t cs) \<union>
    (if node_is_gen (nodes_of t ! length cs) then {} else {(task_eid E t, task_hash t (Suc (length cs)), c)})"
proof -
  let ?f = "\<lambda>xs i. (task_eid E t, task_hash t (Suc i), xs ! i)"
  let ?I = "\<lambda>n. {i. i < n \<and> \<not> node_is_gen (nodes_of t ! i)}"
  have img: "held_prefixes E (with_contexts t xs) = ?f xs ` ?I (length xs)" for xs
    unfolding held_prefixes_def by (simp add: image_def) blast
  have "?I (Suc (length cs)) = ?I (length cs) \<union> (if node_is_gen (nodes_of t ! length cs) then {} else {length cs})"
    by (auto simp: less_Suc_eq)
  moreover have "?f (cs @ [c]) ` ?I (length cs) = ?f cs ` ?I (length cs)"
    by (rule image_cong) (simp_all add: nth_append)
  ultimately show ?thesis unfolding img by (simp add: image_Un)
qed

lemma held_prefixes_contexts: "(e, h, c) \<in> held_prefixes E t \<Longrightarrow> c \<in> set (contexts t)"
  by (auto simp: held_prefixes_def)

lemma refs_num_0_iff:
  "refs_num K H c = 0 \<longleftrightarrow> (\<forall>t \<in> set H. c \<notin> set (contexts t)) \<and> (\<forall>(v, refs) \<in> set K. c \<notin> set refs)"
  by (auto simp: refs_num_def filter_empty_conv count_list_0_iff)

lemma cached_held: "(e, h, c) \<in> cached E m K H \<Longrightarrow> refs_num K H c \<noteq> 0"
  by (auto simp: cached_def const_prefixes_def refs_num_0_iff dest: held_prefixes_contexts)

lemma cached_heap: "ctx_heap m' = ctx_heap m \<Longrightarrow> cached E m' K H = cached E m K H"
  by (simp add: cached_def const_prefixes_def)

lemma refs_num_holder:
  assumes "refs_num K H c \<noteq> 0"
  obtains (task) t i where "t \<in> set H" "i < length (contexts t)" "contexts t ! i = c"
    | (const) v refs where "(v, refs) \<in> set K" "c \<in> set refs"
proof -
  have "(\<exists>t \<in> set H. c \<in> set (contexts t)) \<or> (\<exists>v refs. (v, refs) \<in> set K \<and> c \<in> set refs)"
    using assms unfolding refs_num_0_iff by blast
  then show ?thesis using task const by (metis in_set_conv_nth)
qed

text \<open>A context that is still held after a reference is dropped is still cached for its prefix.\<close>

lemma still_cached:
  assumes led: "ledger E m R J" and sub: "cached E m K H \<subseteq> J" and c: "(e, h, c) \<in> J"
    and held: "refs_num K H c \<noteq> 0" and tasks: "\<forall>t \<in> set H. task_inv E m t"
    and nogen: "\<And>t i. t \<in> set H \<Longrightarrow> i < length (contexts t) \<Longrightarrow> contexts t ! i = c \<Longrightarrow> \<not> node_is_gen (nodes_of t ! i)"
  shows "(e, h, c) \<in> cached E m K H"
proof -
  have e: "e = eid_of E m c" using ledger_J_live [OF led c] by simp
  obtain h' where h': "(e, h', c) \<in> cached E m K H"
    using held
  proof (cases rule: refs_num_holder)
    case (task t i)
    then have "(task_eid E t, task_hash t (Suc i), c) \<in> cached E m K H"
      using nogen [OF task] by (auto simp: cached_def held_prefixes_def)
    moreover have "task_eid E t = e" using tasks task e by (auto simp: task_inv_def)
    ultimately show ?thesis using that by blast
  next
    case (const v refs)
    then have "(e, hash_var_id v, c) \<in> cached E m K H" using e by (auto simp: cached_def const_prefixes_def)
    then show ?thesis using that by blast
  qed
  then have "h = h'" using ledger_J_unique [OF led c] sub by blast
  with h' show ?thesis by simp
qed

lemma task_inv_frame:
  "ctx_heap m' = ctx_heap m \<Longrightarrow> same_frame m m' \<Longrightarrow> task_inv E m' t = task_inv E m t"
  by (simp add: task_inv_def same_frame_def)

lemma const_inv_frame: "ctx_heap m' = ctx_heap m \<Longrightarrow> const_inv E m' K = const_inv E m K"
  by (simp add: const_inv_def)

text \<open>One holder gives back one reference to \<open>c\<close>; \<open>L\<close> is what the holder had cached for it.\<close>

lemma ctx_inv_drop:
  assumes inv: "ctx_inv E m K0 H0" and R: "refs_num K H = drop_ref (refs_num K0 H0) c"
    and pos: "refs_num K0 H0 c \<noteq> 0"
    and J: "cached E m K0 H0 = cached E m K H \<union> L" "\<And>e h x. (e, h, x) \<in> L \<Longrightarrow> x = c"
    and tasks: "\<forall>t \<in> set H. task_inv E m t" and const: "const_inv E m K"
    and gen: "\<And>t i. t \<in> set H \<Longrightarrow> i < length (contexts t) \<Longrightarrow> node_is_gen (nodes_of t ! i) \<Longrightarrow>
      refs_num K0 H0 (contexts t ! i) = 1 \<and> (\<forall>e h. (e, h, contexts t ! i) \<notin> cached E m K0 H0)"
  shows "\<exists>m'. free_context_obj E (\<lambda>_ _. True) c m = (Inr (), m') \<and> ctx_inv E m' K H \<and>
    ctx_heap m' = ctx_heap m \<and> same_frame m m'"
proof -
  have led: "ledger E m (refs_num K0 H0) (cached E m K0 H0)" using inv by (simp add: ctx_inv_def)
  have live: "ctx_live m c" using ledger_live_iff [OF led] pos by simp
  obtain m' where m': "free_context_obj E (\<lambda>_ _. True) c m = (Inr (), m')"
      "ledger E m' (drop_ref (refs_num K0 H0) c) (drop_cached (refs_num K0 H0) c (cached E m K0 H0))"
      "ctx_heap m' = ctx_heap m" "same_frame m m'"
    using ledger_free [OF led live] by blast
  have "drop_cached (refs_num K0 H0) c (cached E m K0 H0) = cached E m K H"
  proof (cases "refs_num K0 H0 c = 1")
    case True
    then have "refs_num K H c = 0" by (simp add: R drop_ref_def)
    then have "(e, h, c) \<notin> cached E m K H" for e h using cached_held by blast
    with True J show ?thesis by (auto simp: drop_cached_def)
  next
    case False
    then have held: "refs_num K H c \<noteq> 0" using pos by (simp add: R drop_ref_def)
    have "L \<subseteq> cached E m K H"
    proof
      fix y
      assume y: "y \<in> L"
      obtain e h where eh: "y = (e, h, c)" using J(2) y by (cases y) auto
      then have "(e, h, c) \<in> cached E m K0 H0" using y J(1) by auto
      from still_cached [OF led _ this held tasks] J(1) gen False eh show "y \<in> cached E m K H" by blast
    qed
    with False J(1) show ?thesis by (auto simp: drop_cached_def)
  qed
  then have led': "ledger E m' (refs_num K H) (cached E m' K H)" using m' R cached_heap by metis
  have "gen_inv K H (cached E m' K H)"
    unfolding gen_inv_def
  proof (intro ballI allI impI conjI)
    fix t i
    assume t: "t \<in> set H" "i < length (contexts t)" "node_is_gen (nodes_of t ! i)"
    let ?x = "contexts t ! i"
    have one: "refs_num K0 H0 ?x = 1" "\<And>e h. (e, h, ?x) \<notin> cached E m K0 H0" using gen [OF t] by auto
    have "refs_num K H ?x \<noteq> 0" using t nth_mem by (auto simp: refs_num_0_iff)
    with one(1) show "refs_num K H ?x = 1" by (auto simp: R drop_ref_def split: if_splits)
    show "(e, h, ?x) \<notin> cached E m' K H" for e h
      using one(2) J(1) cached_heap [OF m'(3)] by auto
  qed
  then have "ctx_inv E m' K H"
    using led' tasks const
    by (simp add: ctx_inv_def task_inv_frame [OF m'(3,4)] const_inv_frame [OF m'(3)])
  with m' show ?thesis by blast
qed

lemma task_inv_prefix:
  assumes "task_inv E m t" and "contexts t = cs @ ds"
  shows "task_inv E m (with_contexts t cs)"
proof -
  have nth: "contexts t ! i = cs ! i" if "i < length cs" for i using assms(2) that by (simp add: nth_append)
  have le: "length cs \<le> length (contexts t)" using assms(2) by simp
  show ?thesis
    unfolding task_inv_def
  proof (intro conjI allI impI)
    fix i
    assume "i < length (contexts (with_contexts t cs))"
    then have i: "i < length cs" "i < length (contexts t)" using le by auto
    have "contexts t ! i < length (ctx_heap m) \<and> eid_of E m (contexts t ! i) = task_eid E t \<and>
        parent_context (ctx_heap m ! (contexts t ! i)) = (if i = 0 then None else Some (contexts t ! (i - 1)))"
      using assms(1) i(2) by (simp add: task_inv_def)
    then show "contexts (with_contexts t cs) ! i < length (ctx_heap m)"
      "eid_of E m (contexts (with_contexts t cs) ! i) = task_eid E (with_contexts t cs)"
      "parent_context (ctx_heap m ! (contexts (with_contexts t cs) ! i)) =
        (if i = 0 then None else Some (contexts (with_contexts t cs) ! (i - 1)))"
      using i nth by simp_all
  qed (use assms le in \<open>auto simp: task_inv_def task_wf_def\<close>)
qed

lemma ctx_inv_drop_task:
  assumes inv: "ctx_inv E m K (t # H)" and t: "contexts t = cs @ [c]"
  shows "\<exists>m'. free_context_obj E (\<lambda>_ _. True) c m = (Inr (), m') \<and> ctx_inv E m' K (with_contexts t cs # H) \<and>
    ctx_heap m' = ctx_heap m \<and> same_frame m m'"
proof (rule ctx_inv_drop [OF inv])
  have ti: "task_inv E m t" using inv by (simp add: ctx_inv_def)
  then have d: "c \<notin> set cs" using t by (simp add: task_inv_def)
  show "refs_num K (with_contexts t cs # H) = drop_ref (refs_num K (t # H)) c"
    using d t by (auto simp: refs_num_Cons drop_ref_def fun_eq_iff)
  show "refs_num K (t # H) c \<noteq> 0" using t by (simp add: refs_num_Cons)
  have eq: "with_contexts t (cs @ [c]) = t" using t by simp
  show "cached E m K (t # H) = cached E m K (with_contexts t cs # H) \<union>
      (if node_is_gen (nodes_of t ! length cs) then {} else {(task_eid E t, task_hash t (Suc (length cs)), c)})"
    using held_prefixes_snoc [of E cs c t] unfolding eq cached_Cons by auto
  show "\<forall>u \<in> set (with_contexts t cs # H). task_inv E m u"
    using inv task_inv_prefix [OF ti t] by (simp add: ctx_inv_def)
  show "const_inv E m K" using inv by (simp add: ctx_inv_def)
  have g: "gen_inv K (t # H) (cached E m K (t # H))" using inv by (simp add: ctx_inv_def)
  fix u i
  assume u: "u \<in> set (with_contexts t cs # H)" "i < length (contexts u)" "node_is_gen (nodes_of u ! i)"
  show "refs_num K (t # H) (contexts u ! i) = 1 \<and> (\<forall>e h. (e, h, contexts u ! i) \<notin> cached E m K (t # H))"
  proof (cases "u \<in> set H")
    case True
    then show ?thesis using g u(2,3) by (simp add: gen_inv_def)
  next
    case False
    then have u': "u = with_contexts t cs" using u(1) by simp
    then have "i < length (contexts t)" "contexts t ! i = contexts u ! i" "node_is_gen (nodes_of t ! i)"
      using u(2,3) t by (simp_all add: nth_append)
    then show ?thesis using g unfolding gen_inv_def by (metis list.set_intros(1))
  qed
qed (auto split: if_splits)

lemma ctx_inv_ledger: "ctx_inv E m K H \<Longrightarrow> ledger E m (refs_num K H) (cached E m K H)"
  by (simp add: ctx_inv_def)

lemma task_context_live:
  "ctx_inv E m K (t # H) \<Longrightarrow> c \<in> set (contexts t) \<Longrightarrow> ctx_live m c"
  by (simp add: ledger_live_iff [OF ctx_inv_ledger] refs_num_Cons)

lemma ctx_inv_no_contexts:
  assumes "contexts t = []"
  shows "ctx_inv E m K (t # H) \<longleftrightarrow> ctx_inv E m K H \<and> task_inv E m t"
proof -
  have "refs_num K (t # H) = refs_num K H" and "cached E m K (t # H) = cached E m K H"
    using assms by (simp_all add: fun_eq_iff refs_num_Cons cached_Cons held_prefixes_def)
  then show ?thesis using assms by (auto simp: ctx_inv_def gen_inv_def)
qed

lemma free_refs_ok:
  assumes "ctx_inv E m K (t # H)" and "contexts t = cs" and "\<forall>c \<in> set cs. cid_of m c \<notin> visited"
  shows "\<exists>m'. free_refs E (\<lambda>_ _. True) (rev cs) visited m = (Inr (), m') \<and>
    ctx_inv E m' K (with_contexts t [] # H) \<and> ctx_heap m' = ctx_heap m \<and> same_frame m m'"
  using assms
proof (induction cs arbitrary: m t visited rule: rev_induct)
  case Nil
  then have eq: "with_contexts t [] = t" by simp
  show ?case unfolding eq using Nil by simp
next
  case (snoc c cs)
  obtain m1 where m1: "free_context_obj E (\<lambda>_ _. True) c m = (Inr (), m1)"
      "ctx_inv E m1 K (with_contexts t cs # H)" "ctx_heap m1 = ctx_heap m" "same_frame m m1"
    using ctx_inv_drop_task [OF snoc.prems(1,2)] by blast
  have "distinct (contexts t)" using snoc.prems(1) by (simp add: ctx_inv_def task_inv_def)
  then have "c \<notin> set cs" using snoc.prems(2) by simp
  moreover have "ctx_live m x" if "x \<in> set (cs @ [c])" for x
    using task_context_live [OF snoc.prems(1)] snoc.prems(2) that by simp
  ultimately have "cid_of m x \<noteq> cid_of m c" if "x \<in> set cs" for x
    using that ledger_live_inj [of m x c] by auto
  then have "\<forall>x \<in> set cs. cid_of m1 x \<notin> insert (cid_of m1 c) visited"
    using snoc.prems(3) m1(3) by simp
  from snoc.IH [OF m1(2) _ this] obtain m' where
    "free_refs E (\<lambda>_ _. True) (rev cs) (insert (cid_of m1 c) visited) m1 = (Inr (), m')"
    "ctx_inv E m' K (with_contexts t [] # H)" "ctx_heap m' = ctx_heap m1" "same_frame m1 m'"
    by auto
  then show ?case using m1 snoc.prems(3) same_frame_trans by auto
qed

lemma free_task_contexts_ctx_inv:
  assumes "ctx_inv E m K (t # H)"
  shows "\<exists>m'. free_task_contexts E (\<lambda>_ _. True) t m = (Inr (), m') \<and> ctx_inv E m' K H \<and>
    ctx_heap m' = ctx_heap m \<and> same_frame m m'"
  using free_refs_ok [OF assms refl, of "{}"] by (auto simp: free_task_contexts_def ctx_inv_no_contexts)

subsection \<open>Constant prefixes\<close>

lemma refs_num_const:
  "refs_num (A @ (v, refs) # B) H c = refs_num (A @ B) H c + count_list refs c"
  by (simp add: refs_num_def)

lemma cached_const:
  "cached E m (A @ (v, refs) # B) H = cached E m (A @ B) H \<union> (\<lambda>c. (eid_of E m c, hash_var_id v, c)) ` set refs"
  by (auto simp: cached_def const_prefixes_def)

lemma const_inv_tail:
  "const_inv E m (A @ (v, c # refs) # B) \<Longrightarrow> const_inv E m (A @ (v, refs) # B)"
  by (auto simp: const_inv_def)

lemma ctx_inv_drop_const:
  assumes inv: "ctx_inv E m (A @ (v, c # refs) # B) H"
  shows "\<exists>m'. free_context_obj E (\<lambda>_ _. True) c m = (Inr (), m') \<and> ctx_inv E m' (A @ (v, refs) # B) H \<and>
    ctx_heap m' = ctx_heap m \<and> same_frame m m'"
proof (rule ctx_inv_drop [OF inv])
  have ci: "const_inv E m (A @ (v, c # refs) # B)" using inv by (simp add: ctx_inv_def)
  show "refs_num (A @ (v, refs) # B) H = drop_ref (refs_num (A @ (v, c # refs) # B) H) c"
    by (auto simp: fun_eq_iff drop_ref_def refs_num_const)
  show "refs_num (A @ (v, c # refs) # B) H c \<noteq> 0" by (simp add: refs_num_const)
  show "cached E m (A @ (v, c # refs) # B) H =
      cached E m (A @ (v, refs) # B) H \<union> {(eid_of E m c, hash_var_id v, c)}"
    by (auto simp: cached_const)
  show "const_inv E m (A @ (v, refs) # B)" using const_inv_tail [OF ci] .
  show "\<forall>t \<in> set H. task_inv E m t" using inv by (simp add: ctx_inv_def)
  fix t i
  assume "t \<in> set H" "i < length (contexts t)" "node_is_gen (nodes_of t ! i)"
  then show "refs_num (A @ (v, c # refs) # B) H (contexts t ! i) = 1 \<and>
      (\<forall>e h. (e, h, contexts t ! i) \<notin> cached E m (A @ (v, c # refs) # B) H)"
    using inv by (simp add: ctx_inv_def gen_inv_def)
qed simp

lemma free_const_loop:
  assumes "ctx_inv E m (A @ (v, refs) # B) H"
  shows "\<exists>m'. py_for (free_context_obj E (\<lambda>_ _. True)) refs m = (Inr (), m') \<and>
    ctx_inv E m' (A @ (v, []) # B) H \<and> ctx_heap m' = ctx_heap m \<and> same_frame m m'"
  using assms
proof (induction refs arbitrary: m)
  case Nil
  then show ?case by simp
next
  case (Cons c refs)
  obtain m1 where m1: "free_context_obj E (\<lambda>_ _. True) c m = (Inr (), m1)"
      "ctx_inv E m1 (A @ (v, refs) # B) H" "ctx_heap m1 = ctx_heap m" "same_frame m m1"
    using ctx_inv_drop_const [OF Cons.prems] by blast
  with Cons.IH [OF m1(2)] show ?case using same_frame_trans by auto
qed

lemma ctx_inv_const_empty:
  assumes "ctx_inv E m (A @ (v, []) # B) H"
  shows "ctx_inv E m (A @ B) H"
proof -
  have "refs_num (A @ (v, []) # B) H = refs_num (A @ B) H" by (simp add: fun_eq_iff refs_num_const)
  moreover have "cached E m (A @ (v, []) # B) H = cached E m (A @ B) H" by (simp add: cached_const)
  ultimately show ?thesis using assms by (auto simp: ctx_inv_def gen_inv_def const_inv_def)
qed

lemma free_constant_prefix_ctx_inv:
  assumes inv: "ctx_inv E m (constant_prefix_contexts m) H"
    and mem: "map_of (constant_prefix_contexts m) v = Some refs"
  shows "\<exists>m'. free_constant_prefix_contexts E (\<lambda>_ _. True) v m = (Inr (), m') \<and>
    ctx_inv E m' (constant_prefix_contexts m') H \<and>
    constant_prefix_contexts m' = dict_pop v (constant_prefix_contexts m) \<and> session_contexts m' = session_contexts m"
proof -
  have ok: "dict_ok (constant_prefix_contexts m)" using inv by (simp add: ctx_inv_def const_inv_def)
  obtain A B where K: "constant_prefix_contexts m = A @ (v, refs) # B"
    using mem by (meson map_of_SomeD split_list)
  have "v \<notin> fst ` set A" "v \<notin> fst ` set B" using ok unfolding K by auto
  then have pop: "dict_pop v (A @ (v, refs) # B) = A @ B"
    by (induction A) (auto simp: dict_pop_absent)
  obtain m1 where m1: "py_for (free_context_obj E (\<lambda>_ _. True)) refs m = (Inr (), m1)"
      "ctx_inv E m1 (A @ (v, []) # B) H" "same_frame m m1"
    using free_const_loop [OF inv [unfolded K]] by blast
  define m' where "m' = m1\<lparr>constant_prefix_contexts := A @ B\<rparr>"
  have "ctx_inv E m1 (A @ B) H" using ctx_inv_const_empty [OF m1(2)] .
  then have "ctx_inv E m' (A @ B) H"
    by (simp add: m'_def ctx_inv_def ledger_def cached_def const_prefixes_def cache_agrees_def ctx_live_def
        task_inv_def const_inv_def)
  moreover have "free_constant_prefix_contexts E (\<lambda>_ _. True) v m = (Inr (), m')"
    using mem m1 K pop by (simp add: free_constant_prefix_contexts_def m'_def same_frame_def)
  ultimately show ?thesis using m1(3) K pop by (simp add: m'_def same_frame_def)
qed

section \<open>Binding contexts\<close>

subsection \<open>Reusing a cached context\<close>

lemma cachedE:
  assumes "(e, h, c) \<in> cached E m K H"
  obtains (task) u j where "u \<in> set H" "j < length (contexts u)" "contexts u ! j = c" "task_eid E u = e"
      "task_hash u (Suc j) = h" "\<not> node_is_gen (nodes_of u ! j)"
    | (const) v refs where "(v, refs) \<in> set K" "c \<in> set refs" "h = hash_var_id v" "e = eid_of E m c"
  using assms by (auto simp: cached_def held_prefixes_def const_prefixes_def)

lemma ctx_inv_task: "ctx_inv E m K H \<Longrightarrow> t \<in> set H \<Longrightarrow> task_inv E m t"
  by (simp add: ctx_inv_def)

lemma task_inv_wf: "task_inv E m t \<Longrightarrow> task_wf t \<and> length (contexts t) \<le> length (nodes_of t)"
  by (simp add: task_inv_def task_wf_def)

lemma held_cached:
  "t \<in> set H \<Longrightarrow> j < length (contexts t) \<Longrightarrow> \<not> node_is_gen (nodes_of t ! j) \<Longrightarrow>
    (task_eid E t, task_hash t (Suc j), contexts t ! j) \<in> cached E m K H"
  by (auto simp: cached_def held_prefixes_def)

lemma cached_parent:
  assumes inv: "ctx_inv E m K H" and t: "t \<in> set H" and i: "i = length (contexts t)" "i < length (nodes_of t)"
    and c: "(task_eid E t, task_hash t (Suc i), c) \<in> cached E m K H"
  shows "parent_context (ctx_heap m ! c) = (if i = 0 then None else Some (contexts t ! (i - 1)))"
  using c
proof (cases rule: cachedE)
  case (task u j)
  have wf: "task_wf t" "task_wf u" "j < length (nodes_of u)"
    using task_inv_wf ctx_inv_task [OF inv] t task(1,2) by fastforce+
  have ji: "j = i" using task_hash_inject [OF task(5) wf(2,1)] i wf(3) by simp
  have parent: "parent_context (ctx_heap m ! c) = (if i = 0 then None else Some (contexts u ! (i - 1)))"
    using ctx_inv_task [OF inv task(1)] task(2,3) ji by (auto simp: task_inv_def)
  show ?thesis
  proof (cases i)
    case 0
    with parent show ?thesis by simp
  next
    case (Suc k)
    have "task_hash u i = task_hash t i"
      using task_hash_prefix [of u i t] task(5) wf i ji by simp
    moreover have "(task_eid E u, task_hash u (Suc k), contexts u ! k) \<in> cached E m K H"
      using task ji Suc wf non_gen_prefix [of u k] by (intro held_cached) auto
    moreover have "(task_eid E t, task_hash t (Suc k), contexts t ! k) \<in> cached E m K H"
      using t i Suc wf non_gen_prefix [of t k] by (intro held_cached) auto
    ultimately have "contexts u ! k = contexts t ! k"
      using ledger_J_unique [OF ctx_inv_ledger [OF inv]] task(4) Suc by metis
    with parent Suc show ?thesis by simp
  qed
next
  case (const v refs)
  have "plain_id v" "parent_context (ctx_heap m ! c) = None"
    using inv const by (auto simp: ctx_inv_def const_inv_def)
  moreover have "list_all plain_id (take (Suc i) (map node_var_id (nodes_of t)))"
    using ctx_inv_task [OF inv t]
    by (auto simp: task_inv_def task_wf_def node_wf_def list_all_iff dest!: in_set_takeD)
  ultimately have "[v] = take (Suc i) (map node_var_id (nodes_of t))"
    using hash_vars_inject [of "[v]"] const(3) by (simp add: task_hash_def)
  from arg_cong [OF this, of length] i \<open>parent_context (ctx_heap m ! c) = None\<close> show ?thesis by simp
qed

lemma cached_new_for_task:
  assumes inv: "ctx_inv E m K H" and t: "t \<in> set H" and i: "i = length (contexts t)" "i < length (nodes_of t)"
    and c: "(task_eid E t, task_hash t (Suc i), c) \<in> cached E m K H"
  shows "c \<notin> set (contexts t)"
proof
  assume "c \<in> set (contexts t)"
  then obtain j where j: "j < length (contexts t)" "contexts t ! j = c" by (metis in_set_conv_nth)
  have wf: "task_wf t" using ctx_inv_task [OF inv t] by (simp add: task_inv_def)
  have "(task_eid E t, task_hash t (Suc j), c) \<in> cached E m K H"
    using held_cached [OF t j(1)] j i wf non_gen_prefix [of t j] by auto
  then have "task_hash t (Suc j) = task_hash t (Suc i)"
    using ledger_J_unique [OF ctx_inv_ledger [OF inv] _ c] by blast
  then show False using task_hash_inject [OF _ wf wf] j i by fastforce
qed

lemma task_inv_snoc:
  assumes "task_inv E m t" and "length (contexts t) < length (nodes_of t)" and "c \<notin> set (contexts t)"
    and "c < length (ctx_heap m)" and "eid_of E m c = task_eid E t"
    and "parent_context (ctx_heap m ! c) =
      (if length (contexts t) = 0 then None else Some (contexts t ! (length (contexts t) - 1)))"
  shows "task_inv E m (with_contexts t (contexts t @ [c]))"
  unfolding task_inv_def
proof (intro conjI allI impI)
  fix i
  let ?t = "with_contexts t (contexts t @ [c])"
  assume "i < length (contexts ?t)"
  then consider "i < length (contexts t)" | "i = length (contexts t)" by fastforce
  then show "contexts ?t ! i < length (ctx_heap m)" "eid_of E m (contexts ?t ! i) = task_eid E ?t"
    "parent_context (ctx_heap m ! (contexts ?t ! i)) = (if i = 0 then None else Some (contexts ?t ! (i - 1)))"
    using assms by (cases; auto simp: task_inv_def nth_append)+
qed (use assms in \<open>auto simp: task_inv_def task_wf_def\<close>)

lemma ctx_inv_reuse:
  assumes inv: "ctx_inv E m K (t # H)" and i: "i = length (contexts t)" "i < length (nodes_of t)"
    and nogen: "\<not> node_is_gen (nodes_of t ! i)"
    and c: "(task_eid E t, task_hash t (Suc i), c) \<in> cached E m K (t # H)"
  shows "ctx_inv E (add_ref_counter c m) K (with_contexts t (contexts t @ [c]) # H)"
proof -
  let ?t = "with_contexts t (contexts t @ [c])" and ?m = "add_ref_counter c m"
  have led: "ledger E m (refs_num K (t # H)) (cached E m K (t # H))" using inv by (simp add: ctx_inv_def)
  have live: "ctx_live m c" "eid_of E m c = task_eid E t" using ledger_J_live [OF led c] by simp_all
  have new: "c \<notin> set (contexts t)" using cached_new_for_task [OF inv _ i c] by simp
  have parent: "parent_context (ctx_heap m ! c) = (if i = 0 then None else Some (contexts t ! (i - 1)))"
    using cached_parent [OF inv _ i c] by simp
  have J: "cached E ?m K (?t # H) = cached E m K (t # H)"
    using c nogen i held_prefixes_snoc [of E "contexts t" c t]
    by (simp add: cached_heap [of ?m m] cached_Cons) blast
  have R: "refs_num K (?t # H) = (refs_num K (t # H))(c := refs_num K (t # H) c + 1)"
    using new by (auto simp: fun_eq_iff refs_num_Cons)
  have ti: "task_inv E m ?t"
    using task_inv_snoc [of E m t c] inv i new live parent by (simp add: ctx_inv_def ctx_live_def)
  have "gen_inv K (?t # H) (cached E m K (t # H))"
    unfolding gen_inv_def
  proof (intro ballI allI impI)
    fix u j
    assume u: "u \<in> set (?t # H)" "j < length (contexts u)" "node_is_gen (nodes_of u ! j)"
    have "\<exists>u' \<in> set (t # H). j < length (contexts u') \<and> contexts u' ! j = contexts u ! j \<and> node_is_gen (nodes_of u' ! j)"
    proof (cases "u \<in> set H")
      case False
      then have "u = ?t" using u(1) by simp
      moreover from this u nogen i have "j \<noteq> i" by auto
      ultimately show ?thesis using u i by (auto simp: nth_append)
    qed (use u in auto)
    then have "refs_num K (t # H) (contexts u ! j) = 1 \<and> (\<forall>e h. (e, h, contexts u ! j) \<notin> cached E m K (t # H))"
      using inv unfolding ctx_inv_def gen_inv_def by metis
    then show "refs_num K (?t # H) (contexts u ! j) = 1 \<and> (\<forall>e h. (e, h, contexts u ! j) \<notin> cached E m K (t # H))"
      using c R by (metis fun_upd_apply)
  qed
  then show ?thesis
    using ledger_add_ref [OF led live(1)] inv ti
    unfolding ctx_inv_def J R
    by (simp add: task_inv_frame [of ?m m] const_inv_frame [of ?m m])
qed

subsection \<open>A new context\<close>

definition const_add :: "string \<Rightarrow> context_ref \<Rightarrow> (string, context_ref list) dict \<Rightarrow> (string, context_ref list) dict" where
  "const_add v c K =
    (let d = (if \<not> dict_mem v K then dict_set v [] K else K) in dict_set v (the (map_of d v) @ [c]) d)"

lemma const_add_cases:
  assumes "dict_ok K"
  obtains (new) "v \<notin> fst ` set K" "const_add v c K = K @ [(v, [c])]"
    | (old) A refs B where "K = A @ (v, refs) # B" "const_add v c K = A @ (v, refs @ [c]) # B"
proof (cases "v \<in> fst ` set K")
  case True
  then obtain refs where refs: "map_of K v = Some refs" using key_map_of_Some by metis
  then obtain A B where K: "K = A @ (v, refs) # B" by (meson map_of_SomeD split_list)
  have "v \<notin> fst ` set A" using assms unfolding K by auto
  then have "dict_set v x (A @ (v, refs) # B) = A @ (v, x) # B" for x by (induction A) auto
  then show ?thesis using old K True refs by (simp add: const_add_def)
next
  case False
  have set_last: "v \<notin> fst ` set A \<Longrightarrow> dict_set v x (A @ [(v, y)]) = A @ [(v, x)]" for A :: "(string, context_ref list) dict" and x y
    by (induction A) auto
  from False have "const_add v c K = dict_set v [c] (dict_set v [] K)"
    by (simp add: const_add_def Let_def)
  then have "const_add v c K = K @ [(v, [c])]" using False by (simp add: dict_set_append set_last)
  with False new show ?thesis by blast
qed

lemma refs_num_const_add:
  assumes "dict_ok K"
  shows "refs_num (const_add v c K) H x = refs_num K H x + (if x = c then 1 else 0)"
  using assms by (cases rule: const_add_cases [where v = v and c = c]) (auto simp: refs_num_def)

lemma cached_const_add:
  assumes "dict_ok K"
  shows "cached E m (const_add v c K) H = cached E m K H \<union> {(eid_of E m c, hash_var_id v, c)}"
  using assms
proof (cases rule: const_add_cases [where v = v and c = c])
  case new
  then show ?thesis using cached_const [of E m K v "[c]" "[]" H] by simp
next
  case (old A refs B)
  then show ?thesis by (auto simp: cached_const)
qed

lemma const_inv_add:
  assumes "const_inv E m K" and "plain_id v" and "\<forall>(w, refs) \<in> set K. c \<notin> set refs"
    and "c < length (ctx_heap m)" and "parent_context (ctx_heap m ! c) = None"
  shows "const_inv E m (const_add v c K)"
proof -
  have "dict_ok K" using assms(1) by (simp add: const_inv_def)
  then show ?thesis
    using assms by (cases rule: const_add_cases [where v = v and c = c]) (auto simp: const_inv_def)
qed

lemma add_constant_prefix_ok:
  assumes "\<forall>(w, refs) \<in> set (constant_prefix_contexts m). c \<notin> set refs"
  shows "add_constant_prefix v c m =
    (Inr (), add_ref_counter c (m\<lparr>constant_prefix_contexts := const_add v c (constant_prefix_contexts m)\<rparr>))"
proof -
  let ?K = "constant_prefix_contexts m"
  let ?d = "if \<not> dict_mem v ?K then dict_set v [] ?K else ?K"
  have "c \<notin> set (the (map_of ?d v))"
  proof (cases "map_of ?K v")
    case (Some refs)
    then show ?thesis using assms by (auto simp: key_iff_map_of dest!: map_of_SomeD)
  qed (simp add: key_iff_map_of)
  then show ?thesis by (simp add: add_constant_prefix_def const_add_def Let_def)
qed

lemma const_inv_append:
  assumes "const_inv E m K" and "ctx_heap m' = ctx_heap m @ xs"
  shows "const_inv E m' K"
  using assms by (auto simp: const_inv_def nth_append)

lemma task_inv_append:
  assumes "task_inv E m t" and "ctx_heap m' = ctx_heap m @ xs"
    and "fst ` set (prefix_caches m') = fst ` set (prefix_caches m)"
  shows "task_inv E m' t"
  using assms by (auto simp: task_inv_def nth_append)

lemma cached_append:
  assumes "const_inv E m K" and "ctx_heap m' = ctx_heap m @ xs"
  shows "cached E m' K H = cached E m K H"
proof -
  have alt: "const_prefixes E m0 K = (\<Union>(v, refs) \<in> set K. (\<lambda>c. (eid_of E m0 c, hash_var_id v, c)) ` set refs)" for m0
    unfolding const_prefixes_def by blast
  have "const_prefixes E m' K = const_prefixes E m K"
    unfolding alt using assms by (intro SUP_cong refl) (auto simp: const_inv_def nth_append)
  then show ?thesis by (simp add: cached_def)
qed

lemma fresh_not_held:
  assumes inv: "ctx_inv E m K H"
  shows "refs_num K H (length (ctx_heap m)) = 0"
  using ledger_live_iff [OF ctx_inv_ledger [OF inv], of "length (ctx_heap m)"] by (simp add: ctx_live_def)

text \<open>
  The task gets a new context \<open>r\<close> at its next node: in the new state the ledger counts \<open>r\<close>
  once for the task and once more for a constant prefix, and has it cached for the
  prefix of the node unless this is the Gen node.
\<close>

lemma ctx_inv_extend:
  assumes inv: "ctx_inv E m K (t # H)" and i: "i = length (contexts t)" "i < length (nodes_of t)"
    and r: "r = length (ctx_heap m)" and heap: "ctx_heap m2 = ctx_heap m @ [x]"
    and x: "parent_context x = (if i = 0 then None else Some (contexts t ! (i - 1)))" "engine_id (E (ctx_engine x)) = task_eid E t"
    and keys: "fst ` set (prefix_caches m2) = fst ` set (prefix_caches m)"
    and K2: "K2 = (if cp then const_add (node_var_id (nodes_of t ! i)) r K else K)"
    and cp: "cp \<Longrightarrow> i = 0 \<and> \<not> node_is_gen (nodes_of t ! i)"
    and led: "ledger E m2 ((refs_num K (t # H))(r := if cp then 2 else 1))
      (cached E m K (t # H) \<union> (if node_is_gen (nodes_of t ! i) then {} else {(task_eid E t, task_hash t (Suc i), r)}))"
  shows "ctx_inv E m2 K2 (with_contexts t (contexts t @ [r]) # H)"
proof -
  let ?t = "with_contexts t (contexts t @ [r])"
  have ci: "const_inv E m K" and ti: "task_inv E m t" and gi: "gen_inv K (t # H) (cached E m K (t # H))"
    using inv by (simp_all add: ctx_inv_def)
  have okK: "dict_ok K" using ci by (simp add: const_inv_def)
  have r0: "refs_num K (t # H) r = 0" using fresh_not_held [OF inv] r by simp
  have eid2: "eid_of E m2 r = task_eid E t" using heap x(2) r by simp
  have R: "refs_num K2 (?t # H) = (refs_num K (t # H))(r := if cp then 2 else 1)"
    using r0 by (auto simp: fun_eq_iff K2 refs_num_const_add [OF okK] refs_num_Cons split: if_splits)
  have h0: "task_hash t (Suc 0) = hash_var_id (node_var_id (nodes_of t ! 0))" if "i = 0"
    using task_hash_Suc [of 0 t] i that by simp
  have J: "cached E m2 K2 (?t # H) =
      cached E m K (t # H) \<union> (if node_is_gen (nodes_of t ! i) then {} else {(task_eid E t, task_hash t (Suc i), r)})"
    using held_prefixes_snoc [of E "contexts t" r t] cached_append [OF ci heap] i(1) eid2 cp h0
    by (auto simp: cached_Cons K2 cached_const_add [OF okK])
  have noK: "\<forall>(w, refs) \<in> set K. r \<notin> set refs" and noT: "\<forall>u \<in> set (t # H). r \<notin> set (contexts u)"
    using r0 by (simp_all add: refs_num_0_iff)
  have heapr: "ctx_heap m2 ! r = x" "r < length (ctx_heap m2)" using heap r by simp_all
  have pid: "plain_id (node_var_id (nodes_of t ! i))"
    using ti i by (auto simp: task_inv_def task_wf_def node_wf_def list_all_length)
  have ci2: "const_inv E m2 K2"
    using const_inv_append [OF ci heap] const_inv_add [OF _ pid noK heapr(2)] heapr(1) x(1) cp by (auto simp: K2)
  have ti2: "task_inv E m2 ?t"
    using task_inv_snoc [OF task_inv_append [OF ti heap keys], of r] i noT heapr eid2 x(1) by simp
  have gen_new: "cp \<Longrightarrow> \<not> node_is_gen (nodes_of t ! i)" using cp by blast
  have "gen_inv K2 (?t # H) (cached E m2 K2 (?t # H))"
    unfolding gen_inv_def J R
  proof (intro ballI allI impI)
    fix u j
    assume u: "u \<in> set (?t # H)" "j < length (contexts u)" "node_is_gen (nodes_of u ! j)"
    let ?J = "cached E m K (t # H) \<union> (if node_is_gen (nodes_of t ! i) then {} else {(task_eid E t, task_hash t (Suc i), r)})"
    show "((refs_num K (t # H))(r := if cp then 2 else 1)) (contexts u ! j) = 1 \<and> (\<forall>e h. (e, h, contexts u ! j) \<notin> ?J)"
    proof (cases "contexts u ! j = r")
      case True
      then have "u = ?t" using u(1,2) noT by (metis list.set_intros(2) nth_mem set_ConsD)
      with True u noT i have "j = i" by (auto simp: nth_append split: if_splits)
      then have "node_is_gen (nodes_of t ! i)" using u(3) \<open>u = ?t\<close> by simp
      moreover have "(e, h, r) \<notin> cached E m K (t # H)" for e h using r0 cached_held by blast
      ultimately show ?thesis using True gen_new by auto
    next
      case False
      have "\<exists>u' \<in> set (t # H). j < length (contexts u') \<and> contexts u' ! j = contexts u ! j \<and> node_is_gen (nodes_of u' ! j)"
      proof (cases "u \<in> set H")
        case False
        then have "u = ?t" using u(1) by simp
        with \<open>contexts u ! j \<noteq> r\<close> u show ?thesis by (auto simp: nth_append split: if_splits)
      qed (use u in auto)
      then have "refs_num K (t # H) (contexts u ! j) = 1 \<and> (\<forall>e h. (e, h, contexts u ! j) \<notin> cached E m K (t # H))"
        using gi unfolding gen_inv_def by metis
      with False show ?thesis by auto
    qed
  qed
  then show ?thesis
    using led ci2 ti2 inv task_inv_append [OF _ heap keys]
    unfolding ctx_inv_def J R by simp
qed

lemma ledger_const_irrelevant:
  "ledger E (m\<lparr>constant_prefix_contexts := k\<rparr>) R J = ledger E m R J"
  by (simp add: ledger_def ctx_live_def cache_agrees_def)

lemma make_node_ok:
  assumes inv: "ctx_inv E m (constant_prefix_contexts m) (t # H)"
    and i: "i = length (contexts t)" "i < length (nodes_of t)" and eng: "task_engine t = Some eng"
    and cp: "cp = (i = 0 \<and> node_is_constant_prefix (nodes_of t ! i))"
  shows "\<exists>m1 x. make_node_context t eng (nodes_of t ! i) m = (Inr (length (ctx_heap m)), m1) \<and>
    ctx_heap m1 = ctx_heap m @ [x] \<and> parent_context x = (if i = 0 then None else Some (contexts t ! (i - 1))) \<and>
    engine_id (E (ctx_engine x)) = task_eid E t \<and> prefix_caches m1 = prefix_caches m \<and>
    session_contexts m1 = session_contexts m \<and>
    constant_prefix_contexts m1 =
      (if cp then const_add (node_var_id (nodes_of t ! i)) (length (ctx_heap m)) (constant_prefix_contexts m)
       else constant_prefix_contexts m) \<and>
    ledger E m1 ((refs_num (constant_prefix_contexts m) (t # H))(length (ctx_heap m) := if cp then 2 else 1))
      (cached E m (constant_prefix_contexts m) (t # H))"
proof -
  let ?K = "constant_prefix_contexts m" and ?r = "length (ctx_heap m)"
  let ?R = "refs_num ?K (t # H)" and ?J = "cached E m ?K (t # H)"
  have led: "ledger E m ?R ?J" using inv by (simp add: ctx_inv_def)
  have ti: "task_inv E m t" using inv by (simp add: ctx_inv_def)
  obtain cid p where p: "pool_allocate (context_id_pool m) = (Inr cid, p)"
    using pool_allocate_unbounded [of "context_id_pool m"] led by (auto simp: ledger_def)
  have alloc: "allocate_context_id m = (Inr cid, m\<lparr>context_id_pool := p\<rparr>)" using p by (simp add: allocate_context_id_def)
  show ?thesis
  proof (cases "i = 0")
    case True
    let ?x = "new_ctx cid eng None"
    have "context_id ?x = cid" "engine_id (E (ctx_engine ?x)) \<in> fst ` set (prefix_caches m)"
      using ti eng by (simp_all add: new_ctx_def task_inv_def)
    from ledger_enter [OF led p this] obtain m1 where m1:
      "enter_context ?x (m\<lparr>context_id_pool := p\<rparr>) = (Inr ?r, m1)" "ledger E m1 (?R(?r := 1)) ?J"
      "ctx_heap m1 = ctx_heap m @ [?x]" "same_frame m m1" "prefix_caches m1 = prefix_caches m"
      by blast
    have x: "parent_context ?x = None" "engine_id (E (ctx_engine ?x)) = task_eid E t"
      using eng by (simp_all add: new_ctx_def)
    have nw: "new_context eng m = (Inr ?r, m1)" using alloc m1(1) by (simp add: new_context_def)
    have K1: "constant_prefix_contexts m1 = ?K" using m1(4) by (simp add: same_frame_def)
    have i0: "contexts t = []" using True i by simp
    show ?thesis
    proof (cases cp)
      case False
      then have "make_node_context t eng (nodes_of t ! i) m = (Inr ?r, m1)"
        using nw i0 True cp by (simp add: make_node_context_def)
      with m1 x True False show ?thesis by (auto simp: same_frame_def)
    next
      case cp': True
      let ?v = "node_var_id (nodes_of t ! i)"
      have cpn: "node_is_constant_prefix (nodes_of t ! i)" using cp cp' by blast
      let ?m2 = "m1\<lparr>constant_prefix_contexts := const_add ?v ?r ?K\<rparr>"
      have "\<forall>(w, refs) \<in> set (constant_prefix_contexts m1). ?r \<notin> set refs"
        using fresh_not_held [OF inv] K1 by (simp add: refs_num_0_iff)
      then have add: "add_constant_prefix ?v ?r m1 = (Inr (), add_ref_counter ?r ?m2)"
        by (simp add: add_constant_prefix_ok K1)
      have "ledger E ?m2 (?R(?r := 1)) ?J" using m1(2) by (simp add: ledger_const_irrelevant)
      from ledger_add_ref [OF this, of ?r] ledger_live_iff [OF this, of ?r]
      have "ledger E (add_ref_counter ?r ?m2) (?R(?r := 2)) ?J" by (simp add: numeral_2_eq_2)
      moreover have "make_node_context t eng (nodes_of t ! i) m = (Inr ?r, add_ref_counter ?r ?m2)"
        using nw i0 cpn add by (simp add: make_node_context_def)
      ultimately show ?thesis using m1 x True cp' by (auto simp: same_frame_def)
    qed
  next
    case False
    let ?c = "last (contexts t)"
    let ?x = "new_ctx cid (ctx_engine (ctx_heap m ! ?c)) (Some ?c)"
    have last: "?c = contexts t ! (i - 1)" using False i by (auto simp: last_conv_nth)
    have "contexts t ! (i - 1) \<in> set (contexts t)" using False i by (intro nth_mem) simp
    then have eid: "eid_of E m ?c = task_eid E t"
      using ti False i unfolding last task_inv_def by simp
    have "context_id ?x = cid" "engine_id (E (ctx_engine ?x)) \<in> fst ` set (prefix_caches m)"
      using ti eid by (simp_all add: new_ctx_def task_inv_def)
    from ledger_enter [OF led p this] obtain m1 where m1:
      "enter_context ?x (m\<lparr>context_id_pool := p\<rparr>) = (Inr ?r, m1)" "ledger E m1 (?R(?r := 1)) ?J"
      "ctx_heap m1 = ctx_heap m @ [?x]" "same_frame m m1" "prefix_caches m1 = prefix_caches m"
      by blast
    have "fork_context ?c m = (Inr ?r, m1)" using alloc m1(1) by (simp add: fork_context_def)
    then have "make_node_context t eng (nodes_of t ! i) m = (Inr ?r, m1)"
      using False i ti by (simp add: make_node_context_def task_inv_def task_wf_def)
    moreover have "parent_context ?x = Some (contexts t ! (i - 1))" "engine_id (E (ctx_engine ?x)) = task_eid E t"
      using eid last by (simp_all add: new_ctx_def)
    ultimately show ?thesis using m1 False cp by (auto simp: same_frame_def)
  qed
qed

text \<open>Once a prefix was not cached, no longer prefix of the task is cached either.\<close>

lemma extended_prefix_not_cached:
  assumes inv: "ctx_inv E m K (t # H)" and i: "i = length (contexts t)" "0 < i" "i < length (nodes_of t)"
    and own: "\<forall>u \<in> set H. last (contexts t) \<notin> set (contexts u)"
  shows "(task_eid E t, task_hash t (Suc i), x) \<notin> cached E m K (t # H)"
proof
  assume c: "(task_eid E t, task_hash t (Suc i), x) \<in> cached E m K (t # H)"
  have wft: "task_wf t" using inv by (simp add: ctx_inv_def task_inv_def)
  from c show False
  proof (cases rule: cachedE)
    case (task u j)
    have wf: "task_wf u" "j < length (nodes_of u)"
      using task_inv_wf ctx_inv_task [OF inv task(1)] task(2) by fastforce+
    have ji: "j = i" using task_hash_inject [OF task(5) wf(1) wft] i wf(2) by simp
    then have u: "u \<in> set H" using task i by auto
    have "task_hash u i = task_hash t i" using task_hash_prefix [of u i t] task(5) wf wft i ji by simp
    moreover obtain k where k: "i = Suc k" using i(2) by (cases i) auto
    moreover have "(task_eid E u, task_hash u (Suc k), contexts u ! k) \<in> cached E m K (t # H)"
      using task ji k wf non_gen_prefix [of u k] by (intro held_cached) auto
    moreover have "(task_eid E t, task_hash t (Suc k), contexts t ! k) \<in> cached E m K (t # H)"
      using i k wft non_gen_prefix [of t k] by (intro held_cached) auto
    ultimately have "contexts u ! k = contexts t ! k"
      using ledger_J_unique [OF ctx_inv_ledger [OF inv]] task(4) by metis
    moreover have "contexts t \<noteq> []" using i by auto
    then have "last (contexts t) = contexts t ! k" using i k by (metis diff_Suc_1 last_conv_nth)
    ultimately show False using own u task(2) ji k by (metis Suc_lessD nth_mem)
  next
    case (const v refs)
    have "plain_id v" using inv const by (auto simp: ctx_inv_def const_inv_def)
    moreover have "list_all plain_id (take (Suc i) (map node_var_id (nodes_of t)))"
      using wft by (auto simp: task_wf_def node_wf_def list_all_iff dest!: in_set_takeD)
    ultimately have "[v] = take (Suc i) (map node_var_id (nodes_of t))"
      using hash_vars_inject [of "[v]"] const(3) by (simp add: task_hash_def)
    from arg_cong [OF this, of length] i show False by simp
  qed
qed

text \<open>A node whose prefix is not cached: make the context, bind it, cache it.\<close>

lemma fresh_node_step:
  assumes inv: "ctx_inv E m (constant_prefix_contexts m) (t # H)"
    and i: "i = length (contexts t)" "i < length (nodes_of t)" and eng: "task_engine t = Some eng"
    and new: "\<And>x. (task_eid E t, task_hash t (Suc i), x) \<notin> cached E m (constant_prefix_contexts m) (t # H)"
    and miss: "no_cache \<or> get_cached_prefix_context (cache_of m (task_eid E t)) (task_hash t (Suc i)) = NONE_CONTEXT_ID"
  shows "\<exists>m2. (\<forall>rest. set_nodes E eng (nodes_of t ! i # rest) (task_hash t i) no_cache (t, m) =
       set_nodes E eng rest (task_hash t (Suc i)) True (with_contexts t (contexts t @ [length (ctx_heap m)]), m2)) \<and>
    ctx_inv E m2 (constant_prefix_contexts m2) (with_contexts t (contexts t @ [length (ctx_heap m)]) # H) \<and>
    (\<exists>x. ctx_heap m2 = ctx_heap m @ [x]) \<and> session_contexts m2 = session_contexts m \<and>
    cached E m2 (constant_prefix_contexts m2) (with_contexts t (contexts t @ [length (ctx_heap m)]) # H) \<subseteq>
      cached E m (constant_prefix_contexts m) (t # H) \<union>
      (if node_is_gen (nodes_of t ! i) then {} else {(task_eid E t, task_hash t (Suc i), length (ctx_heap m))})"
proof -
  let ?node = "nodes_of t ! i" and ?r = "length (ctx_heap m)" and ?h = "task_hash t (Suc i)"
  let ?t = "with_contexts t (contexts t @ [?r])" and ?eid = "task_eid E t" and ?K = "constant_prefix_contexts m"
  define cp where "cp = (i = 0 \<and> node_is_constant_prefix ?node)"
  obtain m1 x where m1: "make_node_context t eng ?node m = (Inr ?r, m1)" "ctx_heap m1 = ctx_heap m @ [x]"
      "parent_context x = (if i = 0 then None else Some (contexts t ! (i - 1)))" "engine_id (E (ctx_engine x)) = ?eid"
      "prefix_caches m1 = prefix_caches m" "session_contexts m1 = session_contexts m"
      "constant_prefix_contexts m1 = (if cp then const_add (node_var_id ?node) ?r ?K else ?K)"
      "ledger E m1 ((refs_num ?K (t # H))(?r := if cp then 2 else 1)) (cached E m ?K (t # H))"
    using make_node_ok [OF inv i eng cp_def] by blast
  have h: "task_hash t i @ hash_var_id (node_var_id ?node) = ?h" using task_hash_Suc i by simp
  have eid: "engine_id (E eng) = ?eid" using eng by simp
  have ti: "task_inv E m t" using inv by (simp add: ctx_inv_def)
  have cpg: "cp \<Longrightarrow> i = 0 \<and> \<not> node_is_gen ?node"
    using ti i by (auto simp: cp_def task_inv_def task_wf_def node_wf_def list_all_length)
  have subst: "cached E m2 K2 (?t # H) \<subseteq> cached E m ?K (t # H) \<union> (if node_is_gen ?node then {} else {(?eid, ?h, ?r)})"
    if m2: "ctx_heap m2 = ctx_heap m @ [x]" and K2: "K2 = (if cp then const_add (node_var_id ?node) ?r ?K else ?K)" for m2 K2
  proof -
    have ci: "const_inv E m ?K" and ok: "dict_ok ?K" using inv by (simp_all add: ctx_inv_def const_inv_def)
    have h0: "task_hash t (Suc 0) = hash_var_id (node_var_id (nodes_of t ! 0))" if "i = 0"
      using task_hash_Suc [of 0 t] i that by simp
    show ?thesis
      using held_prefixes_snoc [of E "contexts t" ?r t] cached_append [OF ci m2] i(1) cpg h0 m2 m1(4)
      by (auto simp: cached_Cons K2 cached_const_add [OF ok])
  qed
  show ?thesis
  proof (cases "node_is_gen ?node")
    case True
    have "ctx_inv E m1 (constant_prefix_contexts m1) (?t # H)"
      using m1 True cpg by (intro ctx_inv_extend [OF inv i refl m1(2,3,4) _ m1(7)]) auto
    moreover have "set_nodes E eng (?node # rest) (task_hash t i) no_cache (t, m) = set_nodes E eng rest ?h True (?t, m1)" for rest
      using m1(1) miss True h eid by (auto simp: Let_def)
    ultimately show ?thesis using m1 subst [OF m1(2,7)] by blast
  next
    case False
    have live: "ctx_live m1 ?r" using ledger_live_iff [OF m1(8)] by simp
    have eidr: "eid_of E m1 ?r = ?eid" using m1(2,4) by simp
    have notr: "(?eid, h', ?r) \<notin> cached E m ?K (t # H)" for h' using fresh_not_held [OF inv] cached_held by blast
    obtain pc where pc: "cache_prefix_context ?h (cid_of m1 ?r) (cache_of m1 ?eid) = (Inr (), pc)"
        "ledger E (m1\<lparr>prefix_caches := dict_set ?eid pc (prefix_caches m1)\<rparr>)
          ((refs_num ?K (t # H))(?r := if cp then 2 else 1)) (insert (?eid, ?h, ?r) (cached E m ?K (t # H)))"
        "same_frame m1 (m1\<lparr>prefix_caches := dict_set ?eid pc (prefix_caches m1)\<rparr>)"
      using ledger_cache [OF m1(8) live eidr new notr] by blast
    let ?m2 = "m1\<lparr>prefix_caches := dict_set ?eid pc (prefix_caches m1)\<rparr>"
    have "ctx_inv E ?m2 (constant_prefix_contexts ?m2) (?t # H)"
      using pc m1 False cpg
      by (intro ctx_inv_extend [OF inv i refl _ m1(3,4), where cp = cp and ?m2.0 = ?m2]) (auto simp: same_frame_def)
    moreover have "set_nodes E eng (?node # rest) (task_hash t i) no_cache (t, m) = set_nodes E eng rest ?h True (?t, ?m2)" for rest
      using m1(1) miss False h eid pc(1) by (auto simp: Let_def)
    moreover have "ctx_heap ?m2 = ctx_heap m @ [x]" "session_contexts ?m2 = session_contexts m"
      "constant_prefix_contexts ?m2 = (if cp then const_add (node_var_id ?node) ?r ?K else ?K)"
      using m1 by simp_all
    moreover note subst [OF this(1,3)]
    ultimately show ?thesis by (intro exI [of _ ?m2] conjI allI) (simp_all only: exI)
  qed
qed

subsection \<open>The loop over the nodes\<close>

definition gen_uncached :: "engine_store \<Rightarrow> completion_task \<Rightarrow> (int \<times> string \<times> context_ref) set \<Rightarrow> bool" where
  "gen_uncached E t J \<longleftrightarrow>
    (\<forall>i x. Suc i = length (nodes_of t) \<longrightarrow> node_is_gen (nodes_of t ! i) \<longrightarrow> (task_eid E t, task_hash t (Suc i), x) \<notin> J)"

text \<open>
  The first \<open>k\<close> of the contexts are the ones that the engine's prefix cache has for the hashes \<open>hs\<close>, all others
  are new.
\<close>

definition reuses :: "context_manager \<Rightarrow> int \<Rightarrow> (nat \<Rightarrow> string) \<Rightarrow> nat \<Rightarrow> context_ref list \<Rightarrow> bool" where
  "reuses m eid hs k cs \<longleftrightarrow>
    (\<forall>j < length cs.
       if j < k then (\<exists>cid. map_of (prefix_ctx_map (cache_of m eid)) (hs j) = Some cid \<and> map_of (mgr_contexts m) cid = Some (cs ! j))
       else length (ctx_heap m) \<le> cs ! j)"

lemma reuses_add_ref [simp]: "reuses (add_ref_counter c m) eid hs k cs = reuses m eid hs k cs"
  by (simp add: reuses_def add_ref_counter_def Let_def)

lemma get_cached_Some:
  "get_cached_prefix_context pc h \<noteq> NONE_CONTEXT_ID \<Longrightarrow> map_of (prefix_ctx_map pc) h = Some (get_cached_prefix_context pc h)"
  by (auto simp: get_cached_prefix_context_def split: option.splits)

lemma reuses_Cons_old:
  assumes "map_of (prefix_ctx_map (cache_of m eid)) (hs 0) = Some cid" "map_of (mgr_contexts m) cid = Some c"
    and "reuses m eid (\<lambda>j. hs (Suc j)) k cs"
  shows "reuses m eid hs (Suc k) (c # cs)"
  unfolding reuses_def
proof (intro allI impI)
  fix j
  assume "j < length (c # cs)"
  with assms show "if j < Suc k then (\<exists>cid. map_of (prefix_ctx_map (cache_of m eid)) (hs j) = Some cid \<and> map_of (mgr_contexts m) cid = Some ((c # cs) ! j))
       else length (ctx_heap m) \<le> (c # cs) ! j"
    by (cases j) (auto simp: reuses_def)
qed

lemma reuses_Cons_new:
  "reuses m' eid hs' 0 cs \<Longrightarrow> ctx_heap m' = ctx_heap m @ [x] \<Longrightarrow> reuses m eid hs 0 (length (ctx_heap m) # cs)"
  by (fastforce simp: reuses_def nth_Cons split: nat.splits)

lemma cache_of_task:
  "ctx_inv E m K (t # H) \<Longrightarrow> map_of (prefix_caches m) (task_eid E t) = Some (cache_of m (task_eid E t))"
  using key_map_of_Some [of "task_eid E t" "prefix_caches m"] by (auto simp: ctx_inv_def task_inv_def)

lemma set_nodes_ok:
  assumes "ctx_inv E m (constant_prefix_contexts m) (t # H)" and "task_engine t = Some eng"
    and "i = length (contexts t)" and "i \<le> length (nodes_of t)"
    and "no_cache \<Longrightarrow> 0 < i \<and> (\<forall>u \<in> set H. last (contexts t) \<notin> set (contexts u))"
    and "gen_uncached E t (cached E m (constant_prefix_contexts m) (t # H))"
    and "k = (if no_cache then 0 else nat (cached_prefix_num (cache_of m (task_eid E t)) (drop i (nodes_of t)) (task_hash t i)))"
  shows "\<exists>cs m'. set_nodes E eng (drop i (nodes_of t)) (task_hash t i) no_cache (t, m) =
      (Inr (), (with_contexts t (contexts t @ cs), m')) \<and>
    ctx_inv E m' (constant_prefix_contexts m') (with_contexts t (contexts t @ cs) # H) \<and>
    length cs = length (nodes_of t) - i \<and> session_contexts m' = session_contexts m \<and>
    reuses m (task_eid E t) (\<lambda>j. task_hash t (Suc (i + j))) k cs"
  using assms
proof (induction "length (nodes_of t) - i" arbitrary: i t m no_cache k)
  case 0
  then have "with_contexts t (contexts t @ []) = t" "drop i (nodes_of t) = []" by simp_all
  with 0 show ?case by (intro exI [of _ "[]"] exI [of _ m]) (simp add: reuses_def)
next
  case (Suc n)
  let ?K = "constant_prefix_contexts m" and ?eid = "task_eid E t"
  let ?J = "cached E m ?K (t # H)"
  have i: "i < length (nodes_of t)" and n: "n = length (nodes_of t) - Suc i" using Suc.hyps(2) by simp_all
  have nodes: "drop i (nodes_of t) = nodes_of t ! i # drop (Suc i) (nodes_of t)" using i by (simp add: Cons_nth_drop_Suc)
  have h: "task_hash t i @ hash_var_id (node_var_id (nodes_of t ! i)) = task_hash t (Suc i)" using task_hash_Suc i by simp
  note inv = Suc.prems(1)
  note pc = cache_of_task [OF inv]
  let ?cid = "get_cached_prefix_context (cache_of m ?eid) (task_hash t (Suc i))"
  have k: "k = (if \<not> no_cache \<and> ?cid \<noteq> NONE_CONTEXT_ID
      then Suc (nat (cached_prefix_num (cache_of m ?eid) (drop (Suc i) (nodes_of t)) (task_hash t (Suc i)))) else 0)"
  proof -
    have "0 \<le> cached_prefix_num pc ns s" for pc ns s by (induction ns arbitrary: s) (auto simp: Let_def)
    then show ?thesis using Suc.prems(7) h unfolding nodes by (simp add: Let_def nat_add_distrib)
  qed
  show ?case
  proof (cases "\<not> no_cache \<and> ?cid \<noteq> NONE_CONTEXT_ID")
    case True
    then obtain c where c: "(?eid, task_hash t (Suc i), c) \<in> ?J" "?cid = cid_of m c"
      using ledger_get_cached(2) [OF ctx_inv_ledger [OF inv] pc] by blast
    have live: "ctx_live m c" using ledger_J_live [OF ctx_inv_ledger [OF inv] c(1)] by simp
    have nogen: "\<not> node_is_gen (nodes_of t ! i)"
    proof (cases "Suc i = length (nodes_of t)")
      case True
      then show ?thesis using Suc.prems(6) c(1) by (auto simp: gen_uncached_def)
    next
      case False
      then show ?thesis using inv i non_gen_prefix [of t i] by (auto simp: ctx_inv_def task_inv_def)
    qed
    let ?t = "with_contexts t (contexts t @ [c])" and ?m = "add_ref_counter c m"
    have inv1: "ctx_inv E ?m (constant_prefix_contexts ?m) (?t # H)"
      using ctx_inv_reuse [OF inv Suc.prems(3) i nogen c(1)] by simp
    have J: "cached E ?m (constant_prefix_contexts ?m) (?t # H) = ?J"
      using c nogen Suc.prems(3) held_prefixes_snoc [of E "contexts t" c t]
      by (simp add: cached_heap [of ?m m] cached_Cons) blast
    have step: "set_nodes E eng (drop i (nodes_of t)) (task_hash t i) no_cache (t, m) =
        set_nodes E eng (drop (Suc i) (nodes_of ?t)) (task_hash ?t (Suc i)) False (?t, ?m)"
      unfolding nodes using True c live Suc.prems(2) h by (simp add: Let_def ctx_live_def)
    from Suc.hyps(1) [of ?t "Suc i" ?m False "nat (cached_prefix_num (cache_of m ?eid) (drop (Suc i) (nodes_of t)) (task_hash t (Suc i)))"]
    obtain cs m' where r: "set_nodes E eng (drop (Suc i) (nodes_of ?t)) (task_hash ?t (Suc i)) False (?t, ?m) =
          (Inr (), (with_contexts ?t (contexts ?t @ cs), m'))"
        "ctx_inv E m' (constant_prefix_contexts m') (with_contexts ?t (contexts ?t @ cs) # H)"
        "length cs = length (nodes_of ?t) - Suc i" "session_contexts m' = session_contexts ?m"
        "reuses ?m ?eid (\<lambda>j. task_hash t (Suc (Suc i + j))) (nat (cached_prefix_num (cache_of m ?eid) (drop (Suc i) (nodes_of t)) (task_hash t (Suc i)))) cs"
      using n Suc.prems(2,3,6) i inv1 J by (auto simp: gen_uncached_def)
    have "reuses m ?eid (\<lambda>j. task_hash t (Suc (i + j))) (Suc (nat (cached_prefix_num (cache_of m ?eid) (drop (Suc i) (nodes_of t)) (task_hash t (Suc i))))) (c # cs)"
    proof (rule reuses_Cons_old)
      show "map_of (prefix_ctx_map (cache_of m ?eid)) (task_hash t (Suc (i + 0))) = Some ?cid"
        using get_cached_Some True by simp
      show "map_of (mgr_contexts m) ?cid = Some c" using live c(2) by (simp add: ctx_live_def)
    qed (use r(5) in simp)
    then have "reuses m ?eid (\<lambda>j. task_hash t (Suc (i + j))) k (c # cs)" using k True by simp
    with r step i show ?thesis by (intro exI [of _ "c # cs"] exI [of _ m']) simp
  next
    case False
    then have miss: "no_cache \<or> ?cid = NONE_CONTEXT_ID" by blast
    have new: "(?eid, task_hash t (Suc i), x) \<notin> ?J" for x
      using miss ledger_get_cached(3) [OF ctx_inv_ledger [OF inv] pc] Suc.prems(5)
        extended_prefix_not_cached [OF inv Suc.prems(3) _ i] by blast
    let ?r = "length (ctx_heap m)"
    let ?t = "with_contexts t (contexts t @ [?r])"
    obtain m2 x where m2: "\<And>rest. set_nodes E eng (nodes_of t ! i # rest) (task_hash t i) no_cache (t, m) =
           set_nodes E eng rest (task_hash t (Suc i)) True (?t, m2)"
        "ctx_inv E m2 (constant_prefix_contexts m2) (?t # H)" "ctx_heap m2 = ctx_heap m @ [x]"
        "session_contexts m2 = session_contexts m"
        "cached E m2 (constant_prefix_contexts m2) (?t # H) \<subseteq> ?J \<union>
          (if node_is_gen (nodes_of t ! i) then {} else {(?eid, task_hash t (Suc i), ?r)})"
      using fresh_node_step [OF inv Suc.prems(3) i Suc.prems(2) new miss] by blast
    have wf: "task_wf t" using inv by (simp add: ctx_inv_def task_inv_def)
    have gu: "gen_uncached E ?t (cached E m2 (constant_prefix_contexts m2) (?t # H))"
      unfolding gen_uncached_def
    proof (intro allI impI notI)
      fix j y
      assume j: "Suc j = length (nodes_of ?t)" "node_is_gen (nodes_of ?t ! j)"
        and in_c: "(task_eid E ?t, task_hash ?t (Suc j), y) \<in> cached E m2 (constant_prefix_contexts m2) (?t # H)"
      then have "(?eid, task_hash t (Suc j), y) \<notin> ?J" using Suc.prems(6) by (simp add: gen_uncached_def)
      then have "\<not> node_is_gen (nodes_of t ! i)" "task_hash t (Suc j) = task_hash t (Suc i)"
        using in_c m2(5) by (auto split: if_splits)
      then show False using task_hash_inject [OF _ wf wf, of "Suc j" "Suc i"] j i by simp
    qed
    have own: "\<forall>u \<in> set H. last (contexts ?t) \<notin> set (contexts u)"
      using fresh_not_held [OF inv] by (simp add: refs_num_0_iff)
    from Suc.hyps(1) [of ?t "Suc i" m2 True 0]
    obtain cs m' where r: "set_nodes E eng (drop (Suc i) (nodes_of ?t)) (task_hash ?t (Suc i)) True (?t, m2) =
          (Inr (), (with_contexts ?t (contexts ?t @ cs), m'))"
        "ctx_inv E m' (constant_prefix_contexts m') (with_contexts ?t (contexts ?t @ cs) # H)"
        "length cs = length (nodes_of ?t) - Suc i" "session_contexts m' = session_contexts m2" "reuses m2 ?eid (\<lambda>j. task_hash t (Suc (Suc i + j))) 0 cs"
      using n Suc.prems(2,3) i m2(2) gu own by auto
    have "reuses m ?eid (\<lambda>j. task_hash t (Suc (i + j))) k (?r # cs)" using reuses_Cons_new [OF r(5) m2(3)] k False by simp
    with r m2 i show ?thesis unfolding nodes by (intro exI [of _ "?r # cs"] exI [of _ m']) simp
  qed
qed

section \<open>The public operations\<close>

lemma ctx_inv_frame_only:
  assumes "ctx_inv E m K H" and "ctx_heap m' = ctx_heap m" and "mgr_contexts m' = mgr_contexts m"
    and "context_ref_counter m' = context_ref_counter m" and "context_id_pool m' = context_id_pool m"
    and "prefix_caches m' = prefix_caches m"
  shows "ctx_inv E m' K H"
  using assms
  by (simp add: ctx_inv_def ledger_def cached_def const_prefixes_def cache_agrees_def ctx_live_def task_inv_def const_inv_def)

text \<open>A task that may be bound: no contexts yet, on a registered engine, its Gen node not cached.\<close>

definition bindable :: "engine_store \<Rightarrow> context_manager \<Rightarrow> completion_task \<Rightarrow> bool" where
  "bindable E m t \<longleftrightarrow>
    task_wf t \<and> contexts t = [] \<and> sv_created (chain t) \<and> dict_mem (task_eid E t) (prefix_caches m) \<and>
    (list_all (\<lambda>n. \<not> node_is_gen n) (nodes_of t) \<or>
     get_cached_prefix_context (cache_of m (task_eid E t)) (task_hash t (length (nodes_of t))) = NONE_CONTEXT_ID)"

lemma bind_ok:
  assumes inv: "manager_inv E m H" and b: "bindable E m t"
  shows "\<exists>t' m'. set_task_contexts E (t, m) = (Inr (), (t', m')) \<and> manager_inv E m' (t' # H) \<and>
    length (contexts t') = length (nodes_of t) \<and> t' = with_contexts t (contexts t') \<and>
    reuses m (task_eid E t) (\<lambda>j. task_hash t (Suc j)) (nat (cached_prefix_num (cache_of m (task_eid E t)) (nodes_of t) [])) (contexts t')"
proof -
  let ?K = "constant_prefix_contexts m"
  obtain eng where eng: "task_engine t = Some eng" using b by (auto simp: bindable_def task_wf_def)
  have t: "contexts t = []" "task_inv E m t" using b by (auto simp: bindable_def task_inv_def)
  have inv1: "ctx_inv E m ?K (t # H)"
    using inv t by (simp add: manager_inv_def ctx_inv_no_contexts)
  have pc: "map_of (prefix_caches m) (task_eid E t) = Some (cache_of m (task_eid E t))"
    using cache_of_task [OF inv1] .
  have gu: "gen_uncached E t (cached E m ?K (t # H))"
    using b ledger_get_cached(3) [OF ctx_inv_ledger [OF inv1] pc]
    by (auto simp: gen_uncached_def bindable_def list_all_length)
  obtain cs m' where r: "set_nodes E eng (drop 0 (nodes_of t)) (task_hash t 0) False (t, m) =
        (Inr (), (with_contexts t (contexts t @ cs), m'))"
      "ctx_inv E m' (constant_prefix_contexts m') (with_contexts t (contexts t @ cs) # H)"
      "length cs = length (nodes_of t) - 0" "session_contexts m' = session_contexts m"
      "reuses m (task_eid E t) (\<lambda>j. task_hash t (Suc (0 + j))) (nat (cached_prefix_num (cache_of m (task_eid E t)) (drop 0 (nodes_of t)) (task_hash t 0))) cs"
    using set_nodes_ok [OF inv1 eng, of 0 False, OF _ _ _ gu refl] t(1) by auto
  have "set_task_contexts E (t, m) = (Inr (), (with_contexts t cs, m'))"
    using r(1) t(1) eng pc b by (simp add: set_task_contexts_def bindable_def)
  then show ?thesis using r t(1) inv by (auto simp: manager_inv_def)
qed

lemma free_ok:
  assumes inv: "manager_inv E m H" and t: "t \<in> set H"
  shows "\<exists>m'. free_task_contexts E (\<lambda>_ _. True) t m = (Inr (), m') \<and> manager_inv E m' (remove1 t H) \<and>
    constant_prefix_contexts m' = constant_prefix_contexts m"
proof -
  have "mset H = mset (t # remove1 t H)" using t by simp
  then have "ctx_inv E m (constant_prefix_contexts m) (t # remove1 t H)"
    using inv ctx_inv_perm by (metis manager_inv_def)
  from free_task_contexts_ctx_inv [OF this] show ?thesis
    using inv by (auto simp: manager_inv_def same_frame_def)
qed

lemma manager_live:
  "manager_inv E m H \<Longrightarrow> ctx_live m c \<longleftrightarrow> refs_num (constant_prefix_contexts m) H c > 0"
  using ledger_live_iff [OF ctx_inv_ledger] by (auto simp: manager_inv_def)

lemma manager_inv_new: "manager_inv E new_context_manager []"
  by (simp add: manager_inv_def new_context_manager_def ctx_inv_def ledger_def ctx_live_def cached_def
      const_prefixes_def const_inv_def gen_inv_def refs_num_def new_pool_def pool_inv_def)

lemma manager_inv_register_engine:
  assumes inv: "manager_inv E m H" and new: "eid \<notin> fst ` set (prefix_caches m)"
  shows "manager_inv E (register_engine_prefix_cache eid m) H"
proof -
  let ?m = "register_engine_prefix_cache eid m" and ?K = "constant_prefix_contexts m"
  have led: "ledger E m (refs_num ?K H) (cached E m ?K H)" using inv by (simp add: manager_inv_def ctx_inv_def)
  have "(eid, h, c) \<notin> cached E m ?K H" for h c
    using ledger_J_live [OF led] ledger_engine [OF led] new by metis
  then have "cache_agrees m (cached E m ?K H) eid new_prefix_cache"
    by (simp add: cache_agrees_def new_prefix_cache_def)
  then have "ledger E ?m (refs_num ?K H) (cached E m ?K H)"
    using led by (auto simp: ledger_def register_engine_prefix_cache_def dict_keys_set ctx_live_def cache_agrees_def)
  then show ?thesis
    using inv by (auto simp: manager_inv_def ctx_inv_def register_engine_prefix_cache_def cached_def
        const_prefixes_def task_inv_def const_inv_def dict_keys_set)
qed

lemma manager_inv_register_session:
  assumes "manager_inv E m H"
  shows "manager_inv E (register_session_contexts sid m) H"
proof -
  have "list_all (\<lambda>e. snd e = []) d \<Longrightarrow> list_all (\<lambda>e. snd e = []) (dict_set sid [] d)" for d :: "(int, context_ref list) dict"
    by (induction d) auto
  with assms ctx_inv_frame_only [of E m "constant_prefix_contexts m" H "register_session_contexts sid m"]
  show ?thesis by (simp add: manager_inv_def register_session_contexts_def)
qed

lemma manager_inv_free_session:
  assumes "manager_inv E m H"
  shows "\<exists>m'. free_session_contexts E net sid m = (Inr (), m') \<and> manager_inv E m' H"
proof (cases "map_of (session_contexts m) sid")
  case None
  then show ?thesis using assms by (simp add: free_session_contexts_def)
next
  case (Some refs)
  then have "refs = []" using assms map_of_SomeD [OF Some] by (force simp: manager_inv_def list_all_iff)
  moreover have "list_all (\<lambda>e. snd e = []) d \<Longrightarrow> list_all (\<lambda>e. snd e = []) (dict_pop sid d)" for d :: "(int, context_ref list) dict"
    by (induction d) auto
  ultimately show ?thesis
    using Some assms ctx_inv_frame_only [of E m "constant_prefix_contexts m" H
        "m\<lparr>session_contexts := dict_pop sid (session_contexts m)\<rparr>"]
    by (simp add: free_session_contexts_def manager_inv_def)
qed

text \<open>A free that succeeds, whatever the network does, is a free whose every request the engine answers.\<close>

lemma free_context_obj_answered:
  "free_context_obj E net c m = (Inr (), m') \<Longrightarrow> free_context_obj E (\<lambda>_ _. True) c m = (Inr (), m')"
  by (auto simp: free_context_obj_def Let_def py_bind_def parrot_assert_def py_raise_def py_return_def split: if_splits sum.splits prod.splits)

lemma free_refs_answered:
  "free_refs E net cs visited m = (Inr (), m') \<Longrightarrow> free_refs E (\<lambda>_ _. True) cs visited m = (Inr (), m')"
proof (induction cs arbitrary: visited m)
  case (Cons c cs)
  show ?case
  proof (cases "cid_of m c \<in> visited")
    case False
    obtain x m1 where m1: "free_context_obj E net c m = (x, m1)" by (metis prod.exhaust)
    with Cons.prems False have x: "x = Inr ()" by (cases x) (auto simp: py_bind_def)
    from free_context_obj_answered [OF m1 [unfolded x]] Cons False m1 x show ?thesis by simp
  qed (use Cons in simp)
qed simp

lemma free_list_answered:
  "py_for (free_context_obj E net) cs m = (Inr (), m') \<Longrightarrow> py_for (free_context_obj E (\<lambda>_ _. True)) cs m = (Inr (), m')"
proof (induction cs arbitrary: m)
  case (Cons c cs)
  obtain x m1 where m1: "free_context_obj E net c m = (x, m1)" by (metis prod.exhaust)
  with Cons.prems have x: "x = Inr ()" by (cases x) (auto simp: py_bind_def)
  from free_context_obj_answered [OF m1 [unfolded x]] Cons m1 x show ?case by simp
qed simp

lemma free_constant_answered:
  "free_constant_prefix_contexts E net v m = (Inr (), m') \<Longrightarrow> free_constant_prefix_contexts E (\<lambda>_ _. True) v m = (Inr (), m')"
proof (cases "map_of (constant_prefix_contexts m) v")
  case (Some refs)
  assume free: "free_constant_prefix_contexts E net v m = (Inr (), m')"
  obtain x m1 where m1: "py_for (free_context_obj E net) refs m = (x, m1)" by (metis prod.exhaust)
  with free Some have x: "x = Inr ()" by (cases x) (auto simp: free_constant_prefix_contexts_def py_bind_def)
  from free_list_answered [OF m1 [unfolded x]] free Some m1 x show ?thesis by (simp add: free_constant_prefix_contexts_def)
qed (simp add: free_constant_prefix_contexts_def py_raise_def)

text \<open>An engine without contexts and tasks may go.\<close>

lemma manager_inv_remove_engine:
  assumes inv: "manager_inv E m H" and idle: "\<forall>c. ctx_live m c \<longrightarrow> eid_of E m c \<noteq> eid" "\<forall>t \<in> set H. task_eid E t \<noteq> eid"
    and rm: "remove_engine_prefix_cache eid m = (Inr (), m')"
  shows "manager_inv E m' H"
proof -
  let ?K = "constant_prefix_contexts m"
  have m': "m' = m\<lparr>prefix_caches := dict_pop eid (prefix_caches m)\<rparr>"
    using rm by (auto simp: remove_engine_prefix_cache_def py_raise_def py_return_def split: if_splits)
  have live: "ctx_live m' c = ctx_live m c" for c by (simp add: ctx_live_def m')
  have led: "ledger E m (refs_num ?K H) (cached E m ?K H)" using inv by (simp add: manager_inv_def ctx_inv_def)
  have other: "eid_of E m c \<noteq> eid" if "map_of (mgr_contexts m) cid = Some c" for cid c
    using idle(1) ledger_ctx [OF led that] that by (auto simp: ctx_live_def)
  have same: "ctx_heap m' = ctx_heap m" "mgr_contexts m' = mgr_contexts m" "context_ref_counter m' = context_ref_counter m"
      "context_id_pool m' = context_id_pool m" "fst ` set (prefix_caches m') = fst ` set (prefix_caches m) - {eid}"
      "map_of (prefix_caches m') e = Some pc \<Longrightarrow> map_of (prefix_caches m) e = Some pc" for e pc
    by (auto simp: m' dict_keys_pop split: if_splits)
  have "ledger E m' (refs_num ?K H) (cached E m ?K H)"
    unfolding ledger_def
  proof (intro conjI allI impI)
    fix cid c
    assume c: "map_of (mgr_contexts m') cid = Some c"
    with other same(2) have "eid_of E m c \<noteq> eid" by simp
    with ledger_ctx [OF led, of cid c] c same show "c < length (ctx_heap m')" "cid_of m' c = cid" "eid_of E m' c \<in> fst ` set (prefix_caches m')"
      "0 < refs_num ?K H c" "map_of (context_ref_counter m') cid = Some (int (refs_num ?K H c))" by simp_all
  next
    fix e pc
    assume "map_of (prefix_caches m') e = Some pc"
    then have "cache_agrees m (cached E m ?K H) e pc" using same(6) led by (simp add: ledger_def)
    then show "cache_agrees m' (cached E m ?K H) e pc" by (simp add: cache_agrees_def same(1))
  qed (use led live in \<open>simp_all add: ledger_def same(1-4)\<close>)
  then have "ledger E m' (refs_num ?K H) (cached E m' ?K H)" using cached_heap [OF same(1)] by simp
  then show ?thesis
    using inv idle(2) cached_heap [of m' m E ?K H]
    by (auto simp: manager_inv_def ctx_inv_def m' task_inv_def const_inv_def dict_keys_pop)
qed

text \<open>
  The states the operations of the manager lead to, with the tasks that have contexts, as long as no task
  fuses its Fill nodes (\<open>bindable\<close>), no free raises (the network answers or not, but where it matters), and engines are removed
  when they have neither contexts nor tasks.
\<close>

inductive ctx_reach :: "engine_store \<Rightarrow> context_manager \<Rightarrow> completion_task list \<Rightarrow> bool" for E where
  init: "ctx_reach E new_context_manager []"
| engine: "ctx_reach E m H \<Longrightarrow> eid \<notin> fst ` set (prefix_caches m) \<Longrightarrow>
    ctx_reach E (register_engine_prefix_cache eid m) H"
| idle_engine: "ctx_reach E m H \<Longrightarrow> \<forall>c. ctx_live m c \<longrightarrow> eid_of E m c \<noteq> eid \<Longrightarrow> \<forall>t \<in> set H. task_eid E t \<noteq> eid \<Longrightarrow>
    remove_engine_prefix_cache eid m = (Inr (), m') \<Longrightarrow> ctx_reach E m' H"
| session: "ctx_reach E m H \<Longrightarrow> ctx_reach E (register_session_contexts sid m) H"
| end_session: "ctx_reach E m H \<Longrightarrow> free_session_contexts E net sid m = (Inr (), m') \<Longrightarrow> ctx_reach E m' H"
| bind: "ctx_reach E m H \<Longrightarrow> bindable E m t \<Longrightarrow> set_task_contexts E (t, m) = (Inr (), (t', m')) \<Longrightarrow>
    ctx_reach E m' (t' # H)"
| finish: "ctx_reach E m H \<Longrightarrow> t \<in> set H \<Longrightarrow> free_task_contexts E net t m = (Inr (), m') \<Longrightarrow>
    ctx_reach E m' (remove1 t H)"
| expire: "ctx_reach E m H \<Longrightarrow> free_constant_prefix_contexts E net v m = (Inr (), m') \<Longrightarrow>
    ctx_reach E m' H"

lemma ctx_reach_inv: "ctx_reach E m H \<Longrightarrow> manager_inv E m H"
proof (induction rule: ctx_reach.induct)
  case init
  show ?case by (rule manager_inv_new)
next
  case (engine m H eid)
  then show ?case by (simp add: manager_inv_register_engine)
next
  case (idle_engine m H eid m')
  then show ?case using manager_inv_remove_engine by blast
next
  case (session m H sid)
  then show ?case by (simp add: manager_inv_register_session)
next
  case (end_session m H net sid m')
  then show ?case using manager_inv_free_session [of E m H net sid] by auto
next
  case (bind m H t t' m')
  then show ?case using bind_ok [of E m H t] by auto
next
  case (finish m H t net m')
  then show ?case using free_ok [of E m H t] free_refs_answered [of E net _ _ m m'] by (auto simp: free_task_contexts_def)
next
  case (expire m H net v m')
  from expire.hyps(2) have free: "free_constant_prefix_contexts E (\<lambda>_ _. True) v m = (Inr (), m')" by (rule free_constant_answered)
  then obtain refs where refs: "map_of (constant_prefix_contexts m) v = Some refs"
    by (auto simp: free_constant_prefix_contexts_def split: option.splits)
  with expire free show ?case
    using free_constant_prefix_ctx_inv [OF _ refs, of E H] by (auto simp: manager_inv_def)
qed

subsection \<open>Frees that fail\<close>

text \<open>The URL to which the free of a context goes.\<close>

abbreviation free_url :: "engine_store \<Rightarrow> context_manager \<Rightarrow> context_ref \<Rightarrow> string" where
  "free_url E m c \<equiv> http_address (E (ctx_engine (ctx_heap m ! c)))"

lemma free_context_obj_net:
  assumes "map_of (context_ref_counter m) (cid_of m c) = Some n"
  shows "free_context_obj E net c m =
    (if n > 1 \<or> net (free_url E m c) (cid_of m c) then free_context_obj E (\<lambda>_ _. True) c m
     else (Inl ParrotCoreInternalError, m\<lparr>context_ref_counter := dict_set (cid_of m c) (n - 1) (context_ref_counter m)\<rparr>))"
  using assms map_of_Some_key [OF assms] by (simp add: free_context_obj_def Let_def py_raise_def)

lemma free_refs_fail:
  assumes "ctx_inv E m K (t # H)" and "contexts t = cs" and "\<forall>c \<in> set cs. cid_of m c \<notin> visited"
  shows "(\<exists>m'. free_refs E net (rev cs) visited m = (Inr (), m') \<and> (\<forall>c \<in> set cs. refs_num K H c = 0 \<longrightarrow> net (free_url E m c) (cid_of m c))) \<or>
    (\<exists>ds c es m1. cs = ds @ c # es \<and> refs_num K H c = 0 \<and> \<not> net (free_url E m c) (cid_of m c) \<and>
      ctx_inv E m1 K (with_contexts t (ds @ [c]) # H) \<and> ctx_heap m1 = ctx_heap m \<and>
      free_refs E net (rev cs) visited m =
        (Inl ParrotCoreInternalError, m1\<lparr>context_ref_counter := dict_set (cid_of m c) 0 (context_ref_counter m1)\<rparr>))"
  using assms
proof (induction cs arbitrary: m t visited rule: rev_induct)
  case (snoc c cs)
  have led: "ledger E m (refs_num K (t # H)) (cached E m K (t # H))" using snoc.prems(1) by (rule ctx_inv_ledger)
  have "distinct (contexts t)" using snoc.prems(1) by (simp add: ctx_inv_def task_inv_def)
  then have d: "c \<notin> set cs" using snoc.prems(2) by simp
  have live: "ctx_live m x" if "x \<in> set (cs @ [c])" for x
    using task_context_live [OF snoc.prems(1)] snoc.prems(2) that by simp
  have R: "refs_num K (t # H) c = Suc (refs_num K H c)" using snoc.prems(2) by (simp add: refs_num_Cons)
  then have count: "map_of (context_ref_counter m) (cid_of m c) = Some (int (Suc (refs_num K H c)))"
    using ledger_ctx [OF led, of "cid_of m c" c] live [of c] by (simp add: ctx_live_def)
  show ?case
  proof (cases "refs_num K H c > 0 \<or> net (free_url E m c) (cid_of m c)")
    case False
    then have "free_context_obj E net c m =
        (Inl ParrotCoreInternalError, m\<lparr>context_ref_counter := dict_set (cid_of m c) 0 (context_ref_counter m)\<rparr>)"
      using free_context_obj_net [OF count, of E net] by simp
    moreover have e: "with_contexts t (cs @ [c]) = t" using snoc.prems(2) by simp
    have "ctx_inv E m K (with_contexts t (cs @ [c]) # H)" unfolding e by (rule snoc.prems(1))
    ultimately have "cs @ [c] = cs @ c # [] \<and> refs_num K H c = 0 \<and> \<not> net (free_url E m c) (cid_of m c) \<and>
      ctx_inv E m K (with_contexts t (cs @ [c]) # H) \<and> ctx_heap m = ctx_heap m \<and>
      free_refs E net (rev (cs @ [c])) visited m =
        (Inl ParrotCoreInternalError, m\<lparr>context_ref_counter := dict_set (cid_of m c) 0 (context_ref_counter m)\<rparr>)"
      using False snoc.prems by simp
    then show ?thesis by blast
  next
    case True
    obtain m1 where m1: "free_context_obj E (\<lambda>_ _. True) c m = (Inr (), m1)"
        "ctx_inv E m1 K (with_contexts t cs # H)" "ctx_heap m1 = ctx_heap m"
      using ctx_inv_drop_task [OF snoc.prems(1,2)] by blast
    have step: "free_refs E net (rev (cs @ [c])) visited m = free_refs E net (rev cs) (insert (cid_of m1 c) visited) m1"
      using free_context_obj_net [OF count, of E net] True m1 snoc.prems(3) by auto
    have "cid_of m x \<noteq> cid_of m c" if "x \<in> set cs" for x
      using that d live ledger_live_inj [of m x c] by auto
    then have "\<forall>x \<in> set cs. cid_of m1 x \<notin> insert (cid_of m1 c) visited" using snoc.prems(3) m1(3) by simp
    from snoc.IH [OF m1(2) _ this] consider
      (ok) m' where "free_refs E net (rev cs) (insert (cid_of m1 c) visited) m1 = (Inr (), m')"
        "\<forall>x \<in> set cs. refs_num K H x = 0 \<longrightarrow> net (free_url E m x) (cid_of m x)"
    | (fail) ds x es m2 where "cs = ds @ x # es" "refs_num K H x = 0" "\<not> net (free_url E m x) (cid_of m x)"
        "ctx_inv E m2 K (with_contexts (with_contexts t cs) (ds @ [x]) # H)" "ctx_heap m2 = ctx_heap m"
        "free_refs E net (rev cs) (insert (cid_of m1 c) visited) m1 =
          (Inl ParrotCoreInternalError, m2\<lparr>context_ref_counter := dict_set (cid_of m x) 0 (context_ref_counter m2)\<rparr>)"
      unfolding m1(3) by auto
    then show ?thesis
    proof cases
      case ok
      with True step show ?thesis by auto
    next
      case fail
      have "ctx_inv E m2 K (with_contexts t (ds @ [x]) # H)" using fail(4) by simp
      with fail step show ?thesis
        by (intro disjI2 exI [of _ ds] exI [of _ x] exI [of _ "es @ [c]"] exI [of _ m2]) simp
    qed
  qed
qed simp

section \<open>Properties\<close>

text \<open>What the scan of the prefix cache finds.\<close>

lemma cached_prefix_num_scan:
  fixes pc ns h
  defines "k \<equiv> nat (cached_prefix_num pc ns h)" and "hs \<equiv> \<lambda>j. h @ hash_vars (take j (map node_var_id ns))"
  shows "k \<le> length ns \<and> (\<forall>j < k. get_cached_prefix_context pc (hs (Suc j)) \<noteq> NONE_CONTEXT_ID) \<and>
    (k < length ns \<longrightarrow> get_cached_prefix_context pc (hs (Suc k)) = NONE_CONTEXT_ID)"
  unfolding k_def hs_def
proof (induction ns arbitrary: h)
  case (Cons n ns)
  have pos: "0 \<le> cached_prefix_num pc ns s" for s by (induction ns arbitrary: s) (auto simp: Let_def)
  let ?h = "h @ hash_var_id (node_var_id n)"
  show ?case
  proof (cases "get_cached_prefix_context pc ?h \<noteq> NONE_CONTEXT_ID")
    case True
    then have k: "nat (cached_prefix_num pc (n # ns) h) = Suc (nat (cached_prefix_num pc ns ?h))"
      using pos by (simp add: Let_def nat_add_distrib)
    show ?thesis using Cons.IH [of ?h] True unfolding k by (auto simp: less_Suc_eq_0_disj)
  qed (simp add: Let_def)
qed simp

text \<open>
  C1. Binding contexts to a task succeeds in every state the manager can reach (\<open>ctx_reach\<close>), for a task that may be bound: it has no
  contexts, its chain has variables and does not fuse its Fill nodes, its engine is registered and the prefix that ends in its Gen node is not
  cached. Each node of the chain gets a context. With \<open>k\<close> the length of the longest prefix of
  the chain that is cached for the engine, the first \<open>k\<close> contexts are exactly the ones that the prefix cache has for the hashes
  of these prefixes, and all others are new; each context is a fork of the one before
  it, and all are on the task's engine. The state is reachable with the new task as a holder.
\<close>

theorem set_task_contexts_binds:
  assumes "ctx_reach E m H" and "bindable E m t"
  shows "\<exists>t' m' k. set_task_contexts E (t, m) = (Inr (), (t', m')) \<and> ctx_reach E m' (t' # H) \<and>
    length (contexts t') = length (nodes_of t) \<and> k \<le> length (nodes_of t) \<and>
    (\<forall>j < length (nodes_of t).
       if j < k then (\<exists>cid. map_of (prefix_ctx_map (cache_of m (task_eid E t))) (task_hash t (Suc j)) = Some cid \<and>
         map_of (mgr_contexts m) cid = Some (contexts t' ! j))
       else length (ctx_heap m) \<le> contexts t' ! j) \<and>
    (k < length (nodes_of t) \<longrightarrow> map_of (prefix_ctx_map (cache_of m (task_eid E t))) (task_hash t (Suc k)) = None) \<and>
    list_all (\<lambda>i. eid_of E m' (contexts t' ! i) = task_eid E t \<and>
        parent_context (ctx_heap m' ! (contexts t' ! i)) = (if i = 0 then None else Some (contexts t' ! (i - 1))))
      [0..<length (contexts t')]"
proof -
  define k where "k = nat (cached_prefix_num (cache_of m (task_eid E t)) (nodes_of t) [])"
  note inv = ctx_reach_inv [OF assms(1)]
  obtain t' m' where r: "set_task_contexts E (t, m) = (Inr (), (t', m'))" "manager_inv E m' (t' # H)"
      "length (contexts t') = length (nodes_of t)" "t' = with_contexts t (contexts t')"
      "reuses m (task_eid E t) (\<lambda>j. task_hash t (Suc j)) k (contexts t')"
    using bind_ok [OF inv assms(2)] unfolding k_def by blast
  have scan: "k \<le> length (nodes_of t)"
      "k < length (nodes_of t) \<longrightarrow> get_cached_prefix_context (cache_of m (task_eid E t)) (task_hash t (Suc k)) = NONE_CONTEXT_ID"
    using cached_prefix_num_scan [of "cache_of m (task_eid E t)" "nodes_of t" "[]"] by (simp_all add: k_def task_hash_def)
  have end_k: "map_of (prefix_ctx_map (cache_of m (task_eid E t))) (task_hash t (Suc k)) = None" if "k < length (nodes_of t)"
  proof (rule ccontr)
    assume "map_of (prefix_ctx_map (cache_of m (task_eid E t))) (task_hash t (Suc k)) \<noteq> None"
    then obtain cid where cid: "map_of (prefix_ctx_map (cache_of m (task_eid E t))) (task_hash t (Suc k)) = Some cid" by blast
    have led: "ledger E m (refs_num (constant_prefix_contexts m) H) (cached E m (constant_prefix_contexts m) H)"
      using inv by (simp add: manager_inv_def ctx_inv_def)
    have "map_of (prefix_caches m) (task_eid E t) = Some (cache_of m (task_eid E t))"
      using assms(2) by (auto simp: bindable_def dict_mem_def key_iff_map_of)
    then obtain c where "cid_of m c = cid" "ctx_live m c"
      using led cid ledger_J_live [OF led] unfolding ledger_def cache_agrees_def by blast
    then have "0 \<le> cid" using ledger_cid_nonneg [OF led] by blast
    with scan(2) that cid show False by (simp add: get_cached_prefix_context_def NONE_CONTEXT_ID_def)
  qed
  have "task_engine t' = task_engine t" using arg_cong [OF r(4), of task_engine] by simp
  moreover have "task_inv E m' t'" using r(2) by (simp add: manager_inv_def ctx_inv_def)
  ultimately have "list_all (\<lambda>i. eid_of E m' (contexts t' ! i) = task_eid E t \<and>
        parent_context (ctx_heap m' ! (contexts t' ! i)) = (if i = 0 then None else Some (contexts t' ! (i - 1))))
      [0..<length (contexts t')]" by (simp add: task_inv_def list_all_iff)
  moreover have "ctx_reach E m' (t' # H)" using ctx_reach.bind [OF assms r(1)] .
  ultimately show ?thesis using r(1,3) r(5) [unfolded reuses_def r(3)] scan(1) end_k by blast
qed

abbreviation demo_store :: engine_store where
  "demo_store \<equiv> \<lambda>_. example_engine"

abbreviation demo_manager :: context_manager where
  "demo_manager \<equiv> register_engine_prefix_cache 0 new_context_manager"

abbreviation demo_task :: completion_task where
  "demo_task \<equiv> example_task\<lparr>task_engine := Some 0\<rparr>"

lemma demo_reach: "ctx_reach demo_store demo_manager []"
  by (rule ctx_reach.engine [OF ctx_reach.init]) (simp add: new_context_manager_def)

lemma demo_bindable: "bindable demo_store demo_manager demo_task"
  by code_simp

text \<open>The second task with the same chain reuses the context of the first one's Fill node.\<close>

abbreviation demo_bound :: "(unit, completion_task \<times> context_manager) py" where
  "demo_bound \<equiv> set_task_contexts demo_store (demo_task, demo_manager)"

theorem set_task_contexts_binds_witness:
  "\<exists>t m t' m'. demo_bound = (Inr (), (t, m)) \<and> set_task_contexts demo_store (demo_task, m) = (Inr (), (t', m')) \<and>
    length (contexts t') = 2 \<and> contexts t' ! 0 = contexts t ! 0 \<and> length (ctx_heap m) \<le> contexts t' ! 1"
proof -
  obtain t m where tm: "demo_bound = (Inr (), (t, m))"
    using bind_ok [OF ctx_reach_inv [OF demo_reach] demo_bindable] by blast
  have r: "ctx_reach demo_store m [t]" using ctx_reach.bind [OF demo_reach demo_bindable tm] .
  have "let m = snd (snd demo_bound); pc = prefix_ctx_map (cache_of m (task_eid demo_store demo_task)) in
      bindable demo_store m demo_task \<and> map_of pc (task_hash demo_task 1) = Some 0 \<and> map_of pc (task_hash demo_task 2) = None \<and>
      map_of (mgr_contexts m) 0 = Some (contexts (fst (snd demo_bound)) ! 0) \<and> length (nodes_of demo_task) = 2" by code_simp
  then have c: "bindable demo_store m demo_task"
      "map_of (prefix_ctx_map (cache_of m (task_eid demo_store demo_task))) (task_hash demo_task 1) = Some 0"
      "map_of (prefix_ctx_map (cache_of m (task_eid demo_store demo_task))) (task_hash demo_task 2) = None"
      "map_of (mgr_contexts m) 0 = Some (contexts t ! 0)" "length (nodes_of demo_task) = 2"
    unfolding tm Let_def by simp_all
  obtain t' m' k where b: "set_task_contexts demo_store (demo_task, m) = (Inr (), (t', m'))"
      "length (contexts t') = length (nodes_of demo_task)" "k \<le> length (nodes_of demo_task)"
      "\<forall>j < length (nodes_of demo_task).
       if j < k then (\<exists>cid. map_of (prefix_ctx_map (cache_of m (task_eid demo_store demo_task))) (task_hash demo_task (Suc j)) = Some cid \<and>
         map_of (mgr_contexts m) cid = Some (contexts t' ! j))
       else length (ctx_heap m) \<le> contexts t' ! j"
      "k < length (nodes_of demo_task) \<longrightarrow> map_of (prefix_ctx_map (cache_of m (task_eid demo_store demo_task))) (task_hash demo_task (Suc k)) = None"
    using set_task_contexts_binds [OF r c(1)] by blast
  have b4: "if j < k then (\<exists>cid. map_of (prefix_ctx_map (cache_of m (task_eid demo_store demo_task))) (task_hash demo_task (Suc j)) = Some cid \<and>
         map_of (mgr_contexts m) cid = Some (contexts t' ! j))
       else length (ctx_heap m) \<le> contexts t' ! j" if "j < 2" for j
    using b(4) that unfolding c(5) by blast
  have "k \<noteq> 0" using b(5) c(2) unfolding c(5) by (metis One_nat_def option.distinct(1) pos2)
  then have "contexts t' ! 0 = contexts t ! 0" using b4 [of 0] c(2,4) by simp
  moreover have "k < 2" using b4 [of 1] c(3) b(3) unfolding c(5) by (metis One_nat_def Suc_1 lessI less_2_cases_iff linorder_not_le option.distinct(1) order_le_less)
  then have "length (ctx_heap m) \<le> contexts t' ! 1" using b4 [of 1] \<open>k \<noteq> 0\<close> by simp
  ultimately show ?thesis using tm b(1,2) unfolding c(5) by blast
qed

text \<open>
  C7. Freeing the contexts of a task that has them succeeds in every state the manager can reach (\<open>ctx_reach\<close>: no fused Fill nodes, no failed
  frees, engines removed only when they are idle), if the engine answers each free of a context that nobody else holds, and gives
  back exactly what nobody else holds: afterwards a context is live if and only if it was
  live and another task or a constant prefix holds it.
\<close>

theorem free_task_contexts_exact:
  assumes "ctx_reach E m H" and "t \<in> set H"
    and "\<forall>c \<in> set (contexts t). refs_num (constant_prefix_contexts m) (remove1 t H) c = 0 \<longrightarrow> net (free_url E m c) (cid_of m c)"
  shows "\<exists>m'. free_task_contexts E net t m = (Inr (), m') \<and> ctx_reach E m' (remove1 t H) \<and>
    (\<forall>c. ctx_live m' c = (ctx_live m c \<and> refs_num (constant_prefix_contexts m) (remove1 t H) c > 0))"
proof -
  note inv = ctx_reach_inv [OF assms(1)]
  have "mset H = mset (t # remove1 t H)" using assms(2) by simp
  then have ci: "ctx_inv E m (constant_prefix_contexts m) (t # remove1 t H)"
    using inv ctx_inv_perm by (metis manager_inv_def)
  obtain m' where net: "free_task_contexts E net t m = (Inr (), m')"
    using free_refs_fail [OF ci refl, of "{}" net] assms(3) unfolding free_task_contexts_def by fastforce
  then have ans: "free_task_contexts E (\<lambda>_ _. True) t m = (Inr (), m')"
    unfolding free_task_contexts_def by (rule free_refs_answered)
  have m': "manager_inv E m' (remove1 t H)" "constant_prefix_contexts m' = constant_prefix_contexts m"
    using free_ok [OF inv assms(2)] ans by auto
  have "ctx_reach E m' (remove1 t H)" using ctx_reach.finish [OF assms(1,2) net] .
  moreover have "ctx_live m c" if "refs_num (constant_prefix_contexts m) (remove1 t H) c > 0" for c
    using that ledger_live_iff [OF ctx_inv_ledger [OF ci]] by (simp add: refs_num_Cons)
  ultimately show ?thesis using net manager_live [OF m'(1)] m'(2) by auto
qed

text \<open>One of two tasks with the same prefix goes: the engine is asked for its Gen context only.\<close>

theorem free_task_contexts_exact_witness:
  "\<exists>t m t' m' m''. demo_bound = (Inr (), (t, m)) \<and> set_task_contexts demo_store (demo_task, m) = (Inr (), (t', m')) \<and>
    free_task_contexts demo_store (\<lambda>_ cid. cid = 2) t' m' = (Inr (), m'') \<and>
    ctx_live m' (contexts t' ! 0) \<and> ctx_live m'' (contexts t' ! 0) \<and> ctx_live m' (contexts t' ! 1) \<and> \<not> ctx_live m'' (contexts t' ! 1)"
proof -
  obtain t m where tm1: "demo_bound = (Inr (), (t, m))"
    using bind_ok [OF ctx_reach_inv [OF demo_reach] demo_bindable] by blast
  have r1: "ctx_reach demo_store m [t]" using ctx_reach.bind [OF demo_reach demo_bindable tm1] .
  have "bindable demo_store (snd (snd demo_bound)) demo_task" by code_simp
  then have b: "bindable demo_store m demo_task" unfolding tm1 by simp
  obtain t' m' where tm2: "set_task_contexts demo_store (demo_task, m) = (Inr (), (t', m'))"
    using bind_ok [OF ctx_reach_inv [OF r1] b] by blast
  note tm = tm1 tm2
  let ?m = "snd (snd (set_task_contexts demo_store (demo_task, snd (snd demo_bound))))"
    and ?t' = "fst (snd (set_task_contexts demo_store (demo_task, snd (snd demo_bound))))" and ?t = "fst (snd demo_bound)"
  have "ctx_live ?m (contexts ?t' ! 0) \<and> ctx_live ?m (contexts ?t' ! 1) \<and>
      contexts ?t' = [contexts ?t ! 0, contexts ?t' ! 1] \<and> cid_of ?m (contexts ?t' ! 1) = 2 \<and> contexts ?t ! 0 \<in> set (contexts ?t) \<and>
      contexts ?t' ! 1 \<notin> set (contexts ?t) \<and> refs_num (constant_prefix_contexts ?m) [?t] (contexts ?t' ! 1) = 0" by code_simp
  then have c: "ctx_live m' (contexts t' ! 0)" "ctx_live m' (contexts t' ! 1)"
      "contexts t' = [contexts t ! 0, contexts t' ! 1]" "cid_of m' (contexts t' ! 1) = 2" "contexts t ! 0 \<in> set (contexts t)"
      "refs_num (constant_prefix_contexts m') [t] (contexts t' ! 1) = 0"
    unfolding tm(1) snd_conv fst_conv tm(2) by simp_all
  have r: "ctx_reach demo_store m' [t', t]" using ctx_reach.bind [OF r1 b tm2] .
  have held: "refs_num (constant_prefix_contexts m') [t] (contexts t ! 0) > 0" using c(5) by (simp add: refs_num_Cons)
  obtain x y where xy: "contexts t' = [x, y]" "x = contexts t ! 0" "cid_of m' y = 2" "refs_num (constant_prefix_contexts m') [t] y = 0"
    using c(3,4,6) by metis
  have "\<forall>c \<in> set (contexts t'). refs_num (constant_prefix_contexts m') (remove1 t' [t', t]) c = 0 \<longrightarrow>
      (\<lambda>_ cid. cid = 2) (free_url demo_store m' c) (cid_of m' c)"
    using xy held by simp
  from free_task_contexts_exact [OF r _ this] xy held tm c(1,2) show ?thesis by (auto simp: xy)
qed

text \<open>
  C11. No context leaks, as long as no task fuses its Fill nodes, no free fails and engines are removed only when they are idle
  (\<open>ctx_reach\<close>): whatever was bound, freed and expired before, when no task has contexts and no
  constant prefix is recorded, the manager has no context, every reference counter is
  zero, every prefix cache is empty and the id pool has no id in use.
\<close>

theorem context_no_leak:
  assumes "ctx_reach E m []" and "constant_prefix_contexts m = []"
  shows "mgr_contexts m = [] \<and>
    (\<forall>cid n. map_of (context_ref_counter m) cid = Some n \<longrightarrow> n = 0) \<and>
    (\<forall>eid pc. map_of (prefix_caches m) eid = Some pc \<longrightarrow> pc = new_prefix_cache) \<and>
    pool_inv (context_id_pool m) {}"
proof -
  have "ctx_inv E m [] []" using ctx_reach_inv [OF assms(1)] assms(2) by (simp add: manager_inv_def)
  then have led: "ledger E m (\<lambda>_. 0) {}"
    by (simp add: ctx_inv_def refs_num_def cached_def const_prefixes_def fun_eq_iff [symmetric] cong: if_cong)
      (simp add: refs_num_def [abs_def])
  then have none: "map_of (mgr_contexts m) cid = None" for cid
    using ledger_ctx [OF led, of cid] by (cases "map_of (mgr_contexts m) cid") auto
  then have m0: "mgr_contexts m = []" by (rule no_lookup_Nil)
  have "pc = new_prefix_cache" if "map_of (prefix_caches m) eid = Some pc" for eid pc
  proof -
    have "cache_agrees m {} eid pc" using led that by (simp add: ledger_def)
    then have "map_of (prefix_ctx_map pc) h = None" "map_of (prefix_ctx_map_reversed pc) cid = None" for h cid
      unfolding cache_agrees_def by (meson empty_iff not_Some_eq)+
    then have "prefix_ctx_map pc = []" "prefix_ctx_map_reversed pc = []" by (auto intro: no_lookup_Nil)
    then show ?thesis by (cases pc) (simp add: new_prefix_cache_def)
  qed
  moreover have "n = 0" if "map_of (context_ref_counter m) cid = Some n" for cid n
    using ledger_dead [OF led none, of cid] that by auto
  moreover have "pool_inv (context_id_pool m) {}" using led m0 by (simp add: ledger_def)
  ultimately show ?thesis using m0 by blast
qed

abbreviation plain_chain :: comp_chain where
  "plain_chain \<equiv> example_chain\<lparr>chain_iter :=
    [\<lparr>node_var_id = ''a'', node_is_gen = False, node_is_constant_prefix = False, node_content = Some ''hi''\<rparr>,
     \<lparr>node_var_id = ''b'', node_is_gen = False, node_is_constant_prefix = False, node_content = Some ''ho''\<rparr>,
     \<lparr>node_var_id = ''g'', node_is_gen = True, node_is_constant_prefix = False, node_content = None\<rparr>]\<rparr>"

abbreviation plain_task :: completion_task where
  "plain_task \<equiv> (new_task 6 plain_chain default_schedule_annotation)\<lparr>task_engine := Some 0\<rparr>"

theorem context_no_leak_witness:
  "\<exists>t m m'. set_task_contexts demo_store (plain_task, demo_manager) = (Inr (), (t, m)) \<and> mgr_contexts m \<noteq> [] \<and>
    free_task_contexts demo_store (\<lambda>_ _. True) t m = (Inr (), m') \<and> mgr_contexts m' = []"
proof -
  have b: "bindable demo_store demo_manager plain_task" by code_simp
  obtain t m where tm: "set_task_contexts demo_store (plain_task, demo_manager) = (Inr (), (t, m))"
    using bind_ok [OF ctx_reach_inv [OF demo_reach] b] by blast
  have "constant_prefix_contexts (snd (snd (set_task_contexts demo_store (plain_task, demo_manager)))) = [] \<and>
      length (mgr_contexts (snd (snd (set_task_contexts demo_store (plain_task, demo_manager))))) = 3" by code_simp
  then have m: "constant_prefix_contexts m = []" "length (mgr_contexts m) = 3" unfolding tm by simp_all
  have r: "ctx_reach demo_store m [t]" using ctx_reach.bind [OF demo_reach b tm] .
  obtain m' where m': "free_task_contexts demo_store (\<lambda>_ _. True) t m = (Inr (), m')"
      "constant_prefix_contexts m' = constant_prefix_contexts m"
    using free_ok [OF ctx_reach_inv [OF r], of t] by auto
  have "ctx_reach demo_store m' []" using ctx_reach.finish [OF r _ m'(1)] by simp
  from context_no_leak [OF this] m m' tm show ?thesis by (intro exI [of _ t] exI [of _ m] exI [of _ m']) auto
qed



text \<open>
  When an engine is removed while it has contexts, its prefix cache is gone and the last free of each of them raises
  \<^verbatim>\<open>KeyError\<close>: the counter is at zero, the context and its id stay.
\<close>

lemma free_after_engine_removal:
  assumes "map_of (context_ref_counter m) (cid_of m c) = Some 1" and "net (free_url E m c) (cid_of m c)"
    and "map_of (prefix_caches m) (eid_of E m c) = None"
  shows "\<exists>m'. free_context_obj E net c m = (Inl KeyError, m') \<and> map_of (context_ref_counter m') (cid_of m c) = Some 0 \<and>
    mgr_contexts m' = mgr_contexts m \<and> context_id_pool m' = context_id_pool m"
  using assms by (auto simp: free_context_obj_def Let_def key_iff_map_of)

text \<open>
  With \<^verbatim>\<open>fuse_fill\<close> the prefix cache goes stale. A task with two fused Fill nodes is bound and freed, so
  no context is left, but the hash of its first node is still cached: binding a task with the
  same chain again raises \<^verbatim>\<open>KeyError\<close>. The reverse map of the cache keeps one hash per
  context, and both Fill nodes share theirs.
\<close>

lemma fused_prefix_goes_stale:
  "let t = plain_task\<lparr>chain := plain_chain\<lparr>chain_metadata := semantic_metadata_default\<lparr>fuse_fill := JBool True\<rparr>\<rparr>\<rparr>;
       (r1, t1, m1) = set_task_contexts demo_store (t, demo_manager);
       (r2, m2) = free_task_contexts demo_store (\<lambda>_ _. True) t1 m1
   in r1 = Inr () \<and> r2 = Inr () \<and> mgr_contexts m2 = [] \<and>
      prefix_ctx_map (cache_of m2 0) = [(''{{a}}'', 0)] \<and> fst (set_task_contexts demo_store (t, m2)) = Inl KeyError"
  by code_simp

end
