(* ===== verification/Engine_Contexts.thy ===== *)
theory Engine_Contexts
  imports Backend_Repr
begin

text \<open>
  The low-level contexts of an engine (\<^verbatim>\<open>engine/context/\<close>). \<^verbatim>\<open>LowLevelContext\<close> is a record that
  \<^verbatim>\<open>BlockContext\<close> (paged KV cache) and \<^verbatim>\<open>TextContext\<close> (chat text) extend; the contexts of an
  engine are objects of a heap that refer to their parents, and \<^verbatim>\<open>EngineContextManager\<close> keeps
  the dictionary from context ids to them. The class of a context is passed to the manager
  as in the code: its length method, its constructor and its destruction.
  Walking up the parents is recursion through the heap, so these methods are partial
  functions; it is proved that they return for every heap the constructors can build.
  The theorems about \<^verbatim>\<open>BlockContext\<close> say that every KV slot is the translation of its position
  through the block table, and that no block belongs to two contexts or gets lost.
\<close>

type_synonym ctx_ref = nat

section \<open>Contexts of an engine\<close>

record low_level_context =
  ll_context_id :: int
  sub_context_ids :: "int list"
  ll_depth :: int
  parent_context :: "ctx_ref option"

record 'c engine_contexts =
  ec_heap :: "'c list"
  ec_map :: "(int, ctx_ref) dict"

abbreviation ctx_at :: "('c, 'z) engine_contexts_scheme \<Rightarrow> ctx_ref \<Rightarrow> 'c" where
  "ctx_at s r \<equiv> ec_heap s ! r"

definition upd_ctx :: "ctx_ref \<Rightarrow> ('c \<Rightarrow> 'c) \<Rightarrow> ('c, 'z) engine_contexts_scheme \<Rightarrow> ('c, 'z) engine_contexts_scheme" where
  "upd_ctx r f s = s\<lparr>ec_heap := (ec_heap s)[r := f (ctx_at s r)]\<rparr>"

text \<open>\<^verbatim>\<open>LowLevelContext.__init__\<close>: the depth of the new context, and the parent that learns its id.\<close>

definition link_parent ::
  "int \<Rightarrow> ctx_ref option \<Rightarrow> 'z low_level_context_scheme list \<Rightarrow> int \<times> 'z low_level_context_scheme list" where
  "link_parent cid parent h =
    (case parent of
       None \<Rightarrow> (0, h)
     | Some p \<Rightarrow> (ll_depth (h ! p) + 1, h[p := (h ! p)\<lparr>sub_context_ids := sub_context_ids (h ! p) @ [cid]\<rparr>]))"

definition ll_destruction :: "ctx_ref \<Rightarrow> 'z low_level_context_scheme list \<Rightarrow> (unit, 'z low_level_context_scheme list) py" where
  "ll_destruction r h =
    py_bind
      (case parent_context (h ! r) of
         None \<Rightarrow> py_return () h
       | Some p \<Rightarrow>
           if ll_context_id (h ! r) \<in> set (sub_context_ids (h ! p))
           then py_return () (h[p := (h ! p)\<lparr>sub_context_ids := remove1 (ll_context_id (h ! r)) (sub_context_ids (h ! p))\<rparr>])
           else py_raise ValueError h)
      (\<lambda>_ h. if sub_context_ids (h ! r) = [] then py_return () h else py_raise AssertionError h)"

partial_function (option) get_context_len ::
  "('z low_level_context_scheme \<Rightarrow> int) \<Rightarrow> 'z low_level_context_scheme list \<Rightarrow> ctx_ref \<Rightarrow> int option" where
  [code]: "get_context_len this_len h r =
    (case parent_context (h ! r) of
       None \<Rightarrow> Some (0 + this_len (h ! r))
     | Some p \<Rightarrow> Option.bind (get_context_len this_len h p) (\<lambda>parent_len. Some (parent_len + this_len (h ! r))))"

subsection \<open>The context manager\<close>

definition free_engine_context ::
  "('c \<Rightarrow> int) \<Rightarrow> (ctx_ref \<Rightarrow> ('c, 'z) engine_contexts_scheme \<Rightarrow> (unit, ('c, 'z) engine_contexts_scheme) py) \<Rightarrow>
   int \<Rightarrow> ('c, 'z) engine_contexts_scheme \<Rightarrow> (int, ('c, 'z) engine_contexts_scheme) py" where
  "free_engine_context this_len destruction cid s =
    (case map_of (ec_map s) cid of
       None \<Rightarrow> py_return 0 s
     | Some r \<Rightarrow>
        (let s = s\<lparr>ec_map := dict_pop cid (ec_map s)\<rparr>;
             context_len = this_len (ctx_at s r)
         in py_bind (destruction r s) (\<lambda>_ s. py_return context_len s)))"

definition bind_job_context ::
  "(int \<Rightarrow> ctx_ref option \<Rightarrow> ('c, 'z) engine_contexts_scheme \<Rightarrow> (ctx_ref, ('c, 'z) engine_contexts_scheme) py) \<Rightarrow>
   int \<Rightarrow> int \<Rightarrow> ('c, 'z) engine_contexts_scheme \<Rightarrow> (ctx_ref, ('c, 'z) engine_contexts_scheme) py" where
  "bind_job_context ctx_cls cid parent_cid s =
    py_bind
      (if \<not> dict_mem cid (ec_map s) then
         py_bind (if parent_cid = NONE_CONTEXT_ID then py_return None s
                  else py_bind (dict_get (ec_map s) parent_cid s) (\<lambda>p s. py_return (Some p) s)) (\<lambda>parent s.
         py_bind (ctx_cls cid parent s) (\<lambda>r s.
           py_return () (s\<lparr>ec_map := dict_set cid r (ec_map s)\<rparr>)))
       else py_return () s)
      (\<lambda>_ s. dict_get (ec_map s) cid s)"

definition get_num_cached_tokens_in :: "('c \<Rightarrow> int) \<Rightarrow> ('c, 'z) engine_contexts_scheme \<Rightarrow> int" where
  "get_num_cached_tokens_in this_len s = sum_list (map (\<lambda>r. this_len (ctx_at s r)) (dict_values (ec_map s)))"

section \<open>Block contexts\<close>

text \<open>Hidden states are tensors of the model, a type parameter.\<close>

record 'h block_context = low_level_context +
  block_size :: int
  padded :: bool
  padded_len :: int
  token_kv_block_ids :: "int list"
  token_kv_slot_ids :: "int list"
  bc_token_ids :: "int list"
  last_hidden_state :: "'h option"

record 'c block_contexts = "'c engine_contexts" +
  kv_cache_manager :: recycle_pool

type_synonym 'h block_store = "'h block_context block_contexts"

definition block_this_len :: "'h block_context \<Rightarrow> int" where
  "block_this_len c = int (length (token_kv_block_ids c))"

definition allocate_one :: "ctx_ref \<Rightarrow> 'h block_store \<Rightarrow> (unit, 'h block_store) py" where
  "allocate_one r s =
    (let c = ctx_at s r; idx = int (length (token_kv_block_ids c)) in
     if block_size c = 0 then py_raise ZeroDivisionError s
     else if idx mod block_size c = 0 then
       py_bind (py_lift (\<lambda>p. s\<lparr>kv_cache_manager := p\<rparr>) (pool_allocate (kv_cache_manager s))) (\<lambda>cur_block_id s.
         py_return () (upd_ctx r (\<lambda>c. c\<lparr>token_kv_block_ids := token_kv_block_ids c @ [cur_block_id],
                                       token_kv_slot_ids := token_kv_slot_ids c @ [cur_block_id * block_size c]\<rparr>) s))
     else if token_kv_slot_ids c = [] then py_raise IndexError s
     else py_return () (upd_ctx r (\<lambda>c. c\<lparr>token_kv_block_ids := token_kv_block_ids c @ [last (token_kv_block_ids c)],
                                        token_kv_slot_ids := token_kv_slot_ids c @ [last (token_kv_slot_ids c) + 1]\<rparr>) s))"

definition allocate_blocks :: "ctx_ref \<Rightarrow> int \<Rightarrow> 'h block_store \<Rightarrow> (unit, 'h block_store) py" where
  "allocate_blocks r n = py_for (\<lambda>_. allocate_one r) (replicate (nat n) ())"

definition pad_to :: "ctx_ref \<Rightarrow> int \<Rightarrow> 'h block_store \<Rightarrow> (unit, 'h block_store) py" where
  "pad_to r n s =
    (let cur_len = block_this_len (ctx_at s r) in
     if \<not> n \<ge> cur_len then py_raise AssertionError s
     else
       py_bind (py_for (\<lambda>_. allocate_one r) (replicate (nat (n - cur_len)) ()) (upd_ctx r (\<lambda>c. c\<lparr>padded_len := n - cur_len\<rparr>) s))
         (\<lambda>_ s. py_return () (upd_ctx r (\<lambda>c. c\<lparr>padded := True\<rparr>) s)))"

definition new_block_context :: "int \<Rightarrow> int \<Rightarrow> ctx_ref option \<Rightarrow> 'h block_store \<Rightarrow> (ctx_ref, 'h block_store) py" where
  "new_block_context bsize cid parent s =
    (let (d, h) = link_parent cid parent (ec_heap s); s = s\<lparr>ec_heap := h\<rparr> in
     py_bind
       (case parent of
          None \<Rightarrow> py_return () s
        | Some p \<Rightarrow>
            if \<not> padded (ctx_at s p) then
              if bsize = 0 then py_raise ZeroDivisionError s
              else pad_to p ((block_this_len (ctx_at s p) + bsize - 1) div bsize * bsize) s
            else py_return () s)
       (\<lambda>_ s. py_return (length (ec_heap s)) (s\<lparr>ec_heap := ec_heap s @
          [\<lparr>ll_context_id = cid, sub_context_ids = [], ll_depth = d, parent_context = parent, block_size = bsize,
            padded = False, padded_len = 0, token_kv_block_ids = [], token_kv_slot_ids = [], bc_token_ids = [],
            last_hidden_state = None\<rparr>]\<rparr>)))"

text \<open>The slice \<^verbatim>\<open>xs[::k]\<close>: the elements at the multiples of \<open>k\<close>.\<close>

definition every :: "nat \<Rightarrow> 'x list \<Rightarrow> 'x list" where
  "every k xs = map (nth xs) (filter (\<lambda>i. i mod k = 0) [0..<length xs])"

definition slice_step :: "int \<Rightarrow> 'x list \<Rightarrow> 's \<Rightarrow> ('x list, 's) py" where
  "slice_step k xs s =
    (if k = 0 then py_raise ValueError s
     else if k < 0 then py_return (every (nat (- k)) (rev xs)) s
     else py_return (every (nat k) xs) s)"

definition free_block :: "int \<Rightarrow> 'h block_store \<Rightarrow> (unit, 'h block_store) py" where
  "free_block b s = py_lift (\<lambda>p. s\<lparr>kv_cache_manager := p\<rparr>) (pool_free b (kv_cache_manager s))"

definition block_destruction :: "ctx_ref \<Rightarrow> 'h block_store \<Rightarrow> (unit, 'h block_store) py" where
  "block_destruction r s =
    py_bind (py_lift (\<lambda>h. s\<lparr>ec_heap := h\<rparr>) (ll_destruction r (ec_heap s))) (\<lambda>_ s.
    py_bind (slice_step (block_size (ctx_at s r)) (token_kv_block_ids (ctx_at s r)) s) (\<lambda>block_ids s.
      py_for free_block block_ids s))"

definition block_get_last_token_id :: "'h block_context \<Rightarrow> 's \<Rightarrow> (int, 's) py" where
  "block_get_last_token_id c s = (if bc_token_ids c = [] then py_raise IndexError s else py_return (last (bc_token_ids c)) s)"

definition block_push_token_id :: "int \<Rightarrow> 'h block_context \<Rightarrow> 'h block_context" where
  "block_push_token_id t c = c\<lparr>bc_token_ids := bc_token_ids c @ [t]\<rparr>"

partial_function (option) get_context_block_ids :: "'h block_context list \<Rightarrow> ctx_ref \<Rightarrow> int list option" where
  [code]: "get_context_block_ids h r =
    (case parent_context (h ! r) of
       None \<Rightarrow> Some ([] @ token_kv_block_ids (h ! r))
     | Some p \<Rightarrow> Option.bind (get_context_block_ids h p) (\<lambda>parent_ids. Some (parent_ids @ token_kv_block_ids (h ! r))))"

partial_function (option) get_context_slot_ids :: "'h block_context list \<Rightarrow> ctx_ref \<Rightarrow> int list option" where
  [code]: "get_context_slot_ids h r =
    (case parent_context (h ! r) of
       None \<Rightarrow> Some ([] @ token_kv_slot_ids (h ! r))
     | Some p \<Rightarrow> Option.bind (get_context_slot_ids h p) (\<lambda>parent_ids. Some (parent_ids @ token_kv_slot_ids (h ! r))))"

text \<open>The result is the exception or the tensor, if there is one.\<close>

partial_function (option) get_last_hidden_state :: "'h block_context list \<Rightarrow> ctx_ref \<Rightarrow> (py_error + 'h option) option" where
  [code]: "get_last_hidden_state h r =
    (if bc_token_ids (h ! r) = [] then
       (case parent_context (h ! r) of
          None \<Rightarrow> Some (Inl AssertionError)
        | Some p \<Rightarrow> get_last_hidden_state h p)
     else Some (Inr (last_hidden_state (h ! r))))"

section \<open>Text contexts\<close>

datatype chat_role = User | Assistant

record text_chunk =
  chunk_text :: string
  chunk_role :: chat_role

record text_context = low_level_context +
  text_chunks :: "text_chunk list"

type_synonym text_store = "text_context engine_contexts"

definition new_text_context :: "int \<Rightarrow> ctx_ref option \<Rightarrow> text_store \<Rightarrow> (ctx_ref, text_store) py" where
  "new_text_context cid parent s =
    (let (d, h) = link_parent cid parent (ec_heap s)
     in py_return (length h) (s\<lparr>ec_heap := h @
          [\<lparr>ll_context_id = cid, sub_context_ids = [], ll_depth = d, parent_context = parent, text_chunks = []\<rparr>]\<rparr>))"

definition text_destruction :: "ctx_ref \<Rightarrow> text_store \<Rightarrow> (unit, text_store) py" where
  "text_destruction r s = py_lift (\<lambda>h. s\<lparr>ec_heap := h\<rparr>) (ll_destruction r (ec_heap s))"

definition text_this_len :: "text_context \<Rightarrow> int" where
  "text_this_len c = sum_list (map (\<lambda>chunk. int (length (chunk_text chunk))) (text_chunks c))"

definition append_text :: "string \<Rightarrow> bool \<Rightarrow> text_context \<Rightarrow> text_context" where
  "append_text content role_is_user c =
    c\<lparr>text_chunks := text_chunks c @ [\<lparr>chunk_text = content, chunk_role = if role_is_user then User else Assistant\<rparr>]\<rparr>"

definition get_latest_context_text :: "text_context \<Rightarrow> string" where
  "get_latest_context_text c = (if text_chunks c = [] then [] else chunk_text (last (text_chunks c)))"

partial_function (option) get_whole_context_text :: "text_context list \<Rightarrow> ctx_ref \<Rightarrow> string option" where
  [code]: "get_whole_context_text h r =
    (case parent_context (h ! r) of
       None \<Rightarrow> Some ([] @ concat (map chunk_text (text_chunks (h ! r))))
     | Some p \<Rightarrow> Option.bind (get_whole_context_text h p) (\<lambda>parent_text.
         Some (parent_text @ concat (map chunk_text (text_chunks (h ! r))))))"

text \<open>The loop that merges neighbouring messages of one role, on the merged list in front.\<close>

fun merge_messages :: "text_chunk list \<Rightarrow> text_chunk list \<Rightarrow> text_chunk list" where
  "merge_messages merged [] = merged"
| "merge_messages merged (m # ms) =
    (if merged \<noteq> [] \<and> chunk_role (last merged) = chunk_role m
     then merge_messages (butlast merged @ [(last merged)\<lparr>chunk_text := chunk_text (last merged) @ chunk_text m\<rparr>]) ms
     else merge_messages (merged @ [m]) ms)"

partial_function (option) get_whole_chat_messages :: "text_context list \<Rightarrow> ctx_ref \<Rightarrow> text_chunk list option" where
  [code]: "get_whole_chat_messages h r =
    (case parent_context (h ! r) of
       None \<Rightarrow> Some (merge_messages [] (text_chunks (h ! r)))
     | Some p \<Rightarrow> Option.bind (get_whole_chat_messages h p) (\<lambda>parent_messages.
         Some (merge_messages [] (parent_messages @ text_chunks (h ! r)))))"

section \<open>Walks to the root\<close>

text \<open>The contexts from the root down to \<open>r\<close>. In a heap whose parents are older they exist.\<close>

inductive lineage :: "'z low_level_context_scheme list \<Rightarrow> ctx_ref \<Rightarrow> ctx_ref list \<Rightarrow> bool" for h where
  root: "parent_context (h ! r) = None \<Longrightarrow> lineage h r [r]"
| child: "parent_context (h ! r) = Some p \<Longrightarrow> lineage h p ps \<Longrightarrow> lineage h r (ps @ [r])"

definition parents_ok :: "'z low_level_context_scheme list \<Rightarrow> bool" where
  "parents_ok h \<longleftrightarrow> (\<forall>r < length h. \<forall>p. parent_context (h ! r) = Some p \<longrightarrow> p < r)"

lemma lineage_exists:
  assumes "parents_ok h" and "r < length h"
  shows "\<exists>ps. lineage h r ps"
  using assms(2)
proof (induction r rule: less_induct)
  case (less r)
  show ?case
  proof (cases "parent_context (h ! r)")
    case None
    then show ?thesis by (blast intro: lineage.root)
  next
    case (Some p)
    then have "p < r" using assms(1) less.prems by (simp add: parents_ok_def)
    with less Some show ?thesis by (meson lineage.child less_trans)
  qed
qed

lemma get_context_len_lineage: "lineage h r ps \<Longrightarrow> get_context_len this_len h r = Some (sum_list (map (\<lambda>p. this_len (h ! p)) ps))"
  by (induction rule: lineage.induct) (subst get_context_len.simps, simp)+

lemma get_context_block_ids_lineage: "lineage h r ps \<Longrightarrow> get_context_block_ids h r = Some (concat (map (\<lambda>p. token_kv_block_ids (h ! p)) ps))"
  by (induction rule: lineage.induct) (subst get_context_block_ids.simps, simp)+

lemma get_context_slot_ids_lineage: "lineage h r ps \<Longrightarrow> get_context_slot_ids h r = Some (concat (map (\<lambda>p. token_kv_slot_ids (h ! p)) ps))"
  by (induction rule: lineage.induct) (subst get_context_slot_ids.simps, simp)+

lemma get_whole_context_text_lineage:
  "lineage h r ps \<Longrightarrow> get_whole_context_text h r = Some (concat (map chunk_text (concat (map (\<lambda>p. text_chunks (h ! p)) ps))))"
  by (induction rule: lineage.induct) (subst get_whole_context_text.simps, simp)+

lemma get_last_hidden_state_returns: "lineage h r ps \<Longrightarrow> \<exists>y. get_last_hidden_state h r = Some y"
  by (induction rule: lineage.induct) (subst get_last_hidden_state.simps, simp)+

subsection \<open>Merged messages\<close>

abbreviation alternating :: "text_chunk list \<Rightarrow> bool" where
  "alternating \<equiv> successively (\<lambda>a b. chunk_role a \<noteq> chunk_role b)"

lemma merge_append: "merge_messages acc (xs @ ys) = merge_messages (merge_messages acc xs) ys"
  by (induction acc xs rule: merge_messages.induct) auto

lemma successively_snoc:
  "successively P (xs @ [x]) \<longleftrightarrow> successively P xs \<and> (xs \<noteq> [] \<longrightarrow> P (last xs) x)"
  by (auto simp: successively_append_iff)

lemma merge_alternating: "alternating acc \<Longrightarrow> alternating (merge_messages acc ms)"
proof (induction acc ms rule: merge_messages.induct)
  case (2 merged m ms)
  show ?case
  proof (cases "merged \<noteq> [] \<and> chunk_role (last merged) = chunk_role m")
    case True
    then obtain ys y where m: "merged = ys @ [y]" by (metis append_butlast_last_id)
    with 2 True show ?thesis by (simp add: successively_snoc)
  next
    case False
    with 2 show ?thesis by (auto simp: successively_snoc)
  qed
qed simp

lemma merge_id: "alternating (acc @ ms) \<Longrightarrow> merge_messages acc ms = acc @ ms"
proof (induction ms arbitrary: acc)
  case (Cons m ms)
  then have "acc = [] \<or> chunk_role (last acc) \<noteq> chunk_role m" by (auto simp: successively_append_iff)
  then show ?case using Cons.IH [of "acc @ [m]"] Cons.prems by auto
qed simp

lemma merge_text: "concat (map chunk_text (merge_messages acc ms)) = concat (map chunk_text acc) @ concat (map chunk_text ms)"
proof (induction acc ms rule: merge_messages.induct)
  case (2 merged m ms)
  show ?case
  proof (cases "merged \<noteq> [] \<and> chunk_role (last merged) = chunk_role m")
    case True
    then obtain ys y where m: "merged = ys @ [y]" by (metis append_butlast_last_id)
    with 2(1) [OF True] True show ?thesis by simp
  qed (use 2 in auto)
qed simp

lemma get_whole_chat_messages_lineage:
  "lineage h r ps \<Longrightarrow> get_whole_chat_messages h r = Some (merge_messages [] (concat (map (\<lambda>p. text_chunks (h ! p)) ps)))"
proof (induction rule: lineage.induct)
  case (root r)
  then show ?case by (subst get_whole_chat_messages.simps) simp
next
  case (child r p ps)
  let ?ms = "merge_messages [] (concat (map (\<lambda>p. text_chunks (h ! p)) ps))"
  have "merge_messages [] ?ms = ?ms" using merge_id [of "[]" ?ms] merge_alternating [of "[]"] by simp
  with child show ?case by (subst get_whole_chat_messages.simps) (simp add: merge_append)
qed

section \<open>Addresses in the KV cache\<close>

text \<open>The address of position \<open>i\<close> of a context with the given block table.\<close>

definition translate :: "nat \<Rightarrow> int list \<Rightarrow> nat \<Rightarrow> int list" where
  "translate k table n = map (\<lambda>i. table ! (i div k) * int k + int (i mod k)) [0..<n]"

abbreviation block_table :: "nat \<Rightarrow> 'h block_context \<Rightarrow> int list" where
  "block_table k c \<equiv> every k (token_kv_block_ids c)"

definition translated :: "nat \<Rightarrow> 'h block_context \<Rightarrow> bool" where
  "translated k c \<longleftrightarrow> block_size c = int k \<and> 0 < k \<and>
     token_kv_block_ids c = map (\<lambda>i. block_table k c ! (i div k)) [0..<length (token_kv_block_ids c)] \<and>
     token_kv_slot_ids c = translate k (block_table k c) (length (token_kv_block_ids c))"

lemma every_Nil [simp]: "every k [] = []"
  by (simp add: every_def)

lemma every_snoc: "every k (xs @ [x]) = every k xs @ (if length xs mod k = 0 then [x] else [])"
  by (auto simp: every_def nth_append)

lemma length_every:
  assumes "0 < k"
  shows "length (every k xs) = length xs div k + (if length xs mod k = 0 then 0 else 1)"
proof (induction xs rule: rev_induct)
  case (snoc x xs)
  then show ?case using assms by (auto simp: every_snoc div_Suc mod_Suc)
qed simp

lemma div_less_length_every:
  assumes "0 < k" and "i < length xs"
  shows "i div k < length (every k xs)"
proof (cases "length xs mod k = 0")
  case True
  then have "i div k < length xs div k"
    using assms by (metis div_mult_mod_eq add_0_right less_mult_imp_div_less)
  then show ?thesis by (simp add: length_every [OF assms(1)] True)
next
  case False
  then show ?thesis using div_le_mono [of i "length xs" k] assms(2) by (simp add: length_every [OF assms(1)])
qed

text \<open>A token that opens a new block, and one that stays in the last block.\<close>

lemma translated_new_block:
  assumes "translated k c" and "length (token_kv_block_ids c) mod k = 0"
  shows "translated k (c\<lparr>token_kv_block_ids := token_kv_block_ids c @ [b], token_kv_slot_ids := token_kv_slot_ids c @ [b * block_size c]\<rparr>)"
proof -
  let ?xs = "token_kv_block_ids c"
  have k: "0 < k" "block_size c = int k" using assms(1) by (simp_all add: translated_def)
  have len: "length (every k ?xs) = length ?xs div k" using length_every [OF k(1), of ?xs] assms(2) by simp
  have old: "i < length ?xs \<Longrightarrow> (every k ?xs @ [b]) ! (i div k) = every k ?xs ! (i div k)" for i
    using div_less_length_every [OF k(1), of i ?xs] by (simp add: nth_append)
  have new: "(every k ?xs @ [b]) ! (length ?xs div k) = b" using len by (simp add: nth_append)
  have "map (\<lambda>i. (every k ?xs @ [b]) ! (i div k)) [0..<length ?xs] = map (\<lambda>i. every k ?xs ! (i div k)) [0..<length ?xs]"
    by (rule map_cong [OF refl]) (simp add: old)
  also have "\<dots> = ?xs" using assms(1) unfolding translated_def by (elim conjE) (rule sym)
  finally have "?xs = map (\<lambda>i. (every k ?xs @ [b]) ! (i div k)) [0..<length ?xs]" by (rule sym)
  moreover have "token_kv_slot_ids c = translate k (every k ?xs @ [b]) (length ?xs)"
    using assms(1) old by (simp add: translated_def translate_def cong: map_cong)
  ultimately show ?thesis
    using k assms(2) new by (simp add: translated_def every_snoc translate_def)
qed

lemma translated_same_block:
  assumes "translated k c" and "length (token_kv_block_ids c) mod k \<noteq> 0"
  shows "translated k (c\<lparr>token_kv_block_ids := token_kv_block_ids c @ [last (token_kv_block_ids c)],
      token_kv_slot_ids := token_kv_slot_ids c @ [last (token_kv_slot_ids c) + 1]\<rparr>)"
    and "token_kv_slot_ids c \<noteq> []"
proof -
  let ?xs = "token_kv_block_ids c" and ?t = "every k (token_kv_block_ids c)"
  have k: "0 < k" "block_size c = int k" using assms(1) by (simp_all add: translated_def)
  obtain m where m: "length ?xs = Suc m" using assms(2) by (cases "length ?xs") auto
  have mk: "Suc (m mod k) \<noteq> k" using assms(2) m by (auto simp: mod_Suc)
  have xs: "?xs = map (\<lambda>i. ?t ! (i div k)) [0..<Suc m]" and sl: "token_kv_slot_ids c = translate k ?t (Suc m)"
    using assms(1) m by (simp_all add: translated_def)
  have "last ?xs = ?t ! (m div k)" by (subst xs) simp
  moreover have "last (token_kv_slot_ids c) = ?t ! (m div k) * int k + int (m mod k)"
    by (subst sl) (simp add: translate_def)
  ultimately have l: "last ?xs = ?t ! (Suc m div k)" "last (token_kv_slot_ids c) + 1 = ?t ! (Suc m div k) * int k + int (Suc m mod k)"
    using mk by (simp_all add: div_Suc mod_Suc)
  show "token_kv_slot_ids c \<noteq> []" by (subst sl) (simp add: translate_def)
  have "translate k ?t (Suc (Suc m)) = token_kv_slot_ids c @ [last (token_kv_slot_ids c) + 1]"
    unfolding l(2) by (subst sl) (simp add: translate_def)
  moreover have "map (\<lambda>i. ?t ! (i div k)) [0..<Suc (Suc m)] = ?xs @ [last ?xs]"
  proof -
    have "map (\<lambda>i. ?t ! (i div k)) [0..<Suc (Suc m)] = map (\<lambda>i. ?t ! (i div k)) [0..<Suc m] @ [last ?xs]"
      unfolding l(1) by simp
    then show ?thesis by (simp only: xs [symmetric])
  qed
  ultimately show "translated k (c\<lparr>token_kv_block_ids := ?xs @ [last ?xs],
      token_kv_slot_ids := token_kv_slot_ids c @ [last (token_kv_slot_ids c) + 1]\<rparr>)"
    using k assms(2) m by (simp add: translated_def every_snoc)
qed

section \<open>Ownership of KV blocks\<close>

text \<open>
  \<open>L\<close> are the contexts that were constructed and not destructed. The rest of a context (its
  tokens, children, padding marks) does not matter for its blocks.
\<close>

definition kv_view :: "'h block_context \<Rightarrow> ctx_ref option \<times> int \<times> int \<times> int list \<times> int list" where
  "kv_view c = (parent_context c, ll_context_id c, block_size c, token_kv_block_ids c, token_kv_slot_ids c)"

definition kv_inv :: "nat \<Rightarrow> ctx_ref set \<Rightarrow> 'h block_store \<Rightarrow> bool" where
  "kv_inv k L s \<longleftrightarrow>
    0 < k \<and> parents_ok (ec_heap s) \<and> (\<forall>r < length (ec_heap s). translated k (ctx_at s r)) \<and>
    L \<subseteq> {..<length (ec_heap s)} \<and>
    (\<forall>(cid, r) \<in> set (ec_map s). r \<in> L \<and> ll_context_id (ctx_at s r) = cid) \<and>
    (\<forall>r \<in> L. distinct (block_table k (ctx_at s r))) \<and>
    (\<forall>r \<in> L. \<forall>r' \<in> L. r \<noteq> r' \<longrightarrow> set (block_table k (ctx_at s r)) \<inter> set (block_table k (ctx_at s r')) = {}) \<and>
    pool_inv (kv_cache_manager s) (\<Union>r \<in> L. set (block_table k (ctx_at s r)))"

lemma kv_viewD:
  assumes "kv_view c = kv_view c'"
  shows "parent_context c = parent_context c'" "ll_context_id c = ll_context_id c'" "block_table k c = block_table k c'"
    "translated k c = translated k c'"
  using assms by (simp_all add: kv_view_def translated_def)

lemma kv_inv_frame:
  assumes inv: "kv_inv k L s" and "map kv_view (ec_heap s') = map kv_view (ec_heap s)"
    and "set (ec_map s') \<subseteq> set (ec_map s)" and "kv_cache_manager s' = kv_cache_manager s"
  shows "kv_inv k L s'"
proof -
  have len: "length (ec_heap s') = length (ec_heap s)" using assms(2) by (metis length_map)
  have v: "kv_view (ctx_at s' r) = kv_view (ctx_at s r)" if "r < length (ec_heap s)" for r
    using assms(2) that len by (metis nth_map)
  have lt: "r \<in> L \<Longrightarrow> r < length (ec_heap s)" for r using inv by (auto simp: kv_inv_def)
  note same = kv_viewD [OF v] kv_viewD [OF v, OF lt]
  have "parents_ok (ec_heap s')" using inv by (simp add: kv_inv_def parents_ok_def len same)
  moreover have "\<forall>(cid, r) \<in> set (ec_map s'). r \<in> L \<and> ll_context_id (ctx_at s' r) = cid"
    using inv assms(3) same(6) by (fastforce simp: kv_inv_def)
  moreover have "(\<Union>r \<in> L. set (block_table k (ctx_at s' r))) = (\<Union>r \<in> L. set (block_table k (ctx_at s r)))"
    using same(7) by auto
  ultimately show ?thesis using inv same assms(4) by (simp add: kv_inv_def len)
qed

lemma upd_ctx_frame:
  assumes "kv_inv k L s" and "\<And>c. kv_view (f c) = kv_view c"
  shows "kv_inv k L (upd_ctx r f s)"
  by (rule kv_inv_frame [OF assms(1)])
     (simp_all add: upd_ctx_def map_update assms(2), metis list_update_id map_update)

lemma kv_inv_update:
  assumes inv: "kv_inv k L s" and r: "r \<in> L" and c: "translated k c" "distinct (block_table k c)"
    "parent_context c = parent_context (ctx_at s r)" "ll_context_id c = ll_context_id (ctx_at s r)"
    and disj: "\<And>r'. r' \<in> L \<Longrightarrow> r' \<noteq> r \<Longrightarrow> set (block_table k c) \<inter> set (block_table k (ctx_at s r')) = {}"
    and pool: "pool_inv p (set (block_table k c) \<union> (\<Union>r' \<in> L - {r}. set (block_table k (ctx_at s r'))))"
  shows "kv_inv k L (s\<lparr>ec_heap := (ec_heap s)[r := c], kv_cache_manager := p\<rparr>)"
proof -
  have lt: "r < length (ec_heap s)" using inv r by (auto simp: kv_inv_def)
  have "(\<Union>r' \<in> L. set (block_table k ((ec_heap s)[r := c] ! r'))) =
      set (block_table k c) \<union> (\<Union>r' \<in> L - {r}. set (block_table k (ctx_at s r')))"
    using lt r by (auto simp: nth_list_update split: if_splits)
  then show ?thesis
    using inv lt c disj pool by (auto simp: kv_inv_def parents_ok_def nth_list_update split: if_splits)
qed

lemma allocate_one_inv:
  assumes inv: "kv_inv k L s" and r: "r \<in> L"
  shows "kv_inv k L (snd (allocate_one r s)) \<and> length (ec_heap (snd (allocate_one r s))) = length (ec_heap s)"
proof -
  define c where "c = ctx_at s r"
  define M where "M = (\<Union>r' \<in> L - {r}. set (block_table k (ctx_at s r')))"
  have lt: "r < length (ec_heap s)" and k: "0 < k" using inv r by (auto simp: kv_inv_def)
  have tr: "translated k c" and bs: "block_size c = int k" using inv lt by (auto simp: kv_inv_def c_def translated_def)
  have un: "(\<Union>r' \<in> L. set (block_table k (ctx_at s r'))) = set (block_table k c) \<union> M"
    using r by (auto simp: M_def c_def)
  have pool: "pool_inv (kv_cache_manager s) (set (block_table k c) \<union> M)" using inv un by (simp add: kv_inv_def)
  have disj: "set (block_table k c) \<inter> set (block_table k (ctx_at s r')) = {}" if "r' \<in> L" "r' \<noteq> r" for r'
    using inv r that unfolding kv_inv_def c_def by blast
  have dist: "distinct (block_table k c)" using inv r by (simp add: kv_inv_def c_def)
  have mod: "int (length (token_kv_block_ids c)) mod block_size c = 0 \<longleftrightarrow> length (token_kv_block_ids c) mod k = 0"
    unfolding bs by (metis of_nat_eq_0_iff zmod_int)
  show ?thesis
  proof (cases "length (token_kv_block_ids c) mod k = 0")
    case True
    from pool show ?thesis
    proof (cases rule: rp.alloc_cases)
      case (ok b p)
      let ?c = "c\<lparr>token_kv_block_ids := token_kv_block_ids c @ [b], token_kv_slot_ids := token_kv_slot_ids c @ [b * block_size c]\<rparr>"
      have eq: "snd (allocate_one r s) = s\<lparr>ec_heap := (ec_heap s)[r := ?c], kv_cache_manager := p\<rparr>"
        using True mod ok(1) bs k by (simp add: allocate_one_def Let_def upd_ctx_def flip: c_def)
      have "kv_inv k L (s\<lparr>ec_heap := (ec_heap s)[r := ?c], kv_cache_manager := p\<rparr>)"
      proof (rule kv_inv_update [OF inv r translated_new_block [OF tr True]])
        show "distinct (block_table k ?c)" using dist ok(2) by (simp add: every_snoc True)
        show "set (block_table k ?c) \<inter> set (block_table k (ctx_at s r')) = {}" if "r' \<in> L" "r' \<noteq> r" for r'
          using disj [OF that] ok(2) that by (auto simp: every_snoc True M_def)
        show "pool_inv p (set (block_table k ?c) \<union> (\<Union>r' \<in> L - {r}. set (block_table k (ctx_at s r'))))"
          using ok(4) by (simp add: every_snoc True flip: M_def)
      qed (simp_all add: c_def)
      then show ?thesis unfolding eq by simp
    next
      case (fail e p)
      have eq: "snd (allocate_one r s) = s\<lparr>ec_heap := (ec_heap s)[r := c], kv_cache_manager := p\<rparr>"
        using True mod fail(1) bs k by (simp add: allocate_one_def Let_def upd_ctx_def flip: c_def) (simp add: c_def)
      have "kv_inv k L (s\<lparr>ec_heap := (ec_heap s)[r := c], kv_cache_manager := p\<rparr>)"
        by (rule kv_inv_update [OF inv r tr dist _ _ disj]) (use fail(2) in \<open>simp_all add: c_def M_def\<close>)
      then show ?thesis unfolding eq by simp
    qed
  next
    case False
    let ?c = "c\<lparr>token_kv_block_ids := token_kv_block_ids c @ [last (token_kv_block_ids c)],
      token_kv_slot_ids := token_kv_slot_ids c @ [last (token_kv_slot_ids c) + 1]\<rparr>"
    note tr' = translated_same_block [OF tr False]
    have eq: "snd (allocate_one r s) = s\<lparr>ec_heap := (ec_heap s)[r := ?c], kv_cache_manager := kv_cache_manager s\<rparr>"
      using False mod tr'(2) bs k by (simp add: allocate_one_def Let_def upd_ctx_def flip: c_def)
    have "kv_inv k L (s\<lparr>ec_heap := (ec_heap s)[r := ?c], kv_cache_manager := kv_cache_manager s\<rparr>)"
      by (rule kv_inv_update [OF inv r tr'(1)]) (use dist disj pool in \<open>simp_all add: every_snoc False [unfolded c_def] c_def flip: M_def\<close>)
    then show ?thesis unfolding eq by simp
  qed
qed

lemma allocate_one_map: "ec_map (snd (allocate_one r s)) = ec_map s"
proof (cases "pool_allocate (kv_cache_manager s)")
  case (Pair res p)
  then show ?thesis by (cases res) (simp_all add: allocate_one_def Let_def upd_ctx_def)
qed

lemma allocate_loop_inv:
  assumes "kv_inv k L s" and "r \<in> L"
  shows "kv_inv k L (snd (py_for (\<lambda>_. allocate_one r) us s)) \<and>
    length (ec_heap (snd (py_for (\<lambda>_. allocate_one r) us s))) = length (ec_heap s) \<and>
    ec_map (snd (py_for (\<lambda>_. allocate_one r) us s)) = ec_map s"
proof (rule py_for_invariant [where P = "\<lambda>t. kv_inv k L t \<and> length (ec_heap t) = length (ec_heap s) \<and> ec_map t = ec_map s"])
  fix t :: "'a block_store" and u
  assume "kv_inv k L t \<and> length (ec_heap t) = length (ec_heap s) \<and> ec_map t = ec_map s"
  then show "kv_inv k L (snd (allocate_one r t)) \<and> length (ec_heap (snd (allocate_one r t))) = length (ec_heap s) \<and>
      ec_map (snd (allocate_one r t)) = ec_map s"
    using allocate_one_inv [OF _ assms(2), of k t] allocate_one_map [of r t] by simp
qed (use assms in simp)

lemma pad_to_inv:
  assumes "kv_inv k L s" and "r \<in> L"
  shows "kv_inv k L (snd (pad_to r n s)) \<and> length (ec_heap (snd (pad_to r n s))) = length (ec_heap s) \<and>
    ec_map (snd (pad_to r n s)) = ec_map s"
proof -
  let ?s = "upd_ctx r (\<lambda>c. c\<lparr>padded_len := n - block_this_len (ctx_at s r)\<rparr>) s"
  let ?us = "replicate (nat (n - block_this_len (ctx_at s r))) ()"
  have "kv_inv k L ?s" by (rule upd_ctx_frame [OF assms(1)]) (simp add: kv_view_def)
  note loop = allocate_loop_inv [OF this assms(2), of ?us]
  have "kv_inv k L (upd_ctx r (\<lambda>c. c\<lparr>padded := True\<rparr>) t)" if "kv_inv k L t" for t
    by (rule upd_ctx_frame [OF that]) (simp add: kv_view_def)
  with loop show ?thesis using assms(1)
    by (cases "py_for (\<lambda>_. allocate_one r) ?us ?s"; cases "fst (py_for (\<lambda>_. allocate_one r) ?us ?s)")
       (auto simp: pad_to_def Let_def upd_ctx_def)
qed

lemma link_parent_view: "map kv_view (snd (link_parent cid parent h)) = map kv_view h" "length (snd (link_parent cid parent h)) = length h"
proof -
  have "kv_view (c\<lparr>sub_context_ids := xs\<rparr>) = kv_view c" for c :: "'a block_context" and xs by (simp add: kv_view_def)
  then show "map kv_view (snd (link_parent cid parent h)) = map kv_view h"
    by (cases parent) (simp_all add: link_parent_def map_update, metis list_update_id map_update)
  show "length (snd (link_parent cid parent h)) = length h" by (cases parent) (simp_all add: link_parent_def)
qed

lemma kv_inv_append:
  assumes "kv_inv k L s" and "kv_view c = (parent, cid, int k, [], [])" and "\<And>p. parent = Some p \<Longrightarrow> p \<in> L"
  shows "kv_inv k (insert (length (ec_heap s)) L) (s\<lparr>ec_heap := ec_heap s @ [c]\<rparr>)"
proof -
  have c: "parent_context c = parent" "token_kv_block_ids c = []" "translated k c"
    using assms(1,2) by (auto simp: kv_view_def translated_def translate_def kv_inv_def)
  have lt: "r < length (ec_heap s)" if "r \<in> L" for r using assms(1) that by (auto simp: kv_inv_def)
  have old: "(ec_heap s @ [c]) ! r = ctx_at s r" if "r \<in> L" for r using lt [OF that] by (simp add: nth_append)
  have "parents_ok (ec_heap s @ [c])"
    using assms(1,3) c(1) lt by (auto simp: kv_inv_def parents_ok_def nth_append less_Suc_eq)
  moreover have "\<forall>r < Suc (length (ec_heap s)). translated k ((ec_heap s @ [c]) ! r)"
    using assms(1) c(3) by (auto simp: kv_inv_def nth_append less_Suc_eq)
  ultimately show ?thesis
    using assms(1) c(2) by (auto simp: kv_inv_def old lt nth_append less_imp_neq split: prod.splits dest: lt)
qed

lemma new_block_context_inv:
  assumes "kv_inv k L s" and "\<And>p. parent = Some p \<Longrightarrow> p \<in> L" and "new_block_context (int k) cid parent s = (res, s')"
  shows "case res of Inl _ \<Rightarrow> kv_inv k L s' \<and> ec_map s' = ec_map s
    | Inr r \<Rightarrow> r \<notin> L \<and> kv_inv k (insert r L) s' \<and> ll_context_id (ctx_at s' r) = cid"
proof -
  define d where "d = fst (link_parent cid parent (ec_heap s))"
  define s0 where "s0 = s\<lparr>ec_heap := snd (link_parent cid parent (ec_heap s))\<rparr>"
  have lp: "link_parent cid parent (ec_heap s) = (d, ec_heap s0)" by (simp add: d_def s0_def)
  have st: "s\<lparr>ec_heap := ec_heap s0\<rparr> = s0" by (simp add: s0_def)
  have inv0: "kv_inv k L s0" by (rule kv_inv_frame [OF assms(1)]) (simp_all add: s0_def link_parent_view)
  have k: "int k \<noteq> 0" using assms(1) by (simp add: kv_inv_def)
  define pad where "pad = (case parent of None \<Rightarrow> py_return () s0
     | Some p \<Rightarrow> if \<not> padded (ctx_at s0 p)
         then pad_to p ((block_this_len (ctx_at s0 p) + int k - 1) div int k * int k) s0 else py_return () s0)"
  let ?c = "\<lparr>ll_context_id = cid, sub_context_ids = [], ll_depth = d, parent_context = parent, block_size = int k,
     padded = False, padded_len = 0, token_kv_block_ids = [], token_kv_slot_ids = [], bc_token_ids = [], last_hidden_state = None\<rparr>"
  have eq: "new_block_context (int k) cid parent s =
      py_bind pad (\<lambda>_ s. py_return (length (ec_heap s)) (s\<lparr>ec_heap := ec_heap s @ [?c]\<rparr>))"
    unfolding new_block_context_def lp prod.case Let_def st pad_def using k by (cases parent) simp_all
  obtain res1 s1 where s1: "pad = (res1, s1)" by fastforce
  have "kv_inv k L (snd pad) \<and> ec_map (snd pad) = ec_map s0"
    using inv0 pad_to_inv [OF inv0] assms(2) by (auto simp: pad_def split: option.splits)
  then have inv1: "kv_inv k L s1" "ec_map s1 = ec_map s" by (simp_all add: s1 s0_def)
  have new: "length (ec_heap s1) \<notin> L" using inv1(1) by (auto simp: kv_inv_def)
  have inv2: "kv_inv k (insert (length (ec_heap s1)) L) (s1\<lparr>ec_heap := ec_heap s1 @ [?c]\<rparr>)"
    by (rule kv_inv_append [OF inv1(1), of _ parent cid]) (use assms(2) in \<open>simp_all add: kv_view_def\<close>)
  show ?thesis
  proof (cases res1)
    case (Inl e)
    then show ?thesis using assms(3) inv1 unfolding eq s1 by auto
  next
    case (Inr u)
    then have "res = Inr (length (ec_heap s1))" "s' = s1\<lparr>ec_heap := ec_heap s1 @ [?c]\<rparr>" using assms(3) unfolding eq s1 by auto
    then show ?thesis using new inv2 by simp
  qed
qed

lemma kv_inv_set_map:
  assumes "kv_inv k L s" and "r \<in> L" and "ll_context_id (ctx_at s r) = cid"
  shows "kv_inv k L (s\<lparr>ec_map := dict_set cid r (ec_map s)\<rparr>)"
proof -
  have "\<forall>(cid', r') \<in> set (dict_set cid r (ec_map s)). r' \<in> L \<and> ll_context_id (ctx_at s r') = cid'"
    using assms dict_set_subset [of cid r "ec_map s"] unfolding kv_inv_def by blast
  then show ?thesis using assms(1) by (simp add: kv_inv_def)
qed

lemma bind_job_context_inv:
  assumes "kv_inv k L s" and "bind_job_context (new_block_context (int k)) cid pid s = (res, s')"
  shows "case res of Inl _ \<Rightarrow> kv_inv k L s' | Inr r \<Rightarrow> kv_inv k (insert r L) s' \<and> map_of (ec_map s') cid = Some r"
proof (cases "dict_mem cid (ec_map s)")
  case True
  then obtain r where r: "map_of (ec_map s) cid = Some r" by (metis dict_mem_iff key_map_of_Some)
  then have "r \<in> L" using assms(1) by (fastforce simp: kv_inv_def dest: map_of_SomeD)
  with r assms True show ?thesis by (auto simp: bind_job_context_def insert_absorb)
next
  case False
  have par: "p \<in> L" if "map_of (ec_map s) pid = Some p" for p
    using assms(1) that by (fastforce simp: kv_inv_def dest: map_of_SomeD)
  define parent where "parent = (if pid = NONE_CONTEXT_ID then None else map_of (ec_map s) pid)"
  have p: "parent = Some p \<Longrightarrow> p \<in> L" for p using par by (auto simp: parent_def split: if_splits)
  show ?thesis
  proof (cases "pid \<noteq> NONE_CONTEXT_ID \<and> map_of (ec_map s) pid = None")
    case True
    with False assms show ?thesis by (auto simp: bind_job_context_def)
  next
    case pid: False
    obtain res1 s1 where s1: "new_block_context (int k) cid parent s = (res1, s1)" by fastforce
    have "bind_job_context (new_block_context (int k)) cid pid s =
        py_bind (py_bind (res1, s1) (\<lambda>r s. py_return () (s\<lparr>ec_map := dict_set cid r (ec_map s)\<rparr>))) (\<lambda>_ s. dict_get (ec_map s) cid s)"
      using False pid s1 by (auto simp: bind_job_context_def parent_def)
    with new_block_context_inv [OF assms(1) p s1] assms(2) show ?thesis
      by (cases res1) (auto simp: kv_inv_set_map)
  qed
qed

lemma ll_destruction_view:
  assumes "ll_destruction r h = (res, h')"
  shows "map kv_view h' = map kv_view h"
proof -
  have "kv_view (c\<lparr>sub_context_ids := xs\<rparr>) = kv_view c" for c :: "'a block_context" and xs by (simp add: kv_view_def)
  moreover have "map kv_view (h[p := c]) = map kv_view h" if "kv_view c = kv_view (h ! p)" for p and c :: "'a block_context"
    using that by (metis list_update_id map_update)
  ultimately show ?thesis
    using assms by (auto simp: ll_destruction_def split: option.splits if_splits)
qed

lemma free_blocks:
  assumes "pool_inv (kv_cache_manager s) (set bs \<union> M)" and "distinct bs" and "set bs \<inter> M = {}"
  shows "\<exists>p. py_for free_block bs s = (Inr (), s\<lparr>kv_cache_manager := p\<rparr>) \<and> pool_inv p M \<and>
    set (free_ids p) = set bs \<union> set (free_ids (kv_cache_manager s))"
  using assms
proof (induction bs arbitrary: s)
  case Nil
  then show ?case by (intro exI [of _ "kv_cache_manager s"]) simp
next
  case (Cons b bs)
  obtain p where p: "pool_free b (kv_cache_manager s) = (Inr (), p)" "pool_inv p (set (b # bs) \<union> M - {b})"
    using pool_free_inv [OF Cons.prems(1), of b] by auto
  have ids: "set (free_ids p) = insert b (set (free_ids (kv_cache_manager s)))"
    using p(1) by (auto simp: pool_free_def Let_def split: if_splits)
  have "set (b # bs) \<union> M - {b} = set bs \<union> M" using Cons.prems(2,3) by auto
  with p Cons.prems Cons.IH [of "s\<lparr>kv_cache_manager := p\<rparr>"] ids show ?case by (auto simp: free_block_def)
qed

lemma kv_inv_destructed:
  assumes inv: "kv_inv k L s" and r: "r \<in> L" and "\<forall>(cid, r') \<in> set (ec_map s). r' \<noteq> r"
    and pool: "pool_inv p (\<Union>r' \<in> L - {r}. set (block_table k (ctx_at s r')))"
  shows "kv_inv k (L - {r}) (s\<lparr>kv_cache_manager := p\<rparr>)"
proof -
  have "\<forall>(cid, r') \<in> set (ec_map s). r' \<in> L - {r} \<and> ll_context_id (ctx_at s r') = cid"
    using inv assms(3) unfolding kv_inv_def by fastforce
  moreover have "L - {r} \<subseteq> {..<length (ec_heap s)}" using inv unfolding kv_inv_def by blast
  ultimately show ?thesis using inv pool by (simp add: kv_inv_def)
qed

lemma block_destruction_inv:
  assumes inv: "kv_inv k L s" and r: "r \<in> L" and free: "\<forall>(cid, r') \<in> set (ec_map s). r' \<noteq> r"
    and d: "block_destruction r s = (res, s')"
  shows "case res of
      Inl _ \<Rightarrow> kv_inv k L s' \<and> kv_cache_manager s' = kv_cache_manager s \<and> ec_map s' = ec_map s
    | Inr _ \<Rightarrow> kv_inv k (L - {r}) s' \<and> ec_map s' = ec_map s \<and>
        set (free_ids (kv_cache_manager s')) = set (block_table k (ctx_at s r)) \<union> set (free_ids (kv_cache_manager s))"
proof -
  obtain res1 h where h: "ll_destruction r (ec_heap s) = (res1, h)" by fastforce
  define s1 where "s1 = s\<lparr>ec_heap := h\<rparr>"
  have inv1: "kv_inv k L s1" by (rule kv_inv_frame [OF inv]) (simp_all add: s1_def ll_destruction_view [OF h])
  have lt: "r < length (ec_heap s)" using inv r by (auto simp: kv_inv_def)
  have "length h = length (ec_heap s)" using ll_destruction_view [OF h] by (metis length_map)
  then have same: "kv_view (ctx_at s1 r) = kv_view (ctx_at s r)"
    using arg_cong [OF ll_destruction_view [OF h], of "\<lambda>l. l ! r"] lt by (simp add: s1_def)
  show ?thesis
  proof (cases res1)
    case (Inl e)
    then show ?thesis using d h inv1 by (auto simp: block_destruction_def s1_def)
  next
    case (Inr u)
    define M where "M = (\<Union>r' \<in> L - {r}. set (block_table k (ctx_at s1 r')))"
    have "translated k (ctx_at s1 r)" using inv1 r by (auto simp: kv_inv_def)
    then have k: "0 < k" "block_size (ctx_at s1 r) = int k" by (simp_all add: translated_def)
    have "(\<Union>r' \<in> L. set (block_table k (ctx_at s1 r'))) = set (block_table k (ctx_at s1 r)) \<union> M" using r by (auto simp: M_def)
    then have "pool_inv (kv_cache_manager s1) (set (block_table k (ctx_at s1 r)) \<union> M)" using inv1 by (simp add: kv_inv_def)
    moreover have "distinct (block_table k (ctx_at s1 r))" using inv1 r by (simp add: kv_inv_def)
    moreover have "set (block_table k (ctx_at s1 r)) \<inter> M = {}" using inv1 r unfolding kv_inv_def M_def by blast
    ultimately obtain p where p: "py_for free_block (block_table k (ctx_at s1 r)) s1 = (Inr (), s1\<lparr>kv_cache_manager := p\<rparr>)"
        "pool_inv p M" "set (free_ids p) = set (block_table k (ctx_at s1 r)) \<union> set (free_ids (kv_cache_manager s1))"
      using free_blocks by blast
    have "kv_inv k (L - {r}) (s1\<lparr>kv_cache_manager := p\<rparr>)"
      by (rule kv_inv_destructed [OF inv1 r]) (use free p(2) in \<open>simp_all add: s1_def M_def\<close>)
    moreover have "block_destruction r s = (Inr (), s1\<lparr>kv_cache_manager := p\<rparr>)"
      using h Inr p(1) k by (simp add: block_destruction_def slice_step_def flip: s1_def)
    ultimately show ?thesis using d p(3) kv_viewD(3) [OF same, of k] by (auto simp: s1_def)
  qed
qed

text \<open>\<^verbatim>\<open>EngineContextManager.free_context\<close> on block contexts.\<close>

abbreviation free_block_context :: "int \<Rightarrow> 'h block_store \<Rightarrow> (int, 'h block_store) py" where
  "free_block_context \<equiv> free_engine_context block_this_len block_destruction"

lemma free_block_context_inv:
  assumes inv: "kv_inv k L s" and r: "map_of (ec_map s) cid = Some r" and f: "free_block_context cid s = (res, s')"
  shows "case res of
      Inl _ \<Rightarrow> kv_inv k L s' \<and> kv_cache_manager s' = kv_cache_manager s \<and> ec_map s' = dict_pop cid (ec_map s)
    | Inr n \<Rightarrow> kv_inv k (L - {r}) s' \<and> n = block_this_len (ctx_at s r) \<and> ec_map s' = dict_pop cid (ec_map s) \<and>
        set (free_ids (kv_cache_manager s')) = set (block_table k (ctx_at s r)) \<union> set (free_ids (kv_cache_manager s))"
proof -
  let ?s = "s\<lparr>ec_map := dict_pop cid (ec_map s)\<rparr>"
  have sub: "set (dict_pop cid (ec_map s)) \<subseteq> set (ec_map s)" by (auto simp: dict_pop_def AList.delete_eq)
  have inv1: "kv_inv k L ?s" by (rule kv_inv_frame [OF inv]) (use sub in simp_all)
  have "(cid, r) \<in> set (ec_map s)" using r by (rule map_of_SomeD)
  then have rL: "r \<in> L" "ll_context_id (ctx_at s r) = cid" using inv by (auto simp: kv_inv_def)
  have "\<forall>(cid', r') \<in> set (dict_pop cid (ec_map s)). r' \<noteq> r"
    using inv sub rL(2) by (fastforce simp: kv_inv_def dict_pop_def AList.delete_eq)
  then have free: "\<forall>(cid', r') \<in> set (ec_map ?s). r' \<noteq> r" by simp
  obtain res1 s1 where s1: "block_destruction r ?s = (res1, s1)" by fastforce
  have "free_block_context cid s = py_bind (res1, s1) (\<lambda>_ s1. py_return (block_this_len (ctx_at s r)) s1)"
    using r s1 by (simp add: free_engine_context_def Let_def)
  then show ?thesis using f block_destruction_inv [OF inv1 rL(1) free s1] by (cases res1) (auto simp: py_return_def)
qed

subsection \<open>Runs of an engine's contexts\<close>

text \<open>
  Jobs bind contexts, allocate tokens in them and write tokens and hidden states into them;
  the serve layer frees them. Any of these calls may raise.
\<close>

inductive kv_reach :: "nat \<Rightarrow> int \<Rightarrow> 'h block_store \<Rightarrow> ctx_ref set \<Rightarrow> bool" for k n where
  init: "0 < k \<Longrightarrow> kv_reach k n \<lparr>ec_heap = [], ec_map = [], kv_cache_manager = new_pool (Some n) False\<rparr> {}"
| bind: "kv_reach k n s L \<Longrightarrow> bind_job_context (new_block_context (int k)) cid pid s = (Inr r, s') \<Longrightarrow> kv_reach k n s' (insert r L)"
| bind_fail: "kv_reach k n s L \<Longrightarrow> bind_job_context (new_block_context (int k)) cid pid s = (Inl e, s') \<Longrightarrow> kv_reach k n s' L"
| alloc: "kv_reach k n s L \<Longrightarrow> r \<in> L \<Longrightarrow> allocate_blocks r m s = (res, s') \<Longrightarrow> kv_reach k n s' L"
| put: "kv_reach k n s L \<Longrightarrow> kv_reach k n (upd_ctx r (\<lambda>c. c\<lparr>bc_token_ids := ts, last_hidden_state := hs\<rparr>) s) L"
| free: "kv_reach k n s L \<Longrightarrow> map_of (ec_map s) cid = Some r \<Longrightarrow> free_block_context cid s = (Inr m, s') \<Longrightarrow> kv_reach k n s' (L - {r})"
| free_fail: "kv_reach k n s L \<Longrightarrow> map_of (ec_map s) cid = Some r \<Longrightarrow> free_block_context cid s = (Inl e, s') \<Longrightarrow> kv_reach k n s' L"

lemma kv_reach_inv: "kv_reach k n s L \<Longrightarrow> kv_inv k L s"
proof (induction rule: kv_reach.induct)
  case init
  then show ?case by (simp add: kv_inv_def parents_ok_def)
next
  case (bind s L cid pid r s')
  then show ?case using bind_job_context_inv by fastforce
next
  case (bind_fail s L cid pid e s')
  then show ?case using bind_job_context_inv by fastforce
next
  case (alloc s L r m res s')
  then show ?case using allocate_loop_inv [of k L s r "replicate (nat m) ()"] by (simp add: allocate_blocks_def)
next
  case (put s L r ts hs)
  then show ?case by (intro upd_ctx_frame) (simp_all add: kv_view_def)
next
  case (free s L cid r m s')
  then show ?case using free_block_context_inv by fastforce
next
  case (free_fail s L cid r e s')
  then show ?case using free_block_context_inv by fastforce
qed

text \<open>No operation changes the size of the pool.\<close>

abbreviation kv_size :: "'h block_store \<Rightarrow> int option" where
  "kv_size s \<equiv> pool_size (kv_cache_manager s)"

lemma kv_size_upd [simp]: "kv_size (upd_ctx r f s) = kv_size s"
  by (simp add: upd_ctx_def)

lemma allocate_one_size: "kv_size (snd (allocate_one r s)) = kv_size s"
proof (cases "pool_allocate (kv_cache_manager s)")
  case (Pair res p)
  then have "pool_size p = kv_size s" by (auto simp: pool_allocate_def Let_def split: if_splits option.splits)
  with Pair show ?thesis by (cases res) (simp_all add: allocate_one_def Let_def)
qed

lemma allocate_loop_size: "kv_size (snd (py_for (\<lambda>_. allocate_one r) us s)) = kv_size s"
proof (rule py_for_invariant [where P = "\<lambda>t. kv_size t = kv_size s"])
  show "kv_size (snd (allocate_one r t)) = kv_size s" if "kv_size t = kv_size s" for t :: "'a block_store"
    using that by (simp add: allocate_one_size)
qed simp

lemma pad_to_size: "kv_size (snd (pad_to r n s)) = kv_size s"
  unfolding pad_to_def Let_def
  by (auto intro!: py_bind_snd [where P = "\<lambda>t. kv_size t = kv_size s"] dest!: arg_cong [where f = snd] simp: allocate_loop_size)

lemma new_block_context_size: "kv_size (snd (new_block_context bs cid parent s)) = kv_size s"
proof (cases "link_parent cid parent (ec_heap s)")
  case (Pair d h)
  have "kv_size t = kv_size s" if "pad_to p m (s\<lparr>ec_heap := h\<rparr>) = (x, t)" for p m x t
    using that pad_to_size [of p m "s\<lparr>ec_heap := h\<rparr>"] by simp
  then show ?thesis unfolding new_block_context_def Pair prod.case Let_def
    by (intro py_bind_snd [where P = "\<lambda>t. kv_size t = kv_size s"]) (auto split: option.splits if_splits)
qed

lemma bind_job_context_size: "kv_size (snd (bind_job_context (new_block_context bs) cid pid s)) = kv_size s"
proof -
  have "kv_size t = kv_size s" if "new_block_context bs cid parent s = (x, t)" for parent x t
    using that new_block_context_size [of bs cid parent s] by simp
  then show ?thesis unfolding bind_job_context_def
    by (intro py_bind_snd [where P = "\<lambda>t. kv_size t = kv_size s"])
       (auto simp: py_bind_eq_Inr py_bind_eq_Inl dict_get_eq_Inr dict_get_def split: if_splits option.splits)
qed

lemma free_loop_size: "kv_size (snd (py_for free_block bs s)) = kv_size s"
proof (rule py_for_invariant [where P = "\<lambda>t. kv_size t = kv_size s"])
  show "kv_size (snd (free_block b t)) = kv_size s" if "kv_size t = kv_size s" for t :: "'a block_store" and b
    using that pool_free_size [of b "kv_cache_manager t"] by (simp add: free_block_def py_lift_def) (metis prod.collapse)
qed simp

lemma free_block_context_size: "kv_size (snd (free_block_context cid s)) = kv_size s"
proof -
  have "kv_size (snd (block_destruction r t)) = kv_size t" for r and t :: "'a block_store"
    unfolding block_destruction_def
    by (intro py_bind_snd [where P = "\<lambda>t'. kv_size t' = kv_size t"])
       (auto simp: py_lift_def free_loop_size slice_step_def split: if_splits)
  then have "kv_size t' = kv_size t" if "block_destruction r t = (x, t')" for r x and t t' :: "'a block_store"
    using that by (metis snd_conv)
  then show ?thesis unfolding free_engine_context_def Let_def
    by (auto split: option.splits intro!: py_bind_snd [where P = "\<lambda>t. kv_size t = kv_size s"])
qed

lemma kv_reach_size: "kv_reach k n s L \<Longrightarrow> kv_size s = Some n"
proof (induction rule: kv_reach.induct)
  case (bind s L cid pid r s')
  then show ?case using bind_job_context_size [of "int k" cid pid s] by simp
next
  case (bind_fail s L cid pid e s')
  then show ?case using bind_job_context_size [of "int k" cid pid s] by simp
next
  case (alloc s L r m res s')
  then show ?case using allocate_loop_size [of r "replicate (nat m) ()" s] by (simp add: allocate_blocks_def)
next
  case (free s L cid r m s')
  then show ?case using free_block_context_size [of cid s] by simp
next
  case (free_fail s L cid r e s')
  then show ?case using free_block_context_size [of cid s] by simp
qed (simp_all add: new_pool_def)

subsection \<open>Context ids\<close>

text \<open>The ids of the context objects, in the order of their creation: they stay, and new ones are appended.\<close>

abbreviation ctx_ids :: "('z low_level_context_scheme, 'y) engine_contexts_scheme \<Rightarrow> int list" where
  "ctx_ids s \<equiv> map ll_context_id (ec_heap s)"

lemma ctx_ids_upd:
  assumes "\<And>c. ll_context_id (f c) = ll_context_id c"
  shows "ctx_ids (upd_ctx r f s) = ctx_ids s"
  using assms by (simp add: upd_ctx_def map_update) (metis list_update_id map_update)

lemma allocate_one_ids: "ctx_ids (snd (allocate_one r s)) = ctx_ids s"
proof (cases "pool_allocate (kv_cache_manager s)")
  case (Pair res p)
  then show ?thesis by (cases res) (simp_all add: allocate_one_def Let_def ctx_ids_upd)
qed

lemma allocate_loop_ids: "ctx_ids (snd (py_for (\<lambda>_. allocate_one r) us s)) = ctx_ids s"
proof (rule py_for_invariant [where P = "\<lambda>t. ctx_ids t = ctx_ids s"])
  show "ctx_ids (snd (allocate_one r t)) = ctx_ids s" if "ctx_ids t = ctx_ids s" for t :: "'a block_store"
    using that by (simp add: allocate_one_ids)
qed simp

lemma pad_to_ids: "ctx_ids (snd (pad_to r n s)) = ctx_ids s"
  unfolding pad_to_def Let_def
  by (auto intro!: py_bind_snd [where P = "\<lambda>t. ctx_ids t = ctx_ids s"] dest!: arg_cong [where f = snd] simp: allocate_loop_ids ctx_ids_upd)

lemma view_ids: "map kv_view h' = map kv_view h \<Longrightarrow> map ll_context_id h' = map ll_context_id h"
proof -
  assume "map kv_view h' = map kv_view h"
  from arg_cong [OF this, of "map (\<lambda>(_, i, _). i)"] show ?thesis by (simp add: comp_def kv_view_def)
qed

lemma new_block_context_ids: "\<exists>xs. ctx_ids (snd (new_block_context bs cid parent s)) = ctx_ids s @ xs"
proof (cases "link_parent cid parent (ec_heap s)")
  case (Pair d h)
  have h: "map ll_context_id h = ctx_ids s" using link_parent_view(1) [of cid parent "ec_heap s"] Pair by (intro view_ids) simp
  then have "ctx_ids t = ctx_ids s" if "pad_to p m (s\<lparr>ec_heap := h\<rparr>) = (x, t)" for p m x t
    using that pad_to_ids [of p m "s\<lparr>ec_heap := h\<rparr>"] by simp
  then show ?thesis unfolding new_block_context_def Pair prod.case Let_def
    by (intro py_bind_snd [where P = "\<lambda>t. \<exists>xs. ctx_ids t = ctx_ids s @ xs"]) (auto simp: h split: option.splits if_splits)
qed

lemma bind_job_context_ids: "\<exists>xs. ctx_ids (snd (bind_job_context (new_block_context bs) cid pid s)) = ctx_ids s @ xs"
proof -
  have "\<exists>xs. ctx_ids t = ctx_ids s @ xs" if "new_block_context bs cid parent s = (x, t)" for parent x t
    using that new_block_context_ids [of bs cid parent s] by simp
  then show ?thesis unfolding bind_job_context_def
    by (intro py_bind_snd [where P = "\<lambda>t. \<exists>xs. ctx_ids t = ctx_ids s @ xs"])
       (auto simp: py_bind_eq_Inr py_bind_eq_Inl dict_get_eq_Inr dict_get_def split: if_splits option.splits)
qed

lemma free_block_context_ids: "ctx_ids (snd (free_block_context cid s)) = ctx_ids s"
proof -
  have fl: "ec_heap (snd (py_for free_block bs t)) = ec_heap t" for bs and t :: "'a block_store"
    by (rule py_for_invariant [where P = "\<lambda>u. ec_heap u = ec_heap t"]) (simp_all add: free_block_def py_lift_def)
  have "ctx_ids (snd (block_destruction r t)) = ctx_ids t" for r and t :: "'a block_store"
    unfolding block_destruction_def
    by (intro py_bind_snd [where P = "\<lambda>t'. ctx_ids t' = ctx_ids t"])
       (auto simp: fl slice_step_def py_lift_def view_ids [OF ll_destruction_view [OF surjective_pairing]] split: if_splits)
  then have "ctx_ids t' = ctx_ids t" if "block_destruction r t = (x, t')" for r x and t t' :: "'a block_store"
    using that by (metis snd_conv)
  then show ?thesis unfolding free_engine_context_def Let_def
    by (auto split: option.splits intro!: py_bind_snd [where P = "\<lambda>t. ctx_ids t = ctx_ids s"])
qed

text \<open>Writing only tokens or only hidden states.\<close>

lemma kv_reach_put:
  assumes "kv_reach k n s L" and "\<And>c. f c = c\<lparr>bc_token_ids := ts c, last_hidden_state := hs c\<rparr>"
  shows "kv_reach k n (upd_ctx r f s) L"
  using kv_reach.put [OF assms(1), where r = r and ts = "ts (ctx_at s r)" and hs = "hs (ctx_at s r)"] assms(2) by (simp add: upd_ctx_def)

section \<open>Properties\<close>

lemma translated_blocks: "translated k c \<Longrightarrow> set (token_kv_block_ids c) = set (block_table k c)"
proof -
  assume t: "translated k c"
  let ?xs = "token_kv_block_ids c"
  have eq: "?xs = map (\<lambda>i. block_table k c ! (i div k)) [0..<length ?xs]" and k: "0 < k"
    using t by (simp_all add: translated_def)
  have "set (map (\<lambda>i. block_table k c ! (i div k)) [0..<length ?xs]) \<subseteq> set (block_table k c)"
    using div_less_length_every [OF k, of _ ?xs] by auto
  then have "set ?xs \<subseteq> set (block_table k c)" using eq by simp
  moreover have "set (block_table k c) \<subseteq> set ?xs" by (auto simp: every_def)
  ultimately show ?thesis by blast
qed

lemma kv_reach_exclusive:
  assumes "kv_reach k n s L"
  shows "(\<forall>r \<in> L. set (token_kv_block_ids (ctx_at s r)) \<subseteq> {0..<n - 1}) \<and>
    (\<forall>r \<in> L. \<forall>r' \<in> L. r \<noteq> r' \<longrightarrow> set (token_kv_block_ids (ctx_at s r)) \<inter> set (token_kv_block_ids (ctx_at s r')) = {}) \<and>
    (\<forall>b p. pool_allocate (kv_cache_manager s) = (Inr b, p) \<longrightarrow> (\<forall>r \<in> L. b \<notin> set (token_kv_block_ids (ctx_at s r))))"
proof -
  note inv = kv_reach_inv [OF assms]
  have lt: "r < length (ec_heap s)" if "r \<in> L" for r using inv that by (auto simp: kv_inv_def)
  then have bt: "set (token_kv_block_ids (ctx_at s r)) = set (block_table k (ctx_at s r))" if "r \<in> L" for r
    using inv that by (intro translated_blocks) (simp add: kv_inv_def)
  have pool: "pool_inv (kv_cache_manager s) (\<Union>r \<in> L. set (block_table k (ctx_at s r)))" using inv by (simp add: kv_inv_def)
  have "set (block_table k (ctx_at s r)) \<subseteq> {0..<n - 1}" if "r \<in> L" for r
    using pool_inv_bounded [OF pool kv_reach_size [OF assms]] that by blast
  moreover have "b \<notin> set (block_table k (ctx_at s r))" if "pool_allocate (kv_cache_manager s) = (Inr b, p)" "r \<in> L" for b p r
    using pool_allocate_inv(2) [OF pool that(1)] that(2) by blast
  ultimately show ?thesis using inv by (auto simp: bt kv_inv_def)
qed

text \<open>Two contexts with blocks of two tokens: three tokens, padded to four, and a child with three.\<close>

abbreviation kv_demo1 :: "unit block_store" where
  "kv_demo1 \<equiv> snd (bind_job_context (new_block_context (int 2)) 7 NONE_CONTEXT_ID
     \<lparr>ec_heap = [], ec_map = [], kv_cache_manager = new_pool (Some 10) False\<rparr>)"

abbreviation kv_demo2 :: "unit block_store" where
  "kv_demo2 \<equiv> snd (allocate_blocks 0 3 kv_demo1)"

abbreviation kv_demo :: "unit block_store" where
  "kv_demo \<equiv> snd (allocate_blocks 1 3 (snd (bind_job_context (new_block_context (int 2)) 8 7 kv_demo2)))"

lemma kv_demo_reach: "kv_reach 2 10 kv_demo {1, 0}"
proof -
  let ?s0 = "\<lparr>ec_heap = [], ec_map = [], kv_cache_manager = new_pool (Some 10) False\<rparr> :: unit block_store"
  have "fst (bind_job_context (new_block_context (int 2)) 7 NONE_CONTEXT_ID ?s0) = Inr 0" by code_simp
  then have "bind_job_context (new_block_context (int 2)) 7 NONE_CONTEXT_ID ?s0 = (Inr 0, kv_demo1)" by (metis prod.collapse)
  from kv_reach.bind [OF kv_reach.init this] have "kv_reach 2 10 kv_demo1 {0}" by simp
  then have 2: "kv_reach 2 10 kv_demo2 {0}" by (rule kv_reach.alloc [OF _ _ surjective_pairing]) simp
  have "fst (bind_job_context (new_block_context (int 2)) 8 7 kv_demo2) = Inr 1" by code_simp
  then have "bind_job_context (new_block_context (int 2)) 8 7 kv_demo2 =
      (Inr 1, snd (bind_job_context (new_block_context (int 2)) 8 7 kv_demo2))" by (metis prod.collapse)
  from kv_reach.bind [OF 2 this] show ?thesis by (rule kv_reach.alloc [OF _ _ surjective_pairing]) simp
qed

lemma kv_demo_lineage: "lineage (ec_heap kv_demo) 1 [0, 1]"
proof -
  have "parent_context (ctx_at kv_demo 1) = Some 0" "parent_context (ctx_at kv_demo 0) = None" by code_simp+
  then show ?thesis using lineage.child [OF _ lineage.root, of "ec_heap kv_demo" 1 0] by simp
qed

text \<open>
  C10. No KV block is shared or lost sight of. In every state that an engine's contexts can reach (binding,
  allocating, writing and freeing, each of which may raise), the blocks of a live context are
  addresses inside the cache, two live contexts have no block in common, and a block that the
  pool hands out next belongs to no live context.
\<close>

theorem kv_blocks_exclusive:
  assumes "kv_reach k n s L"
  shows "(\<forall>r \<in> L. set (token_kv_block_ids (ctx_at s r)) \<subseteq> {0..<n - 1}) \<and>
    (\<forall>r \<in> L. \<forall>r' \<in> L. r \<noteq> r' \<longrightarrow> set (token_kv_block_ids (ctx_at s r)) \<inter> set (token_kv_block_ids (ctx_at s r')) = {}) \<and>
    (\<forall>b p. pool_allocate (kv_cache_manager s) = (Inr b, p) \<longrightarrow> (\<forall>r \<in> L. b \<notin> set (token_kv_block_ids (ctx_at s r))))"
  by (rule kv_reach_exclusive [OF assms])

theorem kv_blocks_exclusive_witness:
  "set (token_kv_block_ids (ctx_at kv_demo 0)) \<inter> set (token_kv_block_ids (ctx_at kv_demo 1)) = {} \<and>
   token_kv_block_ids (ctx_at kv_demo 1) = [2, 2, 3]"
proof -
  have "token_kv_block_ids (ctx_at kv_demo 1) = [2, 2, 3]" by code_simp
  then show ?thesis using kv_blocks_exclusive [OF kv_demo_reach] by auto
qed

text \<open>
  C9. The KV slot table is the address translation of the block table. In every reachable state, for
  every context and its ancestors \<open>ps\<close> from the root, \<^verbatim>\<open>get_context_slot_ids\<close> returns the
  concatenation of their translations (slot of position \<open>i\<close>: block \<open>i div k\<close> of the table, offset
  \<open>i mod k\<close>), \<^verbatim>\<open>get_context_block_ids\<close> the blocks of the positions, and \<^verbatim>\<open>get_context_len\<close> their number.
\<close>

theorem slot_ids_translate_blocks:
  assumes "kv_reach k n s L" and "r < length (ec_heap s)" and "lineage (ec_heap s) r ps"
  shows "get_context_slot_ids (ec_heap s) r = Some (concat (map (\<lambda>p. translate k
           (every k (token_kv_block_ids (ctx_at s p))) (length (token_kv_block_ids (ctx_at s p)))) ps)) \<and>
    (\<exists>blocks. get_context_block_ids (ec_heap s) r = Some blocks \<and> get_context_len block_this_len (ec_heap s) r = Some (int (length blocks)))"
proof -
  note inv = kv_reach_inv [OF assms(1)]
  have "p < length (ec_heap s)" if "p \<in> set ps" for p
    using assms(3,2) that inv
  proof (induction arbitrary: p rule: lineage.induct)
    case (child r q ps)
    then have "q < r" by (simp add: kv_inv_def parents_ok_def)
    with child show ?case by auto
  qed simp
  then have "token_kv_slot_ids (ctx_at s p) = translate k (block_table k (ctx_at s p)) (length (token_kv_block_ids (ctx_at s p)))"
    if "p \<in> set ps" for p using inv that by (auto simp: kv_inv_def translated_def)
  then have "map (\<lambda>p. token_kv_slot_ids (ctx_at s p)) ps =
      map (\<lambda>p. translate k (block_table k (ctx_at s p)) (length (token_kv_block_ids (ctx_at s p)))) ps" by simp
  from arg_cong [OF this, of concat] have "get_context_slot_ids (ec_heap s) r = Some (concat (map (\<lambda>p. translate k
           (block_table k (ctx_at s p)) (length (token_kv_block_ids (ctx_at s p)))) ps))"
    using get_context_slot_ids_lineage [OF assms(3)] by (simp only:)
  moreover have "sum_list (map (\<lambda>p. block_this_len (ctx_at s p)) ps) = int (length (concat (map (\<lambda>p. token_kv_block_ids (ctx_at s p)) ps)))"
    by (induction ps) (simp_all add: block_this_len_def)
  ultimately show ?thesis
    using get_context_block_ids_lineage [OF assms(3)] get_context_len_lineage [OF assms(3), of block_this_len] by simp
qed

theorem slot_ids_translate_blocks_witness:
  "get_context_slot_ids (ec_heap kv_demo) 1 = Some (translate 2 [0, 1] 4 @ translate 2 [2, 3] 3) \<and>
   translate 2 [2, 3] 3 = [4, 5, 6]"
proof -
  have v: "every 2 (token_kv_block_ids (ctx_at kv_demo 0)) = [0, 1]" "length (token_kv_block_ids (ctx_at kv_demo 0)) = 4"
    "every 2 (token_kv_block_ids (ctx_at kv_demo 1)) = [2, 3]" "length (token_kv_block_ids (ctx_at kv_demo 1)) = 3"
    "length (ec_heap kv_demo) = 2" "translate 2 [2, 3] 3 = [4, 5, 6]" by code_simp+
  show ?thesis using slot_ids_translate_blocks [OF kv_demo_reach _ kv_demo_lineage] unfolding list.map concat.simps v by simp
qed

text \<open>
  C37. Every walk up the parents ends. In every reachable state and for every context object the
  recursive methods \<^verbatim>\<open>get_context_len\<close>, \<^verbatim>\<open>get_context_block_ids\<close>, \<^verbatim>\<open>get_context_slot_ids\<close> and
  \<^verbatim>\<open>get_last_hidden_state\<close> return.
\<close>

theorem context_walks_return:
  assumes "kv_reach k n s L" and "r < length (ec_heap s)"
  shows "\<exists>len blocks slots hidden. get_context_len block_this_len (ec_heap s) r = Some len \<and>
    get_context_block_ids (ec_heap s) r = Some blocks \<and> get_context_slot_ids (ec_heap s) r = Some slots \<and>
    get_last_hidden_state (ec_heap s) r = Some hidden"
proof -
  obtain ps where l: "lineage (ec_heap s) r ps"
    using lineage_exists [of "ec_heap s" r] kv_reach_inv [OF assms(1)] assms(2) by (auto simp: kv_inv_def)
  show ?thesis
    using get_context_len_lineage [OF l] get_context_block_ids_lineage [OF l] get_context_slot_ids_lineage [OF l]
      get_last_hidden_state_returns [OF l] by blast
qed

theorem context_walks_return_witness:
  "\<exists>blocks. get_context_block_ids (ec_heap kv_demo) 1 = Some blocks \<and> length (ec_heap kv_demo) = 2"
proof -
  have "length (ec_heap kv_demo) = 2" by code_simp
  then show ?thesis using context_walks_return [OF kv_demo_reach, of 1] by auto
qed

text \<open>
  Freeing a context. If it succeeds, the length of the context is returned, its id is forgotten and
  exactly its blocks are free again. If the context still has children it raises; the id is
  forgotten all the same and the pool is unchanged, so no later call can release the blocks.
\<close>

lemma free_context_outcome:
  assumes "kv_reach k n s L" and "map_of (ec_map s) cid = Some r" and "free_block_context cid s = (res, s')"
  shows "ec_map s' = dict_pop cid (ec_map s) \<and>
    (sub_context_ids (ctx_at s r) \<noteq> [] \<longrightarrow> (\<exists>e. res = Inl e)) \<and>
    (case res of
       Inr m \<Rightarrow> m = block_this_len (ctx_at s r) \<and> set (free_ids (kv_cache_manager s')) =
         set (token_kv_block_ids (ctx_at s r)) \<union> set (free_ids (kv_cache_manager s))
     | Inl _ \<Rightarrow> kv_cache_manager s' = kv_cache_manager s)"
proof -
  note inv = kv_reach_inv [OF assms(1)]
  have "r \<in> L" using inv map_of_SomeD [OF assms(2)] by (auto simp: kv_inv_def)
  then have "translated k (ctx_at s r)" using inv by (auto simp: kv_inv_def)
  then have bt: "set (token_kv_block_ids (ctx_at s r)) = set (block_table k (ctx_at s r))" by (rule translated_blocks)
  have "parent_context (ctx_at s r) \<noteq> Some r" using inv \<open>r \<in> L\<close> by (auto simp: kv_inv_def parents_ok_def)
  then have "\<exists>e. res = Inl e" if "sub_context_ids (ctx_at s r) \<noteq> []"
    using assms(2,3) that
    by (auto simp: free_engine_context_def block_destruction_def ll_destruction_def Let_def split: option.splits if_splits)
  then show ?thesis using free_block_context_inv [OF inv assms(2,3)] bt by (auto split: sum.splits)
qed

lemma free_context_outcome_witness:
  "\<exists>e s'. free_block_context 7 kv_demo = (Inl e, s') \<and> kv_cache_manager s' = kv_cache_manager kv_demo"
proof -
  have m: "map_of (ec_map kv_demo) 7 = Some 0" and sub: "sub_context_ids (ctx_at kv_demo 0) = [8]" by code_simp+
  obtain res s' where f: "free_block_context 7 kv_demo = (res, s')" by fastforce
  from free_context_outcome [OF kv_demo_reach m f] sub show ?thesis using f by auto
qed

text \<open>
  What a chat model is sent. For every text context with ancestors the messages alternate between
  the roles, and their contents together are the whole text of the context.
\<close>

lemma chat_messages_merge:
  assumes "lineage h r ps"
  shows "\<exists>ms whole. get_whole_chat_messages h r = Some ms \<and> get_whole_context_text h r = Some whole \<and>
    alternating ms \<and> concat (map chunk_text ms) = whole \<and> get_context_len text_this_len h r = Some (int (length whole))"
proof -
  let ?cs = "concat (map (\<lambda>p. text_chunks (h ! p)) ps)"
  have "sum_list (map (\<lambda>p. text_this_len (h ! p)) ps) = int (length (concat (map chunk_text ?cs)))"
  proof (induction ps)
    case (Cons p ps)
    have "sum_list (map (\<lambda>c. int (length (chunk_text c))) cs) = int (length (concat (map chunk_text cs)))" for cs
      by (induction cs) simp_all
    with Cons show ?case by (simp add: text_this_len_def)
  qed simp
  then show ?thesis
    using get_whole_chat_messages_lineage [OF assms] get_whole_context_text_lineage [OF assms]
      get_context_len_lineage [OF assms, of text_this_len] merge_alternating [of "[]" ?cs] merge_text [of "[]" ?cs] by simp
qed

abbreviation chat_demo :: "text_context list" where
  "chat_demo \<equiv> [\<lparr>ll_context_id = 0, sub_context_ids = [], ll_depth = 0, parent_context = None,
     text_chunks = [\<lparr>chunk_text = ''a'', chunk_role = User\<rparr>, \<lparr>chunk_text = ''b'', chunk_role = User\<rparr>]\<rparr>]"

lemma chat_messages_merge_witness:
  "get_whole_chat_messages chat_demo 0 = Some [\<lparr>chunk_text = ''ab'', chunk_role = User\<rparr>] \<and>
   get_whole_context_text chat_demo 0 = Some ''ab''"
proof -
  have "get_whole_chat_messages chat_demo 0 = Some [\<lparr>chunk_text = ''ab'', chunk_role = User\<rparr>]" by code_simp
  then show ?thesis using chat_messages_merge [OF lineage.root, of chat_demo 0] by simp
qed

end
