(* ===== verification/Engine_Scheduler.thy ===== *)
theory Engine_Scheduler
  imports Engine_Contexts Call_Request "HOL-Library.Product_Lexorder"
begin

text \<open>
  Primitive jobs (\<^verbatim>\<open>engine/primitive_job.py\<close>), the scheduler inside an engine
  (\<^verbatim>\<open>engine/engine_scheduler.py\<close>), which chooses the jobs of the next batch, and the latency
  statistics (\<^verbatim>\<open>engine/latency_analyzer.py\<close>). Jobs are objects that the scheduler's lists, the
  runner and the waiting request share, so the state has a heap of them. \<open>clen\<close> is
  \<^verbatim>\<open>get_context_len\<close> of the context class, \<open>clk\<close> the clock reading when a job is touched.
  The theorems describe a batch of the default policy completely, bound it by the limits of the
  configuration, and show that the oldest job is served.
\<close>

section \<open>Primitive jobs\<close>

type_synonym job_ref = nat

datatype primitive =
    Fill (fill_token_ids: "int list option") (fill_text: "string option")
  | Generate (gen_sampling_config: sampling_config) (output_queue: "int list") (gen_text: string) (gen_len: int)

record primitive_job =
  job_session_id :: int
  job_task_id :: int
  end_flag :: bool
  job_context_id :: int
  job_parent_context_id :: int
  job_context :: "ctx_ref option"
  finish_event :: bool
  start_time :: int
  end_time :: int
  primitive_of :: primitive

definition new_job :: "int \<Rightarrow> int \<Rightarrow> int \<Rightarrow> int \<Rightarrow> bool \<Rightarrow> primitive \<Rightarrow> primitive_job" where
  "new_job sid tid cid pid flag prim =
    \<lparr>job_session_id = sid, job_task_id = tid, end_flag = flag, job_context_id = cid, job_parent_context_id = pid,
     job_context = None, finish_event = False, start_time = -1, end_time = -1, primitive_of = prim\<rparr>"

definition new_fill :: "int \<Rightarrow> int \<Rightarrow> int \<Rightarrow> int \<Rightarrow> bool \<Rightarrow> int list option \<Rightarrow> string option \<Rightarrow> primitive_job" where
  "new_fill sid tid cid pid flag toks content = new_job sid tid cid pid flag (Fill toks content)"

definition new_generate :: "int \<Rightarrow> int \<Rightarrow> int \<Rightarrow> int \<Rightarrow> sampling_config \<Rightarrow> bool \<Rightarrow> primitive_job" where
  "new_generate sid tid cid pid sampling flag = new_job sid tid cid pid flag (Generate sampling [] [] 0)"

definition is_generate :: "primitive_job \<Rightarrow> bool" where
  "is_generate j \<longleftrightarrow> (case primitive_of j of Fill _ _ \<Rightarrow> False | Generate _ _ _ _ \<Rightarrow> True)"

text \<open>\<^verbatim>\<open>Generate.put_token\<close>, on the job and on its context.\<close>

fun put_token_job :: "int \<Rightarrow> primitive \<Rightarrow> primitive" where
  "put_token_job t (Generate sampling queue body_text n) = Generate sampling (queue @ [t]) body_text (n + 1)"
| "put_token_job t (Fill toks content) = Fill toks content"

text \<open>Python's \<^verbatim>\<open>==\<close> between an integer and a JSON value.\<close>

fun json_eq_int :: "int \<Rightarrow> json \<Rightarrow> bool" where
  "json_eq_int t (JInt m) = (m = t)"
| "json_eq_int t (JFloat x) = (x = of_int t)"
| "json_eq_int t (JBool b) = (t = (if b then 1 else 0))"
| "json_eq_int t _ = False"

text \<open>\<^verbatim>\<open>Generate.check_stop\<close>; the sampling parameters came from a payload.\<close>

definition check_stop :: "int \<Rightarrow> sampling_config \<Rightarrow> int \<Rightarrow> py_error + bool" where
  "check_stop token_id sampling n =
    (case (case stop_token_ids sampling of
             JList xs \<Rightarrow> Inr (list_ex (json_eq_int token_id) xs)
           | JDict _ \<Rightarrow> Inr False
           | _ \<Rightarrow> Inl TypeError) of
       Inl e \<Rightarrow> Inl e
     | Inr True \<Rightarrow> Inr True
     | Inr False \<Rightarrow>
        (case max_gen_length sampling of
           JInt m \<Rightarrow> Inr (n \<ge> m)
         | JFloat x \<Rightarrow> Inr (of_int n \<ge> x)
         | JBool b \<Rightarrow> Inr (n \<ge> (if b then 1 else 0))
         | _ \<Rightarrow> Inl TypeError))"

section \<open>The scheduler of an engine\<close>

record scheduler_config =
  cfg_max_batch_size :: int
  cfg_max_num_batched_tokens :: int
  cfg_max_total_tokens :: int
  cfg_policy :: string

record engine_scheduler =
  max_batch_size :: int
  max_num_batched_tokens :: int
  max_total_tokens :: int
  waiting_jobs :: "job_ref list"
  running_jobs :: "job_ref list"
  policy :: string
  job_arrival_time :: "(int, int) dict"
  task_arrival_time :: "(int, int) dict"
  es_jobs :: "primitive_job list"

abbreviation job_at :: "engine_scheduler \<Rightarrow> job_ref \<Rightarrow> primitive_job" where
  "job_at s j \<equiv> es_jobs s ! j"

definition upd_job :: "job_ref \<Rightarrow> (primitive_job \<Rightarrow> primitive_job) \<Rightarrow> engine_scheduler \<Rightarrow> engine_scheduler" where
  "upd_job j f s = s\<lparr>es_jobs := (es_jobs s)[j := f (job_at s j)]\<rparr>"

definition new_engine_scheduler :: "scheduler_config \<Rightarrow> engine_scheduler" where
  "new_engine_scheduler cfg =
    \<lparr>max_batch_size = cfg_max_batch_size cfg, max_num_batched_tokens = cfg_max_num_batched_tokens cfg,
     max_total_tokens = cfg_max_total_tokens cfg, waiting_jobs = [], running_jobs = [], policy = cfg_policy cfg,
     job_arrival_time = [], task_arrival_time = [], es_jobs = []\<rparr>"

definition add_job :: "int \<Rightarrow> job_ref \<Rightarrow> engine_scheduler \<Rightarrow> engine_scheduler" where
  "add_job now j s =
    (let s = s\<lparr>waiting_jobs := waiting_jobs s @ [j]\<rparr>;
         s = s\<lparr>job_arrival_time := dict_set (job_context_id (job_at s j)) now (job_arrival_time s)\<rparr>
     in if \<not> dict_mem (job_task_id (job_at s j)) (task_arrival_time s)
        then s\<lparr>task_arrival_time := dict_set (job_task_id (job_at s j)) now (task_arrival_time s)\<rparr>
        else s)"

text \<open>\<^verbatim>\<open>d.pop(k)\<close>: a missing key is a \<^verbatim>\<open>KeyError\<close>.\<close>

definition remove_job :: "job_ref \<Rightarrow> engine_scheduler \<Rightarrow> (unit, engine_scheduler) py" where
  "remove_job j s =
    (if \<not> dict_mem (job_context_id (job_at s j)) (job_arrival_time s) then py_raise KeyError s
     else
       (let s = s\<lparr>job_arrival_time := dict_pop (job_context_id (job_at s j)) (job_arrival_time s)\<rparr>
        in if end_flag (job_at s j) then
             if \<not> dict_mem (job_task_id (job_at s j)) (task_arrival_time s) then py_raise KeyError s
             else py_return () (s\<lparr>task_arrival_time := dict_pop (job_task_id (job_at s j)) (task_arrival_time s)\<rparr>)
           else py_return () s))"

definition num_running_jobs_of :: "engine_scheduler \<Rightarrow> int" where
  "num_running_jobs_of s = int (length (running_jobs s))"

definition num_total_jobs_of :: "engine_scheduler \<Rightarrow> int" where
  "num_total_jobs_of s = int (length (waiting_jobs s)) + int (length (running_jobs s))"

definition scheduler_is_empty :: "engine_scheduler \<Rightarrow> bool" where
  "scheduler_is_empty s \<longleftrightarrow> num_total_jobs_of s = 0"

definition job_num_tokens :: "primitive_job \<Rightarrow> int" where
  "job_num_tokens j = (case primitive_of j of Fill (Some toks) _ \<Rightarrow> int (length toks) | _ \<Rightarrow> 1)"

definition job_total_tokens :: "(ctx_ref \<Rightarrow> int) \<Rightarrow> primitive_job \<Rightarrow> py_error + int" where
  "job_total_tokens clen j = (case job_context j of None \<Rightarrow> Inl AttributeError | Some c \<Rightarrow> Inr (clen c))"

definition mark_started :: "(job_ref \<Rightarrow> int) \<Rightarrow> job_ref \<Rightarrow> engine_scheduler \<Rightarrow> engine_scheduler" where
  "mark_started clk j s = (if start_time (job_at s j) = -1 then upd_job j (\<lambda>x. x\<lparr>start_time := clk j\<rparr>) s else s)"

text \<open>The head of the waiting jobs becomes a running job.\<close>

definition start_job :: "(job_ref \<Rightarrow> int) \<Rightarrow> job_ref \<Rightarrow> engine_scheduler \<Rightarrow> engine_scheduler" where
  "start_job clk j s =
    (let s = mark_started clk j (s\<lparr>running_jobs := running_jobs s @ [j]\<rparr>)
     in s\<lparr>waiting_jobs := tl (waiting_jobs s)\<rparr>)"

subsection \<open>The policies\<close>

text \<open>Policy \<^verbatim>\<open>tgi\<close>: the fill jobs that fit; the loop stops at the first that does not.\<close>

fun tgi_loop :: "(job_ref \<Rightarrow> int) \<Rightarrow> job_ref list \<Rightarrow> int \<Rightarrow> job_ref list \<Rightarrow> engine_scheduler \<Rightarrow> job_ref list \<times> engine_scheduler" where
  "tgi_loop clk [] cur fills s = (fills, s)"
| "tgi_loop clk (j # js) cur fills s =
    (case primitive_of (job_at s j) of
       Generate _ _ _ _ \<Rightarrow> tgi_loop clk js cur fills s
     | Fill toks _ \<Rightarrow>
        (let n = (case toks of Some ts \<Rightarrow> int (length ts) | None \<Rightarrow> 0)
         in if cur + n > max_num_batched_tokens s then (fills, s)
            else tgi_loop clk js (cur + n) (fills @ [j]) (mark_started clk j s)))"

definition schedule_tgi :: "(job_ref \<Rightarrow> int) \<Rightarrow> engine_scheduler \<Rightarrow> (job_ref list, engine_scheduler) py" where
  "schedule_tgi clk s =
    (let (fills, s) = tgi_loop clk (waiting_jobs s) 0 [] s;
         s = (if fills \<noteq> [] then
                (let s = s\<lparr>waiting_jobs := filter (\<lambda>j. j \<notin> set fills) (waiting_jobs s)\<rparr>
                 in s\<lparr>waiting_jobs := running_jobs s @ waiting_jobs s, running_jobs := fills\<rparr>)
              else s)
     in py_raise AssertionError s)"

text \<open>Policy \<^verbatim>\<open>fifo_v1\<close>: the waiting jobs that fit, with the total length counted on admission.\<close>

fun fifo_v1_loop ::
  "(ctx_ref \<Rightarrow> int) \<Rightarrow> (job_ref \<Rightarrow> int) \<Rightarrow> job_ref list \<Rightarrow> int \<Rightarrow> int \<Rightarrow> int \<Rightarrow> engine_scheduler \<Rightarrow> (unit, engine_scheduler) py" where
  "fifo_v1_loop clen clk [] num batched tot s = py_return () s"
| "fifo_v1_loop clen clk (j # js) num batched tot s =
    (case job_total_tokens clen (job_at s j) of
       Inl e \<Rightarrow> py_raise e s
     | Inr n \<Rightarrow>
        if num + 1 > max_batch_size s then py_return () s
        else if batched + job_num_tokens (job_at s j) > max_num_batched_tokens s then py_return () s
        else if tot + n > max_total_tokens s then py_return () s
        else fifo_v1_loop clen clk js (num + 1) (batched + job_num_tokens (job_at s j)) (tot + n) (start_job clk j s))"

fun sum_context_len :: "(ctx_ref \<Rightarrow> int) \<Rightarrow> primitive_job list \<Rightarrow> py_error + int" where
  "sum_context_len clen [] = Inr 0"
| "sum_context_len clen (j # js) =
    (case job_total_tokens clen j of
       Inl e \<Rightarrow> Inl e
     | Inr n \<Rightarrow> (case sum_context_len clen js of Inl e \<Rightarrow> Inl e | Inr m \<Rightarrow> Inr (n + m)))"

definition schedule_fifo_v1 :: "(ctx_ref \<Rightarrow> int) \<Rightarrow> (job_ref \<Rightarrow> int) \<Rightarrow> engine_scheduler \<Rightarrow> (job_ref list, engine_scheduler) py" where
  "schedule_fifo_v1 clen clk s =
    (let n = int (length (running_jobs s)) in
     case sum_context_len clen (map (job_at s) (running_jobs s)) of
       Inl e \<Rightarrow> py_raise e s
     | Inr tot \<Rightarrow>
        py_bind (fifo_v1_loop clen clk (waiting_jobs s) n n tot s) (\<lambda>_ s. py_return (running_jobs s) s))"

text \<open>The default policy: admit by number and batched tokens, then preempt by the total length.\<close>

fun fifo_loop :: "(job_ref \<Rightarrow> int) \<Rightarrow> job_ref list \<Rightarrow> int \<Rightarrow> int \<Rightarrow> engine_scheduler \<Rightarrow> engine_scheduler" where
  "fifo_loop clk [] num batched s = s"
| "fifo_loop clk (j # js) num batched s =
    (if num + 1 > max_batch_size s then s
     else if batched + job_num_tokens (job_at s j) > max_num_batched_tokens s then s
     else fifo_loop clk js (num + 1) (batched + job_num_tokens (job_at s j)) (start_job clk j s))"

definition arrival_key :: "engine_scheduler \<Rightarrow> job_ref \<Rightarrow> py_error + int \<times> int" where
  "arrival_key s j =
    (case map_of (task_arrival_time s) (job_task_id (job_at s j)) of
       None \<Rightarrow> Inl KeyError
     | Some t \<Rightarrow>
        (case map_of (job_arrival_time s) (job_context_id (job_at s j)) of
           None \<Rightarrow> Inl KeyError
         | Some t' \<Rightarrow> Inr (t, t')))"

abbreviation arrival :: "engine_scheduler \<Rightarrow> job_ref \<Rightarrow> int \<times> int" where
  "arrival s j \<equiv> (case arrival_key s j of Inr k \<Rightarrow> k | Inl _ \<Rightarrow> (0, 0))"

text \<open>\<^verbatim>\<open>list.sort\<close> computes all the keys first; a key that raises leaves the list as it was.\<close>

definition sort_running :: "engine_scheduler \<Rightarrow> (unit, engine_scheduler) py" where
  "sort_running s =
    (case find (\<lambda>j. isl (arrival_key s j)) (running_jobs s) of
       Some j \<Rightarrow> py_raise KeyError s
     | None \<Rightarrow> py_return () (s\<lparr>running_jobs := sort_key (arrival s) (running_jobs s)\<rparr>))"

definition preempt :: "job_ref \<Rightarrow> engine_scheduler \<Rightarrow> engine_scheduler" where
  "preempt j s = s\<lparr>waiting_jobs := j # waiting_jobs s\<rparr>"

fun preempt_loop ::
  "(ctx_ref \<Rightarrow> int) \<Rightarrow> job_ref list \<Rightarrow> job_ref list \<Rightarrow> int \<Rightarrow> bool \<Rightarrow> engine_scheduler \<Rightarrow> (job_ref list, engine_scheduler) py" where
  "preempt_loop clen [] new_running tot preempted s = py_return new_running s"
| "preempt_loop clen (j # js) new_running tot preempted s =
    (if preempted then preempt_loop clen js new_running tot preempted (preempt j s)
     else case job_total_tokens clen (job_at s j) of
       Inl e \<Rightarrow> py_raise e s
     | Inr n \<Rightarrow>
        if tot + n > max_total_tokens s then preempt_loop clen js new_running tot True (preempt j s)
        else preempt_loop clen js (new_running @ [j]) (tot + n) False s)"

definition schedule_fifo :: "(ctx_ref \<Rightarrow> int) \<Rightarrow> (job_ref \<Rightarrow> int) \<Rightarrow> engine_scheduler \<Rightarrow> (job_ref list, engine_scheduler) py" where
  "schedule_fifo clen clk s =
    (let n = int (length (running_jobs s)); s = fifo_loop clk (waiting_jobs s) n n s in
     py_bind (sort_running s) (\<lambda>_ s.
     py_bind (preempt_loop clen (running_jobs s) [] 0 False s) (\<lambda>new_running s.
       py_return new_running (s\<lparr>running_jobs := new_running\<rparr>))))"

definition schedule_jobs :: "(ctx_ref \<Rightarrow> int) \<Rightarrow> (job_ref \<Rightarrow> int) \<Rightarrow> engine_scheduler \<Rightarrow> (job_ref list, engine_scheduler) py" where
  "schedule_jobs clen clk s =
    (if policy s = ''tgi'' then schedule_tgi clk s
     else if policy s = ''fifo_v1'' then schedule_fifo_v1 clen clk s
     else schedule_fifo clen clk s)"

fun finish_loop :: "(job_ref \<Rightarrow> int) \<Rightarrow> job_ref list \<Rightarrow> job_ref list \<Rightarrow> engine_scheduler \<Rightarrow> (job_ref list, engine_scheduler) py" where
  "finish_loop clk [] new_running s = py_return new_running s"
| "finish_loop clk (j # js) new_running s =
    (if \<not> finish_event (job_at s j) then finish_loop clk js (new_running @ [j]) s
     else py_bind (remove_job j s) (\<lambda>_ s. finish_loop clk js new_running (upd_job j (\<lambda>x. x\<lparr>end_time := clk j\<rparr>) s)))"

definition finish_jobs :: "(job_ref \<Rightarrow> int) \<Rightarrow> engine_scheduler \<Rightarrow> (unit, engine_scheduler) py" where
  "finish_jobs clk s =
    py_bind (finish_loop clk (running_jobs s) [] s) (\<lambda>new_running s. py_return () (s\<lparr>running_jobs := new_running\<rparr>))"

section \<open>Latency statistics\<close>

definition LATENCY_ANALYZER_RECENT_N :: nat where
  "LATENCY_ANALYZER_RECENT_N = 20"

definition add_latency :: "rat \<Rightarrow> rat list \<Rightarrow> rat list" where
  "add_latency latency latency_list = latency_list @ [latency]"

definition get_average_latency :: "rat list \<Rightarrow> rat" where
  "get_average_latency latency_list =
    (let actual_n = min LATENCY_ANALYZER_RECENT_N (length latency_list)
     in if actual_n = 0 then 0
        else sum_list (drop (length latency_list - actual_n) latency_list) / of_nat actual_n)"

section \<open>A batch of the default policy\<close>

text \<open>What starting jobs leaves as it was: the limits, the arrival times, and of a job all but its start time.\<close>

definition same_jobs :: "engine_scheduler \<Rightarrow> engine_scheduler \<Rightarrow> bool" where
  "same_jobs s s' \<longleftrightarrow>
    max_batch_size s' = max_batch_size s \<and> max_num_batched_tokens s' = max_num_batched_tokens s \<and>
    max_total_tokens s' = max_total_tokens s \<and> policy s' = policy s \<and>
    job_arrival_time s' = job_arrival_time s \<and> task_arrival_time s' = task_arrival_time s \<and>
    map (\<lambda>j. j\<lparr>start_time := 0\<rparr>) (es_jobs s') = map (\<lambda>j. j\<lparr>start_time := 0\<rparr>) (es_jobs s)"

definition jobs_ok :: "engine_scheduler \<Rightarrow> bool" where
  "jobs_ok s \<longleftrightarrow> (\<forall>j \<in> set (waiting_jobs s @ running_jobs s). j < length (es_jobs s))"

lemma same_jobs_refl [simp]: "same_jobs s s"
  by (simp add: same_jobs_def)

lemma same_jobs_trans: "same_jobs s t \<Longrightarrow> same_jobs t u \<Longrightarrow> same_jobs s u"
  by (simp add: same_jobs_def)

lemma same_jobs_at:
  assumes "same_jobs s s'" and "j < length (es_jobs s)"
  shows "job_num_tokens (job_at s' j) = job_num_tokens (job_at s j)"
    "job_total_tokens clen (job_at s' j) = job_total_tokens clen (job_at s j)" "arrival_key s' j = arrival_key s j"
proof -
  have len: "length (es_jobs s') = length (es_jobs s)" using assms(1) unfolding same_jobs_def by (metis length_map)
  have eq: "(job_at s' j)\<lparr>start_time := 0\<rparr> = (job_at s j)\<lparr>start_time := 0\<rparr>"
    using assms len unfolding same_jobs_def by (metis nth_map)
  have "primitive_of (job_at s' j) = primitive_of (job_at s j)" "job_context (job_at s' j) = job_context (job_at s j)"
    "job_task_id (job_at s' j) = job_task_id (job_at s j)" "job_context_id (job_at s' j) = job_context_id (job_at s j)"
    using arg_cong [OF eq, of primitive_of] arg_cong [OF eq, of job_context] arg_cong [OF eq, of job_task_id]
      arg_cong [OF eq, of job_context_id] by simp_all
  then show "job_num_tokens (job_at s' j) = job_num_tokens (job_at s j)"
    "job_total_tokens clen (job_at s' j) = job_total_tokens clen (job_at s j)" "arrival_key s' j = arrival_key s j"
    using assms(1) by (simp_all add: job_num_tokens_def job_total_tokens_def arrival_key_def same_jobs_def cong: option.case_cong)
qed

lemma start_job_same:
  "same_jobs s (start_job clk j s)" "running_jobs (start_job clk j s) = running_jobs s @ [j]"
  "waiting_jobs (start_job clk j s) = tl (waiting_jobs s)" "length (es_jobs (start_job clk j s)) = length (es_jobs s)"
proof -
  have "map (\<lambda>j. j\<lparr>start_time := 0\<rparr>) (xs[i := (xs ! i)\<lparr>start_time := t\<rparr>]) = map (\<lambda>j. j\<lparr>start_time := 0\<rparr>) xs"
    for xs :: "primitive_job list" and i t
    by (simp add: map_update) (metis (mono_tags, lifting) list_update_id map_update)
  then show "same_jobs s (start_job clk j s)"
    by (simp add: same_jobs_def start_job_def mark_started_def upd_job_def Let_def)
qed (simp_all add: start_job_def mark_started_def upd_job_def Let_def)

lemma fifo_loop_spec:
  assumes "waiting_jobs s = js" and "\<forall>j \<in> set js. j < length (es_jobs s)"
  shows "\<exists>adm rest. js = adm @ rest \<and> same_jobs s (fifo_loop clk js num batched s) \<and>
    running_jobs (fifo_loop clk js num batched s) = running_jobs s @ adm \<and>
    waiting_jobs (fifo_loop clk js num batched s) = rest \<and> length (es_jobs (fifo_loop clk js num batched s)) = length (es_jobs s) \<and>
    (adm \<noteq> [] \<longrightarrow> num + int (length adm) \<le> max_batch_size s \<and>
       batched + sum_list (map (\<lambda>j. job_num_tokens (job_at s j)) adm) \<le> max_num_batched_tokens s) \<and>
    (adm = [] \<longrightarrow> rest \<noteq> [] \<longrightarrow> num + 1 > max_batch_size s \<or> batched + job_num_tokens (job_at s (hd rest)) > max_num_batched_tokens s)"
  using assms
proof (induction js arbitrary: num batched s)
  case (Cons j js)
  let ?n = "job_num_tokens (job_at s j)"
  show ?case
  proof (cases "num + 1 > max_batch_size s \<or> batched + ?n > max_num_batched_tokens s")
    case True
    then show ?thesis using Cons.prems(1) by (intro exI [of _ "[]"] exI [of _ "j # js"]) auto
  next
    case False
    let ?s = "start_job clk j s"
    note st = start_job_same [where s = s and clk = clk and j = j]
    have w: "waiting_jobs ?s = js" using st(3) Cons.prems(1) by simp
    have ok: "\<forall>j \<in> set js. j < length (es_jobs ?s)" using Cons.prems(2) st(4) by simp
    have eq: "fifo_loop clk (j # js) num batched s = fifo_loop clk js (num + 1) (batched + ?n) ?s" using False by simp
    obtain adm rest where a: "js = adm @ rest" "same_jobs ?s (fifo_loop clk js (num + 1) (batched + ?n) ?s)"
      "running_jobs (fifo_loop clk js (num + 1) (batched + ?n) ?s) = running_jobs ?s @ adm"
      "waiting_jobs (fifo_loop clk js (num + 1) (batched + ?n) ?s) = rest"
      "length (es_jobs (fifo_loop clk js (num + 1) (batched + ?n) ?s)) = length (es_jobs ?s)"
      "adm \<noteq> [] \<longrightarrow> num + 1 + int (length adm) \<le> max_batch_size ?s \<and>
        batched + ?n + sum_list (map (\<lambda>j. job_num_tokens (job_at ?s j)) adm) \<le> max_num_batched_tokens ?s"
      using Cons.IH [OF w ok, of "num + 1" "batched + ?n"] by blast
    have m: "map (\<lambda>j. job_num_tokens (job_at ?s j)) adm = map (\<lambda>j. job_num_tokens (job_at s j)) adm"
      using Cons.prems(2) a(1) same_jobs_at(1) [OF st(1)] by auto
    have lim: "max_batch_size ?s = max_batch_size s" "max_num_batched_tokens ?s = max_num_batched_tokens s"
      using st(1) by (simp_all add: same_jobs_def)
    show ?thesis unfolding eq
      using a st(2,4) same_jobs_trans [OF st(1) a(2)] False
      by (intro exI [of _ "j # adm"] exI [of _ rest]) (cases "adm = []", simp_all add: m lim)
  qed
qed simp

lemma preempt_rest: "preempt_loop clen js acc tot True s = (Inr acc, s\<lparr>waiting_jobs := rev js @ waiting_jobs s\<rparr>)"
  by (induction js arbitrary: s) (simp_all add: preempt_def py_return_def)

lemma preempt_loop_spec:
  assumes "preempt_loop clen js acc tot False s = (Inr new, s')"
  shows "\<exists>kept pre ns. js = kept @ pre \<and> new = acc @ kept \<and> s' = s\<lparr>waiting_jobs := rev pre @ waiting_jobs s\<rparr> \<and>
    map (\<lambda>j. job_total_tokens clen (job_at s j)) kept = map Inr ns \<and> (kept \<noteq> [] \<longrightarrow> tot + sum_list ns \<le> max_total_tokens s) \<and>
    (kept = [] \<longrightarrow> pre \<noteq> [] \<longrightarrow> (\<exists>n. job_total_tokens clen (job_at s (hd pre)) = Inr n \<and> tot + n > max_total_tokens s))"
  using assms
proof (induction js arbitrary: acc tot)
  case Nil
  then show ?case by simp
next
  case (Cons j js)
  then obtain n where n: "job_total_tokens clen (job_at s j) = Inr n" by (auto split: sum.splits)
  show ?case
  proof (cases "tot + n > max_total_tokens s")
    case True
    then have "new = acc" "s' = s\<lparr>waiting_jobs := rev (j # js) @ waiting_jobs s\<rparr>"
      using Cons.prems n preempt_rest [of clen js acc tot "preempt j s"] by (simp_all add: preempt_def)
    with True n show ?thesis by (intro exI [of _ "[]"] exI [of _ "j # js"]) simp
  next
    case False
    then have "preempt_loop clen js (acc @ [j]) (tot + n) False s = (Inr new, s')" using Cons.prems n by simp
    from Cons.IH [OF this] obtain kept pre ns where "js = kept @ pre" "new = acc @ [j] @ kept"
      "s' = s\<lparr>waiting_jobs := rev pre @ waiting_jobs s\<rparr>" "map (\<lambda>j. job_total_tokens clen (job_at s j)) kept = map Inr ns"
      "kept \<noteq> [] \<longrightarrow> tot + n + sum_list ns \<le> max_total_tokens s" by auto
    with False n show ?thesis
      by (intro exI [of _ "j # kept"] exI [of _ pre] exI [of _ "n # ns"]) (cases "kept = []", auto)
  qed
qed

text \<open>The default policy, step by step.\<close>

definition is_fifo :: "engine_scheduler \<Rightarrow> bool" where
  "is_fifo s \<longleftrightarrow> policy s \<noteq> ''tgi'' \<and> policy s \<noteq> ''fifo_v1''"

lemma find_None: "find P xs = None \<longleftrightarrow> (\<forall>x \<in> set xs. \<not> P x)"
  by (induction xs) auto

lemma fifo_steps:
  assumes "jobs_ok s" and "is_fifo s" and "schedule_jobs clen clk s = (Inr ret, s')"
  obtains adm rest pre ns where "waiting_jobs s = adm @ rest" "sort_key (arrival s) (running_jobs s @ adm) = ret @ pre"
    "running_jobs s' = ret" "waiting_jobs s' = rev pre @ rest" "same_jobs s s'"
    "adm \<noteq> [] \<longrightarrow> int (length (running_jobs s @ adm)) \<le> max_batch_size s \<and>
       int (length (running_jobs s)) + sum_list (map (\<lambda>j. job_num_tokens (job_at s j)) adm) \<le> max_num_batched_tokens s"
    "map (\<lambda>j. job_total_tokens clen (job_at s j)) ret = map Inr ns" "ret \<noteq> [] \<longrightarrow> sum_list ns \<le> max_total_tokens s"
    "adm = [] \<longrightarrow> rest \<noteq> [] \<longrightarrow> int (length (running_jobs s)) + 1 > max_batch_size s \<or>
       int (length (running_jobs s)) + job_num_tokens (job_at s (hd rest)) > max_num_batched_tokens s"
    "ret = [] \<longrightarrow> pre \<noteq> [] \<longrightarrow> (\<exists>n. job_total_tokens clen (job_at s (hd pre)) = Inr n \<and> n > max_total_tokens s)"
proof -
  let ?n = "int (length (running_jobs s))"
  define s1 where "s1 = fifo_loop clk (waiting_jobs s) ?n ?n s"
  have w: "\<forall>j \<in> set (waiting_jobs s). j < length (es_jobs s)" using assms(1) by (simp add: jobs_ok_def)
  obtain adm rest where a: "waiting_jobs s = adm @ rest" "same_jobs s s1" "running_jobs s1 = running_jobs s @ adm" "waiting_jobs s1 = rest"
    "adm \<noteq> [] \<longrightarrow> ?n + int (length adm) \<le> max_batch_size s \<and>
       ?n + sum_list (map (\<lambda>j. job_num_tokens (job_at s j)) adm) \<le> max_num_batched_tokens s"
    "adm = [] \<longrightarrow> rest \<noteq> [] \<longrightarrow> ?n + 1 > max_batch_size s \<or> ?n + job_num_tokens (job_at s (hd rest)) > max_num_batched_tokens s"
    using fifo_loop_spec [OF refl w, of clk ?n ?n] unfolding s1_def by blast
  have lt: "j < length (es_jobs s)" if "j \<in> set (running_jobs s @ adm)" for j using assms(1) a(1) that by (auto simp: jobs_ok_def)
  define q where "q = sort_key (arrival s1) (running_jobs s1)"
  have q: "q = sort_key (arrival s) (running_jobs s @ adm)"
    unfolding q_def a(3)
    by (rule sort_key_cong) (simp add: same_jobs_at(3) [OF a(2) lt])
  have sf: "schedule_fifo clen clk s = (Inr ret, s')" using assms(2,3) by (simp add: schedule_jobs_def is_fifo_def)
  then have "py_bind (sort_running s1) (\<lambda>_ s. py_bind (preempt_loop clen (running_jobs s) [] 0 False s) (\<lambda>new_running s.
       py_return new_running (s\<lparr>running_jobs := new_running\<rparr>))) = (Inr ret, s')"
    by (simp add: schedule_fifo_def Let_def s1_def)
  then obtain s3 where s3: "preempt_loop clen q [] 0 False (s1\<lparr>running_jobs := q\<rparr>) = (Inr ret, s3)" "s' = s3\<lparr>running_jobs := ret\<rparr>"
    by (auto simp: py_bind_eq_Inr sort_running_def q_def split: option.splits)
  from preempt_loop_spec [OF s3(1)] obtain pre ns where p: "q = ret @ pre" "s3 = s1\<lparr>running_jobs := q, waiting_jobs := rev pre @ waiting_jobs s1\<rparr>"
    "map (\<lambda>j. job_total_tokens clen (job_at s1 j)) ret = map Inr ns" "ret \<noteq> [] \<longrightarrow> sum_list ns \<le> max_total_tokens s1"
    "ret = [] \<longrightarrow> pre \<noteq> [] \<longrightarrow> (\<exists>n. job_total_tokens clen (job_at s1 (hd pre)) = Inr n \<and> n > max_total_tokens s1)"
    by auto
  have big: "ret = [] \<longrightarrow> pre \<noteq> [] \<longrightarrow> (\<exists>n. job_total_tokens clen (job_at s (hd pre)) = Inr n \<and> n > max_total_tokens s)"
  proof (intro impI)
    assume "ret = []" "pre \<noteq> []"
    then have "hd pre \<in> set (running_jobs s @ adm)" using arg_cong [OF p(1), of set] q by auto
    with p(5) \<open>ret = []\<close> \<open>pre \<noteq> []\<close> show "\<exists>n. job_total_tokens clen (job_at s (hd pre)) = Inr n \<and> n > max_total_tokens s"
      using same_jobs_at(2) [OF a(2) lt] a(2) by (simp add: same_jobs_def)
  qed
  have "set ret \<subseteq> set (running_jobs s @ adm)" using arg_cong [OF p(1), of set] q by auto
  then have "map (\<lambda>j. job_total_tokens clen (job_at s1 j)) ret = map (\<lambda>j. job_total_tokens clen (job_at s j)) ret"
    using same_jobs_at(2) [OF a(2)] lt by (auto simp: subset_iff)
  moreover have "same_jobs s s'" using a(2) s3(2) p(2) by (simp add: same_jobs_def)
  moreover have "max_total_tokens s1 = max_total_tokens s" using a(2) by (simp add: same_jobs_def)
  ultimately show ?thesis using that [of adm rest pre ns] a p q s3(2) big by simp
qed

subsection \<open>What scheduling may change\<close>

text \<open>No policy invents jobs or changes the context of a job, also when it raises.\<close>

abbreviation job_links :: "engine_scheduler \<Rightarrow> (ctx_ref option \<times> int) list" where
  "job_links s \<equiv> map (\<lambda>j. (job_context j, job_context_id j)) (es_jobs s)"

definition jobs_within :: "job_ref set \<Rightarrow> (ctx_ref option \<times> int) list \<Rightarrow> engine_scheduler \<Rightarrow> bool" where
  "jobs_within W links s \<longleftrightarrow> set (waiting_jobs s @ running_jobs s) \<subseteq> W \<and> job_links s = links"

lemma upd_job_links:
  assumes "\<And>x. job_context (f x) = job_context x" and "\<And>x. job_context_id (f x) = job_context_id x"
  shows "job_links (upd_job j f s) = job_links s"
  using assms by (simp add: upd_job_def map_update) (metis (no_types, lifting) list_update_id map_update)

lemma mark_started_within: "jobs_within W links s \<Longrightarrow> jobs_within W links (mark_started clk j s)"
  by (simp add: jobs_within_def mark_started_def upd_job_links) (simp add: upd_job_def)

lemma set_tl: "set (tl xs) \<subseteq> set xs"
  by (cases xs) auto

lemma start_job_within: "jobs_within W links s \<Longrightarrow> j \<in> W \<Longrightarrow> jobs_within W links (start_job clk j s)"
proof -
  assume a: "jobs_within W links s" "j \<in> W"
  then have "jobs_within W links (s\<lparr>running_jobs := running_jobs s @ [j]\<rparr>)" by (simp add: jobs_within_def)
  from mark_started_within [OF this, of clk j] show ?thesis
    using set_tl [of "waiting_jobs (mark_started clk j (s\<lparr>running_jobs := running_jobs s @ [j]\<rparr>))"]
    by (auto simp: start_job_def Let_def jobs_within_def)
qed

lemma tgi_loop_within:
  "jobs_within W links s \<Longrightarrow> set js \<subseteq> W \<Longrightarrow> set fills \<subseteq> W \<Longrightarrow>
    jobs_within W links (snd (tgi_loop clk js cur fills s)) \<and> set (fst (tgi_loop clk js cur fills s)) \<subseteq> W"
  by (induction clk js cur fills s rule: tgi_loop.induct) (auto simp: Let_def mark_started_within split: primitive.splits)

lemma fifo_v1_loop_within:
  "jobs_within W links s \<Longrightarrow> set js \<subseteq> W \<Longrightarrow> jobs_within W links (snd (fifo_v1_loop clen clk js num batched tot s))"
  by (induction clen clk js num batched tot s rule: fifo_v1_loop.induct) (auto simp: start_job_within split: sum.splits)

lemma fifo_loop_within: "jobs_within W links s \<Longrightarrow> set js \<subseteq> W \<Longrightarrow> jobs_within W links (fifo_loop clk js num batched s)"
  by (induction clk js num batched s rule: fifo_loop.induct) (auto simp: start_job_within)

lemma preempt_loop_within:
  "jobs_within W links s \<Longrightarrow> set js \<subseteq> W \<Longrightarrow> set new \<subseteq> W \<Longrightarrow>
    jobs_within W links (snd (preempt_loop clen js new tot pre s)) \<and>
    (\<forall>ret. fst (preempt_loop clen js new tot pre s) = Inr ret \<longrightarrow> set ret \<subseteq> W)"
proof (induction clen js new tot pre s rule: preempt_loop.induct)
  case (2 clen j js new tot pre s)
  have "jobs_within W links (preempt j s)" using 2(4,5) by (simp add: jobs_within_def preempt_def)
  with 2 show ?case by (auto split: sum.splits)
qed simp

lemma schedule_jobs_within:
  assumes "schedule_jobs clen clk s = (res, s')"
  shows "jobs_within (set (waiting_jobs s @ running_jobs s)) (job_links s) s' \<and> (\<forall>ret. res = Inr ret \<longrightarrow> set ret \<subseteq> set (waiting_jobs s @ running_jobs s))"
proof -
  let ?W = "set (waiting_jobs s @ running_jobs s)" and ?l = "job_links s" and ?n = "int (length (running_jobs s))"
  have s: "jobs_within ?W ?l s" by (simp add: jobs_within_def)
  consider "policy s = ''tgi''" | "policy s = ''fifo_v1''" | "policy s \<noteq> ''tgi''" "policy s \<noteq> ''fifo_v1''" by blast
  then show ?thesis
  proof cases
    case 1
    have "jobs_within ?W ?l (snd (tgi_loop clk (waiting_jobs s) 0 [] s)) \<and> set (fst (tgi_loop clk (waiting_jobs s) 0 [] s)) \<subseteq> ?W"
      by (rule tgi_loop_within [OF s]) simp_all
    with 1 assms show ?thesis
      by (auto simp: schedule_jobs_def schedule_tgi_def Let_def jobs_within_def split: prod.splits if_splits)
  next
    case 2
    have "jobs_within ?W ?l (snd (fifo_v1_loop clen clk (waiting_jobs s) ?n ?n tot s))" for tot
      by (rule fifo_v1_loop_within [OF s]) simp
    then have "jobs_within ?W ?l t" if "fifo_v1_loop clen clk (waiting_jobs s) ?n ?n tot s = (x, t)" for tot x t
      using that by (metis snd_conv)
    with 2 assms s show ?thesis
      by (cases res) (auto simp: schedule_jobs_def schedule_fifo_v1_def Let_def py_bind_eq_Inr py_bind_eq_Inl jobs_within_def split: sum.splits)
  next
    case 3
    define s1 where "s1 = fifo_loop clk (waiting_jobs s) ?n ?n s"
    let ?s2 = "s1\<lparr>running_jobs := sort_key (arrival s1) (running_jobs s1)\<rparr>"
    have s1: "jobs_within ?W ?l s1" unfolding s1_def by (rule fifo_loop_within [OF s]) simp
    then have s2: "jobs_within ?W ?l ?s2" by (simp add: jobs_within_def)
    have q: "set (running_jobs ?s2) \<subseteq> ?W" using s2 by (simp add: jobs_within_def)
    note p = preempt_loop_within [OF s2 q, of "[]" clen 0 False]
    have "schedule_fifo clen clk s = (res, s')" using 3 assms by (simp add: schedule_jobs_def)
    then have "py_bind (sort_running s1) (\<lambda>_ s. py_bind (preempt_loop clen (running_jobs s) [] 0 False s) (\<lambda>new_running s.
         py_return new_running (s\<lparr>running_jobs := new_running\<rparr>))) = (res, s')"
      by (simp add: schedule_fifo_def Let_def s1_def)
    then show ?thesis using s1 p
      by (cases "preempt_loop clen (running_jobs ?s2) [] 0 False ?s2"; cases "fst (preempt_loop clen (running_jobs ?s2) [] 0 False ?s2)")
         (auto simp: sort_running_def jobs_within_def split: option.splits)
  qed
qed

lemma finish_jobs_within:
  assumes "finish_jobs clk s = (res, s')"
  shows "jobs_within (set (waiting_jobs s @ running_jobs s)) (job_links s) s'"
proof -
  let ?W = "set (waiting_jobs s @ running_jobs s)"
  have rm: "jobs_within W l (snd (remove_job j t))" if "jobs_within W l t" for W l j t
    using that by (simp add: jobs_within_def remove_job_def Let_def)
  have loop: "jobs_within ?W l (snd (finish_loop clk js new t)) \<and> (\<forall>nr. fst (finish_loop clk js new t) = Inr nr \<longrightarrow> set nr \<subseteq> ?W)"
    if "jobs_within ?W l t" "set js \<subseteq> ?W" "set new \<subseteq> ?W" for l js new t
    using that
  proof (induction clk js new t rule: finish_loop.induct)
    case (2 clk j js new t)
    show ?case
    proof (cases "finish_event (job_at t j)")
      case True
      obtain res1 t1 where t1: "remove_job j t = (res1, t1)" by fastforce
      then have w1: "jobs_within ?W l t1" using rm [OF 2(3), of j] by simp
      then have "jobs_within ?W l (upd_job j (\<lambda>x. x\<lparr>end_time := clk j\<rparr>) t1)"
        by (simp add: jobs_within_def upd_job_links) (simp add: upd_job_def)
      with True t1 w1 2 show ?thesis by (cases res1) auto
    next
      case False
      with 2(1) [OF False 2(3)] 2(4,5) show ?thesis by simp
    qed
  qed simp
  have "jobs_within ?W (job_links s) s" by (simp add: jobs_within_def)
  from loop [OF this, of "running_jobs s" "[]"] show ?thesis using assms
    by (cases "finish_loop clk (running_jobs s) [] s"; cases "fst (finish_loop clk (running_jobs s) [] s)")
       (auto simp: finish_jobs_def jobs_within_def)
qed

section \<open>Properties\<close>

text \<open>A running generation and two waiting fills; with contexts of four tokens each only one job fits.\<close>

abbreviation demo_es :: engine_scheduler where
  "demo_es \<equiv> (new_engine_scheduler \<lparr>cfg_max_batch_size = 3, cfg_max_num_batched_tokens = 10, cfg_max_total_tokens = 6, cfg_policy = ''fifo''\<rparr>)
    \<lparr>es_jobs := [(new_generate 0 1 0 (-1) default_sampling_config False)\<lparr>job_context := Some 0\<rparr>,
       (new_fill 0 2 1 (-1) False (Some [1, 2]) None)\<lparr>job_context := Some 1\<rparr>,
       (new_fill 0 3 2 (-1) False (Some [3]) None)\<lparr>job_context := Some 2\<rparr>],
     running_jobs := [0], waiting_jobs := [1, 2],
     task_arrival_time := [(1, 10), (2, 20), (3, 30)], job_arrival_time := [(0, 10), (1, 20), (2, 30)]\<rparr>"

lemma demo_es_ok: "jobs_ok demo_es" "is_fifo demo_es"
  by code_simp+

lemma demo_es_limits: "max_batch_size demo_es = 3" "max_num_batched_tokens demo_es = 10" "max_total_tokens demo_es = 6"
  by code_simp+

lemma demo_es_batch:
  "schedule_jobs (\<lambda>_. 4) (\<lambda>_. 99) demo_es = (Inr [0], snd (schedule_jobs (\<lambda>_. 4) (\<lambda>_. 99) demo_es))"
proof -
  have "fst (schedule_jobs (\<lambda>_. 4) (\<lambda>_. 99) demo_es) = Inr [0]" by code_simp
  then show ?thesis by (metis prod.collapse)
qed

text \<open>
  C13. A batch of the default policy. Some prefix of the waiting jobs is admitted, the candidates are put in
  the order of arrival (of the task, then of the job), and the batch is a prefix of them; the
  rest of the candidates is preempted to the front of the waiting jobs, in reverse order. No
  job is lost or duplicated, and the arrival times stay.
\<close>

theorem fifo_batch:
  assumes "jobs_ok s" and "is_fifo s" and "schedule_jobs clen clk s = (Inr ret, s')"
  shows "\<exists>adm rest pre. waiting_jobs s = adm @ rest \<and> sort_key (arrival s) (running_jobs s @ adm) = ret @ pre \<and>
      running_jobs s' = ret \<and> waiting_jobs s' = rev pre @ rest \<and>
      mset (running_jobs s' @ waiting_jobs s') = mset (running_jobs s @ waiting_jobs s) \<and>
      job_arrival_time s' = job_arrival_time s \<and> task_arrival_time s' = task_arrival_time s"
proof -
  obtain adm rest pre where f: "waiting_jobs s = adm @ rest" "sort_key (arrival s) (running_jobs s @ adm) = ret @ pre"
    "running_jobs s' = ret" "waiting_jobs s' = rev pre @ rest" "same_jobs s s'"
    using fifo_steps [OF assms] .
  have "mset (ret @ pre) = mset (running_jobs s @ adm)" by (metis f(2) mset_sort)
  then have "mset (running_jobs s' @ waiting_jobs s') = mset (running_jobs s @ waiting_jobs s)"
    using f(1,3,4) by (simp add: ac_simps)
  with f show ?thesis by (auto simp: same_jobs_def)
qed

theorem fifo_batch_witness:
  "mset (waiting_jobs (snd (schedule_jobs (\<lambda>_. 4) (\<lambda>_. 99) demo_es))) = {#1, 2#} \<and>
   waiting_jobs (snd (schedule_jobs (\<lambda>_. 4) (\<lambda>_. 99) demo_es)) = [2, 1]"
proof -
  have "waiting_jobs (snd (schedule_jobs (\<lambda>_. 4) (\<lambda>_. 99) demo_es)) = [2, 1]" by code_simp
  then show ?thesis using fifo_batch [OF demo_es_ok demo_es_batch] by auto
qed

text \<open>
  C8. A batch of the default policy stays within the limits of the configuration: at most
  \<^verbatim>\<open>max_batch_size\<close> jobs, at most \<^verbatim>\<open>max_num_batched_tokens\<close> new tokens and at most
  \<^verbatim>\<open>max_total_tokens\<close> tokens in the contexts of its jobs, provided the jobs that were running before
  take one token each (they generate) and respect the first two limits.
\<close>

theorem batch_within_limits:
  assumes "jobs_ok s" and "is_fifo s" and "schedule_jobs clen clk s = (Inr ret, s')"
    and "list_all (\<lambda>j. job_num_tokens (job_at s j) = 1) (running_jobs s)"
    and "int (length (running_jobs s)) \<le> min (max_batch_size s) (max_num_batched_tokens s)" and "0 \<le> max_total_tokens s"
  shows "int (length ret) \<le> max_batch_size s \<and>
    sum_list (map (\<lambda>j. job_num_tokens (job_at s j)) ret) \<le> max_num_batched_tokens s \<and>
    (\<exists>ns. map (\<lambda>j. job_total_tokens clen (job_at s j)) ret = map Inr ns \<and> sum_list ns \<le> max_total_tokens s)"
proof -
  obtain adm rest pre ns where f: "sort_key (arrival s) (running_jobs s @ adm) = ret @ pre"
    "adm \<noteq> [] \<longrightarrow> int (length (running_jobs s @ adm)) \<le> max_batch_size s \<and>
       int (length (running_jobs s)) + sum_list (map (\<lambda>j. job_num_tokens (job_at s j)) adm) \<le> max_num_batched_tokens s"
    "map (\<lambda>j. job_total_tokens clen (job_at s j)) ret = map Inr ns" "ret \<noteq> [] \<longrightarrow> sum_list ns \<le> max_total_tokens s"
    using fifo_steps [OF assms(1-3)] .
  let ?t = "\<lambda>j. job_num_tokens (job_at s j)"
  have ms: "mset (ret @ pre) = mset (running_jobs s @ adm)" by (metis f(1) mset_sort)
  have "length (ret @ pre) = length (running_jobs s @ adm)" using ms by (rule mset_eq_length)
  then have len: "int (length ret) \<le> max_batch_size s" using f(2) assms(5) by (cases "adm = []") auto
  have run: "sum_list (map ?t (running_jobs s)) = int (length (running_jobs s))"
    using assms(4) by (rule sum_list_ones)
  have "sum_list (map ?t (ret @ pre)) = sum_list (map ?t (running_jobs s @ adm))"
    unfolding sum_mset_sum_list [symmetric] mset_map ms by (rule refl)
  moreover have "0 \<le> sum_list (map ?t pre)"
    by (rule sum_list_nonneg) (auto simp: job_num_tokens_def split: primitive.splits option.splits)
  ultimately have "sum_list (map ?t ret) \<le> max_num_batched_tokens s"
    using run f(2) assms(5) by (cases "adm = []") auto
  moreover have "sum_list ns \<le> max_total_tokens s" using f(3,4) assms(6) by (cases "ret = []") auto
  ultimately show ?thesis using len f(3) by blast
qed

theorem batch_within_limits_witness:
  "\<exists>ret s'. schedule_jobs (\<lambda>_. 4) (\<lambda>_. 99) demo_es = (Inr ret, s') \<and> ret = [0] \<and> int (length ret) \<le> 3 \<and>
    sum_list (map (\<lambda>j. job_num_tokens (job_at demo_es j)) ret) \<le> 10 \<and>
    (\<exists>ns. map (\<lambda>j. job_total_tokens (\<lambda>_. 4) (job_at demo_es j)) ret = map Inr ns \<and> sum_list ns \<le> 6)"
proof -
  have "list_all (\<lambda>j. job_num_tokens (job_at demo_es j) = 1) (running_jobs demo_es)"
    "int (length (running_jobs demo_es)) \<le> min (max_batch_size demo_es) (max_num_batched_tokens demo_es)" "0 \<le> max_total_tokens demo_es"
    by code_simp+
  from batch_within_limits [OF demo_es_ok demo_es_batch this] show ?thesis
    using demo_es_batch unfolding demo_es_limits by blast
qed

lemma preempt_loop_total:
  assumes "\<forall>j \<in> set js. \<exists>n. job_total_tokens clen (job_at s j) = Inr n"
  shows "\<exists>new s'. preempt_loop clen js acc tot False s = (Inr new, s')"
  using assms
proof (induction js arbitrary: acc tot)
  case (Cons j js)
  then obtain n where "job_total_tokens clen (job_at s j) = Inr n" by auto
  with Cons show ?case using preempt_rest [of clen js acc tot "preempt j s"] by auto
qed simp

definition schedulable :: "(ctx_ref \<Rightarrow> int) \<Rightarrow> engine_scheduler \<Rightarrow> job_ref \<Rightarrow> bool" where
  "schedulable clen s j \<longleftrightarrow> (\<exists>k. arrival_key s j = Inr k) \<and>
    (\<exists>c. job_context (job_at s j) = Some c \<and> clen c \<le> max_total_tokens s)"

lemma schedule_fifo_total:
  assumes "jobs_ok s" and "is_fifo s" and "list_all (schedulable clen s) (running_jobs s @ waiting_jobs s)"
  shows "\<exists>ret s'. schedule_jobs clen clk s = (Inr ret, s')"
proof -
  let ?n = "int (length (running_jobs s))"
  define s1 where "s1 = fifo_loop clk (waiting_jobs s) ?n ?n s"
  have w: "\<forall>j \<in> set (waiting_jobs s). j < length (es_jobs s)" using assms(1) by (simp add: jobs_ok_def)
  obtain adm where a: "set adm \<subseteq> set (waiting_jobs s)" "same_jobs s s1" "running_jobs s1 = running_jobs s @ adm"
    using fifo_loop_spec [OF refl w, of clk ?n ?n] unfolding s1_def by (metis set_append Un_upper1)
  have ok: "schedulable clen s1 j" if "j \<in> set (running_jobs s1)" for j
  proof -
    have j: "j \<in> set (running_jobs s @ waiting_jobs s)" "j < length (es_jobs s)" using that a(1,3) assms(1) by (auto simp: jobs_ok_def)
    then have "schedulable clen s j" using assms(3) by (auto simp: list_all_iff)
    then obtain k c where "arrival_key s1 j = Inr k" "job_total_tokens clen (job_at s1 j) = Inr (clen c)" "clen c \<le> max_total_tokens s1"
      using same_jobs_at(2,3) [OF a(2) j(2)] a(2) by (auto simp: schedulable_def job_total_tokens_def same_jobs_def)
    then show ?thesis by (auto simp: schedulable_def job_total_tokens_def split: option.splits)
  qed
  let ?s2 = "s1\<lparr>running_jobs := sort_key (arrival s1) (running_jobs s1)\<rparr>"
  have "find (\<lambda>j. isl (arrival_key s1 j)) (running_jobs s1) = None"
    unfolding find_None using ok by (fastforce simp: schedulable_def)
  then have "sort_running s1 = (Inr (), ?s2)" by (simp add: sort_running_def)
  moreover have "\<forall>j \<in> set (running_jobs ?s2). \<exists>n. job_total_tokens clen (job_at ?s2 j) = Inr n"
    using ok by (fastforce simp: schedulable_def job_total_tokens_def)
  then obtain new s3 where "preempt_loop clen (running_jobs ?s2) [] 0 False ?s2 = (Inr new, s3)"
    using preempt_loop_total by blast
  ultimately have "schedule_fifo clen clk s = (Inr new, s3\<lparr>running_jobs := new\<rparr>)"
    by (simp add: schedule_fifo_def Let_def flip: s1_def)
  then show ?thesis using assms(2) by (auto simp: schedule_jobs_def is_fifo_def)
qed

text \<open>
  C23. The engine makes progress under the default policy. If jobs are present, each with a context that fits into
  \<^verbatim>\<open>max_total_tokens\<close> and with recorded arrival times, and the batch limits admit the first waiting job when nothing is running,
  then \<^verbatim>\<open>schedule\<close> returns a batch that is not empty, and its first job arrived no later than
  any running job. A running job that arrived before all other jobs, running and waiting, is the first of the batch: it is not preempted
  (an older waiting job, one preempted before, may take its place).
\<close>

theorem schedule_makes_progress:
  assumes "jobs_ok s" and "is_fifo s" and "list_all (schedulable clen s) (running_jobs s @ waiting_jobs s)"
    and "running_jobs s @ waiting_jobs s \<noteq> []"
    and "running_jobs s = [] \<longrightarrow> 1 \<le> max_batch_size s \<and> job_num_tokens (job_at s (hd (waiting_jobs s))) \<le> max_num_batched_tokens s"
  shows "\<exists>ret s'. schedule_jobs clen clk s = (Inr ret, s') \<and> ret \<noteq> [] \<and>
    list_all (\<lambda>i. arrival s (hd ret) \<le> arrival s i) (running_jobs s) \<and>
    (\<forall>i \<in> set (running_jobs s). (\<forall>k \<in> set (running_jobs s @ waiting_jobs s). k \<noteq> i \<longrightarrow> arrival s i < arrival s k) \<longrightarrow> hd ret = i)"
proof -
  obtain ret s' where sch: "schedule_jobs clen clk s = (Inr ret, s')" using schedule_fifo_total [OF assms(1-3)] by blast
  obtain adm rest pre ns where f: "waiting_jobs s = adm @ rest" "sort_key (arrival s) (running_jobs s @ adm) = ret @ pre"
    "adm = [] \<longrightarrow> rest \<noteq> [] \<longrightarrow> int (length (running_jobs s)) + 1 > max_batch_size s \<or>
       int (length (running_jobs s)) + job_num_tokens (job_at s (hd rest)) > max_num_batched_tokens s"
    "ret = [] \<longrightarrow> pre \<noteq> [] \<longrightarrow> (\<exists>n. job_total_tokens clen (job_at s (hd pre)) = Inr n \<and> n > max_total_tokens s)"
    using fifo_steps [OF assms(1,2) sch] .
  have cand: "running_jobs s @ adm \<noteq> []" using assms(4,5) f(1,3) by auto
  have set: "set (ret @ pre) = set (running_jobs s @ adm)" by (metis f(2) set_sort)
  have ne: "ret \<noteq> []"
  proof
    assume "ret = []"
    then have sp: "set pre = set (running_jobs s @ adm)" using set by simp
    then have pre: "pre \<noteq> []" using cand by (metis set_empty)
    then have "hd pre \<in> set (running_jobs s @ adm)" using sp hd_in_set by blast
    then have hd: "hd pre \<in> set (running_jobs s @ waiting_jobs s)" using f(1) by auto
    have "schedulable clen s (hd pre)" using assms(3) hd unfolding list_all_iff by blast
    then obtain c where "job_context (job_at s (hd pre)) = Some c" "clen c \<le> max_total_tokens s" by (auto simp: schedulable_def)
    with \<open>ret = []\<close> f(4) pre show False by (simp add: job_total_tokens_def)
  qed
  have "sorted (map (arrival s) (ret @ pre))" by (metis f(2) sorted_sort_key)
  then have least: "arrival s (hd ret) \<le> arrival s i" if "i \<in> set (ret @ pre)" for i
    using that ne by (cases ret) auto
  have "hd ret \<in> set (ret @ pre)" using ne by simp
  then have "hd ret \<in> set (running_jobs s @ waiting_jobs s)" using set f(1) by auto
  then have "hd ret = i" if "i \<in> set (running_jobs s)" "\<forall>k \<in> set (running_jobs s @ waiting_jobs s). k \<noteq> i \<longrightarrow> arrival s i < arrival s k" for i
    using least [of i] that set by (metis Un_iff leD set_append)
  then show ?thesis using sch ne set least by (auto simp: list_all_iff)
qed

theorem schedule_makes_progress_witness:
  "\<exists>ret s'. schedule_jobs (\<lambda>_. 4) (\<lambda>_. 99) demo_es = (Inr ret, s') \<and> ret \<noteq> [] \<and> hd ret = 0"
proof -
  have "schedulable (\<lambda>_. 4) demo_es j" if "j \<in> {0, 1, 2}" for j
    using that by (auto simp: schedulable_def arrival_key_def new_generate_def new_fill_def new_job_def new_engine_scheduler_def)
  then have "list_all (schedulable (\<lambda>_. 4) demo_es) (running_jobs demo_es @ waiting_jobs demo_es)" by simp
  moreover have "running_jobs demo_es @ waiting_jobs demo_es \<noteq> []" "running_jobs demo_es \<noteq> []" by simp_all
  moreover have "\<forall>k \<in> set (running_jobs demo_es @ waiting_jobs demo_es). k \<noteq> 0 \<longrightarrow> arrival demo_es 0 < arrival demo_es k"
      "0 \<in> set (running_jobs demo_es)" by code_simp+
  ultimately show ?thesis using schedule_makes_progress [OF demo_es_ok, of "\<lambda>_. 4" "\<lambda>_. 99"] by blast
qed

text \<open>The policy \<^verbatim>\<open>tgi\<close>, which the configuration admits, always raises, after it moved jobs between the lists.\<close>

lemma tgi_raises: "policy s = ''tgi'' \<Longrightarrow> fst (schedule_jobs clen clk s) = Inl AssertionError"
  by (simp add: schedule_jobs_def schedule_tgi_def split: prod.splits)

end
