(* ===== verification/Builtin_Engine.thy ===== *)
theory Builtin_Engine
  imports Engine_Scheduler
begin

text \<open>
  The built-in engine: its requests (\<^verbatim>\<open>engine/builtin/builtin_engine.py\<close>) and one iteration of its
  runner (\<^verbatim>\<open>engine/builtin/builtin_runner.py\<close>, \<^verbatim>\<open>iter_state.py\<close>, and the bookkeeping part of
  \<^verbatim>\<open>xFormersWithBuffer.init_iteration_state\<close> in \<^verbatim>\<open>attn_func.py\<close>). The neural network and its sampler are
  parameters: functions from their inputs to hidden states and tokens. A request that awaits
  its job is two definitions, what happens before the wait and the response after it.
  The main theorem: whatever an engine does, no KV block is in two live contexts, as long as no
  context is freed that a waiting job still uses. The code does not check that, and a run
  shows what happens then.
\<close>

section \<open>State and requests\<close>

record 'h builtin_engine =
  be_scheduler :: engine_scheduler
  be_contexts :: "'h block_store"
  be_block_size :: int
  be_latency :: "rat list"
  be_hidden_size :: int
  be_num_hidden_layers :: int
  be_model_mem :: rat

abbreviation be_job :: "'h builtin_engine \<Rightarrow> job_ref \<Rightarrow> primitive_job" where
  "be_job e j \<equiv> job_at (be_scheduler e) j"

abbreviation be_ctx :: "'h builtin_engine \<Rightarrow> ctx_ref \<Rightarrow> 'h block_context" where
  "be_ctx e c \<equiv> ctx_at (be_contexts e) c"

definition upd_be_job :: "job_ref \<Rightarrow> (primitive_job \<Rightarrow> primitive_job) \<Rightarrow> 'h builtin_engine \<Rightarrow> 'h builtin_engine" where
  "upd_be_job j f e = e\<lparr>be_scheduler := upd_job j f (be_scheduler e)\<rparr>"

definition upd_be_ctx :: "ctx_ref \<Rightarrow> ('h block_context \<Rightarrow> 'h block_context) \<Rightarrow> 'h builtin_engine \<Rightarrow> 'h builtin_engine" where
  "upd_be_ctx c f e = e\<lparr>be_contexts := upd_ctx c f (be_contexts e)\<rparr>"

text \<open>\<^verbatim>\<open>job.context.get_context_len()\<close>.\<close>

definition block_clen :: "'h block_store \<Rightarrow> ctx_ref \<Rightarrow> int" where
  "block_clen s c = the (get_context_len block_this_len (ec_heap s) c)"

definition bind_job :: "job_ref \<Rightarrow> 'h builtin_engine \<Rightarrow> (unit, 'h builtin_engine) py" where
  "bind_job j e =
    py_bind (py_lift (\<lambda>s. e\<lparr>be_contexts := s\<rparr>)
      (bind_job_context (new_block_context (be_block_size e)) (job_context_id (be_job e j)) (job_parent_context_id (be_job e j))
         (be_contexts e))) (\<lambda>c e. py_return () (upd_be_job j (\<lambda>x. x\<lparr>job_context := Some c\<rparr>) e))"

text \<open>\<^verbatim>\<open>_add_job\<close>, for a job object that was just created.\<close>

definition be_add_job :: "int \<Rightarrow> primitive_job \<Rightarrow> 'h builtin_engine \<Rightarrow> (job_ref, 'h builtin_engine) py" where
  "be_add_job now job e =
    (let j = length (es_jobs (be_scheduler e));
         e = e\<lparr>be_scheduler := (be_scheduler e)\<lparr>es_jobs := es_jobs (be_scheduler e) @ [job]\<rparr>\<rparr>;
         e = e\<lparr>be_scheduler := add_job now j (be_scheduler e)\<rparr>
     in py_bind (bind_job j e) (\<lambda>_ e. py_return j e))"

definition fill_request ::
  "int \<Rightarrow> int \<Rightarrow> int \<Rightarrow> int \<Rightarrow> int \<Rightarrow> bool \<Rightarrow> int list option \<Rightarrow> 'h builtin_engine \<Rightarrow> (job_ref, 'h builtin_engine) py" where
  "fill_request now sid tid cid pid flag toks = be_add_job now (new_fill sid tid cid pid flag toks None)"

definition fill_response :: "job_ref \<Rightarrow> 'h builtin_engine \<Rightarrow> (int, 'h builtin_engine) py" where
  "fill_response j e =
    (case primitive_of (be_job e j) of
       Fill (Some toks) _ \<Rightarrow> py_return (int (length toks)) e
     | Fill None _ \<Rightarrow> py_raise TypeError e
     | Generate _ _ _ _ \<Rightarrow> py_raise AttributeError e)"

text \<open>\<^verbatim>\<open>SamplingConfig(**payload["sampling_config"])\<close> raises for an unknown field.\<close>

definition generate_request ::
  "int \<Rightarrow> int \<Rightarrow> int \<Rightarrow> int \<Rightarrow> int \<Rightarrow> (string, json) dict \<Rightarrow> bool \<Rightarrow> 'h builtin_engine \<Rightarrow> (job_ref, 'h builtin_engine) py" where
  "generate_request now sid tid cid pid sampling flag e =
    (case sampling_config_of_dict sampling default_sampling_config of
       None \<Rightarrow> py_raise TypeError e
     | Some cfg \<Rightarrow> be_add_job now (new_generate sid tid cid pid cfg flag) e)"

definition generate_response :: "job_ref \<Rightarrow> 'h builtin_engine \<Rightarrow> (int list, 'h builtin_engine) py" where
  "generate_response j e =
    (case primitive_of (be_job e j) of
       Generate cfg queue body_text n \<Rightarrow>
         py_return queue (upd_be_job j (\<lambda>x. x\<lparr>primitive_of := Generate cfg [] body_text n\<rparr>) e)
     | Fill _ _ \<Rightarrow> py_raise AttributeError e)"

definition be_free_context :: "int \<Rightarrow> 'h builtin_engine \<Rightarrow> (int, 'h builtin_engine) py" where
  "be_free_context cid e =
    (if list_ex (\<lambda>j. job_context_id (be_job e j) = cid) (running_jobs (be_scheduler e)) then py_raise RuntimeError e
     else py_lift (\<lambda>s. e\<lparr>be_contexts := s\<rparr>) (free_block_context cid (be_contexts e)))"

definition UNKNOWN_DATA_FIELD :: rat where
  "UNKNOWN_DATA_FIELD = -1"

text \<open>\<open>profiled\<close> is what the memory trackers measure, asked for with \<^verbatim>\<open>profile\<close>.\<close>

definition be_get_runtime_info :: "(rat \<times> rat \<times> rat) option \<Rightarrow> 'h builtin_engine \<Rightarrow> engine_runtime_info" where
  "be_get_runtime_info profiled e =
    (let cached = get_num_cached_tokens_in block_this_len (be_contexts e);
         (cpu, alloc, tens) = (case profiled of Some p \<Rightarrow> p | None \<Rightarrow> (UNKNOWN_DATA_FIELD, UNKNOWN_DATA_FIELD, UNKNOWN_DATA_FIELD))
     in \<lparr>num_cached_tokens = cached,
         num_max_blocks = get_history_max_allocated_num (kv_cache_manager (be_contexts e)),
         num_running_jobs = num_running_jobs_of (be_scheduler e),
         num_total_jobs = num_total_jobs_of (be_scheduler e),
         cache_mem = of_int (cached * be_hidden_size e * be_num_hidden_layers e * 2) / 1024 / 1024,
         model_mem = be_model_mem e,
         profiled_cpu_mem = cpu, profiled_gpu_tensor_mem = tens, profiled_gpu_allocate_mem = alloc,
         recent_average_latency = get_average_latency (be_latency e)\<rparr>)"

section \<open>One iteration\<close>

record iteration_state =
  num_fill_tokens :: "int list"
  generation_sampling_config :: "sampling_config list"
  context_index :: "int list"
  allocated_index :: "int list"
  q_lens :: "int list"
  kv_lens :: "int list"

definition num_fill_jobs :: "iteration_state \<Rightarrow> nat" where
  "num_fill_jobs it = length (num_fill_tokens it)"

definition num_generation_jobs :: "iteration_state \<Rightarrow> nat" where
  "num_generation_jobs it = length (generation_sampling_config it)"

definition num_total_fill_tokens :: "iteration_state \<Rightarrow> int" where
  "num_total_fill_tokens it = sum_list (num_fill_tokens it)"

text \<open>The network and the sampler.\<close>

record 'h network =
  sampler :: "'h list \<Rightarrow> sampling_config list \<Rightarrow> int list"
  forward :: "int list \<Rightarrow> int list \<Rightarrow> iteration_state \<Rightarrow> 'h list \<times> int list"

text \<open>
  Blocks for the new tokens of a job. A generation job whose context was just filled hands its
  hidden state to the first sampling. \<open>None\<close> for the hidden state of an endless walk is Python's
  \<^verbatim>\<open>RecursionError\<close>, a \<^verbatim>\<open>RuntimeError\<close>.
\<close>

definition allocate_for_job ::
  "job_ref \<Rightarrow> ctx_ref \<Rightarrow> ('h \<times> sampling_config \<times> job_ref) list \<Rightarrow> 'h builtin_engine \<Rightarrow> (('h \<times> sampling_config \<times> job_ref) list, 'h builtin_engine) py" where
  "allocate_for_job j c firsts e =
    (case primitive_of (be_job e j) of
       Fill None _ \<Rightarrow> py_raise TypeError e
     | Fill (Some toks) _ \<Rightarrow>
         (let e = upd_be_ctx c (\<lambda>x. x\<lparr>bc_token_ids := bc_token_ids x @ toks\<rparr>) e
          in py_bind (py_lift (\<lambda>s. e\<lparr>be_contexts := s\<rparr>) (allocate_blocks c (int (length toks)) (be_contexts e)))
               (\<lambda>_ e. py_return firsts e))
     | Generate cfg _ _ _ \<Rightarrow>
         py_bind (py_lift (\<lambda>s. e\<lparr>be_contexts := s\<rparr>) (allocate_blocks c 1 (be_contexts e))) (\<lambda>_ e.
           case get_last_hidden_state (ec_heap (be_contexts e)) c of
             None \<Rightarrow> py_raise RuntimeError e
           | Some (Inl err) \<Rightarrow> py_raise err e
           | Some (Inr None) \<Rightarrow> py_return firsts e
           | Some (Inr (Some h)) \<Rightarrow>
               py_return (firsts @ [(h, cfg, j)]) (upd_be_ctx c (\<lambda>x. x\<lparr>last_hidden_state := None\<rparr>) e)))"

definition prepare_job ::
  "job_ref \<Rightarrow> ('h \<times> sampling_config \<times> job_ref) list \<Rightarrow> 'h builtin_engine \<Rightarrow> (('h \<times> sampling_config \<times> job_ref) list, 'h builtin_engine) py" where
  "prepare_job j firsts e =
    py_bind (if job_context (be_job e j) = None then bind_job j e else py_return () e) (\<lambda>_ e.
      case job_context (be_job e j) of
        None \<Rightarrow> py_raise AttributeError e
      | Some c \<Rightarrow> allocate_for_job j c firsts e)"

fun prepare_jobs ::
  "job_ref list \<Rightarrow> ('h \<times> sampling_config \<times> job_ref) list \<Rightarrow> 'h builtin_engine \<Rightarrow> (('h \<times> sampling_config \<times> job_ref) list, 'h builtin_engine) py" where
  "prepare_jobs [] firsts e = py_return firsts e"
| "prepare_jobs (j # js) firsts e = py_bind (prepare_job j firsts e) (\<lambda>firsts e. prepare_jobs js firsts e)"

definition put_token :: "job_ref \<Rightarrow> int \<Rightarrow> 'h builtin_engine \<Rightarrow> (unit, 'h builtin_engine) py" where
  "put_token j t e =
    (case job_context (be_job e j) of
       None \<Rightarrow> py_raise AttributeError e
     | Some c \<Rightarrow> py_return () (upd_be_job j (\<lambda>x. x\<lparr>primitive_of := put_token_job t (primitive_of x)\<rparr>) (upd_be_ctx c (block_push_token_id t) e)))"

fun put_tokens :: "job_ref list \<Rightarrow> int list \<Rightarrow> 'h builtin_engine \<Rightarrow> (unit, 'h builtin_engine) py" where
  "put_tokens [] ts e = py_return () e"
| "put_tokens (j # js) [] e = py_raise IndexError e"
| "put_tokens (j # js) (t # ts) e = py_bind (put_token j t e) (\<lambda>_ e. put_tokens js ts e)"

text \<open>The loop of \<^verbatim>\<open>init_iteration_state\<close>; \<^verbatim>\<open>ids[-n:]\<close> is the whole list for \<open>n = 0\<close>.\<close>

fun init_iteration_state :: "'h builtin_engine \<Rightarrow> job_ref list \<Rightarrow> iteration_state \<Rightarrow> py_error + iteration_state" where
  "init_iteration_state e [] it = Inr it"
| "init_iteration_state e (j # js) it =
    (let num_tokens = (case primitive_of (be_job e j) of Fill (Some toks) _ \<Rightarrow> length toks | _ \<Rightarrow> 1);
         it = (case primitive_of (be_job e j) of
                 Fill _ _ \<Rightarrow> it\<lparr>num_fill_tokens := num_fill_tokens it @ [int num_tokens]\<rparr>
               | Generate cfg _ _ _ \<Rightarrow> it\<lparr>generation_sampling_config := generation_sampling_config it @ [cfg]\<rparr>)
     in case job_context (be_job e j) of
          None \<Rightarrow> Inl AttributeError
        | Some c \<Rightarrow>
           (case get_context_block_ids (ec_heap (be_contexts e)) c of
              None \<Rightarrow> Inl RuntimeError
            | Some ids \<Rightarrow>
               init_iteration_state e js (it\<lparr>
                 context_index := context_index it @ ids,
                 allocated_index := allocated_index it @ (if num_tokens = 0 then ids else drop (length ids - num_tokens) ids),
                 q_lens := q_lens it @ [int num_tokens],
                 kv_lens := kv_lens it @ [block_clen (be_contexts e) c]\<rparr>)))"

fun convert_inputs :: "'h builtin_engine \<Rightarrow> job_ref list \<Rightarrow> int list \<Rightarrow> int list \<Rightarrow> py_error + int list \<times> int list" where
  "convert_inputs e [] ids pos = Inr (ids, pos)"
| "convert_inputs e (j # js) ids pos =
    (case job_context (be_job e j) of
       None \<Rightarrow> Inl AttributeError
     | Some c \<Rightarrow>
        (let context_len = block_clen (be_contexts e) c in
         case primitive_of (be_job e j) of
           Fill None _ \<Rightarrow> Inl TypeError
         | Fill (Some toks) _ \<Rightarrow>
             convert_inputs e js (ids @ toks) (pos @ [context_len - int (length toks)..context_len - 1])
         | Generate _ _ _ _ \<Rightarrow>
             if bc_token_ids (be_ctx e c) = [] then Inl IndexError
             else convert_inputs e js (ids @ [last (bc_token_ids (be_ctx e c))]) (pos @ [context_len - 1])))"

text \<open>The update after the forward pass, for the job at position \<open>i\<close>.\<close>

definition update_job :: "'h list \<Rightarrow> int list \<Rightarrow> nat \<Rightarrow> nat \<times> job_ref \<Rightarrow> 'h builtin_engine \<Rightarrow> (unit, 'h builtin_engine) py" where
  "update_job hidden next_tokens fills ij e =
    (let (i, j) = ij in
     case job_context (be_job e j) of
       None \<Rightarrow> py_raise AssertionError e
     | Some c \<Rightarrow>
        (case primitive_of (be_job e j) of
           Fill _ _ \<Rightarrow>
             if i < length hidden
             then py_return () (upd_be_job j (\<lambda>x. x\<lparr>finish_event := True\<rparr>) (upd_be_ctx c (\<lambda>x. x\<lparr>last_hidden_state := Some (hidden ! i)\<rparr>) e))
             else py_raise IndexError e
         | Generate cfg _ _ _ \<Rightarrow>
             if fills \<le> i \<and> i - fills < length next_tokens then
               py_bind (put_token j (next_tokens ! (i - fills)) e) (\<lambda>_ e.
               py_bind (block_get_last_token_id (be_ctx e c) e) (\<lambda>t e.
                 case check_stop t cfg (gen_len (primitive_of (be_job e j))) of
                   Inl err \<Rightarrow> py_raise err e
                 | Inr stop \<Rightarrow> py_return () (if stop then upd_be_job j (\<lambda>x. x\<lparr>finish_event := True\<rparr>) e else e)))
             else py_raise IndexError e))"

definition run_iter :: "'h network \<Rightarrow> job_ref list \<Rightarrow> 'h builtin_engine \<Rightarrow> (unit, 'h builtin_engine) py" where
  "run_iter net js0 e =
    (let js = sort_key (\<lambda>j. is_generate (be_job e j)) js0 in
     py_bind (prepare_jobs js [] e) (\<lambda>firsts e.
     py_bind (if firsts \<noteq> [] then put_tokens (map (\<lambda>(_, _, j). j) firsts)
                 (sampler net (map (\<lambda>(h, _, _). h) firsts) (map (\<lambda>(_, cfg, _). cfg) firsts)) e
              else py_return () e) (\<lambda>_ e.
     case init_iteration_state e js \<lparr>num_fill_tokens = [], generation_sampling_config = [], context_index = [],
            allocated_index = [], q_lens = [], kv_lens = []\<rparr> of
       Inl err \<Rightarrow> py_raise err e
     | Inr it \<Rightarrow>
        (case convert_inputs e js [] [] of
           Inl err \<Rightarrow> py_raise err e
         | Inr (input_ids, input_positions) \<Rightarrow>
            (let (hidden, next_tokens) = forward net input_ids input_positions it in
             if length hidden + length next_tokens \<noteq> length js then py_raise AssertionError e
             else py_for (update_job hidden next_tokens (num_fill_jobs it)) (List.enumerate 0 js) e)))))"

text \<open>\<open>e2e\<close> is the measured time of the iteration.\<close>

definition be_engine_iter :: "'h network \<Rightarrow> (job_ref \<Rightarrow> int) \<Rightarrow> rat \<Rightarrow> 'h builtin_engine \<Rightarrow> (unit, 'h builtin_engine) py" where
  "be_engine_iter net clk e2e e =
    (if scheduler_is_empty (be_scheduler e) then py_return () e
     else
       py_bind (py_lift (\<lambda>s. e\<lparr>be_scheduler := s\<rparr>) (schedule_jobs (block_clen (be_contexts e)) clk (be_scheduler e))) (\<lambda>js e.
       py_bind (run_iter net js e) (\<lambda>_ e.
       (let e = e\<lparr>be_latency := add_latency e2e (be_latency e)\<rparr>
        in py_lift (\<lambda>s. e\<lparr>be_scheduler := s\<rparr>) (finish_jobs clk (be_scheduler e))))))"

section \<open>Engines keep their KV blocks apart\<close>

text \<open>
  The contexts of an engine go through \<^const>\<open>kv_reach\<close>, and every job of \<open>W\<close> (among them the waiting and
  running jobs) that is bound is bound to a live context with the job's context id.
\<close>

abbreviation be_jobs :: "'h builtin_engine \<Rightarrow> job_ref set" where
  "be_jobs e \<equiv> set (waiting_jobs (be_scheduler e) @ running_jobs (be_scheduler e))"

definition be_ok :: "nat \<Rightarrow> int \<Rightarrow> job_ref set \<Rightarrow> 'h builtin_engine \<Rightarrow> bool" where
  "be_ok k n W e \<longleftrightarrow> be_block_size e = int k \<and> be_jobs e \<subseteq> W \<and>
    (\<exists>L. kv_reach k n (be_contexts e) L \<and>
      (\<forall>j \<in> W. j < length (es_jobs (be_scheduler e)) \<and>
         (\<forall>c. job_context (be_job e j) = Some c \<longrightarrow> c \<in> L \<and> ctx_ids (be_contexts e) ! c = job_context_id (be_job e j))))"

lemma be_okI:
  assumes "be_block_size e = int k" and "be_jobs e \<subseteq> W" and "kv_reach k n (be_contexts e) L" and "\<And>j. j \<in> W \<Longrightarrow> j < length (es_jobs (be_scheduler e))"
    and "\<And>j c. j \<in> W \<Longrightarrow> job_context (be_job e j) = Some c \<Longrightarrow> c \<in> L \<and> ctx_ids (be_contexts e) ! c = job_context_id (be_job e j)"
  shows "be_ok k n W e"
  using assms unfolding be_ok_def by blast

lemma be_okE:
  assumes "be_ok k n W e"
  obtains L where "be_block_size e = int k" "be_jobs e \<subseteq> W" "kv_reach k n (be_contexts e) L"
    "\<forall>j \<in> W. j < length (es_jobs (be_scheduler e)) \<and>
       (\<forall>c. job_context (be_job e j) = Some c \<longrightarrow> c \<in> L \<and> ctx_ids (be_contexts e) ! c = job_context_id (be_job e j))"
  using assms unfolding be_ok_def by blast

lemma be_ok_sched:
  assumes "be_ok k n W e" and "W' \<subseteq> W" and "jobs_within W' (job_links (be_scheduler e)) s'"
  shows "be_ok k n W' (e\<lparr>be_scheduler := s'\<rparr>)"
proof -
  have links: "job_links s' = job_links (be_scheduler e)" and sub: "set (waiting_jobs s' @ running_jobs s') \<subseteq> W'"
    using assms(3) by (simp_all add: jobs_within_def)
  have len: "length (es_jobs s') = length (es_jobs (be_scheduler e))" using links by (metis length_map)
  have "job_context (job_at s' j) = job_context (be_job e j)" "job_context_id (job_at s' j) = job_context_id (be_job e j)"
    if "j < length (es_jobs (be_scheduler e))" for j
    using arg_cong [OF links, of "\<lambda>l. l ! j"] that len by simp_all
  note same = this
  obtain L where L: "be_block_size e = int k" "be_jobs e \<subseteq> W" "kv_reach k n (be_contexts e) L"
      "\<forall>j \<in> W. j < length (es_jobs (be_scheduler e)) \<and>
         (\<forall>c. job_context (be_job e j) = Some c \<longrightarrow> c \<in> L \<and> ctx_ids (be_contexts e) ! c = job_context_id (be_job e j))"
    using assms(1) by (rule be_okE)
  show ?thesis
  proof (rule be_okI [of _ k W' n L])
    fix j c
    assume j: "j \<in> W'" "job_context (be_job (e\<lparr>be_scheduler := s'\<rparr>) j) = Some c"
    have "j \<in> W" using j(1) assms(2) by blast
    then show "c \<in> L \<and> ctx_ids (be_contexts (e\<lparr>be_scheduler := s'\<rparr>)) ! c = job_context_id (be_job (e\<lparr>be_scheduler := s'\<rparr>) j)"
      using L(4) same [of j] j(2) by simp
  qed (use L assms(2) len sub in auto)
qed

lemma be_ok_contexts:
  assumes "be_ok k n W e" and "\<exists>xs. ctx_ids s' = ctx_ids (be_contexts e) @ xs"
    and "\<And>L. kv_reach k n (be_contexts e) L \<Longrightarrow> \<exists>L'. L \<subseteq> L' \<and> kv_reach k n s' L'"
  shows "be_ok k n W (e\<lparr>be_contexts := s'\<rparr>)"
proof -
  obtain L where L: "kv_reach k n (be_contexts e) L"
      "\<forall>j \<in> W. j < length (es_jobs (be_scheduler e)) \<and>
         (\<forall>c. job_context (be_job e j) = Some c \<longrightarrow> c \<in> L \<and> ctx_ids (be_contexts e) ! c = job_context_id (be_job e j))"
    using assms(1) by (auto simp: be_ok_def)
  obtain L' where L': "L \<subseteq> L'" "kv_reach k n s' L'" using assms(3) [OF L(1)] by blast
  have lt: "c < length (ec_heap (be_contexts e))" if "c \<in> L" for c
    using kv_reach_inv [OF L(1)] that by (auto simp: kv_inv_def)
  have "ctx_ids s' ! c = ctx_ids (be_contexts e) ! c" if "c \<in> L" for c
    using assms(2) lt [OF that] by (auto simp: nth_append)
  note same = this
  show ?thesis
  proof (rule be_okI [of _ k W n L'])
    show "be_block_size (e\<lparr>be_contexts := s'\<rparr>) = int k" "be_jobs (e\<lparr>be_contexts := s'\<rparr>) \<subseteq> W"
      using assms(1) by (simp_all add: be_ok_def)
  qed (use L L' same in auto)
qed

lemma be_ok_upd_job:
  assumes "be_ok k n W e" and "\<And>x. job_context (f x) = job_context x" and "\<And>x. job_context_id (f x) = job_context_id x"
  shows "be_ok k n W (upd_be_job j f e)"
proof -
  have "jobs_within W (job_links (be_scheduler e)) (upd_job j f (be_scheduler e))"
    using assms(1) upd_job_links [OF assms(2,3), of j "be_scheduler e"] by (simp add: jobs_within_def be_ok_def) (simp add: upd_job_def)
  then show ?thesis unfolding upd_be_job_def by (rule be_ok_sched [OF assms(1) order_refl])
qed

lemma be_ok_put:
  assumes "be_ok k n W e" and "\<And>c. f c = c\<lparr>bc_token_ids := ts c, last_hidden_state := hs c\<rparr>"
  shows "be_ok k n W (upd_be_ctx r f e)"
  unfolding upd_be_ctx_def
proof (rule be_ok_contexts [OF assms(1)])
  show "\<exists>xs. ctx_ids (upd_ctx r f (be_contexts e)) = ctx_ids (be_contexts e) @ xs" using ctx_ids_upd [of f r "be_contexts e"] assms(2) by simp
  show "\<exists>L'. L \<subseteq> L' \<and> kv_reach k n (upd_ctx r f (be_contexts e)) L'" if "kv_reach k n (be_contexts e) L" for L
    using kv_reach_put [OF that assms(2)] by blast
qed

lemma be_ok_allocate:
  assumes ok: "be_ok k n W e" and "j \<in> W" and "job_context (be_job e j) = Some c"
  shows "be_ok k n W (e\<lparr>be_contexts := snd (allocate_blocks c m (be_contexts e))\<rparr>)"
proof -
  obtain L where L: "kv_reach k n (be_contexts e) L" "c \<in> L"
    and rest: "\<forall>j \<in> W. j < length (es_jobs (be_scheduler e)) \<and>
         (\<forall>c. job_context (be_job e j) = Some c \<longrightarrow> c \<in> L \<and> ctx_ids (be_contexts e) ! c = job_context_id (be_job e j))"
    using assms by (auto simp: be_ok_def)
  have "kv_reach k n (snd (allocate_blocks c m (be_contexts e))) L" by (rule kv_reach.alloc [OF L surjective_pairing])
  moreover have "ctx_ids (snd (allocate_blocks c m (be_contexts e))) = ctx_ids (be_contexts e)"
    by (simp add: allocate_blocks_def allocate_loop_ids)
  ultimately show ?thesis using ok rest by (auto simp: be_ok_def)
qed

lemma be_ok_bind_job:
  assumes ok: "be_ok k n W e" and j: "j \<in> W"
  shows "be_ok k n W (snd (bind_job j e))"
proof -
  let ?cid = "job_context_id (be_job e j)" and ?pid = "job_parent_context_id (be_job e j)"
  have bs: "be_block_size e = int k" and jlt: "j < length (es_jobs (be_scheduler e))" using ok j by (auto simp: be_ok_def)
  obtain res s' where b: "bind_job_context (new_block_context (int k)) ?cid ?pid (be_contexts e) = (res, s')" by fastforce
  have ids: "\<exists>xs. ctx_ids s' = ctx_ids (be_contexts e) @ xs"
    using bind_job_context_ids [of "int k" ?cid ?pid "be_contexts e"] b by simp
  show ?thesis
  proof (cases res)
    case (Inl err)
    have "kv_reach k n s' L" if "kv_reach k n (be_contexts e) L" for L
      using kv_reach.bind_fail [OF that] b Inl by simp
    then have "be_ok k n W (e\<lparr>be_contexts := s'\<rparr>)" by (intro be_ok_contexts [OF ok ids]) blast
    with b Inl bs show ?thesis by (simp add: bind_job_def)
  next
    case (Inr c)
    have step: "kv_reach k n s' (insert c L)" if "kv_reach k n (be_contexts e) L" for L
      using kv_reach.bind [OF that] b Inr by blast
    have "be_ok k n W (e\<lparr>be_contexts := s'\<rparr>)" by (rule be_ok_contexts [OF ok ids]) (use step in blast)
    then obtain L where "kv_reach k n (be_contexts (e\<lparr>be_contexts := s'\<rparr>)) L"
         "\<forall>j \<in> W. j < length (es_jobs (be_scheduler (e\<lparr>be_contexts := s'\<rparr>))) \<and>
            (\<forall>c. job_context (be_job (e\<lparr>be_contexts := s'\<rparr>) j) = Some c \<longrightarrow> c \<in> L \<and>
               ctx_ids (be_contexts (e\<lparr>be_contexts := s'\<rparr>)) ! c = job_context_id (be_job (e\<lparr>be_contexts := s'\<rparr>) j))"
      by (rule be_okE)
    then have L: "kv_reach k n s' L" "\<forall>j \<in> W. j < length (es_jobs (be_scheduler e)) \<and>
        (\<forall>c. job_context (be_job e j) = Some c \<longrightarrow> c \<in> L \<and> ctx_ids s' ! c = job_context_id (be_job e j))" by simp_all
    obtain L0 where L0: "kv_reach k n (be_contexts e) L0" using ok by (auto simp: be_ok_def)
    have "map_of (ec_map s') ?cid = Some c" using bind_job_context_inv [OF kv_reach_inv [OF L0] b] Inr by simp
    then have "(?cid, c) \<in> set (ec_map s')" by (rule map_of_SomeD)
    then have "c \<in> L" "ll_context_id (ctx_at s' c) = ?cid" "c < length (ec_heap s')"
      using kv_reach_inv [OF L(1)] by (auto simp: kv_inv_def)
    note c = this
    have "be_ok k n W (upd_be_job j (\<lambda>x. x\<lparr>job_context := Some c\<rparr>) (e\<lparr>be_contexts := s'\<rparr>))"
    proof (rule be_okI [of _ k W n L])
      fix i d
      assume i: "i \<in> W" "job_context (be_job (upd_be_job j (\<lambda>x. x\<lparr>job_context := Some c\<rparr>) (e\<lparr>be_contexts := s'\<rparr>)) i) = Some d"
      show "d \<in> L \<and> ctx_ids (be_contexts (upd_be_job j (\<lambda>x. x\<lparr>job_context := Some c\<rparr>) (e\<lparr>be_contexts := s'\<rparr>))) ! d =
          job_context_id (be_job (upd_be_job j (\<lambda>x. x\<lparr>job_context := Some c\<rparr>) (e\<lparr>be_contexts := s'\<rparr>)) i)"
        using i L(2) c jlt by (cases "i = j") (simp_all add: upd_be_job_def upd_job_def)
    qed (use L(1,2) bs ok in \<open>simp_all add: upd_be_job_def upd_job_def be_ok_def\<close>)
    with b Inr bs show ?thesis by (simp add: bind_job_def)
  qed
qed

lemma be_ok_allocate_for_job:
  assumes ok: "be_ok k n W e" and j: "j \<in> W" and c: "job_context (be_job e j) = Some c"
  shows "be_ok k n W (snd (allocate_for_job j c firsts e))"
proof (cases "primitive_of (be_job e j)")
  case (Fill toks body_text)
  show ?thesis
  proof (cases toks)
    case None
    with Fill ok show ?thesis by (simp add: allocate_for_job_def)
  next
    case (Some ts)
    let ?e = "upd_be_ctx c (\<lambda>x. x\<lparr>bc_token_ids := bc_token_ids x @ ts\<rparr>) e"
    have "be_ok k n W ?e"
      by (rule be_ok_put [OF ok, where ts = "\<lambda>x. bc_token_ids x @ ts" and hs = last_hidden_state]) simp
    then have "be_ok k n W (?e\<lparr>be_contexts := snd (allocate_blocks c (int (length ts)) (be_contexts ?e))\<rparr>)"
      by (rule be_ok_allocate [OF _ j]) (simp add: c upd_be_ctx_def)
    then show ?thesis using Fill Some
      by (cases "allocate_blocks c (int (length ts)) (be_contexts ?e)";
          cases "fst (allocate_blocks c (int (length ts)) (be_contexts ?e))") (auto simp: allocate_for_job_def Let_def)
  qed
next
  case (Generate cfg queue body_text m)
  obtain res s' where al: "allocate_blocks c 1 (be_contexts e) = (res, s')" by fastforce
  let ?e = "e\<lparr>be_contexts := s'\<rparr>"
  have e: "be_ok k n W ?e" using be_ok_allocate [OF ok j c, of 1] al by simp
  have e2: "be_ok k n W (upd_be_ctx c (\<lambda>x. x\<lparr>last_hidden_state := None\<rparr>) ?e)"
    by (rule be_ok_put [OF e, where ts = bc_token_ids and hs = "\<lambda>_. None"]) simp
  show ?thesis
  proof (cases res)
    case (Inl err)
    with e al Generate show ?thesis by (simp add: allocate_for_job_def)
  next
    case (Inr u)
    then have "allocate_for_job j c firsts e =
      (case get_last_hidden_state (ec_heap s') c of
             None \<Rightarrow> py_raise RuntimeError ?e
           | Some (Inl err) \<Rightarrow> py_raise err ?e
           | Some (Inr None) \<Rightarrow> py_return firsts ?e
           | Some (Inr (Some h)) \<Rightarrow> py_return (firsts @ [(h, cfg, j)]) (upd_be_ctx c (\<lambda>x. x\<lparr>last_hidden_state := None\<rparr>) ?e))"
      using al Generate by (simp add: allocate_for_job_def)
    then show ?thesis using e e2 by (simp split: option.split sum.split)
  qed
qed

lemma be_ok_prepare_job:
  assumes ok: "be_ok k n W e" and j: "j \<in> W"
  shows "be_ok k n W (snd (prepare_job j firsts e))"
  unfolding prepare_job_def
proof (rule py_bind_snd [where P = "be_ok k n W"])
  let ?b = "if job_context (be_job e j) = None then bind_job j e else py_return () e"
  have b: "be_ok k n W (snd ?b)" using be_ok_bind_job [OF assms] ok by simp
  show "be_ok k n W t" if "?b = (Inl err, t)" for err t using b unfolding that by simp
  fix u t
  assume t: "?b = (Inr u, t)"
  have "be_ok k n W t" using b unfolding t by simp
  then show "be_ok k n W (snd (case job_context (be_job t j) of None \<Rightarrow> py_raise AttributeError t | Some c \<Rightarrow> allocate_for_job j c firsts t))"
    using be_ok_allocate_for_job [OF _ j] by (auto split: option.splits)
qed

lemma be_ok_prepare_jobs: "be_ok k n W e \<Longrightarrow> set js \<subseteq> W \<Longrightarrow> be_ok k n W (snd (prepare_jobs js firsts e))"
proof (induction js arbitrary: firsts e)
  case (Cons j js)
  obtain res t where t: "prepare_job j firsts e = (res, t)" by fastforce
  then have "be_ok k n W t" using be_ok_prepare_job [OF Cons.prems(1), of j firsts] Cons.prems(2) by simp
  with Cons t show ?case by (cases res) auto
qed simp

lemma be_ok_put_token: "be_ok k n W e \<Longrightarrow> be_ok k n W (snd (put_token j t e))"
proof (cases "job_context (be_job e j)")
  case (Some c)
  assume ok: "be_ok k n W e"
  have "be_ok k n W (upd_be_ctx c (block_push_token_id t) e)"
    by (rule be_ok_put [OF ok, where ts = "\<lambda>x. bc_token_ids x @ [t]" and hs = last_hidden_state]) (simp add: block_push_token_id_def)
  then have "be_ok k n W (upd_be_job j (\<lambda>x. x\<lparr>primitive_of := put_token_job t (primitive_of x)\<rparr>) (upd_be_ctx c (block_push_token_id t) e))"
    by (rule be_ok_upd_job) simp_all
  with Some show ?thesis by (simp add: put_token_def)
qed (simp add: put_token_def)

lemma be_ok_put_tokens: "be_ok k n W e \<Longrightarrow> be_ok k n W (snd (put_tokens js ts e))"
proof (induction js ts e rule: put_tokens.induct)
  case (3 j js t ts e)
  obtain res e' where e': "put_token j t e = (res, e')" by fastforce
  then have "be_ok k n W e'" using be_ok_put_token [OF 3(2), of j t] by simp
  with 3 e' show ?case by (cases res) auto
qed simp_all

lemma be_ok_update_job:
  assumes ok: "be_ok k n W e"
  shows "be_ok k n W (snd (update_job hidden next_tokens fills ij e))"
proof -
  obtain i j where ij: "ij = (i, j)" by fastforce
  have fin: "be_ok k n W (upd_be_job j (\<lambda>x. x\<lparr>finish_event := True\<rparr>) t)" if "be_ok k n W t" for t :: "'a builtin_engine"
    by (rule be_ok_upd_job [OF that]) simp_all
  show ?thesis
  proof (cases "job_context (be_job e j)")
    case None
    with ok ij show ?thesis by (simp add: update_job_def)
  next
    case (Some c)
    have "be_ok k n W (upd_be_ctx c (\<lambda>x. x\<lparr>last_hidden_state := Some (hidden ! i)\<rparr>) e)"
      by (rule be_ok_put [OF ok, where ts = bc_token_ids and hs = "\<lambda>_. Some (hidden ! i)"]) simp
    note hid = fin [OF this]
    obtain res t where t: "put_token j (next_tokens ! (i - fills)) e = (res, t)" by fastforce
    then have okt: "be_ok k n W t" using be_ok_put_token [OF ok, of j] by (metis snd_conv)
    have "be_ok k n W (snd (py_bind (block_get_last_token_id (be_ctx t c) t) (\<lambda>tok e.
         case check_stop tok cfg (gen_len (primitive_of (be_job e j))) of
           Inl err \<Rightarrow> py_raise err e
         | Inr stop \<Rightarrow> py_return () (if stop then upd_be_job j (\<lambda>x. x\<lparr>finish_event := True\<rparr>) e else e))))" for cfg
      using okt fin [OF okt] by (auto simp: block_get_last_token_id_def split: sum.split)
    then show ?thesis using ok hid okt t Some ij
      by (cases "primitive_of (be_job e j)"; cases res) (auto simp: update_job_def)
  qed
qed

lemma be_ok_run_iter:
  assumes ok: "be_ok k n W e" and js: "set js0 \<subseteq> W"
  shows "be_ok k n W (snd (run_iter net js0 e))"
proof -
  define js where "js = sort_key (\<lambda>j. is_generate (be_job e j)) js0"
  obtain res1 e1 where 1: "prepare_jobs js [] e = (res1, e1)" by fastforce
  have ok1: "be_ok k n W e1" using be_ok_prepare_jobs [OF ok, of js "[]"] js 1 by (simp add: js_def)
  show ?thesis
  proof (cases res1)
    case (Inl err)
    with 1 ok1 show ?thesis by (simp add: run_iter_def flip: js_def)
  next
    case (Inr firsts)
    define put where "put = (if firsts \<noteq> [] then put_tokens (map (\<lambda>(_, _, j). j) firsts)
       (sampler net (map (\<lambda>(h, _, _). h) firsts) (map (\<lambda>(_, cfg, _). cfg) firsts)) e1 else py_return () e1)"
    have "be_ok k n W (snd put)" using ok1 be_ok_put_tokens by (auto simp: put_def)
    moreover obtain res2 e2 where 2: "put = (res2, e2)" by fastforce
    ultimately have ok2: "be_ok k n W e2" by simp
    have "be_ok k n W (snd (py_for (update_job hidden next_tokens fills) ijs e2))" for hidden next_tokens fills ijs
      by (rule py_for_invariant [where P = "be_ok k n W"]) (use be_ok_update_job ok2 in blast)+
    with ok2 Inr 1 2 show ?thesis
      by (cases res2) (auto simp: run_iter_def Let_def simp flip: js_def put_def split: sum.split prod.split)
  qed
qed

subsection \<open>Runs of an engine\<close>

lemma be_ok_jobs: "be_ok k n W e \<Longrightarrow> be_ok k n (be_jobs e) e"
  using be_ok_sched [of k n W e "be_jobs e" "be_scheduler e"] by (simp add: be_ok_def jobs_within_def)

lemma be_ok_add_job:
  assumes ok: "be_ok k n (be_jobs e) e" and "job_context job = None" and "be_add_job now job e = (res, e')"
  shows "be_ok k n (be_jobs e') e'"
proof -
  let ?j = "length (es_jobs (be_scheduler e))"
  let ?e0 = "e\<lparr>be_scheduler := (be_scheduler e)\<lparr>es_jobs := es_jobs (be_scheduler e) @ [job]\<rparr>\<rparr>"
  let ?e1 = "?e0\<lparr>be_scheduler := add_job now ?j (be_scheduler ?e0)\<rparr>"
  have jobs: "waiting_jobs (be_scheduler ?e1) = waiting_jobs (be_scheduler e) @ [?j]" "running_jobs (be_scheduler ?e1) = running_jobs (be_scheduler e)"
    "es_jobs (be_scheduler ?e1) = es_jobs (be_scheduler e) @ [job]"
    by (simp_all add: add_job_def Let_def)
  obtain L where L: "be_block_size e = int k" "kv_reach k n (be_contexts e) L"
      "\<forall>j \<in> be_jobs e. j < length (es_jobs (be_scheduler e)) \<and>
         (\<forall>c. job_context (be_job e j) = Some c \<longrightarrow> c \<in> L \<and> ctx_ids (be_contexts e) ! c = job_context_id (be_job e j))"
    using ok by (rule be_okE)
  have "be_ok k n (insert ?j (be_jobs e)) ?e1"
  proof (rule be_okI [of _ k _ n L])
    show "c \<in> L \<and> ctx_ids (be_contexts ?e1) ! c = job_context_id (be_job ?e1 j)"
      if "j \<in> insert ?j (be_jobs e)" "job_context (be_job ?e1 j) = Some c" for j c
      using that L(3) assms(2) unfolding jobs(3) by (cases "j = ?j") (auto simp: nth_append)
    show "j < length (es_jobs (be_scheduler ?e1))" if "j \<in> insert ?j (be_jobs e)" for j
      using that L(3) unfolding jobs(3) by (auto simp: less_Suc_eq)
    show "be_jobs ?e1 \<subseteq> insert ?j (be_jobs e)" unfolding jobs by auto
  qed (use L in simp_all)
  from be_ok_bind_job [OF this, of ?j] have "be_ok k n (insert ?j (be_jobs e)) (snd (bind_job ?j ?e1))" by simp
  moreover have "e' = snd (bind_job ?j ?e1)"
    using assms(3) by (cases "bind_job ?j ?e1"; cases "fst (bind_job ?j ?e1)") (auto simp: be_add_job_def Let_def)
  ultimately show ?thesis using be_ok_jobs by blast
qed

lemma be_ok_engine_iter:
  assumes ok: "be_ok k n (be_jobs e) e" and "be_engine_iter net clk t e = (res, e')"
  shows "be_ok k n (be_jobs e') e'"
proof (cases "scheduler_is_empty (be_scheduler e)")
  case True
  with assms show ?thesis by (simp add: be_engine_iter_def)
next
  case False
  obtain r1 s1 where s1: "schedule_jobs (block_clen (be_contexts e)) clk (be_scheduler e) = (r1, s1)" by fastforce
  note w = schedule_jobs_within [OF s1]
  have ok1: "be_ok k n (be_jobs e) (e\<lparr>be_scheduler := s1\<rparr>)" by (rule be_ok_sched [OF ok order_refl]) (use w in blast)
  show ?thesis
  proof (cases r1)
    case (Inl err)
    with s1 assms(2) False ok1 show ?thesis using be_ok_jobs by (fastforce simp: be_engine_iter_def)
  next
    case (Inr js)
    obtain r2 e2 where e2: "run_iter net js (e\<lparr>be_scheduler := s1\<rparr>) = (r2, e2)" by fastforce
    have "set js \<subseteq> be_jobs e" using w Inr by blast
    then have ok2: "be_ok k n (be_jobs e) e2" using be_ok_run_iter [OF ok1, of js net] e2 by simp
    have ok3: "be_ok k n W (e2\<lparr>be_latency := l\<rparr>)" if "be_ok k n W e2" for l W using that by (simp add: be_ok_def)
    obtain r4 s4 where s4: "finish_jobs clk (be_scheduler e2) = (r4, s4)" by fastforce
    have "be_ok k n (be_jobs e2) ((e2\<lparr>be_latency := add_latency t (be_latency e2)\<rparr>)\<lparr>be_scheduler := s4\<rparr>)"
      by (rule be_ok_sched [OF ok3 [OF be_ok_jobs [OF ok2]]]) (use finish_jobs_within [OF s4] in simp_all)
    then have "be_ok k n (be_jobs e2) e'" if "r2 = Inr ()" using assms(2) False s1 Inr e2 s4 that
      by (simp add: be_engine_iter_def Let_def)
    moreover have "e' = e2" if "r2 = Inl err" for err using assms(2) False s1 Inr e2 that by (simp add: be_engine_iter_def)
    ultimately show ?thesis using be_ok_jobs ok2 by (cases r2) auto
  qed
qed

lemma be_ok_free_context:
  assumes ok: "be_ok k n (be_jobs e) e" and w: "list_all (\<lambda>j. job_context_id (be_job e j) \<noteq> cid) (waiting_jobs (be_scheduler e))"
    and f: "be_free_context cid e = (res, e')"
  shows "be_ok k n (be_jobs e') e'"
proof (cases "list_ex (\<lambda>j. job_context_id (be_job e j) = cid) (running_jobs (be_scheduler e)) \<or> map_of (ec_map (be_contexts e)) cid = None")
  case True
  then have "e' = e" using f by (auto simp: be_free_context_def free_engine_context_def split: if_splits)
  with ok show ?thesis by simp
next
  case False
  then obtain r where r: "map_of (ec_map (be_contexts e)) cid = Some r" by blast
  have other: "job_context_id (be_job e j) \<noteq> cid" if "j \<in> be_jobs e" for j
    using that w False by (auto simp: list_all_iff list_ex_iff)
  obtain L where L: "be_block_size e = int k" "kv_reach k n (be_contexts e) L"
      "\<forall>j \<in> be_jobs e. j < length (es_jobs (be_scheduler e)) \<and>
         (\<forall>c. job_context (be_job e j) = Some c \<longrightarrow> c \<in> L \<and> ctx_ids (be_contexts e) ! c = job_context_id (be_job e j))"
    using ok by (rule be_okE)
  obtain s' where s': "free_block_context cid (be_contexts e) = (res, s')" "e' = e\<lparr>be_contexts := s'\<rparr>"
    using f False by (cases "free_block_context cid (be_contexts e)") (auto simp: be_free_context_def)
  have ids: "ctx_ids s' = ctx_ids (be_contexts e)" using free_block_context_ids [of cid "be_contexts e"] s'(1) by simp
  have "r \<in> L" "ll_context_id (ctx_at (be_contexts e) r) = cid" "r < length (ec_heap (be_contexts e))"
    using kv_reach_inv [OF L(2)] map_of_SomeD [OF r] by (auto simp: kv_inv_def)
  then have "ctx_ids (be_contexts e) ! r = cid" by simp
  note rid = this
  have ne: "c \<noteq> r" if "j \<in> be_jobs e" "job_context (be_job e j) = Some c" for j c
  proof
    assume "c = r"
    moreover have "ctx_ids (be_contexts e) ! c = job_context_id (be_job e j)" using L(3) that by blast
    ultimately show False using other [OF that(1)] rid by simp
  qed
  obtain L' where L': "kv_reach k n s' L'" "L - {r} \<subseteq> L'"
  proof (cases res)
    case (Inl err)
    then show ?thesis using that kv_reach.free_fail [OF L(2) r] s'(1) by blast
  next
    case (Inr m)
    then show ?thesis using that kv_reach.free [OF L(2) r] s'(1) by blast
  qed
  show ?thesis unfolding s'(2)
  proof (rule be_okI [of _ k _ n L'])
    fix j c
    assume "j \<in> be_jobs (e\<lparr>be_contexts := s'\<rparr>)" "job_context (be_job (e\<lparr>be_contexts := s'\<rparr>) j) = Some c"
    then show "c \<in> L' \<and> ctx_ids (be_contexts (e\<lparr>be_contexts := s'\<rparr>)) ! c = job_context_id (be_job (e\<lparr>be_contexts := s'\<rparr>) j)"
      using L(3) L'(2) ne [of j c] ids by auto
  qed (use L L'(1) in auto)
qed

text \<open>
  The serve layer sends requests and frees contexts, the engine loop iterates. A context is
  freed only when no waiting job uses it.
\<close>

inductive be_reach :: "nat \<Rightarrow> int \<Rightarrow> 'h builtin_engine \<Rightarrow> bool" for k n where
  init: "0 < k \<Longrightarrow> be_block_size e = int k \<Longrightarrow> be_scheduler e = new_engine_scheduler cfg \<Longrightarrow>
    be_contexts e = \<lparr>ec_heap = [], ec_map = [], kv_cache_manager = new_pool (Some n) False\<rparr> \<Longrightarrow> be_reach k n e"
| fill: "be_reach k n e \<Longrightarrow> fill_request now sid tid cid pid flag toks e = (res, e') \<Longrightarrow> be_reach k n e'"
| generate: "be_reach k n e \<Longrightarrow> generate_request now sid tid cid pid sampling flag e = (res, e') \<Longrightarrow> be_reach k n e'"
| response: "be_reach k n e \<Longrightarrow> generate_response j e = (toks, e') \<Longrightarrow> be_reach k n e'"
| iter: "be_reach k n e \<Longrightarrow> be_engine_iter net clk t e = (u, e') \<Longrightarrow> be_reach k n e'"
| free: "be_reach k n e \<Longrightarrow> list_all (\<lambda>j. job_context_id (be_job e j) \<noteq> cid) (waiting_jobs (be_scheduler e)) \<Longrightarrow>
    be_free_context cid e = (len, e') \<Longrightarrow> be_reach k n e'"

lemma be_reach_ok: "be_reach k n e \<Longrightarrow> be_ok k n (be_jobs e) e"
proof (induction rule: be_reach.induct)
  case (init e cfg)
  have "kv_reach k n (be_contexts e) {}" unfolding init(4) by (rule kv_reach.init [OF init(1)])
  then show ?case using init(2,3) by (intro be_okI) (auto simp: new_engine_scheduler_def)
next
  case (fill e now sid tid cid pid flag toks res e')
  show ?case
    by (rule be_ok_add_job [OF fill(3) _ fill(2) [unfolded fill_request_def]]) (simp add: new_fill_def new_job_def)
next
  case (generate e now sid tid cid pid sampling flag res e')
  show ?case
  proof (cases "sampling_config_of_dict sampling default_sampling_config")
    case None
    with generate show ?thesis by (simp add: generate_request_def)
  next
    case (Some cfg)
    then have "be_add_job now (new_generate sid tid cid pid cfg flag) e = (res, e')" using generate(2) by (simp add: generate_request_def)
    from be_ok_add_job [OF generate(3) _ this] show ?thesis by (simp add: new_generate_def new_job_def)
  qed
next
  case (response e j toks e')
  have "be_ok k n (be_jobs e) (upd_be_job j (\<lambda>x. x\<lparr>primitive_of := p\<rparr>) e)" for p
    by (rule be_ok_upd_job [OF response(3)]) simp_all
  then have "be_ok k n (be_jobs e) e'"
    using response(2,3) by (cases "primitive_of (be_job e j)") (auto simp: generate_response_def)
  then show ?case by (rule be_ok_jobs)
next
  case (iter e net clk t u e')
  then show ?case using be_ok_engine_iter by blast
next
  case (free e cid len e')
  then show ?case using be_ok_free_context by blast
qed

section \<open>Properties\<close>

text \<open>
  C4. An engine never lets two contexts share KV blocks: whatever requests come, whatever the network
  computes and whichever calls raise, two different waiting or running jobs with different
  contexts have disjoint blocks, all inside the cache, provided that the serve layer frees no
  context of a waiting job.
\<close>

theorem engine_blocks_exclusive:
  assumes "be_reach k n e" and "i \<in> be_jobs e" and "j \<in> be_jobs e"
    and "job_context (be_job e i) = Some c" and "job_context (be_job e j) = Some d" and "c \<noteq> d"
  shows "set (token_kv_block_ids (be_ctx e c)) \<inter> set (token_kv_block_ids (be_ctx e d)) = {} \<and>
    set (token_kv_block_ids (be_ctx e c)) \<subseteq> {0..<n - 1}"
proof -
  obtain L where L: "kv_reach k n (be_contexts e) L" "\<forall>j \<in> be_jobs e. j < length (es_jobs (be_scheduler e)) \<and>
       (\<forall>c. job_context (be_job e j) = Some c \<longrightarrow> c \<in> L \<and> ctx_ids (be_contexts e) ! c = job_context_id (be_job e j))"
    using be_reach_ok [OF assms(1)] by (rule be_okE)
  have "c \<in> L" "d \<in> L" using L(2) assms(2-5) by blast+
  moreover have "\<forall>r \<in> L. set (token_kv_block_ids (be_ctx e r)) \<subseteq> {0..<n - 1}"
    "\<forall>r \<in> L. \<forall>r' \<in> L. r \<noteq> r' \<longrightarrow> set (token_kv_block_ids (be_ctx e r)) \<inter> set (token_kv_block_ids (be_ctx e r')) = {}"
    using kv_reach_exclusive [OF L(1)] by blast+
  ultimately show ?thesis using assms(6) by blast
qed

text \<open>A network on unit hidden states that always answers token 5, and an engine with blocks of two tokens.\<close>

definition demo_net :: "unit network" where
  "demo_net = \<lparr>sampler = \<lambda>hs _. map (\<lambda>_. 5) hs, forward = \<lambda>ids pos it. (replicate (num_fill_jobs it) (), replicate (num_generation_jobs it) 5)\<rparr>"

definition demo_engine :: "int \<Rightarrow> unit builtin_engine" where
  "demo_engine total_limit =
    \<lparr>be_scheduler = new_engine_scheduler \<lparr>cfg_max_batch_size = 8, cfg_max_num_batched_tokens = 64, cfg_max_total_tokens = total_limit, cfg_policy = ''fifo''\<rparr>,
     be_contexts = \<lparr>ec_heap = [], ec_map = [], kv_cache_manager = new_pool (Some 16) False\<rparr>,
     be_block_size = 2, be_latency = [], be_hidden_size = 1, be_num_hidden_layers = 1, be_model_mem = 0\<rparr>"

abbreviation demo_iter :: "unit builtin_engine \<Rightarrow> unit builtin_engine" where
  "demo_iter e \<equiv> snd (be_engine_iter demo_net (\<lambda>_. 0) 1 e)"

text \<open>Two contexts are filled with three and two tokens, then both generate.\<close>

abbreviation demo_filled :: "unit builtin_engine" where
  "demo_filled \<equiv> demo_iter (snd (fill_request 2 0 2 8 (-1) False (Some [4, 5]) (snd (fill_request 1 0 1 7 (-1) False (Some [1, 2, 3]) (demo_engine 64)))))"

abbreviation demo_two :: "unit builtin_engine" where
  "demo_two \<equiv> demo_iter (snd (generate_request 4 0 2 8 (-1) [] False (snd (generate_request 3 0 1 7 (-1) [] False demo_filled))))"

lemma demo_filled_reach: "be_reach 2 16 demo_filled"
proof -
  have "be_reach 2 16 (demo_engine 64)" by (rule be_reach.init) (simp_all add: demo_engine_def)
  then show ?thesis
    by (intro be_reach.iter [OF _ surjective_pairing] be_reach.fill [OF _ surjective_pairing])
qed

lemma demo_two_reach: "be_reach 2 16 demo_two"
  by (rule be_reach.iter [OF be_reach.generate [OF be_reach.generate [OF demo_filled_reach surjective_pairing] surjective_pairing] surjective_pairing])

theorem engine_blocks_exclusive_witness:
  "set (token_kv_block_ids (be_ctx demo_two 0)) \<inter> set (token_kv_block_ids (be_ctx demo_two 1)) = {} \<and>
   token_kv_block_ids (be_ctx demo_two 0) = [0, 0, 1, 1]"
proof -
  have b: "token_kv_block_ids (be_ctx demo_two 0) = [0, 0, 1, 1]" by code_simp
  have j: "running_jobs (be_scheduler demo_two) = [2, 3]" by code_simp
  have c: "job_context (be_job demo_two 2) = Some 0" "job_context (be_job demo_two 3) = Some 1" by code_simp+
  have "2 \<in> be_jobs demo_two" "3 \<in> be_jobs demo_two" unfolding j by simp_all
  from engine_blocks_exclusive [OF demo_two_reach this c zero_neq_one] b show ?thesis by blast
qed

lemma free_blocks_heap: "py_for free_block bs s = (res, s') \<Longrightarrow> ec_heap s' = ec_heap s"
proof (induction bs arbitrary: s)
  case (Cons b bs)
  obtain r p where p: "pool_free b (kv_cache_manager s) = (r, p)" by fastforce
  with Cons show ?case by (cases r) (auto simp: free_block_def)
qed (simp add: py_return_def)

lemma free_block_context_view:
  assumes "free_block_context cid s = (res, s')"
  shows "map kv_view (ec_heap s') = map kv_view (ec_heap s)"
proof (cases "map_of (ec_map s) cid")
  case None
  with assms show ?thesis by (simp add: free_engine_context_def)
next
  case (Some r)
  obtain r1 h where h: "ll_destruction r (ec_heap s) = (r1, h)" by fastforce
  note view = ll_destruction_view [OF h]
  have "map kv_view (ec_heap s2) = map kv_view h" if "py_for free_block bs (s\<lparr>ec_map := m, ec_heap := h\<rparr>) = (r2, s2)" for bs m r2 s2
    using free_blocks_heap [OF that] by simp
  with assms Some h view show ?thesis
    by (cases r1) (auto simp: free_engine_context_def block_destruction_def slice_step_def Let_def py_bind_def py_return_def py_raise_def
        split: if_splits prod.splits sum.splits)
qed

text \<open>
  C38. What the engine does not check: \<^verbatim>\<open>free_context\<close> looks only at the running jobs. In every state the engine reaches before this has happened, if it
  frees the context that a waiting job is bound to, all the KV blocks in the table of this context are free for other contexts, while
  the job keeps waiting, bound to the same context with the same table: when it is scheduled it uses these blocks.
\<close>

theorem free_waiting_context_shares_blocks:
  assumes "be_reach k n e" and "j \<in> set (waiting_jobs (be_scheduler e))" and "job_context (be_job e j) = Some c"
    and "map_of (ec_map (be_contexts e)) cid = Some c" and "be_free_context cid e = (Inr len, e')"
  shows "set (token_kv_block_ids (be_ctx e c)) \<subseteq> set (free_ids (kv_cache_manager (be_contexts e'))) \<and>
    j \<in> set (waiting_jobs (be_scheduler e')) \<and> job_context (be_job e' j) = Some c \<and>
    token_kv_block_ids (be_ctx e' c) = token_kv_block_ids (be_ctx e c)"
proof -
  obtain L where L: "kv_reach k n (be_contexts e) L" using be_reach_ok [OF assms(1)] by (rule be_okE)
  obtain s' where s': "free_block_context cid (be_contexts e) = (Inr len, s')" "e' = e\<lparr>be_contexts := s'\<rparr>"
    using assms(5) by (cases "free_block_context cid (be_contexts e)"; cases "fst (free_block_context cid (be_contexts e))")
      (auto simp: be_free_context_def py_lift_def split: if_splits)
  have "c < length (ec_heap (be_contexts e))" using kv_reach_inv [OF L] map_of_SomeD [OF assms(4)] by (auto simp: kv_inv_def)
  then have "kv_view (ctx_at s' c) = kv_view (be_ctx e c)"
    using arg_cong [OF free_block_context_view [OF s'(1)], of "\<lambda>l. l ! c"] arg_cong [OF free_block_context_view [OF s'(1)], of length] by simp
  then show ?thesis using free_context_outcome [OF L assms(4) s'(1)] s'(2) assms(2,3) by (simp add: kv_view_def)
qed

text \<open>
  Here a generation waits in context 7 when it is freed; a new context takes over its blocks, and in the next iteration both
  jobs run, in the same KV blocks.
\<close>

abbreviation demo_waiting :: "unit builtin_engine" where
  "demo_waiting \<equiv> snd (generate_request 3 0 1 7 (-1) [] False demo_filled)"

abbreviation demo_freed :: "unit builtin_engine" where
  "demo_freed \<equiv> snd (be_free_context 7 demo_waiting)"

theorem free_waiting_context_shares_blocks_witness:
  "set (token_kv_block_ids (be_ctx demo_waiting 0)) \<subseteq> set (free_ids (kv_cache_manager (be_contexts demo_freed))) \<and>
   token_kv_block_ids (be_ctx demo_waiting 0) = [0, 0, 1] \<and> 2 \<in> set (waiting_jobs (be_scheduler demo_freed)) \<and>
   (\<exists>e2. be_engine_iter demo_net (\<lambda>_. 0) 1 (snd (fill_request 4 0 3 9 (-1) False (Some [6, 7, 8, 9]) demo_freed)) = (Inr (), e2) \<and>
     token_kv_block_ids (be_ctx e2 0) = [0, 0, 1, 1] \<and> token_kv_block_ids (be_ctx e2 2) = [0, 0, 1, 1])"
proof -
  let ?i = "be_engine_iter demo_net (\<lambda>_. 0) 1 (snd (fill_request 4 0 3 9 (-1) False (Some [6, 7, 8, 9]) demo_freed))"
  have "fst ?i = Inr () \<and> token_kv_block_ids (be_ctx (snd ?i) 0) = [0, 0, 1, 1] \<and> token_kv_block_ids (be_ctx (snd ?i) 2) = [0, 0, 1, 1]"
    by code_simp
  then have i: "\<exists>e2. ?i = (Inr (), e2) \<and> token_kv_block_ids (be_ctx e2 0) = [0, 0, 1, 1] \<and> token_kv_block_ids (be_ctx e2 2) = [0, 0, 1, 1]"
    by (metis prod.collapse)
  have w: "2 \<in> set (waiting_jobs (be_scheduler demo_waiting))" "job_context (be_job demo_waiting 2) = Some 0"
      "map_of (ec_map (be_contexts demo_waiting)) 7 = Some 0" "fst (be_free_context 7 demo_waiting) = Inr 3"
      "token_kv_block_ids (be_ctx demo_waiting 0) = [0, 0, 1]"
    by code_simp+
  have f: "be_free_context 7 demo_waiting = (Inr 3, demo_freed)" using w(4) by (metis prod.collapse)
  have "be_reach 2 16 demo_waiting" by (rule be_reach.generate [OF demo_filled_reach surjective_pairing])
  from free_waiting_context_shares_blocks [OF this w(1-3) f] i w(5) show ?thesis by blast
qed

text \<open>
  A request whose context cannot be bound stops the engine. \<^verbatim>\<open>_add_job\<close> queues the job before it binds the
  context; if the parent is unknown the request raises \<^verbatim>\<open>KeyError\<close>, but the job stays in the
  queue without a context, and from then on every iteration raises \<^verbatim>\<open>AttributeError\<close> and the other job is never run.
\<close>

lemma failed_bind_stops_engine:
  "fst (fill_request 1 0 1 7 3 False (Some [1]) (demo_engine 64)) = Inl KeyError \<and>
   (let e = snd (fill_request 2 0 2 8 (-1) False (Some [4, 5]) (snd (fill_request 1 0 1 7 3 False (Some [1]) (demo_engine 64))))
    in fst (be_engine_iter demo_net (\<lambda>_. 0) 1 e) = Inl AttributeError \<and>
       fst (be_engine_iter demo_net (\<lambda>_. 0) 1 (demo_iter e)) = Inl AttributeError \<and>
       \<not> finish_event (be_job (demo_iter (demo_iter e)) 1))"
  by code_simp

text \<open>A generation limited to one token produces two: the token of the first sampling is not checked.\<close>

lemma first_sampling_exceeds_limit:
  "primitive_of (be_job (demo_iter (snd (generate_request 3 0 1 7 (-1) [(''max_gen_length'', JInt 1)] False demo_filled))) 2) =
     Generate (default_sampling_config\<lparr>max_gen_length := JInt 1\<rparr>) [5, 5] [] 2"
  by code_simp

end
