(* ===== verification/Sem_Graph.thy ===== *)
theory Sem_Graph
  imports Call_Request Recycle_Pool
begin

text \<open>
  The graph of a session: \<^verbatim>\<open>serve/graph/semantic_variable.py\<close>, \<^verbatim>\<open>node.py\<close> and \<^verbatim>\<open>graph.py\<close>. Variables, nodes, chains, requests and chain groups refer to each other, so
  they live in one heap, \<open>graph_heap\<close>: a reference is the position of the object in its list.
  The iterators over a chain follow the edges of type A and are \<open>partial_function\<close>s; an operation
  that iterates may not return. No operation that iterates changes an edge inside its loop,
  so the nodes of the loop are computed before it.
  What the loop over the chunks of a request builds is shown equal to a fold over the kinds of
  the nodes, \<open>layout_step\<close>; the theorems read off which nodes the completion chains cover.
\<close>

section \<open>Semantic variables\<close>

type_synonym sv_ref = nat
type_synonym node_ref = nat
type_synonym chain_ref = nat
type_synonym group_ref = nat
type_synonym request_ref = nat

text \<open>
  A content and a name come from a payload, hence \<open>json\<close>; \<open>JNone\<close> is \<^verbatim>\<open>None\<close>. The two events are set
  once and never cleared.
\<close>

record semantic_variable =
  var_name :: json
  var_id :: string
  var_seed :: int
  is_constant_prefix :: bool
  content :: json
  ready_event :: bool
  producer :: "node_ref option"
  consumers :: "node_ref list"
  activated_event :: bool
  criteria :: "performance_criteria option"
  depth :: int

definition new_semantic_variable :: "json \<Rightarrow> string \<Rightarrow> bool \<Rightarrow> int \<Rightarrow> semantic_variable" where
  "new_semantic_variable nm vid is_prefix seed =
    \<lparr>var_name = nm, var_id = vid, var_seed = seed, is_constant_prefix = is_prefix, content = JNone,
     ready_event = False, producer = None, consumers = [], activated_event = False, criteria = None,
     depth = 99999\<rparr>"

definition sv_is_ready :: "semantic_variable \<Rightarrow> bool" where
  "sv_is_ready v = ready_event v"

definition sv_set :: "json \<Rightarrow> semantic_variable \<Rightarrow> (unit, semantic_variable) py" where
  "sv_set text v =
    (if content v \<noteq> JNone then py_raise AssertionError v
     else py_return () (v\<lparr>content := text, ready_event := True\<rparr>))"

definition sv_get :: "semantic_variable \<Rightarrow> 's \<Rightarrow> (json, 's) py" where
  "sv_get v s = py_bind (parrot_assert (sv_is_ready v) s) (\<lambda>_ s. py_return (content v) s)"

definition assign_producer :: "node_ref \<Rightarrow> semantic_variable \<Rightarrow> (unit, semantic_variable) py" where
  "assign_producer p v =
    py_bind (parrot_assert (producer v = None) v) (\<lambda>_ v. py_return () (v\<lparr>producer := Some p\<rparr>))"

definition add_consumer :: "node_ref \<Rightarrow> semantic_variable \<Rightarrow> (unit, semantic_variable) py" where
  "add_consumer c v = py_return () (v\<lparr>consumers := consumers v @ [c]\<rparr>)"

definition has_producer :: "semantic_variable \<Rightarrow> bool" where
  "has_producer v = (producer v \<noteq> None)"

definition sv_is_activated :: "semantic_variable \<Rightarrow> bool" where
  "sv_is_activated v = activated_event v"

definition sv_activate :: "performance_criteria \<Rightarrow> int \<Rightarrow> semantic_variable \<Rightarrow> (unit, semantic_variable) py" where
  "sv_activate crit d v =
    py_bind (parrot_assert (\<not> sv_is_activated v) v) (\<lambda>_ v.
      py_return () (v\<lparr>criteria := Some crit, depth := d, activated_event := True\<rparr>))"

definition sv_criteria :: "semantic_variable \<Rightarrow> 's \<Rightarrow> (performance_criteria option, 's) py" where
  "sv_criteria v s = py_bind (parrot_assert (sv_is_activated v) s) (\<lambda>_ s. py_return (criteria v) s)"

definition sv_depth :: "semantic_variable \<Rightarrow> 's \<Rightarrow> (int, 's) py" where
  "sv_depth v s = py_bind (parrot_assert (sv_is_activated v) s) (\<lambda>_ s. py_return (depth v) s)"

section \<open>Nodes\<close>

datatype 'c node_kind =
    ConstantFill string
  | PlaceholderFill semantic_function_parameter
  | PlaceholderGen semantic_function_parameter
  | NativeFuncNode "'c native_request"

record param_info =
  info_parameter_name :: json
  info_is_output :: json
  info_var_name :: json
  info_var_id :: string

text \<open>
  One record for the classes of nodes: the fields up to \<open>edge_a_next\<close> are those of a \<^verbatim>\<open>SemanticNode\<close>, the
  last four those of a \<^verbatim>\<open>NativeFuncNode\<close>.
\<close>

record 'c graph_node =
  node_kind :: "'c node_kind"
  id_in_graph :: "int option"
  node_sv :: "sv_ref option"
  completion_chain_of :: "chain_ref option"
  edge_a_prev :: "node_ref option"
  edge_a_next :: "node_ref option"
  input_vars :: "(json, sv_ref) dict"
  input_values :: "(json, json) dict"
  output_vars :: "(json, sv_ref) dict"
  node_param_info :: "param_info list"

record completion_chain =
  chain_request :: request_ref
  chain_first_node :: "node_ref option"
  chain_gen_node :: node_ref
  chain_group_list :: "group_ref list"

record request_chain =
  chain_req_id :: int
  chain_sess_id :: int
  first_node :: node_ref
  chain_meta :: semantic_call_metadata
  comp_chains :: "chain_ref list"
  request_param_info :: "param_info list"

record 'c graph_heap =
  heap_svs :: "semantic_variable list"
  heap_nodes :: "'c graph_node list"
  heap_chains :: "completion_chain list"
  heap_requests :: "request_chain list"
  heap_groups :: "chain_ref list list"

abbreviation sv_at :: "'c graph_heap \<Rightarrow> sv_ref \<Rightarrow> semantic_variable" where
  "sv_at h v \<equiv> heap_svs h ! v"

abbreviation node_at :: "'c graph_heap \<Rightarrow> node_ref \<Rightarrow> 'c graph_node" where
  "node_at h n \<equiv> heap_nodes h ! n"

abbreviation chain_at :: "'c graph_heap \<Rightarrow> chain_ref \<Rightarrow> completion_chain" where
  "chain_at h c \<equiv> heap_chains h ! c"

abbreviation request_at :: "'c graph_heap \<Rightarrow> request_ref \<Rightarrow> request_chain" where
  "request_at h r \<equiv> heap_requests h ! r"

definition on_sv ::
  "sv_ref \<Rightarrow> (semantic_variable \<Rightarrow> ('a, semantic_variable) py) \<Rightarrow> 'c graph_heap \<Rightarrow> ('a, 'c graph_heap) py" where
  "on_sv v op h = py_lift (\<lambda>x. h\<lparr>heap_svs := (heap_svs h)[v := x]\<rparr>) (op (sv_at h v))"

definition on_node :: "node_ref \<Rightarrow> ('c graph_node \<Rightarrow> 'c graph_node) \<Rightarrow> 'c graph_heap \<Rightarrow> 'c graph_heap" where
  "on_node n f h = h\<lparr>heap_nodes := (heap_nodes h)[n := f (node_at h n)]\<rparr>"

definition new_semantic_node :: "'c node_kind \<Rightarrow> 'c graph_node" where
  "new_semantic_node k =
    \<lparr>node_kind = k, id_in_graph = None, node_sv = None, completion_chain_of = None, edge_a_prev = None,
     edge_a_next = None, input_vars = [], input_values = [], output_vars = [], node_param_info = []\<rparr>"

text \<open>The constructor of a native node records the values that the request brings.\<close>

definition new_native_node :: "'c native_request \<Rightarrow> 'c graph_node" where
  "new_native_node rq =
    (new_semantic_node (NativeFuncNode rq))
      \<lparr>input_values := foldl (\<lambda>d (key, param). if has_value param then dict_set key (param_value param) d else d) []
         (native_parameters_map rq)\<rparr>"

definition alloc_node :: "'c graph_node \<Rightarrow> 'c graph_heap \<Rightarrow> node_ref \<times> 'c graph_heap" where
  "alloc_node n h = (length (heap_nodes h), h\<lparr>heap_nodes := heap_nodes h @ [n]\<rparr>)"

definition is_inserted :: "'c graph_node \<Rightarrow> bool" where
  "is_inserted n = (id_in_graph n \<noteq> None)"

definition get_id_in_graph :: "'c graph_node \<Rightarrow> 's \<Rightarrow> (int, 's) py" where
  "get_id_in_graph n s = (case id_in_graph n of None \<Rightarrow> py_raise ParrotError s | Some i \<Rightarrow> py_return i s)"

definition set_id_in_graph :: "int \<Rightarrow> 'c graph_node \<Rightarrow> 'c graph_node" where
  "set_id_in_graph i n = n\<lparr>id_in_graph := Some i\<rparr>"

definition is_gen :: "'c graph_node \<Rightarrow> bool" where
  "is_gen n = (case node_kind n of PlaceholderGen _ \<Rightarrow> True | _ \<Rightarrow> False)"

definition is_native :: "'c graph_node \<Rightarrow> bool" where
  "is_native n = (case node_kind n of NativeFuncNode _ \<Rightarrow> True | _ \<Rightarrow> False)"

definition has_placeholder :: "'c graph_node \<Rightarrow> bool" where
  "has_placeholder n = (case node_kind n of ConstantFill _ \<Rightarrow> False | _ \<Rightarrow> True)"

definition placeholder_param :: "'c graph_node \<Rightarrow> semantic_function_parameter option" where
  "placeholder_param n =
    (case node_kind n of PlaceholderFill p \<Rightarrow> Some p | PlaceholderGen p \<Rightarrow> Some p | _ \<Rightarrow> None)"

definition get_node_sv :: "'c graph_node \<Rightarrow> 's \<Rightarrow> (sv_ref, 's) py" where
  "get_node_sv n s = (case node_sv n of None \<Rightarrow> py_raise ParrotError s | Some v \<Rightarrow> py_return v s)"

definition set_sv :: "sv_ref \<Rightarrow> 'c graph_node \<Rightarrow> 'c graph_node" where
  "set_sv v n = n\<lparr>node_sv := Some v\<rparr>"

definition node_sv_name :: "'c graph_heap \<Rightarrow> 'c graph_node \<Rightarrow> json" where
  "node_sv_name h n = (case node_sv n of None \<Rightarrow> JStr ''(no SV)'' | Some v \<Rightarrow> var_name (sv_at h v))"

definition node_sv_id :: "'c graph_heap \<Rightarrow> 'c graph_node \<Rightarrow> string" where
  "node_sv_id h n = (case node_sv n of None \<Rightarrow> ''(no SV)'' | Some v \<Rightarrow> var_id (sv_at h v))"

definition node_get :: "'c graph_node \<Rightarrow> 'c graph_heap \<Rightarrow> (json, 'c graph_heap) py" where
  "node_get n h = py_bind (get_node_sv n h) (\<lambda>v h. sv_get (sv_at h v) h)"

definition link_edge_a_with :: "node_ref \<Rightarrow> node_ref \<Rightarrow> 'c graph_heap \<Rightarrow> 'c graph_heap" where
  "link_edge_a_with n prev_node h =
    on_node prev_node (\<lambda>x. x\<lparr>edge_a_next := Some n\<rparr>) (on_node n (\<lambda>x. x\<lparr>edge_a_prev := Some prev_node\<rparr>) h)"

definition get_edge_b_prev_node :: "'c graph_node \<Rightarrow> 'c graph_heap \<Rightarrow> (node_ref option, 'c graph_heap) py" where
  "get_edge_b_prev_node n h =
    py_bind (parrot_assert (is_inserted n) h) (\<lambda>_ h.
    py_bind (get_node_sv n h) (\<lambda>v h. py_return (producer (sv_at h v)) h))"

definition get_edge_b_next_nodes :: "'c graph_node \<Rightarrow> 'c graph_heap \<Rightarrow> (node_ref list, 'c graph_heap) py" where
  "get_edge_b_next_nodes n h =
    py_bind (parrot_assert (is_inserted n) h) (\<lambda>_ h.
      if \<not> is_gen n then py_return [] h
      else py_bind (get_node_sv n h) (\<lambda>v h. py_return (consumers (sv_at h v)) h))"

definition comp_chain_is_set :: "'c graph_node \<Rightarrow> bool" where
  "comp_chain_is_set n = (completion_chain_of n \<noteq> None)"

definition get_comp_chain :: "'c graph_node \<Rightarrow> 's \<Rightarrow> (chain_ref, 's) py" where
  "get_comp_chain n s =
    py_bind (parrot_assert (is_inserted n) s) (\<lambda>_ s.
      case completion_chain_of n of None \<Rightarrow> py_raise ParrotError s | Some c \<Rightarrow> py_return c s)"

definition set_comp_chain :: "chain_ref \<Rightarrow> 'c graph_node \<Rightarrow> 'c graph_node" where
  "set_comp_chain c n = n\<lparr>completion_chain_of := Some c\<rparr>"

text \<open>
  Waiting: the coroutines return as soon as the events they await are set. \<open>True\<close> says that they
  return in this state, \<open>False\<close> that they are suspended.
\<close>

definition semantic_wait_ready :: "'c graph_node \<Rightarrow> 'c graph_heap \<Rightarrow> (bool, 'c graph_heap) py" where
  "semantic_wait_ready n h =
    (case edge_a_prev n of
       None \<Rightarrow> py_bind (get_node_sv n h) (\<lambda>v h. py_return (sv_is_ready (sv_at h v)) h)
     | Some p \<Rightarrow>
         py_bind (get_node_sv (node_at h p) h) (\<lambda>w h.
           if \<not> sv_is_ready (sv_at h w) then py_return False h
           else py_bind (get_node_sv n h) (\<lambda>v h. py_return (sv_is_ready (sv_at h v)) h)))"

definition native_wait_ready :: "'c graph_node \<Rightarrow> 'c graph_heap \<Rightarrow> (bool, 'c graph_heap) py" where
  "native_wait_ready n h = py_return (list_all (\<lambda>v. sv_is_ready (sv_at h v)) (dict_values (input_vars n))) h"

text \<open>\<^verbatim>\<open>asyncio.wait\<close> refuses an empty list of coroutines.\<close>

definition native_wait_activated :: "'c graph_node \<Rightarrow> 'c graph_heap \<Rightarrow> (bool, 'c graph_heap) py" where
  "native_wait_activated n h =
    (if output_vars n = [] then py_raise ValueError h
     else py_return (list_ex (\<lambda>v. sv_is_activated (sv_at h v)) (dict_values (output_vars n))) h)"

definition get_native_param_info :: "'c graph_node \<Rightarrow> 's \<Rightarrow> (param_info list, 's) py" where
  "get_native_param_info n s = py_bind (parrot_assert (is_inserted n) s) (\<lambda>_ s. py_return (node_param_info n) s)"

definition get_prev_producers :: "'c graph_heap \<Rightarrow> 'c graph_node \<Rightarrow> node_ref list" where
  "get_prev_producers h n =
    foldl (\<lambda>acc v. case producer (sv_at h v) of None \<Rightarrow> acc | Some p \<Rightarrow> acc @ [p]) [] (dict_values (input_vars n))"

definition get_next_consumers :: "'c graph_heap \<Rightarrow> 'c graph_node \<Rightarrow> node_ref list" where
  "get_next_consumers h n = foldl (\<lambda>acc v. acc @ consumers (sv_at h v)) [] (dict_values (output_vars n))"

section \<open>Chains\<close>

subsection \<open>The iterators\<close>

text \<open>The nodes that the loops over \<^verbatim>\<open>iter()\<close>, \<^verbatim>\<open>iter_fill()\<close> and the request's \<^verbatim>\<open>iter()\<close> visit.\<close>

partial_function (option) completion_iter :: "'c graph_node list \<Rightarrow> node_ref option \<Rightarrow> node_ref list option" where
  [code]: "completion_iter nodes cur =
    (case cur of
       None \<Rightarrow> Some []
     | Some n \<Rightarrow>
        if (case edge_a_prev (nodes ! n) of None \<Rightarrow> False | Some p \<Rightarrow> is_gen (nodes ! p)) then Some []
        else Option.bind (completion_iter nodes (edge_a_next (nodes ! n))) (\<lambda>ns. Some (n # ns)))"

text \<open>
  The iterator over the fills reads \<^verbatim>\<open>is_gen\<close> of the current node: past the end of the chain that is an
  \<^verbatim>\<open>AttributeError\<close>, raised after the nodes before it were visited.
\<close>

partial_function (option) fill_iter :: "'c graph_node list \<Rightarrow> node_ref option \<Rightarrow> (node_ref list \<times> py_error option) option" where
  [code]: "fill_iter nodes cur =
    (case cur of
       None \<Rightarrow> Some ([], Some AttributeError)
     | Some n \<Rightarrow>
        if is_gen (nodes ! n) then Some ([], None)
        else Option.bind (fill_iter nodes (edge_a_next (nodes ! n))) (\<lambda>(ns, e). Some (n # ns, e)))"

partial_function (option) request_iter :: "'c graph_node list \<Rightarrow> node_ref option \<Rightarrow> node_ref list option" where
  [code]: "request_iter nodes cur =
    (case cur of
       None \<Rightarrow> Some []
     | Some n \<Rightarrow> Option.bind (request_iter nodes (edge_a_next (nodes ! n))) (\<lambda>ns. Some (n # ns)))"

subsection \<open>Building chains\<close>

definition new_completion_chain ::
  "request_ref \<Rightarrow> node_ref option \<Rightarrow> node_ref \<Rightarrow> 'c graph_heap \<Rightarrow> (chain_ref, 'c graph_heap) pyo" where
  "new_completion_chain rq first gen h =
    Option.bind (completion_iter (heap_nodes h) first) (\<lambda>ns.
      let c = length (heap_chains h);
          h = h\<lparr>heap_chains := heap_chains h @
                  [\<lparr>chain_request = rq, chain_first_node = first, chain_gen_node = gen, chain_group_list = []\<rparr>]\<rparr>;
          h = foldl (\<lambda>h n. on_node n (set_comp_chain c) h) h ns
      in Some (py_return c h))"

definition new_request_chain ::
  "int \<Rightarrow> int \<Rightarrow> node_ref \<Rightarrow> semantic_call_metadata \<Rightarrow> 'c graph_heap \<Rightarrow> request_ref \<times> 'c graph_heap" where
  "new_request_chain rid sid first m h =
    (length (heap_requests h),
     h\<lparr>heap_requests := heap_requests h @
         [\<lparr>chain_req_id = rid, chain_sess_id = sid, first_node = first, chain_meta = m, comp_chains = [],
           request_param_info = []\<rparr>]\<rparr>)"

definition on_request :: "request_ref \<Rightarrow> (request_chain \<Rightarrow> request_chain) \<Rightarrow> 'c graph_heap \<Rightarrow> 'c graph_heap" where
  "on_request r f h = h\<lparr>heap_requests := (heap_requests h)[r := f (request_at h r)]\<rparr>"

definition request_sv_created :: "request_ref \<Rightarrow> 'c graph_heap \<Rightarrow> (bool, 'c graph_heap) py" where
  "request_sv_created r h =
    py_bind (get_node_sv (node_at h (first_node (request_at h r))) h) (\<lambda>_ h. py_return True h)"

definition request_is_inserted :: "request_ref \<Rightarrow> 'c graph_heap \<Rightarrow> bool" where
  "request_is_inserted r h = is_inserted (node_at h (first_node (request_at h r)))"

definition get_request_param_info :: "request_ref \<Rightarrow> 'c graph_heap \<Rightarrow> (param_info list, 'c graph_heap) py" where
  "get_request_param_info r h =
    py_bind (parrot_assert (request_is_inserted r h) h) (\<lambda>_ h. py_return (request_param_info (request_at h r)) h)"

text \<open>\<^verbatim>\<open>RequestChain.from_nodes\<close>: the loop keeps the previous node and the first node of the next chain.\<close>

definition from_nodes_step ::
  "request_ref \<Rightarrow> node_ref \<Rightarrow> node_ref \<times> node_ref option \<Rightarrow> 'c graph_heap \<Rightarrow>
   (node_ref \<times> node_ref option, 'c graph_heap) pyo" where
  "from_nodes_step rq n loc h =
    (let (prev_node, chain_first) = loc; h = link_edge_a_with n prev_node h
     in if is_gen (node_at h n) then
          pyo_bind (new_completion_chain rq chain_first n h) (\<lambda>c h.
            let h = on_request rq (\<lambda>r. r\<lparr>comp_chains := comp_chains r @ [c]\<rparr>) h
            in Some (py_return (n, edge_a_next (node_at h n)) h))
        else Some (py_return (n, chain_first) h))"

definition from_nodes :: "node_ref list \<Rightarrow> semantic_call_metadata \<Rightarrow> 'c graph_heap \<Rightarrow> (request_ref, 'c graph_heap) pyo" where
  "from_nodes nodes m h =
    (case nodes of
       [] \<Rightarrow> Some (py_raise ParrotError h)
     | n0 # rest \<Rightarrow>
        (let (rq, h) = new_request_chain 0 0 n0 m h
         in pyo_bind (pyo_fold (from_nodes_step rq) rest (n0, Some n0) h) (\<lambda>_ h. Some (py_return rq h))))"

text \<open>
  \<^verbatim>\<open>RequestChain.from_chunked_request\<close>. \<open>chunk_node\<close> is the node of one chunk; \<open>chunked_step\<close> is the body of
  the loop, on the previous node, the request and the first node of the next chain; before the
  first chunk the previous node is \<^verbatim>\<open>None\<close> and the other two are unbound.
\<close>

definition chunk_node ::
  "(json, semantic_function_parameter) dict \<Rightarrow> body_chunk \<Rightarrow> 's \<Rightarrow> ('c node_kind, 's) py" where
  "chunk_node params chunk s =
    (case chunk of
       TextChunk _ t \<Rightarrow> py_return (ConstantFill t) s
     | PlaceholderChunk _ nm \<Rightarrow>
        py_bind (dict_get params (JStr nm) s) (\<lambda>parameter s.
          py_return (if py_truth (is_output parameter) then PlaceholderGen parameter else PlaceholderFill parameter) s))"

type_synonym chunk_locals = "node_ref \<times> request_ref \<times> node_ref"

definition chunked_step ::
  "chunked_request \<Rightarrow> body_chunk \<Rightarrow> chunk_locals option \<Rightarrow> 'c graph_heap \<Rightarrow> (chunk_locals option, 'c graph_heap) pyo" where
  "chunked_step creq chunk loc h =
    pyo_bind (Some (chunk_node (parameters_map creq) chunk h)) (\<lambda>k h.
      let (n, h) = alloc_node (new_semantic_node k) h;
          h = (case loc of None \<Rightarrow> h | Some (prev_node, _) \<Rightarrow> link_edge_a_with n prev_node h);
          ((rq, chain_first), h) =
            (case loc of
               None \<Rightarrow>
                 (let (rq, h) = new_request_chain (request_id creq) (session_id creq) n (metadata creq) h in ((rq, n), h))
             | Some (_, rq, chain_first) \<Rightarrow> ((rq, chain_first), h))
      in if is_gen (node_at h n) then
           pyo_bind (new_completion_chain rq (Some chain_first) n h) (\<lambda>c h.
             let h = on_request rq (\<lambda>r. r\<lparr>comp_chains := comp_chains r @ [c]\<rparr>) h
             in case edge_a_prev (node_at h n) of
                  None \<Rightarrow> Some (py_raise ParrotError h)
                | Some p \<Rightarrow> Some (py_return (Some (n, rq, p)) h))
         else Some (py_return (Some (n, rq, chain_first)) h))"

definition from_chunked_request :: "chunked_request \<Rightarrow> 'c graph_heap \<Rightarrow> (request_ref, 'c graph_heap) pyo" where
  "from_chunked_request creq h =
    pyo_bind (pyo_fold (chunked_step creq) (body creq) None h) (\<lambda>loc h.
      case loc of None \<Rightarrow> Some (py_raise UnboundLocalError h) | Some (_, rq, _) \<Rightarrow> Some (py_return rq h))"

section \<open>The graph\<close>

record compute_graph =
  graph_nodes :: "node_ref list"
  graph_chains :: "chain_ref list"
  node_id_pool :: recycle_pool

definition new_compute_graph :: compute_graph where
  "new_compute_graph = \<lparr>graph_nodes = [], graph_chains = [], node_id_pool = new_pool None False\<rparr>"

type_synonym 'c graph_state = "compute_graph \<times> 'c graph_heap"

text \<open>\<^verbatim>\<open>for var in vars: op(var)\<close> on the heap.\<close>

definition for_svs ::
  "(semantic_variable \<Rightarrow> (unit, semantic_variable) py) \<Rightarrow> sv_ref list \<Rightarrow> 'c graph_heap \<Rightarrow> (unit, 'c graph_heap) py" where
  "for_svs op vs h = py_for (\<lambda>v h. on_sv v op h) vs h"

definition insert_node :: "node_ref \<Rightarrow> 'c graph_state \<Rightarrow> (unit, 'c graph_state) py" where
  "insert_node n s =
    (let (g, h) = s; g = g\<lparr>graph_nodes := List.insert n (graph_nodes g)\<rparr>
     in py_bind (py_lift (\<lambda>p. (g\<lparr>node_id_pool := p\<rparr>, h)) (pool_allocate (node_id_pool g))) (\<lambda>i (g, h).
        let h = on_node n (set_id_in_graph i) h; nd = node_at h n
        in if \<not> is_native nd then
             py_bind (get_node_sv nd (g, h)) (\<lambda>v (g, h).
               py_lift (Pair g) (on_sv v (if is_gen nd then assign_producer n else add_consumer n) h))
           else
             py_lift (Pair g)
               (py_bind (for_svs (add_consumer n) (dict_values (input_vars nd)) h) (\<lambda>_ h.
                  for_svs (assign_producer n) (dict_values (output_vars nd)) h))))"

text \<open>The body of the loop of \<^verbatim>\<open>insert_and_update_request_chain\<close>.\<close>

definition insert_chain_node :: "request_ref \<Rightarrow> node_ref \<Rightarrow> 'c graph_state \<Rightarrow> (unit, 'c graph_state) py" where
  "insert_chain_node rq n s =
    py_bind (insert_node n s) (\<lambda>_ (g, h).
    py_bind (get_node_sv (node_at h n) (g, h)) (\<lambda>_ (g, h).
      if has_placeholder (node_at h n) then
        (case placeholder_param (node_at h n) of
           None \<Rightarrow> py_raise AttributeError (g, h)
         | Some parameter \<Rightarrow>
             py_return () (g, on_request rq (\<lambda>r. r\<lparr>request_param_info := request_param_info r @
               [\<lparr>info_parameter_name = param_name parameter, info_is_output = is_output parameter,
                 info_var_name = node_sv_name h (node_at h n), info_var_id = node_sv_id h (node_at h n)\<rparr>]\<rparr>) h))
      else py_return () (g, h)))"

definition insert_and_update_request_chain :: "request_ref \<Rightarrow> 'c graph_state \<Rightarrow> (unit, 'c graph_state) pyo" where
  "insert_and_update_request_chain rq s =
    pyo_bind (Some (py_lift (Pair (fst s)) (request_sv_created rq (snd s)))) (\<lambda>created s.
    pyo_bind (Some (parrot_assert created s)) (\<lambda>_ s.
    pyo_bind (Some (parrot_assert (\<not> request_is_inserted rq (snd s)) s)) (\<lambda>_ s.
    Option.bind (request_iter (heap_nodes (snd s)) (Some (first_node (request_at (snd s) rq)))) (\<lambda>ns.
      pyo_bind (Some (py_for (insert_chain_node rq) ns s)) (\<lambda>_ (g, h).
        Some (py_return () (g\<lparr>graph_chains := graph_chains g @ comp_chains (request_at h rq)\<rparr>, h)))))))"

text \<open>The body of the loop of \<^verbatim>\<open>insert_native_func_node\<close>.\<close>

definition native_param_step :: "node_ref \<Rightarrow> json \<times> function_parameter \<Rightarrow> 'c graph_state \<Rightarrow> (unit, 'c graph_state) py" where
  "native_param_step n kp s =
    (let (key, param) = kp; (g, h) = s; nd = node_at h n
     in if has_value param then py_return () (g, h)
        else py_bind (dict_get (if py_truth (is_output param) then output_vars nd else input_vars nd) key (g, h))
          (\<lambda>v (g, h). py_return () (g, on_node n (\<lambda>x. x\<lparr>node_param_info := node_param_info x @
             [\<lparr>info_parameter_name = param_name param, info_is_output = is_output param,
               info_var_name = var_name (sv_at h v), info_var_id = var_id (sv_at h v)\<rparr>]\<rparr>) h)))"

definition insert_native_func_node :: "node_ref \<Rightarrow> 'c graph_state \<Rightarrow> (unit, 'c graph_state) py" where
  "insert_native_func_node n s =
    py_bind (insert_node n s) (\<lambda>_ s.
      case node_kind (node_at (snd s) n) of
        NativeFuncNode rq \<Rightarrow> py_for (native_param_step n) (native_parameters_map rq) s
      | _ \<Rightarrow> py_raise AttributeError s)"

text \<open>The body of the loop of \<^verbatim>\<open>remove_completion_chain\<close>: \<^verbatim>\<open>set.remove\<close> raises \<^verbatim>\<open>KeyError\<close>, \<^verbatim>\<open>list.remove\<close> \<^verbatim>\<open>ValueError\<close>.\<close>

definition remove_node :: "node_ref \<Rightarrow> 'c graph_state \<Rightarrow> (unit, 'c graph_state) py" where
  "remove_node n s =
    (let (g, h) = s
     in if n \<notin> set (graph_nodes g) then py_raise KeyError (g, h)
        else let g = g\<lparr>graph_nodes := remove1 n (graph_nodes g)\<rparr>
             in py_bind (get_id_in_graph (node_at h n) (g, h)) (\<lambda>i (g, h).
                  py_lift (\<lambda>p. (g\<lparr>node_id_pool := p\<rparr>, h)) (pool_free i (node_id_pool g))))"

definition remove_completion_chain :: "chain_ref \<Rightarrow> 'c graph_state \<Rightarrow> (unit, 'c graph_state) pyo" where
  "remove_completion_chain c s =
    (let (g, h) = s
     in if c \<notin> set (graph_chains g) then Some (py_raise ValueError (g, h))
        else let g = g\<lparr>graph_chains := remove1 c (graph_chains g)\<rparr>
             in Option.bind (completion_iter (heap_nodes h) (chain_first_node (chain_at h c))) (\<lambda>ns.
                  Some (py_for remove_node ns (g, h))))"

section \<open>The chains of a request\<close>

definition gen_kind :: "'c node_kind \<Rightarrow> bool" where
  "gen_kind k = (case k of PlaceholderGen _ \<Rightarrow> True | _ \<Rightarrow> False)"

lemma is_gen_kind: "is_gen n = gen_kind (node_kind n)"
  by (simp add: is_gen_def gen_kind_def)

text \<open>The nodes of a request in a row from reference \<open>b\<close> on: their kinds and completion chains.\<close>

definition chain_node_at :: "nat \<Rightarrow> 'c node_kind list \<Rightarrow> chain_ref option list \<Rightarrow> nat \<Rightarrow> 'c graph_node" where
  "chain_node_at b ks cov i =
    (new_semantic_node (ks ! i))
      \<lparr>completion_chain_of := cov ! i,
       edge_a_prev := (if i = 0 then None else Some (b + i - 1)),
       edge_a_next := (if Suc i < length ks then Some (b + Suc i) else None)\<rparr>"

definition chain_nodes :: "nat \<Rightarrow> 'c node_kind list \<Rightarrow> chain_ref option list \<Rightarrow> 'c graph_node list" where
  "chain_nodes b ks cov = map (chain_node_at b ks cov) [0..<length ks]"

lemma length_chain_nodes [simp]: "length (chain_nodes b ks cov) = length ks"
  by (simp add: chain_nodes_def)

lemma nth_chain_nodes [simp]: "i < length ks \<Longrightarrow> chain_nodes b ks cov ! i = chain_node_at b ks cov i"
  by (simp add: chain_nodes_def)

lemma chain_node_at_simps [simp]:
  "node_kind (chain_node_at b ks cov i) = ks ! i"
  "edge_a_prev (chain_node_at b ks cov i) = (if i = 0 then None else Some (b + i - 1))"
  "edge_a_next (chain_node_at b ks cov i) = (if Suc i < length ks then Some (b + Suc i) else None)"
  "completion_chain_of (chain_node_at b ks cov i) = cov ! i"
  by (simp_all add: chain_node_at_def new_semantic_node_def)

text \<open>The kinds and edges of the nodes from \<open>b\<close> on are those of a row.\<close>

definition row :: "'c graph_heap \<Rightarrow> nat \<Rightarrow> 'c node_kind list \<Rightarrow> bool" where
  "row h b ks \<longleftrightarrow>
    (\<forall>i < length ks. node_kind (node_at h (b + i)) = ks ! i \<and>
       edge_a_prev (node_at h (b + i)) = (if i = 0 then None else Some (b + i - 1)) \<and>
       edge_a_next (node_at h (b + i)) = (if Suc i < length ks then Some (b + Suc i) else None))"

lemma row_chain_nodes:
  assumes "heap_nodes h = pre @ chain_nodes (length pre) ks cov @ post"
  shows "row h (length pre) ks"
  using assms by (simp add: row_def nth_append)

text \<open>From \<open>i\<close> up to and with the first Gen node, or to the end.\<close>

function walk :: "'c node_kind list \<Rightarrow> nat \<Rightarrow> nat list" where
  "walk ks i = (if i < length ks then i # (if gen_kind (ks ! i) then [] else walk ks (Suc i)) else [])"
  by pat_completeness auto
termination by (relation "measure (\<lambda>(ks, i). length ks - i)") auto

declare walk.simps [simp del]

definition chain_range :: "'c node_kind list \<Rightarrow> nat \<Rightarrow> nat list" where
  "chain_range ks i = (if 0 < i \<and> gen_kind (ks ! (i - 1)) then [] else walk ks i)"

lemma completion_iter_row:
  assumes "row h b ks"
  shows "i < length ks \<Longrightarrow> completion_iter (heap_nodes h) (Some (b + i)) = Some (map ((+) b) (chain_range ks i))"
proof (induction "length ks - i" arbitrary: i)
  case (Suc m)
  then have r: "node_kind (node_at h (b + i)) = ks ! i"
      "edge_a_prev (node_at h (b + i)) = (if i = 0 then None else Some (b + i - 1))"
      "edge_a_next (node_at h (b + i)) = (if Suc i < length ks then Some (b + Suc i) else None)"
    using assms by (simp_all add: row_def)
  have pg: "0 < i \<Longrightarrow> is_gen (node_at h (b + i - 1)) = gen_kind (ks ! (i - 1))"
    using assms Suc.prems by (cases i) (auto simp: row_def is_gen_kind)
  show ?case
  proof (cases "0 < i \<and> gen_kind (ks ! (i - 1))")
    case True
    then show ?thesis by (subst completion_iter.simps) (simp add: r pg [simplified] chain_range_def)
  next
    case False
    then have w: "chain_range ks i = walk ks i" by (auto simp: chain_range_def)
    have step: "completion_iter (heap_nodes h) (Some (b + i)) =
        Option.bind (completion_iter (heap_nodes h) (if Suc i < length ks then Some (b + Suc i) else None)) (\<lambda>ns. Some ((b + i) # ns))"
      using False by (subst completion_iter.simps) (auto simp: r pg [simplified])
    show ?thesis
    proof (cases "Suc i < length ks")
      case True
      have "completion_iter (heap_nodes h) (Some (b + Suc i)) = Some (map ((+) b) (chain_range ks (Suc i)))"
        using Suc.hyps(1) [of "Suc i"] Suc.hyps(2) True by simp
      then show ?thesis unfolding step w using True Suc.prems
        by (simp add: walk.simps [of ks i] chain_range_def)
    next
      case last: False
      have "completion_iter (heap_nodes h) None = Some []" by (subst completion_iter.simps) simp
      then show ?thesis using last Suc.prems by (simp add: step w walk.simps [of ks i] walk.simps [of ks "Suc i"])
    qed
  qed
qed simp

lemma request_iter_row:
  assumes "row h b ks"
  shows "i < length ks \<Longrightarrow> request_iter (heap_nodes h) (Some (b + i)) = Some (map ((+) b) [i..<length ks])"
proof (induction "length ks - i" arbitrary: i)
  case (Suc m)
  then have r: "edge_a_next (node_at h (b + i)) = (if Suc i < length ks then Some (b + Suc i) else None)"
    using assms by (simp add: row_def)
  show ?case
  proof (cases "Suc i < length ks")
    case True
    then show ?thesis
      using Suc.hyps(1) [of "Suc i"] Suc.hyps(2) Suc.prems
      by (subst request_iter.simps) (simp add: r upt_conv_Cons [of i])
  next
    case False
    have "request_iter (heap_nodes h) None = Some []" by (subst request_iter.simps) simp
    with False Suc.prems show ?thesis
      by (subst request_iter.simps) (simp add: r upt_conv_Cons [of i])
  qed
qed simp

lemma fill_iter_row:
  assumes "row h b ks"
  shows "i \<le> j \<Longrightarrow> j < length ks \<Longrightarrow> gen_kind (ks ! j) \<Longrightarrow> (\<And>l. i \<le> l \<Longrightarrow> l < j \<Longrightarrow> \<not> gen_kind (ks ! l)) \<Longrightarrow>
    fill_iter (heap_nodes h) (Some (b + i)) = Some (map ((+) b) [i..<j], None)"
proof (induction "j - i" arbitrary: i)
  case 0
  then show ?case using assms by (subst fill_iter.simps) (simp add: row_def is_gen_kind)
next
  case (Suc m)
  then have r: "\<not> is_gen (node_at h (b + i))" "edge_a_next (node_at h (b + i)) = Some (b + Suc i)"
    using assms by (simp_all add: row_def is_gen_kind)
  have "fill_iter (heap_nodes h) (Some (b + Suc i)) = Some (map ((+) b) [Suc i..<j], None)"
    using Suc.hyps(2) Suc.prems by (intro Suc.hyps(1)) auto
  then show ?case
    using Suc.hyps(2) by (subst fill_iter.simps) (simp add: r upt_conv_Cons [of i])
qed


text \<open>
  What the loop over the chunks builds, as a fold over the kinds: the kinds so far, the offset of
  the first node of the next chain, the chain of every node, the chains.
\<close>

type_synonym 'c layout = "'c node_kind list \<times> nat \<times> chain_ref option list \<times> completion_chain list"

definition assign_chain :: "chain_ref \<Rightarrow> nat list \<Rightarrow> chain_ref option list \<Rightarrow> chain_ref option list" where
  "assign_chain c is cov = foldl (\<lambda>cov i. cov[i := Some c]) cov is"

definition layout_step :: "nat \<Rightarrow> request_ref \<Rightarrow> chain_ref \<Rightarrow> 'c layout \<Rightarrow> 'c node_kind \<Rightarrow> 'c layout" where
  "layout_step b rq c0 l k =
    (let (ks, f, cov, chs) = l
     in if gen_kind k then
          (ks @ [k], length ks - 1, assign_chain (c0 + length chs) (chain_range (ks @ [k]) f) (cov @ [None]),
           chs @ [\<lparr>chain_request = rq, chain_first_node = Some (b + f), chain_gen_node = b + length ks, chain_group_list = []\<rparr>])
        else (ks @ [k], f, cov @ [None], chs))"

definition layout_heap :: "chunked_request \<Rightarrow> 'c graph_heap \<Rightarrow> 'c layout \<Rightarrow> 'c graph_heap" where
  "layout_heap creq h0 l =
    (let (ks, f, cov, chs) = l
     in \<lparr>heap_svs = heap_svs h0,
         heap_nodes = heap_nodes h0 @ chain_nodes (length (heap_nodes h0)) ks cov,
         heap_chains = heap_chains h0 @ chs,
         heap_requests = heap_requests h0 @
           [\<lparr>chain_req_id = request_id creq, chain_sess_id = session_id creq, first_node = length (heap_nodes h0),
             chain_meta = metadata creq, comp_chains = [length (heap_chains h0)..<length (heap_chains h0) + length chs],
             request_param_info = []\<rparr>],
         heap_groups = heap_groups h0\<rparr>)"

lemma length_assign_chain [simp]: "length (assign_chain c is cov) = length cov"
  by (induction "is" arbitrary: cov) (simp_all add: assign_chain_def)

lemma nth_assign_chain:
  "i < length cov \<Longrightarrow> assign_chain c is cov ! i = (if i \<in> set is then Some c else cov ! i)"
proof (induction "is" arbitrary: cov)
  case Nil
  then show ?case by (simp add: assign_chain_def)
next
  case (Cons j js)
  have "assign_chain c (j # js) cov = assign_chain c js (cov[j := Some c])" by (simp add: assign_chain_def)
  with Cons show ?case by (simp add: nth_list_update)
qed

text \<open>One more node, linked behind the last one.\<close>

lemma chain_nodes_snoc:
  assumes "length ks = Suc m" and "length cov = Suc m"
  shows "(chain_nodes b ks cov)[m := (chain_node_at b ks cov m)\<lparr>edge_a_next := Some (b + Suc m)\<rparr>] @
      [(new_semantic_node k)\<lparr>edge_a_prev := Some (b + m)\<rparr>] =
    chain_nodes b (ks @ [k]) (cov @ [None])"
proof (rule nth_equalityI)
  fix i
  assume "i < length ((chain_nodes b ks cov)[m := (chain_node_at b ks cov m)\<lparr>edge_a_next := Some (b + Suc m)\<rparr>] @
      [(new_semantic_node k)\<lparr>edge_a_prev := Some (b + m)\<rparr>])"
  then consider "i < m" | "i = m" | "i = Suc m" using assms by fastforce
  then show "((chain_nodes b ks cov)[m := (chain_node_at b ks cov m)\<lparr>edge_a_next := Some (b + Suc m)\<rparr>] @
      [(new_semantic_node k)\<lparr>edge_a_prev := Some (b + m)\<rparr>]) ! i = chain_nodes b (ks @ [k]) (cov @ [None]) ! i"
    using assms by cases (simp_all add: nth_append chain_node_at_def new_semantic_node_def)
qed (simp add: assms)

lemma chain_nodes_update:
  assumes "i < length ks" and "length cov = length ks"
  shows "(chain_nodes b ks cov)[i := set_comp_chain c (chain_node_at b ks cov i)] = chain_nodes b ks (cov[i := Some c])"
proof (rule nth_equalityI)
  fix j
  assume "j < length ((chain_nodes b ks cov)[i := set_comp_chain c (chain_node_at b ks cov i)])"
  then show "(chain_nodes b ks cov)[i := set_comp_chain c (chain_node_at b ks cov i)] ! j =
      chain_nodes b ks (cov[i := Some c]) ! j"
    using assms by (cases "j = i") (simp_all add: chain_node_at_def set_comp_chain_def)
qed simp

lemma on_node_chain:
  assumes "i < length ks" and "length cov = length ks" and "heap_nodes h = pre @ chain_nodes (length pre) ks cov"
  shows "on_node (length pre + i) (set_comp_chain c) h = h\<lparr>heap_nodes := pre @ chain_nodes (length pre) ks (cov[i := Some c])\<rparr>"
  using assms by (simp add: on_node_def nth_append list_update_append chain_nodes_update)

lemma foldl_on_node_chain:
  assumes "\<forall>i \<in> set is. i < length ks" and "length cov = length ks"
    and "heap_nodes h = pre @ chain_nodes (length pre) ks cov"
  shows "foldl (\<lambda>h n. on_node n (set_comp_chain c) h) h (map ((+) (length pre)) is) =
    h\<lparr>heap_nodes := pre @ chain_nodes (length pre) ks (assign_chain c is cov)\<rparr>"
  using assms
proof (induction "is" arbitrary: h cov)
  case Nil
  then show ?case by (simp add: assign_chain_def)
next
  case (Cons i js)
  let ?h = "on_node (length pre + i) (set_comp_chain c) h"
  have upd: "?h = h\<lparr>heap_nodes := pre @ chain_nodes (length pre) ks (cov[i := Some c])\<rparr>"
    using Cons.prems by (intro on_node_chain) auto
  have "foldl (\<lambda>h n. on_node n (set_comp_chain c) h) ?h (map ((+) (length pre)) js) =
      ?h\<lparr>heap_nodes := pre @ chain_nodes (length pre) ks (assign_chain c js (cov[i := Some c]))\<rparr>"
    using Cons.prems(1,2) by (intro Cons.IH) (simp_all add: upd)
  then show ?case by (simp add: assign_chain_def upd)
qed

definition chunk_kind :: "(json, semantic_function_parameter) dict \<Rightarrow> body_chunk \<Rightarrow> 'c node_kind option" where
  "chunk_kind params chunk =
    (case chunk of
       TextChunk _ t \<Rightarrow> Some (ConstantFill t)
     | PlaceholderChunk _ nm \<Rightarrow>
         map_option (\<lambda>p. if py_truth (is_output p) then PlaceholderGen p else PlaceholderFill p) (map_of params (JStr nm)))"

lemma chunk_node_kind: "chunk_kind params chunk = Some k \<Longrightarrow> chunk_node params chunk s = py_return k s"
  by (auto simp: chunk_kind_def chunk_node_def split: body_chunk.splits)

definition layout_ok :: "'c layout \<Rightarrow> bool" where
  "layout_ok l \<longleftrightarrow> (let (ks, f, cov, chs) = l in ks \<noteq> [] \<and> length cov = length ks \<and> f < length ks)"

definition layout_locals :: "nat \<Rightarrow> request_ref \<Rightarrow> 'c layout \<Rightarrow> chunk_locals" where
  "layout_locals b rq l = (let (ks, f, cov, chs) = l in (b + (length ks - 1), rq, b + f))"

lemma layout_ok_step: "layout_ok l \<Longrightarrow> layout_ok (layout_step b rq c0 l k)"
  by (cases l) (auto simp: layout_ok_def layout_step_def Let_def)

lemma is_gen_new [simp]: "is_gen (new_semantic_node k) = gen_kind k"
  by (simp add: is_gen_kind new_semantic_node_def)

lemma chunked_step_first:
  assumes "chunk_kind (parameters_map creq) chunk = Some k" and "\<not> gen_kind k"
  shows "chunked_step creq chunk None h0 =
    Some (py_return (Some (layout_locals (length (heap_nodes h0)) (length (heap_requests h0)) ([k], 0, [None], [])))
      (layout_heap creq h0 ([k], 0, [None], [])))"
proof -
  have "[new_semantic_node k] = chain_nodes (length (heap_nodes h0)) [k] [None]"
    by (simp add: chain_nodes_def chain_node_at_def new_semantic_node_def)
  then show ?thesis
    using assms
    by (cases h0) (simp add: chunked_step_def chunk_node_kind alloc_node_def new_request_chain_def layout_heap_def
        layout_locals_def Let_def nth_append)
qed

lemma set_chain_range: "i \<in> set (walk ks f) \<Longrightarrow> f \<le> i \<and> i < length ks"
proof (induction ks f rule: walk.induct)
  case (1 ks i)
  then show ?case by (subst (asm) (2) walk.simps) (auto split: if_splits)
qed

lemma link_layout:
  assumes "layout_ok (ks, f, cov, chs)" and "b = length (heap_nodes h0)"
  shows "link_edge_a_with (b + length ks) (b + (length ks - 1))
      (snd (alloc_node (new_semantic_node k) (layout_heap creq h0 (ks, f, cov, chs)))) =
    (layout_heap creq h0 (ks, f, cov, chs))\<lparr>heap_nodes := heap_nodes h0 @ chain_nodes b (ks @ [k]) (cov @ [None])\<rparr>"
proof -
  obtain m where m: "length ks = Suc m" "length cov = Suc m"
    using assms(1) by (cases ks) (auto simp: layout_ok_def)
  show ?thesis
    using assms(2) m chain_nodes_snoc [OF m, of b k]
    by (simp add: link_edge_a_with_def on_node_def alloc_node_def layout_heap_def list_update_append nth_append)
qed

lemma chunked_step_next:
  assumes "chunk_kind (parameters_map creq) chunk = Some k" and ok: "layout_ok l"
    and b: "b = length (heap_nodes h0)" and rq: "rq = length (heap_requests h0)" and c0: "c0 = length (heap_chains h0)"
  shows "chunked_step creq chunk (Some (layout_locals b rq l)) (layout_heap creq h0 l) =
    Some (py_return (Some (layout_locals b rq (layout_step b rq c0 l k))) (layout_heap creq h0 (layout_step b rq c0 l k)))"
proof -
  obtain ks f cov chs where l: "l = (ks, f, cov, chs)" by (cases l) auto
  define h1 where "h1 = (layout_heap creq h0 (ks, f, cov, chs))\<lparr>heap_nodes := heap_nodes h0 @ chain_nodes b (ks @ [k]) (cov @ [None])\<rparr>"
  have len: "length (heap_nodes (layout_heap creq h0 (ks, f, cov, chs))) = b + length ks"
    by (simp add: layout_heap_def b)
  have al: "fst (alloc_node (new_semantic_node k) (layout_heap creq h0 (ks, f, cov, chs))) = b + length ks"
    by (simp add: alloc_node_def len)
  have lk: "link_edge_a_with (b + length ks) (b + (length ks - 1))
      (snd (alloc_node (new_semantic_node k) (layout_heap creq h0 (ks, f, cov, chs)))) = h1"
    unfolding h1_def by (rule link_layout) (use ok l b in auto)
  have okl: "ks \<noteq> []" "length cov = length ks" "f < length ks" using ok by (auto simp: layout_ok_def l)
  have row1: "row h1 b (ks @ [k])"
    unfolding b by (rule row_chain_nodes [where post = "[]" and cov = "cov @ [None]"]) (simp add: h1_def b)
  have kn: "node_kind (node_at h1 (b + length ks)) = k" "edge_a_prev (node_at h1 (b + length ks)) = Some (b + (length ks - 1))"
    using row1 okl by (simp_all add: row_def)
  have step: "chunked_step creq chunk (Some (layout_locals b rq l)) (layout_heap creq h0 l) =
      (if gen_kind k then
         pyo_bind (new_completion_chain rq (Some (b + f)) (b + length ks) h1) (\<lambda>c h.
             let h = on_request rq (\<lambda>r. r\<lparr>comp_chains := comp_chains r @ [c]\<rparr>) h
             in case edge_a_prev (node_at h (b + length ks)) of
                  None \<Rightarrow> Some (py_raise ParrotError h)
                | Some p \<Rightarrow> Some (py_return (Some (b + length ks, rq, p)) h))
       else Some (py_return (Some (b + length ks, rq, b + f)) h1))"
    unfolding chunked_step_def chunk_node_kind [OF assms(1)]
    by (simp add: l layout_locals_def case_prod_beta al lk Let_def is_gen_kind kn cong: option.case_cong del: One_nat_def)
  show ?thesis
  proof (cases "gen_kind k")
    case False
    then show ?thesis unfolding step by (simp add: l layout_locals_def layout_step_def h1_def layout_heap_def b)
  next
    case True
    let ?is = "chain_range (ks @ [k]) f" and ?c = "c0 + length chs"
    have it: "completion_iter (heap_nodes h1) (Some (b + f)) = Some (map ((+) b) ?is)"
      by (rule completion_iter_row [OF row1]) (use okl in simp)
    define h2 where "h2 = h1\<lparr>heap_chains := heap_chains h1 @
      [\<lparr>chain_request = rq, chain_first_node = Some (b + f), chain_gen_node = b + length ks, chain_group_list = []\<rparr>]\<rparr>"
    have "foldl (\<lambda>h n. on_node n (set_comp_chain ?c) h) h2 (map ((+) b) ?is) =
        h2\<lparr>heap_nodes := heap_nodes h0 @ chain_nodes b (ks @ [k]) (assign_chain ?c ?is (cov @ [None]))\<rparr>"
      unfolding b by (rule foldl_on_node_chain)
        (auto simp: okl h2_def h1_def b chain_range_def dest: set_chain_range split: if_splits)
    moreover have "length (heap_chains h1) = ?c" by (simp add: h1_def layout_heap_def c0)
    ultimately have nc: "new_completion_chain rq (Some (b + f)) (b + length ks) h1 =
        Some (py_return ?c (h2\<lparr>heap_nodes := heap_nodes h0 @ chain_nodes b (ks @ [k]) (assign_chain ?c ?is (cov @ [None]))\<rparr>))"
      by (simp add: new_completion_chain_def it Let_def flip: h2_def)
    show ?thesis
      unfolding step nc if_P [OF True] pyo_bind_simps using True okl
      by (simp add: on_request_def Let_def l layout_locals_def layout_step_def h2_def h1_def layout_heap_def
          b [symmetric] rq c0 nth_append)
  qed
qed

lemma layout_ok_first: "layout_ok ([k], 0, [None], [])"
  by (simp add: layout_ok_def)

lemma chunked_loop:
  assumes "map (chunk_kind (parameters_map creq)) cs = map Some ks" and "layout_ok l"
    and "b = length (heap_nodes h0)" and "rq = length (heap_requests h0)" and "c0 = length (heap_chains h0)"
  shows "pyo_fold (chunked_step creq) cs (Some (layout_locals b rq l)) (layout_heap creq h0 l) =
    Some (py_return (Some (layout_locals b rq (foldl (layout_step b rq c0) l ks)))
      (layout_heap creq h0 (foldl (layout_step b rq c0) l ks)))"
  using assms(1,2)
proof (induction cs arbitrary: l ks)
  case (Cons c cs)
  then obtain k ks' where ks: "ks = k # ks'" "chunk_kind (parameters_map creq) c = Some k"
      "map (chunk_kind (parameters_map creq)) cs = map Some ks'"
    by (cases ks) auto
  have "pyo_fold (chunked_step creq) (c # cs) (Some (layout_locals b rq l)) (layout_heap creq h0 l) =
      pyo_fold (chunked_step creq) cs (Some (layout_locals b rq (layout_step b rq c0 l k)))
        (layout_heap creq h0 (layout_step b rq c0 l k))"
    using chunked_step_next [OF ks(2) Cons.prems(2) assms(3-5)] by simp
  then show ?case using Cons.IH [OF ks(3) layout_ok_step [OF Cons.prems(2)]] by (simp add: ks(1))
qed simp

lemma from_chunked_layout:
  assumes "map (chunk_kind (parameters_map creq)) (body creq) = map Some (k # ks)" and "\<not> gen_kind k"
  shows "from_chunked_request creq h0 =
    Some (py_return (length (heap_requests h0))
      (layout_heap creq h0 (foldl (layout_step (length (heap_nodes h0)) (length (heap_requests h0)) (length (heap_chains h0)))
         ([k], 0, [None], []) ks)))"
proof -
  obtain c cs where cs: "body creq = c # cs" "chunk_kind (parameters_map creq) c = Some k"
      "map (chunk_kind (parameters_map creq)) cs = map Some ks"
    using assms(1) by (cases "body creq") auto
  show ?thesis
    unfolding from_chunked_request_def cs(1) pyo_fold.simps chunked_step_first [OF cs(2) assms(2)]
      pyo_bind_simps chunked_loop [OF cs(3) layout_ok_first refl refl refl]
    by (simp add: layout_locals_def case_prod_beta)
qed

text \<open>The offsets of the Gen nodes.\<close>

definition gens :: "'c node_kind list \<Rightarrow> nat list" where
  "gens ks = filter (\<lambda>i. gen_kind (ks ! i)) [0..<length ks]"

lemma gens_snoc: "gens (ks @ [k]) = gens ks @ (if gen_kind k then [length ks] else [])"
proof -
  have "filter (\<lambda>i. gen_kind ((ks @ [k]) ! i)) [0..<length ks] = filter (\<lambda>i. gen_kind (ks ! i)) [0..<length ks]"
    by (rule filter_cong) (auto simp: nth_append)
  then show ?thesis by (simp add: gens_def)
qed

lemma gens_mem: "i \<in> set (gens ks) \<longleftrightarrow> i < length ks \<and> gen_kind (ks ! i)"
  by (auto simp: gens_def)

lemma walk_upto_gen:
  "i \<le> j \<Longrightarrow> j < length ks \<Longrightarrow> gen_kind (ks ! j) \<Longrightarrow> (\<And>l. i \<le> l \<Longrightarrow> l < j \<Longrightarrow> \<not> gen_kind (ks ! l)) \<Longrightarrow>
    walk ks i = [i..<Suc j]"
proof (induction ks i rule: walk.induct)
  case (1 ks i)
  show ?case
  proof (cases "i = j")
    case True
    with 1 show ?thesis by (simp add: walk.simps [of ks j])
  next
    case False
    with "1.prems" have ij: "i < j" "\<not> gen_kind (ks ! i)" "i < length ks" by auto
    have "walk ks (Suc i) = [Suc i..<Suc j]"
      using ij "1.prems" by (intro "1.IH") auto
    with ij show ?thesis by (simp add: walk.simps [of ks i] upt_conv_Cons)
  qed
qed

lemma walk_le_gen:
  "i \<le> j \<Longrightarrow> j < length ks \<Longrightarrow> gen_kind (ks ! j) \<Longrightarrow> x \<in> set (walk ks i) \<Longrightarrow> x \<le> j"
proof (induction ks i rule: walk.induct)
  case (1 ks i)
  show ?case
  proof (cases "i = j \<or> gen_kind (ks ! i)")
    case True
    with "1.prems" show ?thesis by (subst (asm) walk.simps) (auto split: if_splits)
  next
    case False
    with "1.prems" have "x = i \<or> x \<in> set (walk ks (Suc i))" by (subst (asm) walk.simps) (auto split: if_splits)
    with False 1 show ?thesis by auto
  qed
qed

definition layout_inv :: "nat \<Rightarrow> request_ref \<Rightarrow> chain_ref \<Rightarrow> 'c layout \<Rightarrow> bool" where
  "layout_inv b rq c0 l \<longleftrightarrow>
    (let (ks, f, cov, chs) = l
     in layout_ok l \<and> 0 \<notin> set (gens ks) \<and>
        (gens ks = [] \<longrightarrow> f = 0 \<and> cov = replicate (length ks) None \<and> chs = []) \<and>
        (gens ks \<noteq> [] \<longrightarrow> f = last (gens ks) - 1) \<and>
        (\<forall>j. gens ks = [j] \<longrightarrow>
           cov = replicate (Suc j) (Some c0) @ replicate (length ks - Suc j) None \<and>
           chs = [\<lparr>chain_request = rq, chain_first_node = Some b, chain_gen_node = b + j, chain_group_list = []\<rparr>]) \<and>
        (2 \<le> length (gens ks) \<longrightarrow> cov ! last (gens ks) = None))"

lemma layout_inv_first: "\<not> gen_kind k \<Longrightarrow> layout_inv b rq c0 ([k], 0, [None], [])"
  using layout_ok_first by (simp add: layout_inv_def gens_def)

lemma assign_first_chain:
  assumes "gens ks = []" and "gen_kind k"
  shows "assign_chain c (chain_range (ks @ [k]) 0) (replicate (length ks) None @ [None]) = replicate (Suc (length ks)) (Some c)"
proof -
  have "\<And>l. l < length ks \<Longrightarrow> \<not> gen_kind (ks ! l)" using assms(1) gens_mem [of _ ks] by auto
  then have w: "chain_range (ks @ [k]) 0 = [0..<Suc (length ks)]"
    unfolding chain_range_def using assms(2) by (simp add: walk_upto_gen [of 0 "length ks"] nth_append del: upt_Suc)
  show ?thesis
    unfolding w by (rule nth_equalityI) (auto simp: nth_assign_chain nth_append nth_Cons' simp del: upt_Suc replicate_Suc)
qed

lemma layout_inv_step:
  assumes "layout_inv b rq c0 (l :: 'c layout)"
  shows "layout_inv b rq c0 (layout_step b rq c0 l k)"
proof -
  obtain ks f cov chs where l: "l = (ks, f, cov, chs)" by (cases l) auto
  note inv = assms [unfolded layout_inv_def l Let_def prod.case]
  have ok: "ks \<noteq> []" "length cov = length ks" "f < length ks" using inv by (auto simp: layout_ok_def)
  have ok': "layout_ok (layout_step b rq c0 l k)" using inv layout_ok_step l by blast
  show ?thesis
  proof (cases "gen_kind k")
    case False
    have "last (gens ks) < length ks" if "gens ks \<noteq> []" using gens_mem [of "last (gens ks)" ks] that by simp
    moreover have "j < length ks" if "gens ks = [j]" for j using gens_mem [of j ks] that by simp
    ultimately show ?thesis
      using ok ok' False inv
      by (cases "gens ks = []") (auto simp: l layout_step_def layout_inv_def gens_snoc nth_append replicate_append_same Suc_diff_le
          simp flip: replicate_Suc)
  next
    case gen: True
    show ?thesis
    proof (cases "gens ks = []")
      case True
      then have "f = 0" "cov = replicate (length ks) None" "chs = []" using inv by auto
      with True gen ok ok' show ?thesis
        by (auto simp: l layout_step_def layout_inv_def gens_snoc assign_first_chain)
    next
      case False
      let ?L = "last (gens ks)"
      have "?L \<in> set (gens ks)" using False by simp
      then have "?L \<noteq> 0" using inv by metis
      then have L: "?L < length ks" "gen_kind (ks ! ?L)" "0 < ?L" "f = ?L - 1"
        using gens_mem [of ?L ks] False inv by auto
      have "x \<le> ?L" if "x \<in> set (chain_range (ks @ [k]) f)" for x
        using that walk_le_gen [of f ?L "ks @ [k]" x] L by (auto simp: chain_range_def nth_append split: if_splits)
      then have "length ks \<notin> set (chain_range (ks @ [k]) f)" using L(1) by fastforce
      then have "assign_chain c (chain_range (ks @ [k]) f) (cov @ [None]) ! length ks = None" for c
        using ok by (simp add: nth_assign_chain nth_append)
      with False gen ok ok' inv show ?thesis
        by (auto simp: l layout_step_def layout_inv_def gens_snoc)
    qed
  qed
qed

lemma layout_inv_loop: "layout_inv b rq c0 l \<Longrightarrow> layout_inv b rq c0 (foldl (layout_step b rq c0) l ks)"
  by (induction ks arbitrary: l) (simp_all add: layout_inv_step)

lemma layout_kinds: "fst (foldl (layout_step b rq c0) l ks) = fst l @ ks"
proof (induction ks arbitrary: l)
  case (Cons k ks)
  have "fst (layout_step b rq c0 l k) = fst l @ [k]" by (simp add: layout_step_def case_prod_beta)
  with Cons show ?case by simp
qed simp


lemma layout_gen_nodes:
  assumes "map chain_gen_node (snd (snd (snd l))) = map ((+) b) (gens (fst l))"
  shows "map chain_gen_node (snd (snd (snd (foldl (layout_step b rq c0) l ks)))) =
    map ((+) b) (gens (fst (foldl (layout_step b rq c0) l ks)))"
  using assms
proof (induction ks arbitrary: l)
  case (Cons k ks)
  have "map chain_gen_node (snd (snd (snd (layout_step b rq c0 l k)))) = map ((+) b) (gens (fst (layout_step b rq c0 l k)))"
    using Cons.prems by (simp add: layout_step_def case_prod_beta gens_snoc)
  with Cons.IH show ?case by simp
qed simp

lemma row_layout:
  assumes "layout_heap creq h0 (ks, f, cov, chs) = h"
  shows "row h (length (heap_nodes h0)) ks"
  by (rule row_chain_nodes [where post = "[]" and cov = cov]) (simp add: layout_heap_def flip: assms)

lemma map_plus_upt: "map ((+) b) [0..<n] = [b..<b + n]"
  by (induction n) simp_all

lemma one_gen:
  assumes "list_all (\<lambda>k. \<not> gen_kind k) (fills @ rest)" and "gen_kind g"
  shows "gens (fills @ g # rest) = [length fills]"
proof -
  have "[0..<length (fills @ g # rest)] = [0..<length fills] @ length fills # [Suc (length fills)..<length (fills @ g # rest)]"
    using upt_add_eq_append [of 0 "length fills" "Suc (length rest)"]
    by (simp add: upt_conv_Cons [of "length fills"] del: upt_Suc)
  moreover have "\<not> gen_kind ((fills @ g # rest) ! i)" if "i < length (fills @ g # rest)" "i \<noteq> length fills" for i
    using that assms(1) by (auto simp: nth_append nth_Cons' list_all_iff)
  ultimately show ?thesis using assms(2) by (simp add: gens_def filter_empty_conv del: upt_Suc)
qed

lemma chain_range_first:
  assumes "list_all (\<lambda>k. \<not> gen_kind k) (fills @ rest)" and "gen_kind g"
  shows "chain_range (fills @ g # rest) 0 = [0..<Suc (length fills)]"
  unfolding chain_range_def using assms walk_upto_gen [of 0 "length fills" "fills @ g # rest"]
  by (simp add: nth_append list_all_iff del: upt_Suc)

lemma single_output_layout:
  fixes h :: "'c graph_heap"
  assumes kinds: "map (chunk_kind (parameters_map creq)) (body creq) = map Some (fills @ (g :: 'c node_kind) # rest)"
    and fills: "fills \<noteq> []" "list_all (\<lambda>k. \<not> gen_kind k) (fills @ rest)" and gen: "gen_kind g"
  shows "\<exists>f. from_chunked_request creq h = Some (Inr (length (heap_requests h)), layout_heap creq h (fills @ g # rest, f,
      replicate (Suc (length fills)) (Some (length (heap_chains h))) @ replicate (length rest) None,
      [\<lparr>chain_request = length (heap_requests h), chain_first_node = Some (length (heap_nodes h)),
        chain_gen_node = length (heap_nodes h) + length fills, chain_group_list = []\<rparr>]))"
proof -
  let ?step = "layout_step (length (heap_nodes h)) (length (heap_requests h)) (length (heap_chains h))"
  obtain k fs where k: "fills = k # fs" "\<not> gen_kind k" using fills by (cases fills) auto
  obtain ks f cov chs where l: "foldl ?step ([k], 0, [None], []) (fs @ g # rest) = (ks, f, cov, chs)"
    by (metis prod_cases4)
  have ks: "ks = fills @ g # rest" using layout_kinds [of _ _ _ "([k], 0, [None], [])" "fs @ g # rest"] l k
    by (metis append_Cons append_Nil fst_conv)
  have "layout_inv (length (heap_nodes h)) (length (heap_requests h)) (length (heap_chains h)) (ks, f, cov, chs)"
    unfolding l [symmetric] by (intro layout_inv_loop layout_inv_first k)
  then have "cov = replicate (Suc (length fills)) (Some (length (heap_chains h))) @ replicate (length rest) None"
    "chs = [\<lparr>chain_request = length (heap_requests h), chain_first_node = Some (length (heap_nodes h)),
        chain_gen_node = length (heap_nodes h) + length fills, chain_group_list = []\<rparr>]"
    using one_gen [OF fills(2) gen] by (simp_all add: layout_inv_def ks)
  with from_chunked_layout [of creq k "fs @ g # rest" h] kinds k show ?thesis
    unfolding l ks by (auto simp: py_return_def)
qed

text \<open>
  C14. A request with one output. Building its chain returns; the request has one completion chain,
  whose iterator visits exactly the nodes up to the output, whose fills are the nodes before it,
  and which those nodes and no others are assigned to. The request's own iterator visits every node.
\<close>

theorem single_output_chain:
  fixes h :: "'c graph_heap"
  defines "b \<equiv> length (heap_nodes h)" and "c \<equiv> length (heap_chains h)"
  assumes kinds: "map (chunk_kind (parameters_map creq)) (body creq) = map Some (fills @ (g :: 'c node_kind) # rest)"
    and fills: "fills \<noteq> []" "list_all (\<lambda>k. \<not> gen_kind k) (fills @ rest)" and gen: "gen_kind g"
  shows "\<exists>rq h'. from_chunked_request creq h = Some (Inr rq, h') \<and>
    comp_chains (request_at h' rq) = [c] \<and> chain_gen_node (chain_at h' c) = b + length fills \<and>
    completion_iter (heap_nodes h') (chain_first_node (chain_at h' c)) = Some [b..<Suc (b + length fills)] \<and>
    fill_iter (heap_nodes h') (chain_first_node (chain_at h' c)) = Some ([b..<b + length fills], None) \<and>
    request_iter (heap_nodes h') (Some (first_node (request_at h' rq))) = Some [b..<b + length (body creq)] \<and>
    (\<forall>i < length (body creq). completion_chain_of (node_at h' (b + i)) = (if i \<le> length fills then Some c else None))"
proof -
  let ?rq = "length (heap_requests h)" and ?ks = "fills @ g # rest"
  obtain f cov where res: "from_chunked_request creq h = Some (Inr ?rq, layout_heap creq h (?ks, f, cov,
      [\<lparr>chain_request = ?rq, chain_first_node = Some b, chain_gen_node = b + length fills, chain_group_list = []\<rparr>]))"
    and cov: "cov = replicate (Suc (length fills)) (Some c) @ replicate (length rest) None"
    using single_output_layout [OF kinds fills gen] unfolding b_def c_def by blast
  define h' where "h' = layout_heap creq h (?ks, f, cov,
      [\<lparr>chain_request = ?rq, chain_first_node = Some b, chain_gen_node = b + length fills, chain_group_list = []\<rparr>])"
  have len: "length (body creq) = length ?ks" using arg_cong [OF kinds, of length] by simp
  have r: "row h' b ?ks" unfolding b_def by (rule row_layout) (simp add: h'_def)
  have ch: "chain_at h' c = \<lparr>chain_request = ?rq, chain_first_node = Some b, chain_gen_node = b + length fills, chain_group_list = []\<rparr>"
    and rqh: "comp_chains (request_at h' ?rq) = [c]" "first_node (request_at h' ?rq) = b"
    by (simp_all add: h'_def layout_heap_def c_def b_def nth_append)
  have n: "completion_chain_of (node_at h' (b + i)) = (if i \<le> length fills then Some c else None)" if "i < length ?ks" for i
    using that by (simp add: h'_def layout_heap_def b_def nth_append cov nth_Cons' del: replicate_Suc)
  have "fill_iter (heap_nodes h') (Some (b + 0)) = Some (map ((+) b) [0..<length fills], None)"
    by (rule fill_iter_row [OF r]) (use fills(2) gen in \<open>auto simp: nth_append list_all_iff\<close>)
  moreover have "completion_iter (heap_nodes h') (Some (b + 0)) = Some (map ((+) b) [0..<Suc (length fills)])"
    using completion_iter_row [OF r, of 0] chain_range_first [OF fills(2) gen] by (simp del: upt_Suc)
  moreover have "request_iter (heap_nodes h') (Some (b + 0)) = Some (map ((+) b) [0..<length ?ks])"
    by (rule request_iter_row [OF r]) simp
  ultimately show ?thesis
    using res [folded h'_def] n unfolding len by (auto simp: ch rqh map_plus_upt simp del: upt_Suc)
qed


abbreviation empty_heap :: "'c graph_heap" where
  "empty_heap \<equiv> \<lparr>heap_svs = [], heap_nodes = [], heap_chains = [], heap_requests = [], heap_groups = []\<rparr>"

abbreviation example_input :: semantic_function_parameter where
  "example_input \<equiv> \<lparr>param_name = JStr ''x'', is_output = JBool False, param_var_id = JNone, param_value = JStr ''v'',
    param_sampling_config = None\<rparr>"

abbreviation example_output :: "string \<Rightarrow> semantic_function_parameter" where
  "example_output nm \<equiv> \<lparr>param_name = JStr nm, is_output = JBool True, param_var_id = JNone, param_value = JNone,
    param_sampling_config = Some default_sampling_config\<rparr>"

abbreviation example_request :: "body_chunk list \<Rightarrow> chunked_request" where
  "example_request cs \<equiv>
    \<lparr>request_id = 0, session_id = 0, metadata = semantic_metadata_default, body = cs,
     parameters_map = [(JStr ''x'', example_input), (JStr ''y'', example_output ''y''), (JStr ''z'', example_output ''z'')]\<rparr>"

theorem single_output_chain_witness:
  "\<exists>rq h'. from_chunked_request (example_request [TextChunk 0 ''Hi'', PlaceholderChunk 1 ''x'', PlaceholderChunk 2 ''y''])
      (empty_heap :: unit graph_heap) = Some (Inr rq, h') \<and>
    completion_iter (heap_nodes h') (chain_first_node (chain_at h' 0)) = Some [0..<3] \<and>
    fill_iter (heap_nodes h') (chain_first_node (chain_at h' 0)) = Some ([0..<2], None)"
  using single_output_chain [of "example_request [TextChunk 0 ''Hi'', PlaceholderChunk 1 ''x'', PlaceholderChunk 2 ''y'']"
      "[ConstantFill ''Hi'', PlaceholderFill example_input]" "PlaceholderGen (example_output ''y'')" "[]" empty_heap]
  by (auto simp: chunk_kind_def gen_kind_def numeral_3_eq_3 numeral_2_eq_2)

text \<open>
  A request with several outputs. Building its chains returns, one per output, but the Gen node of the
  last output is assigned to none of them.
\<close>

lemma last_output_has_no_chain:
  fixes h :: "'c graph_heap"
  assumes kinds: "map (chunk_kind (parameters_map creq)) (body creq) = map Some ((k :: 'c node_kind) # ks)"
    and "\<not> gen_kind k" and two: "2 \<le> length (gens (k # ks))"
  shows "\<exists>rq h'. from_chunked_request creq h = Some (Inr rq, h') \<and>
    length (comp_chains (request_at h' rq)) = length (gens (k # ks)) \<and>
    chain_gen_node (chain_at h' (last (comp_chains (request_at h' rq)))) = length (heap_nodes h) + last (gens (k # ks)) \<and>
    length (heap_nodes h) + last (gens (k # ks)) < length (heap_nodes h') \<and> is_gen (node_at h' (length (heap_nodes h) + last (gens (k # ks)))) \<and>
    completion_chain_of (node_at h' (length (heap_nodes h) + last (gens (k # ks)))) = None"
proof -
  let ?step = "layout_step (length (heap_nodes h)) (length (heap_requests h)) (length (heap_chains h))"
  obtain ks' f cov chs where l: "foldl ?step ([k], 0, [None], []) ks = (ks', f, cov, chs)"
    by (metis prod_cases4)
  have ks': "ks' = k # ks" using layout_kinds [of _ _ _ "([k], 0, [None], [])" ks] l
    by (metis append_Cons append_Nil fst_conv)
  have inv: "layout_inv (length (heap_nodes h)) (length (heap_requests h)) (length (heap_chains h)) (ks', f, cov, chs)"
    unfolding l [symmetric] by (intro layout_inv_loop layout_inv_first assms(2))
  have gn: "map chain_gen_node chs = map ((+) (length (heap_nodes h))) (gens (k # ks))"
    using layout_gen_nodes [of "([k], 0, [None], [])" "length (heap_nodes h)" "length (heap_requests h)" "length (heap_chains h)" ks]
      assms(2) unfolding l ks' by (simp add: gens_def del: upt_Suc)
  have "gens (k # ks) \<noteq> []" using two by auto
  then have L: "last (gens (k # ks)) < length (k # ks)" using gens_mem [of "last (gens (k # ks))" "k # ks"] last_in_set by blast
  have "gen_kind ((k # ks) ! last (gens (k # ks)))" using gens_mem \<open>gens (k # ks) \<noteq> []\<close> last_in_set by blast
  then have gen: "is_gen (chain_node_at (length (heap_nodes h)) (k # ks) cov (last (gens (k # ks))))"
    by (simp add: is_gen_kind)
  have len: "length chs = length (gens (k # ks))" using arg_cong [OF gn, of length] by simp
  have "chs \<noteq> []" using len two by auto
  then have "chain_gen_node (last chs) = length (heap_nodes h) + last (gens (k # ks))"
    using gn two by (metis last_map length_0_conv map_is_Nil_conv)
  moreover have "cov ! last (gens (k # ks)) = None" using inv two by (simp add: layout_inv_def ks')
  moreover have "last [length (heap_chains h)..<length (heap_chains h) + length chs] = length (heap_chains h) + (length chs - 1)"
    using \<open>chs \<noteq> []\<close> by (cases chs) (simp_all add: last_upt)
  ultimately show ?thesis
    using from_chunked_layout [OF kinds assms(2), of h] L gen \<open>chs \<noteq> []\<close>
    unfolding l ks' by (auto simp: py_return_def layout_heap_def nth_append last_conv_nth [of chs] simp flip: len)
qed

end
