(* ===== verification/Graph_Traversal.thy ===== *)
theory Graph_Traversal
  imports Sem_Graph
begin

text \<open>
  The backward traversal of the graph, \<^verbatim>\<open>serve/graph/graph_traverse.py\<close>. \<open>dep\<close> is the relation between a
  variable and the variables the traversal goes to from it, \<open>graph_ranked\<close> says that it has no cycle. Every
  part of the traversal keeps \<open>traverse_ok\<close>: it returns, keeps the shape of the graph and the order of
  the depths. The proof is by induction on the rank, a lemma for each kind of producer.
\<close>

section \<open>The backward traversal\<close>

definition back_propagate_criteria :: "performance_criteria \<Rightarrow> 's \<Rightarrow> (performance_criteria, 's) py" where
  "back_propagate_criteria crit s =
    (if crit = LATENCY then py_return LATENCY s
     else if crit = THROUGHPUT then py_return THROUGHPUT s
     else py_raise NotImplementedError s)"

definition new_group :: "'c graph_heap \<Rightarrow> group_ref \<times> 'c graph_heap" where
  "new_group h = (length (heap_groups h), h\<lparr>heap_groups := heap_groups h @ [[]]\<rparr>)"

definition join_group :: "group_ref option \<Rightarrow> chain_ref \<Rightarrow> 'c graph_heap \<Rightarrow> 'c graph_heap" where
  "join_group grp c h =
    (case grp of
       None \<Rightarrow> h
     | Some gr \<Rightarrow>
         h\<lparr>heap_groups := (heap_groups h)[gr := List.insert c (heap_groups h ! gr)],
           heap_chains := (heap_chains h)[c := (chain_at h c)\<lparr>chain_group_list := chain_group_list (chain_at h c) @ [gr]\<rparr>]\<rparr>)"

text \<open>
  \<^verbatim>\<open>_traverse\<close>: it returns the depth of the variable. The producer of a variable is a Gen node, whose
  chain is followed, or a native node, whose inputs are.
\<close>

partial_function (option) traverse ::
  "sv_ref \<Rightarrow> performance_criteria \<Rightarrow> group_ref option \<Rightarrow> 'c graph_heap \<Rightarrow> (int, 'c graph_heap) pyo" where
  [code]: "traverse var crit chain_group h =
    pyo_bind (Some (back_propagate_criteria crit h)) (\<lambda>next_criteria h.
      case producer (sv_at h var) of
        None \<Rightarrow> Some (py_return 0 h)
      | Some p \<Rightarrow>
         if is_gen (node_at h p) then
           pyo_bind (Some (get_comp_chain (node_at h p) h)) (\<lambda>c h.
             if sv_is_activated (sv_at h var) then Some (sv_depth (sv_at h var) h)
             else
               let h = join_group chain_group c h;
                   (prev_group, h) = new_group h
               in Option.bind (fill_iter (heap_nodes h) (chain_first_node (chain_at h c))) (\<lambda>(ns, stop).
                  pyo_bind
                    (pyo_fold (\<lambda>n d h.
                        pyo_bind (Some (get_node_sv (node_at h n) h)) (\<lambda>v h.
                        pyo_bind (traverse v next_criteria (Some prev_group) h) (\<lambda>prev_depth h.
                          Some (py_return (max d (prev_depth + 1)) h))))
                      ns 0 h) (\<lambda>d h.
                  case (stop, chain_first_node (chain_at h c)) of
                    (Some e, _) \<Rightarrow> Some (py_raise e h)
                  | (None, None) \<Rightarrow> Some (py_raise AttributeError h)
                  | (None, Some first) \<Rightarrow>
                      (case edge_a_prev (node_at h first) of
                         None \<Rightarrow>
                           Some (py_bind (on_sv var (sv_activate crit d) h) (\<lambda>_ h. py_return d h))
                       | Some prev_gen \<Rightarrow>
                           pyo_bind (Some (parrot_assert (is_gen (node_at h prev_gen)) h)) (\<lambda>_ h.
                           pyo_bind (Some (get_node_sv (node_at h prev_gen) h)) (\<lambda>v h.
                           pyo_bind (traverse v next_criteria (Some prev_group) h) (\<lambda>prev_depth h.
                             let d = max d (prev_depth + 1)
                             in Some (py_bind (on_sv var (sv_activate crit d) h) (\<lambda>_ h. py_return d h)))))))))
         else
           pyo_bind (Some (parrot_assert (is_native (node_at h p)) h)) (\<lambda>_ h.
           pyo_bind
             (pyo_fold (\<lambda>v d h.
                 pyo_bind (traverse v next_criteria chain_group h) (\<lambda>prev_depth h.
                   Some (py_return (max d prev_depth) h)))
               (dict_values (input_vars (node_at h p))) 0 h) (\<lambda>d h.
             Some (py_bind (on_sv var (sv_activate crit d) h) (\<lambda>_ h. py_return d h)))))"

definition activate_sv :: "sv_ref \<Rightarrow> performance_criteria \<Rightarrow> 'c graph_heap \<Rightarrow> (unit, 'c graph_heap) pyo" where
  "activate_sv var crit h =
    pyo_bind (Some (parrot_assert (\<not> sv_is_activated (sv_at h var)) h)) (\<lambda>_ h.
    pyo_bind (traverse var crit None h) (\<lambda>_ h. Some (py_return () h)))"

section \<open>The traversal returns\<close>

text \<open>
  \<open>w\<close> is an input of \<open>v\<close>: a variable that the traversal of \<open>v\<close> goes to, with the depth \<open>k\<close> it adds.
\<close>

definition dep :: "'c graph_heap \<Rightarrow> sv_ref \<Rightarrow> sv_ref \<Rightarrow> int \<Rightarrow> bool" where
  "dep h v w k \<longleftrightarrow> v < length (heap_svs h) \<and>
    (\<exists>p. producer (sv_at h v) = Some p \<and>
      (k = 1 \<and> is_gen (node_at h p) \<and>
        (\<exists>c. completion_chain_of (node_at h p) = Some c \<and> c < length (heap_chains h) \<and>
          ((\<exists>ns e n. fill_iter (heap_nodes h) (chain_first_node (chain_at h c)) = Some (ns, e) \<and> n \<in> set ns \<and> node_sv (node_at h n) = Some w) \<or>
           (\<exists>f g. chain_first_node (chain_at h c) = Some f \<and> edge_a_prev (node_at h f) = Some g \<and> node_sv (node_at h g) = Some w))) \<or>
       k = 0 \<and> \<not> is_gen (node_at h p) \<and> w \<in> set (dict_values (input_vars (node_at h p)))))"

text \<open>The inputs of a variable are variables of lower rank, and the chains are finite.\<close>

definition graph_ranked :: "(sv_ref \<Rightarrow> nat) \<Rightarrow> 'c graph_heap \<Rightarrow> bool" where
  "graph_ranked rank h \<longleftrightarrow>
    (\<forall>v w k. dep h v w k \<longrightarrow> w < length (heap_svs h) \<and> rank w < rank v) \<and>
    (\<forall>v p c. v < length (heap_svs h) \<longrightarrow> producer (sv_at h v) = Some p \<longrightarrow> completion_chain_of (node_at h p) = Some c \<longrightarrow>
       c < length (heap_chains h) \<and> fill_iter (heap_nodes h) (chain_first_node (chain_at h c)) \<noteq> None)"

text \<open>
  The inputs of an activated variable that have a producer are activated. They are at least one less deep when a Gen node
  produces the variable, and not deeper when a native function does.
\<close>

definition depths_ok :: "'c graph_heap \<Rightarrow> bool" where
  "depths_ok h \<longleftrightarrow>
    (\<forall>v w k. activated_event (sv_at h v) \<longrightarrow> dep h v w k \<longrightarrow> producer (sv_at h w) \<noteq> None \<longrightarrow>
       activated_event (sv_at h w) \<and> depth (sv_at h w) + k \<le> depth (sv_at h v))"

text \<open>What the traversal leaves as it is.\<close>

definition evolves :: "'c graph_heap \<Rightarrow> 'c graph_heap \<Rightarrow> bool" where
  "evolves h h' \<longleftrightarrow>
    heap_nodes h' = heap_nodes h \<and> map producer (heap_svs h') = map producer (heap_svs h) \<and>
    map content (heap_svs h') = map content (heap_svs h) \<and>
    map chain_first_node (heap_chains h') = map chain_first_node (heap_chains h) \<and>
    (\<forall>v < length (heap_svs h). activated_event (sv_at h v) \<longrightarrow> sv_at h' v = sv_at h v)"

lemma evolves_refl [simp]: "evolves h h"
  by (simp add: evolves_def)

lemma evolves_length:
  assumes "evolves h h'"
  shows "length (heap_svs h') = length (heap_svs h)" and "length (heap_chains h') = length (heap_chains h)"
  using assms map_eq_imp_length_eq unfolding evolves_def by blast+

lemma evolves_producer:
  assumes "evolves h h'" and "v < length (heap_svs h)"
  shows "producer (sv_at h' v) = producer (sv_at h v)"
proof -
  have "map producer (heap_svs h') ! v = map producer (heap_svs h) ! v" using assms(1) by (simp add: evolves_def)
  then show ?thesis using assms evolves_length [OF assms(1)] by simp
qed

lemma evolves_first_node:
  assumes "evolves h h'" and "c < length (heap_chains h)"
  shows "chain_first_node (chain_at h' c) = chain_first_node (chain_at h c)"
proof -
  have "map chain_first_node (heap_chains h') ! c = map chain_first_node (heap_chains h) ! c"
    using assms(1) by (simp add: evolves_def)
  then show ?thesis using assms evolves_length [OF assms(1)] by simp
qed

lemma evolves_trans: "evolves h1 h2 \<Longrightarrow> evolves h2 h3 \<Longrightarrow> evolves h1 h3"
  using evolves_length [of h1 h2] by (simp add: evolves_def)


lemma dep_evolves:
  assumes "evolves h h'"
  shows "dep h' v w k \<longleftrightarrow> dep h v w k"
proof -
  have n: "heap_nodes h' = heap_nodes h" using assms by (simp add: evolves_def)
  show ?thesis
    unfolding dep_def n evolves_length [OF assms]
    using evolves_producer [OF assms, of v] evolves_first_node [OF assms] by (simp cong: conj_cong)
qed

lemma graph_ranked_evolves:
  assumes "evolves h h'" and "graph_ranked rank h"
  shows "graph_ranked rank h'"
proof -
  have n: "heap_nodes h' = heap_nodes h" using assms(1) by (simp add: evolves_def)
  show ?thesis
    unfolding graph_ranked_def n evolves_length [OF assms(1)] dep_evolves [OF assms(1)]
    using assms(2) evolves_producer [OF assms(1)] evolves_first_node [OF assms(1)] by (simp add: graph_ranked_def)
qed

lemma graph_ranked_chain:
  assumes "graph_ranked rank h" and "v < length (heap_svs h)" and "producer (sv_at h v) = Some p"
    and "completion_chain_of (node_at h p) = Some c"
  obtains ns stop where "c < length (heap_chains h)" "fill_iter (heap_nodes h) (chain_first_node (chain_at h c)) = Some (ns, stop)"
proof -
  have "c < length (heap_chains h) \<and> fill_iter (heap_nodes h) (chain_first_node (chain_at h c)) \<noteq> None"
    using assms unfolding graph_ranked_def by blast
  with that show thesis by auto
qed

lemma evolves_groups:
  assumes "heap_svs h' = heap_svs h" and "heap_nodes h' = heap_nodes h"
    and "map chain_first_node (heap_chains h') = map chain_first_node (heap_chains h)"
  shows "evolves h h'"
  using assms by (simp add: evolves_def)

text \<open>
  The traversal keeps the order of the depths, and does the rest of what it promises without it: \<open>b\<close> says
  whether the order is part of the promise.
\<close>

definition depths_when :: "bool \<Rightarrow> 'c graph_heap \<Rightarrow> bool" where
  "depths_when b h \<longleftrightarrow> (b \<longrightarrow> depths_ok h)"

lemma depths_ok_groups: "evolves h h' \<Longrightarrow> heap_svs h' = heap_svs h \<Longrightarrow> depths_when b h' \<longleftrightarrow> depths_when b h"
  by (simp add: depths_when_def depths_ok_def dep_evolves)

lemma join_group_frame [simp]:
  "heap_svs (join_group grp c h) = heap_svs h" "heap_nodes (join_group grp c h) = heap_nodes h"
  "map chain_first_node (heap_chains (join_group grp c h)) = map chain_first_node (heap_chains h)"
  "heap_requests (join_group grp c h) = heap_requests h"
  by (simp_all add: join_group_def map_update split: option.splits)
     (metis list_update_id map_update)

lemma new_group_frame [simp]:
  "heap_svs (snd (new_group h)) = heap_svs h" "heap_nodes (snd (new_group h)) = heap_nodes h"
  "heap_chains (snd (new_group h)) = heap_chains h"
  by (simp_all add: new_group_def)

text \<open>What a traversal promises from a heap in order.\<close>

definition traverse_ok :: "bool \<Rightarrow> 'c graph_heap \<Rightarrow> sv_ref \<Rightarrow> (int, 'c graph_heap) pyo \<Rightarrow> bool" where
  "traverse_ok b h v res \<longleftrightarrow>
    (\<exists>r h'. res = Some (r, h') \<and> evolves h h' \<and> depths_when b h' \<and>
      (\<forall>d. r = Inr d \<longrightarrow> producer (sv_at h v) \<noteq> None \<longrightarrow> activated_event (sv_at h' v) \<and> depth (sv_at h' v) = d))"

lemma traverse_ok_raise: "depths_when b h \<Longrightarrow> traverse_ok b h v (Some (Inl e, h))"
  by (simp add: traverse_ok_def)

lemma traverse_ok_evolves:
  assumes "traverse_ok b h' v res" and "evolves h h'" and "v < length (heap_svs h)"
  shows "traverse_ok b h v res"
  using assms evolves_producer [OF assms(2,3)] evolves_trans unfolding traverse_ok_def by fastforce

text \<open>A loop over inputs, each of which is traversed and counted with \<open>k\<close> added.\<close>

definition counted :: "sv_ref \<Rightarrow> int \<Rightarrow> int \<Rightarrow> 'c graph_heap \<Rightarrow> bool" where
  "counted w k d h \<longleftrightarrow> w < length (heap_svs h) \<and> (producer (sv_at h w) \<noteq> None \<longrightarrow> activated_event (sv_at h w) \<and> depth (sv_at h w) + k \<le> d)"

lemma counted_evolves:
  assumes "counted w k d h" and "evolves h h'" and "d \<le> d'"
  shows "counted w k d' h'"
proof -
  have w: "w < length (heap_svs h)" using assms(1) by (simp add: counted_def)
  have "activated_event (sv_at h w) \<Longrightarrow> sv_at h' w = sv_at h w" using assms(2) w by (simp add: evolves_def)
  with w assms(1,3) evolves_producer [OF assms(2) w] evolves_length(1) [OF assms(2)] show ?thesis
    by (auto simp: counted_def)
qed

lemma count_step:
  assumes "traverse_ok b h w res" and "w < length (heap_svs h)"
  shows "\<exists>r h'. pyo_bind res (\<lambda>prev_depth h. Some (py_return (max d (prev_depth + k)) h)) = Some (r, h') \<and>
    evolves h h' \<and> depths_when b h' \<and> (\<forall>d'. r = Inr d' \<longrightarrow> d \<le> d' \<and> counted w k d' h')"
proof -
  obtain r h' where t: "res = Some (r, h')" "evolves h h'" "depths_when b h'"
      "\<forall>d. r = Inr d \<longrightarrow> producer (sv_at h w) \<noteq> None \<longrightarrow> activated_event (sv_at h' w) \<and> depth (sv_at h' w) = d"
    using assms(1) by (auto simp: traverse_ok_def)
  with evolves_producer [OF t(2) assms(2)] evolves_length(1) [OF t(2)] assms(2) show ?thesis
    by (cases r) (simp_all add: counted_def)
qed

text \<open>Activating a variable whose inputs are in order.\<close>

lemma activate_step:
  assumes "depths_when b h" and "v < length (heap_svs h)" and prod: "producer (sv_at h v) \<noteq> None"
    and inputs: "\<And>w k. dep h v w k \<Longrightarrow> w \<noteq> v \<and> counted w k d h"
  shows "traverse_ok b h v (Some (py_bind (on_sv v (sv_activate crit d) h) (\<lambda>_ h. py_return d h)))"
proof (cases "activated_event (sv_at h v)")
  case True
  have "h\<lparr>heap_svs := (heap_svs h)[v := sv_at h v]\<rparr> = h" by simp
  with True assms(1) show ?thesis
    by (simp add: traverse_ok_def on_sv_def sv_activate_def sv_is_activated_def)
next
  case False
  define h' where "h' = h\<lparr>heap_svs := (heap_svs h)[v := (sv_at h v)\<lparr>criteria := Some crit, depth := d, activated_event := True\<rparr>]\<rparr>"
  have op: "py_bind (on_sv v (sv_activate crit d) h) (\<lambda>_ h. py_return d h) = (Inr d, h')"
    using False by (simp add: on_sv_def sv_activate_def sv_is_activated_def h'_def)
  have ev: "evolves h h'"
    using False assms(2) unfolding evolves_def h'_def
    by (auto simp: nth_list_update map_update intro!: list_update_id)
       (metis list_update_id nth_map)+
  have sv: "sv_at h' w = (if w = v then (sv_at h v)\<lparr>criteria := Some crit, depth := d, activated_event := True\<rparr> else sv_at h w)" for w
    using assms(2) by (simp add: h'_def nth_list_update)
  have "depths_when b h'"
    unfolding depths_when_def depths_ok_def dep_evolves [OF ev]
  proof (intro allI impI)
    fix u w k
    assume b: b and a: "activated_event (sv_at h' u)" "dep h u w k" "producer (sv_at h' w) \<noteq> None"
    show "activated_event (sv_at h' w) \<and> depth (sv_at h' w) + k \<le> depth (sv_at h' u)"
    proof (cases "u = v")
      case True
      with a inputs [of w k] show ?thesis by (simp add: sv counted_def)
    next
      case uv: False
      with a have "activated_event (sv_at h w) \<and> depth (sv_at h w) + k \<le> depth (sv_at h u)"
        using assms(1) prod b by (auto simp: depths_when_def depths_ok_def sv split: if_splits)
      with uv False show ?thesis by (auto simp: sv)
    qed
  qed
  with op ev assms(2) show ?thesis by (simp add: sv traverse_ok_def)
qed



lemma back_propagate_ok: "crit = LATENCY \<or> crit = THROUGHPUT \<Longrightarrow> back_propagate_criteria crit h = py_return crit h"
  by (auto simp: back_propagate_criteria_def)

lemma traverse_native_eq:
  assumes "producer (sv_at h v) = Some p" and "\<not> is_gen (node_at h p)" and "crit = LATENCY \<or> crit = THROUGHPUT"
  shows "traverse v crit grp h =
    (if is_native (node_at h p) then
       pyo_bind
         (pyo_fold (\<lambda>w d h. pyo_bind (traverse w crit grp h) (\<lambda>prev_depth h. Some (py_return (max d prev_depth) h)))
           (dict_values (input_vars (node_at h p))) 0 h) (\<lambda>d h.
         Some (py_bind (on_sv v (sv_activate crit d) h) (\<lambda>_ h. py_return d h)))
     else Some (Inl ParrotError, h))"
  by (subst traverse.simps) (simp add: assms(1,2) back_propagate_ok [OF assms(3)] py_raise_def)

lemma traverse_native:
  fixes h :: "'c graph_heap"
  assumes ranked: "graph_ranked rank h" and "v < length (heap_svs h)" and "depths_when b h"
    and p: "producer (sv_at h v) = Some p" "\<not> is_gen (node_at h p)" and crit: "crit = LATENCY \<or> crit = THROUGHPUT"
    and IH: "\<And>w crit grp (h' :: 'c graph_heap). rank w < rank v \<Longrightarrow> graph_ranked rank h' \<Longrightarrow> w < length (heap_svs h') \<Longrightarrow> depths_when b h' \<Longrightarrow>
      traverse_ok b h' w (traverse w crit grp h')"
  shows "traverse_ok b h v (traverse v crit grp h)"
proof -
  let ?ws = "dict_values (input_vars (node_at h p))"
  let ?step = "\<lambda>w d h. pyo_bind (traverse w crit grp h) (\<lambda>prev_depth h. Some (py_return (max d prev_depth) h))"
  have dep: "dep h v w k \<longleftrightarrow> k = 0 \<and> w \<in> set ?ws" for w k using assms(2) p by (auto simp: dep_def)
  have rk: "w < length (heap_svs h) \<and> rank w < rank v" if "w \<in> set ?ws" for w
    using ranked dep [of w 0] that by (auto simp: graph_ranked_def)
  let ?I = "\<lambda>s. evolves h s \<and> depths_when b s" and ?Q = "\<lambda>w d s. counted w 0 d s"
  have "\<exists>r s'. pyo_fold ?step ?ws 0 h = Some (r, s') \<and> ?I s' \<and> evolves h s' \<and>
      (\<forall>d. r = Inr d \<longrightarrow> 0 \<le> d \<and> (\<forall>w \<in> set ?ws. ?Q w d s'))"
  proof (rule pyo_fold_returns)
    fix w d s
    assume w: "w \<in> set ?ws" and s: "?I s"
    have lw: "w < length (heap_svs s)" using rk [OF w] s evolves_length by metis
    have "traverse_ok b s w (traverse w crit grp s)"
      using IH rk [OF w] graph_ranked_evolves [OF _ ranked] s lw by blast
    from count_step [OF this lw, of d 0] show "\<exists>r s'. ?step w d s = Some (r, s') \<and> ?I s' \<and> evolves s s' \<and> (\<forall>d'. r = Inr d' \<longrightarrow> d \<le> d' \<and> ?Q w d' s')"
      using s evolves_trans by auto
  next
    fix w and d d' :: int and s s' :: "'c graph_heap"
    assume "?Q w d s" "evolves s s'" "d \<le> d'"
    then show "?Q w d' s'" by (rule counted_evolves)
  qed (use assms(3) evolves_trans in auto)
  then obtain r s' where f: "pyo_fold ?step ?ws 0 h = Some (r, s')" "evolves h s'" "depths_when b s'"
      "\<And>d w. r = Inr d \<Longrightarrow> w \<in> set ?ws \<Longrightarrow> counted w 0 d s'"
    by blast
  have lv: "v < length (heap_svs s')" "producer (sv_at s' v) \<noteq> None"
    using f(2) assms(2) p evolves_length(1) [OF f(2)] evolves_producer [OF f(2) assms(2)] by simp_all
  show ?thesis
  proof (cases r)
    case (Inl e)
    then have "traverse_ok b h v (Some (Inl e, s'))" using traverse_ok_raise traverse_ok_evolves f(2,3) assms(2) by blast
    then show ?thesis
      unfolding traverse_native_eq [OF p crit] f(1) using Inl assms(3) by (simp add: traverse_ok_raise)
  next
    case (Inr d)
    have "traverse_ok b s' v (Some (py_bind (on_sv v (sv_activate crit d) s') (\<lambda>_ h. py_return d h)))"
      using f(4) [OF Inr] rk by (intro activate_step [OF f(3) lv]) (auto simp: dep_evolves [OF f(2)] dep)
    then have "traverse_ok b h v (Some (py_bind (on_sv v (sv_activate crit d) s') (\<lambda>_ h. py_return d h)))"
      using traverse_ok_evolves f(2) assms(2) by blast
    then show ?thesis
      unfolding traverse_native_eq [OF p crit] f(1) using Inr assms(3) by (simp add: traverse_ok_raise)
  qed
qed

text \<open>The loop over the fills of a chain.\<close>

lemma fills_loop:
  fixes h0 h :: "'c graph_heap"
  assumes ranked: "graph_ranked rank h" and "evolves h h0" and "depths_when b h0"
    and ns: "\<And>n w. n \<in> set ns \<Longrightarrow> node_sv (node_at h n) = Some w \<Longrightarrow> w < length (heap_svs h) \<and> rank w < rank v"
    and IH: "\<And>w crit grp (h' :: 'c graph_heap). rank w < rank v \<Longrightarrow> graph_ranked rank h' \<Longrightarrow> w < length (heap_svs h') \<Longrightarrow>
      depths_when b h' \<Longrightarrow> traverse_ok b h' w (traverse w crit grp h')"
  shows "\<exists>r s. pyo_fold (\<lambda>n d h. pyo_bind (Some (get_node_sv (node_at h n) h)) (\<lambda>v h.
        pyo_bind (traverse v crit grp h) (\<lambda>prev_depth h. Some (py_return (max d (prev_depth + 1)) h)))) ns 0 h0 = Some (r, s) \<and>
      evolves h s \<and> depths_when b s \<and>
      (\<forall>d n w. r = Inr d \<longrightarrow> n \<in> set ns \<longrightarrow> node_sv (node_at h n) = Some w \<longrightarrow> counted w 1 d s)"
proof -
  let ?step = "\<lambda>n d h. pyo_bind (Some (get_node_sv (node_at h n) h)) (\<lambda>v h.
      pyo_bind (traverse v crit grp h) (\<lambda>prev_depth h. Some (py_return (max d (prev_depth + 1)) h)))"
  let ?I = "\<lambda>s. evolves h s \<and> depths_when b s"
    and ?Q = "\<lambda>n d s. \<forall>w. node_sv (node_at h n) = Some w \<longrightarrow> counted w 1 d s"
  have "\<exists>r s. pyo_fold ?step ns 0 h0 = Some (r, s) \<and> ?I s \<and> evolves h0 s \<and>
      (\<forall>d. r = Inr d \<longrightarrow> 0 \<le> d \<and> (\<forall>n \<in> set ns. ?Q n d s))"
  proof (rule pyo_fold_returns)
    fix n d s
    assume n: "n \<in> set ns" and s: "?I s"
    have nd: "node_at s n = node_at h n" using s by (simp add: evolves_def)
    show "\<exists>r s'. ?step n d s = Some (r, s') \<and> ?I s' \<and> evolves s s' \<and> (\<forall>d'. r = Inr d' \<longrightarrow> d \<le> d' \<and> ?Q n d' s')"
    proof (cases "node_sv (node_at h n)")
      case None
      then show ?thesis using s by (simp add: nd get_node_sv_def)
    next
      case (Some w)
      have lw: "w < length (heap_svs s)" "rank w < rank v" using ns [OF n Some] s evolves_length by metis+
      have "traverse_ok b s w (traverse w crit grp s)" using IH lw graph_ranked_evolves [OF _ ranked] s by blast
      from count_step [OF this lw(1), of d 1] show ?thesis
        using s evolves_trans by (auto simp: nd get_node_sv_def Some)
    qed
  next
    fix n and d d' :: int and s s' :: "'c graph_heap"
    assume "?Q n d s" "evolves s s'" "d \<le> d'"
    then show "?Q n d' s'" using counted_evolves by blast
  qed (use assms(2,3) evolves_trans in auto)
  then show ?thesis by blast
qed


text \<open>The part of the traversal of a Gen node behind the loop.\<close>

definition gen_tail ::
  "sv_ref \<Rightarrow> performance_criteria \<Rightarrow> group_ref \<Rightarrow> chain_ref \<Rightarrow> py_error option \<Rightarrow> int \<Rightarrow> 'c graph_heap \<Rightarrow> (int, 'c graph_heap) pyo" where
  "gen_tail var crit prev_group c stop d h =
    (case (stop, chain_first_node (chain_at h c)) of
       (Some e, _) \<Rightarrow> Some (py_raise e h)
     | (None, None) \<Rightarrow> Some (py_raise AttributeError h)
     | (None, Some first) \<Rightarrow>
         (case edge_a_prev (node_at h first) of
            None \<Rightarrow> Some (py_bind (on_sv var (sv_activate crit d) h) (\<lambda>_ h. py_return d h))
          | Some prev_gen \<Rightarrow>
              pyo_bind (Some (parrot_assert (is_gen (node_at h prev_gen)) h)) (\<lambda>_ h.
              pyo_bind (Some (get_node_sv (node_at h prev_gen) h)) (\<lambda>v h.
              pyo_bind (traverse v crit (Some prev_group) h) (\<lambda>prev_depth h.
                let d = max d (prev_depth + 1)
                in Some (py_bind (on_sv var (sv_activate crit d) h) (\<lambda>_ h. py_return d h)))))))"

lemma traverse_gen_eq:
  assumes "producer (sv_at h v) = Some p" and "is_gen (node_at h p)" and "crit = LATENCY \<or> crit = THROUGHPUT"
    and "completion_chain_of (node_at h p) = Some c" and "is_inserted (node_at h p)" and "\<not> activated_event (sv_at h v)"
    and "new_group (join_group grp c h) = (gr, h2)"
    and "fill_iter (heap_nodes h2) (chain_first_node (chain_at h2 c)) = Some (ns, stop)"
  shows "traverse v crit grp h =
    pyo_bind (pyo_fold (\<lambda>n d h. pyo_bind (Some (get_node_sv (node_at h n) h)) (\<lambda>v h.
        pyo_bind (traverse v crit (Some gr) h) (\<lambda>prev_depth h. Some (py_return (max d (prev_depth + 1)) h)))) ns 0 h2)
      (gen_tail v crit gr c stop)"
  by (subst traverse.simps)
    (simp add: assms(1,2,4-8) back_propagate_ok [OF assms(3)] gen_tail_def [abs_def] get_comp_chain_def sv_is_activated_def)

lemma traverse_gen_simple:
  assumes "producer (sv_at h v) = Some p" and "is_gen (node_at h p)" and "crit = LATENCY \<or> crit = THROUGHPUT"
    and "completion_chain_of (node_at h p) = None \<or> \<not> is_inserted (node_at h p)"
  shows "traverse v crit grp h = Some (Inl ParrotError, h)"
  using assms(4)
  by (subst traverse.simps) (auto simp: assms(1,2) back_propagate_ok [OF assms(3)] get_comp_chain_def parrot_assert_def)

lemma traverse_gen_activated:
  assumes "producer (sv_at h v) = Some p" and "is_gen (node_at h p)" and "crit = LATENCY \<or> crit = THROUGHPUT"
    and "completion_chain_of (node_at h p) = Some c" and "is_inserted (node_at h p)" and "activated_event (sv_at h v)"
  shows "traverse v crit grp h = Some (Inr (depth (sv_at h v)), h)"
  by (subst traverse.simps)
    (simp add: assms back_propagate_ok [OF assms(3)] get_comp_chain_def sv_is_activated_def sv_depth_def)

lemma activate_after:
  assumes tr: "traverse_ok b s w res" and "w < length (heap_svs s)"
    and v: "v < length (heap_svs s)" "producer (sv_at s v) \<noteq> None"
    and inputs: "\<And>u k. dep s v u k \<Longrightarrow> u \<noteq> v \<and> (counted u k d s \<or> u = w \<and> k = 1)"
  shows "traverse_ok b s v (pyo_bind res (\<lambda>prev_depth h.
    let d = max d (prev_depth + 1) in Some (py_bind (on_sv v (sv_activate crit d) h) (\<lambda>_ h. py_return d h))))"
proof -
  obtain r s' where s': "res = Some (r, s')" and ev: "evolves s s'" and ok: "depths_when b s'"
    using tr by (auto simp: traverse_ok_def)
  show ?thesis
  proof (cases r)
    case (Inl e)
    with traverse_ok_evolves [OF traverse_ok_raise [OF ok] ev v(1)] show ?thesis by (simp add: s')
  next
    case (Inr pd)
    let ?d = "max d (pd + 1)"
    have cw: "counted w 1 ?d s'" using count_step [OF tr assms(2), of d 1] by (simp add: s' Inr)
    have "traverse_ok b s' v (Some (py_bind (on_sv v (sv_activate crit ?d) s') (\<lambda>_ h. py_return ?d h)))"
    proof (rule activate_step [OF ok])
      fix u k
      assume "dep s' v u k"
      then have "u \<noteq> v" "counted u k d s \<or> u = w \<and> k = 1" using inputs [of u k] by (simp_all add: dep_evolves [OF ev])
      with cw counted_evolves [OF _ ev, of u k d ?d] show "u \<noteq> v \<and> counted u k ?d s'" by auto
    qed (use v evolves_length(1) [OF ev] evolves_producer [OF ev v(1)] in auto)
    then have "traverse_ok b s v (Some (py_bind (on_sv v (sv_activate crit ?d) s') (\<lambda>_ h. py_return ?d h)))"
      using traverse_ok_evolves ev v(1) by blast
    then show ?thesis by (simp add: s' Inr Let_def)
  qed
qed

lemma gen_tail_ok:
  fixes h s :: "'c graph_heap"
  assumes ranked: "graph_ranked rank h" and "v < length (heap_svs h)" and ev: "evolves h s" and ds: "depths_when b s"
    and p: "producer (sv_at h v) = Some p" "is_gen (node_at h p)" "completion_chain_of (node_at h p) = Some c"
    and ns: "fill_iter (heap_nodes h) (chain_first_node (chain_at h c)) = Some (ns, stop)"
    and fills: "\<And>n w. n \<in> set ns \<Longrightarrow> node_sv (node_at h n) = Some w \<Longrightarrow> counted w 1 d s"
    and IH: "\<And>w crit grp (h' :: 'c graph_heap). rank w < rank v \<Longrightarrow> graph_ranked rank h' \<Longrightarrow> w < length (heap_svs h') \<Longrightarrow>
      depths_when b h' \<Longrightarrow> traverse_ok b h' w (traverse w crit grp h')"
  shows "traverse_ok b s v (gen_tail v crit gr c stop d s)"
proof -
  have c: "c < length (heap_chains h)" using ranked assms(2) p by (auto simp: graph_ranked_def)
  have nodes: "heap_nodes s = heap_nodes h" using ev by (simp add: evolves_def)
  have lv: "v < length (heap_svs s)" "producer (sv_at s v) \<noteq> None"
    using assms(2) p evolves_length(1) [OF ev] evolves_producer [OF ev assms(2)] by simp_all
  have rk: "w < length (heap_svs h) \<and> rank w < rank v" if "dep h v w k" for w k
    using ranked that by (auto simp: graph_ranked_def)
  let ?first = "chain_first_node (chain_at h c)"
  have first: "chain_first_node (chain_at s c) = ?first" using evolves_first_node [OF ev c] .
  have depE: "k = 1 \<and> ((\<exists>n \<in> set ns. node_sv (node_at h n) = Some w) \<or>
      (\<exists>f g. ?first = Some f \<and> edge_a_prev (node_at h f) = Some g \<and> node_sv (node_at h g) = Some w))" if "dep h v w k" for w k
    using that p ns by (auto simp: dep_def)
  consider e where "stop = Some e" | "stop = None" "?first = None"
    | f where "stop = None" "?first = Some f" "edge_a_prev (node_at h f) = None"
    | f g where "stop = None" "?first = Some f" "edge_a_prev (node_at h f) = Some g"
    by (metis option.exhaust)
  then show ?thesis
  proof cases
    case 3
    have "traverse_ok b s v (Some (py_bind (on_sv v (sv_activate crit d) s) (\<lambda>_ h. py_return d h)))"
    proof (rule activate_step [OF ds lv])
      fix w k
      assume "dep s v w k"
      then have "dep h v w k" by (simp add: dep_evolves [OF ev])
      with depE [of w k] rk [of w k] 3 fills show "w \<noteq> v \<and> counted w k d s" by auto
    qed
    with 3 show ?thesis by (simp add: gen_tail_def first nodes)
  next
    case 4
    show ?thesis
    proof (cases "is_gen (node_at h g) \<and> node_sv (node_at h g) \<noteq> None")
      case False
      with 4 ds show ?thesis
        by (auto simp: gen_tail_def first nodes parrot_assert_def get_node_sv_def py_raise_def traverse_ok_raise)
    next
      case True
      then obtain w where w: "node_sv (node_at h g) = Some w" by auto
      have d: "dep h v w 1" using 4 w p c assms(2) by (auto simp: dep_def)
      have lw: "w < length (heap_svs s)" "rank w < rank v" using rk [OF d] evolves_length(1) [OF ev] by simp_all
      have tr: "traverse_ok b s w (traverse w crit (Some gr) s)"
        using IH lw graph_ranked_evolves [OF ev ranked] ds by blast
      have "traverse_ok b s v (pyo_bind (traverse w crit (Some gr) s) (\<lambda>prev_depth h.
          let d = max d (prev_depth + 1) in Some (py_bind (on_sv v (sv_activate crit d) h) (\<lambda>_ h. py_return d h))))"
      proof (rule activate_after [OF tr lw(1) lv])
        fix u k
        assume "dep s v u k"
        then have u: "dep h v u k" by (simp add: dep_evolves [OF ev])
        with depE [OF u] rk [OF u] 4 w fills show "u \<noteq> v \<and> (counted u k d s \<or> u = w \<and> k = 1)" by auto
      qed
      with 4 True w show ?thesis by (simp add: gen_tail_def first nodes get_node_sv_def)
    qed
  qed (use ds in \<open>simp_all add: gen_tail_def first py_raise_def traverse_ok_raise\<close>)
qed


lemma traverse_gen:
  fixes h :: "'c graph_heap"
  assumes ranked: "graph_ranked rank h" and "v < length (heap_svs h)" and "depths_when b h"
    and p: "producer (sv_at h v) = Some p" "is_gen (node_at h p)" and crit: "crit = LATENCY \<or> crit = THROUGHPUT"
    and IH: "\<And>w crit grp (h' :: 'c graph_heap). rank w < rank v \<Longrightarrow> graph_ranked rank h' \<Longrightarrow> w < length (heap_svs h') \<Longrightarrow>
      depths_when b h' \<Longrightarrow> traverse_ok b h' w (traverse w crit grp h')"
  shows "traverse_ok b h v (traverse v crit grp h)"
proof (cases "completion_chain_of (node_at h p) = None \<or> \<not> is_inserted (node_at h p)")
  case True
  then show ?thesis using traverse_gen_simple [OF p crit True] assms(3) by (simp add: traverse_ok_raise)
next
  case False
  then obtain c where c: "completion_chain_of (node_at h p) = Some c" "is_inserted (node_at h p)" by auto
  obtain gr h2 where h2: "new_group (join_group grp c h) = (gr, h2)" by (rule prod.exhaust)
  have frame: "heap_svs h2 = heap_svs h" "heap_nodes h2 = heap_nodes h"
      "map chain_first_node (heap_chains h2) = map chain_first_node (heap_chains h)"
    using new_group_frame [of "join_group grp c h"] by (simp_all add: h2)
  have ev2: "evolves h h2" by (rule evolves_groups [OF frame])
  have ok2: "depths_when b h2" using depths_ok_groups [OF ev2 frame(1)] assms(3) by simp
  obtain ns stop where lc: "c < length (heap_chains h)"
      and ns: "fill_iter (heap_nodes h) (chain_first_node (chain_at h c)) = Some (ns, stop)"
    by (rule graph_ranked_chain [OF ranked assms(2) p(1) c(1)])
  have rk: "w < length (heap_svs h) \<and> rank w < rank v" if "n \<in> set ns" "node_sv (node_at h n) = Some w" for n w
  proof -
    have "dep h v w 1" using that assms(2) p c lc ns by (auto simp: dep_def)
    then show ?thesis using ranked by (auto simp: graph_ranked_def)
  qed
  show ?thesis
  proof (cases "activated_event (sv_at h v)")
    case True
    then show ?thesis
      unfolding traverse_gen_activated [OF p crit c True] using assms(3) by (simp add: traverse_ok_def)
  next
    case act: False
    have ns2: "fill_iter (heap_nodes h2) (chain_first_node (chain_at h2 c)) = Some (ns, stop)"
      using ns evolves_first_node [OF ev2 lc] frame(2) by simp
    note eq = traverse_gen_eq [OF p crit c act h2 ns2]
    let ?fold = "pyo_fold (\<lambda>n d h. pyo_bind (Some (get_node_sv (node_at h n) h)) (\<lambda>v h.
        pyo_bind (traverse v crit (Some gr) h) (\<lambda>prev_depth h. Some (py_return (max d (prev_depth + 1)) h)))) ns 0 h2"
    have "\<exists>r s. ?fold = Some (r, s) \<and> evolves h s \<and> depths_when b s \<and>
        (\<forall>d n w. r = Inr d \<longrightarrow> n \<in> set ns \<longrightarrow> node_sv (node_at h n) = Some w \<longrightarrow> counted w 1 d s)"
      by (rule fills_loop [OF ranked ev2 ok2]) (use rk IH in auto)
    then obtain r s where s: "?fold = Some (r, s)" "evolves h s" "depths_when b s"
        "\<And>d n w. r = Inr d \<Longrightarrow> n \<in> set ns \<Longrightarrow> node_sv (node_at h n) = Some w \<Longrightarrow> counted w 1 d s"
      by blast
    show ?thesis
    proof (cases r)
      case (Inl e)
      then show ?thesis
        unfolding eq s(1) using traverse_ok_evolves [OF traverse_ok_raise [OF s(3)] s(2) assms(2)] by simp
    next
      case (Inr d)
      have "traverse_ok b s v (gen_tail v crit gr c stop d s)"
        by (rule gen_tail_ok [OF ranked assms(2) s(2,3) p c(1) ns]) (use s(4) [OF Inr] IH in auto)
      then show ?thesis
        unfolding eq s(1) using traverse_ok_evolves s(2) assms(2) Inr by (simp, blast)
    qed
  qed
qed

lemma traverse_returns:
  fixes h :: "'c graph_heap"
  assumes "graph_ranked rank h" and "v < length (heap_svs h)" and "depths_when b h"
  shows "traverse_ok b h v (traverse v crit grp h)"
  using assms
proof (induction "rank v" arbitrary: v crit grp h rule: less_induct)
  case less
  consider "\<not> (crit = LATENCY \<or> crit = THROUGHPUT)" | "crit = LATENCY \<or> crit = THROUGHPUT" "producer (sv_at h v) = None"
    | p where "crit = LATENCY \<or> crit = THROUGHPUT" "producer (sv_at h v) = Some p" "\<not> is_gen (node_at h p)"
    | p where "crit = LATENCY \<or> crit = THROUGHPUT" "producer (sv_at h v) = Some p" "is_gen (node_at h p)"
    by fastforce
  then show ?case
  proof cases
    case 1
    then have "traverse v crit grp h = Some (Inl NotImplementedError, h)"
      by (subst traverse.simps) (simp add: back_propagate_criteria_def py_raise_def)
    with less.prems show ?thesis by (simp add: traverse_ok_raise)
  next
    case 2
    then have "traverse v crit grp h = Some (Inr 0, h)"
      by (subst traverse.simps) (simp add: back_propagate_ok [OF 2(1)] py_return_def)
    with 2 less.prems show ?thesis by (simp add: traverse_ok_def)
  next
    case 3
    show ?thesis by (rule traverse_native [OF less.prems 3(2,3,1)]) (rule less.hyps)
  next
    case 4
    show ?thesis by (rule traverse_gen [OF less.prems 4(2,3,1)]) (rule less.hyps)
  qed
qed


lemma activate_sv_ok:
  assumes "graph_ranked rank h" and "depths_when b h" and "v < length (heap_svs h)"
  shows "\<exists>r h'. activate_sv v crit h = Some (r, h') \<and> evolves h h' \<and> depths_when b h' \<and>
    (r = Inr () \<longrightarrow> producer (sv_at h v) \<noteq> None \<longrightarrow> sv_is_activated (sv_at h' v))"
proof (cases "activated_event (sv_at h v)")
  case True
  then show ?thesis using assms(2) by (simp add: activate_sv_def sv_is_activated_def py_raise_def)
next
  case False
  obtain r h' where t: "traverse v crit None h = Some (r, h')" "evolves h h'" "depths_when b h'"
      "\<forall>d. r = Inr d \<longrightarrow> producer (sv_at h v) \<noteq> None \<longrightarrow> activated_event (sv_at h' v) \<and> depth (sv_at h' v) = d"
    using traverse_returns [OF assms(1,3,2)] unfolding traverse_ok_def by blast
  with False show ?thesis
    by (cases r) (auto simp: activate_sv_def sv_is_activated_def)
qed


text \<open>A graph of one request that fills a text and an input and generates an output.\<close>

definition graph_demo :: "unit graph_heap" where
  "graph_demo =
    (let h = empty_heap\<lparr>heap_svs := map (\<lambda>i. new_semantic_variable (JStr ''v'') (str_nat i) False (int i)) [0..<3]\<rparr>;
         creq = example_request [TextChunk 0 ''Hi'', PlaceholderChunk 1 ''x'', PlaceholderChunk 2 ''y''];
         h = snd (the (from_chunked_request creq h));
         h = foldl (\<lambda>h n. on_node n (set_sv n) h) h [0..<3]
     in snd (snd (the (insert_and_update_request_chain 0 (new_compute_graph, h)))))"

lemma graph_demo_facts:
  "length (heap_chains graph_demo) = 1"
  "chain_first_node (chain_at graph_demo 0) = Some 0" "fill_iter (heap_nodes graph_demo) (Some 0) = Some ([0, 1], None)"
  by code_simp+

lemma graph_demo_at:
  "length (heap_svs graph_demo) = 3"
  "producer (sv_at graph_demo 0) = None" "producer (sv_at graph_demo (Suc 0)) = None" "producer (sv_at graph_demo 2) = Some 2"
  "is_gen (node_at graph_demo 2)" "completion_chain_of (node_at graph_demo 2) = Some 0"
  "node_sv (node_at graph_demo 0) = Some 0" "node_sv (node_at graph_demo (Suc 0)) = Some 1" "edge_a_prev (node_at graph_demo 0) = None"
  "\<not> activated_event (sv_at graph_demo 0)" "\<not> activated_event (sv_at graph_demo (Suc 0))" "\<not> activated_event (sv_at graph_demo 2)"
  by code_simp+

lemma graph_demo_dep: "dep graph_demo v w k \<Longrightarrow> v = 2 \<and> w < 2"
proof -
  assume d: "dep graph_demo v w k"
  then have "v < 3" by (simp add: dep_def graph_demo_at)
  then consider "v = 0" | "v = 1" | "v = 2" by linarith
  then show ?thesis
    using d graph_demo_facts by cases (auto simp: dep_def graph_demo_at)
qed

lemma graph_demo_ranked: "graph_ranked id graph_demo"
  unfolding graph_ranked_def
proof (intro conjI allI impI)
  fix v w k
  assume "dep graph_demo v w k"
  then show "w < length (heap_svs graph_demo)" "id w < id v" using graph_demo_dep [of v w k] by (auto simp: graph_demo_at)
next
  fix v p c
  assume a: "v < length (heap_svs graph_demo)" "producer (sv_at graph_demo v) = Some p" "completion_chain_of (node_at graph_demo p) = Some c"
  then consider "v = 0" | "v = 1" | "v = 2" unfolding graph_demo_at by linarith
  then have "c = 0" using a by cases (auto simp: graph_demo_at)
  then show "c < length (heap_chains graph_demo)" "fill_iter (heap_nodes graph_demo) (chain_first_node (chain_at graph_demo c)) \<noteq> None"
    using graph_demo_facts by auto
qed

lemma graph_demo_depths: "depths_ok graph_demo"
  unfolding depths_ok_def using graph_demo_dep graph_demo_at(12) by blast


end
