(* ===== verification/Variable_Manager.thy ===== *)
theory Variable_Manager
  imports Sem_Graph
begin

text \<open>
  \<^verbatim>\<open>serve/variable_manager.py\<close>: the namespaces that give semantic variables their ids, and the manager of the
  constant prefix namespace and of one namespace per session. The variables are objects of the graph
  heap, the namespaces hold references to them. \<open>uuid3\<close>, the hash of the Python library, is a
  parameter, and so is the UUID that a new namespace draws; the clock, read once per call here, is
  an argument. What the ids rely on is the hypothesis that the hash of a namespace is injective.
  The invariant \<open>prefix_inv\<close> of the constant prefixes holds in every reachable state: the access times
  and the namespace have the same keys, and a key is the hash of the content of its variable.
\<close>

section \<open>Namespaces\<close>

definition NONE_SEED :: int where
  "NONE_SEED = 1"

record 'u namespace =
  ns_vars :: "(string, sv_ref) dict"
  seed_pool :: recycle_pool
  namespace_uuid :: 'u

definition new_namespace :: "'u \<Rightarrow> 'u namespace" where
  "new_namespace u = \<lparr>ns_vars = [], seed_pool = new_pool None False, namespace_uuid = u\<rparr>"

type_synonym ('u, 'c) ns_state = "'u namespace \<times> 'c graph_heap"

definition get_hashed_var_id :: "('u \<Rightarrow> string \<Rightarrow> string) \<Rightarrow> 'u namespace \<Rightarrow> string \<Rightarrow> string" where
  "get_hashed_var_id uuid3 ns text = uuid3 (namespace_uuid ns) text"

definition get_var_by_id :: "'u namespace \<Rightarrow> string \<Rightarrow> sv_ref option" where
  "get_var_by_id ns vid = map_of (ns_vars ns) vid"

definition get_var_by_content :: "('u \<Rightarrow> string \<Rightarrow> string) \<Rightarrow> 'u namespace \<Rightarrow> string \<Rightarrow> sv_ref option" where
  "get_var_by_content uuid3 ns text = map_of (ns_vars ns) (get_hashed_var_id uuid3 ns text)"

definition alloc_sv :: "semantic_variable \<Rightarrow> 'c graph_heap \<Rightarrow> sv_ref \<times> 'c graph_heap" where
  "alloc_sv v h = (length (heap_svs h), h\<lparr>heap_svs := heap_svs h @ [v]\<rparr>)"

definition new_var_by_content ::
  "('u \<Rightarrow> string \<Rightarrow> string) \<Rightarrow> string \<Rightarrow> bool \<Rightarrow> ('u, 'c) ns_state \<Rightarrow> (sv_ref, ('u, 'c) ns_state) py" where
  "new_var_by_content uuid3 text is_prefix s =
    (let (ns, h) = s; vid = get_hashed_var_id uuid3 ns text
     in case map_of (ns_vars ns) vid of
          Some v \<Rightarrow> py_return v (ns, h)
        | None \<Rightarrow>
            (let (v, h) = alloc_sv (new_semantic_variable (JStr ''constant'') vid is_prefix NONE_SEED) h
             in py_bind (py_lift (Pair ns) (on_sv v (sv_set (JStr text)) h)) (\<lambda>_ (ns, h).
                  py_return v (ns\<lparr>ns_vars := dict_set vid v (ns_vars ns)\<rparr>, h))))"

definition new_var_by_name ::
  "('u \<Rightarrow> string \<Rightarrow> string) \<Rightarrow> json \<Rightarrow> bool \<Rightarrow> ('u, 'c) ns_state \<Rightarrow> (sv_ref, ('u, 'c) ns_state) py" where
  "new_var_by_name uuid3 nm is_prefix s =
    (let (ns, h) = s
     in py_bind (py_lift (\<lambda>p. (ns\<lparr>seed_pool := p\<rparr>, h)) (pool_allocate (seed_pool ns))) (\<lambda>seed (ns, h).
        let vid = get_hashed_var_id uuid3 ns (py_str seed)
        in py_bind (parrot_assert (\<not> dict_mem vid (ns_vars ns)) (ns, h)) (\<lambda>_ (ns, h).
             let (v, h) = alloc_sv (new_semantic_variable nm vid is_prefix seed) h
             in py_return v (ns\<lparr>ns_vars := dict_set vid v (ns_vars ns)\<rparr>, h))))"

definition free_var :: "sv_ref \<Rightarrow> ('u, 'c) ns_state \<Rightarrow> (unit, ('u, 'c) ns_state) py" where
  "free_var v s =
    (let (ns, h) = s
     in py_bind (parrot_assert (dict_mem (var_id (sv_at h v)) (ns_vars ns)) (ns, h)) (\<lambda>_ (ns, h).
        py_bind (if var_seed (sv_at h v) \<noteq> NONE_SEED
                 then py_lift (\<lambda>p. (ns\<lparr>seed_pool := p\<rparr>, h)) (pool_free (var_seed (sv_at h v)) (seed_pool ns))
                 else py_return () (ns, h)) (\<lambda>_ (ns, h).
          py_return () (ns\<lparr>ns_vars := dict_pop (var_id (sv_at h v)) (ns_vars ns)\<rparr>, h))))"

section \<open>The manager\<close>

record 'u variable_manager =
  constant_prefix_namespace :: "'u namespace"
  session_namespaces :: "(int, 'u namespace) dict"
  constant_prefix_last_access_time :: "(string, int) dict"
  constant_prefix_var_timeout :: int

definition new_variable_manager :: "'u \<Rightarrow> int \<Rightarrow> 'u variable_manager" where
  "new_variable_manager u t =
    \<lparr>constant_prefix_namespace = new_namespace u, session_namespaces = [], constant_prefix_last_access_time = [],
     constant_prefix_var_timeout = t\<rparr>"

type_synonym ('u, 'c) vm_state = "'u variable_manager \<times> 'c graph_heap"

text \<open>Run an operation on the namespace of a session; \<^verbatim>\<open>session_namespaces[session_id]\<close> may raise \<^verbatim>\<open>KeyError\<close>.\<close>

definition in_session ::
  "int \<Rightarrow> (('u, 'c) ns_state \<Rightarrow> ('a, ('u, 'c) ns_state) py) \<Rightarrow> ('u, 'c) vm_state \<Rightarrow> ('a, ('u, 'c) vm_state) py" where
  "in_session sid op s =
    (let (m, h) = s
     in py_bind (dict_get (session_namespaces m) sid (m, h)) (\<lambda>ns (m, h).
          py_lift (\<lambda>(ns, h). (m\<lparr>session_namespaces := dict_set sid ns (session_namespaces m)\<rparr>, h)) (op (ns, h))))"

definition get_constant_prefix_var ::
  "('u \<Rightarrow> string \<Rightarrow> string) \<Rightarrow> int \<Rightarrow> string \<Rightarrow> ('u, 'c) vm_state \<Rightarrow> (sv_ref, ('u, 'c) vm_state) py" where
  "get_constant_prefix_var uuid3 now text s =
    (let (m, h) = s
     in py_bind (py_lift (\<lambda>(ns, h). (m\<lparr>constant_prefix_namespace := ns\<rparr>, h))
          (new_var_by_content uuid3 text True (constant_prefix_namespace m, h))) (\<lambda>v (m, h).
          py_return v (m\<lparr>constant_prefix_last_access_time :=
            dict_set (var_id (sv_at h v)) now (constant_prefix_last_access_time m)\<rparr>, h)))"

definition get_local_var_by_content ::
  "('u \<Rightarrow> string \<Rightarrow> string) \<Rightarrow> int \<Rightarrow> string \<Rightarrow> ('u, 'c) vm_state \<Rightarrow> (sv_ref, ('u, 'c) vm_state) py" where
  "get_local_var_by_content uuid3 sid text s = in_session sid (new_var_by_content uuid3 text False) s"

definition create_local_var_by_name ::
  "('u \<Rightarrow> string \<Rightarrow> string) \<Rightarrow> int \<Rightarrow> json \<Rightarrow> ('u, 'c) vm_state \<Rightarrow> (sv_ref, ('u, 'c) vm_state) py" where
  "create_local_var_by_name uuid3 sid nm s = in_session sid (new_var_by_name uuid3 nm False) s"

text \<open>An id of a payload that is no string is in no namespace; a list or a dictionary cannot be looked up at all.\<close>

definition get_local_var_by_id :: "int \<Rightarrow> json \<Rightarrow> ('u, 'c) vm_state \<Rightarrow> (sv_ref, ('u, 'c) vm_state) py" where
  "get_local_var_by_id sid vid s =
    in_session sid (\<lambda>(ns, h).
      if \<not> py_hashable vid then py_raise TypeError (ns, h)
      else case (case vid of JStr t \<Rightarrow> get_var_by_id ns t | _ \<Rightarrow> None) of
             None \<Rightarrow> py_raise ParrotError (ns, h)
           | Some v \<Rightarrow> py_return v (ns, h)) s"

definition register_local_var_space :: "'u \<Rightarrow> int \<Rightarrow> 'u variable_manager \<Rightarrow> (unit, 'u variable_manager) py" where
  "register_local_var_space u sid m =
    py_bind (parrot_assert (\<not> dict_mem sid (session_namespaces m)) m) (\<lambda>_ m.
      py_return () (m\<lparr>session_namespaces := dict_set sid (new_namespace u) (session_namespaces m)\<rparr>))"

definition free_local_var_space :: "int \<Rightarrow> 'u variable_manager \<Rightarrow> (unit, 'u variable_manager) py" where
  "free_local_var_space sid m =
    py_bind (parrot_assert (dict_mem sid (session_namespaces m)) m) (\<lambda>_ m.
      py_return () (m\<lparr>session_namespaces := dict_pop sid (session_namespaces m)\<rparr>))"

text \<open>The loop of \<^verbatim>\<open>free_expired_constant_prefix_vars\<close>, over the items at its start.\<close>

fun expire_loop ::
  "int \<Rightarrow> (string \<times> int) list \<Rightarrow> sv_ref list \<Rightarrow> ('u, 'c) vm_state \<Rightarrow> (sv_ref list, ('u, 'c) vm_state) py" where
  "expire_loop now [] ret s = py_return ret s"
| "expire_loop now ((vid, last_access_time) # items) ret (m, h) =
    (if now - last_access_time > constant_prefix_var_timeout m * 1000000000 then
       (case get_var_by_id (constant_prefix_namespace m) vid of
          None \<Rightarrow> py_raise ParrotError (m, h)
        | Some v \<Rightarrow>
            py_bind (py_lift (\<lambda>(ns, h). (m\<lparr>constant_prefix_namespace := ns\<rparr>, h)) (free_var v (constant_prefix_namespace m, h)))
              (\<lambda>_ (m, h). expire_loop now items (ret @ [v])
                 (m\<lparr>constant_prefix_last_access_time := dict_pop vid (constant_prefix_last_access_time m)\<rparr>, h)))
     else expire_loop now items ret (m, h))"

definition free_expired_constant_prefix_vars :: "int \<Rightarrow> ('u, 'c) vm_state \<Rightarrow> (sv_ref list, ('u, 'c) vm_state) py" where
  "free_expired_constant_prefix_vars now s = expire_loop now (constant_prefix_last_access_time (fst s)) [] s"

definition create_var :: "('u \<Rightarrow> string \<Rightarrow> string) \<Rightarrow> int \<Rightarrow> json \<Rightarrow> ('u, 'c) vm_state \<Rightarrow> (sv_ref, ('u, 'c) vm_state) py" where
  "create_var uuid3 sid nm s =
    py_bind (parrot_assert (dict_mem sid (session_namespaces (fst s))) s) (\<lambda>_ s.
      in_session sid (new_var_by_name uuid3 nm False) s)"

definition get_var :: "int \<Rightarrow> string \<Rightarrow> ('u, 'c) vm_state \<Rightarrow> (sv_ref, ('u, 'c) vm_state) py" where
  "get_var sid vid s =
    (case get_var_by_id (constant_prefix_namespace (fst s)) vid of
       Some v \<Rightarrow> py_return v s
     | None \<Rightarrow>
         py_bind (parrot_assert (dict_mem sid (session_namespaces (fst s))) s) (\<lambda>_ s.
         py_bind (dict_get (session_namespaces (fst s)) sid s) (\<lambda>ns s.
           case get_var_by_id ns vid of
             None \<Rightarrow> py_raise ParrotCoreUserError s
           | Some v \<Rightarrow> py_return v s)))"

section \<open>Variables of a request\<close>

text \<open>\<^verbatim>\<open>lvar.set(value)\<close> and \<^verbatim>\<open>node.set_sv(lvar)\<close> on the state of the manager.\<close>

definition set_content :: "sv_ref \<Rightarrow> json \<Rightarrow> ('u, 'c) vm_state \<Rightarrow> (unit, ('u, 'c) vm_state) py" where
  "set_content v x s = py_lift (Pair (fst s)) (on_sv v (sv_set x) (snd s))"

definition bind_node :: "node_ref \<Rightarrow> sv_ref \<Rightarrow> ('u, 'c) vm_state \<Rightarrow> (unit, ('u, 'c) vm_state) py" where
  "bind_node n v s = py_return () (fst s, on_node n (set_sv v) (snd s))"

text \<open>The body of the loop over the nodes, with the flag of the constant prefix.\<close>

definition create_node_var ::
  "('u \<Rightarrow> string \<Rightarrow> string) \<Rightarrow> int \<Rightarrow> int \<Rightarrow> node_ref \<Rightarrow> bool \<Rightarrow> ('u, 'c) vm_state \<Rightarrow> (bool, ('u, 'c) vm_state) py" where
  "create_node_var uuid3 now sid n flag s =
    (let nd = node_at (snd s) n; flag = (flag \<and> \<not> has_placeholder nd)
     in py_bind
       (case node_kind nd of
          ConstantFill text \<Rightarrow>
            if flag then py_bind (get_constant_prefix_var uuid3 now text s) (\<lambda>v s. bind_node n v s)
            else py_bind (get_local_var_by_content uuid3 sid text s) (\<lambda>v s. bind_node n v s)
        | PlaceholderFill param \<Rightarrow>
            if should_create param then
              py_bind (create_local_var_by_name uuid3 sid (param_name param) s) (\<lambda>v s.
              py_bind (parrot_assert (has_value param) s) (\<lambda>_ s.
              py_bind (set_content v (param_value param) s) (\<lambda>_ s. bind_node n v s)))
            else py_bind (get_local_var_by_id sid (param_var_id param) s) (\<lambda>v s. bind_node n v s)
        | PlaceholderGen param \<Rightarrow>
            py_bind (create_local_var_by_name uuid3 sid (param_name param) s) (\<lambda>v s. bind_node n v s)
        | NativeFuncNode _ \<Rightarrow> py_raise ParrotError s)
       (\<lambda>_ s. py_return flag s))"

fun create_node_vars ::
  "('u \<Rightarrow> string \<Rightarrow> string) \<Rightarrow> int \<Rightarrow> int \<Rightarrow> node_ref list \<Rightarrow> bool \<Rightarrow> ('u, 'c) vm_state \<Rightarrow> (unit, ('u, 'c) vm_state) py" where
  "create_node_vars uuid3 now sid [] flag s = py_return () s"
| "create_node_vars uuid3 now sid (n # ns) flag s =
    py_bind (create_node_var uuid3 now sid n flag s) (\<lambda>flag s. create_node_vars uuid3 now sid ns flag s)"

definition create_vars_for_semantic_request_chain ::
  "('u \<Rightarrow> string \<Rightarrow> string) \<Rightarrow> int \<Rightarrow> int \<Rightarrow> request_ref \<Rightarrow> ('u, 'c) vm_state \<Rightarrow> (unit, ('u, 'c) vm_state) pyo" where
  "create_vars_for_semantic_request_chain uuid3 now sid rq s =
    Option.bind (request_iter (heap_nodes (snd s)) (Some (first_node (request_at (snd s) rq)))) (\<lambda>ns.
      Some (create_node_vars uuid3 now sid ns (py_truth (cache_prefix (chain_meta (request_at (snd s) rq)))) s))"

text \<open>The body of the loop over the parameters of a native call.\<close>

definition create_param_var ::
  "('u \<Rightarrow> string \<Rightarrow> string) \<Rightarrow> int \<Rightarrow> node_ref \<Rightarrow> json \<times> function_parameter \<Rightarrow> ('u, 'c) vm_state \<Rightarrow> (unit, ('u, 'c) vm_state) py" where
  "create_param_var uuid3 sid n kp s =
    (let (key, param) = kp
     in py_bind
       (if should_create param then
          py_bind (create_local_var_by_name uuid3 sid key s) (\<lambda>v s.
            if has_value param then py_bind (set_content v (param_value param) s) (\<lambda>_ s. py_return v s)
            else py_return v s)
        else get_local_var_by_id sid (param_var_id param) s) (\<lambda>v s.
       py_return () (fst s, on_node n (\<lambda>x. if py_truth (is_output param)
          then x\<lparr>output_vars := dict_set key v (output_vars x)\<rparr>
          else x\<lparr>input_vars := dict_set key v (input_vars x)\<rparr>) (snd s))))"

definition create_vars_for_pynative_func ::
  "('u \<Rightarrow> string \<Rightarrow> string) \<Rightarrow> int \<Rightarrow> node_ref \<Rightarrow> ('u, 'c) vm_state \<Rightarrow> (unit, ('u, 'c) vm_state) py" where
  "create_vars_for_pynative_func uuid3 sid n s =
    (case node_kind (node_at (snd s) n) of
       NativeFuncNode rq \<Rightarrow> py_for (create_param_var uuid3 sid n) (native_parameters_map rq) s
     | _ \<Rightarrow> py_raise AttributeError s)"

section \<open>Constant prefixes\<close>

text \<open>What the rest of the system keeps of the variables: it only adds new ones and fills them.\<close>

definition svs_kept :: "'c graph_heap \<Rightarrow> 'c graph_heap \<Rightarrow> bool" where
  "svs_kept h h' \<longleftrightarrow> length (heap_svs h) \<le> length (heap_svs h') \<and>
    (\<forall>v < length (heap_svs h). var_id (sv_at h' v) = var_id (sv_at h v) \<and> var_seed (sv_at h' v) = var_seed (sv_at h v) \<and>
       is_constant_prefix (sv_at h' v) = is_constant_prefix (sv_at h v) \<and>
       (content (sv_at h v) \<noteq> JNone \<longrightarrow> content (sv_at h' v) = content (sv_at h v)) \<and>
       (ready_event (sv_at h v) \<longrightarrow> ready_event (sv_at h' v)))"

definition prefix_var :: "(string \<Rightarrow> string) \<Rightarrow> 'c graph_heap \<Rightarrow> string \<Rightarrow> sv_ref \<Rightarrow> bool" where
  "prefix_var hash h vid v \<longleftrightarrow> v < length (heap_svs h) \<and> var_id (sv_at h v) = vid \<and>
    var_seed (sv_at h v) = NONE_SEED \<and> is_constant_prefix (sv_at h v) \<and> ready_event (sv_at h v) \<and>
    (\<exists>t. content (sv_at h v) = JStr t \<and> vid = hash t)"

definition prefix_inv :: "('u \<Rightarrow> string \<Rightarrow> string) \<Rightarrow> ('u, 'c) vm_state \<Rightarrow> bool" where
  "prefix_inv uuid3 s \<longleftrightarrow>
    (let (m, h) = s; ns = constant_prefix_namespace m
     in dict_ok (ns_vars ns) \<and> dict_ok (constant_prefix_last_access_time m) \<and>
        fst ` set (ns_vars ns) = fst ` set (constant_prefix_last_access_time m) \<and>
        (\<forall>e \<in> set (ns_vars ns). prefix_var (uuid3 (namespace_uuid ns)) h (fst e) (snd e)))"

lemma svs_kept_refl [simp]: "svs_kept h h"
  by (simp add: svs_kept_def)

lemma prefix_var_kept:
  assumes "prefix_var hash h vid v" and "svs_kept h h'"
  shows "prefix_var hash h' vid v"
proof -
  have "v < length (heap_svs h)" and c: "content (sv_at h v) \<noteq> JNone" using assms(1) by (auto simp: prefix_var_def)
  with assms show ?thesis by (auto simp: prefix_var_def svs_kept_def)
qed

lemma prefix_inv_kept:
  assumes "prefix_inv uuid3 (m, h)" and "svs_kept h h'"
    and "constant_prefix_namespace m' = constant_prefix_namespace m"
    and "constant_prefix_last_access_time m' = constant_prefix_last_access_time m"
  shows "prefix_inv uuid3 (m', h')"
  using assms prefix_var_kept [OF _ assms(2)] by (simp add: prefix_inv_def Let_def)

text \<open>New variables.\<close>

lemma new_var_by_content_cases:
  assumes "new_var_by_content uuid3 text pre (ns, h) = (r, s')"
  obtains (old) v where "map_of (ns_vars ns) (uuid3 (namespace_uuid ns) text) = Some v" "r = Inr v" "s' = (ns, h)"
  | (new) "map_of (ns_vars ns) (uuid3 (namespace_uuid ns) text) = None" "r = Inr (length (heap_svs h))"
      "s' = (ns\<lparr>ns_vars := ns_vars ns @ [(uuid3 (namespace_uuid ns) text, length (heap_svs h))]\<rparr>,
             h\<lparr>heap_svs := heap_svs h @ [(new_semantic_variable (JStr ''constant'') (uuid3 (namespace_uuid ns) text) pre NONE_SEED)
               \<lparr>content := JStr text, ready_event := True\<rparr>]\<rparr>)"
proof (cases "map_of (ns_vars ns) (uuid3 (namespace_uuid ns) text)")
  case None
  then have d: "dict_set (uuid3 (namespace_uuid ns) text) (length (heap_svs h)) (ns_vars ns) =
      ns_vars ns @ [(uuid3 (namespace_uuid ns) text, length (heap_svs h))]"
    by (intro dict_set_append) (simp add: map_of_eq_None_iff)
  show thesis
    using assms None by (intro new) (auto simp: new_var_by_content_def get_hashed_var_id_def alloc_sv_def on_sv_def sv_set_def
        new_semantic_variable_def Let_def d)
next
  case (Some v)
  with assms show thesis by (intro old) (auto simp: new_var_by_content_def get_hashed_var_id_def)
qed

lemma svs_kept_append: "heap_svs h' = heap_svs h @ [v] \<Longrightarrow> svs_kept h h'"
  by (simp add: svs_kept_def nth_append)

lemma new_var_by_name_kept: "svs_kept h (snd (snd (new_var_by_name uuid3 nm pre (ns, h))))"
  by (auto simp: new_var_by_name_def py_bind_def py_lift_def parrot_assert_def alloc_sv_def Let_def py_return_def py_raise_def
      split: prod.splits sum.splits intro: svs_kept_append)

lemma get_constant_prefix_var_ok:
  assumes "prefix_inv uuid3 s"
  shows "\<exists>v s'. get_constant_prefix_var uuid3 now text s = (Inr v, s') \<and> prefix_inv uuid3 s' \<and> svs_kept (snd s) (snd s') \<and>
    map_of (ns_vars (constant_prefix_namespace (fst s'))) (uuid3 (namespace_uuid (constant_prefix_namespace (fst s))) text) = Some v \<and>
    namespace_uuid (constant_prefix_namespace (fst s')) = namespace_uuid (constant_prefix_namespace (fst s)) \<and>
    v < length (heap_svs (snd s'))"
proof -
  obtain m h where s: "s = (m, h)" by (cases s)
  let ?ns = "constant_prefix_namespace m"
  let ?vid = "uuid3 (namespace_uuid ?ns) text"
  obtain r ns' h' where op: "new_var_by_content uuid3 text True (?ns, h) = (r, (ns', h'))" by (metis prod.exhaust)
  note inv = assms [unfolded prefix_inv_def s Let_def prod.case]
  from op show ?thesis
  proof (cases rule: new_var_by_content_cases)
    case (old v)
    have v: "(?vid, v) \<in> set (ns_vars ?ns)" using old(1) by (rule map_of_SomeD)
    with inv have pv: "prefix_var (uuid3 (namespace_uuid ?ns)) h ?vid v" by (metis fst_conv snd_conv)
    then have id: "var_id (sv_at h v) = ?vid" "v < length (heap_svs h)" by (simp_all add: prefix_var_def)
    have k: "?vid \<in> fst ` set (constant_prefix_last_access_time m)" using inv v by (metis fst_conv image_eqI)
    have "get_constant_prefix_var uuid3 now text s =
        (Inr v, (m\<lparr>constant_prefix_last_access_time := dict_set ?vid now (constant_prefix_last_access_time m)\<rparr>, h))"
      using op old id by (simp add: s get_constant_prefix_var_def)
    moreover have "prefix_inv uuid3 (m\<lparr>constant_prefix_last_access_time := dict_set ?vid now (constant_prefix_last_access_time m)\<rparr>, h)"
      using inv k by (simp add: prefix_inv_def dict_simps insert_absorb)
    ultimately show ?thesis using old id by (simp add: s)
  next
    case new
    let ?v = "length (heap_svs h)"
    let ?m = "m\<lparr>constant_prefix_namespace := ns', constant_prefix_last_access_time := dict_set ?vid now (constant_prefix_last_access_time m)\<rparr>"
    have k: "?vid \<notin> fst ` set (ns_vars ?ns)" using new(1) by (simp add: map_of_eq_None_iff)
    have pv: "prefix_var (uuid3 (namespace_uuid ?ns)) h' ?vid ?v"
      using new(3) by (simp add: prefix_var_def new_semantic_variable_def)
    have kept: "svs_kept h h'" using new(3) by (intro svs_kept_append) simp
    have res: "get_constant_prefix_var uuid3 now text s = (Inr ?v, (?m, h'))"
      using op new pv by (simp add: s get_constant_prefix_var_def prefix_var_def)
    have "prefix_inv uuid3 (?m, h')"
      using inv new(3) k pv prefix_var_kept [OF _ kept] by (auto simp: prefix_inv_def dict_simps)
    moreover have "map_of (ns_vars ns') ?vid = Some ?v" using new(1,3) by (simp add: map_add_def)
    moreover have "?v < length (heap_svs h')" "namespace_uuid ns' = namespace_uuid ?ns" using new(3) by simp_all
    ultimately show ?thesis using res kept by (simp add: s)
  qed
qed


text \<open>The other operations keep the constant prefixes.\<close>

lemma prefix_inv_in_session:
  assumes "prefix_inv uuid3 s" and "\<And>ns h. svs_kept h (snd (snd (op (ns, h))))"
  shows "prefix_inv uuid3 (snd (in_session sid op s))"
proof -
  obtain m h where s: "s = (m, h)" by (cases s)
  show ?thesis
  proof (cases "map_of (session_namespaces m) sid")
    case None
    then show ?thesis using assms(1) by (simp add: in_session_def s)
  next
    case (Some ns)
    have "svs_kept h (snd (snd (op (ns, h))))" by (rule assms(2))
    with assms(1) Some show ?thesis
      by (auto simp: in_session_def s py_lift_def case_prod_beta intro!: prefix_inv_kept [of uuid3 m h])
  qed
qed

lemma set_content_kept: "svs_kept (snd s) (snd (snd (set_content v x s)))"
proof (cases "v < length (heap_svs (snd s))")
  case True
  then show ?thesis
    by (auto simp: set_content_def on_sv_def sv_set_def svs_kept_def nth_list_update)
next
  case False
  then show ?thesis by (simp add: set_content_def on_sv_def sv_set_def svs_kept_def)
qed

lemma prefix_inv_set_content: "prefix_inv uuid3 s \<Longrightarrow> prefix_inv uuid3 (snd (set_content v x s))"
  using set_content_kept [of s v x] prefix_inv_kept [of uuid3 "fst s" "snd s"]
  by (cases "on_sv v (sv_set x) (snd s)") (simp add: set_content_def)

lemma prefix_inv_nodes: "prefix_inv uuid3 (m, h) \<Longrightarrow> prefix_inv uuid3 (m, on_node n f h)"
  by (rule prefix_inv_kept [of _ m h]) (simp_all add: on_node_def svs_kept_def)

lemma new_var_by_content_kept: "svs_kept h (snd (snd (new_var_by_content uuid3 text pre (ns, h))))"
  by (rule new_var_by_content_cases [of uuid3 "text" pre ns h, OF surjective_pairing]) (auto intro: svs_kept_append)

lemma get_var_by_id_kept:
  "svs_kept h (snd (snd ((\<lambda>(ns, h). if \<not> py_hashable vid then py_raise TypeError (ns, h)
      else case (case vid of JStr t \<Rightarrow> get_var_by_id ns t | _ \<Rightarrow> None) of
             None \<Rightarrow> py_raise ParrotError (ns, h) | Some v \<Rightarrow> py_return v (ns, h)) (ns, h))))"
  by (auto split: option.split)

lemma prefix_inv_local:
  assumes "prefix_inv uuid3 s"
  shows "prefix_inv uuid3 (snd (get_local_var_by_content uuid3 sid text s))"
    "prefix_inv uuid3 (snd (create_local_var_by_name uuid3 sid nm s))"
    "prefix_inv uuid3 (snd (get_local_var_by_id sid vid s))"
  unfolding get_local_var_by_content_def create_local_var_by_name_def get_local_var_by_id_def
  by (rule prefix_inv_in_session [OF assms], rule new_var_by_content_kept new_var_by_name_kept get_var_by_id_kept)+

lemma prefix_inv_prefix_var: "prefix_inv uuid3 s \<Longrightarrow> prefix_inv uuid3 (snd (get_constant_prefix_var uuid3 now text s))"
  using get_constant_prefix_var_ok [of uuid3 s now "text"] by auto

text \<open>An invariant along a sequence of calls.\<close>

lemma inv_bind:
  assumes "P (snd r)" and "\<And>x s. P s \<Longrightarrow> P (snd (f x s))"
  shows "P (snd (py_bind r f))"
proof (cases r)
  case (Pair x s)
  with assms show ?thesis by (cases x) simp_all
qed

lemma prefix_inv_bind_node: "prefix_inv uuid3 s \<Longrightarrow> prefix_inv uuid3 (snd (bind_node n v s))"
  by (cases s) (simp add: bind_node_def prefix_inv_nodes)

lemma prefix_inv_assert: "prefix_inv uuid3 s \<Longrightarrow> prefix_inv uuid3 (snd (parrot_assert b s))"
  by (simp add: parrot_assert_def)

lemmas prefix_inv_ops =
  prefix_inv_local prefix_inv_prefix_var prefix_inv_bind_node prefix_inv_set_content prefix_inv_assert

lemma prefix_inv_create_node_var:
  assumes "prefix_inv uuid3 s"
  shows "prefix_inv uuid3 (snd (create_node_var uuid3 now sid n flag s))"
proof -
  note bind = inv_bind [where P = "prefix_inv uuid3"]
  show ?thesis
    unfolding create_node_var_def Let_def
    by (cases "node_kind (node_at (snd s) n)")
      (auto intro!: bind prefix_inv_ops assms split: if_split)
qed

lemma prefix_inv_create_node_vars:
  "prefix_inv uuid3 s \<Longrightarrow> prefix_inv uuid3 (snd (create_node_vars uuid3 now sid ns flag s))"
  by (induction ns arbitrary: flag s)
    (auto intro!: inv_bind [where P = "prefix_inv uuid3"] prefix_inv_create_node_var)

lemma prefix_inv_create_param_var:
  "prefix_inv uuid3 s \<Longrightarrow> prefix_inv uuid3 (snd (create_param_var uuid3 sid n kp s))"
  unfolding create_param_var_def Let_def
  by (cases kp) (auto intro!: inv_bind [where P = "prefix_inv uuid3"] prefix_inv_ops prefix_inv_nodes)


text \<open>The keys that have expired among the items of the access times.\<close>

definition is_expired :: "int \<Rightarrow> int \<Rightarrow> string \<times> int \<Rightarrow> bool" where
  "is_expired now limit e \<longleftrightarrow> now - snd e > limit * 1000000000"

definition expired_keys :: "int \<Rightarrow> int \<Rightarrow> (string \<times> int) list \<Rightarrow> string set" where
  "expired_keys now limit items = fst ` set (filter (is_expired now limit) items)"

lemma expired_keys_simps [simp]:
  "expired_keys now limit [] = {}"
  "expired_keys now limit (e # items) =
    (if is_expired now limit e then insert (fst e) (expired_keys now limit items) else expired_keys now limit items)"
  by (simp_all add: expired_keys_def)

lemma free_var_prefix:
  assumes "prefix_inv uuid3 (m, h)" and "map_of (ns_vars (constant_prefix_namespace m)) vid = Some v"
  shows "free_var v (constant_prefix_namespace m, h) =
    (Inr (), ((constant_prefix_namespace m)\<lparr>ns_vars := dict_pop vid (ns_vars (constant_prefix_namespace m))\<rparr>, h))"
proof -
  have "(vid, v) \<in> set (ns_vars (constant_prefix_namespace m))" using assms(2) by (rule map_of_SomeD)
  then have "prefix_var (uuid3 (namespace_uuid (constant_prefix_namespace m))) h vid v"
    using assms(1) by (auto simp: prefix_inv_def Let_def)
  then have "var_id (sv_at h v) = vid" "var_seed (sv_at h v) = NONE_SEED" by (simp_all add: prefix_var_def)
  then show ?thesis using assms(2) by (simp add: free_var_def dict_mem_def del: dict_mem_iff)
qed

lemma prefix_inv_pop:
  assumes "prefix_inv uuid3 (m, h)"
  shows "prefix_inv uuid3 (m\<lparr>constant_prefix_namespace := (constant_prefix_namespace m)
      \<lparr>ns_vars := dict_pop vid (ns_vars (constant_prefix_namespace m))\<rparr>,
    constant_prefix_last_access_time := dict_pop vid (constant_prefix_last_access_time m)\<rparr>, h)"
  using assms by (auto simp: prefix_inv_def Let_def dict_simps dict_pop_filter distinct_map_filter)

lemma expire_prefixes_ok:
  assumes "prefix_inv uuid3 (m, h)" and "dict_ok items" and "fst ` set items \<subseteq> fst ` set (constant_prefix_last_access_time m)"
  shows "\<exists>m'. expire_loop now items ret (m, h) =
      (Inr (ret @ map (\<lambda>e. the (map_of (ns_vars (constant_prefix_namespace m)) (fst e)))
         (filter (is_expired now (constant_prefix_var_timeout m)) items)), (m', h)) \<and>
    prefix_inv uuid3 (m', h) \<and>
    ns_vars (constant_prefix_namespace m') = filter (\<lambda>e. fst e \<notin> expired_keys now (constant_prefix_var_timeout m) items) (ns_vars (constant_prefix_namespace m)) \<and>
    constant_prefix_last_access_time m' = filter (\<lambda>e. fst e \<notin> expired_keys now (constant_prefix_var_timeout m) items) (constant_prefix_last_access_time m)"
  using assms
proof (induction items arbitrary: m ret)
  case Nil
  then show ?case by simp
next
  case (Cons e items)
  obtain vid t where e: "e = (vid, t)" by (cases e)
  show ?case
  proof (cases "is_expired now (constant_prefix_var_timeout m) (vid, t)")
    case False
    then show ?thesis
      using Cons.IH [of m ret] Cons.prems by (simp add: e is_expired_def)
  next
    case True
    let ?ns = "constant_prefix_namespace m"
    have "vid \<in> fst ` set (ns_vars ?ns)" using Cons.prems(1,3) by (auto simp: prefix_inv_def Let_def e)
    then obtain v where v: "map_of (ns_vars ?ns) vid = Some v" by (metis key_map_of_Some)
    let ?m = "m\<lparr>constant_prefix_namespace := ?ns\<lparr>ns_vars := dict_pop vid (ns_vars ?ns)\<rparr>,
      constant_prefix_last_access_time := dict_pop vid (constant_prefix_last_access_time m)\<rparr>"
    have step: "expire_loop now (e # items) ret (m, h) = expire_loop now items (ret @ [v]) (?m, h)"
      using True v free_var_prefix [OF Cons.prems(1) v] by (simp add: e is_expired_def get_var_by_id_def)
    have fresh: "vid \<notin> fst ` set items" using Cons.prems(2) by (simp add: e)
    have sub: "fst ` set items \<subseteq> fst ` set (constant_prefix_last_access_time ?m)"
      using Cons.prems(3) fresh by (force simp: e dict_simps image_iff)
    let ?g = "expired_keys now (constant_prefix_var_timeout m) items"
    have look: "map (\<lambda>e. the (map_of (dict_pop vid (ns_vars ?ns)) (fst e))) (filter (is_expired now (constant_prefix_var_timeout m)) items) =
        map (\<lambda>e. the (map_of (ns_vars ?ns) (fst e))) (filter (is_expired now (constant_prefix_var_timeout m)) items)"
      using fresh by (intro map_cong refl) (auto simp: image_iff)
    have "\<exists>m'. expire_loop now items (ret @ [v]) (?m, h) =
        (Inr ((ret @ [v]) @ map (\<lambda>e. the (map_of (dict_pop vid (ns_vars ?ns)) (fst e)))
           (filter (is_expired now (constant_prefix_var_timeout m)) items)), (m', h)) \<and>
      prefix_inv uuid3 (m', h) \<and>
      ns_vars (constant_prefix_namespace m') = filter (\<lambda>e. fst e \<notin> ?g) (dict_pop vid (ns_vars ?ns)) \<and>
      constant_prefix_last_access_time m' = filter (\<lambda>e. fst e \<notin> ?g) (dict_pop vid (constant_prefix_last_access_time m))"
      using Cons.IH [of ?m "ret @ [v]", OF prefix_inv_pop [OF Cons.prems(1)] _ sub] Cons.prems(2) by (simp add: e)
    then show ?thesis
      unfolding step look using True v by (auto simp: e dict_pop_filter conj_commute intro: filter_cong)
  qed
qed


section \<open>Reachable managers\<close>

text \<open>
  The calls of the manager, and whatever the rest of the system does to the heap: it adds variables
  and fills them.
\<close>

inductive vm_reach :: "('u \<Rightarrow> string \<Rightarrow> string) \<Rightarrow> ('u, 'c) vm_state \<Rightarrow> bool" for uuid3 where
  init: "vm_reach uuid3 (new_variable_manager u limit, h)"
| register: "vm_reach uuid3 (m, h) \<Longrightarrow> vm_reach uuid3 (snd (register_local_var_space u sid m), h)"
| free: "vm_reach uuid3 (m, h) \<Longrightarrow> vm_reach uuid3 (snd (free_local_var_space sid m), h)"
| create: "vm_reach uuid3 s \<Longrightarrow> vm_reach uuid3 (snd (create_var uuid3 sid nm s))"
| semantic: "vm_reach uuid3 s \<Longrightarrow> create_vars_for_semantic_request_chain uuid3 now sid rq s = Some (r, s') \<Longrightarrow>
    vm_reach uuid3 s'"
| native: "vm_reach uuid3 s \<Longrightarrow> vm_reach uuid3 (snd (create_vars_for_pynative_func uuid3 sid n s))"
| expire: "vm_reach uuid3 s \<Longrightarrow> vm_reach uuid3 (snd (free_expired_constant_prefix_vars now s))"
| graph: "vm_reach uuid3 (m, h) \<Longrightarrow> svs_kept h h' \<Longrightarrow> vm_reach uuid3 (m, h')"

lemma prefix_inv_expire:
  assumes "prefix_inv uuid3 (m, h)"
  shows "\<exists>m'. free_expired_constant_prefix_vars now (m, h) =
      (Inr (map (\<lambda>e. the (map_of (ns_vars (constant_prefix_namespace m)) (fst e)))
         (filter (is_expired now (constant_prefix_var_timeout m)) (constant_prefix_last_access_time m))), (m', h)) \<and>
    prefix_inv uuid3 (m', h) \<and>
    ns_vars (constant_prefix_namespace m') = filter (\<lambda>e. fst e \<notin>
      expired_keys now (constant_prefix_var_timeout m) (constant_prefix_last_access_time m)) (ns_vars (constant_prefix_namespace m)) \<and>
    constant_prefix_last_access_time m' = filter (\<lambda>e. fst e \<notin>
      expired_keys now (constant_prefix_var_timeout m) (constant_prefix_last_access_time m)) (constant_prefix_last_access_time m)"
proof -
  have "dict_ok (constant_prefix_last_access_time m)" using assms by (simp add: prefix_inv_def Let_def)
  then show ?thesis
    using expire_prefixes_ok [OF assms, of "constant_prefix_last_access_time m" now "[]"]
    by (simp add: free_expired_constant_prefix_vars_def)
qed

lemma vm_reach_inv: "vm_reach uuid3 s \<Longrightarrow> prefix_inv uuid3 s"
proof (induction rule: vm_reach.induct)
  case (init u limit h)
  then show ?case by (simp add: prefix_inv_def new_variable_manager_def new_namespace_def)
next
  case (register m h u sid)
  then show ?case
    by (auto simp: register_local_var_space_def parrot_assert_def intro!: prefix_inv_kept [of uuid3 m h])
next
  case (free m h sid)
  then show ?case
    by (auto simp: free_local_var_space_def parrot_assert_def intro!: prefix_inv_kept [of uuid3 m h])
next
  case (create s sid nm)
  then show ?case
    unfolding create_var_def
    by (intro inv_bind [where P = "prefix_inv uuid3"] prefix_inv_assert prefix_inv_in_session new_var_by_name_kept)
next
  case (semantic s now sid rq r s')
  then obtain ns where "create_node_vars uuid3 now sid ns
      (py_truth (cache_prefix (chain_meta (request_at (snd s) rq)))) s = (r, s')"
    by (auto simp: create_vars_for_semantic_request_chain_def Option.bind_eq_Some_conv)
  then show ?case using prefix_inv_create_node_vars semantic.IH by (metis snd_conv)
next
  case (native s sid n)
  then show ?case
    unfolding create_vars_for_pynative_func_def
    by (auto split: node_kind.split intro!: py_for_invariant prefix_inv_create_param_var)
next
  case (expire s now)
  then show ?case using prefix_inv_expire [of uuid3 "fst s" "snd s" now] by auto
next
  case (graph m h h')
  then show ?case by (auto intro: prefix_inv_kept)
qed

text \<open>A manager after one request with a constant prefix, an input and an output.\<close>

definition demo_uuid3 :: "unit \<Rightarrow> string \<Rightarrow> string" where
  "demo_uuid3 u t = CHR ''#'' # take 6 t"

definition vm_demo :: "(unit, unit) vm_state" where
  "vm_demo =
    (let h = snd (the (from_chunked_request
           (example_request [TextChunk 0 ''Hi'', PlaceholderChunk 1 ''x'', PlaceholderChunk 2 ''y'']) empty_heap))
     in snd (the (create_vars_for_semantic_request_chain demo_uuid3 7 0 0
          (snd (register_local_var_space () 0 (new_variable_manager () 1)), h))))"

lemma vm_demo_reach: "vm_reach demo_uuid3 vm_demo"
proof -
  let ?h = "snd (the (from_chunked_request
      (example_request [TextChunk 0 ''Hi'', PlaceholderChunk 1 ''x'', PlaceholderChunk 2 ''y'']) empty_heap)) :: unit graph_heap"
  let ?s = "(snd (register_local_var_space () 0 (new_variable_manager () 1)), ?h)"
  have "create_vars_for_semantic_request_chain demo_uuid3 7 0 0 ?s \<noteq> None" by code_simp
  then obtain r s' where "create_vars_for_semantic_request_chain demo_uuid3 7 0 0 ?s = Some (r, s')" by auto
  moreover from this have "vm_demo = s'" by (simp add: vm_demo_def)
  moreover have "vm_reach demo_uuid3 ?s" by (intro vm_reach.init vm_reach.register)
  ultimately show ?thesis using vm_reach.semantic by blast
qed

text \<open>
  C15. In every reachable state the expiry of constant prefixes succeeds. It returns the variables of exactly the
  prefixes whose last access is longer ago than the timeout, in the order of the access times, and
  removes exactly these from the namespace and the access times.
\<close>

theorem prefix_expiry_exact:
  assumes "vm_reach uuid3 (m, h)"
  shows "\<exists>m'. free_expired_constant_prefix_vars now (m, h) =
      (Inr (map (\<lambda>e. the (map_of (ns_vars (constant_prefix_namespace m)) (fst e)))
         (filter (is_expired now (constant_prefix_var_timeout m)) (constant_prefix_last_access_time m))), (m', h)) \<and>
    (\<forall>vid. map_of (constant_prefix_last_access_time m') vid =
      (case map_of (constant_prefix_last_access_time m) vid of
         None \<Rightarrow> None
       | Some t \<Rightarrow> if is_expired now (constant_prefix_var_timeout m) (vid, t) then None else Some t)) \<and>
    fst ` set (ns_vars (constant_prefix_namespace m')) = fst ` set (constant_prefix_last_access_time m')"
proof -
  let ?la = "constant_prefix_last_access_time m" and ?lim = "constant_prefix_var_timeout m"
  have inv: "prefix_inv uuid3 (m, h)" using vm_reach_inv [OF assms] .
  then have ok: "dict_ok ?la" by (simp add: prefix_inv_def Let_def)
  have key: "vid \<in> expired_keys now ?lim ?la \<longleftrightarrow> (\<exists>t. map_of ?la vid = Some t \<and> is_expired now ?lim (vid, t))" for vid
    using dict_ok_image_value [OF ok] by (force simp: expired_keys_def)
  have look: "map_of (filter (\<lambda>e. fst e \<notin> K) d) vid = (if vid \<in> K then None else map_of d vid)" for K vid and d :: "(string, int) dict"
    by (induction d) auto
  obtain m' where m': "free_expired_constant_prefix_vars now (m, h) =
      (Inr (map (\<lambda>e. the (map_of (ns_vars (constant_prefix_namespace m)) (fst e))) (filter (is_expired now ?lim) ?la)), (m', h))"
      "prefix_inv uuid3 (m', h)" "constant_prefix_last_access_time m' = filter (\<lambda>e. fst e \<notin> expired_keys now ?lim ?la) ?la"
    using prefix_inv_expire [OF inv, of now] by blast
  moreover have "fst ` set (ns_vars (constant_prefix_namespace m')) = fst ` set (constant_prefix_last_access_time m')"
    using m'(2) by (simp add: prefix_inv_def Let_def)
  moreover have "\<forall>vid. map_of (constant_prefix_last_access_time m') vid = (case map_of ?la vid of
      None \<Rightarrow> None | Some t \<Rightarrow> if is_expired now ?lim (vid, t) then None else Some t)"
    unfolding m'(3) look by (auto simp: key split: option.split)
  ultimately show ?thesis by blast
qed

theorem prefix_expiry_exact_witness:
  "\<exists>m'. free_expired_constant_prefix_vars 5000000000 vm_demo = (Inr [0], (m', snd vm_demo))"
proof -
  have "map (\<lambda>e. the (map_of (ns_vars (constant_prefix_namespace (fst vm_demo))) (fst e)))
      (filter (is_expired 5000000000 (constant_prefix_var_timeout (fst vm_demo))) (constant_prefix_last_access_time (fst vm_demo))) = [0]"
    by code_simp
  with prefix_expiry_exact [of demo_uuid3 "fst vm_demo" "snd vm_demo" 5000000000] vm_demo_reach show ?thesis by auto
qed

text \<open>The contents of the constant prefixes that are registered.\<close>

definition stored_texts :: "('u, 'c) vm_state \<Rightarrow> json list" where
  "stored_texts s = map (\<lambda>e. content (sv_at (snd s) (snd e))) (ns_vars (constant_prefix_namespace (fst s)))"

text \<open>
  C27. In every reachable state the variable of a constant prefix holds its text: asking for a text returns a
  ready variable with exactly this content, registered under the hash of the text, and asking again
  returns the same variable. The one condition on the hash is that the text does not collide with another text that is registered as a
  constant prefix at that moment.
\<close>

theorem constant_prefix_content:
  assumes "vm_reach uuid3 s"
    and "\<forall>t. JStr t \<in> set (stored_texts s) \<longrightarrow>
      uuid3 (namespace_uuid (constant_prefix_namespace (fst s))) t = uuid3 (namespace_uuid (constant_prefix_namespace (fst s))) text \<longrightarrow> t = text"
  shows "\<exists>v s'. get_constant_prefix_var uuid3 now text s = (Inr v, s') \<and>
    map_of (ns_vars (constant_prefix_namespace (fst s'))) (uuid3 (namespace_uuid (constant_prefix_namespace (fst s))) text) = Some v \<and>
    content (sv_at (snd s') v) = JStr text \<and> sv_is_ready (sv_at (snd s') v) \<and> is_constant_prefix (sv_at (snd s') v) \<and>
    fst (get_constant_prefix_var uuid3 later text s') = Inr v"
proof -
  let ?ns = "constant_prefix_namespace (fst s)"
  let ?hash = "uuid3 (namespace_uuid ?ns)"
  have inv: "prefix_inv uuid3 s" using vm_reach_inv [OF assms(1)] .
  obtain v s' where v: "get_constant_prefix_var uuid3 now text s = (Inr v, s')" "prefix_inv uuid3 s'"
      "map_of (ns_vars (constant_prefix_namespace (fst s'))) (?hash text) = Some v"
      "namespace_uuid (constant_prefix_namespace (fst s')) = namespace_uuid ?ns"
    using get_constant_prefix_var_ok [OF inv, of now "text"] by blast
  have "(?hash text, v) \<in> set (ns_vars (constant_prefix_namespace (fst s')))" using v(3) by (rule map_of_SomeD)
  then have pv: "prefix_var ?hash (snd s') (?hash text) v"
    using v(2,4) by (cases s') (auto simp: prefix_inv_def Let_def)
  obtain ns' h' r where op: "new_var_by_content uuid3 text True (?ns, snd s) = (r, (ns', h'))" by (metis prod.exhaust)
  then have "content (sv_at (snd s') v) = JStr text"
  proof (cases rule: new_var_by_content_cases)
    case (old u)
    have s': "v = u" "snd s' = snd s" using v(1) op old by (cases s; auto simp: get_constant_prefix_var_def)+
    have u: "(?hash text, u) \<in> set (ns_vars ?ns)" using old(1) by (rule map_of_SomeD)
    obtain t where t: "content (sv_at (snd s) u) = JStr t" "?hash text = ?hash t" using pv s' by (auto simp: prefix_var_def)
    have "JStr t \<in> set (stored_texts s)" using u t(1) by (force simp: stored_texts_def)
    with assms(2) t s' show ?thesis by metis
  next
    case new
    then show ?thesis using v(1) op by (cases s) (auto simp: get_constant_prefix_var_def)
  qed
  moreover have "fst (get_constant_prefix_var uuid3 later text s') = Inr v"
    using get_constant_prefix_var_ok [OF v(2), of later "text"] v(3,4)
    by (cases s') (auto simp: get_constant_prefix_var_def new_var_by_content_def get_hashed_var_id_def)
  ultimately show ?thesis using v(1,3) pv by (auto simp: prefix_var_def sv_is_ready_def)
qed

text \<open>The hash of the demonstration has collisions, but none with the one stored text.\<close>

theorem constant_prefix_content_witness:
  "stored_texts vm_demo = [JStr ''Hi''] \<and>
    (\<exists>v s'. get_constant_prefix_var demo_uuid3 9 ''You are'' vm_demo = (Inr v, s') \<and> content (sv_at (snd s') v) = JStr ''You are'')"
proof -
  have t: "stored_texts vm_demo = [JStr ''Hi'']" by code_simp
  then have "\<forall>t. JStr t \<in> set (stored_texts vm_demo) \<longrightarrow> demo_uuid3 u t = demo_uuid3 u ''You are'' \<longrightarrow> t = ''You are''" for u
    by (simp add: demo_uuid3_def)
  from constant_prefix_content [OF vm_demo_reach this, of 9] t show ?thesis by blast
qed

lemma dict_set_twice: "dict_set k v (dict_set k v d) = dict_set k v d"
  by (induction d) auto

text \<open>
  C40. A constant text that reads like a seed is taken for a placeholder variable. In any state, when a session has just created a variable
  for a placeholder and a Fill node outside the constant prefix of its request has the seed of that variable, written in decimal,
  as its text, the loop that creates variables binds the node to the variable of the placeholder, which has no content: the hash of a text and the hash
  of a seed are taken in the same namespace.
\<close>

theorem numeric_constant_aliases_placeholder:
  assumes "create_local_var_by_name uuid3 sid nm s0 = (Inr v, (m, h))"
    and "sv_at h' v = sv_at h v" and "node_kind (node_at h' n) = ConstantFill (py_str (var_seed (sv_at h' v)))"
  shows "create_node_var uuid3 now sid n False (m, h') = (Inr False, (m, on_node n (set_sv v) h')) \<and>
    (let x = sv_at (on_node n (set_sv v) h') v in content x = JNone \<and> \<not> sv_is_ready x)"
proof -
  obtain m0 h0 where s0: "s0 = (m0, h0)" by (cases s0)
  obtain ns where ns: "map_of (session_namespaces m0) sid = Some ns"
    using assms(1) by (cases "map_of (session_namespaces m0) sid") (auto simp: s0 create_local_var_by_name_def in_session_def)
  obtain ns' where nv: "new_var_by_name uuid3 nm False (ns, h0) = (Inr v, (ns', h))"
      "m = m0\<lparr>session_namespaces := dict_set sid ns' (session_namespaces m0)\<rparr>"
    using assms(1) ns by (cases "new_var_by_name uuid3 nm False (ns, h0)")
      (auto simp: s0 create_local_var_by_name_def in_session_def py_lift_def py_return_def split: prod.splits)
  obtain seed p where p: "pool_allocate (seed_pool ns) = (Inr seed, p)"
    using nv(1) by (cases "pool_allocate (seed_pool ns)"; cases "fst (pool_allocate (seed_pool ns))")
      (auto simp: new_var_by_name_def py_lift_def)
  have sv: "sv_at h v = new_semantic_variable nm (get_hashed_var_id uuid3 ns (py_str seed)) False seed"
      "map_of (ns_vars ns') (get_hashed_var_id uuid3 ns' (py_str seed)) = Some v"
    using nv(1) p
    by (auto simp: new_var_by_name_def py_lift_def Let_def py_bind_def parrot_assert_def alloc_sv_def get_hashed_var_id_def
        py_return_def py_raise_def split: if_splits)
  have seed: "var_seed (sv_at h v) = seed" by (simp add: sv(1) new_semantic_variable_def)
  have "get_local_var_by_content uuid3 sid (py_str seed) (m, h') = (Inr v, (m, h'))"
    using sv(2) nv(2) by (simp add: get_local_var_by_content_def in_session_def new_var_by_content_def Let_def dict_set_twice)
  with assms(2,3) seed show ?thesis
    by (simp add: create_node_var_def bind_node_def sv(1) new_semantic_variable_def sv_is_ready_def on_node_def)
qed

text \<open>A fresh session whose first placeholder is followed by a request that starts with the text 0.\<close>

definition alias_state :: "(nat, (unit, unit) vm_state) py" where
  "alias_state = create_local_var_by_name demo_uuid3 0 (JStr ''x'')
     (snd (register_local_var_space () 0 (new_variable_manager () 1)), empty_heap)"

definition alias_heap :: "unit graph_heap" where
  "alias_heap = snd (the (from_chunked_request
     (example_request [TextChunk 0 ''0'', PlaceholderChunk 1 ''x'', PlaceholderChunk 2 ''y'']) (snd (snd alias_state))))"

theorem numeric_constant_aliases_placeholder_witness:
  "\<exists>m. create_node_var demo_uuid3 7 0 0 False (m, alias_heap) = (Inr False, (m, on_node 0 (set_sv 0) alias_heap)) \<and>
    node_kind (node_at alias_heap 0) = ConstantFill ''0'' \<and> content (sv_at alias_heap 0) = JNone"
proof -
  have "fst alias_state = Inr 0" by code_simp
  then have st: "create_local_var_by_name demo_uuid3 0 (JStr ''x'')
      (snd (register_local_var_space () 0 (new_variable_manager () 1)), empty_heap) =
      (Inr 0, (fst (snd alias_state), snd (snd alias_state)))" by (simp add: alias_state_def prod_eq_iff)
  have sv: "sv_at alias_heap 0 = sv_at (snd (snd alias_state)) 0" by code_simp
  have nd: "node_kind (node_at alias_heap 0) = ConstantFill ''0''" by code_simp
  have "py_str (var_seed (sv_at alias_heap 0)) = ''0''" by code_simp
  with numeric_constant_aliases_placeholder [OF st sv, of 0 7] nd show ?thesis by (auto simp: Let_def on_node_def)
qed

end
