(* ===== verification/Engine_Manager.thy ===== *)
theory Engine_Manager
  imports Context_Manager
begin

text \<open>
  \<^verbatim>\<open>serve/engine_manager.py\<close>: registration, heartbeats, expiry and removal of engines.
  The state has the store of all engine objects made so far, the manager's dictionaries,
  and the two shared components it calls, the tokenizers and the context manager. The
  clock (\<^verbatim>\<open>time_counter_in_nanoseconds\<close>) is an argument \<open>now\<close>. The theorems show that
  registering an engine gives a fresh id and keeps all the tables in step, that expiry and the
  sweep remove exactly the engines they should, and where a shared tokenizer breaks this.
\<close>

section \<open>State and operations\<close>

record 'tok engine_manager =
  engine_objs :: "execution_engine list"
  engines :: "(int, engine_ref) dict"
  engine_last_seen_time :: "(int, int) dict"
  em_models :: "(string, language_model) dict"
  models_ref_counter :: "(string, int) dict"
  engine_id_pool :: recycle_pool
  em_tokenizers :: "'tok tokenizers"
  em_context_mgr :: context_manager
  engine_heartbeat_timeout :: int

definition new_engine_manager :: "'tok tokenizers \<Rightarrow> context_manager \<Rightarrow> int \<Rightarrow> 'tok engine_manager" where
  "new_engine_manager ts cm tmo =
    \<lparr>engine_objs = [], engines = [], engine_last_seen_time = [], em_models = [], models_ref_counter = [],
     engine_id_pool = new_pool None False, em_tokenizers = ts, em_context_mgr = cm,
     engine_heartbeat_timeout = tmo\<rparr>"

definition register_model ::
  "'tok tokenizer_lib \<Rightarrow> language_model \<Rightarrow> 'tok engine_manager \<Rightarrow> (language_model, 'tok engine_manager) py" where
  "register_model lib lm m =
    (if dict_mem (model_name lm) (em_models m) then
       py_bind (dict_get (models_ref_counter m) (model_name lm) m) (\<lambda>n m.
       py_bind (dict_get (em_models m) (model_name lm)
           (m\<lparr>models_ref_counter := dict_set (model_name lm) (n + 1) (models_ref_counter m)\<rparr>)) (\<lambda>lm m.
         py_return lm m))
     else
       (let m = m\<lparr>em_models := dict_set (model_name lm) lm (em_models m),
                  models_ref_counter := dict_set (model_name lm) 1 (models_ref_counter m)\<rparr>
        in if language_model_type lm = TOKEN_ID then
             py_bind (py_lift (\<lambda>ts. m\<lparr>em_tokenizers := ts\<rparr>)
                        (register_tokenizer lib (model_tokenizer_name lm) (em_tokenizers m))) (\<lambda>_ m.
               py_return lm m)
           else py_return lm m))"

definition remove_model :: "string \<Rightarrow> 'tok engine_manager \<Rightarrow> (unit, 'tok engine_manager) py" where
  "remove_model name m =
    py_bind (dict_get (models_ref_counter m) name m) (\<lambda>n m.
      let m = m\<lparr>models_ref_counter := dict_set name (n - 1) (models_ref_counter m)\<rparr>
      in if n - 1 = 0 then
           py_bind (dict_get (em_models m) name m) (\<lambda>lm m.
             let m = m\<lparr>em_models := dict_pop name (em_models m)\<rparr>
             in if language_model_type lm = TOKEN_ID then
                  py_lift (\<lambda>ts. m\<lparr>em_tokenizers := ts\<rparr>)
                    (remove_tokenizer (model_tokenizer_name lm) (em_tokenizers m))
                else py_return () m)
         else py_return () m)"

definition remove_engine :: "int \<Rightarrow> 'tok engine_manager \<Rightarrow> (unit, 'tok engine_manager) py" where
  "remove_engine eid m =
    py_bind (dict_get (engines m) eid m) (\<lambda>e m.
    py_bind (remove_model (engine_model_name (engine_objs m ! e)) (m\<lparr>engines := dict_pop eid (engines m)\<rparr>)) (\<lambda>_ m.
    py_bind (dict_get (engine_last_seen_time m) eid m) (\<lambda>_ m.
    let m = m\<lparr>engine_last_seen_time := dict_pop eid (engine_last_seen_time m)\<rparr> in
    py_bind (py_lift (\<lambda>p. m\<lparr>engine_id_pool := p\<rparr>) (pool_free eid (engine_id_pool m))) (\<lambda>_ m.
      py_lift (\<lambda>cm. m\<lparr>em_context_mgr := cm\<rparr>) (remove_engine_prefix_cache eid (em_context_mgr m))))))"

definition raise_exception :: "int \<Rightarrow> py_error \<Rightarrow> 'tok engine_manager \<Rightarrow> (unit, 'tok engine_manager) py" where
  "raise_exception eid exc m =
    py_bind (dict_get (engines m) eid m) (\<lambda>e m.
      py_return () (m\<lparr>engine_objs := (engine_objs m)[e := mark_bad exc (engine_objs m ! e)]\<rparr>))"

definition get_live_engines :: "'tok engine_manager \<Rightarrow> engine_ref list" where
  "get_live_engines m = filter (\<lambda>e. is_running (engine_objs m ! e)) (dict_values (engines m))"

definition register_engine ::
  "'tok tokenizer_lib \<Rightarrow> int \<Rightarrow> engine_config \<Rightarrow> 'tok engine_manager \<Rightarrow> (int, 'tok engine_manager) py" where
  "register_engine lib now cfg m =
    py_bind (language_model_from_engine_config cfg m) (\<lambda>lm m.
    py_bind (register_model lib lm m) (\<lambda>lm m.
    py_bind (py_lift (\<lambda>p. m\<lparr>engine_id_pool := p\<rparr>) (pool_allocate (engine_id_pool m))) (\<lambda>eid m.
      py_return eid
        (m\<lparr>engine_objs := engine_objs m @ [new_execution_engine eid cfg lm],
           engines := dict_set eid (length (engine_objs m)) (engines m),
           engine_last_seen_time := dict_set eid now (engine_last_seen_time m),
           em_context_mgr := register_engine_prefix_cache eid (em_context_mgr m)\<rparr>))))"

definition engine_heartbeat :: "int \<Rightarrow> int \<Rightarrow> engine_runtime_info \<Rightarrow> 'tok engine_manager \<Rightarrow> (unit, 'tok engine_manager) py" where
  "engine_heartbeat now eid info m =
    (if \<not> dict_mem eid (engines m) then py_raise ParrotCoreUserError m
     else
       py_bind (dict_get (engines m) eid m) (\<lambda>e m.
         py_return ()
           (m\<lparr>engine_objs := (engine_objs m)[e := update_realtime_runtime_info info (engine_objs m ! e)],
              engine_last_seen_time := dict_set eid now (engine_last_seen_time m)\<rparr>)))"

definition get_engine :: "int \<Rightarrow> 'tok engine_manager \<Rightarrow> (engine_ref, 'tok engine_manager) py" where
  "get_engine eid m =
    py_bind (parrot_assert (dict_mem eid (engines m)) m) (\<lambda>_ m. dict_get (engines m) eid m)"

definition expire_step :: "int \<Rightarrow> int \<times> int \<Rightarrow> 'tok engine_manager \<Rightarrow> (unit, 'tok engine_manager) py" where
  "expire_step now item m =
    py_bind (dict_get (engines m) (fst item) m) (\<lambda>e m.
      if now - snd item > engine_heartbeat_timeout m * 1000000000
      then py_return () (m\<lparr>engine_objs := (engine_objs m)[e := (engine_objs m ! e)\<lparr>status := DEAD\<rparr>]\<rparr>)
      else py_return () m)"

definition update_expired_engines :: "int \<Rightarrow> 'tok engine_manager \<Rightarrow> (unit, 'tok engine_manager) py" where
  "update_expired_engines now m = py_for (expire_step now) (engine_last_seen_time m) m"

definition sweep_step :: "int \<times> engine_ref \<Rightarrow> 'tok engine_manager \<Rightarrow> (unit, 'tok engine_manager) py" where
  "sweep_step item m =
    (if \<not> is_running (engine_objs m ! snd item) then remove_engine (fst item) m else py_return () m)"

definition sweep_not_running_engines :: "'tok engine_manager \<Rightarrow> (unit, 'tok engine_manager) py" where
  "sweep_not_running_engines m = py_for sweep_step (engines m) m"

section \<open>The invariant\<close>

definition engine_model_names :: "'tok engine_manager \<Rightarrow> string list" where
  "engine_model_names m = map (\<lambda>e. engine_model_name (engine_objs m ! snd e)) (engines m)"

definition models_ok :: "'tok engine_manager \<Rightarrow> bool" where
  "models_ok m \<longleftrightarrow>
    (\<forall>name. (case map_of (models_ref_counter m) name of None \<Rightarrow> 0 | Some n \<Rightarrow> n) = int (count_list (engine_model_names m) name)) \<and>
    (\<forall>name. (map_of (em_models m) name \<noteq> None) = (name \<in> set (engine_model_names m))) \<and>
    (\<forall>name lm. map_of (em_models m) name = Some lm \<longrightarrow> model_name lm = name)"

text \<open>Every token-id model in use has its tokenizer loaded, and no two share one.\<close>

definition tokenizers_ok :: "'tok engine_manager \<Rightarrow> bool" where
  "tokenizers_ok m \<longleftrightarrow>
    (\<forall>name lm. map_of (em_models m) name = Some lm \<longrightarrow> language_model_type lm = TOKEN_ID \<longrightarrow>
       model_tokenizer_name lm \<in> fst ` set (em_tokenizers m)) \<and>
    (\<forall>n1 l1 n2 l2. map_of (em_models m) n1 = Some l1 \<longrightarrow> map_of (em_models m) n2 = Some l2 \<longrightarrow>
       language_model_type l1 = TOKEN_ID \<longrightarrow> language_model_type l2 = TOKEN_ID \<longrightarrow>
       model_tokenizer_name l1 = model_tokenizer_name l2 \<longrightarrow> n1 = n2)"

definition engines_ok :: "'tok engine_manager \<Rightarrow> bool" where
  "engines_ok m \<longleftrightarrow>
    dict_ok (engines m) \<and> distinct (dict_values (engines m)) \<and> dict_ok (engine_last_seen_time m) \<and>
    pool_inv (engine_id_pool m) (fst ` set (engines m)) \<and> pool_size (engine_id_pool m) = None \<and>
    fst ` set (engine_last_seen_time m) = fst ` set (engines m) \<and>
    fst ` set (prefix_caches (em_context_mgr m)) = fst ` set (engines m) \<and>
    (\<forall>(eid, e) \<in> set (engines m). e < length (engine_objs m) \<and> engine_id (engine_objs m ! e) = eid \<and>
       map_of (em_models m) (engine_model_name (engine_objs m ! e)) = Some (model (engine_objs m ! e)))"

definition em_inv :: "'tok engine_manager \<Rightarrow> bool" where
  "em_inv m \<longleftrightarrow> engines_ok m \<and> models_ok m \<and> tokenizers_ok m"

lemma em_inv_new: "prefix_caches cm = [] \<Longrightarrow> em_inv (new_engine_manager ts cm tmo)"
  by (simp add: em_inv_def engines_ok_def models_ok_def tokenizers_ok_def engine_model_names_def
      new_engine_manager_def new_pool_def pool_inv_def)

section \<open>Registering\<close>

text \<open>
  A configuration that can be registered: a known engine type, and for a new token-id model
  a tokenizer that loads and that no other model uses.
\<close>

definition model_of_config :: "engine_config \<Rightarrow> language_model option" where
  "model_of_config cfg =
    map_option (\<lambda>mt. \<lparr>model_name = cfg_model cfg, model_tokenizer_name = cfg_tokenizer cfg, language_model_type = mt\<rparr>)
      (map_of MODEL_TYPE_MAP (engine_type cfg))"

definition registrable :: "'tok tokenizer_lib \<Rightarrow> engine_config \<Rightarrow> 'tok engine_manager \<Rightarrow> bool" where
  "registrable lib cfg m \<longleftrightarrow>
    (case model_of_config cfg of
       None \<Rightarrow> False
     | Some lm \<Rightarrow>
         dict_mem (cfg_model cfg) (em_models m) \<or> language_model_type lm \<noteq> TOKEN_ID \<or>
         ((\<exists>tok. from_pretrained lib (cfg_tokenizer cfg) = Inr tok) \<and>
          list_all (\<lambda>(n, l). language_model_type l = TOKEN_ID \<longrightarrow> model_tokenizer_name l \<noteq> cfg_tokenizer cfg) (em_models m)))"

lemma language_model_from_config:
  "model_of_config cfg = Some lm \<Longrightarrow> language_model_from_engine_config cfg s = py_return lm s"
  by (auto simp: model_of_config_def language_model_from_engine_config_def)

lemma count_default: "(case map_of d k of None \<Rightarrow> 0 | Some n \<Rightarrow> n) = (0 :: int) \<Longrightarrow> map_of d k = Some n \<Longrightarrow> n = 0"
  by simp

text \<open>
  \<^verbatim>\<open>_register_model\<close>: the model is counted once more, under the model object that is already
  registered for its name, if there is one.
\<close>

lemma register_model_ok:
  assumes inv: "models_ok m" "tokenizers_ok m" and lm: "model_of_config cfg = Some lm" and reg: "registrable lib cfg m"
  shows "\<exists>lm' m'. register_model lib lm m = (Inr lm', m') \<and> model_name lm' = model_name lm \<and>
    map_of (em_models m') (model_name lm) = Some lm' \<and> tokenizers_ok m' \<and>
    (\<forall>name l. map_of (em_models m) name = Some l \<longrightarrow> map_of (em_models m') name = Some l) \<and>
    (\<forall>name. (map_of (em_models m') name \<noteq> None) = (name = model_name lm \<or> map_of (em_models m) name \<noteq> None)) \<and>
    (\<forall>name. (case map_of (models_ref_counter m') name of None \<Rightarrow> 0 | Some n \<Rightarrow> n) =
       int (count_list (engine_model_names m) name) + (if name = model_name lm then 1 else 0)) \<and>
    (\<forall>name l. map_of (em_models m') name = Some l \<longrightarrow> model_name l = name) \<and>
    m' = m\<lparr>em_models := em_models m', models_ref_counter := models_ref_counter m', em_tokenizers := em_tokenizers m'\<rparr>"
proof (cases "map_of (em_models m) (model_name lm)")
  case (Some lm')
  let ?n = "int (count_list (engine_model_names m) (model_name lm))"
  have "model_name lm \<in> set (engine_model_names m)" using inv(1) Some unfolding models_ok_def by (metis option.distinct(1))
  then have "?n \<noteq> 0" by (simp add: count_list_0_iff)
  moreover have "(case map_of (models_ref_counter m) (model_name lm) of None \<Rightarrow> 0 | Some n \<Rightarrow> n) = ?n"
    using inv(1) by (simp add: models_ok_def)
  ultimately have cnt: "map_of (models_ref_counter m) (model_name lm) = Some ?n" by (auto split: option.splits)
  define m' where "m' = m\<lparr>models_ref_counter := dict_set (model_name lm) (?n + 1) (models_ref_counter m)\<rparr>"
  have "register_model lib lm m = (Inr lm', m')"
    using Some cnt by (simp add: register_model_def key_iff_map_of m'_def)
  moreover have "model_name lm' = model_name lm" using inv(1) Some by (simp add: models_ok_def)
  ultimately show ?thesis using inv Some unfolding models_ok_def tokenizers_ok_def
    by (intro exI [of _ lm'] exI [of _ m']) (auto simp: m'_def)
next
  case None
  have name: "model_name lm = cfg_model cfg" "model_tokenizer_name lm = cfg_tokenizer cfg"
    using lm by (auto simp: model_of_config_def)
  have zero: "count_list (engine_model_names m) (model_name lm) = 0"
    using inv(1) None unfolding models_ok_def by (metis count_list_0_iff)
  have toks: "language_model_type lm = TOKEN_ID \<Longrightarrow> \<exists>tok. from_pretrained lib (model_tokenizer_name lm) = Inr tok"
    and other: "language_model_type lm = TOKEN_ID \<Longrightarrow> map_of (em_models m) n = Some l \<Longrightarrow>
      language_model_type l = TOKEN_ID \<Longrightarrow> model_tokenizer_name l \<noteq> model_tokenizer_name lm" for n l
    using reg lm None name by (auto simp: registrable_def key_iff_map_of list_all_iff dest: map_of_SomeD)
  define m1 where "m1 = m\<lparr>em_models := dict_set (model_name lm) lm (em_models m),
    models_ref_counter := dict_set (model_name lm) 1 (models_ref_counter m)\<rparr>"
  obtain ts where ts: "register_model lib lm m = (Inr lm, m1\<lparr>em_tokenizers := ts\<rparr>)"
      "fst ` set (em_tokenizers m) \<subseteq> fst ` set ts"
      "language_model_type lm = TOKEN_ID \<Longrightarrow> model_tokenizer_name lm \<in> fst ` set ts"
  proof (cases "language_model_type lm = TOKEN_ID")
    case True
    then obtain tok where "from_pretrained lib (model_tokenizer_name lm) = Inr tok" using toks by blast
    from register_tokenizer_ok [OF this, of "em_tokenizers m"]
    obtain ts where ts: "register_tokenizer lib (model_tokenizer_name lm) (em_tokenizers m) = (Inr (), ts)"
        "fst ` set ts = insert (model_tokenizer_name lm) (fst ` set (em_tokenizers m))"
      by blast
    then have "register_model lib lm m = (Inr lm, m1\<lparr>em_tokenizers := ts\<rparr>)"
      using True None by (simp add: register_model_def key_iff_map_of [of "model_name lm"] m1_def Let_def)
    then show ?thesis using that [of ts] ts(2) by auto
  next
    case False
    then show ?thesis using that [of "em_tokenizers m"] None
      by (simp add: register_model_def key_iff_map_of [of "model_name lm"] m1_def Let_def)
  qed
  let ?m' = "m1\<lparr>em_tokenizers := ts\<rparr>"
  have "tokenizers_ok ?m'"
    using inv(2) ts(2,3) other unfolding tokenizers_ok_def
    by (auto simp: m1_def split: if_splits)
  then show ?thesis using inv(1) ts(1) zero None unfolding models_ok_def
    by (intro exI [of _ lm] exI [of _ ?m']) (auto simp: m1_def)
qed

lemma register_engine_ok:
  assumes inv: "em_inv m" and reg: "registrable lib cfg m"
  shows "\<exists>eid m'. register_engine lib now cfg m = (Inr eid, m') \<and> em_inv m' \<and> eid \<notin> fst ` set (engines m) \<and>
    engines m' = engines m @ [(eid, length (engine_objs m))] \<and> map_of (engine_last_seen_time m') eid = Some now \<and>
    em_context_mgr m' = register_engine_prefix_cache eid (em_context_mgr m) \<and>
    (\<exists>lm. engine_objs m' = engine_objs m @ [new_execution_engine eid cfg lm] \<and> model_name lm = cfg_model cfg)"
proof -
  obtain lm where lm: "model_of_config cfg = Some lm" using reg by (auto simp: registrable_def split: option.splits)
  have name: "model_name lm = cfg_model cfg" using lm by (auto simp: model_of_config_def)
  have ok: "engines_ok m" "models_ok m" "tokenizers_ok m" using inv by (simp_all add: em_inv_def)
  obtain lm' m1 where m1: "register_model lib lm m = (Inr lm', m1)" "model_name lm' = model_name lm"
      "map_of (em_models m1) (model_name lm) = Some lm'" "tokenizers_ok m1"
      "\<And>n l. map_of (em_models m) n = Some l \<Longrightarrow> map_of (em_models m1) n = Some l"
      "\<And>n. (map_of (em_models m1) n \<noteq> None) = (n = model_name lm \<or> map_of (em_models m) n \<noteq> None)"
      "\<And>n. (case map_of (models_ref_counter m1) n of None \<Rightarrow> 0 | Some n \<Rightarrow> n) =
         int (count_list (engine_model_names m) n) + (if n = model_name lm then 1 else 0)"
      "\<And>n l. map_of (em_models m1) n = Some l \<Longrightarrow> model_name l = n"
      "m1 = m\<lparr>em_models := em_models m1, models_ref_counter := models_ref_counter m1, em_tokenizers := em_tokenizers m1\<rparr>"
    using register_model_ok [OF ok(2,3) lm reg] by blast
  have f: "engines m1 = engines m" "engine_objs m1 = engine_objs m" "engine_last_seen_time m1 = engine_last_seen_time m"
    "engine_id_pool m1 = engine_id_pool m" "em_context_mgr m1 = em_context_mgr m"
    by (subst m1(9), simp)+
  have pool: "pool_inv (engine_id_pool m) (fst ` set (engines m))" "pool_size (engine_id_pool m) = None"
    using ok(1) unfolding engines_ok_def by blast+
  obtain eid p where p: "pool_allocate (engine_id_pool m) = (Inr eid, p)" "pool_size p = None"
    using pool_allocate_unbounded [OF pool(2)] by blast
  let ?e = "length (engine_objs m)"
  note fresh = rp.register_fresh [OF pool(1) p(1)]
  define m' where "m' = m1\<lparr>engine_id_pool := p, engine_objs := engine_objs m @ [new_execution_engine eid cfg lm'],
    engines := dict_set eid ?e (engines m), engine_last_seen_time := dict_set eid now (engine_last_seen_time m),
    em_context_mgr := register_engine_prefix_cache eid (em_context_mgr m)\<rparr>"
  have run: "register_engine lib now cfg m = (Inr eid, m')"
    using m1(1) p(1) lm by (simp add: register_engine_def language_model_from_config f m'_def)
  have old: "e < ?e" if "(i, e) \<in> set (engines m)" for i e using ok(1) that by (auto simp: engines_ok_def)
  have names: "engine_model_names m' = engine_model_names m @ [model_name lm]"
    using old m1(2) fresh(3)
    by (auto simp: engine_model_names_def m'_def nth_append engine_model_name_def new_execution_engine_def)
  have "models_ok m'"
    using m1(6,7,8) ok(2) unfolding models_ok_def names by (auto simp: m'_def)
  moreover have "tokenizers_ok m'" using m1(4) by (simp add: tokenizers_ok_def m'_def)
  moreover have "engines_ok m'"
  proof -
    have "\<forall>(i, e) \<in> set (engines m'). e < length (engine_objs m') \<and> engine_id (engine_objs m' ! e) = i \<and>
        map_of (em_models m') (engine_model_name (engine_objs m' ! e)) = Some (model (engine_objs m' ! e))"
    proof (intro ballI, clarify)
      fix i e
      assume ie: "(i, e) \<in> set (engines m')"
      show "e < length (engine_objs m') \<and> engine_id (engine_objs m' ! e) = i \<and>
          map_of (em_models m') (engine_model_name (engine_objs m' ! e)) = Some (model (engine_objs m' ! e))"
      proof (cases "(i, e) \<in> set (engines m)")
        case True
        then show ?thesis using ok(1) m1(5) old [OF True] by (auto simp: engines_ok_def m'_def nth_append)
      next
        case False
        then have "i = eid" "e = ?e" using ie fresh(3) by (auto simp: m'_def)
        then show ?thesis using m1(2,3) by (simp add: m'_def engine_model_name_def new_execution_engine_def)
      qed
    qed
    moreover have "distinct (dict_values (engines m'))" using ok(1) old fresh(3) by (auto simp: engines_ok_def m'_def)
    ultimately show ?thesis
      using ok(1) fresh(2) p(2)
      by (auto simp: engines_ok_def m'_def dict_keys_set register_engine_prefix_cache_def)
  qed
  ultimately show ?thesis
    using run fresh(1,3) m1(2) name unfolding em_inv_def
    by (intro exI [of _ eid] exI [of _ m']) (auto simp: m'_def)
qed

section \<open>Removing\<close>

lemma count_list_filter_key:
  assumes "dict_ok d" and "map_of d k = Some e"
  shows "count_list (map (\<lambda>x. f (snd x)) (dict_pop k d)) y =
    count_list (map (\<lambda>x. f (snd x)) d) y - (if y = f e then 1 else 0)"
  using assms
proof (induction d)
  case (Cons x d)
  show ?case
  proof (cases "fst x = k")
    case True
    then have "dict_pop k d = d" using Cons.prems(1) by (intro dict_pop_absent) auto
    with True Cons.prems show ?thesis by (cases x) auto
  next
    case False
    with Cons.prems have m: "map_of d k = Some e" by (cases x) auto
    then have "f e \<in> set (map (\<lambda>x. f (snd x)) d)" by (force dest: map_of_SomeD)
    then have "count_list (map (\<lambda>x. f (snd x)) d) (f e) \<noteq> 0" by (simp only: count_list_0_iff) simp
    with Cons m False show ?thesis by (cases x) auto
  qed
qed simp

lemma remove_model_ok:
  assumes mo: "models_ok m" and toks: "tokenizers_ok m" and pos: "name \<in> set (engine_model_names m)"
    and m0: "m0 = m\<lparr>engines := es\<rparr>"
    and names: "\<And>n. count_list (engine_model_names m0) n = count_list (engine_model_names m) n - (if n = name then 1 else 0)"
  shows "\<exists>m'. remove_model name m0 = (Inr (), m') \<and> models_ok m' \<and> tokenizers_ok m' \<and>
    (\<forall>n l. map_of (em_models m) n = Some l \<longrightarrow> n \<in> set (engine_model_names m0) \<longrightarrow> map_of (em_models m') n = Some l) \<and>
    m' = m0\<lparr>em_models := em_models m', models_ref_counter := models_ref_counter m', em_tokenizers := em_tokenizers m'\<rparr>"
proof -
  let ?c = "count_list (engine_model_names m) name"
  have c0: "?c \<noteq> 0" using pos by (simp add: count_list_0_iff)
  have cnt: "map_of (models_ref_counter m) name = Some (int ?c)"
  proof -
    have "(case map_of (models_ref_counter m) name of None \<Rightarrow> 0 | Some n \<Rightarrow> n) = int ?c" using mo by (simp add: models_ok_def)
    with c0 show ?thesis by (auto split: option.splits)
  qed
  obtain lm where lm: "map_of (em_models m) name = Some lm" using mo pos unfolding models_ok_def by (metis not_Some_eq)
  have mem: "n \<in> set (engine_model_names m0) \<longleftrightarrow> n \<in> set (engine_model_names m) \<and> (n = name \<longrightarrow> ?c \<noteq> 1)" for n
  proof -
    have "n \<in> set (engine_model_names m0) \<longleftrightarrow> count_list (engine_model_names m0) n \<noteq> 0" by (simp add: count_list_0_iff)
    also have "\<dots> \<longleftrightarrow> count_list (engine_model_names m) n \<noteq> 0 \<and> (n = name \<longrightarrow> ?c \<noteq> 1)" using c0 by (auto simp: names)
    finally show ?thesis by (simp add: count_list_0_iff)
  qed
  have cnt': "(case map_of (dict_set name (int ?c - 1) (models_ref_counter m)) n of None \<Rightarrow> 0 | Some k \<Rightarrow> k) =
      int (count_list (engine_model_names m0) n)" for n
    using mo c0 by (auto simp: models_ok_def names)
  show ?thesis
  proof (cases "?c = 1")
    case False
    define m' where "m' = m0\<lparr>models_ref_counter := dict_set name (int ?c - 1) (models_ref_counter m)\<rparr>"
    have "remove_model name m0 = (Inr (), m')"
      using cnt False by (simp add: remove_model_def m0 m'_def Let_def)
    moreover have "engine_model_names m' = engine_model_names m0" by (simp add: engine_model_names_def m'_def)
    then have "models_ok m'" using mo cnt' mem False unfolding models_ok_def by (simp add: m'_def m0)
    moreover have "tokenizers_ok m'" using toks by (simp add: tokenizers_ok_def m'_def m0)
    ultimately show ?thesis by (intro exI [of _ m']) (simp add: m'_def m0)
  next
    case True
    have tok: "language_model_type lm = TOKEN_ID \<Longrightarrow> model_tokenizer_name lm \<in> fst ` set (em_tokenizers m)"
      using toks lm by (auto simp: tokenizers_ok_def)
    define m' where "m' = m0\<lparr>models_ref_counter := dict_set name (int ?c - 1) (models_ref_counter m),
      em_models := dict_pop name (em_models m),
      em_tokenizers := if language_model_type lm = TOKEN_ID then dict_pop (model_tokenizer_name lm) (em_tokenizers m)
                       else em_tokenizers m\<rparr>"
    have "remove_model name m0 = (Inr (), m')"
      using cnt True lm tok by (simp add: remove_model_def remove_tokenizer_def m0 m'_def Let_def)
    moreover have "engine_model_names m' = engine_model_names m0" by (simp add: engine_model_names_def m'_def)
    then have "models_ok m'" using mo cnt' mem True unfolding models_ok_def by (simp add: m'_def m0)
    moreover have "tokenizers_ok m'"
      unfolding tokenizers_ok_def
    proof (intro conjI allI impI)
      fix n l
      assume l: "map_of (em_models m') n = Some l" "language_model_type l = TOKEN_ID"
      then have old: "map_of (em_models m) n = Some l" "n \<noteq> name" by (auto simp: m'_def m0 split: if_splits)
      then have "model_tokenizer_name l \<in> fst ` set (em_tokenizers m)" using toks l(2) by (auto simp: tokenizers_ok_def)
      moreover have "language_model_type lm = TOKEN_ID \<Longrightarrow> model_tokenizer_name l \<noteq> model_tokenizer_name lm"
        using toks old lm l(2) unfolding tokenizers_ok_def by blast
      ultimately show "model_tokenizer_name l \<in> fst ` set (em_tokenizers m')" by (auto simp: m'_def dict_keys_pop)
    next
      fix n1 l1 n2 l2
      assume a: "map_of (em_models m') n1 = Some l1" "map_of (em_models m') n2 = Some l2"
        "language_model_type l1 = TOKEN_ID" "language_model_type l2 = TOKEN_ID"
        "model_tokenizer_name l1 = model_tokenizer_name l2"
      then have "map_of (em_models m) n1 = Some l1" "map_of (em_models m) n2 = Some l2" by (auto simp: m'_def m0 split: if_splits)
      with a toks show "n1 = n2" unfolding tokenizers_ok_def by blast
    qed
    ultimately show ?thesis using mem True by (intro exI [of _ m']) (auto simp: m'_def m0)
  qed
qed

lemma dict_values_pop_distinct: "distinct (dict_values d) \<Longrightarrow> distinct (dict_values (dict_pop k d))"
  by (induction d) (auto simp: dict_pop_def AList.delete_eq)

lemma remove_engine_ok:
  assumes inv: "em_inv m" and e: "map_of (engines m) eid = Some e"
  shows "\<exists>m'. remove_engine eid m = (Inr (), m') \<and> em_inv m' \<and> engines m' = dict_pop eid (engines m) \<and>
    engine_objs m' = engine_objs m"
proof -
  let ?name = "engine_model_name (engine_objs m ! e)"
  have ok: "engines_ok m" "models_ok m" "tokenizers_ok m" using inv by (simp_all add: em_inv_def)
  have d: "dict_ok (engines m)" "pool_inv (engine_id_pool m) (fst ` set (engines m))" "pool_size (engine_id_pool m) = None"
    "fst ` set (engine_last_seen_time m) = fst ` set (engines m)"
    "fst ` set (prefix_caches (em_context_mgr m)) = fst ` set (engines m)"
    using ok(1) unfolding engines_ok_def by blast+
  have mem: "eid \<in> fst ` set (engines m)" using map_of_Some_key [OF e] .
  define m0 where "m0 = m\<lparr>engines := dict_pop eid (engines m)\<rparr>"
  have names: "count_list (engine_model_names m0) n = count_list (engine_model_names m) n - (if n = ?name then 1 else 0)" for n
    using count_list_filter_key [OF d(1) e, of "\<lambda>e. engine_model_name (engine_objs m ! e)" n]
    by (simp add: engine_model_names_def m0_def)
  have pos: "?name \<in> set (engine_model_names m)"
    using map_of_SomeD [OF e] by (force simp: engine_model_names_def)
  obtain m1 where m1: "remove_model ?name m0 = (Inr (), m1)" "models_ok m1" "tokenizers_ok m1"
      "\<And>n l. map_of (em_models m) n = Some l \<Longrightarrow> n \<in> set (engine_model_names m0) \<Longrightarrow> map_of (em_models m1) n = Some l"
      "m1 = m0\<lparr>em_models := em_models m1, models_ref_counter := models_ref_counter m1, em_tokenizers := em_tokenizers m1\<rparr>"
    using remove_model_ok [OF ok(2,3) pos m0_def names] by blast
  have f: "engines m1 = dict_pop eid (engines m)" "engine_objs m1 = engine_objs m"
    "engine_last_seen_time m1 = engine_last_seen_time m" "engine_id_pool m1 = engine_id_pool m"
    "em_context_mgr m1 = em_context_mgr m"
    by (subst m1(5), simp add: m0_def)+
  obtain last where last: "map_of (engine_last_seen_time m) eid = Some last"
    using key_map_of_Some mem d(4) by metis
  obtain p where p: "pool_free eid (engine_id_pool m) = (Inr (), p)" "pool_inv p (fst ` set (dict_pop eid (engines m)))"
    using rp.unregister_ok [OF d(2) mem] by blast
  have psize: "pool_size p = None" using pool_free_size [OF p(1)] d(3) by simp
  define m' where "m' = m1\<lparr>engine_last_seen_time := dict_pop eid (engine_last_seen_time m), engine_id_pool := p,
    em_context_mgr := (em_context_mgr m)\<lparr>prefix_caches := dict_pop eid (prefix_caches (em_context_mgr m))\<rparr>\<rparr>"
  have run: "remove_engine eid m = (Inr (), m')"
    using e m1(1) last p(1) mem d(5)
    by (simp add: remove_engine_def f m'_def Let_def remove_engine_prefix_cache_def flip: m0_def)
  have sub: "(i, x) \<in> set (dict_pop eid (engines m)) \<Longrightarrow> (i, x) \<in> set (engines m)" for i x
    by (auto simp: dict_pop_def AList.delete_eq)
  have "engines_ok m'"
    unfolding engines_ok_def
  proof (intro conjI)
    show "\<forall>(i, x) \<in> set (engines m'). x < length (engine_objs m') \<and> engine_id (engine_objs m' ! x) = i \<and>
        map_of (em_models m') (engine_model_name (engine_objs m' ! x)) = Some (model (engine_objs m' ! x))"
    proof (intro ballI, clarify)
      fix i x
      assume "(i, x) \<in> set (engines m')"
      then have ix: "(i, x) \<in> set (dict_pop eid (engines m))" by (simp add: m'_def f)
      then have "engine_model_name (engine_objs m ! x) \<in> set (engine_model_names m0)"
        by (force simp: engine_model_names_def m0_def)
      then show "x < length (engine_objs m') \<and> engine_id (engine_objs m' ! x) = i \<and>
          map_of (em_models m') (engine_model_name (engine_objs m' ! x)) = Some (model (engine_objs m' ! x))"
        using ok(1) sub [OF ix] m1(4) by (auto simp: engines_ok_def m'_def f)
    qed
    show "distinct (dict_values (engines m'))"
      using ok(1) dict_values_pop_distinct by (auto simp: engines_ok_def m'_def f)
  qed (use ok(1) p(2) psize d(4,5) in \<open>auto simp: engines_ok_def m'_def f dict_keys_pop\<close>)
  moreover have "models_ok m'" "tokenizers_ok m'"
    using m1(2,3) by (simp_all add: models_ok_def tokenizers_ok_def engine_model_names_def m'_def)
  ultimately show ?thesis using run f unfolding em_inv_def by (intro exI [of _ m']) (simp add: m'_def)
qed

section \<open>Expiry and sweep\<close>

lemma em_inv_objs:
  assumes "em_inv m" and "length objs = length (engine_objs m)"
    and "\<And>e. e < length objs \<Longrightarrow> engine_id (objs ! e) = engine_id (engine_objs m ! e) \<and> model (objs ! e) = model (engine_objs m ! e)"
  shows "em_inv (m\<lparr>engine_objs := objs\<rparr>)"
proof -
  have same: "e < length objs \<and> engine_model_name (objs ! e) = engine_model_name (engine_objs m ! e) \<and>
      engine_id (objs ! e) = i \<and> model (objs ! e) = model (engine_objs m ! e)" if "(i, e) \<in> set (engines m)" for i e
    using assms that by (auto simp: em_inv_def engines_ok_def engine_model_name_def)
  then have "engine_model_names (m\<lparr>engine_objs := objs\<rparr>) = engine_model_names m"
    by (auto simp: engine_model_names_def)
  then show ?thesis
    using assms(1) same unfolding em_inv_def engines_ok_def models_ok_def tokenizers_ok_def by auto
qed

lemma sweep_loop_ok:
  assumes "em_inv m" and "engines m = ds @ xs" and "objs = engine_objs m"
  shows "\<exists>m'. py_for sweep_step xs m =
      (Inr (), m') \<and> em_inv m' \<and> engine_objs m' = objs \<and>
    engines m' = ds @ filter (\<lambda>(eid, e). is_running (objs ! e)) xs"
  using assms
proof (induction xs arbitrary: m ds)
  case (Cons x xs)
  obtain eid e where x: "x = (eid, e)" by fastforce
  have d: "dict_ok (engines m)" using Cons.prems(1) by (simp add: em_inv_def engines_ok_def)
  show ?case
  proof (cases "is_running (objs ! e)")
    case True
    have "engines m = (ds @ [x]) @ xs" using Cons.prems(2) by simp
    from Cons.IH [OF Cons.prems(1) this Cons.prems(3)] True x Cons.prems(3) show ?thesis by (simp add: sweep_step_def)
  next
    case False
    have "map_of (engines m) eid = Some e" 
      by (subst dict_ok_image_value [OF d, symmetric]) (simp add: Cons.prems(2) x)
    then obtain m1 where m1: "remove_engine eid m = (Inr (), m1)" "em_inv m1" "engines m1 = dict_pop eid (engines m)"
        "engine_objs m1 = engine_objs m"
      using remove_engine_ok [OF Cons.prems(1)] by blast
    have "eid \<notin> fst ` set ds" "eid \<notin> fst ` set xs" using d unfolding Cons.prems(2) x by auto
    then have "engines m1 = ds @ xs"
      unfolding m1(3) Cons.prems(2) x by (induction ds) (auto simp: dict_pop_absent)
    from Cons.IH [OF m1(2) this] m1 Cons.prems(3) False x show ?thesis by (simp add: sweep_step_def)
  qed
qed simp

lemma expire_loop_ok:
  assumes "em_inv m" and "fst ` set xs \<subseteq> fst ` set (engines m)"
  shows "\<exists>m'. py_for (expire_step now) xs m = (Inr (), m') \<and> em_inv m' \<and> m' = m\<lparr>engine_objs := engine_objs m'\<rparr> \<and>
    length (engine_objs m') = length (engine_objs m) \<and>
    (\<forall>e < length (engine_objs m). engine_objs m' ! e =
       (if \<exists>(eid, last) \<in> set xs. map_of (engines m) eid = Some e \<and> now - last > engine_heartbeat_timeout m * 1000000000
        then (engine_objs m ! e)\<lparr>status := DEAD\<rparr> else engine_objs m ! e))"
  using assms
proof (induction xs arbitrary: m)
  case (Cons x xs)
  obtain eid last where x: "x = (eid, last)" by fastforce
  obtain e where e: "map_of (engines m) eid = Some e" using Cons.prems(2) key_map_of_Some [of eid "engines m"] x by auto
  let ?dead = "now - last > engine_heartbeat_timeout m * 1000000000"
  define m1 where "m1 = (if ?dead then m\<lparr>engine_objs := (engine_objs m)[e := (engine_objs m ! e)\<lparr>status := DEAD\<rparr>]\<rparr> else m)"
  have "e < length (engine_objs m)"
    using Cons.prems(1) map_of_SomeD [OF e] by (auto simp: em_inv_def engines_ok_def)
  then have "em_inv m1"
    unfolding m1_def using Cons.prems(1) em_inv_objs [OF Cons.prems(1), of "(engine_objs m)[e := (engine_objs m ! e)\<lparr>status := DEAD\<rparr>]"]
    by (simp add: nth_list_update)
  moreover have "engines m1 = engines m" "engine_heartbeat_timeout m1 = engine_heartbeat_timeout m"
    "length (engine_objs m1) = length (engine_objs m)" by (simp_all add: m1_def)
  ultimately obtain m' where m': "py_for (expire_step now) xs m1 = (Inr (), m')" "em_inv m'" "m' = m1\<lparr>engine_objs := engine_objs m'\<rparr>"
      "length (engine_objs m') = length (engine_objs m)"
      "\<forall>k < length (engine_objs m). engine_objs m' ! k =
       (if \<exists>(eid, last) \<in> set xs. map_of (engines m) eid = Some k \<and> now - last > engine_heartbeat_timeout m * 1000000000
        then (engine_objs m1 ! k)\<lparr>status := DEAD\<rparr> else engine_objs m1 ! k)"
    using Cons.IH [of m1] Cons.prems(2) by auto
  have one: "engine_objs m1 ! k = (if k = e \<and> ?dead then (engine_objs m ! k)\<lparr>status := DEAD\<rparr> else engine_objs m ! k)"
    if "k < length (engine_objs m)" for k using that by (simp add: m1_def nth_list_update)
  have "m' = m\<lparr>engine_objs := engine_objs m'\<rparr>" using m'(3) unfolding m1_def by (cases ?dead) simp_all
  moreover have "\<forall>k < length (engine_objs m). engine_objs m' ! k =
       (if \<exists>(eid, last) \<in> set (x # xs). map_of (engines m) eid = Some k \<and> now - last > engine_heartbeat_timeout m * 1000000000
        then (engine_objs m ! k)\<lparr>status := DEAD\<rparr> else engine_objs m ! k)"
    using m'(5) one x e by auto
  moreover have "py_for (expire_step now) (x # xs) m = py_for (expire_step now) xs m1"
    using x e by (simp add: m1_def expire_step_def)
  ultimately show ?case using m'(1,2,4) by (intro exI [of _ m']) (simp only: simp_thms)
qed simp

lemma update_expired_ok:
  assumes "em_inv m"
  shows "\<exists>m'. update_expired_engines now m = (Inr (), m') \<and> em_inv m' \<and> m' = m\<lparr>engine_objs := engine_objs m'\<rparr> \<and>
    (\<forall>eid e last. map_of (engines m) eid = Some e \<longrightarrow> map_of (engine_last_seen_time m) eid = Some last \<longrightarrow>
       engine_objs m' ! e = (if now - last > engine_heartbeat_timeout m * 1000000000
                             then (engine_objs m ! e)\<lparr>status := DEAD\<rparr> else engine_objs m ! e))"
proof -
  have ok: "dict_ok (engine_last_seen_time m)" "fst ` set (engine_last_seen_time m) = fst ` set (engines m)"
    "distinct (dict_values (engines m))"
    using assms unfolding em_inv_def engines_ok_def by blast+
  obtain m' where m': "update_expired_engines now m = (Inr (), m')" "em_inv m'" "m' = m\<lparr>engine_objs := engine_objs m'\<rparr>"
      "\<forall>e < length (engine_objs m). engine_objs m' ! e =
       (if \<exists>(eid, last) \<in> set (engine_last_seen_time m). map_of (engines m) eid = Some e \<and> now - last > engine_heartbeat_timeout m * 1000000000
        then (engine_objs m ! e)\<lparr>status := DEAD\<rparr> else engine_objs m ! e)"
    using expire_loop_ok [OF assms, of "engine_last_seen_time m" now] ok(2) by (auto simp: update_expired_engines_def)
  have "engine_objs m' ! e = (if now - last > engine_heartbeat_timeout m * 1000000000
        then (engine_objs m ! e)\<lparr>status := DEAD\<rparr> else engine_objs m ! e)"
    if a: "map_of (engines m) eid = Some e" "map_of (engine_last_seen_time m) eid = Some last" for eid e last
  proof -
    have len: "e < length (engine_objs m)"
      using assms map_of_SomeD [OF a(1)] by (auto simp: em_inv_def engines_ok_def)
    have uniq: "i = eid" if "map_of (engines m) i = Some e" for i
      using ok(3) map_of_SomeD [OF a(1)] map_of_SomeD [OF that] by (fastforce simp: distinct_map inj_on_def)
    have "(\<exists>(i, l) \<in> set (engine_last_seen_time m). map_of (engines m) i = Some e \<and> now - l > engine_heartbeat_timeout m * 1000000000)
      \<longleftrightarrow> now - last > engine_heartbeat_timeout m * 1000000000"
    proof
      assume "\<exists>(i, l) \<in> set (engine_last_seen_time m). map_of (engines m) i = Some e \<and> now - l > engine_heartbeat_timeout m * 1000000000"
      then obtain i l where il: "(i, l) \<in> set (engine_last_seen_time m)" "map_of (engines m) i = Some e"
          "now - l > engine_heartbeat_timeout m * 1000000000" by blast
      then have "map_of (engine_last_seen_time m) eid = Some l"
        using uniq dict_ok_image_value [OF ok(1)] by blast
      with a il(3) show "now - last > engine_heartbeat_timeout m * 1000000000" by simp
    next
      assume "now - last > engine_heartbeat_timeout m * 1000000000"
      then show "\<exists>(i, l) \<in> set (engine_last_seen_time m). map_of (engines m) i = Some e \<and> now - l > engine_heartbeat_timeout m * 1000000000"
        using map_of_SomeD [OF a(2)] a(1) by blast
    qed
    then show ?thesis using m'(4) len by simp
  qed
  with m'(1-3) show ?thesis by blast
qed

section \<open>Properties\<close>

text \<open>
  The states the operations of the manager lead to, when only engines register whose configuration is valid (\<open>registrable\<close>): a known
  engine type and, for a new token-id model, a tokenizer that loads and that no other registered model uses.
\<close>

inductive em_reach :: "'tok tokenizer_lib \<Rightarrow> 'tok engine_manager \<Rightarrow> bool" for lib where
  init: "prefix_caches cm = [] \<Longrightarrow> em_reach lib (new_engine_manager ts cm tmo)"
| register: "em_reach lib m \<Longrightarrow> registrable lib cfg m \<Longrightarrow> register_engine lib now cfg m = (Inr eid, m') \<Longrightarrow> em_reach lib m'"
| heartbeat: "em_reach lib m \<Longrightarrow> engine_heartbeat now eid info m = (Inr (), m') \<Longrightarrow> em_reach lib m'"
| bad: "em_reach lib m \<Longrightarrow> raise_exception eid exc m = (Inr (), m') \<Longrightarrow> em_reach lib m'"
| expire: "em_reach lib m \<Longrightarrow> update_expired_engines now m = (Inr (), m') \<Longrightarrow> em_reach lib m'"
| sweep: "em_reach lib m \<Longrightarrow> sweep_not_running_engines m = (Inr (), m') \<Longrightarrow> em_reach lib m'"

lemma em_inv_update:
  assumes inv: "em_inv m" and e: "map_of (engines m) eid = Some e"
    and "engine_id eng = engine_id (engine_objs m ! e)" "model eng = model (engine_objs m ! e)"
  shows "em_inv (m\<lparr>engine_objs := (engine_objs m)[e := eng]\<rparr>)"
proof -
  have "e < length (engine_objs m)" using inv map_of_SomeD [OF e] by (auto simp: em_inv_def engines_ok_def)
  then show ?thesis using assms by (intro em_inv_objs) (auto simp: nth_list_update)
qed

lemma em_inv_seen:
  assumes "em_inv m" and "eid \<in> fst ` set (engines m)"
  shows "em_inv (m\<lparr>engine_last_seen_time := dict_set eid now (engine_last_seen_time m)\<rparr>)"
proof -
  have "fst ` set (engine_last_seen_time m) = fst ` set (engines m)" "dict_ok (engine_last_seen_time m)"
    using assms(1) unfolding em_inv_def engines_ok_def by blast+
  then have "fst ` set (dict_set eid now (engine_last_seen_time m)) = fst ` set (engines m)"
    "dict_ok (dict_set eid now (engine_last_seen_time m))"
    using assms(2) by (auto simp: dict_keys_set)
  then show ?thesis
    using assms(1) unfolding em_inv_def engines_ok_def models_ok_def tokenizers_ok_def engine_model_names_def by simp
qed

lemma em_reach_inv: "em_reach lib m \<Longrightarrow> em_inv m"
proof (induction rule: em_reach.induct)
  case (init cm ts tmo)
  then show ?case by (rule em_inv_new)
next
  case (register m cfg now eid m')
  then show ?case using register_engine_ok [of m lib cfg now] by auto
next
  case (heartbeat m now eid info m')
  then have mem: "eid \<in> fst ` set (engines m)" by (auto simp: engine_heartbeat_def split: if_splits)
  then obtain e where e: "map_of (engines m) eid = Some e" using key_map_of_Some by metis
  define m1 where "m1 = m\<lparr>engine_objs := (engine_objs m)[e := update_realtime_runtime_info info (engine_objs m ! e)]\<rparr>"
  have "em_inv m1" unfolding m1_def
    using em_inv_update [OF heartbeat.IH e] by (simp add: update_realtime_runtime_info_def)
  then have "em_inv (m1\<lparr>engine_last_seen_time := dict_set eid now (engine_last_seen_time m1)\<rparr>)"
    using mem by (intro em_inv_seen) (simp_all add: m1_def)
  moreover have "m' = m1\<lparr>engine_last_seen_time := dict_set eid now (engine_last_seen_time m1)\<rparr>"
    using heartbeat.hyps(2) mem e by (simp add: engine_heartbeat_def m1_def)
  ultimately show ?case by simp
next
  case (bad m eid exc m')
  then obtain e where e: "map_of (engines m) eid = Some e"
    by (auto simp: raise_exception_def py_bind_eq_Inr dict_get_eq_Inr)
  have "em_inv (m\<lparr>engine_objs := (engine_objs m)[e := mark_bad exc (engine_objs m ! e)]\<rparr>)"
    using em_inv_update [OF bad.IH e] by (simp add: mark_bad_def)
  with bad.hyps(2) e show ?case by (simp add: raise_exception_def)
next
  case (expire m now m')
  then show ?case using update_expired_ok [OF expire.IH, of now] by auto
next
  case (sweep m m')
  then show ?case using sweep_loop_ok [OF sweep.IH, of "[]" "engines m"] by (auto simp: sweep_not_running_engines_def)
qed

text \<open>
  C26. Registering an engine succeeds in every reachable state (\<open>em_reach\<close>) when its configuration is valid: a known engine type and, if the
  model is new and takes token ids, a tokenizer that loads and that no other registered model uses. The engine
  gets an id that no registered engine has, it is live at once, after the others, its model is registered under its name and
  counted once more, the tokenizer of a token-id model is loaded, and an empty prefix cache is there for the engine.
\<close>

theorem register_engine_fresh:
  assumes "em_reach lib m" and "registrable lib cfg m"
  shows "\<exists>eid m' lm. register_engine lib now cfg m = (Inr eid, m') \<and> em_reach lib m' \<and> eid \<notin> fst ` set (engines m) \<and>
    get_live_engines m' = get_live_engines m @ [length (engine_objs m)] \<and>
    engine_id (engine_objs m' ! length (engine_objs m)) = eid \<and>
    model (engine_objs m' ! length (engine_objs m)) = lm \<and> model_name lm = cfg_model cfg \<and>
    map_of (em_models m') (cfg_model cfg) = Some lm \<and>
    map_of (models_ref_counter m') (cfg_model cfg) = Some (int (count_list (engine_model_names m) (cfg_model cfg)) + 1) \<and>
    (language_model_type lm = TOKEN_ID \<longrightarrow> dict_mem (model_tokenizer_name lm) (em_tokenizers m')) \<and>
    map_of (prefix_caches (em_context_mgr m')) eid = Some new_prefix_cache"
proof -
  have inv: "em_inv m" using em_reach_inv [OF assms(1)] .
  obtain eid m' lm where r: "register_engine lib now cfg m = (Inr eid, m')" "em_inv m'" "eid \<notin> fst ` set (engines m)"
      "engines m' = engines m @ [(eid, length (engine_objs m))]"
      "engine_objs m' = engine_objs m @ [new_execution_engine eid cfg lm]" "model_name lm = cfg_model cfg"
      "em_context_mgr m' = register_engine_prefix_cache eid (em_context_mgr m)"
    using register_engine_ok [OF inv assms(2)] by blast
  have old: "e < length (engine_objs m)" if "(i, e) \<in> set (engines m)" for i e
    using inv that by (auto simp: em_inv_def engines_ok_def)
  have live: "get_live_engines m' = get_live_engines m @ [length (engine_objs m)]"
    unfolding get_live_engines_def r(4,5) using old
    by (auto simp: is_running_def new_execution_engine_def nth_append intro!: filter_cong)
  have "(eid, length (engine_objs m)) \<in> set (engines m')" using r(4) by simp
  then have lm: "map_of (em_models m') (cfg_model cfg) = Some lm"
    using r(2,5,6) by (fastforce simp: em_inv_def engines_ok_def engine_model_name_def new_execution_engine_def)
  have tok: "language_model_type lm = TOKEN_ID \<longrightarrow> dict_mem (model_tokenizer_name lm) (em_tokenizers m')"
    using r(2) lm by (simp add: em_inv_def tokenizers_ok_def)
  have names: "engine_model_names m' = engine_model_names m @ [cfg_model cfg]"
    using old r(4-6) by (auto simp: engine_model_names_def nth_append engine_model_name_def new_execution_engine_def)
  have "(case map_of (models_ref_counter m') (cfg_model cfg) of None \<Rightarrow> 0 | Some n \<Rightarrow> n) =
      int (count_list (engine_model_names m) (cfg_model cfg)) + 1"
    using r(2) names unfolding em_inv_def models_ok_def by simp
  then have count: "map_of (models_ref_counter m') (cfg_model cfg) = Some (int (count_list (engine_model_names m) (cfg_model cfg)) + 1)"
    by (cases "map_of (models_ref_counter m') (cfg_model cfg)") simp_all
  have "map_of (prefix_caches (em_context_mgr m')) eid = Some new_prefix_cache"
    using r(7) by (simp add: register_engine_prefix_cache_def)
  with r live lm tok count show ?thesis
    using em_reach.register [OF assms r(1)] by (auto simp: new_execution_engine_def)
qed

abbreviation demo_lib :: "unit tokenizer_lib" where
  "demo_lib \<equiv> \<lparr>from_pretrained = \<lambda>_. Inr (), encode = \<lambda>_ t. map (\<lambda>c. int (of_char c)) t, decode = \<lambda>_ _. []\<rparr>"

abbreviation demo_em :: "unit engine_manager" where
  "demo_em \<equiv> new_engine_manager [] new_context_manager 600"

lemma demo_em_reach: "em_reach demo_lib demo_em"
  by (rule em_reach.init) (simp add: new_context_manager_def)

lemma demo_registrable: "registrable demo_lib default_engine_config demo_em"
  by (simp add: registrable_def model_of_config_def default_engine_config_def MODEL_TYPE_MAP_def
      ENGINE_TYPE_BUILTIN_def new_engine_manager_def)

theorem register_engine_fresh_witness:
  "\<exists>eid m' lm. register_engine demo_lib 0 default_engine_config demo_em = (Inr eid, m') \<and> get_live_engines m' = [0] \<and>
    map_of (em_models m') ''unknown'' = Some lm \<and> language_model_type lm = TOKEN_ID \<and> dict_mem (model_tokenizer_name lm) (em_tokenizers m')"
proof -
  have k: "cfg_model default_engine_config = ''unknown''" "get_live_engines demo_em = []" "length (engine_objs demo_em) = 0" by code_simp+
  obtain eid m' lm where r: "register_engine demo_lib 0 default_engine_config demo_em = (Inr eid, m')" "get_live_engines m' = [0]"
      "map_of (em_models m') ''unknown'' = Some lm" "language_model_type lm = TOKEN_ID \<longrightarrow> dict_mem (model_tokenizer_name lm) (em_tokenizers m')"
    using register_engine_fresh [OF demo_em_reach demo_registrable, of 0] unfolding k by auto
  have "map_option language_model_type (map_of (em_models (snd (register_engine demo_lib 0 default_engine_config demo_em))) ''unknown'') = Some TOKEN_ID"
    by code_simp
  then have "language_model_type lm = TOKEN_ID" unfolding r(1) by (simp add: r(3))
  with r show ?thesis by blast
qed

text \<open>
  C25. A heartbeat keeps an engine alive and silence kills it. In every state that registrations of valid configurations (no two models
  with one tokenizer), heartbeats, failures and rounds of the serve loop lead to (\<open>em_reach\<close>), one round of the
  serve loop (mark expired engines, then sweep) succeeds and leaves exactly the engines that
  were running and whose last heartbeat is within the timeout, in their order.
\<close>

theorem expire_and_sweep:
  assumes "em_reach lib m"
  shows "\<exists>m1 m2. update_expired_engines now m = (Inr (), m1) \<and> sweep_not_running_engines m1 = (Inr (), m2) \<and>
    em_reach lib m2 \<and>
    engines m2 = filter (\<lambda>(eid, e). is_running (engine_objs m ! e) \<and>
      now - the (map_of (engine_last_seen_time m) eid) \<le> engine_heartbeat_timeout m * 1000000000) (engines m) \<and>
    get_live_engines m2 = dict_values (engines m2)"
proof -
  have inv: "em_inv m" using em_reach_inv [OF assms] .
  obtain m1 where m1: "update_expired_engines now m = (Inr (), m1)" "em_inv m1" "m1 = m\<lparr>engine_objs := engine_objs m1\<rparr>"
      "\<And>eid e last. map_of (engines m) eid = Some e \<Longrightarrow> map_of (engine_last_seen_time m) eid = Some last \<Longrightarrow>
       engine_objs m1 ! e = (if now - last > engine_heartbeat_timeout m * 1000000000
                             then (engine_objs m ! e)\<lparr>status := DEAD\<rparr> else engine_objs m ! e)"
    using update_expired_ok [OF inv, of now] by blast
  have es: "engines m1 = engines m" using arg_cong [OF m1(3), of engines] by simp
  obtain m2 where m2: "sweep_not_running_engines m1 = (Inr (), m2)" "engine_objs m2 = engine_objs m1"
      "engines m2 = filter (\<lambda>(eid, e). is_running (engine_objs m1 ! e)) (engines m1)"
    using sweep_loop_ok [OF m1(2), of "[]" "engines m1"] by (auto simp: sweep_not_running_engines_def)
  have ok: "dict_ok (engines m)" "fst ` set (engine_last_seen_time m) = fst ` set (engines m)"
    using inv unfolding em_inv_def engines_ok_def by blast+
  have run: "is_running (engine_objs m1 ! e) \<longleftrightarrow> is_running (engine_objs m ! e) \<and>
      now - the (map_of (engine_last_seen_time m) eid) \<le> engine_heartbeat_timeout m * 1000000000"
    if "(eid, e) \<in> set (engines m)" for eid e
  proof -
    have e: "map_of (engines m) eid = Some e" using dict_ok_image_value [OF ok(1)] that by blast
    obtain last where last: "map_of (engine_last_seen_time m) eid = Some last"
      using key_map_of_Some [of eid "engine_last_seen_time m"] map_of_Some_key [OF e] ok(2) by blast
    show ?thesis using m1(4) [OF e last] last by (auto simp: is_running_def)
  qed
  have "engines m2 = filter (\<lambda>(eid, e). is_running (engine_objs m ! e) \<and>
      now - the (map_of (engine_last_seen_time m) eid) \<le> engine_heartbeat_timeout m * 1000000000) (engines m)"
    unfolding m2(3) es using run by (intro filter_cong) auto
  moreover have "get_live_engines m2 = dict_values (engines m2)"
    unfolding get_live_engines_def m2(2) m2(3) by (auto simp: filter_id_conv)
  ultimately show ?thesis
    using m1(1) m2(1) em_reach.sweep [OF em_reach.expire [OF assms m1(1)] m2(1)] by blast
qed

theorem expire_and_sweep_witness:
  "\<exists>(m :: unit engine_manager) m1 m2. length (engines m) = 1 \<and> update_expired_engines 700000000000 m = (Inr (), m1) \<and>
    sweep_not_running_engines m1 = (Inr (), m2) \<and> engines m2 = []"
proof -
  obtain eid m where m: "register_engine demo_lib 0 default_engine_config demo_em = (Inr eid, m)"
      "engines m = [(eid, 0)]" "map_of (engine_last_seen_time m) eid = Some 0"
    using register_engine_ok [OF em_reach_inv [OF demo_em_reach] demo_registrable, of 0]
    by (auto simp: new_engine_manager_def)
  have "engine_heartbeat_timeout (snd (register_engine demo_lib 0 default_engine_config demo_em)) = 600" by code_simp
  then have "engine_heartbeat_timeout m = 600" unfolding m(1) by simp
  moreover obtain m1 m2 where "update_expired_engines 700000000000 m = (Inr (), m1)"
      "sweep_not_running_engines m1 = (Inr (), m2)"
      "engines m2 = filter (\<lambda>(eid, e). is_running (engine_objs m ! e) \<and>
        700000000000 - the (map_of (engine_last_seen_time m) eid) \<le> engine_heartbeat_timeout m * 1000000000) (engines m)"
    using expire_and_sweep [OF em_reach.register [OF demo_em_reach demo_registrable m(1)], of 700000000000] by blast
  moreover from calculation m have "engines m2 = []" "length (engines m) = 1" by simp_all
  ultimately show ?thesis by blast
qed

text \<open>
  Two models with the same tokenizer break the removal of engines. Two engines whose models differ
  but name the same tokenizer both register; removing the first removes the tokenizer, so
  removing the second raises after its entry in \<^verbatim>\<open>engines\<close> is gone and before its heartbeat
  entry is, and from then on every \<^verbatim>\<open>update_expired_engines\<close> raises \<^verbatim>\<open>KeyError\<close>.
\<close>

lemma shared_tokenizer_breaks_removal:
  "let cfg = (\<lambda>name. default_engine_config\<lparr>cfg_model := name, cfg_tokenizer := ''tok''\<rparr>);
       (r0, m0) = register_engine demo_lib 0 (cfg ''a'') demo_em;
       (r1, m1) = register_engine demo_lib 0 (cfg ''b'') m0;
       (r2, m2) = remove_engine 0 m1;
       (r3, m3) = remove_engine 1 m2
   in r0 = Inr 0 \<and> r1 = Inr 1 \<and> r2 = Inr () \<and> r3 = Inl ParrotError \<and> engines m3 = [] \<and>
      dict_keys (engine_last_seen_time m3) = [1] \<and> fst (update_expired_engines 1 m3) = Inl KeyError"
  by code_simp

end
