(* ===== verification/Global_Scheduler.thy ===== *)
theory Global_Scheduler
  imports Engine_Manager
begin

text \<open>
  \<^verbatim>\<open>serve/scheduler/global_scheduler.py\<close>: the queue of the global scheduler and the choice of
  an engine for each task or group of tasks. Tasks are shared objects, so the state has
  their store and the queue holds references into it. The theorems show that no engine is
  loaded beyond its capacities or (without grouping) beyond the bounds of its tasks, that
  a task is placed only on a live engine that serves its model, and that the queue keeps
  exactly the tasks that are not scheduled yet.
\<close>

section \<open>State and operations\<close>

type_synonym task_ref = nat

record global_scheduler_config =
  app_fifo :: bool
  graph_group :: bool
  ctx_group :: bool
  ctx_aware :: bool
  max_queue_size :: int

definition default_scheduler_config :: global_scheduler_config where
  "default_scheduler_config =
    \<lparr>app_fifo = False, graph_group = False, ctx_group = False, ctx_aware = False, max_queue_size = 1024\<rparr>"

record 'tok global_scheduler =
  gs_config :: global_scheduler_config
  gs_tasks :: "completion_task list"
  task_queue :: "task_ref list"
  gs_engine_mgr :: "'tok engine_manager"

abbreviation task_at :: "'tok global_scheduler \<Rightarrow> task_ref \<Rightarrow> completion_task" where
  "task_at s r \<equiv> gs_tasks s ! r"

abbreviation engine_at :: "'tok global_scheduler \<Rightarrow> engine_ref \<Rightarrow> execution_engine" where
  "engine_at s e \<equiv> engine_objs (gs_engine_mgr s) ! e"

definition new_global_scheduler :: "global_scheduler_config \<Rightarrow> 'tok engine_manager \<Rightarrow> 'tok global_scheduler" where
  "new_global_scheduler cfg em = \<lparr>gs_config = cfg, gs_tasks = [], task_queue = [], gs_engine_mgr = em\<rparr>"

text \<open>
  \<^verbatim>\<open>len(models) > 0 and engine.model_name not in models\<close>, for a \<^verbatim>\<open>models\<close> that came from a payload:
  a list, but a string or a dictionary also has a length and a membership test.
\<close>

definition models_reject :: "json \<Rightarrow> string \<Rightarrow> py_error + bool" where
  "models_reject ms name =
    (case ms of
       JList xs \<Rightarrow> Inr (xs \<noteq> [] \<and> JStr name \<notin> set xs)
     | JStr t \<Rightarrow> Inr (t \<noteq> [] \<and> \<not> sublist name t)
     | JDict d \<Rightarrow> Inr (d \<noteq> [] \<and> \<not> dict_mem name d)
     | _ \<Rightarrow> Inl TypeError)"

definition model_type_of_json :: "json \<Rightarrow> py_error + model_type" where
  "model_type_of_json j =
    (case j of
       JStr t \<Rightarrow> fst (get_model_type t ())
     | _ \<Rightarrow> Inl ParrotCoreUserError)"

fun total_tokens :: "string \<Rightarrow> completion_task list \<Rightarrow> rat \<Rightarrow> py_error + rat" where
  "total_tokens name [] acc = Inr acc"
| "total_tokens name (t # ts) acc =
    (case fst (get_token_nums t name ()) of
       Inl e \<Rightarrow> Inl e
     | Inr n \<Rightarrow> total_tokens name ts (acc + n))"

definition check_engine_available ::
  "completion_task list \<Rightarrow> int \<Rightarrow> model_type \<Rightarrow> json \<Rightarrow> execution_engine \<Rightarrow> py_error + bool" where
  "check_engine_available ts upper mt ms eng =
    (if mt \<noteq> language_model_type (model eng) then Inr False
     else case models_reject ms (engine_model_name eng) of
       Inl e \<Rightarrow> Inl e
     | Inr True \<Rightarrow> Inr False
     | Inr False \<Rightarrow>
        if 1 + get_num_tasks eng > upper then Inr False
        else if int (length ts) + get_num_tasks eng > get_tasks_num_upperbound eng then Inr False
        else if int (length ts) > get_remain_tasks_capacity eng then Inr False
        else if mt = TOKEN_ID then
          (case total_tokens (model_tokenizer_name (model eng)) ts 0 of
             Inl e \<Rightarrow> Inl e
           | Inr total_num \<Rightarrow> Inr (\<not> total_num > get_remain_tokens_capacity eng))
        else Inr True)"

fun filter_py :: "('x \<Rightarrow> py_error + bool) \<Rightarrow> 'x list \<Rightarrow> py_error + 'x list" where
  "filter_py p [] = Inr []"
| "filter_py p (x # xs) =
    (case p x of
       Inl e \<Rightarrow> Inl e
     | Inr b \<Rightarrow> (case filter_py p xs of Inl e \<Rightarrow> Inl e | Inr ys \<Rightarrow> Inr (if b then x # ys else ys)))"

definition get_engine_list :: "task_ref list \<Rightarrow> int \<Rightarrow> 'tok global_scheduler \<Rightarrow> py_error + engine_ref list" where
  "get_engine_list rs upper s =
    (let ts = map (task_at s) rs;
         md = chain_metadata (chain (hd ts))
     in case model_type_of_json (metadata_model_type md) of
          Inl e \<Rightarrow> Inl e
        | Inr mt \<Rightarrow>
            filter_py (\<lambda>e. check_engine_available ts upper mt (models md) (engine_at s e))
              (get_live_engines (gs_engine_mgr s)))"

text \<open>One iteration of the loop that picks \<^verbatim>\<open>best_engine\<close>; \<open>ids\<close> are the engines with a cached prefix.\<close>

definition better_engine :: "bool \<Rightarrow> int list \<Rightarrow> execution_engine \<Rightarrow> execution_engine \<Rightarrow> bool" where
  "better_engine aware ids eng best \<longleftrightarrow>
    (if aware \<and> engine_id eng \<in> set ids \<and> engine_id best \<notin> set ids then True
     else get_tasks_num_upperbound eng < get_tasks_num_upperbound best \<or>
          get_remain_tokens_capacity eng < get_remain_tokens_capacity best)"

definition pick_engine :: "bool \<Rightarrow> int list \<Rightarrow> (engine_ref \<Rightarrow> execution_engine) \<Rightarrow> engine_ref list \<Rightarrow> engine_ref option" where
  "pick_engine aware ids E es =
    fold (\<lambda>e best. case best of
        None \<Rightarrow> Some e
      | Some b \<Rightarrow> if better_engine aware ids (E e) (E b) then Some e else Some b) es None"

definition dispatch_task :: "engine_ref \<Rightarrow> task_ref \<Rightarrow> 'tok global_scheduler \<Rightarrow> (unit, 'tok global_scheduler) py" where
  "dispatch_task e r s =
    py_lift (\<lambda>(t, es). s\<lparr>gs_tasks := (gs_tasks s)[r := t],
                         gs_engine_mgr := (gs_engine_mgr s)\<lparr>engine_objs := es\<rparr>\<rparr>)
      (schedule_to e True (task_at s r, engine_objs (gs_engine_mgr s)))"

definition group_upperbound :: "completion_task list \<Rightarrow> int" where
  "group_upperbound ts = foldl min 999999999 (map (\<lambda>t. tasks_num_upperbound (annotation t)) ts)"

definition find_engine :: "task_ref list \<Rightarrow> 'tok global_scheduler \<Rightarrow> (unit, 'tok global_scheduler) py" where
  "find_engine rs s =
    (case get_engine_list rs (group_upperbound (map (task_at s) rs)) s of
       Inl e \<Rightarrow> py_raise e s
     | Inr es \<Rightarrow>
        if es = [] then py_return () s
        else
          py_bind (if ctx_aware (gs_config s)
                   then py_lift (\<lambda>_. s) (query_prefixes_in_engines (task_at s (hd rs)) (em_context_mgr (gs_engine_mgr s)))
                   else py_return [] s) (\<lambda>ids s.
            case pick_engine (ctx_aware (gs_config s)) ids (engine_at s) es of
              None \<Rightarrow> py_raise AssertionError s
            | Some e \<Rightarrow> py_for (dispatch_task e) rs s))"

definition submit_task :: "task_ref \<Rightarrow> 'tok global_scheduler \<Rightarrow> (unit, 'tok global_scheduler) py" where
  "submit_task r s =
    (if int (length (task_queue s)) \<ge> max_queue_size (gs_config s) then py_raise ParrotCoreUserError s
     else py_return ()
       (s\<lparr>task_queue := task_queue s @ [r], gs_tasks := (gs_tasks s)[r := (task_at s r)\<lparr>task_status := INQUEUE\<rparr>]\<rparr>))"

text \<open>The loop over the rest of the queue that collects \<^verbatim>\<open>cur_group\<close>, with the two flags.\<close>

fun collect_group ::
  "completion_task list \<Rightarrow> task_ref \<Rightarrow> task_ref list \<Rightarrow> nat list \<Rightarrow> bool \<Rightarrow> bool \<Rightarrow> task_ref list \<Rightarrow> task_ref list" where
  "collect_group ts r [] groups graph_on ctx_on acc = acc"
| "collect_group ts r (j # js) groups graph_on ctx_on acc =
    (let common = filter (\<lambda>g. g \<in> set (chain_groups (chain (ts ! j)))) groups in
     if graph_on \<and> common \<noteq> []
     then collect_group ts r js common graph_on False (acc @ [j])
     else if ctx_on \<and> first_sv (chain (ts ! r)) = first_sv (chain (ts ! j))
     then collect_group ts r js groups False ctx_on (acc @ [j])
     else collect_group ts r js groups graph_on ctx_on acc)"

definition cur_group :: "task_ref \<Rightarrow> task_ref list \<Rightarrow> 'tok global_scheduler \<Rightarrow> task_ref list" where
  "cur_group r rest s =
    (if graph_group (gs_config s) \<or> ctx_group (gs_config s)
     then collect_group (gs_tasks s) r rest (chain_groups (chain (task_at s r)))
            (graph_group (gs_config s)) (ctx_group (gs_config s)) [r]
     else [r])"

fun schedule_loop :: "task_ref list \<Rightarrow> 'tok global_scheduler \<Rightarrow> (unit, 'tok global_scheduler) py" where
  "schedule_loop [] s = py_return () s"
| "schedule_loop (r # rest) s =
    (if is_scheduled (task_at s r) then schedule_loop rest s
     else py_bind (find_engine (cur_group r rest s) s) (\<lambda>_ s. schedule_loop rest s))"

text \<open>The sort key \<^verbatim>\<open>-x.chain.gen_node.sv.depth\<close>, evaluated for every task before the sort.\<close>

definition depth_key :: "completion_task \<Rightarrow> py_error + int" where
  "depth_key t =
    (case gen_node (chain t) of
       None \<Rightarrow> Inl AttributeError
     | Some g \<Rightarrow> (case gen_criteria g of None \<Rightarrow> Inl ParrotError | Some _ \<Rightarrow> Inr (- gen_depth g)))"

definition sort_queue :: "'tok global_scheduler \<Rightarrow> (unit, 'tok global_scheduler) py" where
  "sort_queue s =
    (case filter_py (\<lambda>r. map_sum id (\<lambda>_. True) (depth_key (task_at s r))) (task_queue s) of
       Inl e \<Rightarrow> py_raise e s
     | Inr _ \<Rightarrow> py_return ()
         (s\<lparr>task_queue := sort_key (\<lambda>r. case depth_key (task_at s r) of Inr k \<Rightarrow> k | Inl _ \<Rightarrow> 0) (task_queue s)\<rparr>))"

definition schedule :: "'tok global_scheduler \<Rightarrow> (unit, 'tok global_scheduler) py" where
  "schedule s =
    py_bind (if app_fifo (gs_config s) then sort_queue s else py_return () s) (\<lambda>_ s.
    py_bind (schedule_loop (task_queue s) s) (\<lambda>_ s.
      py_return () (s\<lparr>task_queue := filter (\<lambda>r. \<not> is_scheduled (task_at s r)) (task_queue s)\<rparr>)))"

section \<open>What the loop does\<close>

lemma filter_py_Inr: "filter_py p xs = Inr ys \<Longrightarrow> ys = filter (\<lambda>x. p x = Inr True) xs"
  by (induction xs arbitrary: ys) (auto split: sum.splits if_splits)

lemma pick_engine_member:
  assumes "es \<noteq> []"
  shows "\<exists>e \<in> set es. pick_engine aware ids E es = Some e"
proof -
  let ?f = "\<lambda>e best. case best of None \<Rightarrow> Some e | Some b \<Rightarrow> if better_engine aware ids (E e) (E b) then Some e else Some b"
  have "\<exists>x \<in> insert b (set xs). fold ?f xs (Some b) = Some x" for xs b
    by (induction xs arbitrary: b) auto
  then show ?thesis using assms by (cases es) (auto simp: pick_engine_def)
qed

lemma total_tokens_Inr:
  "total_tokens name ts acc = Inr k \<Longrightarrow>
    list_all (\<lambda>t. \<exists>n. fst (get_token_nums t name ()) = Inr n) ts \<and>
    k = acc + sum_list (map (\<lambda>t. case fst (get_token_nums t name ()) of Inr n \<Rightarrow> n | Inl _ \<Rightarrow> 0) ts)"
proof (induction ts arbitrary: acc)
  case (Cons t ts)
  then obtain n where "fst (get_token_nums t name ()) = Inr n" "total_tokens name ts (acc + n) = Inr k"
    by (auto split: sum.splits)
  with Cons.IH [of "acc + n"] show ?case by simp
qed simp

text \<open>A task group is placed: the engine was available to it and gets every task of the group.\<close>

inductive place :: "'tok global_scheduler \<Rightarrow> 'tok global_scheduler \<Rightarrow> bool" where
  placeI: "\<not> is_scheduled (task_at s r) \<Longrightarrow> rs = cur_group r rest s \<Longrightarrow> set (r # rest) \<subseteq> set (task_queue s) \<Longrightarrow>
    get_engine_list rs (group_upperbound (map (task_at s) rs)) s = Inr es \<Longrightarrow> e \<in> set es \<Longrightarrow>
    py_for (dispatch_task e) rs s = (res, s') \<Longrightarrow> place s s'"

inductive_cases placeE: "place s s'"

lemma dispatch_frame:
  assumes "dispatch_task e r s = (res, s')"
  shows "gs_config s' = gs_config s \<and> task_queue s' = task_queue s \<and> length (gs_tasks s') = length (gs_tasks s) \<and>
    gs_engine_mgr s' = (gs_engine_mgr s)\<lparr>engine_objs := engine_objs (gs_engine_mgr s')\<rparr>"
  using assms
  by (cases "schedule_to e True (task_at s r, engine_objs (gs_engine_mgr s))") (auto simp: dispatch_task_def)

lemma dispatch_all_frame:
  assumes "py_for (dispatch_task e) rs s = (res, s')"
  shows "gs_config s' = gs_config s \<and> task_queue s' = task_queue s \<and> length (gs_tasks s') = length (gs_tasks s) \<and>
    gs_engine_mgr s' = (gs_engine_mgr s)\<lparr>engine_objs := engine_objs (gs_engine_mgr s')\<rparr>"
  using assms
proof (induction rs arbitrary: s)
  case (Cons r rs)
  obtain a s1 where s1: "dispatch_task e r s = (a, s1)" by fastforce
  note f = dispatch_frame [OF s1]
  show ?case
  proof (cases a)
    case (Inl err)
    with Cons.prems s1 f show ?thesis by simp
  next
    case (Inr u)
    then have "py_for (dispatch_task e) rs s1 = (res, s')" using Cons.prems s1 by simp
    from Cons.IH [OF this] f show ?thesis by (metis (no_types, lifting) engine_manager.update_convs(1) engine_manager.surjective)
  qed
qed simp

lemma place_frame:
  assumes "place s s'"
  shows "gs_config s' = gs_config s \<and> task_queue s' = task_queue s \<and> length (gs_tasks s') = length (gs_tasks s)"
  using assms by (auto elim!: placeE dest: dispatch_all_frame)

lemma find_engine_place:
  assumes "\<not> is_scheduled (task_at s r)" and "set (r # rest) \<subseteq> set (task_queue s)"
  shows "snd (find_engine (cur_group r rest s) s) = s \<or> place s (snd (find_engine (cur_group r rest s) s))"
proof -
  let ?rs = "cur_group r rest s"
  show ?thesis
  proof (cases "get_engine_list ?rs (group_upperbound (map (task_at s) ?rs)) s")
    case (Inl err)
    then show ?thesis by (simp add: find_engine_def)
  next
    case (Inr es)
    show ?thesis
    proof (cases "es = []")
      case True
      with Inr show ?thesis by (simp add: find_engine_def)
    next
      case False
      let ?q = "if ctx_aware (gs_config s)
        then py_lift (\<lambda>_. s) (query_prefixes_in_engines (task_at s (hd ?rs)) (em_context_mgr (gs_engine_mgr s)))
        else py_return [] s"
      have qs: "snd ?q = s" by (simp add: py_lift_def)
      obtain ids where "?q = (Inr ids, s) \<or> (\<exists>err. ?q = (Inl err, s))" using qs by (cases ?q; cases "fst ?q") auto
      then show ?thesis
      proof
        assume q: "?q = (Inr ids, s)"
        obtain e where e: "e \<in> set es" "pick_engine (ctx_aware (gs_config s)) ids (engine_at s) es = Some e"
          using pick_engine_member [OF False] by blast
        obtain res s' where s': "py_for (dispatch_task e) ?rs s = (res, s')" by fastforce
        have "find_engine ?rs s = (res, s')"
          unfolding find_engine_def Inr using False q e s' by simp
        then show ?thesis using placeI [OF assms(1) refl assms(2) Inr e(1) s'] by simp
      next
        assume "\<exists>err. ?q = (Inl err, s)"
        then obtain err where "?q = (Inl err, s)" by blast
        then show ?thesis unfolding find_engine_def Inr using False by simp
      qed
    qed
  qed
qed

lemma schedule_loop_places:
  assumes "set q \<subseteq> set (task_queue s)"
  shows "place\<^sup>*\<^sup>* s (snd (schedule_loop q s))"
  using assms
proof (induction q arbitrary: s)
  case (Cons r rest)
  show ?case
  proof (cases "is_scheduled (task_at s r)")
    case True
    with Cons show ?thesis by simp
  next
    case False
    obtain a s1 where s1: "find_engine (cur_group r rest s) s = (a, s1)" by fastforce
    have step: "place\<^sup>*\<^sup>* s s1" using find_engine_place [OF False Cons.prems] s1 by auto
    have "task_queue s1 = task_queue s" using find_engine_place [OF False Cons.prems] s1 place_frame by fastforce
    then have "place\<^sup>*\<^sup>* s1 (snd (schedule_loop rest s1))" using Cons by simp
    with step s1 False show ?thesis by (cases a) auto
  qed
qed simp

subsection \<open>The load of an engine\<close>

text \<open>What a placed group adds: the number of its tasks, their tokens, and their bounds.\<close>

definition loaded :: "execution_engine \<Rightarrow> completion_task list \<Rightarrow> execution_engine \<Rightarrow> bool" where
  "loaded eng ts eng' \<longleftrightarrow>
    eng'\<lparr>serve_layer_info := serve_layer_info eng\<rparr> = eng \<and>
    get_num_tasks eng' = get_num_tasks eng + int (length ts) \<and>
    get_tokens_num eng' = get_tokens_num eng + sum_list (map (\<lambda>t. the (task_tokens eng t)) ts) \<and>
    get_tasks_num_upperbound eng' \<ge>
      foldl min (get_tasks_num_upperbound eng) (map (\<lambda>t. tasks_num_upperbound (annotation t)) ts)"

lemma upperbound_set:
  "foldl min a (dict_values (dict_set k b d)) \<ge> min (foldl min a (dict_values d)) (b :: int)"
proof -
  from image_mono [OF dict_set_subset, of snd k b d] have vals: "set (dict_values (dict_set k b d)) \<subseteq> insert b (set (dict_values d))" by simp
  show ?thesis
  proof (rule foldl_min_greatest)
    show "min (foldl min a (dict_values d)) b \<le> a" using foldl_min_le [of a "dict_values d"] by simp
    show "\<forall>x \<in> set (dict_values (dict_set k b d)). min (foldl min a (dict_values d)) b \<le> x"
      using vals foldl_min_le_member [of _ "dict_values d" a] by (auto simp: min_le_iff_disj)
  qed
qed

lemma dispatch_task_ok:
  assumes e: "e < length (engine_objs (gs_engine_mgr s))" and n: "task_tokens (engine_at s e) (task_at s r) = Some n"
  shows "\<exists>s'. dispatch_task e r s = (Inr (), s') \<and> loaded (engine_at s e) [task_at s r] (engine_at s' e) \<and>
    engine_objs (gs_engine_mgr s') = (engine_objs (gs_engine_mgr s))[e := engine_at s' e] \<and>
    gs_tasks s' = (gs_tasks s)[r := (task_at s r)\<lparr>task_engine := Some e, scheduled_event := True\<rparr>]"
proof -
  define t where "t = (task_at s r)\<lparr>task_engine := Some e, scheduled_event := True\<rparr>"
  define eng where "eng = (engine_at s e)\<lparr>serve_layer_info := (serve_layer_info (engine_at s e))\<lparr>
    num_tasks := num_tasks (serve_layer_info (engine_at s e)) + 1,
    tasks_num_upperbounds := dict_set (task_id t) (tasks_num_upperbound (annotation t)) (tasks_num_upperbounds (serve_layer_info (engine_at s e))),
    tokens_num := tokens_num (serve_layer_info (engine_at s e)) + n\<rparr>\<rparr>"
  have "update_servelayer_runtime_info_add_task t (engine_at s e) = py_return () eng"
    unfolding eng_def using n by (intro add_task_ok) (simp_all add: t_def is_scheduled_def)
  then have "dispatch_task e r s = (Inr (), s\<lparr>gs_tasks := (gs_tasks s)[r := t],
      gs_engine_mgr := (gs_engine_mgr s)\<lparr>engine_objs := (engine_objs (gs_engine_mgr s))[e := eng]\<rparr>\<rparr>)"
    by (simp add: dispatch_task_def schedule_to_def Let_def flip: t_def)
  moreover have "loaded (engine_at s e) [task_at s r] eng"
    using n upperbound_set [of 9999999999 "tasks_num_upperbounds (serve_layer_info (engine_at s e))"]
    by (auto simp: loaded_def eng_def t_def get_num_tasks_def get_tokens_num_def get_tasks_num_upperbound_def)
  ultimately show ?thesis using e t_def by simp
qed

lemma loaded_task_tokens: "loaded eng ts eng' \<Longrightarrow> task_tokens eng' t = task_tokens eng t"
  unfolding loaded_def using engine_model_type_frame(2) by metis

lemma loaded_Cons:
  assumes "loaded eng [t] eng1" and "loaded eng1 ts eng2"
  shows "loaded eng (t # ts) eng2"
proof -
  have same: "task_tokens eng1 u = task_tokens eng u" for u
    using loaded_task_tokens [OF assms(1)] .
  have "foldl min b bs \<ge> foldl min a bs" if "a \<le> b" for a b :: int and bs
    using that by (induction bs arbitrary: a b) (auto simp: min.coboundedI1 min_le_iff_disj)
  then have "foldl min (get_tasks_num_upperbound eng1) bs \<ge> foldl min (min (get_tasks_num_upperbound eng) (tasks_num_upperbound (annotation t))) bs" for bs
    using assms(1) by (simp add: loaded_def)
  moreover have "eng2\<lparr>serve_layer_info := serve_layer_info eng\<rparr> = eng"
  proof -
    have "eng2\<lparr>serve_layer_info := serve_layer_info eng1\<rparr> = eng1" "eng1\<lparr>serve_layer_info := serve_layer_info eng\<rparr> = eng"
      using assms by (simp_all add: loaded_def)
    then show ?thesis by (metis execution_engine.update_convs(7) execution_engine.surjective)
  qed
  ultimately show ?thesis using assms unfolding loaded_def same by (auto intro: order_trans)
qed

lemma dispatch_all_ok:
  assumes "e < length (engine_objs (gs_engine_mgr s))" and "\<forall>r \<in> set rs. task_tokens (engine_at s e) (task_at s r) \<noteq> None"
    and "\<forall>r \<in> set rs. r < length (gs_tasks s)"
  shows "\<exists>s'. py_for (dispatch_task e) rs s = (Inr (), s') \<and>
    loaded (engine_at s e) (map (task_at s) rs) (engine_at s' e) \<and>
    engine_objs (gs_engine_mgr s') = (engine_objs (gs_engine_mgr s))[e := engine_at s' e] \<and>
    (\<forall>r < length (gs_tasks s). task_at s' r =
       (if r \<in> set rs then (task_at s r)\<lparr>task_engine := Some e, scheduled_event := True\<rparr> else task_at s r))"
  using assms
proof (induction rs arbitrary: s)
  case Nil
  then show ?case by (simp add: loaded_def)
next
  case (Cons r rs)
  obtain n where n: "task_tokens (engine_at s e) (task_at s r) = Some n" using Cons.prems(2) by auto
  obtain s1 where s1: "dispatch_task e r s = (Inr (), s1)" "loaded (engine_at s e) [task_at s r] (engine_at s1 e)"
      "engine_objs (gs_engine_mgr s1) = (engine_objs (gs_engine_mgr s))[e := engine_at s1 e]"
      "gs_tasks s1 = (gs_tasks s)[r := (task_at s r)\<lparr>task_engine := Some e, scheduled_event := True\<rparr>]"
    using dispatch_task_ok [OF Cons.prems(1) n] by blast
  have r: "r < length (gs_tasks s)" using Cons.prems(3) by simp
  have task1: "task_at s1 k = (if k = r then (task_at s r)\<lparr>task_engine := Some e, scheduled_event := True\<rparr> else task_at s k)" for k
    using r by (simp add: s1(4) nth_list_update)
  have tok: "task_tokens (engine_at s1 e) u = task_tokens (engine_at s e) u" for u
    using loaded_task_tokens [OF s1(2)] .
  have tok1: "task_tokens (engine_at s e) (task_at s1 k) = task_tokens (engine_at s e) (task_at s k)" for k
    by (simp add: task1)
  have "e < length (engine_objs (gs_engine_mgr s1))" using Cons.prems(1) arg_cong [OF s1(3), of length] by simp
  moreover have "\<forall>k \<in> set rs. task_tokens (engine_at s1 e) (task_at s1 k) \<noteq> None" using Cons.prems(2) by (simp add: tok tok1)
  moreover have "\<forall>k \<in> set rs. k < length (gs_tasks s1)" using Cons.prems(3) by (simp add: s1(4))
  ultimately obtain s' where s': "py_for (dispatch_task e) rs s1 = (Inr (), s')"
      "loaded (engine_at s1 e) (map (task_at s1) rs) (engine_at s' e)"
      "engine_objs (gs_engine_mgr s') = (engine_objs (gs_engine_mgr s1))[e := engine_at s' e]"
      "\<forall>k < length (gs_tasks s1). task_at s' k =
       (if k \<in> set rs then (task_at s1 k)\<lparr>task_engine := Some e, scheduled_event := True\<rparr> else task_at s1 k)"
    using Cons.IH [of s1] by blast
  have ann: "annotation (task_at s1 k) = annotation (task_at s k)" for k by (simp add: task1)
  have "loaded (engine_at s1 e) (map (task_at s) rs) (engine_at s' e)"
    using s'(2) by (simp add: loaded_def comp_def tok tok1 ann)
  then have "loaded (engine_at s e) (map (task_at s) (r # rs)) (engine_at s' e)"
    using loaded_Cons [OF s1(2)] by simp
  moreover have "engine_objs (gs_engine_mgr s') = (engine_objs (gs_engine_mgr s))[e := engine_at s' e]"
    using s'(3) s1(3) by (metis list_update_overwrite)
  ultimately show ?case using s1(1) s'(1,4) task1 by (auto simp: s1(4))
qed

section \<open>Invariants of placing\<close>

text \<open>What an available engine satisfies.\<close>

lemma check_engine_availableD:
  assumes "check_engine_available ts upper mt ms eng = Inr True"
  shows "mt = engine_model_type eng" and "models_reject ms (engine_model_name eng) = Inr False"
    and "1 + get_num_tasks eng \<le> upper" and "int (length ts) + get_num_tasks eng \<le> get_tasks_num_upperbound eng"
    and "int (length ts) \<le> get_remain_tasks_capacity eng"
    and "list_all (\<lambda>t. task_tokens eng t \<noteq> None) ts"
    and "mt = TOKEN_ID \<Longrightarrow> sum_list (map (\<lambda>t. the (task_tokens eng t)) ts) \<le> get_remain_tokens_capacity eng"
proof -
  have c: "mt = language_model_type (model eng) \<and> models_reject ms (engine_model_name eng) = Inr False \<and>
      1 + get_num_tasks eng \<le> upper \<and> int (length ts) + get_num_tasks eng \<le> get_tasks_num_upperbound eng \<and>
      int (length ts) \<le> get_remain_tasks_capacity eng \<and>
      (mt = TOKEN_ID \<longrightarrow> (\<exists>k. total_tokens (model_tokenizer_name (model eng)) ts 0 = Inr k \<and> k \<le> get_remain_tokens_capacity eng))"
    using assms by (auto simp: check_engine_available_def not_less split: sum.splits if_splits bool.splits)
  then show "mt = engine_model_type eng" "models_reject ms (engine_model_name eng) = Inr False"
    "1 + get_num_tasks eng \<le> upper" "int (length ts) + get_num_tasks eng \<le> get_tasks_num_upperbound eng"
    "int (length ts) \<le> get_remain_tasks_capacity eng" by (simp_all add: engine_model_type_def)
  have tt: "task_tokens eng t = (case fst (get_token_nums t (model_tokenizer_name (model eng)) ()) of Inr n \<Rightarrow> Some n | Inl _ \<Rightarrow> None)"
    if "mt = TOKEN_ID" for t using c that by (simp add: task_tokens_def engine_model_type_def)
  show "list_all (\<lambda>t. task_tokens eng t \<noteq> None) ts"
  proof (cases "mt = TOKEN_ID")
    case True
    then obtain k where "total_tokens (model_tokenizer_name (model eng)) ts 0 = Inr k" using c by blast
    from total_tokens_Inr [OF this] tt [OF True] show ?thesis by (auto simp: list_all_iff split: sum.splits)
  next
    case False
    with c show ?thesis by (simp add: task_tokens_def engine_model_type_def list_all_iff)
  qed
  show "sum_list (map (\<lambda>t. the (task_tokens eng t)) ts) \<le> get_remain_tokens_capacity eng" if T: "mt = TOKEN_ID"
  proof -
    obtain k where k: "total_tokens (model_tokenizer_name (model eng)) ts 0 = Inr k" "k \<le> get_remain_tokens_capacity eng"
      using c T by blast
    have "map (\<lambda>t. the (task_tokens eng t)) ts =
        map (\<lambda>t. case fst (get_token_nums t (model_tokenizer_name (model eng)) ()) of Inr n \<Rightarrow> n | Inl _ \<Rightarrow> 0) ts"
      using total_tokens_Inr [OF k(1)] tt [OF T] by (auto simp: list_all_iff split: sum.splits)
    then have "sum_list (map (\<lambda>t. the (task_tokens eng t)) ts) = k" using total_tokens_Inr [OF k(1)] by (simp only:)
    with k(2) show ?thesis by simp
  qed
qed

definition refs_ok :: "'tok global_scheduler \<Rightarrow> bool" where
  "refs_ok s \<longleftrightarrow>
    (\<forall>r \<in> set (task_queue s). r < length (gs_tasks s)) \<and>
    (\<forall>e \<in> set (dict_values (engines (gs_engine_mgr s))). e < length (engine_objs (gs_engine_mgr s)))"

lemma collect_group_subset: "set (collect_group ts r js groups g c acc) \<subseteq> set acc \<union> set js"
  by (induction ts r js groups g c acc rule: collect_group.induct) (auto simp: Let_def)

lemma cur_group_subset: "set (cur_group r rest s) \<subseteq> set (r # rest)"
  using collect_group_subset [of "gs_tasks s" r rest "chain_groups (chain (task_at s r))"
      "graph_group (gs_config s)" "ctx_group (gs_config s)" "[r]"]
  by (simp add: cur_group_def)

lemma collect_group_hd: "acc \<noteq> [] \<Longrightarrow> collect_group ts r js groups g c acc \<noteq> [] \<and> hd (collect_group ts r js groups g c acc) = hd acc"
  by (induction ts r js groups g c acc rule: collect_group.induct) (auto simp: Let_def)

lemma cur_group_hd: "cur_group r rest s \<noteq> [] \<and> hd (cur_group r rest s) = r"
  using collect_group_hd [of "[r]"] by (simp add: cur_group_def)

text \<open>Everything that a step of the loop changes.\<close>

lemma place_effect:
  assumes "place s s'" and "refs_ok s"
  obtains rs e r rest mt where "rs = cur_group r rest s" "\<not> is_scheduled (task_at s r)" "set rs \<subseteq> set (task_queue s)"
    "e \<in> set (get_live_engines (gs_engine_mgr s))" "e < length (engine_objs (gs_engine_mgr s))"
    "model_type_of_json (metadata_model_type (chain_metadata (chain (task_at s r)))) = Inr mt"
    "check_engine_available (map (task_at s) rs) (group_upperbound (map (task_at s) rs)) mt
         (models (chain_metadata (chain (task_at s r)))) (engine_at s e) = Inr True"
    "loaded (engine_at s e) (map (task_at s) rs) (engine_at s' e)"
    "engine_objs (gs_engine_mgr s') = (engine_objs (gs_engine_mgr s))[e := engine_at s' e]"
    "gs_engine_mgr s' = (gs_engine_mgr s)\<lparr>engine_objs := engine_objs (gs_engine_mgr s')\<rparr>"
    "\<forall>k < length (gs_tasks s). task_at s' k =
       (if k \<in> set rs then (task_at s k)\<lparr>task_engine := Some e, scheduled_event := True\<rparr> else task_at s k)"
proof -
  obtain r rs rest es e res where 1: "\<not> is_scheduled (task_at s r)" "rs = cur_group r rest s"
      "set (r # rest) \<subseteq> set (task_queue s)"
      "get_engine_list rs (group_upperbound (map (task_at s) rs)) s = Inr es" "e \<in> set es"
      "py_for (dispatch_task e) rs s = (res, s')"
    using assms(1) by cases blast
  have sub: "set rs \<subseteq> set (task_queue s)" using 1(2,3) cur_group_subset [of r rest s] by auto
  have hd: "hd (map (task_at s) rs) = task_at s r" using cur_group_hd [of r rest s] 1(2) by (simp add: hd_map)
  obtain mt where mt: "model_type_of_json (metadata_model_type (chain_metadata (chain (task_at s r)))) = Inr mt"
      "filter_py (\<lambda>e. check_engine_available (map (task_at s) rs) (group_upperbound (map (task_at s) rs)) mt
        (models (chain_metadata (chain (task_at s r)))) (engine_at s e)) (get_live_engines (gs_engine_mgr s)) = Inr es"
    using 1(4) unfolding get_engine_list_def Let_def hd by (auto split: sum.splits)
  have e: "e \<in> set (get_live_engines (gs_engine_mgr s))" and chk: "check_engine_available (map (task_at s) rs)
      (group_upperbound (map (task_at s) rs)) mt (models (chain_metadata (chain (task_at s r)))) (engine_at s e) = Inr True"
    using filter_py_Inr [OF mt(2)] 1(5) by auto
  have elen: "e < length (engine_objs (gs_engine_mgr s))"
    using e assms(2) unfolding refs_ok_def get_live_engines_def by (metis filter_is_subset subsetD)
  have toks: "\<forall>k \<in> set rs. task_tokens (engine_at s e) (task_at s k) \<noteq> None"
    using check_engine_availableD(6) [OF chk] by (simp add: list_all_iff)
  have rlen: "\<forall>k \<in> set rs. k < length (gs_tasks s)" using sub assms(2) by (auto simp: refs_ok_def)
  from dispatch_all_ok [OF elen toks rlen] 1(6) have
    "loaded (engine_at s e) (map (task_at s) rs) (engine_at s' e)"
    "engine_objs (gs_engine_mgr s') = (engine_objs (gs_engine_mgr s))[e := engine_at s' e]"
    "\<forall>k < length (gs_tasks s). task_at s' k =
       (if k \<in> set rs then (task_at s k)\<lparr>task_engine := Some e, scheduled_event := True\<rparr> else task_at s k)"
    by auto
  then show ?thesis using that 1(1,2) sub e elen mt(1) chk dispatch_all_frame [OF 1(6)] by blast
qed

lemma place_refs_ok:
  assumes "place s s'" and "refs_ok s"
  shows "refs_ok s'"
proof -
  note f = place_frame [OF assms(1)]
  from assms obtain e where
    "engine_objs (gs_engine_mgr s') = (engine_objs (gs_engine_mgr s))[e := engine_at s' e]"
    "gs_engine_mgr s' = (gs_engine_mgr s)\<lparr>engine_objs := engine_objs (gs_engine_mgr s')\<rparr>"
    by (rule place_effect)
  then have "length (engine_objs (gs_engine_mgr s')) = length (engine_objs (gs_engine_mgr s))"
    "engines (gs_engine_mgr s') = engines (gs_engine_mgr s)"
    by (metis length_list_update, metis engine_manager.select_convs(2) engine_manager.surjective engine_manager.update_convs(1))
  with assms(2) f show ?thesis by (simp add: refs_ok_def)
qed

subsection \<open>From the steps to \<^verbatim>\<open>schedule\<close>\<close>

text \<open>An invariant of placing that does not look at the queue is kept by \<^verbatim>\<open>schedule\<close>, also when it raises.\<close>

lemma sort_queue_frame:
  "sort_queue s = (res, s') \<Longrightarrow> mset (task_queue s') = mset (task_queue s) \<and> s' = s\<lparr>task_queue := task_queue s'\<rparr>"
  by (auto simp: sort_queue_def split: sum.splits)

lemma schedule_invariant:
  assumes "refs_ok s" and "P s"
    and queue: "\<And>s q. P s \<Longrightarrow> P (s\<lparr>task_queue := q\<rparr>)"
    and step: "\<And>s s'. refs_ok s \<Longrightarrow> P s \<Longrightarrow> gs_config s = gs_config s0 \<Longrightarrow> place s s' \<Longrightarrow> P s'"
    and s0: "gs_config s = gs_config s0"
  shows "P (snd (schedule s))"
proof -
  obtain a s1 where s1: "(if app_fifo (gs_config s) then sort_queue s else py_return () s) = (a, s1)" by fastforce
  then have f: "s1 = s\<lparr>task_queue := task_queue s1\<rparr>" "mset (task_queue s1) = mset (task_queue s)"
    using sort_queue_frame [of s a s1] by (auto split: if_splits)
  have P1: "P s1" using queue [OF assms(2), of "task_queue s1"] f(1) by simp
  have r1: "refs_ok s1"
    using assms(1) mset_eq_setD [OF f(2)] arg_cong [OF f(1), of gs_tasks] arg_cong [OF f(1), of gs_engine_mgr]
    by (simp add: refs_ok_def)
  have c1: "gs_config s1 = gs_config s0" using arg_cong [OF f(1), of gs_config] s0 by simp
  have "place\<^sup>*\<^sup>* s1 t \<Longrightarrow> refs_ok t \<and> P t \<and> gs_config t = gs_config s0" for t
  proof (induction rule: rtranclp_induct)
    case base
    show ?case using P1 r1 c1 by blast
  next
    case (step y z)
    then show ?case using assms(4) place_refs_ok place_frame by metis
  qed
  then have "P (snd (schedule_loop (task_queue s1) s1))" using schedule_loop_places by blast
  then show ?thesis
    using s1 P1 queue by (cases a; cases "schedule_loop (task_queue s1) s1"; cases "fst (schedule_loop (task_queue s1) s1)")
      (auto simp: schedule_def)
qed

text \<open>Facts about every registered engine, from facts about the one that a step loads.\<close>

definition all_engines :: "(execution_engine \<Rightarrow> bool) \<Rightarrow> 'tok global_scheduler \<Rightarrow> bool" where
  "all_engines Q s \<longleftrightarrow> list_all (\<lambda>e. Q (engine_at s e)) (dict_values (engines (gs_engine_mgr s)))"

lemma all_engines_place:
  assumes "place s s'" and "refs_ok s" and "all_engines Q s"
    and "\<And>rs r rest e mt. rs = cur_group r rest s \<Longrightarrow> Q (engine_at s e) \<Longrightarrow>
      check_engine_available (map (task_at s) rs) (group_upperbound (map (task_at s) rs)) mt
         (models (chain_metadata (chain (task_at s r)))) (engine_at s e) = Inr True \<Longrightarrow>
      loaded (engine_at s e) (map (task_at s) rs) (engine_at s' e) \<Longrightarrow> Q (engine_at s' e)"
  shows "all_engines Q s'"
proof -
  from assms(1,2) obtain rs e r rest mt where p: "rs = cur_group r rest s" "e \<in> set (get_live_engines (gs_engine_mgr s))"
      "check_engine_available (map (task_at s) rs) (group_upperbound (map (task_at s) rs)) mt
         (models (chain_metadata (chain (task_at s r)))) (engine_at s e) = Inr True"
      "loaded (engine_at s e) (map (task_at s) rs) (engine_at s' e)"
      "engine_objs (gs_engine_mgr s') = (engine_objs (gs_engine_mgr s))[e := engine_at s' e]"
      "gs_engine_mgr s' = (gs_engine_mgr s)\<lparr>engine_objs := engine_objs (gs_engine_mgr s')\<rparr>"
    by (rule place_effect)
  have es: "engines (gs_engine_mgr s') = engines (gs_engine_mgr s)" using arg_cong [OF p(6), of engines] by simp
  have "Q (engine_at s e)" using p(2) assms(3) by (auto simp: all_engines_def get_live_engines_def list_all_iff)
  then have e: "Q (engine_at s' e)" using assms(4) [OF p(1) _ p(3,4)] by blast
  show ?thesis
    unfolding all_engines_def es list_all_iff
  proof
    fix k
    assume "k \<in> set (dict_values (engines (gs_engine_mgr s)))"
    then have "Q (engine_at s k)" using assms(3) unfolding all_engines_def list_all_iff by blast
    moreover have "k \<noteq> e \<Longrightarrow> engine_at s' k = engine_at s k" using p(5) by (metis nth_list_update_neq)
    ultimately show "Q (engine_at s' k)" using e by (cases "k = e") auto
  qed
qed

lemma loaded_config: "loaded eng ts eng' \<Longrightarrow> config eng' = config eng \<and> engine_model_type eng' = engine_model_type eng \<and>
    model eng' = model eng \<and> status eng' = status eng"
proof -
  assume "loaded eng ts eng'"
  then have "eng'\<lparr>serve_layer_info := serve_layer_info eng\<rparr> = eng" by (simp add: loaded_def)
  then have "config eng = config (eng'\<lparr>serve_layer_info := serve_layer_info eng\<rparr>)" "model eng = model (eng'\<lparr>serve_layer_info := serve_layer_info eng\<rparr>)"
    "status eng = status (eng'\<lparr>serve_layer_info := serve_layer_info eng\<rparr>)" by simp_all
  then show ?thesis by (simp add: engine_model_type_def)
qed

section \<open>Properties\<close>

definition within_capacity :: "execution_engine \<Rightarrow> bool" where
  "within_capacity eng \<longleftrightarrow>
    0 \<le> get_remain_tasks_capacity eng \<and> (engine_model_type eng = TOKEN_ID \<longrightarrow> 0 \<le> get_remain_tokens_capacity eng)"

text \<open>
  C5. Scheduling never overloads an engine: if every registered engine is within its task capacity and
  (for token-id models) its token capacity, then so it is after \<^verbatim>\<open>schedule\<close>, with or without
  grouping, and also when \<^verbatim>\<open>schedule\<close> raises halfway.
\<close>

theorem schedule_within_capacity:
  assumes "refs_ok s" and "all_engines within_capacity s"
  shows "all_engines within_capacity (snd (schedule s))"
proof (rule schedule_invariant [where P = "all_engines within_capacity", OF assms])
  show "all_engines within_capacity (s\<lparr>task_queue := q\<rparr>)" if "all_engines within_capacity s" for s :: "'a global_scheduler" and q
    using that by (simp add: all_engines_def)
  fix s s' :: "'a global_scheduler"
  assume s: "refs_ok s" "all_engines within_capacity s" "place s s'"
  show "all_engines within_capacity s'"
  proof (rule all_engines_place [OF s(3,1,2)])
    fix rs r rest e mt
    assume chk: "check_engine_available (map (task_at s) rs) (group_upperbound (map (task_at s) rs)) mt
         (models (chain_metadata (chain (task_at s r)))) (engine_at s e) = Inr True"
      and ld: "loaded (engine_at s e) (map (task_at s) rs) (engine_at s' e)"
    show "within_capacity (engine_at s' e)"
      using check_engine_availableD(1,5,7) [OF chk] loaded_config [OF ld] ld
      by (auto simp: within_capacity_def loaded_def get_remain_tasks_capacity_def get_remain_tokens_capacity_def
          get_num_tasks_def get_tokens_num_def)
  qed
qed (rule refl)

definition within_bounds :: "execution_engine \<Rightarrow> bool" where
  "within_bounds eng \<longleftrightarrow> get_num_tasks eng \<le> get_tasks_num_upperbound eng"

text \<open>
  C30. Without grouping no engine holds more tasks than the strictest of its tasks allows (4 when one of
  them is latency-critical): the bound holds after \<^verbatim>\<open>schedule\<close> if it held before.
\<close>

theorem schedule_within_bounds:
  assumes "refs_ok s" and "all_engines within_bounds s"
    and "\<not> graph_group (gs_config s)" and "\<not> ctx_group (gs_config s)"
  shows "all_engines within_bounds (snd (schedule s))"
proof (rule schedule_invariant [where P = "all_engines within_bounds" and ?s0.0 = s, OF assms(1,2)])
  show "all_engines within_bounds (u\<lparr>task_queue := q\<rparr>)" if "all_engines within_bounds u" for u :: "'a global_scheduler" and q
    using that by (simp add: all_engines_def)
  fix u u' :: "'a global_scheduler"
  assume u: "refs_ok u" "all_engines within_bounds u" "gs_config u = gs_config s" "place u u'"
  show "all_engines within_bounds u'"
  proof (rule all_engines_place [OF u(4,1,2)])
    fix rs r rest e mt
    assume rs: "rs = cur_group r rest u"
      and chk: "check_engine_available (map (task_at u) rs) (group_upperbound (map (task_at u) rs)) mt
         (models (chain_metadata (chain (task_at u r)))) (engine_at u e) = Inr True"
      and ld: "loaded (engine_at u e) (map (task_at u) rs) (engine_at u' e)"
    have "rs = [r]" using rs u(3) assms(3,4) by (simp add: cur_group_def)
    then show "within_bounds (engine_at u' e)"
      using check_engine_availableD(3,4) [OF chk] ld by (auto simp: within_bounds_def loaded_def group_upperbound_def)
  qed
qed (rule refl)

text \<open>A small cluster for the witnesses: one engine for token ids, one task that fits.\<close>

abbreviation demo_cluster :: "unit engine_manager" where
  "demo_cluster \<equiv> snd (register_engine demo_lib 0 (default_engine_config\<lparr>cfg_tokenizer := ''tok''\<rparr>) demo_em)"

abbreviation demo_scheduler :: "unit global_scheduler" where
  "demo_scheduler \<equiv> (new_global_scheduler default_scheduler_config demo_cluster)\<lparr>gs_tasks := [example_task], task_queue := [0]\<rparr>"

lemma demo_scheduler_ok:
  "refs_ok demo_scheduler" "all_engines within_capacity demo_scheduler" "all_engines within_bounds demo_scheduler"
  "\<not> graph_group (gs_config demo_scheduler)" "\<not> ctx_group (gs_config demo_scheduler)" "\<not> app_fifo (gs_config demo_scheduler)"
  "\<not> ctx_aware (gs_config demo_scheduler)"
  by code_simp+

lemma demo_schedule:
  "fst (schedule demo_scheduler) = Inr ()" "task_queue (snd (schedule demo_scheduler)) = []"
  "task_engine (task_at (snd (schedule demo_scheduler)) 0) = Some 0" "is_scheduled (task_at (snd (schedule demo_scheduler)) 0)"
  by code_simp+

theorem schedule_within_capacity_witness:
  "all_engines within_capacity (snd (schedule demo_scheduler)) \<and> task_queue (snd (schedule demo_scheduler)) = []"
  using schedule_within_capacity [OF demo_scheduler_ok(1,2)] demo_schedule by simp

theorem schedule_within_bounds_witness:
  "all_engines within_bounds (snd (schedule demo_scheduler)) \<and> task_queue (snd (schedule demo_scheduler)) = []"
  using schedule_within_bounds [OF demo_scheduler_ok(1,3,4,5)] demo_schedule by simp

definition well_placed :: "'tok global_scheduler \<Rightarrow> completion_task \<Rightarrow> bool" where
  "well_placed s t \<longleftrightarrow>
    (\<exists>e \<in> set (get_live_engines (gs_engine_mgr s)). task_engine t = Some e \<and> is_scheduled t \<and>
       model_type_of_json (metadata_model_type (chain_metadata (chain t))) = Inr (engine_model_type (engine_at s e)) \<and>
       models_reject (models (chain_metadata (chain t))) (engine_model_name (engine_at s e)) = Inr False)"

lemma place_keeps_engines:
  assumes "place s s'" and "refs_ok s" and "e \<in> set (get_live_engines (gs_engine_mgr s))"
  shows "e \<in> set (get_live_engines (gs_engine_mgr s'))" and "model (engine_at s' e) = model (engine_at s e)"
proof -
  from assms(1,2) obtain rs e' where p: "loaded (engine_at s e') (map (task_at s) rs) (engine_at s' e')"
      "engine_objs (gs_engine_mgr s') = (engine_objs (gs_engine_mgr s))[e' := engine_at s' e']"
      "gs_engine_mgr s' = (gs_engine_mgr s)\<lparr>engine_objs := engine_objs (gs_engine_mgr s')\<rparr>"
    by (rule place_effect)
  have same: "model (engine_at s' k) = model (engine_at s k) \<and> status (engine_at s' k) = status (engine_at s k)" for k
  proof (cases "k = e'")
    case True
    then show ?thesis using loaded_config [OF p(1)] by simp
  next
    case False
    then have "engine_at s' k = engine_at s k" using p(2) by (metis nth_list_update_neq)
    then show ?thesis by simp
  qed
  have "engines (gs_engine_mgr s') = engines (gs_engine_mgr s)" using arg_cong [OF p(3), of engines] by simp
  with assms(3) same show "e \<in> set (get_live_engines (gs_engine_mgr s'))" by (auto simp: get_live_engines_def is_running_def)
  show "model (engine_at s' e) = model (engine_at s e)" using same by simp
qed

lemma well_placed_place:
  assumes "place s s'" and "refs_ok s" and "well_placed s t"
  shows "well_placed s' t"
proof -
  obtain e where e: "e \<in> set (get_live_engines (gs_engine_mgr s))" "task_engine t = Some e" "is_scheduled t"
      "model_type_of_json (metadata_model_type (chain_metadata (chain t))) = Inr (engine_model_type (engine_at s e))"
      "models_reject (models (chain_metadata (chain t))) (engine_model_name (engine_at s e)) = Inr False"
    using assms(3) by (auto simp: well_placed_def)
  then show ?thesis
    using place_keeps_engines [OF assms(1,2) e(1)]
    by (auto simp: well_placed_def engine_model_type_def engine_model_name_def intro!: bexI [of _ e])
qed

text \<open>
  C29. A task is placed only where it may run. Without grouping, every queued task is after \<^verbatim>\<open>schedule\<close>
  either untouched, or scheduled to a registered, running engine whose model type is the
  one the request asks for and whose model the request's list allows.
\<close>

theorem schedule_places_well:
  assumes "refs_ok s" and "\<not> graph_group (gs_config s)" and "\<not> ctx_group (gs_config s)" and "r < length (gs_tasks s)"
  shows "task_at (snd (schedule s)) r = task_at s r \<or> well_placed (snd (schedule s)) (task_at (snd (schedule s)) r)"
proof -
  let ?P = "\<lambda>u. r < length (gs_tasks u) \<and> (task_at u r = task_at s r \<or> well_placed u (task_at u r))"
  have "?P (snd (schedule s))"
  proof (rule schedule_invariant [where P = ?P and ?s0.0 = s, OF assms(1)])
    show "?P s" using assms(4) by simp
    show "?P (u\<lparr>task_queue := q\<rparr>)" if "?P u" for u :: "'a global_scheduler" and q
      using that by (simp add: well_placed_def)
    fix u u' :: "'a global_scheduler"
    assume u: "refs_ok u" "?P u" "gs_config u = gs_config s" "place u u'"
    from u(4,1) obtain rs e r0 rest mt where p: "rs = cur_group r0 rest u" "e \<in> set (get_live_engines (gs_engine_mgr u))"
        "model_type_of_json (metadata_model_type (chain_metadata (chain (task_at u r0)))) = Inr mt"
        "check_engine_available (map (task_at u) rs) (group_upperbound (map (task_at u) rs)) mt
           (models (chain_metadata (chain (task_at u r0)))) (engine_at u e) = Inr True"
        "\<forall>k < length (gs_tasks u). task_at u' k =
           (if k \<in> set rs then (task_at u k)\<lparr>task_engine := Some e, scheduled_event := True\<rparr> else task_at u k)"
      by (rule place_effect)
    have rs: "rs = [r0]" using p(1) u(3) assms(2,3) by (simp add: cur_group_def)
    have len: "length (gs_tasks u') = length (gs_tasks u)" using place_frame [OF u(4)] by simp
    show "?P u'"
    proof (cases "r = r0")
      case False
      then have "task_at u' r = task_at u r" using p(5) u(2) rs by simp
      then show ?thesis using u(2) len well_placed_place [OF u(4,1)] by auto
    next
      case True
      let ?t = "(task_at u r)\<lparr>task_engine := Some e, scheduled_event := True\<rparr>"
      have "task_at u' r = ?t" using p(5) u(2) rs True by simp
      moreover have "well_placed u ?t"
        using p(2,3) check_engine_availableD(1,2) [OF p(4)] True
        by (auto simp: well_placed_def is_scheduled_def intro!: bexI [of _ e])
      ultimately show ?thesis using well_placed_place [OF u(4,1)] u(2) len by simp
    qed
  qed (rule refl)
  then show ?thesis by blast
qed

theorem schedule_places_well_witness:
  "task_at (snd (schedule demo_scheduler)) 0 \<noteq> task_at demo_scheduler 0 \<and>
   well_placed (snd (schedule demo_scheduler)) (task_at (snd (schedule demo_scheduler)) 0)"
proof -
  have "task_at (snd (schedule demo_scheduler)) 0 \<noteq> task_at demo_scheduler 0" by code_simp
  moreover have "0 < length (gs_tasks demo_scheduler)" by code_simp
  ultimately show ?thesis using schedule_places_well [OF demo_scheduler_ok(1,4,5), of 0] by blast
qed

section \<open>The queue\<close>

text \<open>Nothing but the tasks of a placed group changes, and a scheduled task stays scheduled.\<close>

lemma place_tasks:
  assumes "place s s'" and "refs_ok s" and "k < length (gs_tasks s)"
  shows "is_scheduled (task_at s k) \<Longrightarrow> is_scheduled (task_at s' k)"
    and "is_scheduled (task_at s' k) \<or> task_at s' k = task_at s k"
proof -
  from assms(1,2) obtain rs e where "\<forall>k < length (gs_tasks s). task_at s' k =
       (if k \<in> set rs then (task_at s k)\<lparr>task_engine := Some e, scheduled_event := True\<rparr> else task_at s k)"
    by (rule place_effect)
  with assms(3) show "is_scheduled (task_at s k) \<Longrightarrow> is_scheduled (task_at s' k)"
    "is_scheduled (task_at s' k) \<or> task_at s' k = task_at s k"
    by (auto simp: is_scheduled_def)
qed

lemma places_tasks:
  assumes "place\<^sup>*\<^sup>* s s'" and "refs_ok s" and "k < length (gs_tasks s)"
  shows "refs_ok s' \<and> length (gs_tasks s') = length (gs_tasks s) \<and> task_queue s' = task_queue s \<and>
    (is_scheduled (task_at s k) \<longrightarrow> is_scheduled (task_at s' k)) \<and>
    (is_scheduled (task_at s' k) \<or> task_at s' k = task_at s k)"
  using assms
proof (induction rule: rtranclp_induct)
  case (step y z)
  then show ?case using place_tasks [of y z k] place_refs_ok [of y z] place_frame [of y z] by auto
qed simp

definition queue_order :: "'tok global_scheduler \<Rightarrow> task_ref list" where
  "queue_order s =
    (if app_fifo (gs_config s)
     then sort_key (\<lambda>r. case depth_key (task_at s r) of Inr k \<Rightarrow> k | Inl _ \<Rightarrow> 0) (task_queue s)
     else task_queue s)"

lemma schedule_Inr:
  assumes "schedule s = (Inr (), s')"
  obtains s1 where "schedule_loop (queue_order s) (s\<lparr>task_queue := queue_order s\<rparr>) = (Inr (), s1)"
    "s' = s1\<lparr>task_queue := filter (\<lambda>r. \<not> is_scheduled (task_at s1 r)) (task_queue s1)\<rparr>"
proof -
  obtain u s0 s1 where 0: "(if app_fifo (gs_config s) then sort_queue s else py_return () s) = (Inr u, s0)"
      "schedule_loop (task_queue s0) s0 = (Inr (), s1)"
      "s' = s1\<lparr>task_queue := filter (\<lambda>r. \<not> is_scheduled (task_at s1 r)) (task_queue s1)\<rparr>"
    using assms by (auto simp: schedule_def py_bind_eq_Inr)
  have "s0 = s\<lparr>task_queue := queue_order s\<rparr>"
    using 0(1) by (auto simp: queue_order_def sort_queue_def split: if_splits sum.splits)
  then show ?thesis using that [of s1] 0(2,3) by simp
qed

lemma refs_ok_order: "refs_ok s \<Longrightarrow> refs_ok (s\<lparr>task_queue := queue_order s\<rparr>)"
  by (simp add: refs_ok_def queue_order_def)

lemma schedule_queue_filter:
  assumes "refs_ok s" and "schedule s = (Inr (), s')"
  shows "task_queue s' = filter (\<lambda>r. \<not> is_scheduled (task_at s' r)) (queue_order s) \<and>
    (\<forall>r \<in> set (task_queue s). is_scheduled (task_at s' r) \<or> task_at s' r = task_at s r)"
proof -
  obtain s1 where s1: "schedule_loop (queue_order s) (s\<lparr>task_queue := queue_order s\<rparr>) = (Inr (), s1)"
    "s' = s1\<lparr>task_queue := filter (\<lambda>r. \<not> is_scheduled (task_at s1 r)) (task_queue s1)\<rparr>"
    using schedule_Inr [OF assms(2)] .
  have places: "place\<^sup>*\<^sup>* (s\<lparr>task_queue := queue_order s\<rparr>) s1"
    using schedule_loop_places [of "queue_order s" "s\<lparr>task_queue := queue_order s\<rparr>"] s1(1) by simp
  have kept: "task_queue s1 = queue_order s \<and> (is_scheduled (task_at s1 r) \<or> task_at s1 r = task_at s r)"
    if "r \<in> set (task_queue s)" for r
  proof -
    have "r < length (gs_tasks s)" using that assms(1) by (simp add: refs_ok_def)
    then show ?thesis using places_tasks [OF places refs_ok_order [OF assms(1)], of r] by simp
  qed
  have q: "task_queue s1 = queue_order s"
  proof (cases "task_queue s")
    case Nil
    then have "queue_order s = []" by (simp add: queue_order_def)
    with s1(1) show ?thesis by simp
  qed (use kept in auto)
  then show ?thesis using kept s1(2) by auto
qed

text \<open>How deep the request of a task is in its graph: the depth of the variable that its Gen node makes.\<close>

definition task_depth :: "completion_task \<Rightarrow> int" where
  "task_depth t = (case gen_node (chain t) of Some g \<Rightarrow> gen_depth g | None \<Rightarrow> 0)"

lemma filter_py_total: "filter_py p xs = Inr ys \<Longrightarrow> x \<in> set xs \<Longrightarrow> \<exists>b. p x = Inr b"
  by (induction xs arbitrary: ys) (auto split: sum.splits)

lemma queue_order_depth:
  assumes "app_fifo (gs_config s)" and "schedule s = (Inr (), s')"
  shows "queue_order s = sort_key (\<lambda>r. - task_depth (task_at s r)) (task_queue s)"
proof -
  have "(\<exists>ys. filter_py (\<lambda>r. map_sum id (\<lambda>_. True) (depth_key (task_at s r))) (task_queue s) = Inr ys)"
    using assms by (cases "filter_py (\<lambda>r. map_sum id (\<lambda>_. True) (depth_key (task_at s r))) (task_queue s)")
      (auto simp: schedule_def sort_queue_def)
  then have "depth_key (task_at s r) = Inr (- task_depth (task_at s r))" if "r \<in> set (task_queue s)" for r
    using filter_py_total [OF _ that] by (fastforce simp: depth_key_def task_depth_def split: option.splits)
  then show ?thesis unfolding queue_order_def using assms(1) by (auto intro: sort_key_cong)
qed

text \<open>
  C28. What \<^verbatim>\<open>schedule\<close> leaves in the queue, when it returns without an exception. The queue consists of exactly the tasks
  that are not scheduled, none is lost and none of them was changed. Without \<^verbatim>\<open>app_fifo\<close> they stand in the order of
  the queue before; with \<^verbatim>\<open>app_fifo\<close> no task stands before one whose request is deeper in its graph, and tasks of the
  same depth stand in the order of the queue before.
\<close>

theorem schedule_queue:
  assumes "refs_ok s" and "schedule s = (Inr (), s')"
  shows "mset (task_queue s') = mset (filter (\<lambda>r. \<not> is_scheduled (task_at s' r)) (task_queue s)) \<and>
    (\<forall>r \<in> set (task_queue s'). task_at s' r = task_at s r) \<and>
    (if app_fifo (gs_config s)
     then sorted_wrt (\<lambda>a b. task_depth (task_at s b) \<le> task_depth (task_at s a)) (task_queue s') \<and>
       (\<forall>d. filter (\<lambda>r. task_depth (task_at s r) = d) (task_queue s') =
          filter (\<lambda>r. task_depth (task_at s r) = d \<and> \<not> is_scheduled (task_at s' r)) (task_queue s))
     else task_queue s' = filter (\<lambda>r. \<not> is_scheduled (task_at s' r)) (task_queue s))"
proof -
  let ?left = "\<lambda>r. \<not> is_scheduled (task_at s' r)" and ?d = "\<lambda>r. task_depth (task_at s r)"
  have q: "task_queue s' = filter ?left (queue_order s)" "\<forall>r \<in> set (task_queue s). \<not> ?left r \<or> task_at s' r = task_at s r"
    using schedule_queue_filter [OF assms] by auto
  have order: "mset (queue_order s) = mset (task_queue s)" by (simp add: queue_order_def)
  then have "mset (task_queue s') = mset (filter ?left (task_queue s))" unfolding q(1) mset_filter by simp
  moreover have "\<forall>r \<in> set (task_queue s'). task_at s' r = task_at s r"
    using q mset_eq_setD [OF order] by auto
  moreover have "sorted_wrt (\<lambda>a b. ?d b \<le> ?d a) (task_queue s') \<and>
      (\<forall>d. filter (\<lambda>r. ?d r = d) (task_queue s') = filter (\<lambda>r. ?d r = d \<and> ?left r) (task_queue s))" if "app_fifo (gs_config s)"
  proof
    note o = queue_order_depth [OF that assms(2)]
    have "sorted (map (\<lambda>r. - ?d r) (queue_order s))" unfolding o by (rule sorted_sort_key)
    then have "sorted_wrt (\<lambda>a b. ?d b \<le> ?d a) (queue_order s)" by (simp add: sorted_wrt_map)
    then show "sorted_wrt (\<lambda>a b. ?d b \<le> ?d a) (task_queue s')" unfolding q(1) by (rule sorted_wrt_filter)
    have "filter (\<lambda>r. - ?d r = - d) (queue_order s) = filter (\<lambda>r. - ?d r = - d) (task_queue s)" for d
      unfolding o by (rule sort_key_stable)
    then have "filter ?left (filter (\<lambda>r. ?d r = d) (queue_order s)) = filter ?left (filter (\<lambda>r. ?d r = d) (task_queue s))" for d by simp
    then show "\<forall>d. filter (\<lambda>r. ?d r = d) (task_queue s') = filter (\<lambda>r. ?d r = d \<and> ?left r) (task_queue s)"
      unfolding q(1) by (auto simp: conj_commute)
  qed
  moreover have "task_queue s' = filter ?left (task_queue s)" if "\<not> app_fifo (gs_config s)"
    using q(1) that by (simp add: queue_order_def)
  ultimately show ?thesis unfolding if_bool_eq_conj by blast
qed

text \<open>An engine for one task and three tasks of depths 0, 2 and 1: the deepest is placed, the others wait in the order of their depth.\<close>

abbreviation deep_task :: "int \<Rightarrow> int \<Rightarrow> completion_task" where
  "deep_task tid d \<equiv> (new_task tid (example_chain\<lparr>gen_node :=
       Some \<lparr>gen_sampling_config = Some default_sampling_config, gen_criteria = Some LATENCY, gen_depth = d\<rparr>\<rparr>) default_schedule_annotation)
     \<lparr>tokenized_result := Some [(''tok'', [[1, 2]])]\<rparr>"

abbreviation busy_scheduler :: "unit global_scheduler" where
  "busy_scheduler \<equiv> (new_global_scheduler (default_scheduler_config\<lparr>app_fifo := True\<rparr>)
       (snd (register_engine demo_lib 0 (default_engine_config\<lparr>cfg_tokenizer := ''tok'', tasks_capacity := 1\<rparr>) demo_em)))
     \<lparr>gs_tasks := [deep_task 1 0, deep_task 2 2, deep_task 3 1], task_queue := [0, 1, 2]\<rparr>"

theorem schedule_queue_witness:
  "\<exists>s'. schedule busy_scheduler = (Inr (), s') \<and> task_queue s' = [2, 0] \<and>
    sorted_wrt (\<lambda>a b. task_depth (task_at busy_scheduler b) \<le> task_depth (task_at busy_scheduler a)) (task_queue s')"
proof -
  have c: "fst (schedule busy_scheduler) = Inr ()" "task_queue (snd (schedule busy_scheduler)) = [2, 0]"
      "refs_ok busy_scheduler" "app_fifo (gs_config busy_scheduler)" by code_simp+
  obtain s' where s': "schedule busy_scheduler = (Inr (), s')" using c(1) by (metis prod.collapse)
  from schedule_queue [OF c(3) this] c(2,4) s' show ?thesis by auto
qed

lemma dispatch_schedules:
  assumes "r < length (gs_tasks s)"
  shows "is_scheduled (task_at (snd (py_for (dispatch_task e) [r] s)) r)"
  using assms
  by (cases "update_servelayer_runtime_info_add_task ((task_at s r)\<lparr>task_engine := Some e, scheduled_event := True\<rparr>) (engine_at s e)";
      cases "fst (update_servelayer_runtime_info_add_task ((task_at s r)\<lparr>task_engine := Some e, scheduled_event := True\<rparr>) (engine_at s e))")
     (auto simp: dispatch_task_def schedule_to_def Let_def is_scheduled_def)

lemma schedule_loop_skip:
  "list_all (\<lambda>p. is_scheduled (task_at s p)) pre \<Longrightarrow> schedule_loop (pre @ q) s = schedule_loop q s"
  by (induction pre) auto

lemma schedule_tasks:
  assumes "app_fifo (gs_config s) \<longrightarrow> fst (sort_queue s) = Inr ()"
  shows "gs_tasks (snd (schedule s)) = gs_tasks (snd (schedule_loop (queue_order s) (s\<lparr>task_queue := queue_order s\<rparr>)))"
proof -
  have "(if app_fifo (gs_config s) then sort_queue s else py_return () s) = (Inr (), s\<lparr>task_queue := queue_order s\<rparr>)"
    using assms by (auto simp: sort_queue_def queue_order_def split: sum.splits)
  then show ?thesis
    by (cases "schedule_loop (queue_order s) (s\<lparr>task_queue := queue_order s\<rparr>)";
        cases "fst (schedule_loop (queue_order s) (s\<lparr>task_queue := queue_order s\<rparr>))") (auto simp: schedule_def)
qed

text \<open>
  C22. A waiting task makes progress when neither \<^verbatim>\<open>graph_group\<close> nor \<^verbatim>\<open>ctx_group\<close> is on: if some
  running engine is available to the first task of the queue that is not scheduled (in the order in which \<^verbatim>\<open>schedule\<close> visits the queue: with
  \<^verbatim>\<open>app_fifo\<close> deepest first, where every task must have a Gen node whose variable is activated, or the sort raises), the next call of
  \<^verbatim>\<open>schedule\<close> schedules that task, also if the call raises later for another task. So the head of the
  queue never starves while an engine can take it.
\<close>

theorem schedule_serves_head:
  assumes "refs_ok s" and "\<not> graph_group (gs_config s)" and "\<not> ctx_group (gs_config s)"
    and "app_fifo (gs_config s) \<longrightarrow> fst (sort_queue s) = Inr ()"
    and "queue_order s = pre @ r # rest" and "list_all (\<lambda>p. is_scheduled (task_at s p)) pre"
    and "\<not> is_scheduled (task_at s r)"
    and "get_engine_list [r] (group_upperbound [task_at s r]) s = Inr es" and "es \<noteq> []"
  shows "is_scheduled (task_at (snd (schedule s)) r)"
proof -
  define s0 where "s0 = s\<lparr>task_queue := queue_order s\<rparr>"
  have ok: "refs_ok s0" unfolding s0_def by (rule refs_ok_order [OF assms(1)])
  have q: "task_queue s0 = pre @ r # rest" and cfg: "gs_config s0 = gs_config s" and ts: "gs_tasks s0 = gs_tasks s"
    using assms(5) by (simp_all add: s0_def)
  have es: "get_engine_list [r] (group_upperbound [task_at s r]) s0 = Inr es" using assms(8) by (simp add: get_engine_list_def s0_def Let_def cong: sum.case_cong)
  have r: "r < length (gs_tasks s0)" and sub: "set (r # rest) \<subseteq> set (task_queue s0)" using ok q by (auto simp: refs_ok_def)
  have un: "\<not> is_scheduled (task_at s0 r)" using assms(7) ts by simp
  have grp: "cur_group r rest s0 = [r]" using assms(2,3) by (simp add: cur_group_def cfg)
  define s1 where "s1 = snd (find_engine [r] s0)"
  have "\<exists>e. find_engine [r] s0 = py_for (dispatch_task e) [r] s0"
  proof -
    let ?cm = "em_context_mgr (gs_engine_mgr s0)"
    obtain found where "query_prefixes_in_engines (task_at s0 r) ?cm = (Inr found, ?cm)"
      using un by (simp add: query_prefixes_in_engines_def Let_def py_return_def)
    then have ids: "(if ctx_aware (gs_config s0) then py_lift (\<lambda>_. s0) (query_prefixes_in_engines (task_at s0 r) ?cm)
        else py_return [] s0) = py_return (if ctx_aware (gs_config s0) then found else []) s0"
      by (simp add: py_lift_def py_return_def)
    define ids where "ids = (if ctx_aware (gs_config s0) then found else [])"
    obtain e where "pick_engine (ctx_aware (gs_config s0)) ids (engine_at s0) es = Some e" using pick_engine_member [OF assms(9)] by blast
    then have "find_engine [r] s0 = py_for (dispatch_task e) [r] s0"
      unfolding find_engine_def list.map list.sel ids [folded ids_def] using es assms(9) by (simp add: ts)
    then show ?thesis by blast
  qed
  then have r1: "is_scheduled (task_at s1 r)" using dispatch_schedules [OF r] by (auto simp: s1_def)
  have "place\<^sup>*\<^sup>* s0 s1" using find_engine_place [OF un sub] unfolding grp s1_def by auto
  note st = places_tasks [OF this ok r]
  then have rest: "place\<^sup>*\<^sup>* s1 (snd (schedule_loop rest s1))" using schedule_loop_places [of rest s1] sub by simp
  have "is_scheduled (task_at (snd (schedule_loop rest s1)) r)"
    using places_tasks [OF rest, of r] st r r1 by simp
  moreover have "list_all (\<lambda>p. is_scheduled (task_at s0 p)) pre" using assms(6) ts by simp
  then have "snd (schedule_loop (task_queue s0) s0) \<in> {s1, snd (schedule_loop rest s1)}"
    unfolding q using un grp schedule_loop_skip [of s0 pre "r # rest"]
    by (cases "find_engine [r] s0"; cases "fst (find_engine [r] s0)") (auto simp: s1_def)
  ultimately show ?thesis using r1 schedule_tasks [OF assms(4)] by (auto simp: s0_def)
qed

theorem schedule_serves_head_witness:
  "is_scheduled (task_at (snd (schedule busy_scheduler)) 1) \<and> \<not> is_scheduled (task_at busy_scheduler 1)"
proof -
  have w: "refs_ok busy_scheduler" "\<not> graph_group (gs_config busy_scheduler)" "\<not> ctx_group (gs_config busy_scheduler)"
      "fst (sort_queue busy_scheduler) = Inr ()" "queue_order busy_scheduler = [] @ 1 # [2, 0]" "\<not> is_scheduled (task_at busy_scheduler 1)"
      "get_engine_list [1] (group_upperbound [task_at busy_scheduler 1]) busy_scheduler = Inr [0]" by code_simp+
  show ?thesis using schedule_serves_head [OF w(1-3) _ w(5) _ w(6,7)] w(4,6) by simp
qed

text \<open>
  Three queued tasks with the chain groups \<open>{1}\<close>, \<open>{2}\<close> and \<open>{1, 2}\<close>: the first group takes the
  third task, and so does the second.
\<close>

abbreviation grouped_task :: "int \<Rightarrow> nat list \<Rightarrow> completion_task" where
  "grouped_task tid gs \<equiv> (new_task tid (example_chain\<lparr>chain_groups := gs\<rparr>) default_schedule_annotation)
     \<lparr>tokenized_result := Some [(''tok'', [[1, 2]])]\<rparr>"

abbreviation grouped_scheduler :: "unit global_scheduler" where
  "grouped_scheduler \<equiv> (new_global_scheduler (default_scheduler_config\<lparr>graph_group := True\<rparr>) demo_cluster)
     \<lparr>gs_tasks := [grouped_task 1 [1], grouped_task 2 [2], grouped_task 3 [1, 2]], task_queue := [0, 1, 2]\<rparr>"

text \<open>
  Graph grouping can place one task twice: the loop that collects a group does not ask whether a
  task of the rest of the queue is scheduled already. Here three tasks are queued and the
  engine is charged with four, so after the three leave it still counts one.
\<close>

lemma graph_group_places_twice:
  "fst (schedule grouped_scheduler) = Inr () \<and> length (task_queue grouped_scheduler) = 3 \<and>
   get_num_tasks (engine_at grouped_scheduler 0) = 0 \<and> get_num_tasks (engine_at (snd (schedule grouped_scheduler)) 0) = 4"
  by code_simp

end
