(* ===== verification/Session_Manager.thy ===== *)
theory Session_Manager
  imports Graph_Traversal Variable_Manager Global_Scheduler
begin

text \<open>
  \<^verbatim>\<open>serve/session/session.py\<close> and \<^verbatim>\<open>serve/session_manager.py\<close>, and of the executors
  (\<^verbatim>\<open>graph_executor.py\<close>, \<^verbatim>\<open>native_executor.py\<close>) what a submitted request does to them. The state is that of the
  whole serve core: the components of the other theories, the heap that the semantic variables and the
  graphs of all sessions live in, the session objects and the coroutines that were spawned.
  A call that walks a graph may run forever, so adding a request is a \<open>pyo\<close>. The lemmas show that the tables
  of the session manager agree with the id pool, the namespaces and the session contexts, and that the
  check and the sweep of the serving loop remove exactly the sessions that are expired or failed.
\<close>

section \<open>State\<close>

datatype session_status = SESSION_RUNNING | SESSION_DEAD | SESSION_BAD

text \<open>
  An exception that is kept is its class and whether its \<^verbatim>\<open>args\<close> are non-empty, which the session
  manager relies on.
\<close>

type_synonym kept_exception = "py_error \<times> bool"

record 'code session =
  sess_id :: int
  sess_status :: session_status
  life_span :: int
  executor_graph :: compute_graph
  executor_bad_exception :: "kept_exception option"
  func_cache :: "(json \<times> 'code) list"
  native_bad_exception :: "kept_exception option"
  request_id_counter :: int

definition new_session :: "int \<Rightarrow> int \<Rightarrow> 'code session" where
  "new_session sid secs =
    \<lparr>sess_id = sid, sess_status = SESSION_RUNNING, life_span = secs, executor_graph = new_compute_graph,
     executor_bad_exception = None, func_cache = [], native_bad_exception = None, request_id_counter = 0\<rparr>"

definition session_is_running :: "'code session \<Rightarrow> bool" where
  "session_is_running x = (sess_status x = SESSION_RUNNING)"

type_synonym session_ref = nat

text \<open>
  A coroutine that was spawned, with the await it is suspended at. A chain waits for its activation, for
  its inputs (the fill nodes that are left), for its placement, for a context that another task
  fills or for the response of an engine; the locals of its execution are the tokenizer and the end-of-sequence
  token of a token-id engine. A native function waits for its activation and for its inputs.
\<close>

type_synonym task_locals = "(string \<times> int) option"

datatype chain_stage =
    AwaitActivated
  | AwaitInputs task_ref "node_ref list" "py_error option"
  | AwaitScheduled task_ref
  | AwaitContext task_ref nat task_locals
  | AwaitResponse task_ref nat task_locals
  | ChainDone

datatype native_stage = NativeAwaitActivated | NativeAwaitInputs | NativeDone

datatype coroutine =
    ChainCoroutine session_ref chain_ref chain_stage
  | NativeCoroutine session_ref node_ref native_stage

text \<open>The primitives that the executors post to the engines: session, task, context and parent context, and what is sent.\<close>

datatype sent_primitive =
    FillTokens int int int int "int list"
  | FillText int int int int json
  | GenerateWith int int int int sampling_config

text \<open>
  \<open>task_chains\<close> has the chain of each task of the scheduler, \<open>posts\<close> what was posted, to which address;
  \<open>core_down\<close> says that a coroutine ended with an exception, which quits the process (fail-fast mode).
\<close>

record ('u, 'code, 'tok) serve_core =
  core_heap :: "'code graph_heap"
  var_mgr :: "'u variable_manager"
  global_sched :: "'tok global_scheduler"
  task_id_pool :: recycle_pool
  session_objs :: "'code session list"
  sessions :: "(int, session_ref) dict"
  session_id_pool :: recycle_pool
  session_last_access_time :: "(int, int) dict"
  session_life_span :: int
  coroutines :: "coroutine list"
  task_chains :: "chain_ref list"
  posts :: "(string \<times> sent_primitive) list"
  core_down :: bool

abbreviation session_at :: "('u, 'code, 'tok) serve_core \<Rightarrow> session_ref \<Rightarrow> 'code session" where
  "session_at s r \<equiv> session_objs s ! r"

abbreviation core_engines :: "('u, 'code, 'tok) serve_core \<Rightarrow> 'tok engine_manager" where
  "core_engines s \<equiv> gs_engine_mgr (global_sched s)"

abbreviation core_contexts :: "('u, 'code, 'tok) serve_core \<Rightarrow> context_manager" where
  "core_contexts s \<equiv> em_context_mgr (core_engines s)"

text \<open>Run an operation of a component on its part of the state.\<close>

definition in_heap :: "('code graph_heap \<Rightarrow> ('a, 'code graph_heap) pyo) \<Rightarrow> ('u, 'code, 'tok) serve_core \<Rightarrow>
    ('a, ('u, 'code, 'tok) serve_core) pyo" where
  "in_heap op s = pyo_lift (\<lambda>h. s\<lparr>core_heap := h\<rparr>) (op (core_heap s))"

definition in_vars :: "(('u, 'code) vm_state \<Rightarrow> ('a, ('u, 'code) vm_state) pyo) \<Rightarrow> ('u, 'code, 'tok) serve_core \<Rightarrow>
    ('a, ('u, 'code, 'tok) serve_core) pyo" where
  "in_vars op s = pyo_lift (\<lambda>(m, h). s\<lparr>core_heap := h, var_mgr := m\<rparr>) (op (var_mgr s, core_heap s))"

definition on_session :: "session_ref \<Rightarrow> ('code session \<Rightarrow> 'code session) \<Rightarrow> ('u, 'code, 'tok) serve_core \<Rightarrow>
    ('u, 'code, 'tok) serve_core" where
  "on_session r f s = s\<lparr>session_objs := (session_objs s)[r := f (session_at s r)]\<rparr>"

definition in_graph :: "session_ref \<Rightarrow> ('code graph_state \<Rightarrow> ('a, 'code graph_state) pyo) \<Rightarrow> ('u, 'code, 'tok) serve_core \<Rightarrow>
    ('a, ('u, 'code, 'tok) serve_core) pyo" where
  "in_graph r op s =
    pyo_lift (\<lambda>(g, h). on_session r (\<lambda>x. x\<lparr>executor_graph := g\<rparr>) (s\<lparr>core_heap := h\<rparr>))
      (op (executor_graph (session_at s r), core_heap s))"

definition in_engines :: "('tok engine_manager \<Rightarrow> ('a, 'tok engine_manager) py) \<Rightarrow> ('u, 'code, 'tok) serve_core \<Rightarrow>
    ('a, ('u, 'code, 'tok) serve_core) py" where
  "in_engines op s =
    py_lift (\<lambda>m. s\<lparr>global_sched := (global_sched s)\<lparr>gs_engine_mgr := m\<rparr>\<rparr>) (op (core_engines s))"

definition in_contexts :: "(context_manager \<Rightarrow> ('a, context_manager) py) \<Rightarrow> ('u, 'code, 'tok) serve_core \<Rightarrow>
    ('a, ('u, 'code, 'tok) serve_core) py" where
  "in_contexts op s =
    in_engines (\<lambda>m. py_lift (\<lambda>c. m\<lparr>em_context_mgr := c\<rparr>) (op (em_context_mgr m))) s"

definition core_store :: "('u, 'code, 'tok) serve_core \<Rightarrow> engine_store" where
  "core_store s = (\<lambda>e. engine_objs (core_engines s) ! e)"

definition spawn :: "coroutine list \<Rightarrow> ('u, 'code, 'tok) serve_core \<Rightarrow> ('u, 'code, 'tok) serve_core" where
  "spawn cs s = s\<lparr>coroutines := coroutines s @ cs\<rparr>"

section \<open>Submitting a request\<close>

text \<open>
  The criteria of the metadata: a string is read; any other value but \<^verbatim>\<open>None\<close> is passed on as it is
  (\<open>None\<close> here), and the traversal refuses it.
\<close>

definition read_criteria :: "json \<Rightarrow> 's \<Rightarrow> (performance_criteria option, 's) py" where
  "read_criteria crit s =
    (case crit of
       JStr t \<Rightarrow> py_bind (get_performance_criteria t s) (\<lambda>c s. py_return (Some c) s)
     | _ \<Rightarrow> py_return None s)"

definition activate_with :: "performance_criteria option \<Rightarrow> sv_ref \<Rightarrow> 'code graph_heap \<Rightarrow> (unit, 'code graph_heap) pyo" where
  "activate_with crit v h =
    (case crit of
       Some c \<Rightarrow> activate_sv v c h
     | None \<Rightarrow> Some (py_bind (parrot_assert (\<not> sv_is_activated (sv_at h v)) h) (\<lambda>_ h. py_raise NotImplementedError h)))"

text \<open>\<^verbatim>\<open>request_chain.comp_chains[-1].gen_node.sv\<close>\<close>

definition last_output :: "request_ref \<Rightarrow> 'code graph_heap \<Rightarrow> (sv_ref, 'code graph_heap) py" where
  "last_output rq h =
    (if comp_chains (request_at h rq) = [] then py_raise IndexError h
     else get_node_sv (node_at h (chain_gen_node (chain_at h (last (comp_chains (request_at h rq)))))) h)"

definition activate_request :: "json \<Rightarrow> request_ref \<Rightarrow> 'code graph_heap \<Rightarrow> (unit, 'code graph_heap) pyo" where
  "activate_request crit rq h =
    (if crit = JNone then Some (py_return () h)
     else pyo_bind (Some (read_criteria crit h)) (\<lambda>c h.
          pyo_bind (Some (last_output rq h)) (\<lambda>v h. activate_with c v h)))"

text \<open>\<^verbatim>\<open>GraphExecutor.add_request\<close> and \<^verbatim>\<open>PyNativeExecutor.add_native_func\<close>\<close>

definition executor_add_request :: "session_ref \<Rightarrow> request_ref \<Rightarrow> ('u, 'code, 'tok) serve_core \<Rightarrow>
    (unit, ('u, 'code, 'tok) serve_core) pyo" where
  "executor_add_request r rq s =
    pyo_bind (in_graph r (insert_and_update_request_chain rq) s) (\<lambda>_ s.
      Some (py_return () (spawn (map (\<lambda>c. ChainCoroutine r c AwaitActivated) (comp_chains (request_at (core_heap s) rq))) s)))"

definition add_native_func :: "session_ref \<Rightarrow> node_ref \<Rightarrow> ('u, 'code, 'tok) serve_core \<Rightarrow>
    (unit, ('u, 'code, 'tok) serve_core) pyo" where
  "add_native_func r n s =
    pyo_bind (in_graph r (\<lambda>g. Some (insert_native_func_node n g)) s) (\<lambda>_ s.
      Some (py_return () (spawn [NativeCoroutine r n NativeAwaitActivated] s)))"

definition add_semantic_request ::
  "('u \<Rightarrow> string \<Rightarrow> string) \<Rightarrow> int \<Rightarrow> session_ref \<Rightarrow> int \<Rightarrow> (string, json) dict \<Rightarrow> ('u, 'code, 'tok) serve_core \<Rightarrow>
   (param_info list, ('u, 'code, 'tok) serve_core) pyo" where
  "add_semantic_request uuid3 now r rid payload s =
    (let sid = sess_id (session_at s r) in
     case parse_from_payload rid sid payload of
       Inl e \<Rightarrow> Some (py_raise e s)
     | Inr creq \<Rightarrow>
         pyo_bind (in_heap (from_chunked_request creq) s) (\<lambda>rq s.
         pyo_bind (in_vars (create_vars_for_semantic_request_chain uuid3 now sid rq) s) (\<lambda>_ s.
         pyo_bind (executor_add_request r rq s) (\<lambda>_ s.
         pyo_bind (in_heap (activate_request (output_criteria (metadata creq)) rq) s) (\<lambda>_ s.
           in_heap (\<lambda>h. Some (get_request_param_info rq h)) s)))))"

definition activate_outputs :: "json \<Rightarrow> node_ref \<Rightarrow> 'code graph_heap \<Rightarrow> (unit, 'code graph_heap) pyo" where
  "activate_outputs crit n h =
    (if crit = JNone then Some (py_return () h)
     else pyo_bind (Some (read_criteria crit h)) (\<lambda>c h.
          pyo_fold (\<lambda>v _ h. activate_with c v h) (dict_values (output_vars (node_at h n))) () h))"

definition add_py_native_request ::
  "('u \<Rightarrow> string \<Rightarrow> string) \<Rightarrow> (json \<Rightarrow> py_error + 'code) \<Rightarrow> session_ref \<Rightarrow> int \<Rightarrow> (string, json) dict \<Rightarrow>
   ('u, 'code, 'tok) serve_core \<Rightarrow> (param_info list, ('u, 'code, 'tok) serve_core) pyo" where
  "add_py_native_request uuid3 deserialize r rid payload s =
    (let sid = sess_id (session_at s r) in
     case parse_native_from_payload deserialize rid sid payload of
       Inl e \<Rightarrow> Some (py_raise e s)
     | Inr rq \<Rightarrow>
         (let (n, h) = alloc_node (new_native_node rq) (core_heap s); s = s\<lparr>core_heap := h\<rparr> in
          pyo_bind (in_vars (\<lambda>x. Some (create_vars_for_pynative_func uuid3 sid n x)) s) (\<lambda>_ s.
          pyo_bind (add_native_func r n s) (\<lambda>_ s.
          pyo_bind (in_heap (activate_outputs (native_output_criteria (native_metadata rq)) n) s) (\<lambda>_ s.
            in_heap (\<lambda>h. Some (get_native_param_info (node_at h n) h)) s)))))"

text \<open>\<^verbatim>\<open>Session.add_request\<close>: the id of the request is used up whether the rest succeeds or not.\<close>

definition add_request ::
  "('u \<Rightarrow> string \<Rightarrow> string) \<Rightarrow> (json \<Rightarrow> py_error + 'code) \<Rightarrow> int \<Rightarrow> session_ref \<Rightarrow> (string, json) dict \<Rightarrow> bool \<Rightarrow>
   ('u, 'code, 'tok) serve_core \<Rightarrow> (int \<times> param_info list, ('u, 'code, 'tok) serve_core) pyo" where
  "add_request uuid3 deserialize now r payload native s =
    (let rid = request_id_counter (session_at s r);
         s = on_session r (\<lambda>x. x\<lparr>request_id_counter := rid + 1\<rparr>) s
     in pyo_bind (if native then add_py_native_request uuid3 deserialize r rid payload s
                  else add_semantic_request uuid3 now r rid payload s)
          (\<lambda>info s. Some (py_return (rid, info) s)))"

section \<open>Sessions\<close>

definition register_session_resources :: "'u \<Rightarrow> int \<Rightarrow> ('u, 'code, 'tok) serve_core \<Rightarrow>
    (unit, ('u, 'code, 'tok) serve_core) py" where
  "register_session_resources u sid s =
    py_bind (in_contexts (\<lambda>c. py_return () (register_session_contexts sid c)) s) (\<lambda>_ s.
      py_lift (\<lambda>m. s\<lparr>var_mgr := m\<rparr>) (register_local_var_space u sid (var_mgr s)))"

definition free_session_resources :: "net \<Rightarrow> int \<Rightarrow> ('u, 'code, 'tok) serve_core \<Rightarrow> (unit, ('u, 'code, 'tok) serve_core) py" where
  "free_session_resources net sid s =
    py_bind (in_contexts (free_session_contexts (core_store s) net sid) s) (\<lambda>_ s.
      py_lift (\<lambda>m. s\<lparr>var_mgr := m\<rparr>) (free_local_var_space sid (var_mgr s)))"

definition drop_session :: "net \<Rightarrow> int \<Rightarrow> ('u, 'code, 'tok) serve_core \<Rightarrow> (unit, ('u, 'code, 'tok) serve_core) py" where
  "drop_session net sid s =
    py_bind (dict_get (sessions s) sid s) (\<lambda>r s.
    let s = s\<lparr>sessions := dict_pop sid (sessions s)\<rparr> in
    py_bind (dict_get (session_last_access_time s) sid s) (\<lambda>_ s.
    let s = s\<lparr>session_last_access_time := dict_pop sid (session_last_access_time s)\<rparr> in
    py_bind (free_session_resources net (sess_id (session_at s r)) s) (\<lambda>_ s.
      py_lift (\<lambda>p. s\<lparr>session_id_pool := p\<rparr>) (pool_free sid (session_id_pool s)))))"

definition register_session :: "'u \<Rightarrow> int \<Rightarrow> ('u, 'code, 'tok) serve_core \<Rightarrow> (int, ('u, 'code, 'tok) serve_core) py" where
  "register_session u now s =
    py_bind (py_lift (\<lambda>p. s\<lparr>session_id_pool := p\<rparr>) (pool_allocate (session_id_pool s))) (\<lambda>sid s.
    py_bind (register_session_resources u sid s) (\<lambda>_ s.
      py_return sid
        (s\<lparr>session_objs := session_objs s @ [new_session sid (session_life_span s)],
           sessions := dict_set sid (length (session_objs s)) (sessions s),
           session_last_access_time := dict_set sid now (session_last_access_time s)\<rparr>)))"

text \<open>
  The session id of a payload is a JSON value that the sources use as a key: an integer, a Boolean or
  an integral float may be equal to one, a list or a dictionary cannot be hashed. \<open>None\<close> is a value
  that equals no integer.
\<close>

definition int_key :: "json \<Rightarrow> py_error + int option" where
  "int_key j =
    (case j of
       JInt n \<Rightarrow> Inr (Some n)
     | JBool b \<Rightarrow> Inr (Some (if b then 1 else 0))
     | JFloat x \<Rightarrow> Inr (if x = of_int \<lfloor>x\<rfloor> then Some \<lfloor>x\<rfloor> else None)
     | JNone \<Rightarrow> Inr None
     | JStr _ \<Rightarrow> Inr None
     | _ \<Rightarrow> Inl TypeError)"

definition remove_session :: "net \<Rightarrow> int \<Rightarrow> ('u, 'code, 'tok) serve_core \<Rightarrow> (unit, ('u, 'code, 'tok) serve_core) py" where
  "remove_session net sid s =
    py_bind (parrot_assert (dict_mem sid (sessions s)) s) (\<lambda>_ s. drop_session net sid s)"

definition get_session :: "int \<Rightarrow> ('u, 'code, 'tok) serve_core \<Rightarrow> (session_ref, ('u, 'code, 'tok) serve_core) py" where
  "get_session sid s =
    py_bind (parrot_assert (dict_mem sid (sessions s)) s) (\<lambda>_ s. dict_get (sessions s) sid s)"

definition session_access_update :: "int \<Rightarrow> int \<Rightarrow> ('u, 'code, 'tok) serve_core \<Rightarrow> (unit, ('u, 'code, 'tok) serve_core) py" where
  "session_access_update now sid s =
    py_bind (parrot_assert (dict_mem sid (sessions s)) s) (\<lambda>_ s.
      py_return () (s\<lparr>session_last_access_time := dict_set sid now (session_last_access_time s)\<rparr>))"

text \<open>\<^verbatim>\<open>check_session_status\<close>, which also turns the key of the payload into the id of the session.\<close>

definition check_session_status :: "json \<Rightarrow> ('u, 'code, 'tok) serve_core \<Rightarrow> (int, ('u, 'code, 'tok) serve_core) py" where
  "check_session_status key s =
    (case int_key key of
       Inl e \<Rightarrow> py_raise e s
     | Inr None \<Rightarrow> py_raise ParrotCoreUserError s
     | Inr (Some sid) \<Rightarrow>
         (case map_of (sessions s) sid of
            None \<Rightarrow> py_raise ParrotCoreUserError s
          | Some r \<Rightarrow>
              if sess_status (session_at s r) \<noteq> SESSION_RUNNING then py_raise ParrotCoreUserError s
              else py_return sid s))"

text \<open>The body of the loop of \<^verbatim>\<open>check_running_sessions\<close>; the log line reads \<^verbatim>\<open>bad_exception.args[0]\<close>.\<close>

definition check_session :: "int \<Rightarrow> int \<times> int \<Rightarrow> ('u, 'code, 'tok) serve_core \<Rightarrow> (unit, ('u, 'code, 'tok) serve_core) py" where
  "check_session now item s =
    py_bind (dict_get (sessions s) (fst item) s) (\<lambda>r s.
      if \<not> session_is_running (session_at s r) then py_return () s
      else if now - snd item > life_span (session_at s r) * 1000000000
      then py_return () (on_session r (\<lambda>x. x\<lparr>sess_status := SESSION_DEAD\<rparr>) s)
      else case executor_bad_exception (session_at s r) of
             None \<Rightarrow> py_return () s
           | Some (e, has_args) \<Rightarrow>
               (let s = on_session r (\<lambda>x. x\<lparr>sess_status := SESSION_BAD\<rparr>) s
                in if has_args then py_return () s else py_raise IndexError s))"

definition check_running_sessions :: "int \<Rightarrow> ('u, 'code, 'tok) serve_core \<Rightarrow> (unit, ('u, 'code, 'tok) serve_core) py" where
  "check_running_sessions now s = py_for (check_session now) (session_last_access_time s) s"

definition sweep_session :: "net \<Rightarrow> int \<times> session_ref \<Rightarrow> ('u, 'code, 'tok) serve_core \<Rightarrow> (unit, ('u, 'code, 'tok) serve_core) py" where
  "sweep_session net item s =
    (if \<not> session_is_running (session_at s (snd item)) then drop_session net (fst item) s else py_return () s)"

definition sweep_not_running_sessions :: "net \<Rightarrow> ('u, 'code, 'tok) serve_core \<Rightarrow> (unit, ('u, 'code, 'tok) serve_core) py" where
  "sweep_not_running_sessions net s = py_for (sweep_session net) (sessions s) s"

section \<open>The tables of the session manager\<close>

text \<open>
  What the tables promise: one entry per session in each of them, under the id that the session has, and an id
  that is not in use in the pool. The contexts of a session are never filled in by the sources, so the
  lists are empty and removing a session cannot fail.
\<close>

definition sessions_ok :: "('u, 'code, 'tok) serve_core \<Rightarrow> bool" where
  "sessions_ok s \<longleftrightarrow>
    dict_ok (sessions s) \<and> dict_ok (session_last_access_time s) \<and> distinct (map snd (sessions s)) \<and>
    fst ` set (session_last_access_time s) = fst ` set (sessions s) \<and>
    fst ` set (session_namespaces (var_mgr s)) = fst ` set (sessions s) \<and>
    (\<forall>sid refs. map_of (session_contexts (core_contexts s)) sid = Some refs \<longrightarrow> refs = []) \<and>
    pool_inv (session_id_pool s) (fst ` set (sessions s)) \<and> pool_size (session_id_pool s) = None \<and>
    (\<forall>e \<in> set (sessions s). snd e < length (session_objs s) \<and> sess_id (session_at s (snd e)) = fst e)"

lemma sessions_okD:
  assumes "sessions_ok s"
  shows "dict_ok (sessions s)" and "dict_ok (session_last_access_time s)" and "distinct (map snd (sessions s))"
    and "fst ` set (session_last_access_time s) = fst ` set (sessions s)"
    and "fst ` set (session_namespaces (var_mgr s)) = fst ` set (sessions s)"
    and "\<And>sid refs. map_of (session_contexts (core_contexts s)) sid = Some refs \<Longrightarrow> refs = []"
    and "pool_inv (session_id_pool s) (fst ` set (sessions s))" and "pool_size (session_id_pool s) = None"
    and "\<And>e. e \<in> set (sessions s) \<Longrightarrow> snd e < length (session_objs s) \<and> sess_id (session_at s (snd e)) = fst e"
  using assms unfolding sessions_ok_def by blast+

lemma unbounded_allocate:
  "pool_size p = None \<Longrightarrow> \<exists>i p'. pool_allocate p = (Inr i, p') \<and> pool_size p' = None"
  by (auto simp: pool_allocate_def Let_def split: list.splits)

lemma register_session_ok:
  assumes ok: "sessions_ok s"
  shows "\<exists>sid s'. register_session u now s = (Inr sid, s') \<and> sid \<notin> fst ` set (sessions s) \<and>
    sessions s' = sessions s @ [(sid, length (session_objs s))] \<and>
    session_objs s' = session_objs s @ [new_session sid (session_life_span s)] \<and>
    map_of (session_last_access_time s') sid = Some now \<and> sessions_ok s'"
proof -
  note d = sessions_okD [OF ok]
  obtain sid p where p: "pool_allocate (session_id_pool s) = (Inr sid, p)" "pool_size p = None"
    using unbounded_allocate [OF d(8)] by blast
  note new = pool_allocate_inv [OF d(7) p(1)]
  let ?r = "length (session_objs s)"
  let ?c = "\<lambda>m. m\<lparr>em_context_mgr := register_session_contexts sid (em_context_mgr m)\<rparr>"
  let ?s' = "s\<lparr>session_id_pool := p, global_sched := (global_sched s)\<lparr>gs_engine_mgr := ?c (core_engines s)\<rparr>,
    var_mgr := (var_mgr s)\<lparr>session_namespaces := dict_set sid (new_namespace u) (session_namespaces (var_mgr s))\<rparr>,
    session_objs := session_objs s @ [new_session sid (session_life_span s)], sessions := dict_set sid ?r (sessions s),
    session_last_access_time := dict_set sid now (session_last_access_time s)\<rparr>"
  have "sid \<notin> fst ` set (session_namespaces (var_mgr s))" using new(2) d(5) by simp
  then have run: "register_session u now s = (Inr sid, ?s')"
    by (simp add: register_session_def p(1) register_session_resources_def in_contexts_def in_engines_def register_local_var_space_def)
  have fresh: "sessions ?s' = sessions s @ [(sid, ?r)]" using dict_set_append [OF new(2)] by simp
  have "sessions_ok ?s'"
    unfolding sessions_ok_def fresh
  proof (intro conjI)
    show "\<forall>sid refs. map_of (session_contexts (core_contexts ?s')) sid = Some refs \<longrightarrow> refs = []"
      using d(6) by (auto simp: register_session_contexts_def)
    show "distinct (map snd (sessions s @ [(sid, ?r)]))" using d(3,9) by fastforce
    show "\<forall>e \<in> set (sessions s @ [(sid, ?r)]). snd e < length (session_objs ?s') \<and> sess_id (session_at ?s' (snd e)) = fst e"
      using d(9) by (fastforce simp: nth_append new_session_def intro: less_SucI)
  qed (use d new p(2) in \<open>simp_all add: dict_keys_set\<close>)
  with run fresh new(2) show ?thesis by auto
qed

text \<open>What the check does to a session object.\<close>

definition checked :: "int \<Rightarrow> int \<Rightarrow> 'code session \<Rightarrow> 'code session" where
  "checked now last_access x =
    (if \<not> session_is_running x then x
     else if now - last_access > life_span x * 1000000000 then x\<lparr>sess_status := SESSION_DEAD\<rparr>
     else if executor_bad_exception x \<noteq> None then x\<lparr>sess_status := SESSION_BAD\<rparr> else x)"

lemma check_session_ok:
  assumes "map_of (sessions s) sid = Some r" and "executor_bad_exception (session_at s r) \<noteq> Some (e, False)"
    and "\<And>e. executor_bad_exception (session_at s r) \<noteq> Some (e, False)"
  shows "check_session now (sid, t) s = (Inr (), on_session r (checked now t) s)"
  using assms by (auto simp: check_session_def checked_def on_session_def Let_def split: option.split)

lemma checked_keeps [simp]:
  "sess_id (checked now t x) = sess_id x" "executor_bad_exception (checked now t x) = executor_bad_exception x"
  by (simp_all add: checked_def)

lemma check_loop:
  assumes "distinct (map fst items)" and "\<forall>e \<in> set items. \<exists>r. map_of (sessions s) (fst e) = Some r"
    and "dict_ok (sessions s)" and "distinct (map snd (sessions s))"
    and "\<forall>e \<in> set (sessions s). snd e < length (session_objs s)"
    and "\<forall>x \<in> set (session_objs s). \<forall>e. executor_bad_exception x \<noteq> Some (e, False)"
  shows "\<exists>xs. py_for (check_session now) items s = (Inr (), s\<lparr>session_objs := xs\<rparr>) \<and> length xs = length (session_objs s) \<and>
    (\<forall>sid r. (sid, r) \<in> set (sessions s) \<longrightarrow>
       xs ! r = (case map_of items sid of None \<Rightarrow> session_at s r | Some t \<Rightarrow> checked now t (session_at s r)))"
  using assms
proof (induction items arbitrary: s)
  case Nil
  show ?case by (rule exI [of _ "session_objs s"]) simp
next
  case (Cons e items)
  obtain sid t where e: "e = (sid, t)" by (cases e)
  obtain r where r: "map_of (sessions s) sid = Some r" using Cons.prems(2) e by auto
  then have mem: "(sid, r) \<in> set (sessions s)" by (rule map_of_SomeD)
  then have lt: "r < length (session_objs s)" using Cons.prems(5) by fastforce
  let ?s = "on_session r (checked now t) s"
  have step: "check_session now e s = (Inr (), ?s)"
    using check_session_ok [OF r] Cons.prems(6) nth_mem [OF lt] e by blast
  have bad: "\<forall>x \<in> set (session_objs ?s). \<forall>e. executor_bad_exception x \<noteq> Some (e, False)"
    using Cons.prems(6) nth_mem [OF lt] set_update_subset_insert [of "session_objs s" r] by (fastforce simp: on_session_def)
  obtain xs where xs: "py_for (check_session now) items ?s = (Inr (), ?s\<lparr>session_objs := xs\<rparr>)" "length xs = length (session_objs s)"
      "\<forall>k q. (k, q) \<in> set (sessions s) \<longrightarrow>
         xs ! q = (case map_of items k of None \<Rightarrow> session_at ?s q | Some t \<Rightarrow> checked now t (session_at ?s q))"
    using Cons.IH [of ?s] Cons.prems bad by (auto simp: on_session_def)
  have "xs ! q = (case map_of (e # items) k of None \<Rightarrow> session_at s q | Some t \<Rightarrow> checked now t (session_at s q))"
    if kq: "(k, q) \<in> set (sessions s)" for k q
  proof (cases "k = sid")
    case True
    have q: "q = r" using Cons.prems(3) kq mem True eq_key_imp_eq_value by metis
    have "map_of items sid = None" using Cons.prems(1) e by (simp add: map_of_eq_None_iff)
    with xs(3) kq True q lt e show ?thesis by (auto simp: on_session_def)
  next
    case False
    have "q \<noteq> r" using Cons.prems(4) kq mem False by (metis distinct_map inj_on_contraD snd_conv fst_conv prod.inject)
    then have at: "session_at ?s q = session_at s q" by (simp add: on_session_def)
    have "xs ! q = (case map_of items k of None \<Rightarrow> session_at ?s q | Some t \<Rightarrow> checked now t (session_at ?s q))" using xs(3) kq by blast
    with False e at show ?thesis by (cases "map_of items k") simp_all
  qed
  with step xs(1,2) show ?case by (auto simp: on_session_def)
qed


lemma drop_session_ok:
  assumes ok: "sessions_ok s" and mem: "(sid, r) \<in> set (sessions s)"
  shows "\<exists>s'. drop_session net sid s = (Inr (), s') \<and> sessions s' = dict_pop sid (sessions s) \<and>
    session_objs s' = session_objs s \<and> sessions_ok s'"
proof -
  note d = sessions_okD [OF ok]
  have r: "map_of (sessions s) sid = Some r" using d(1) mem by simp
  have key: "sid \<in> fst ` set (sessions s)" using mem by force
  obtain p where p: "pool_free sid (session_id_pool s) = (Inr (), p)" "pool_inv p (fst ` set (sessions s) - {sid})"
    using pool_free_inv [OF d(7) key] by blast
  obtain t where t: "map_of (session_last_access_time s) sid = Some t" using key d(4) key_map_of_Some by metis
  have sid: "sess_id (session_at s r) = sid" using d(9) [OF mem] by simp
  let ?c = "em_context_mgr (core_engines s)"
  define c where "c = (if sid \<in> fst ` set (session_contexts ?c) then ?c\<lparr>session_contexts := dict_pop sid (session_contexts ?c)\<rparr> else ?c)"
  have free: "free_session_contexts E net sid ?c = (Inr (), c)" for E
  proof (cases "map_of (session_contexts ?c) sid")
    case None
    then have "sid \<notin> fst ` set (session_contexts ?c)" by (simp add: map_of_eq_None_iff)
    with None show ?thesis by (simp add: free_session_contexts_def c_def)
  next
    case (Some refs)
    with d(6) have "refs = []" by blast
    with Some map_of_Some_key [OF Some] show ?thesis by (simp add: free_session_contexts_def c_def)
  qed
  let ?s' = "s\<lparr>sessions := dict_pop sid (sessions s), session_last_access_time := dict_pop sid (session_last_access_time s),
    global_sched := (global_sched s)\<lparr>gs_engine_mgr := (core_engines s)\<lparr>em_context_mgr := c\<rparr>\<rparr>,
    var_mgr := (var_mgr s)\<lparr>session_namespaces := dict_pop sid (session_namespaces (var_mgr s))\<rparr>, session_id_pool := p\<rparr>"
  have "sid \<in> fst ` set (session_namespaces (var_mgr s))" using key d(5) by simp
  then have run: "drop_session net sid s = (Inr (), ?s')"
    by (simp add: drop_session_def r t sid free_session_resources_def in_contexts_def in_engines_def free free_local_var_space_def p(1))
  have refs: "refs = []" if "map_of (session_contexts c) k = Some refs" for k refs
    using that d(6) by (auto simp: c_def split: if_splits)
  have "pool_size p = None" using pool_free_size [OF p(1)] d(8) by simp
  moreover have "distinct (map snd (dict_pop sid (sessions s)))" using d(3) by (simp add: dict_pop_filter distinct_map_filter)
  ultimately have "sessions_ok ?s'"
    using d p(2) refs dict_pop_subset [of sid "sessions s"] by (auto simp: sessions_ok_def dict_keys_pop)
  with run show ?thesis by auto
qed

lemma sweep_loop:
  assumes "sessions_ok s" and "set items \<subseteq> set (sessions s)" and "dict_ok items"
  shows "\<exists>s'. py_for (sweep_session net) items s = (Inr (), s') \<and> session_objs s' = session_objs s \<and> sessions_ok s' \<and>
    sessions s' = filter (\<lambda>e. e \<notin> set items \<or> session_is_running (session_at s (snd e))) (sessions s)"
  using assms
proof (induction items arbitrary: s)
  case (Cons e items)
  obtain sid r where e: "e = (sid, r)" by (cases e)
  show ?case
  proof (cases "session_is_running (session_at s r)")
    case True
    then have "sweep_session net e s = (Inr (), s)" by (simp add: sweep_session_def e)
    with Cons.IH [of s] Cons.prems True e show ?thesis by (auto intro!: filter_cong)
  next
    case False
    have mem: "(sid, r) \<in> set (sessions s)" using Cons.prems(2) e by simp
    obtain s1 where s1: "drop_session net sid s = (Inr (), s1)" "sessions s1 = dict_pop sid (sessions s)"
        "session_objs s1 = session_objs s" "sessions_ok s1"
      using drop_session_ok [OF Cons.prems(1) mem] by blast
    have pop: "dict_pop sid (sessions s) = filter (\<lambda>x. x \<noteq> e) (sessions s)"
      unfolding dict_pop_filter
      by (rule filter_cong [OF refl]) (use mem e sessions_okD(1) [OF Cons.prems(1)] eq_key_imp_eq_value in fastforce)
    have sub: "set items \<subseteq> set (sessions s1)" 
    proof
      fix x
      assume x: "x \<in> set items"
      then have "fst x \<noteq> sid" using Cons.prems(3) e by force
      with x Cons.prems(2) s1(2) show "x \<in> set (sessions s1)" by (auto simp: dict_pop_filter)
    qed
    obtain s' where s': "py_for (sweep_session net) items s1 = (Inr (), s')" "session_objs s' = session_objs s1" "sessions_ok s'"
        "sessions s' = filter (\<lambda>e. e \<notin> set items \<or> session_is_running (session_at s1 (snd e))) (sessions s1)"
      using Cons.IH [OF s1(4) sub] Cons.prems(3) by auto
    have "sessions s' = filter (\<lambda>x. x \<notin> set (e # items) \<or> session_is_running (session_at s (snd x))) (sessions s)"
      unfolding s'(4) s1(2,3) pop filter_filter by (rule filter_cong) (use False e in auto)
    moreover have "sweep_session net e s = (Inr (), s1)" using False s1(1) e by (simp add: sweep_session_def)
    ultimately show ?thesis using s' s1(3) by auto
  qed
qed auto

definition survives :: "int \<Rightarrow> ('u, 'code, 'tok) serve_core \<Rightarrow> int \<times> session_ref \<Rightarrow> bool" where
  "survives now s e =
    (let x = session_at s (snd e)
     in session_is_running x \<and> now - the (map_of (session_last_access_time s) (fst e)) \<le> life_span x * 1000000000 \<and>
        executor_bad_exception x = None)"

text \<open>
  C17. One round of the serving loop over the sessions. When the tables agree and every exception that an
  executor has kept has arguments, the check and the sweep succeed, leave the tables in agreement and remove
  exactly the sessions that are not running, whose last access is longer ago than their life span, or
  whose graph executor has kept an exception; the others keep their place and their state.
\<close>

theorem session_round:
  assumes ok: "sessions_ok s" and bad: "\<forall>x \<in> set (session_objs s). \<forall>e. executor_bad_exception x \<noteq> Some (e, False)"
  shows "\<exists>s1 s2. check_running_sessions now s = (Inr (), s1) \<and> sweep_not_running_sessions net s1 = (Inr (), s2) \<and> sessions_ok s2 \<and>
    sessions s2 = filter (survives now s) (sessions s) \<and>
    (\<forall>e \<in> set (sessions s2). session_at s2 (snd e) = session_at s (snd e))"
proof -
  note d = sessions_okD [OF ok]
  have dom: "\<forall>e \<in> set (session_last_access_time s). \<exists>r. map_of (sessions s) (fst e) = Some r"
    using d(4) key_map_of_Some by (metis image_eqI)
  obtain xs where xs: "check_running_sessions now s = (Inr (), s\<lparr>session_objs := xs\<rparr>)" "length xs = length (session_objs s)"
      "\<And>sid r. (sid, r) \<in> set (sessions s) \<Longrightarrow> xs ! r =
         (case map_of (session_last_access_time s) sid of None \<Rightarrow> session_at s r | Some t \<Rightarrow> checked now t (session_at s r))"
    using check_loop [OF d(2) dom d(1,3) _ bad] d(9) unfolding check_running_sessions_def by blast
  let ?t = "\<lambda>e. the (map_of (session_last_access_time s) (fst e))"
  have at: "xs ! snd e = checked now (?t e) (session_at s (snd e))" if "e \<in> set (sessions s)" for e
  proof -
    have "fst e \<in> fst ` set (session_last_access_time s)" using that d(4) by simp
    then obtain t where "map_of (session_last_access_time s) (fst e) = Some t" using key_map_of_Some by metis
    with xs(3) [of "fst e" "snd e"] that show ?thesis by simp
  qed
  let ?s1 = "s\<lparr>session_objs := xs\<rparr>"
  have ok1: "sessions_ok ?s1" using d xs(2) at by (simp add: sessions_ok_def)
  obtain s2 where s2: "sweep_not_running_sessions net ?s1 = (Inr (), s2)" "session_objs s2 = xs" "sessions_ok s2"
      "sessions s2 = filter (\<lambda>e. e \<notin> set (sessions s) \<or> session_is_running (xs ! snd e)) (sessions s)"
    using sweep_loop [OF ok1, of "sessions s" net] d(1) by (auto simp: sweep_not_running_sessions_def)
  have run: "session_is_running (xs ! snd e) \<longleftrightarrow> survives now s e" if "e \<in> set (sessions s)" for e
    using at [OF that] by (cases "executor_bad_exception (session_at s (snd e))") (auto simp: survives_def checked_def session_is_running_def Let_def)
  have "sessions s2 = filter (survives now s) (sessions s)"
    unfolding s2(4) by (rule filter_cong) (use run in auto)
  moreover have "session_at s2 (snd e) = session_at s (snd e)" if "e \<in> set (sessions s2)" for e
  proof -
    have "e \<in> set (sessions s)" "survives now s e" using that calculation by auto
    with at [of e] s2(2) show ?thesis by (simp add: survives_def checked_def Let_def)
  qed
  ultimately show ?thesis using xs(1) s2(1,3) by blast
qed


text \<open>A core with two sessions, the first of which has been silent for longer than its life span.\<close>

abbreviation demo_no_session :: "(unit, unit, unit) serve_core" where
  "demo_no_session \<equiv>
    \<lparr>core_heap = \<lparr>heap_svs = [], heap_nodes = [], heap_chains = [], heap_requests = [], heap_groups = []\<rparr>,
     var_mgr = new_variable_manager () 10, global_sched = new_global_scheduler default_scheduler_config demo_em,
     task_id_pool = new_pool None False, session_objs = [], sessions = [], session_id_pool = new_pool None False,
     session_last_access_time = [], session_life_span = 600, coroutines = [], task_chains = [], posts = [], core_down = False\<rparr>"

abbreviation demo_sessions :: "(unit, unit, unit) serve_core" where
  "demo_sessions \<equiv> snd (register_session () 400000000000 (snd (register_session () 0 demo_no_session)))"

lemma demo_sessions_ok: "sessions_ok demo_sessions"
proof -
  have ok: "sessions_ok demo_no_session"
    by (simp add: sessions_ok_def new_variable_manager_def new_global_scheduler_def new_engine_manager_def new_context_manager_def)
       (simp add: new_pool_def)
  have "sessions_ok (snd (register_session () 0 demo_no_session))" using register_session_ok [OF ok, of "()" 0] by auto
  from register_session_ok [OF this, of "()" 400000000000] show ?thesis by auto
qed

theorem session_round_witness:
  "sessions demo_sessions = [(0, 0), (1, 1)] \<and>
    (\<exists>s1 s2. check_running_sessions 700000000000 demo_sessions = (Inr (), s1) \<and>
       sweep_not_running_sessions (\<lambda>_ _. True) s1 = (Inr (), s2) \<and> sessions s2 = [(1, 1)])"
proof -
  have "map executor_bad_exception (session_objs demo_sessions) = [None, None]" by code_simp
  then have "set (map executor_bad_exception (session_objs demo_sessions)) = {None}" by simp
  then have bad: "\<forall>x \<in> set (session_objs demo_sessions). \<forall>e. executor_bad_exception x \<noteq> Some (e, False)" by force
  have "filter (survives 700000000000 demo_sessions) (sessions demo_sessions) = [(1, 1)]" by code_simp
  with session_round [OF demo_sessions_ok bad, of 700000000000 "\<lambda>_ _. True"]
  have "\<exists>s1 s2. check_running_sessions 700000000000 demo_sessions = (Inr (), s1) \<and>
       sweep_not_running_sessions (\<lambda>_ _. True) s1 = (Inr (), s2) \<and> sessions s2 = [(1, 1)]" by metis
  moreover have "sessions demo_sessions = [(0, 0), (1, 1)]" by code_simp
  ultimately show ?thesis by blast
qed

text \<open>
  C21. The tables of the session manager stay in agreement. Registering a session always succeeds and gives it an id that
  no other session has; removing any registered session succeeds and takes it out of every
  table, and an access of a session keeps the tables.
\<close>

theorem session_tables_agree:
  assumes "sessions_ok s"
  shows "(\<exists>sid s'. register_session u now s = (Inr sid, s') \<and> sid \<notin> fst ` set (sessions s) \<and> sid \<in> fst ` set (sessions s') \<and> sessions_ok s') \<and>
    (\<forall>sid \<in> fst ` set (sessions s). (\<exists>s'. remove_session net sid s = (Inr (), s') \<and> sessions s' = dict_pop sid (sessions s) \<and> sessions_ok s') \<and>
       (\<exists>s'. session_access_update now sid s = (Inr (), s') \<and> sessions s' = sessions s \<and> sessions_ok s'))"
proof (intro conjI ballI)
  show "\<exists>sid s'. register_session u now s = (Inr sid, s') \<and> sid \<notin> fst ` set (sessions s) \<and> sid \<in> fst ` set (sessions s') \<and> sessions_ok s'"
    using register_session_ok [OF assms, of u now] by fastforce
next
  fix sid
  assume sid: "sid \<in> fst ` set (sessions s)"
  then obtain r where "(sid, r) \<in> set (sessions s)" by auto
  from drop_session_ok [OF assms this, of net] sid
  show "\<exists>s'. remove_session net sid s = (Inr (), s') \<and> sessions s' = dict_pop sid (sessions s) \<and> sessions_ok s'"
    by (auto simp: remove_session_def)
  show "\<exists>s'. session_access_update now sid s = (Inr (), s') \<and> sessions s' = sessions s \<and> sessions_ok s'"
    using sid sessions_okD [OF assms] by (auto simp: session_access_update_def sessions_ok_def dict_keys_set insert_absorb)
qed

theorem session_tables_agree_witness:
  "\<exists>s'. remove_session (\<lambda>_ _. True) 0 demo_sessions = (Inr (), s') \<and> sessions s' = [(1, 1)]"
proof -
  have s: "sessions demo_sessions = [(0, 0), (1, 1)]" by code_simp
  then have "(0::int) \<in> fst ` set (sessions demo_sessions)" by simp
  with session_tables_agree [OF demo_sessions_ok] s show ?thesis by fastforce
qed

end
