(* ===== verification/Graph_Executor.thy ===== *)
theory Graph_Executor
  imports Session_Manager
begin

text \<open>
  \<^verbatim>\<open>serve/session/graph_executor.py\<close> and \<^verbatim>\<open>serve/session/native_executor.py\<close>: the coroutines that
  execute the completion chains and the native functions of a session. A step of a coroutine is its run from
  the await it is suspended at to the next one; other coroutines and the serving loop run
  in between. What an engine answers to a post and what a native function computes are inputs of the
  steps. An exception that leaves a coroutine quits the process (\<^verbatim>\<open>create_task_in_loop\<close> with
  \<^verbatim>\<open>fail_fast\<close>). The theorems say who is allowed to make a context ready, what happens to the tasks that wait
  for a context whose filling failed, and which requests bring the process down.
\<close>

section \<open>The environment\<close>

text \<open>
  \<open>env_run\<close> is a call of a native function on its keyword arguments and the names of its outputs: the
  exception or the contents that the function has set. \<open>env_eos\<close> is the end-of-sequence token.
\<close>

record ('u, 'code, 'tok) environment =
  env_uuid3 :: "'u \<Rightarrow> string \<Rightarrow> string"
  env_deserialize :: "json \<Rightarrow> py_error + 'code"
  env_lib :: "'tok tokenizer_lib"
  env_eos :: "'tok \<Rightarrow> int"
  env_net :: net
  env_run :: "'code \<Rightarrow> (json, json) dict \<Rightarrow> json list \<Rightarrow> kept_exception + (json \<Rightarrow> json)"

text \<open>What comes back for a post: the token ids and the text of the response, or the exception of the HTTP call.\<close>

datatype response = Answered "int list" string | Failed kept_exception

section \<open>What a task sees of its chain\<close>

text \<open>The variables of a chain are assigned before its task is created.\<close>

definition node_view :: "'code graph_heap \<Rightarrow> 'code graph_node \<Rightarrow> chain_node" where
  "node_view h n =
    \<lparr>node_var_id = node_sv_id h n, node_is_gen = is_gen n,
     node_is_constant_prefix = (case node_sv n of None \<Rightarrow> False | Some v \<Rightarrow> is_constant_prefix (sv_at h v)),
     node_content = (case node_sv n of
         None \<Rightarrow> None
       | Some v \<Rightarrow> if sv_is_ready (sv_at h v) then (case content (sv_at h v) of JStr t \<Rightarrow> Some t | _ \<Rightarrow> None) else None)\<rparr>"

definition gen_view :: "'code graph_heap \<Rightarrow> 'code graph_node \<Rightarrow> gen_node_view" where
  "gen_view h n =
    \<lparr>gen_sampling_config = Option.bind (placeholder_param n) param_sampling_config,
     gen_criteria = (case node_sv n of None \<Rightarrow> None | Some v \<Rightarrow> if sv_is_activated (sv_at h v) then criteria (sv_at h v) else None),
     gen_depth = (case node_sv n of None \<Rightarrow> 0 | Some v \<Rightarrow> depth (sv_at h v))\<rparr>"

definition chain_view :: "'code graph_heap \<Rightarrow> chain_ref \<Rightarrow> comp_chain option" where
  "chain_view h c =
    (let ch = chain_at h c; rq = request_at h (chain_request ch)
     in Option.bind (completion_iter (heap_nodes h) (chain_first_node ch)) (\<lambda>ns.
        Option.bind (fill_iter (heap_nodes h) (chain_first_node ch)) (\<lambda>(fs, stop).
          Some \<lparr>chain_session_id = chain_sess_id rq, chain_request_id = chain_req_id rq,
                sv_created = (node_sv (node_at h (first_node rq)) \<noteq> None),
                chain_iter = map (\<lambda>n. node_view h (node_at h n)) ns,
                chain_iter_fill = map (\<lambda>n. node_view h (node_at h n)) fs,
                chain_metadata = chain_meta rq, chain_groups = chain_group_list ch,
                first_sv = (case Option.bind (chain_first_node ch) (\<lambda>f. node_sv (node_at h f)) of None \<Rightarrow> 0 | Some v \<Rightarrow> v),
                gen_node = Some (gen_view h (node_at h (chain_gen_node ch)))\<rparr>)))"

section \<open>The state of the execution\<close>

abbreviation core_task :: "('u, 'code, 'tok) serve_core \<Rightarrow> task_ref \<Rightarrow> completion_task" where
  "core_task s t \<equiv> gs_tasks (global_sched s) ! t"

abbreviation core_ctx :: "('u, 'code, 'tok) serve_core \<Rightarrow> context_ref \<Rightarrow> ctx" where
  "core_ctx s c \<equiv> ctx_heap (core_contexts s) ! c"

definition on_task :: "task_ref \<Rightarrow> (completion_task \<Rightarrow> completion_task) \<Rightarrow> ('u, 'code, 'tok) serve_core \<Rightarrow> ('u, 'code, 'tok) serve_core" where
  "on_task t f s =
    s\<lparr>global_sched := (global_sched s)\<lparr>gs_tasks := (gs_tasks (global_sched s))[t := f (core_task s t)]\<rparr>\<rparr>"

definition put_contexts :: "context_manager \<Rightarrow> ('u, 'code, 'tok) serve_core \<Rightarrow> ('u, 'code, 'tok) serve_core" where
  "put_contexts cm s =
    s\<lparr>global_sched := (global_sched s)\<lparr>gs_engine_mgr := (core_engines s)\<lparr>em_context_mgr := cm\<rparr>\<rparr>\<rparr>"

definition on_ctx :: "context_ref \<Rightarrow> (ctx \<Rightarrow> ctx) \<Rightarrow> ('u, 'code, 'tok) serve_core \<Rightarrow> ('u, 'code, 'tok) serve_core" where
  "on_ctx c f s =
    put_contexts ((core_contexts s)\<lparr>ctx_heap := (ctx_heap (core_contexts s))[c := f (core_ctx s c)]\<rparr>) s"

definition start_ctx :: "context_ref \<Rightarrow> ('u, 'code, 'tok) serve_core \<Rightarrow> ('u, 'code, 'tok) serve_core" where
  "start_ctx c s = on_ctx c (start_event_update (\<lambda>_. True)) s"

definition ready_ctx :: "context_ref \<Rightarrow> ('u, 'code, 'tok) serve_core \<Rightarrow> ('u, 'code, 'tok) serve_core" where
  "ready_ctx c s = on_ctx c (ctx.ready_event_update (\<lambda>_. True)) s"

text \<open>\<^verbatim>\<open>exception_interrupt\<close>\<close>

definition exception_interrupt :: "session_ref \<Rightarrow> kept_exception \<Rightarrow> ('u, 'code, 'tok) serve_core \<Rightarrow> ('u, 'code, 'tok) serve_core" where
  "exception_interrupt r e s = on_session r (\<lambda>x. x\<lparr>executor_bad_exception := Some e\<rparr>) s"

section \<open>Executing a task\<close>

text \<open>
  The primitive of a Gen node. With a token-id engine the end-of-sequence token is appended to the stop tokens of
  the node's own sampling configuration.
\<close>

definition generate_primitive ::
  "session_ref \<Rightarrow> task_ref \<Rightarrow> node_ref \<Rightarrow> context_ref \<Rightarrow> task_locals \<Rightarrow> ('u, 'code, 'tok) serve_core \<Rightarrow>
   (sent_primitive, ('u, 'code, 'tok) serve_core) py" where
  "generate_primitive r t n c loc s =
    (let prim = (\<lambda>sc s. GenerateWith (sess_id (session_at s r)) (task_id (core_task s t)) (context_id (core_ctx s c))
                  (parent_context_id (ctx_heap (core_contexts s)) (core_ctx s c)) sc)
     in case placeholder_param (node_at (core_heap s) n) of
          None \<Rightarrow> py_raise AttributeError s
        | Some param \<Rightarrow>
           (case param_sampling_config param of
              None \<Rightarrow> py_raise AttributeError s
            | Some sc \<Rightarrow>
               (case loc of
                  None \<Rightarrow> py_return (prim sc s) s
                | Some (name, eos) \<Rightarrow>
                    if py_truth (ignore_tokenizer_eos sc) then py_return (prim sc s) s
                    else (case stop_token_ids sc of
                            JList ids \<Rightarrow>
                              (let sc = sc\<lparr>stop_token_ids := JList (ids @ [JInt eos])\<rparr>;
                                   s = s\<lparr>core_heap := on_node n (\<lambda>x. x\<lparr>node_kind :=
                                         PlaceholderGen (param\<lparr>param_sampling_config := Some sc\<rparr>)\<rparr>) (core_heap s)\<rparr>
                               in py_return (prim sc s) s)
                          | _ \<Rightarrow> py_raise AttributeError s))))"

text \<open>Log lines evaluate \<^verbatim>\<open>len\<close> of a text.\<close>

definition has_len :: "json \<Rightarrow> bool" where
  "has_len j = (case j of JStr _ \<Rightarrow> True | JList _ \<Rightarrow> True | JDict _ \<Rightarrow> True | _ \<Rightarrow> False)"

text \<open>
  Fused fills: the tokens of the nodes behind that have the same context are added, as long as another context
  comes behind them (\<^verbatim>\<open>j < len(contexts) - 1\<close>).
\<close>

fun fuse_tokens :: "(context_ref \<Rightarrow> int) \<Rightarrow> int \<Rightarrow> context_ref list \<Rightarrow> int list list \<Rightarrow> int list \<Rightarrow> py_error + int list" where
  "fuse_tokens ids cid (c # c' # cs) (ts # tss) acc =
    (if ids c = cid then fuse_tokens ids cid (c' # cs) tss (acc @ ts) else Inr acc)"
| "fuse_tokens ids cid (c # c' # cs) [] acc = (if ids c = cid then Inl IndexError else Inr acc)"
| "fuse_tokens ids cid _ _ acc = Inr acc"

definition fill_primitive ::
  "session_ref \<Rightarrow> task_ref \<Rightarrow> node_ref \<Rightarrow> nat \<Rightarrow> context_ref \<Rightarrow> task_locals \<Rightarrow> ('u, 'code, 'tok) serve_core \<Rightarrow>
   (sent_primitive, ('u, 'code, 'tok) serve_core) py" where
  "fill_primitive r t n i c loc s =
    (let sid = sess_id (session_at s r); tid = task_id (core_task s t); cid = context_id (core_ctx s c);
         pid = parent_context_id (ctx_heap (core_contexts s)) (core_ctx s c)
     in case loc of
          Some (name, eos) \<Rightarrow>
            (case tokenized_result (core_task s t) of
               None \<Rightarrow> py_raise TypeError s
             | Some res \<Rightarrow>
                py_bind (dict_get res name s) (\<lambda>tss s.
                  if length tss \<le> i then py_raise IndexError s
                  else case fuse_tokens (\<lambda>c. context_id (core_ctx s c)) cid (drop (Suc i) (contexts (core_task s t)))
                              (drop (Suc i) tss) (tss ! i) of
                         Inl e \<Rightarrow> py_raise e s
                       | Inr ids \<Rightarrow> py_return (FillTokens sid tid cid pid ids) s))
        | None \<Rightarrow>
            py_bind (py_lift (\<lambda>h. s\<lparr>core_heap := h\<rparr>) (node_get (node_at (core_heap s) n) (core_heap s))) (\<lambda>x s.
              if has_len x then py_return (FillText sid tid cid pid x) s else py_raise TypeError s))"

text \<open>The \<^verbatim>\<open>except\<close> branch of the loop: the engine, which may be gone, and the session are marked.\<close>

definition fail_node ::
  "session_ref \<Rightarrow> task_ref \<Rightarrow> context_ref \<Rightarrow> kept_exception \<Rightarrow> ('u, 'code, 'tok) serve_core \<Rightarrow>
   (unit, ('u, 'code, 'tok) serve_core) py" where
  "fail_node r t c e s =
    py_bind (in_engines (raise_exception (engine_id (core_store s (ctx_engine (core_ctx s c)))) (fst e)) s) (\<lambda>_ s.
      py_return () (on_task t (\<lambda>x. x\<lparr>task_status := ERROR\<rparr>) (exception_interrupt r e s)))"

text \<open>Behind the loop: \<^verbatim>\<open>free_task\<close> and \<^verbatim>\<open>free_task_contexts\<close>.\<close>

definition finish_chain :: "('u, 'code, 'tok) environment \<Rightarrow> task_ref \<Rightarrow> ('u, 'code, 'tok) serve_core \<Rightarrow>
    (chain_stage, ('u, 'code, 'tok) serve_core) py" where
  "finish_chain env t s =
    py_bind (py_lift (\<lambda>(p, es). s\<lparr>task_id_pool := p,
                 global_sched := (global_sched s)\<lparr>gs_engine_mgr := (core_engines s)\<lparr>engine_objs := es\<rparr>\<rparr>\<rparr>)
       (free_task (core_task s t) (task_id_pool s, engine_objs (core_engines s)))) (\<lambda>_ s.
    py_bind (in_contexts (free_task_contexts (core_store s) (env_net env) (core_task s t)) s) (\<lambda>_ s.
      py_return ChainDone s))"

text \<open>The loop from node \<open>i\<close> on, up to its next await.\<close>

fun execute_from ::
  "('u, 'code, 'tok) environment \<Rightarrow> session_ref \<Rightarrow> task_ref \<Rightarrow> task_locals \<Rightarrow> nat \<Rightarrow> node_ref list \<Rightarrow> ('u, 'code, 'tok) serve_core \<Rightarrow>
   (chain_stage, ('u, 'code, 'tok) serve_core) py" where
  "execute_from env r t loc i [] s = finish_chain env t s"
| "execute_from env r t loc i (n # ns) s =
    (if length (contexts (core_task s t)) \<le> i then py_raise IndexError s
     else let c = contexts (core_task s t) ! i in
       if ctx.ready_event (core_ctx s c) then execute_from env r t loc (Suc i) ns s
       else if start_event (core_ctx s c) then py_return (AwaitContext t i loc) s
       else case (if is_gen (node_at (core_heap s) n) then generate_primitive r t n c loc (start_ctx c s)
                  else fill_primitive r t n i c loc (start_ctx c s)) of
              (Inl e, s) \<Rightarrow> py_bind (fail_node r t c (e, True) s) (\<lambda>_ s. finish_chain env t s)
            | (Inr p, s) \<Rightarrow>
                py_return (AwaitResponse t i loc) (s\<lparr>posts := posts s @ [(engine_url (core_store s) (core_ctx s c), p)]\<rparr>))"

text \<open>The rest of the body once the response is there.\<close>

definition node_result :: "('u, 'code, 'tok) environment \<Rightarrow> node_ref \<Rightarrow> task_locals \<Rightarrow> int list \<Rightarrow> string \<Rightarrow> ('u, 'code, 'tok) serve_core \<Rightarrow>
    (unit, ('u, 'code, 'tok) serve_core) py" where
  "node_result env n loc ids txt s =
    (if \<not> is_gen (node_at (core_heap s) n) then py_return () s
     else py_bind (case loc of
              Some (name, eos) \<Rightarrow> py_lift (\<lambda>_. s) (detokenize (env_lib env) ids name (em_tokenizers (core_engines s)))
            | None \<Rightarrow> py_return txt s) (\<lambda>generated_text s.
          py_bind (get_node_sv (node_at (core_heap s) n) s) (\<lambda>v s.
            py_lift (\<lambda>h. s\<lparr>core_heap := h\<rparr>) (on_sv v (sv_set (JStr generated_text)) (core_heap s)))))"

definition on_response ::
  "('u, 'code, 'tok) environment \<Rightarrow> session_ref \<Rightarrow> task_ref \<Rightarrow> task_locals \<Rightarrow> nat \<Rightarrow> node_ref list \<Rightarrow> response \<Rightarrow> ('u, 'code, 'tok) serve_core \<Rightarrow>
   (chain_stage, ('u, 'code, 'tok) serve_core) py" where
  "on_response env r t loc i ns resp s =
    (let c = contexts (core_task s t) ! i
     in case ns of
          [] \<Rightarrow> finish_chain env t s
        | n # rest \<Rightarrow>
           (case resp of
              Failed e \<Rightarrow> py_bind (fail_node r t c e s) (\<lambda>_ s. finish_chain env t s)
            | Answered ids txt \<Rightarrow>
               (case node_result env n loc ids txt s of
                  (Inl e, s) \<Rightarrow> py_bind (fail_node r t c (e, True) s) (\<lambda>_ s. finish_chain env t s)
                | (Inr _, s) \<Rightarrow>
                    execute_from env r t loc (Suc i) rest
                      (on_task t (\<lambda>x. x\<lparr>task_status := FINISHED\<rparr>) (ready_ctx c s)))))"

text \<open>\<^verbatim>\<open>execute\<close> up to the loop: the locals that need the tokenizer.\<close>

definition execute_locals :: "('u, 'code, 'tok) environment \<Rightarrow> task_ref \<Rightarrow> ('u, 'code, 'tok) serve_core \<Rightarrow>
    (task_locals, ('u, 'code, 'tok) serve_core) py" where
  "execute_locals env t s =
    py_bind (parrot_assert (is_scheduled (core_task s t)) s) (\<lambda>_ s.
      let s = on_task t (\<lambda>x. x\<lparr>task_status := EXECUTING\<rparr>) s in
      case task_engine (core_task s t) of
        None \<Rightarrow> py_raise AttributeError s
      | Some e \<Rightarrow>
          (let eng = core_store s e in
           if engine_model_type eng = TOKEN_ID then
             py_bind (parrot_assert (is_tokenized (core_task s t)) s) (\<lambda>_ s.
             py_bind (engine_tokenizer_name eng s) (\<lambda>name s.
             py_bind (py_lift (\<lambda>_. s) (get_tokenizer name (em_tokenizers (core_engines s)))) (\<lambda>tok s.
               py_return (Some (name, env_eos env tok)) s)))
           else py_return None s))"

section \<open>The coroutine of a completion chain\<close>

definition chain_nodes_of :: "'code graph_heap \<Rightarrow> chain_ref \<Rightarrow> node_ref list option" where
  "chain_nodes_of h c = completion_iter (heap_nodes h) (chain_first_node (chain_at h c))"

text \<open>Exceptions up to the placement are kept in the session, and the coroutine ends.\<close>

definition scheduling_error :: "session_ref \<Rightarrow> py_error \<Rightarrow> ('u, 'code, 'tok) serve_core \<Rightarrow> (chain_stage, ('u, 'code, 'tok) serve_core) py" where
  "scheduling_error r e s = py_return ChainDone (exception_interrupt r (e, True) s)"

definition refresh_task :: "task_ref \<Rightarrow> comp_chain \<Rightarrow> ('u, 'code, 'tok) serve_core \<Rightarrow> ('u, 'code, 'tok) serve_core" where
  "refresh_task t ch s = on_task t (\<lambda>x. x\<lparr>chain := ch\<rparr>) s"

definition submit_chain :: "('u, 'code, 'tok) environment \<Rightarrow> session_ref \<Rightarrow> chain_ref \<Rightarrow> task_ref \<Rightarrow> ('u, 'code, 'tok) serve_core \<Rightarrow>
    (chain_stage, ('u, 'code, 'tok) serve_core) pyo" where
  "submit_chain env r c t s =
    Option.bind (chain_view (core_heap s) c) (\<lambda>ch.
      let s = refresh_task t ch s in
      case tokenize_chain (env_lib env) (em_tokenizers (core_engines s)) (core_task s t) of
        (Inl e, task) \<Rightarrow> Some (scheduling_error r e (on_task t (\<lambda>_. task) s))
      | (Inr _, task) \<Rightarrow>
          (case submit_task t (global_sched (on_task t (\<lambda>_. task) s)) of
             (Inl e, gs) \<Rightarrow> Some (scheduling_error r e (s\<lparr>global_sched := gs\<rparr>))
           | (Inr _, gs) \<Rightarrow> Some (py_return (AwaitScheduled t) (s\<lparr>global_sched := gs\<rparr>))))"

fun await_inputs ::
  "('u, 'code, 'tok) environment \<Rightarrow> session_ref \<Rightarrow> chain_ref \<Rightarrow> task_ref \<Rightarrow> node_ref list \<Rightarrow> py_error option \<Rightarrow> ('u, 'code, 'tok) serve_core \<Rightarrow>
   (chain_stage, ('u, 'code, 'tok) serve_core) pyo" where
  "await_inputs env r c t [] stop s =
    (case stop of Some e \<Rightarrow> Some (scheduling_error r e s) | None \<Rightarrow> submit_chain env r c t s)"
| "await_inputs env r c t (n # ns) stop s =
    (case semantic_wait_ready (node_at (core_heap s) n) (core_heap s) of
       (Inl e, _) \<Rightarrow> Some (scheduling_error r e s)
     | (Inr False, _) \<Rightarrow> Some (py_return (AwaitInputs t (n # ns) stop) s)
     | (Inr True, _) \<Rightarrow> await_inputs env r c t ns stop s)"

text \<open>Once the output is activated: the task is created.\<close>

definition create_chain_task ::
  "('u, 'code, 'tok) environment \<Rightarrow> session_ref \<Rightarrow> chain_ref \<Rightarrow> ('u, 'code, 'tok) serve_core \<Rightarrow>
   (chain_stage, ('u, 'code, 'tok) serve_core) pyo" where
  "create_chain_task env r c s =
    Option.bind (chain_view (core_heap s) c) (\<lambda>ch.
      case create_task ch (task_id_pool s) of
        (Inl e, p) \<Rightarrow> Some (scheduling_error r e (s\<lparr>task_id_pool := p\<rparr>))
      | (Inr task, p) \<Rightarrow>
          (let t = length (gs_tasks (global_sched s));
               s = s\<lparr>task_id_pool := p, task_chains := task_chains s @ [c],
                     global_sched := (global_sched s)\<lparr>gs_tasks := gs_tasks (global_sched s) @ [task]\<rparr>\<rparr>
           in Option.bind (fill_iter (heap_nodes (core_heap s)) (chain_first_node (chain_at (core_heap s) c))) (\<lambda>(fs, stop).
                await_inputs env r c t fs stop s)))"

definition begin_execution :: "('u, 'code, 'tok) environment \<Rightarrow> session_ref \<Rightarrow> chain_ref \<Rightarrow> task_ref \<Rightarrow> ('u, 'code, 'tok) serve_core \<Rightarrow>
    (chain_stage, ('u, 'code, 'tok) serve_core) pyo" where
  "begin_execution env r c t s =
    pyo_bind (Some (py_lift (\<lambda>(task, cm). put_contexts cm (on_task t (\<lambda>_. task) s))
       (set_task_contexts (core_store s) (core_task s t, core_contexts s)))) (\<lambda>_ s.
    pyo_bind (Some (execute_locals env t s)) (\<lambda>loc s.
      Option.bind (chain_nodes_of (core_heap s) c) (\<lambda>ns. Some (execute_from env r t loc 0 ns s))))"

text \<open>
  One step of \<^verbatim>\<open>_execute_coroutine\<close>. The response belongs to the post that the coroutine waits for; a coroutine that
  waits for something else ignores it.
\<close>

definition chain_step ::
  "('u, 'code, 'tok) environment \<Rightarrow> response option \<Rightarrow> session_ref \<Rightarrow> chain_ref \<Rightarrow> chain_stage \<Rightarrow> ('u, 'code, 'tok) serve_core \<Rightarrow>
   (chain_stage, ('u, 'code, 'tok) serve_core) pyo" where
  "chain_step env resp r c stage s =
    (case stage of
       AwaitActivated \<Rightarrow>
         (case get_node_sv (node_at (core_heap s) (chain_gen_node (chain_at (core_heap s) c))) s of
            (Inl e, s) \<Rightarrow> Some (scheduling_error r e s)
          | (Inr v, s) \<Rightarrow>
              if \<not> sv_is_activated (sv_at (core_heap s) v) then Some (py_return AwaitActivated s)
              else create_chain_task env r c s)
     | AwaitInputs t ns stop \<Rightarrow> await_inputs env r c t ns stop s
     | AwaitScheduled t \<Rightarrow>
         if \<not> is_scheduled (core_task s t) then Some (py_return (AwaitScheduled t) s)
         else begin_execution env r c t s
     | AwaitContext t i loc \<Rightarrow>
         if \<not> ctx.ready_event (core_ctx s (contexts (core_task s t) ! i)) then Some (py_return (AwaitContext t i loc) s)
         else Option.bind (chain_nodes_of (core_heap s) c) (\<lambda>ns. Some (execute_from env r t loc (Suc i) (drop (Suc i) ns) s))
     | AwaitResponse t i loc \<Rightarrow>
         (case resp of
            None \<Rightarrow> Some (py_return (AwaitResponse t i loc) s)
          | Some rsp \<Rightarrow> Option.bind (chain_nodes_of (core_heap s) c) (\<lambda>ns. Some (on_response env r t loc i (drop i ns) rsp s)))
     | ChainDone \<Rightarrow> Some (py_return ChainDone s))"

section \<open>The coroutine of a native function\<close>

text \<open>\<^verbatim>\<open>execute\<close>: the arguments, the call, and the contents of the outputs.\<close>

definition native_kwargs :: "'code graph_heap \<Rightarrow> 'code graph_node \<Rightarrow> ((json, json) dict, 'code graph_heap) py" where
  "native_kwargs h n =
    py_bind (foldl (\<lambda>acc (key, v). py_bind acc (\<lambda>d h. py_bind (parrot_assert (sv_is_ready (sv_at h v)) h) (\<lambda>_ h.
        py_bind (sv_get (sv_at h v) h) (\<lambda>x h. py_return (dict_set key x d) h)))) (py_return [] h) (input_vars n)) (\<lambda>d h.
      py_return (foldl (\<lambda>d (key, x). dict_set key x d) d (input_values n)) h)"

definition is_jstr :: "json \<Rightarrow> bool" where
  "is_jstr j = (case j of JStr _ \<Rightarrow> True | _ \<Rightarrow> False)"

text \<open>The call of a function on keyword arguments, whose names must be strings.\<close>

definition call_native :: "('u, 'code, 'tok) environment \<Rightarrow> 'code \<Rightarrow> (json, json) dict \<Rightarrow> json list \<Rightarrow> kept_exception + (json \<Rightarrow> json)" where
  "call_native env f kwargs outs =
    (if list_all is_jstr (map fst kwargs @ outs) then env_run env f kwargs outs else Inl (TypeError, True))"

definition write_outputs :: "(json \<Rightarrow> json) \<Rightarrow> (json, sv_ref) dict \<Rightarrow> 'code graph_heap \<Rightarrow> (unit, 'code graph_heap) py" where
  "write_outputs res outs h = py_for (\<lambda>(key, v) h. on_sv v (sv_set (res key)) h) outs h"

definition execute_native :: "('u, 'code, 'tok) environment \<Rightarrow> session_ref \<Rightarrow> node_ref \<Rightarrow> ('u, 'code, 'tok) serve_core \<Rightarrow>
    kept_exception option \<times> ('u, 'code, 'tok) serve_core" where
  "execute_native env r n s =
    (let nd = node_at (core_heap s) n; outs = map fst (output_vars nd) in
     case node_kind nd of
       NativeFuncNode rq \<Rightarrow>
         (case native_kwargs (core_heap s) nd of
            (Inl e, _) \<Rightarrow> (Some (e, True), s)
          | (Inr kwargs, _) \<Rightarrow>
             (case (case executable_func rq of
                      Some f \<Rightarrow>
                        (case call_native env f kwargs outs of
                           Inl e \<Rightarrow> (Inl e, s)
                         | Inr res \<Rightarrow>
                             if \<not> py_hashable (func_name rq) then (Inl (TypeError, True), s)
                             else (Inr res, on_session r (\<lambda>x. x\<lparr>func_cache := dict_set (func_name rq) f (func_cache x)\<rparr>) s))
                    | None \<Rightarrow>
                        if \<not> py_hashable (func_name rq) then (Inl (TypeError, True), s)
                        else (case map_of (func_cache (session_at s r)) (func_name rq) of
                                None \<Rightarrow> (Inl (ValueError, True), s)
                              | Some f \<Rightarrow> (call_native env f kwargs outs, s))) of
                (Inl e, s) \<Rightarrow> (Some e, s)
              | (Inr res, s) \<Rightarrow>
                  (case write_outputs res (output_vars nd) (core_heap s) of
                     (Inl e, h) \<Rightarrow> (Some (e, True), s\<lparr>core_heap := h\<rparr>)
                   | (Inr _, h) \<Rightarrow> (None, s\<lparr>core_heap := h\<rparr>))))
     | _ \<Rightarrow> (Some (AttributeError, True), s))"

text \<open>
  \<^verbatim>\<open>asyncio.wait_for\<close>: without a timeout, or with a positive one, the function runs to its end, since it never
  awaits; with another number it is cancelled before it starts.
\<close>

definition wait_for_runs :: "json \<Rightarrow> kept_exception option" where
  "wait_for_runs tmo =
    (case tmo of
       JNone \<Rightarrow> None
     | JInt k \<Rightarrow> if 0 < k then None else Some (TimeoutError, False)
     | JFloat x \<Rightarrow> if 0 < x then None else Some (TimeoutError, False)
     | JBool b \<Rightarrow> if b then None else Some (TimeoutError, False)
     | _ \<Rightarrow> Some (TypeError, True))"

definition run_native :: "('u, 'code, 'tok) environment \<Rightarrow> session_ref \<Rightarrow> node_ref \<Rightarrow> ('u, 'code, 'tok) serve_core \<Rightarrow> ('u, 'code, 'tok) serve_core" where
  "run_native env r n s =
    (case node_kind (node_at (core_heap s) n) of
       NativeFuncNode rq \<Rightarrow>
         (case (case wait_for_runs (timeout (native_metadata rq)) of
                  Some e \<Rightarrow> (Some e, s)
                | None \<Rightarrow> execute_native env r n s) of
            (None, s) \<Rightarrow> s
          | (Some e, s) \<Rightarrow> on_session r (\<lambda>x. x\<lparr>native_bad_exception := Some e\<rparr>) s)
     | _ \<Rightarrow> s)"

definition native_step :: "('u, 'code, 'tok) environment \<Rightarrow> session_ref \<Rightarrow> node_ref \<Rightarrow> native_stage \<Rightarrow> ('u, 'code, 'tok) serve_core \<Rightarrow>
    (native_stage, ('u, 'code, 'tok) serve_core) py" where
  "native_step env r n stage s =
    (let nd = node_at (core_heap s) n;
         await_inputs = (\<lambda>s. if fst (native_wait_ready nd (core_heap s)) = Inr True then py_return NativeDone (run_native env r n s)
                             else py_return NativeAwaitInputs s)
     in case stage of
          NativeAwaitActivated \<Rightarrow>
            (case native_wait_activated nd (core_heap s) of
               (Inl e, _) \<Rightarrow> py_raise e s
             | (Inr False, _) \<Rightarrow> py_return NativeAwaitActivated s
             | (Inr True, _) \<Rightarrow> await_inputs s)
        | NativeAwaitInputs \<Rightarrow> await_inputs s
        | NativeDone \<Rightarrow> py_return NativeDone s)"

section \<open>Steps of the coroutines\<close>

text \<open>The coroutine with number \<open>k\<close> takes a step; an exception that leaves it quits the process.\<close>

definition put_coroutine :: "nat \<Rightarrow> coroutine \<Rightarrow> ('u, 'code, 'tok) serve_core \<Rightarrow> ('u, 'code, 'tok) serve_core" where
  "put_coroutine k co s = s\<lparr>coroutines := (coroutines s)[k := co]\<rparr>"

definition coroutine_step :: "('u, 'code, 'tok) environment \<Rightarrow> response option \<Rightarrow> nat \<Rightarrow> ('u, 'code, 'tok) serve_core \<Rightarrow>
    ('u, 'code, 'tok) serve_core option" where
  "coroutine_step env resp k s =
    (case coroutines s ! k of
       ChainCoroutine r c stage \<Rightarrow>
         map_option (\<lambda>(res, s). case res of
             Inr stage' \<Rightarrow> put_coroutine k (ChainCoroutine r c stage') s
           | Inl e \<Rightarrow> (put_coroutine k (ChainCoroutine r c ChainDone) s)\<lparr>core_down := True\<rparr>) (chain_step env resp r c stage s)
     | NativeCoroutine r n stage \<Rightarrow>
         (case native_step env r n stage s of
            (Inr stage', s) \<Rightarrow> Some (put_coroutine k (NativeCoroutine r n stage') s)
          | (Inl e, s) \<Rightarrow> Some ((put_coroutine k (NativeCoroutine r n NativeDone) s)\<lparr>core_down := True\<rparr>)))"

end
