(* ===== verification/Graph_Growth.thy ===== *)
theory Graph_Growth
  imports Graph_Traversal Variable_Manager
begin

text \<open>
  How the requests of the sessions grow the graph. \<open>graph_wf\<close> says of a heap that the edges of its rows go
  forward, that a Gen node comes behind the fills of its completion chain, and that a variable a node writes
  is younger than the variables it depends on. Every operation that builds, fills or inserts a request
  keeps it, at the points where it raises too, and it makes the graph acyclic: the traversal has the rank it
  needs.
\<close>

section \<open>Edges and chains\<close>

definition edges_ok :: "'c graph_node list \<Rightarrow> bool" where
  "edges_ok nodes \<longleftrightarrow>
    (\<forall>n < length nodes. (\<forall>m. edge_a_next (nodes ! n) = Some m \<longrightarrow> n < m \<and> m < length nodes) \<and>
       (\<forall>m. edge_a_prev (nodes ! n) = Some m \<longrightarrow> m < n))"

text \<open>The fills of a chain that starts at \<open>f\<close> end at a Gen node, and come before the node \<open>p\<close>.\<close>

definition fills_before :: "'c graph_node list \<Rightarrow> node_ref \<Rightarrow> node_ref \<Rightarrow> bool" where
  "fills_before nodes f p \<longleftrightarrow> f \<le> p \<and> (\<exists>ns. fill_iter nodes (Some f) = Some (ns, None) \<and> (\<forall>m \<in> set ns. m < p))"

definition struct_wf :: "'c graph_heap \<Rightarrow> bool" where
  "struct_wf h \<longleftrightarrow>
    edges_ok (heap_nodes h) \<and>
    (\<forall>c < length (heap_chains h). \<exists>f < length (heap_nodes h). chain_first_node (chain_at h c) = Some f) \<and>
    (\<forall>n < length (heap_nodes h). \<forall>c. completion_chain_of (node_at h n) = Some c \<longrightarrow>
       c < length (heap_chains h) \<and>
       (is_gen (node_at h n) \<longrightarrow> fills_before (heap_nodes h) (the (chain_first_node (chain_at h c))) n))"

definition increasing :: "nat list \<Rightarrow> bool" where
  "increasing ns \<longleftrightarrow> sorted_wrt (<) ns"

lemma iter_None [simp]:
  "fill_iter nodes None = Some ([], Some AttributeError)" "completion_iter nodes None = Some []" "request_iter nodes None = Some []"
  by (subst fill_iter.simps completion_iter.simps request_iter.simps, simp)+

lemma fill_iter_Some:
  "fill_iter nodes (Some n) =
    (if is_gen (nodes ! n) then Some ([], None)
     else Option.bind (fill_iter nodes (edge_a_next (nodes ! n))) (\<lambda>(ns, e). Some (n # ns, e)))"
  by (subst fill_iter.simps) simp

lemma completion_iter_Some:
  "completion_iter nodes (Some n) =
    (if (case edge_a_prev (nodes ! n) of None \<Rightarrow> False | Some p \<Rightarrow> is_gen (nodes ! p)) then Some []
     else Option.bind (completion_iter nodes (edge_a_next (nodes ! n))) (\<lambda>ns. Some (n # ns)))"
  by (subst completion_iter.simps) simp

lemma request_iter_Some:
  "request_iter nodes (Some n) = Option.bind (request_iter nodes (edge_a_next (nodes ! n))) (\<lambda>ns. Some (n # ns))"
  by (subst request_iter.simps) simp

lemma edges_next: "edges_ok nodes \<Longrightarrow> n < length nodes \<Longrightarrow> edge_a_next (nodes ! n) = Some m \<Longrightarrow> n < m \<and> m < length nodes"
  unfolding edges_ok_def by blast

lemma edges_ok_cong:
  assumes "edges_ok nodes" and "length nodes' = length nodes"
    and "\<And>n. n < length nodes \<Longrightarrow> edge_a_next (nodes' ! n) = edge_a_next (nodes ! n) \<and> edge_a_prev (nodes' ! n) = edge_a_prev (nodes ! n)"
  shows "edges_ok nodes'"
  unfolding edges_ok_def assms(2)
proof (intro allI impI)
  fix n
  assume n: "n < length nodes"
  show "(\<forall>m. edge_a_next (nodes' ! n) = Some m \<longrightarrow> n < m \<and> m < length nodes) \<and> (\<forall>m. edge_a_prev (nodes' ! n) = Some m \<longrightarrow> m < n)"
    unfolding assms(3) [OF n, THEN conjunct1] assms(3) [OF n, THEN conjunct2] using assms(1) n unfolding edges_ok_def by blast
qed

lemma fill_iter_returns:
  assumes "edges_ok nodes" and "n < length nodes"
  shows "\<exists>ns e. fill_iter nodes (Some n) = Some (ns, e) \<and> set ns \<subseteq> {n..<length nodes}"
  using assms(2)
proof (induction "length nodes - n" arbitrary: n rule: less_induct)
  case less
  show ?case
  proof (cases "is_gen (nodes ! n) \<or> edge_a_next (nodes ! n) = None")
    case True
    with less.prems show ?thesis by (auto simp: fill_iter_Some [of nodes n])
  next
    case False
    then obtain m where m: "edge_a_next (nodes ! n) = Some m" by auto
    with assms(1) less.prems have "n < m" "m < length nodes" using edges_next by blast+
    moreover from this less.hyps [of m] obtain ns e where "fill_iter nodes (Some m) = Some (ns, e)" "set ns \<subseteq> {m..<length nodes}"
      by fastforce
    ultimately show ?thesis using False m less.prems
      by (auto simp: fill_iter_Some [of nodes n])
  qed
qed

lemma completion_iter_returns:
  assumes "edges_ok nodes" and "n < length nodes"
  shows "\<exists>ns. completion_iter nodes (Some n) = Some ns \<and> set ns \<subseteq> {n..<length nodes}"
  using assms(2)
proof (induction "length nodes - n" arbitrary: n rule: less_induct)
  case less
  show ?case
  proof (cases "edge_a_next (nodes ! n)")
    case None
    with less.prems show ?thesis
      by (auto simp: completion_iter_Some [of nodes n])
  next
    case (Some m)
    with assms(1) less.prems have m: "n < m" "m < length nodes" using edges_next by blast+
    with less.hyps [of m] obtain ns where "completion_iter nodes (Some m) = Some ns" "set ns \<subseteq> {m..<length nodes}" by fastforce
    with m Some less.prems show ?thesis by (auto simp: completion_iter_Some [of nodes n])
  qed
qed

lemma request_iter_returns:
  assumes "edges_ok nodes" and "n < length nodes"
  shows "\<exists>ns. request_iter nodes (Some n) = Some ns \<and> set ns \<subseteq> {n..<length nodes} \<and> increasing ns"
  using assms(2)
proof (induction "length nodes - n" arbitrary: n rule: less_induct)
  case less
  show ?case
  proof (cases "edge_a_next (nodes ! n)")
    case None
    with less.prems show ?thesis
      by (auto simp: increasing_def request_iter_Some [of nodes n])
  next
    case (Some m)
    with assms(1) less.prems have m: "n < m" "m < length nodes" using edges_next by blast+
    with less.hyps [of m] obtain ns where "request_iter nodes (Some m) = Some ns" "set ns \<subseteq> {m..<length nodes}" "increasing ns"
      by fastforce
    with m Some less.prems show ?thesis by (fastforce simp: increasing_def request_iter_Some [of nodes n])
  qed
qed

text \<open>A Gen node among the nodes of a completion chain ends the fills of the chain.\<close>

lemma completion_iter_gen:
  assumes "edges_ok nodes" and "n < length nodes" and "completion_iter nodes (Some n) = Some ns"
    and "p \<in> set ns" and "is_gen (nodes ! p)"
  shows "fills_before nodes n p"
  using assms(2-4)
proof (induction ns arbitrary: n)
  case (Cons a ns)
  have rest: "a = n" "completion_iter nodes (edge_a_next (nodes ! n)) = Some ns"
    using Cons.prems(2) by (auto simp: completion_iter_Some [of nodes n] bind_eq_Some_conv split: if_splits)
  show ?case
  proof (cases "p = n")
    case True
    with assms(5) show ?thesis by (simp add: fills_before_def fill_iter_Some [of nodes n])
  next
    case False
    with Cons.prems(3) rest have p: "p \<in> set ns" by simp
    then obtain m where m: "edge_a_next (nodes ! n) = Some m" using rest(2) by (cases "edge_a_next (nodes ! n)") auto
    with assms(1) Cons.prems(1) have lm: "n < m" "m < length nodes" using edges_next by blast+
    have fb: "fills_before nodes m p" using Cons.IH [OF lm(2)] rest(2) m p by simp
    show ?thesis
    proof (cases "is_gen (nodes ! n)")
      case True
      text \<open>The chain would have ended at \<open>n\<close>.\<close>
      with fb lm show ?thesis by (simp add: fills_before_def fill_iter_Some [of nodes n])
    next
      case ng: False
      with fb lm m show ?thesis by (auto simp: fills_before_def fill_iter_Some [of nodes n])
    qed
  qed
qed simp

text \<open>The fills of a chain stay when the nodes after them are extended.\<close>

lemma fill_iter_extend:
  assumes "fill_iter nodes (Some f) = Some (ns, None)" and "f < length nodes" and "edges_ok nodes"
    and "\<And>n. n < length nodes \<Longrightarrow> is_gen (nodes' ! n) = is_gen (nodes ! n)"
    and "\<And>n m. n < length nodes \<Longrightarrow> edge_a_next (nodes ! n) = Some m \<Longrightarrow> edge_a_next (nodes' ! n) = Some m"
  shows "fill_iter nodes' (Some f) = Some (ns, None)"
  using assms(1,2)
proof (induction ns arbitrary: f)
  case Nil
  then have "is_gen (nodes ! f)" by (auto simp: fill_iter_Some [of nodes f] bind_eq_Some_conv split: if_splits)
  with Nil assms(4) show ?case by (simp add: fill_iter_Some [of nodes' f])
next
  case (Cons a ns)
  then have r: "\<not> is_gen (nodes ! f)" "a = f" "fill_iter nodes (edge_a_next (nodes ! f)) = Some (ns, None)"
    by (auto simp: fill_iter_Some [of nodes f] bind_eq_Some_conv split: if_splits)
  then obtain m where m: "edge_a_next (nodes ! f) = Some m" by (cases "edge_a_next (nodes ! f)") auto
  have "m < length nodes" using edges_next [OF assms(3) Cons.prems(2) m] by simp
  with Cons.IH [of m] r m have "fill_iter nodes' (Some m) = Some (ns, None)" by simp
  with r m Cons.prems(2) assms(4,5) show ?case by (simp add: fill_iter_Some [of nodes' f])
qed

lemma fills_before_extend:
  assumes "fills_before nodes f p" and "f < length nodes" and "edges_ok nodes"
    and "\<And>n. n < length nodes \<Longrightarrow> is_gen (nodes' ! n) = is_gen (nodes ! n)"
    and "\<And>n m. n < length nodes \<Longrightarrow> edge_a_next (nodes ! n) = Some m \<Longrightarrow> edge_a_next (nodes' ! n) = Some m"
  shows "fills_before nodes' f p"
proof -
  obtain ns where "fill_iter nodes (Some f) = Some (ns, None)" "f \<le> p" "\<forall>m \<in> set ns. m < p"
    using assms(1) by (auto simp: fills_before_def)
  moreover from this(1) have "fill_iter nodes' (Some f) = Some (ns, None)" by (rule fill_iter_extend [OF _ assms(2-5)])
  ultimately show ?thesis unfolding fills_before_def by blast
qed


lemma struct_grow:
  fixes h h' :: "'c graph_heap"
  assumes wf: "struct_wf h" and len: "length (heap_nodes h) \<le> length (heap_nodes h')" and "heap_chains h' = heap_chains h"
    and edges: "edges_ok (heap_nodes h')"
    and old: "\<And>n. n < length (heap_nodes h) \<Longrightarrow> is_gen (node_at h' n) = is_gen (node_at h n) \<and>
      completion_chain_of (node_at h' n) = completion_chain_of (node_at h n) \<and>
      (\<forall>m. edge_a_next (node_at h n) = Some m \<longrightarrow> edge_a_next (node_at h' n) = Some m)"
    and new: "\<And>n. length (heap_nodes h) \<le> n \<Longrightarrow> n < length (heap_nodes h') \<Longrightarrow> completion_chain_of (node_at h' n) = None"
  shows "struct_wf h'"
  unfolding struct_wf_def assms(3)
proof (intro conjI allI impI)
  show "edges_ok (heap_nodes h')" by (rule edges)
next
  fix c
  assume "c < length (heap_chains h)"
  with wf len show "\<exists>f < length (heap_nodes h'). chain_first_node (chain_at h c) = Some f"
    unfolding struct_wf_def by (meson less_le_trans)
next
  fix n c
  assume n: "n < length (heap_nodes h')" and c: "completion_chain_of (node_at h' n) = Some c"
  then have n0: "n < length (heap_nodes h)" using new by (metis not_le option.distinct(1))
  with old c have c0: "completion_chain_of (node_at h n) = Some c" by metis
  then show lc: "c < length (heap_chains h)" using wf n0 by (simp add: struct_wf_def)
  assume g: "is_gen (node_at h' n)"
  obtain f where f: "f < length (heap_nodes h)" "chain_first_node (chain_at h c) = Some f" using wf lc by (auto simp: struct_wf_def)
  have "fills_before (heap_nodes h) f n" using wf n0 c0 g old f(2) by (fastforce simp: struct_wf_def)
  then have "fills_before (heap_nodes h') f n"
    by (rule fills_before_extend) (use f wf old in \<open>auto simp: struct_wf_def\<close>)
  then show "fills_before (heap_nodes h') (the (chain_first_node (chain_at h c))) n" using f by simp
qed

text \<open>Marking the nodes of a new completion chain.\<close>

lemma foldl_set_comp_chain:
  fixes h :: "'c graph_heap"
  assumes "set ns \<subseteq> {..<length (heap_nodes h)}"
  shows "heap_nodes (foldl (\<lambda>h n. on_node n (set_comp_chain c) h) h ns) =
      map (\<lambda>n. if n \<in> set ns then set_comp_chain c (node_at h n) else node_at h n) [0..<length (heap_nodes h)] \<and>
    heap_svs (foldl (\<lambda>h n. on_node n (set_comp_chain c) h) h ns) = heap_svs h \<and>
    heap_chains (foldl (\<lambda>h n. on_node n (set_comp_chain c) h) h ns) = heap_chains h \<and>
    heap_requests (foldl (\<lambda>h n. on_node n (set_comp_chain c) h) h ns) = heap_requests h"
  using assms
proof (induction ns arbitrary: h)
  case Nil
  then show ?case by (simp add: map_nth)
next
  case (Cons a ns)
  have len: "length (heap_nodes (on_node a (set_comp_chain c) h)) = length (heap_nodes h)" by (simp add: on_node_def)
  have "node_at (on_node a (set_comp_chain c) h) n = (if n = a then set_comp_chain c (node_at h n) else node_at h n)"
    if "n < length (heap_nodes h)" for n
    using that by (simp add: on_node_def nth_list_update)
  moreover have "heap_svs (on_node a (set_comp_chain c) h) = heap_svs h" "heap_chains (on_node a (set_comp_chain c) h) = heap_chains h"
    "heap_requests (on_node a (set_comp_chain c) h) = heap_requests h"
    by (simp_all add: on_node_def)
  moreover have "set_comp_chain c (set_comp_chain c x) = set_comp_chain c x" for x :: "'c graph_node" by (simp add: set_comp_chain_def)
  ultimately show ?case using Cons.IH [of "on_node a (set_comp_chain c) h"] Cons.prems len by auto
qed

text \<open>What the variables of the graph depend on is left alone.\<close>

definition same_vars :: "'c graph_heap \<Rightarrow> 'c graph_heap \<Rightarrow> bool" where
  "same_vars h h' \<longleftrightarrow>
    heap_svs h' = heap_svs h \<and> length (heap_nodes h') = length (heap_nodes h) \<and>
    (\<forall>n < length (heap_nodes h). node_kind (node_at h' n) = node_kind (node_at h n) \<and> node_sv (node_at h' n) = node_sv (node_at h n) \<and>
       input_vars (node_at h' n) = input_vars (node_at h n) \<and> output_vars (node_at h' n) = output_vars (node_at h n))"

lemma same_vars_refl [simp]: "same_vars h h"
  by (simp add: same_vars_def)

lemma new_completion_chain_wf:
  fixes h :: "'c graph_heap"
  assumes wf: "struct_wf h" and f: "f < length (heap_nodes h)"
  shows "pyo_ensures (\<lambda>r h'. r = Inr (length (heap_chains h)) \<and> (\<exists>x. heap_chains h' = heap_chains h @ [x] \<and> chain_gen_node x = g) \<and> struct_wf h' \<and> same_vars h h' \<and>
      heap_requests h' = heap_requests h \<and> map edge_a_prev (heap_nodes h') = map edge_a_prev (heap_nodes h))
    (new_completion_chain rq (Some f) g h)"
proof -
  have e: "edges_ok (heap_nodes h)" using wf by (simp add: struct_wf_def)
  obtain ns where ns: "completion_iter (heap_nodes h) (Some f) = Some ns" "set ns \<subseteq> {f..<length (heap_nodes h)}"
    using completion_iter_returns [OF e f] by blast
  let ?c = "length (heap_chains h)"
  define h1 where "h1 = h\<lparr>heap_chains := heap_chains h @
    [\<lparr>chain_request = rq, chain_first_node = Some f, chain_gen_node = g, chain_group_list = []\<rparr>]\<rparr>"
  define h2 where "h2 = foldl (\<lambda>h n. on_node n (set_comp_chain ?c) h) h1 ns"
  have op: "new_completion_chain rq (Some f) g h = Some (Inr ?c, h2)"
    by (simp add: new_completion_chain_def ns(1) Let_def h1_def h2_def py_return_def)
  have "set ns \<subseteq> {..<length (heap_nodes h1)}" using ns(2) by (auto simp: h1_def)
  note F = foldl_set_comp_chain [OF this, of ?c, folded h2_def]
  have svs: "heap_svs h2 = heap_svs h" "heap_chains h2 = heap_chains h1" "heap_requests h2 = heap_requests h"
    and len: "length (heap_nodes h2) = length (heap_nodes h)"
    using F by (simp_all add: h1_def)
  have nd: "node_at h2 n = (if n \<in> set ns then set_comp_chain ?c (node_at h n) else node_at h n)" if "n < length (heap_nodes h)" for n
    using F that by (simp add: h1_def)
  have gen: "is_gen (node_at h2 n) = is_gen (node_at h n)" "edge_a_next (node_at h2 n) = edge_a_next (node_at h n)"
    "edge_a_prev (node_at h2 n) = edge_a_prev (node_at h n)" if "n < length (heap_nodes h)" for n
    using nd [OF that] by (simp_all add: set_comp_chain_def is_gen_def)
  have same: "same_vars h h2" using nd svs len by (auto simp: same_vars_def set_comp_chain_def)
  have e2: "edges_ok (heap_nodes h2)" by (rule edges_ok_cong [OF e len]) (use gen in simp)
  have fb: "fills_before (heap_nodes h2) x n" if "fills_before (heap_nodes h) x n" "x < length (heap_nodes h)" for x n
    using that(1) by (rule fills_before_extend) (use that(2) e gen in auto)
  have chain: "chain_at h2 c = (if c = ?c then \<lparr>chain_request = rq, chain_first_node = Some f, chain_gen_node = g, chain_group_list = []\<rparr> else chain_at h c)"
    if "c < Suc ?c" for c using that by (simp add: svs h1_def nth_append)
  have lc: "length (heap_chains h2) = Suc ?c" by (simp add: svs h1_def)
  have "struct_wf h2"
    unfolding struct_wf_def len lc
  proof (intro conjI allI impI e2)
    fix c
    assume "c < Suc ?c"
    then show "\<exists>f < length (heap_nodes h). chain_first_node (chain_at h2 c) = Some f"
      using wf f chain by (auto simp: struct_wf_def)
  next
    fix n c
    assume n: "n < length (heap_nodes h)" and c: "completion_chain_of (node_at h2 n) = Some c"
    show "c < Suc ?c" using c nd [OF n] wf n by (auto simp: set_comp_chain_def struct_wf_def split: if_splits)
    assume g: "is_gen (node_at h2 n)"
    show "fills_before (heap_nodes h2) (the (chain_first_node (chain_at h2 c))) n"
    proof (cases "n \<in> set ns")
      case True
      then have "c = ?c" using c nd [OF n] by (simp add: set_comp_chain_def)
      moreover have "fills_before (heap_nodes h) f n" by (rule completion_iter_gen [OF e f ns(1) True]) (use g gen n in simp)
      ultimately show ?thesis using chain [of ?c] fb f by simp
    next
      case False
      then have c0: "completion_chain_of (node_at h n) = Some c" using c nd [OF n] by simp
      then have cl: "c < ?c" using wf n by (simp add: struct_wf_def)
      then obtain x where x: "x < length (heap_nodes h)" "chain_first_node (chain_at h c) = Some x" using wf by (auto simp: struct_wf_def)
      have "fills_before (heap_nodes h) x n" using wf n c0 g gen x by (fastforce simp: struct_wf_def)
      with fb x chain [of c] cl show ?thesis by simp
    qed
  qed
  moreover have "heap_chains h2 = heap_chains h @ [\<lparr>chain_request = rq, chain_first_node = Some f, chain_gen_node = g, chain_group_list = []\<rparr>]"
    by (simp add: svs h1_def)
  moreover have "map edge_a_prev (heap_nodes h2) = map edge_a_prev (heap_nodes h)"
    by (rule nth_equalityI) (simp_all add: len gen(3))
  ultimately show ?thesis using op same svs(3) by simp
qed

section \<open>The chain of a request\<close>

text \<open>\<open>h\<close> has the row of a request behind the nodes of \<open>h0\<close>, whose variables are not assigned yet.\<close>

definition adds_row :: "'c graph_heap \<Rightarrow> 'c graph_heap \<Rightarrow> bool" where
  "adds_row h0 h \<longleftrightarrow>
    heap_svs h = heap_svs h0 \<and> length (heap_nodes h0) \<le> length (heap_nodes h) \<and>
    length (heap_chains h0) \<le> length (heap_chains h) \<and>
    (\<forall>n < length (heap_nodes h0). node_kind (node_at h n) = node_kind (node_at h0 n) \<and> node_sv (node_at h n) = node_sv (node_at h0 n) \<and>
       input_vars (node_at h n) = input_vars (node_at h0 n) \<and> output_vars (node_at h n) = output_vars (node_at h0 n)) \<and>
    (\<forall>n < length (heap_nodes h). length (heap_nodes h0) \<le> n \<longrightarrow>
       node_sv (node_at h n) = None \<and> input_vars (node_at h n) = [] \<and> output_vars (node_at h n) = [])"

lemma adds_row_refl [simp]: "adds_row h h"
  by (simp add: adds_row_def)

lemma adds_row_same_vars: "adds_row h0 h \<Longrightarrow> same_vars h h' \<Longrightarrow> length (heap_chains h) \<le> length (heap_chains h') \<Longrightarrow> adds_row h0 h'"
  by (simp add: adds_row_def same_vars_def)

text \<open>A node behind the last one, linked to it when the request has one.\<close>

definition push_node :: "'c node_kind \<Rightarrow> node_ref option \<Rightarrow> 'c graph_heap \<Rightarrow> 'c graph_heap" where
  "push_node k prev h =
    (let (n, h) = alloc_node (new_semantic_node k) h
     in case prev of None \<Rightarrow> h | Some p \<Rightarrow> link_edge_a_with n p h)"

lemma push_node_nodes:
  assumes "\<forall>p. prev = Some p \<longrightarrow> p < length (heap_nodes h)"
  shows "length (heap_nodes (push_node k prev h)) = Suc (length (heap_nodes h))"
    and "n < length (heap_nodes h) \<Longrightarrow> node_at (push_node k prev h) n =
      (if prev = Some n then (node_at h n)\<lparr>edge_a_next := Some (length (heap_nodes h))\<rparr> else node_at h n)"
    and "node_at (push_node k prev h) (length (heap_nodes h)) = (new_semantic_node k)\<lparr>edge_a_prev := prev\<rparr>"
    and "heap_svs (push_node k prev h) = heap_svs h" "heap_chains (push_node k prev h) = heap_chains h"
      "heap_requests (push_node k prev h) = heap_requests h"
  using assms
  by (auto simp: push_node_def alloc_node_def link_edge_a_with_def on_node_def nth_append nth_list_update new_semantic_node_def
      split: option.splits)

lemma push_node_wf:
  fixes h :: "'c graph_heap"
  assumes wf: "struct_wf h" and prev: "prev = None \<or> prev = Some (length (heap_nodes h) - 1) \<and> heap_nodes h \<noteq> []"
  shows "struct_wf (push_node k prev h)"
proof -
  let ?L = "length (heap_nodes h)" and ?h = "push_node k prev h"
  have "\<forall>p. prev = Some p \<longrightarrow> p < ?L" using prev by auto
  note N = push_node_nodes [where prev = prev and h = h and k = k, OF this]
  have e: "edges_ok (heap_nodes h)" using wf by (simp add: struct_wf_def)
  have last: "edge_a_next (node_at h (?L - 1)) = None" if "heap_nodes h \<noteq> []"
    using edges_next [OF e, of "?L - 1"] that by (cases "edge_a_next (node_at h (?L - 1))") fastforce+
  have e2: "edges_ok (heap_nodes ?h)"
    unfolding edges_ok_def N(1)
  proof (intro allI impI conjI)
    fix n m
    assume n: "n < Suc ?L" and m: "edge_a_next (node_at ?h n) = Some m"
    have nl: "n < ?L" using n m N(3) by (cases "n = ?L") (simp_all add: new_semantic_node_def)
    have "(prev = Some n \<and> m = ?L) \<or> edge_a_next (node_at h n) = Some m"
      using m N(2) [OF nl] by (auto split: if_splits)
    with edges_next [OF e nl] nl show "n < m" "m < Suc ?L" by fastforce+
  next
    fix n m
    assume n: "n < Suc ?L" and m: "edge_a_prev (node_at ?h n) = Some m"
    show "m < n"
    proof (cases "n = ?L")
      case True
      with m N(3) prev show ?thesis by auto
    next
      case False
      with n have nl: "n < ?L" by simp
      then have "edge_a_prev (node_at h n) = Some m" using m N(2) by (simp split: if_splits)
      with e nl show ?thesis unfolding edges_ok_def by blast
    qed
  qed
  show ?thesis
  proof (rule struct_grow [OF wf _ N(5) e2])
    fix n
    assume n: "n < ?L"
    show "is_gen (node_at ?h n) = is_gen (node_at h n) \<and> completion_chain_of (node_at ?h n) = completion_chain_of (node_at h n) \<and>
        (\<forall>m. edge_a_next (node_at h n) = Some m \<longrightarrow> edge_a_next (node_at ?h n) = Some m)"
      using N(2) [OF n] last n prev by (auto simp: is_gen_def)
  next
    fix n
    assume "?L \<le> n" "n < length (heap_nodes ?h)"
    then show "completion_chain_of (node_at ?h n) = None" using N(1,3) by (simp add: less_Suc_eq new_semantic_node_def)
  qed (simp add: N(1))
qed

lemma push_node_row:
  assumes "adds_row h0 h" and "\<forall>p. prev = Some p \<longrightarrow> p < length (heap_nodes h)"
  shows "adds_row h0 (push_node k prev h)"
proof -
  note N = push_node_nodes [where prev = prev and h = h and k = k, OF assms(2)]
  have "node_sv (node_at (push_node k prev h) n) = None \<and> input_vars (node_at (push_node k prev h) n) = [] \<and> output_vars (node_at (push_node k prev h) n) = []"
    if "n < Suc (length (heap_nodes h))" "length (heap_nodes h0) \<le> n" for n
    using that assms(1) N(2) [of n] N(3) by (cases "n = length (heap_nodes h)") (auto simp: adds_row_def new_semantic_node_def)
  with assms(1) N(1,2,4,5) show ?thesis by (auto simp: adds_row_def)
qed

definition chain_exists :: "'c graph_heap \<Rightarrow> chain_ref \<Rightarrow> bool" where
  "chain_exists h c \<longleftrightarrow> c < length (heap_chains h) \<and> chain_gen_node (chain_at h c) < length (heap_nodes h)"

lemma chain_exists_grow:
  "chain_exists h c \<Longrightarrow> heap_chains h' = heap_chains h @ xs \<Longrightarrow> length (heap_nodes h) \<le> length (heap_nodes h') \<Longrightarrow> chain_exists h' c"
  by (auto simp: chain_exists_def nth_append)

text \<open>What holds between the chunks, and of the state that a chunk raises in.\<close>

definition row_inv :: "'c graph_heap \<Rightarrow> chunk_locals option \<Rightarrow> 'c graph_heap \<Rightarrow> bool" where
  "row_inv h0 loc h \<longleftrightarrow> struct_wf h \<and> adds_row h0 h \<and>
    (case loc of
       None \<Rightarrow> h = h0
     | Some (prev, rq, cf) \<Rightarrow> heap_nodes h \<noteq> [] \<and> prev = length (heap_nodes h) - 1 \<and> length (heap_nodes h0) \<le> prev \<and> cf \<le> prev \<and>
         rq < length (heap_requests h) \<and> length (heap_nodes h0) \<le> first_node (request_at h rq) \<and> first_node (request_at h rq) \<le> prev \<and>
         (\<forall>c \<in> set (comp_chains (request_at h rq)). chain_exists h c))"

definition row_outcome :: "'c graph_heap \<Rightarrow> py_error + chunk_locals option \<Rightarrow> 'c graph_heap \<Rightarrow> bool" where
  "row_outcome h0 r h \<longleftrightarrow> (case r of Inl e \<Rightarrow> struct_wf h \<and> adds_row h0 h | Inr loc \<Rightarrow> row_inv h0 loc h)"

lemma on_request_frame [simp]:
  "heap_nodes (on_request r f h) = heap_nodes h" "heap_svs (on_request r f h) = heap_svs h"
  "heap_chains (on_request r f h) = heap_chains h" "length (heap_requests (on_request r f h)) = length (heap_requests h)"
  "r < length (heap_requests h) \<Longrightarrow> request_at (on_request r f h) q = (if q = r then f (request_at h r) else request_at h q)"
  by (simp_all add: on_request_def nth_list_update)

lemma struct_wf_cong: "heap_nodes h' = heap_nodes h \<Longrightarrow> heap_chains h' = heap_chains h \<Longrightarrow> struct_wf h' \<longleftrightarrow> struct_wf h"
  by (simp add: struct_wf_def)

lemma adds_row_cong: "heap_nodes h' = heap_nodes h \<Longrightarrow> heap_chains h' = heap_chains h \<Longrightarrow> heap_svs h' = heap_svs h \<Longrightarrow> adds_row h0 h' \<longleftrightarrow> adds_row h0 h"
  by (simp add: adds_row_def)

text \<open>The second half of the body: the chain of a Gen node.\<close>

lemma gen_step_wf:
  fixes h0 h :: "'c graph_heap"
  assumes "struct_wf h" and "adds_row h0 h" and n: "n < length (heap_nodes h)" "n = length (heap_nodes h) - 1" "length (heap_nodes h0) \<le> n"
    and "cf \<le> n" and rq: "rq < length (heap_requests h)" "length (heap_nodes h0) \<le> first_node (request_at h rq)" "first_node (request_at h rq) \<le> n"
      "\<forall>c \<in> set (comp_chains (request_at h rq)). chain_exists h c"
  shows "pyo_ensures (row_outcome h0)
    (pyo_bind (new_completion_chain rq (Some cf) n h) (\<lambda>c h.
       let h = on_request rq (\<lambda>r. r\<lparr>comp_chains := comp_chains r @ [c]\<rparr>) h
       in case edge_a_prev (node_at h n) of
            None \<Rightarrow> Some (py_raise ParrotError h)
          | Some p \<Rightarrow> Some (py_return (Some (n, rq, p)) h)))"
proof (rule pyo_ensures_bind [OF new_completion_chain_wf [OF assms(1), of cf]])
  fix c and h1 :: "'c graph_heap"
  assume r: "Inr c = Inr (length (heap_chains h)) \<and> (\<exists>x. heap_chains h1 = heap_chains h @ [x] \<and> chain_gen_node x = n) \<and> struct_wf h1 \<and> same_vars h h1 \<and> heap_requests h1 = heap_requests h \<and>
    map edge_a_prev (heap_nodes h1) = map edge_a_prev (heap_nodes h)"
  let ?h = "on_request rq (\<lambda>r. r\<lparr>comp_chains := comp_chains r @ [c]\<rparr>) h1"
  have wf: "struct_wf ?h" using r struct_wf_cong [of ?h h1] by simp
  have row: "adds_row h0 ?h" using r adds_row_same_vars [OF assms(2), of h1] adds_row_cong [of ?h h1 h0] by auto
  have len: "length (heap_nodes h1) = length (heap_nodes h)" using r by (simp add: same_vars_def)
  obtain x where x: "heap_chains h1 = heap_chains h @ [x]" "chain_gen_node x = n" using r by blast
  have old: "chain_exists ?h d" if "chain_exists h d" for d using chain_exists_grow [OF that, of ?h "[x]"] x(1) len by simp
  have new: "chain_exists ?h c" using r x n(1) len by (simp add: chain_exists_def)
  have req: "request_at ?h rq = (request_at h rq)\<lparr>comp_chains := comp_chains (request_at h rq) @ [c]\<rparr>" using r rq(1) by simp
  have "p < n" if "edge_a_prev (node_at h1 n) = Some p" for p
    using r that n len unfolding struct_wf_def edges_ok_def by metis
  with wf row n rq req len r old new show "pyo_ensures (row_outcome h0)
      (let h = ?h in case edge_a_prev (node_at h n) of None \<Rightarrow> Some (py_raise ParrotError h) | Some p \<Rightarrow> Some (py_return (Some (n, rq, p)) h))"
    by (cases "edge_a_prev (node_at h1 n)") (auto simp: row_outcome_def row_inv_def Let_def)
qed (use assms in auto)

lemma chunked_step_wf:
  fixes h0 h :: "'c graph_heap"
  assumes inv: "row_inv h0 loc h"
  shows "pyo_ensures (row_outcome h0) (chunked_step creq chunk loc h)"
proof -
  let ?L = "length (heap_nodes h)"
  let ?prev = "map_option fst loc"
  show ?thesis
  proof (cases "chunk_node (parameters_map creq) chunk h :: ('c node_kind, 'c graph_heap) py")
    case (Pair r h')
    have h': "h' = h" using Pair by (auto simp: chunk_node_def py_bind_def py_return_def dict_get_def py_raise_def split: body_chunk.splits option.splits)
    have ok: "struct_wf h" "adds_row h0 h" using inv by (simp_all add: row_inv_def)
    show ?thesis
    proof (cases r)
      case (Inl e)
      with Pair h' ok show ?thesis by (simp add: chunked_step_def row_outcome_def)
    next
      case (Inr k)
      let ?h = "push_node k ?prev h"
      have pv: "?prev = None \<or> ?prev = Some (?L - 1) \<and> heap_nodes h \<noteq> []" using inv by (cases loc) (auto simp: row_inv_def)
      then have "\<forall>p. ?prev = Some p \<longrightarrow> p < ?L" by auto
      note N = push_node_nodes [where prev = ?prev and h = h and k = k, OF this]
      have wf: "struct_wf ?h" by (rule push_node_wf [OF ok(1) pv])
      have row: "adds_row h0 ?h" by (rule push_node_row [OF ok(2)]) (use pv in auto)
      have L0: "length (heap_nodes h0) \<le> ?L" using ok(2) by (simp add: adds_row_def)
      have grow: "chain_exists h1 c" if "chain_exists h c" "heap_chains h1 = heap_chains ?h" "heap_nodes h1 = heap_nodes ?h" for h1 c
        using chain_exists_grow [OF that(1), of h1 "[]"] that N(1,5) by simp
      define R where "R = (case loc of
           None \<Rightarrow> (let (rq, h) = new_request_chain (request_id creq) (session_id creq) ?L (metadata creq) ?h in ((rq, ?L), h))
         | Some (_, rq, cf) \<Rightarrow> ((rq, cf), ?h))"
      obtain rq cf h1 where R: "R = ((rq, cf), h1)" by (metis prod.exhaust)
      have h1: "heap_nodes h1 = heap_nodes ?h" "heap_svs h1 = heap_svs ?h" "heap_chains h1 = heap_chains ?h"
        using R by (auto simp: R_def new_request_chain_def split: option.splits)
      have loc1: "cf \<le> ?L" "rq < length (heap_requests h1)" "length (heap_nodes h0) \<le> first_node (request_at h1 rq)"
          "first_node (request_at h1 rq) \<le> ?L" "\<forall>c \<in> set (comp_chains (request_at h1 rq)). chain_exists h1 c"
        using R inv L0 N(5,6) grow by (auto simp: R_def new_request_chain_def row_inv_def nth_append split: option.splits)
      have wf1: "struct_wf h1" "adds_row h0 h1" using wf row h1 struct_wf_cong adds_row_cong by blast+
      have eq: "chunked_step creq chunk loc h =
        (if is_gen (node_at h1 ?L) then
           pyo_bind (new_completion_chain rq (Some cf) ?L h1) (\<lambda>c h.
             let h = on_request rq (\<lambda>r. r\<lparr>comp_chains := comp_chains r @ [c]\<rparr>) h
             in case edge_a_prev (node_at h ?L) of None \<Rightarrow> Some (py_raise ParrotError h) | Some p \<Rightarrow> Some (py_return (Some (?L, rq, p)) h))
         else Some (py_return (Some (?L, rq, cf)) h1))"
        using Pair h' Inr R unfolding chunked_step_def R_def push_node_def
        by (cases loc) (auto simp: alloc_node_def Let_def)
      have no_gen: "pyo_ensures (row_outcome h0) (Some (py_return (Some (?L, rq, cf)) h1))"
        using wf1 loc1 L0 h1 N(1) by (auto simp: row_outcome_def row_inv_def)
      have gen: "pyo_ensures (row_outcome h0)
        (pyo_bind (new_completion_chain rq (Some cf) ?L h1) (\<lambda>c h.
             let h = on_request rq (\<lambda>r. r\<lparr>comp_chains := comp_chains r @ [c]\<rparr>) h
             in case edge_a_prev (node_at h ?L) of None \<Rightarrow> Some (py_raise ParrotError h) | Some p \<Rightarrow> Some (py_return (Some (?L, rq, p)) h)))"
        by (rule gen_step_wf) (use wf1 loc1 L0 h1 N(1) in auto)
      show ?thesis
      proof (cases "is_gen (node_at h1 ?L)")
        case True
        show ?thesis unfolding eq if_P [OF True] by (rule gen)
      next
        case False
        show ?thesis unfolding eq if_not_P [OF False] by (rule no_gen)
      qed
    qed
  qed
qed

lemma from_chunked_request_wf:
  fixes h0 :: "'c graph_heap"
  assumes "struct_wf h0"
  shows "pyo_ensures (\<lambda>r h. struct_wf h \<and> adds_row h0 h \<and>
      (\<forall>rq. r = Inr rq \<longrightarrow> rq < length (heap_requests h) \<and> length (heap_nodes h0) \<le> first_node (request_at h rq) \<and>
         first_node (request_at h rq) < length (heap_nodes h) \<and> (\<forall>c \<in> set (comp_chains (request_at h rq)). chain_exists h c)))
    (from_chunked_request creq h0)"
  unfolding from_chunked_request_def
proof (rule pyo_ensures_bind)
  show "pyo_ensures (row_outcome h0) (pyo_fold (chunked_step creq) (body creq) None h0)"
    unfolding row_outcome_def [abs_def]
  proof (rule pyo_ensures_fold)
    fix chunk loc and h :: "'c graph_heap"
    assume "row_inv h0 loc h"
    from chunked_step_wf [OF this, of creq chunk]
    show "pyo_ensures (\<lambda>r h. case r of Inl e \<Rightarrow> struct_wf h \<and> adds_row h0 h | Inr loc \<Rightarrow> row_inv h0 loc h) (chunked_step creq chunk loc h)"
      by (simp add: row_outcome_def [abs_def])
  qed (use assms in \<open>simp add: row_inv_def\<close>)
next
  fix loc and h :: "'c graph_heap"
  assume "row_outcome h0 (Inr loc) h"
  then show "pyo_ensures (\<lambda>r h. struct_wf h \<and> adds_row h0 h \<and>
      (\<forall>rq. r = Inr rq \<longrightarrow> rq < length (heap_requests h) \<and> length (heap_nodes h0) \<le> first_node (request_at h rq) \<and>
         first_node (request_at h rq) < length (heap_nodes h) \<and> (\<forall>c \<in> set (comp_chains (request_at h rq)). chain_exists h c)))
    (case loc of None \<Rightarrow> Some (py_raise UnboundLocalError h) | Some (_, rq, _) \<Rightarrow> Some (py_return rq h))"
    by (cases loc; cases "heap_nodes h") (auto simp: row_outcome_def row_inv_def)
qed (simp add: row_outcome_def)

section \<open>Variables and their order\<close>

definition writes :: "'c graph_node \<Rightarrow> sv_ref \<Rightarrow> bool" where
  "writes n v \<longleftrightarrow> (if is_gen n then node_sv n = Some v else v \<in> set (dict_values (output_vars n)))"

definition var_refs_ok :: "nat \<Rightarrow> 'c graph_node \<Rightarrow> bool" where
  "var_refs_ok k n \<longleftrightarrow> (\<forall>w. node_sv n = Some w \<longrightarrow> w < k) \<and>
    (\<forall>w \<in> set (dict_values (input_vars n)). w < k) \<and> (\<forall>w \<in> set (dict_values (output_vars n)). w < k)"

text \<open>The variables of the nodes before a Gen node are older than the variable it writes.\<close>

definition gens_ordered :: "'c graph_node list \<Rightarrow> bool" where
  "gens_ordered nodes \<longleftrightarrow>
    (\<forall>p < length nodes. \<forall>v. is_gen (nodes ! p) \<longrightarrow> node_sv (nodes ! p) = Some v \<longrightarrow>
       (\<forall>n < p. \<forall>w. node_sv (nodes ! n) = Some w \<longrightarrow> w < v))"

text \<open>The inputs of a native node are older than its outputs, or variables that no node writes.\<close>

definition natives_ordered :: "'c graph_node list \<Rightarrow> bool" where
  "natives_ordered nodes \<longleftrightarrow>
    (\<forall>q < length nodes. \<forall>w \<in> set (dict_values (input_vars (nodes ! q))). \<forall>v \<in> set (dict_values (output_vars (nodes ! q))).
       w < v \<or> (\<forall>p < length nodes. \<not> writes (nodes ! p) w))"

definition vars_wf :: "'c graph_heap \<Rightarrow> bool" where
  "vars_wf h \<longleftrightarrow>
    (\<forall>n < length (heap_nodes h). var_refs_ok (length (heap_svs h)) (node_at h n)) \<and>
    gens_ordered (heap_nodes h) \<and> natives_ordered (heap_nodes h) \<and>
    (\<forall>v < length (heap_svs h). \<forall>p. producer (sv_at h v) = Some p \<longrightarrow> p < length (heap_nodes h) \<and> writes (node_at h p) v)"

definition graph_wf :: "'c graph_heap \<Rightarrow> bool" where
  "graph_wf h \<longleftrightarrow> struct_wf h \<and> vars_wf h"

lemma gens_orderedD:
  "gens_ordered nodes \<Longrightarrow> p < length nodes \<Longrightarrow> is_gen (nodes ! p) \<Longrightarrow> node_sv (nodes ! p) = Some v \<Longrightarrow> n < p \<Longrightarrow>
    node_sv (nodes ! n) = Some w \<Longrightarrow> w < v"
  unfolding gens_ordered_def by blast

lemma natives_orderedD:
  "natives_ordered nodes \<Longrightarrow> q < length nodes \<Longrightarrow> w \<in> set (dict_values (input_vars (nodes ! q))) \<Longrightarrow>
    v \<in> set (dict_values (output_vars (nodes ! q))) \<Longrightarrow> w < v \<or> (\<forall>p < length nodes. \<not> writes (nodes ! p) w)"
  unfolding natives_ordered_def by blast

lemma vars_wfD:
  assumes "vars_wf h"
  shows "n < length (heap_nodes h) \<Longrightarrow> var_refs_ok (length (heap_svs h)) (node_at h n)"
    and "gens_ordered (heap_nodes h)" and "natives_ordered (heap_nodes h)"
    and "v < length (heap_svs h) \<Longrightarrow> producer (sv_at h v) = Some p \<Longrightarrow> p < length (heap_nodes h) \<and> writes (node_at h p) v"
  using assms unfolding vars_wf_def by blast+

text \<open>The rank: a variable that nothing produces is a leaf, any other one has the rank of its age.\<close>

definition age_rank :: "'c graph_heap \<Rightarrow> sv_ref \<Rightarrow> nat" where
  "age_rank h v = (if producer (sv_at h v) = None then 0 else Suc v)"

lemma graph_wf_dep:
  fixes h :: "'c graph_heap"
  assumes wf: "graph_wf h" and d: "dep h v w k"
  shows "w < length (heap_svs h) \<and> (producer (sv_at h w) \<noteq> None \<longrightarrow> w < v)"
proof -
  have st: "struct_wf h" and vw: "vars_wf h" using wf by (simp_all add: graph_wf_def)
  have v: "v < length (heap_svs h)" using d by (simp add: dep_def)
  obtain p where p: "producer (sv_at h v) = Some p"
    "(is_gen (node_at h p) \<and>
        (\<exists>c. completion_chain_of (node_at h p) = Some c \<and> c < length (heap_chains h) \<and>
          ((\<exists>ns e n. fill_iter (heap_nodes h) (chain_first_node (chain_at h c)) = Some (ns, e) \<and> n \<in> set ns \<and> node_sv (node_at h n) = Some w) \<or>
           (\<exists>f g. chain_first_node (chain_at h c) = Some f \<and> edge_a_prev (node_at h f) = Some g \<and> node_sv (node_at h g) = Some w)))) \<or>
       \<not> is_gen (node_at h p) \<and> w \<in> set (dict_values (input_vars (node_at h p)))"
    using d unfolding dep_def by blast
  have pl: "p < length (heap_nodes h)" and wr: "writes (node_at h p) v" using vw v p(1) by (simp_all add: vars_wf_def)
  show ?thesis
  proof (cases "is_gen (node_at h p)")
    case False
    then have inp: "w \<in> set (dict_values (input_vars (node_at h p)))" using p(2) by simp
    have wl: "w < length (heap_svs h)" using vw pl inp by (auto simp: vars_wf_def var_refs_ok_def)
    have out: "v \<in> set (dict_values (output_vars (node_at h p)))" using wr False by (simp add: writes_def)
    have "w < v" if "producer (sv_at h w) = Some q" for q
    proof -
      have "q < length (heap_nodes h)" "writes (node_at h q) w" using vw wl that by (simp_all add: vars_wf_def)
      with natives_orderedD [OF vars_wfD(3) [OF vw] pl inp out] show ?thesis by blast
    qed
    with wl show ?thesis by auto
  next
    case True
    then obtain c where c: "completion_chain_of (node_at h p) = Some c" "c < length (heap_chains h)"
      "(\<exists>ns e n. fill_iter (heap_nodes h) (chain_first_node (chain_at h c)) = Some (ns, e) \<and> n \<in> set ns \<and> node_sv (node_at h n) = Some w) \<or>
       (\<exists>f g. chain_first_node (chain_at h c) = Some f \<and> edge_a_prev (node_at h f) = Some g \<and> node_sv (node_at h g) = Some w)"
      using p(2) by blast
    obtain f where f: "f < length (heap_nodes h)" "chain_first_node (chain_at h c) = Some f" using st c(2) by (auto simp: struct_wf_def)
    have "fills_before (heap_nodes h) f p" using st pl c(1) True f(2) by (fastforce simp: struct_wf_def)
    then obtain ns where ns: "f \<le> p" "fill_iter (heap_nodes h) (Some f) = Some (ns, None)" "\<forall>m \<in> set ns. m < p"
      by (auto simp: fills_before_def)
    have gf: "g < f" if "edge_a_prev (node_at h f) = Some g" for g
      using st f(1) that unfolding struct_wf_def edges_ok_def by blast
    obtain n where n: "n < p" "node_sv (node_at h n) = Some w"
      using c(3)
    proof (elim disjE exE conjE)
      fix ns' e n
      assume "fill_iter (heap_nodes h) (chain_first_node (chain_at h c)) = Some (ns', e)" "n \<in> set ns'" "node_sv (node_at h n) = Some w"
      with f(2) ns show thesis by (intro that [of n]) auto
    next
      fix f' g
      assume "chain_first_node (chain_at h c) = Some f'" "edge_a_prev (node_at h f') = Some g" "node_sv (node_at h g) = Some w"
      with f(2) ns(1) gf [of g] show thesis by (intro that [of g]) auto
    qed
    have "node_sv (node_at h p) = Some v" using wr True by (simp add: writes_def)
    with gens_orderedD [OF vars_wfD(2) [OF vw] pl True] n have "w < v" by blast
    with v show ?thesis by simp
  qed
qed

lemma graph_wf_ranked:
  fixes h :: "'c graph_heap"
  assumes "graph_wf h"
  shows "graph_ranked (age_rank h) h"
  unfolding graph_ranked_def
proof (intro conjI allI impI)
  fix v w k
  assume d: "dep h v w k"
  then have "producer (sv_at h v) \<noteq> None" by (auto simp: dep_def)
  with graph_wf_dep [OF assms d] show "w < length (heap_svs h)" "age_rank h w < age_rank h v" by (auto simp: age_rank_def)
next
  fix v p c
  assume v: "v < length (heap_svs h)" "producer (sv_at h v) = Some p" and c: "completion_chain_of (node_at h p) = Some c"
  have p: "p < length (heap_nodes h)" using assms v by (auto simp: graph_wf_def vars_wf_def)
  then show cl: "c < length (heap_chains h)" using assms c by (simp add: graph_wf_def struct_wf_def)
  obtain f where "f < length (heap_nodes h)" "chain_first_node (chain_at h c) = Some f"
    using assms cl by (auto simp: graph_wf_def struct_wf_def)
  with fill_iter_returns [of "heap_nodes h" f] assms show "fill_iter (heap_nodes h) (chain_first_node (chain_at h c)) \<noteq> None"
    by (auto simp: graph_wf_def struct_wf_def)
qed

text \<open>A row whose variables are not assigned yet.\<close>

lemma vars_wf_row:
  fixes h0 h :: "'c graph_heap"
  assumes wf: "vars_wf h0" and row: "adds_row h0 h"
  shows "vars_wf h"
proof -
  let ?L = "length (heap_nodes h0)"
  have svs: "heap_svs h = heap_svs h0" and len: "?L \<le> length (heap_nodes h)" using row by (simp_all add: adds_row_def)
  have old: "node_sv (node_at h n) = node_sv (node_at h0 n)" "input_vars (node_at h n) = input_vars (node_at h0 n)"
      "output_vars (node_at h n) = output_vars (node_at h0 n)" "is_gen (node_at h n) = is_gen (node_at h0 n)" if "n < ?L" for n
    using row that by (simp_all add: adds_row_def is_gen_def)
  have new: "node_sv (node_at h n) = None" "input_vars (node_at h n) = []" "output_vars (node_at h n) = []"
    if "?L \<le> n" "n < length (heap_nodes h)" for n
    using row that by (simp_all add: adds_row_def)
  have wr: "writes (node_at h n) v \<longleftrightarrow> n < ?L \<and> writes (node_at h0 n) v" if "n < length (heap_nodes h)" for n v
    using old [of n] new [of n] that by (cases "n < ?L") (simp_all add: writes_def)
  have "var_refs_ok (length (heap_svs h)) (node_at h n)" if "n < length (heap_nodes h)" for n
    using wf old [of n] new [of n] that by (cases "n < ?L") (simp_all add: var_refs_ok_def vars_wf_def svs)
  moreover have "gens_ordered (heap_nodes h)"
    unfolding gens_ordered_def
  proof (intro allI impI)
    fix p v n w
    assume a: "p < length (heap_nodes h)" "is_gen (node_at h p)" "node_sv (node_at h p) = Some v" "n < p" "node_sv (node_at h n) = Some w"
    then have p: "p < ?L" using new(1) by (metis not_le option.distinct(1))
    with a(4) have n: "n < ?L" by simp
    note vars_wfD(2) [OF wf]
    moreover have "is_gen (node_at h0 p)" "node_sv (node_at h0 p) = Some v" "node_sv (node_at h0 n) = Some w"
      using a old [OF p] old [OF n] by simp_all
    ultimately show "w < v" using gens_orderedD [OF _ p] a(4) by blast
  qed
  moreover have "natives_ordered (heap_nodes h)"
    unfolding natives_ordered_def
  proof (intro allI ballI impI)
    fix q w v
    assume a: "q < length (heap_nodes h)" "w \<in> set (dict_values (input_vars (node_at h q)))" "v \<in> set (dict_values (output_vars (node_at h q)))"
    then have q: "q < ?L" using new(2) by (metis empty_iff empty_set list.map_disc_iff not_le)
    have "w < v \<or> (\<forall>p < ?L. \<not> writes (node_at h0 p) w)"
      by (rule natives_orderedD [OF vars_wfD(3) [OF wf] q]) (use a old [OF q] in simp_all)
    with wr show "w < v \<or> (\<forall>p < length (heap_nodes h). \<not> writes (node_at h p) w)" by blast
  qed
  moreover have "p < length (heap_nodes h) \<and> writes (node_at h p) v" if "v < length (heap_svs h)" "producer (sv_at h v) = Some p" for v p
    using wf that wr [of p] len by (auto simp: vars_wf_def svs)
  ultimately show ?thesis by (simp add: vars_wf_def)
qed

lemma graph_wf_from_chunked:
  fixes h0 :: "'c graph_heap"
  assumes "graph_wf h0"
  shows "pyo_ensures (\<lambda>r h. graph_wf h \<and> adds_row h0 h \<and>
      (\<forall>rq. r = Inr rq \<longrightarrow> rq < length (heap_requests h) \<and> length (heap_nodes h0) \<le> first_node (request_at h rq) \<and>
         first_node (request_at h rq) < length (heap_nodes h) \<and> (\<forall>c \<in> set (comp_chains (request_at h rq)). chain_exists h c)))
    (from_chunked_request creq h0)"
proof -
  have "struct_wf h0" "vars_wf h0" using assms by (simp_all add: graph_wf_def)
  from pyo_ensures_mono [OF from_chunked_request_wf [OF this(1)]] vars_wf_row [OF this(2)]
  show ?thesis by (auto simp: graph_wf_def pyo_ensures_def)
qed

section \<open>New variables\<close>

text \<open>Variables are added that no node produces, and existing ones keep their producer.\<close>

definition svs_grow :: "'c graph_heap \<Rightarrow> 'c graph_heap \<Rightarrow> bool" where
  "svs_grow h h' \<longleftrightarrow>
    heap_nodes h' = heap_nodes h \<and> heap_chains h' = heap_chains h \<and> heap_requests h' = heap_requests h \<and>
    length (heap_svs h) \<le> length (heap_svs h') \<and>
    (\<forall>v < length (heap_svs h'). producer (sv_at h' v) = (if v < length (heap_svs h) then producer (sv_at h v) else None))"

lemma svs_grow_refl [simp]: "svs_grow h h"
  by (simp add: svs_grow_def)

lemma svs_grow_trans: "svs_grow h1 h2 \<Longrightarrow> svs_grow h2 h3 \<Longrightarrow> svs_grow h1 h3"
  by (auto simp: svs_grow_def)

lemma svs_grow_len: "svs_grow h h' \<Longrightarrow> length (heap_svs h) \<le> length (heap_svs h')"
  by (simp add: svs_grow_def)

lemma svs_grow_append: "heap_svs h' = heap_svs h @ [v] \<Longrightarrow> producer v = None \<Longrightarrow> heap_nodes h' = heap_nodes h \<Longrightarrow>
    heap_chains h' = heap_chains h \<Longrightarrow> heap_requests h' = heap_requests h \<Longrightarrow> svs_grow h h'"
  by (auto simp: svs_grow_def nth_append less_Suc_eq)

lemma svs_grow_set: "svs_grow h (snd (on_sv v (sv_set x) h))"
  by (cases "v < length (heap_svs h)")
     (auto simp: svs_grow_def on_sv_def sv_set_def py_lift_def py_return_def py_raise_def nth_list_update)

lemma var_refs_ok_mono: "var_refs_ok k n \<Longrightarrow> k \<le> k' \<Longrightarrow> var_refs_ok k' n"
  by (auto simp: var_refs_ok_def)

lemma graph_wf_svs_grow:
  assumes "graph_wf h" and "svs_grow h h'"
  shows "graph_wf h'"
proof -
  have eq: "heap_nodes h' = heap_nodes h" "heap_chains h' = heap_chains h" and le: "length (heap_svs h) \<le> length (heap_svs h')"
    using assms(2) by (simp_all add: svs_grow_def)
  have st: "struct_wf h'" using assms(1) eq struct_wf_cong [of h' h] by (simp add: graph_wf_def)
  have vw: "vars_wf h" using assms(1) by (simp add: graph_wf_def)
  have "p < length (heap_nodes h) \<and> writes (node_at h p) v" if "v < length (heap_svs h')" "producer (sv_at h' v) = Some p" for v p
    using vars_wfD(4) [OF vw, of v p] that assms(2) by (auto simp: svs_grow_def split: if_splits)
  with vw st eq show ?thesis using var_refs_ok_mono [OF _ le] by (auto simp: graph_wf_def vars_wf_def)
qed

text \<open>The references of the namespaces are variables of the heap.\<close>

definition ns_ok :: "nat \<Rightarrow> 'u namespace \<Rightarrow> bool" where
  "ns_ok k ns \<longleftrightarrow> (\<forall>e \<in> set (ns_vars ns). snd e < k)"

definition vm_ok :: "nat \<Rightarrow> 'u variable_manager \<Rightarrow> bool" where
  "vm_ok k m \<longleftrightarrow> ns_ok k (constant_prefix_namespace m) \<and> (\<forall>e \<in> set (session_namespaces m). ns_ok k (snd e))"

lemma ns_ok_mono: "ns_ok k ns \<Longrightarrow> k \<le> k' \<Longrightarrow> ns_ok k' ns"
  by (auto simp: ns_ok_def)

lemma ns_ok_set: "ns_ok k ns \<Longrightarrow> v < k \<Longrightarrow> ns_ok k (ns\<lparr>ns_vars := dict_set vid v (ns_vars ns)\<rparr>)"
  using dict_set_subset [of vid v "ns_vars ns"] by (auto simp: ns_ok_def)

lemma ns_ok_lookup: "ns_ok k ns \<Longrightarrow> map_of (ns_vars ns) vid = Some v \<Longrightarrow> v < k"
  using map_of_SomeD [of "ns_vars ns" vid v] by (fastforce simp: ns_ok_def)

lemma vm_ok_mono: "vm_ok k m \<Longrightarrow> k \<le> k' \<Longrightarrow> vm_ok k' m"
  unfolding vm_ok_def using ns_ok_mono by blast

text \<open>
  An operation of a namespace or of the manager that starts in a state in order leaves one in order and
  returns a variable; \<open>fresh\<close> says that it is a new one.
\<close>

definition var_result :: "bool \<Rightarrow> 'c graph_heap \<Rightarrow> py_error + sv_ref \<Rightarrow> 'c graph_heap \<Rightarrow> bool" where
  "var_result fresh h r h' \<longleftrightarrow> svs_grow h h' \<and>
    (\<forall>v. r = Inr v \<longrightarrow> v < length (heap_svs h') \<and> (fresh \<longrightarrow> length (heap_svs h) \<le> v))"

definition ns_result :: "bool \<Rightarrow> 'c graph_heap \<Rightarrow> py_error + sv_ref \<Rightarrow> ('u, 'c) ns_state \<Rightarrow> bool" where
  "ns_result fresh h r s \<longleftrightarrow> var_result fresh h r (snd s) \<and> ns_ok (length (heap_svs (snd s))) (fst s)"

definition vm_result :: "bool \<Rightarrow> 'c graph_heap \<Rightarrow> py_error + sv_ref \<Rightarrow> ('u, 'c) vm_state \<Rightarrow> bool" where
  "vm_result fresh h r s \<longleftrightarrow> var_result fresh h r (snd s) \<and> vm_ok (length (heap_svs (snd s))) (fst s)"

lemma new_var_by_content_result:
  assumes "ns_ok (length (heap_svs h)) ns"
  shows "py_ensures (ns_result False h) (new_var_by_content uuid3 t pre (ns, h))"
proof -
  obtain r s' where op: "new_var_by_content uuid3 t pre (ns, h) = (r, s')" by (metis prod.exhaust)
  from op have "ns_result False h r s'"
  proof (cases rule: new_var_by_content_cases)
    case (old v)
    with assms ns_ok_lookup [OF assms, of _ v] show ?thesis by (auto simp: ns_result_def var_result_def)
  next
    case new
    with assms show ?thesis
      by (auto simp: ns_result_def var_result_def ns_ok_def svs_grow_def nth_append less_Suc_eq new_semantic_variable_def)
  qed
  with op show ?thesis by simp
qed

lemma new_var_by_name_result:
  assumes "ns_ok (length (heap_svs h)) ns"
  shows "py_ensures (ns_result True h) (new_var_by_name uuid3 nm pre (ns, h))"
proof -
  obtain r p where p: "pool_allocate (seed_pool ns) = (r, p)" by fastforce
  have ok: "ns_ok k (ns\<lparr>seed_pool := p\<rparr>) = ns_ok k ns" for k by (simp add: ns_ok_def)
  show ?thesis
  proof (cases r)
    case (Inl e)
    with p assms ok show ?thesis by (simp add: new_var_by_name_def ns_result_def var_result_def)
  next
    case (Inr seed)
    let ?vid = "get_hashed_var_id uuid3 (ns\<lparr>seed_pool := p\<rparr>) (py_str seed)"
    show ?thesis
    proof (cases "dict_mem ?vid (ns_vars ns)")
      case True
      with p Inr assms ok show ?thesis by (simp add: new_var_by_name_def ns_result_def var_result_def Let_def)
    next
      case False
      have "ns_ok (Suc (length (heap_svs h))) (ns\<lparr>seed_pool := p\<rparr>)" using assms ok ns_ok_mono le_SucI by blast
      from ns_ok_set [OF this, of "length (heap_svs h)" ?vid] p Inr False show ?thesis
        by (simp add: new_var_by_name_def ns_result_def var_result_def Let_def alloc_sv_def)
           (simp add: svs_grow_def nth_append new_semantic_variable_def)
    qed
  qed
qed

lemma get_constant_prefix_var_result:
  fixes h :: "'b graph_heap" and m :: "'a variable_manager"
  assumes "vm_ok (length (heap_svs h)) m"
  shows "py_ensures (vm_result False h) (get_constant_prefix_var uuid3 now t (m, h))"
  unfolding get_constant_prefix_var_def prod.case Let_def
proof (rule py_ensures_bind [where P = "vm_result False h"])
  have "py_ensures (ns_result False h) (new_var_by_content uuid3 t True (constant_prefix_namespace m, h))"
    using new_var_by_content_result assms by (auto simp: vm_ok_def)
  then show "py_ensures (vm_result False h) (py_lift (\<lambda>(ns, h). (m\<lparr>constant_prefix_namespace := ns\<rparr>, h))
      (new_var_by_content uuid3 t True (constant_prefix_namespace m, h)))"
    unfolding py_ensures_lift
    by (rule py_ensures_mono)
       (use assms ns_ok_mono in \<open>fastforce simp: ns_result_def vm_result_def var_result_def vm_ok_def svs_grow_def split: prod.splits\<close>)
next
  fix v and s :: "('a, 'b) vm_state"
  assume "vm_result False h (Inr v) s"
  then show "py_ensures (vm_result False h) (case s of (m, h) \<Rightarrow> py_return v (m\<lparr>constant_prefix_last_access_time :=
      dict_set (var_id (sv_at h v)) now (constant_prefix_last_access_time m)\<rparr>, h))"
    by (cases s) (simp add: vm_result_def vm_ok_def)
qed

lemma in_session_result:
  fixes h :: "'c graph_heap" and m :: "'u variable_manager"
  assumes ok: "vm_ok (length (heap_svs h)) m" and "fst s = m" and "snd s = h"
    and op: "\<And>ns. ns_ok (length (heap_svs h)) ns \<Longrightarrow> py_ensures (ns_result fresh h) (op (ns, h))"
  shows "py_ensures (vm_result fresh h) (in_session sid op s)"
proof (cases "map_of (session_namespaces m) sid")
  case None
  with assms(1-3) show ?thesis by (cases s) (simp add: in_session_def vm_result_def var_result_def)
next
  case (Some ns)
  then have "ns_ok (length (heap_svs h)) ns" using ok map_of_SomeD by (fastforce simp: vm_ok_def)
  from op [OF this] have "py_ensures (\<lambda>x p. vm_result fresh h x
      (case p of (ns, h) \<Rightarrow> (m\<lparr>session_namespaces := dict_set sid ns (session_namespaces m)\<rparr>, h))) (op (ns, h))"
  proof (rule py_ensures_mono)
    fix r and p :: "('u, 'c) ns_state"
    assume "ns_result fresh h r p"
    then have p: "var_result fresh h r (snd p)" "ns_ok (length (heap_svs (snd p))) (fst p)" by (simp_all add: ns_result_def)
    have "vm_ok (length (heap_svs (snd p))) m" using vm_ok_mono [OF ok] p(1) by (auto simp: var_result_def svs_grow_def)
    with p dict_set_subset [of sid "fst p" "session_namespaces m"]
    show "vm_result fresh h r (case p of (ns, h) \<Rightarrow> (m\<lparr>session_namespaces := dict_set sid ns (session_namespaces m)\<rparr>, h))"
      by (cases p) (auto simp: vm_result_def vm_ok_def)
  qed
  with Some assms(2,3) show ?thesis by (cases s) (simp add: in_session_def py_ensures_lift)
qed

lemma local_var_results:
  assumes "vm_ok (length (heap_svs h)) m"
  shows "py_ensures (vm_result True h) (create_local_var_by_name uuid3 sid nm (m, h))"
    and "py_ensures (vm_result False h) (get_local_var_by_content uuid3 sid t (m, h))"
    and "py_ensures (vm_result False h) (get_local_var_by_id sid vid (m, h))"
proof -
  show "py_ensures (vm_result True h) (create_local_var_by_name uuid3 sid nm (m, h))"
    unfolding create_local_var_by_name_def
    by (rule in_session_result [OF assms]) (simp_all add: new_var_by_name_result)
  show "py_ensures (vm_result False h) (get_local_var_by_content uuid3 sid t (m, h))"
    unfolding get_local_var_by_content_def
    by (rule in_session_result [OF assms]) (simp_all add: new_var_by_content_result)
  show "py_ensures (vm_result False h) (get_local_var_by_id sid vid (m, h))"
    unfolding get_local_var_by_id_def
  proof (rule in_session_result [OF assms])
    fix ns :: "'d namespace"
    assume "ns_ok (length (heap_svs h)) ns"
    then show "py_ensures (ns_result False h) (case (ns, h) of (ns, h) \<Rightarrow>
        if \<not> py_hashable vid then py_raise TypeError (ns, h)
        else case case vid of JStr t \<Rightarrow> get_var_by_id ns t | _ \<Rightarrow> None of
               None \<Rightarrow> py_raise ParrotError (ns, h)
             | Some v \<Rightarrow> py_return v (ns, h))"
      using ns_ok_lookup by (cases vid) (fastforce simp: ns_result_def var_result_def get_var_by_id_def split: option.splits)+
  qed simp_all
qed

lemma set_content_result:
  assumes "vm_ok (length (heap_svs (snd s))) (fst s)"
  shows "py_ensures (\<lambda>_ s'. svs_grow (snd s) (snd s') \<and> vm_ok (length (heap_svs (snd s'))) (fst s')) (set_content v x s)"
  using svs_grow_set [of "snd s" v x] vm_ok_mono [OF assms]
  by (cases "on_sv v (sv_set x) (snd s)") (auto simp: set_content_def svs_grow_def)

section \<open>The variables of a request\<close>

text \<open>The nodes from \<open>n\<close> on have no variable yet.\<close>

definition unbound_from :: "node_ref \<Rightarrow> 'c graph_heap \<Rightarrow> bool" where
  "unbound_from n h \<longleftrightarrow> (\<forall>k < length (heap_nodes h). n \<le> k \<longrightarrow> node_sv (node_at h k) = None)"

lemma is_gen_set_sv [simp]: "is_gen (set_sv v x) = is_gen x"
  by (simp add: is_gen_def set_sv_def)

lemma struct_wf_fields:
  fixes h h' :: "'c graph_heap"
  assumes "struct_wf h" and "heap_chains h' = heap_chains h" and "length (heap_nodes h') = length (heap_nodes h)"
    and "\<And>n. n < length (heap_nodes h) \<Longrightarrow> is_gen (node_at h' n) = is_gen (node_at h n) \<and>
      edge_a_prev (node_at h' n) = edge_a_prev (node_at h n) \<and> edge_a_next (node_at h' n) = edge_a_next (node_at h n) \<and>
      completion_chain_of (node_at h' n) = completion_chain_of (node_at h n)"
  shows "struct_wf h'"
proof (rule struct_grow [OF assms(1)])
  show "edges_ok (heap_nodes h')"
    by (rule edges_ok_cong [of "heap_nodes h"]) (use assms in \<open>auto simp: struct_wf_def\<close>)
qed (use assms in auto)

lemma bind_node_wf:
  fixes h :: "'c graph_heap"
  assumes wf: "graph_wf h" and n: "n < length (heap_nodes h)" and un: "unbound_from n h" and v: "v < length (heap_svs h)"
    and fresh: "is_gen (node_at h n) \<Longrightarrow> \<forall>k < length (heap_nodes h). var_refs_ok v (node_at h k)"
  shows "graph_wf (on_node n (set_sv v) h)"
proof -
  let ?h = "on_node n (set_sv v) h"
  have vw: "vars_wf h" and st: "struct_wf h" using wf by (simp_all add: graph_wf_def)
  have len: "length (heap_nodes ?h) = length (heap_nodes h)" and svs: "heap_svs ?h = heap_svs h" "heap_chains ?h = heap_chains h"
    by (simp_all add: on_node_def)
  have nd: "node_at ?h k = (if k = n then set_sv v (node_at h n) else node_at h k)" if "k < length (heap_nodes h)" for k
    using that n by (simp add: on_node_def nth_list_update)
  have none: "node_sv (node_at h k) = None" if "n \<le> k" "k < length (heap_nodes h)" for k using un that by (simp add: unbound_from_def)
  have "struct_wf ?h"
    by (rule struct_wf_fields [OF st svs(2) len]) (simp add: nd set_sv_def is_gen_def)
  moreover have "var_refs_ok (length (heap_svs h)) (node_at ?h k)" if "k < length (heap_nodes h)" for k
    using vars_wfD(1) [OF vw that] nd [OF that] v by (auto simp: var_refs_ok_def set_sv_def)
  moreover have "gens_ordered (heap_nodes ?h)"
    unfolding gens_ordered_def len
  proof (intro allI impI)
    fix p u k w
    assume a: "p < length (heap_nodes h)" "is_gen (node_at ?h p)" "node_sv (node_at ?h p) = Some u" "k < p" "node_sv (node_at ?h k) = Some w"
    have kl: "k < length (heap_nodes h)" using a by simp
    have pn: "p \<le> n" using a(3) nd [OF a(1)] none a(1) by (metis nat_le_linear option.distinct(1))
    show "w < u"
    proof (cases "p = n")
      case True
      with a nd [OF kl] have "node_sv (node_at h k) = Some w" "u = v" "is_gen (node_at h n)" using n by (simp_all add: nd set_sv_def is_gen_def)
      with fresh kl show ?thesis by (simp add: var_refs_ok_def)
    next
      case False
      with pn a nd [OF kl] nd [OF a(1)] gens_orderedD [OF vars_wfD(2) [OF vw] a(1), of u k w] show ?thesis by simp
    qed
  qed
  moreover have wr: "writes (node_at ?h k) u \<longleftrightarrow> writes (node_at h k) u \<or> k = n \<and> is_gen (node_at h n) \<and> u = v" if "k < length (heap_nodes h)" for k u
    using none [of n] n nd [OF that] by (auto simp: writes_def is_gen_def set_sv_def)
  have "natives_ordered (heap_nodes ?h)"
    unfolding natives_ordered_def len
  proof (intro allI ballI impI)
    fix q w u
    assume q: "q < length (heap_nodes h)" and "w \<in> set (dict_values (input_vars (node_at ?h q)))" "u \<in> set (dict_values (output_vars (node_at ?h q)))"
    then have a: "w \<in> set (dict_values (input_vars (node_at h q)))" "u \<in> set (dict_values (output_vars (node_at h q)))"
      using nd [OF q] by (auto simp: set_sv_def split: if_splits)
    have "w \<noteq> v" if "is_gen (node_at h n)" using fresh [OF that] q a(1) by (auto simp: var_refs_ok_def)
    with natives_orderedD [OF vars_wfD(3) [OF vw] q a] wr
    show "w < u \<or> (\<forall>p < length (heap_nodes h). \<not> writes (node_at ?h p) w)" by blast
  qed
  moreover have "p < length (heap_nodes h) \<and> writes (node_at ?h p) u" if "u < length (heap_svs h)" "producer (sv_at h u) = Some p" for u p
    using vars_wfD(4) [OF vw that] wr by blast
  ultimately show ?thesis by (simp add: graph_wf_def vars_wf_def len svs)
qed

text \<open>The nodes keep their kind and the completion chain they belong to.\<close>

definition rows_kept :: "'c graph_heap \<Rightarrow> 'c graph_heap \<Rightarrow> bool" where
  "rows_kept h h' \<longleftrightarrow> (\<forall>n < length (heap_nodes h). is_gen (node_at h' n) = is_gen (node_at h n) \<and>
     completion_chain_of (node_at h' n) = completion_chain_of (node_at h n))"

lemma rows_kept_same [simp]: "heap_nodes h' = heap_nodes h \<Longrightarrow> rows_kept h h'"
  by (simp add: rows_kept_def)

lemma rows_kept_trans: "rows_kept h1 h2 \<Longrightarrow> rows_kept h2 h3 \<Longrightarrow> length (heap_nodes h2) = length (heap_nodes h1) \<Longrightarrow> rows_kept h1 h3"
  by (simp add: rows_kept_def)

lemma rows_kept_bind: "rows_kept h (on_node n (set_sv v) h)"
  by (cases "n < length (heap_nodes h)") (simp_all add: rows_kept_def on_node_def nth_list_update set_sv_def is_gen_def)

text \<open>What the loop over the nodes keeps, and what it has done behind \<open>n\<close>.\<close>

definition vars_step :: "node_ref \<Rightarrow> 'c graph_heap \<Rightarrow> 'c graph_heap \<Rightarrow> bool" where
  "vars_step n h h' \<longleftrightarrow>
    heap_requests h' = heap_requests h \<and> heap_chains h' = heap_chains h \<and> length (heap_nodes h') = length (heap_nodes h) \<and> rows_kept h h' \<and> (unbound_from n h \<longrightarrow> unbound_from (Suc n) h')"

definition vm_wf :: "('u, 'c) vm_state \<Rightarrow> bool" where
  "vm_wf s \<longleftrightarrow> graph_wf (snd s) \<and> vm_ok (length (heap_svs (snd s))) (fst s)"

lemma bind_after_result:
  fixes h :: "'c graph_heap"
  assumes wf: "graph_wf h" and n: "n < length (heap_nodes h)" and un: "unbound_from n h"
    and res: "py_ensures (vm_result (is_gen (node_at h n)) h) r"
  shows "py_ensures (\<lambda>_ s. vm_wf s \<and> vars_step n h (snd s)) (py_bind r (\<lambda>v s. bind_node n v s))"
proof (rule py_ensures_bind [OF res])
  fix e and s :: "('b, 'c) vm_state"
  assume "vm_result (is_gen (node_at h n)) h (Inl e) s"
  with graph_wf_svs_grow [OF wf] un show "vm_wf s \<and> vars_step n h (snd s)"
    by (auto simp: vm_result_def var_result_def vm_wf_def vars_step_def svs_grow_def unbound_from_def)
next
  fix v and s :: "('b, 'c) vm_state"
  assume "vm_result (is_gen (node_at h n)) h (Inr v) s"
  then have g: "svs_grow h (snd s)" and v: "v < length (heap_svs (snd s))" "is_gen (node_at h n) \<Longrightarrow> length (heap_svs h) \<le> v"
    and ok: "vm_ok (length (heap_svs (snd s))) (fst s)"
    by (simp_all add: vm_result_def var_result_def)
  have nodes: "heap_nodes (snd s) = heap_nodes h" and req: "heap_requests (snd s) = heap_requests h" "heap_chains (snd s) = heap_chains h" using g by (simp_all add: svs_grow_def)
  have "graph_wf (on_node n (set_sv v) (snd s))"
  proof (rule bind_node_wf [OF graph_wf_svs_grow [OF wf g]])
    show "unbound_from n (snd s)" using un by (simp add: unbound_from_def nodes)
  next
    assume "is_gen (node_at (snd s) n)"
    then have le: "length (heap_svs h) \<le> v" using v(2) nodes by simp
    have "vars_wf h" using wf by (simp add: graph_wf_def)
    with var_refs_ok_mono [OF _ le] vars_wfD(1) show "\<forall>k < length (heap_nodes (snd s)). var_refs_ok v (node_at (snd s) k)"
      unfolding nodes by blast
  qed (use n v nodes in simp_all)
  moreover have "vm_ok (length (heap_svs (on_node n (set_sv v) (snd s)))) (fst s)" using ok by (simp add: on_node_def)
  moreover have "vars_step n h (on_node n (set_sv v) (snd s))"
    using un req nodes rows_kept_bind [of "snd s" n v]
    by (auto simp: vars_step_def rows_kept_def on_node_def unbound_from_def nth_list_update)
  ultimately show "py_ensures (\<lambda>_ s. vm_wf s \<and> vars_step n h (snd s)) (bind_node n v s)"
    by (simp add: bind_node_def vm_wf_def)
qed

lemma create_node_var_wf:
  fixes h :: "'c graph_heap" and m :: "'u variable_manager"
  assumes wf: "vm_wf (m, h)" and n: "n < length (heap_nodes h)" and un: "unbound_from n h"
  shows "py_ensures (\<lambda>_ s. vm_wf s \<and> vars_step n h (snd s)) (create_node_var uuid3 now sid n flag (m, h))"
proof -
  have gw: "graph_wf h" and ok: "vm_ok (length (heap_svs h)) m" using wf by (simp_all add: vm_wf_def)
  note bind = bind_after_result [OF gw n un]
  have assoc: "py_bind a (\<lambda>v s. py_bind (f v s) (\<lambda>_ s. bind_node n v s)) = py_bind (py_bind a (\<lambda>v s. py_bind (f v s) (\<lambda>_ s. py_return v s))) (\<lambda>v s. bind_node n v s)"
    for a :: "(sv_ref, ('u, 'c) vm_state) py" and f :: "sv_ref \<Rightarrow> ('u, 'c) vm_state \<Rightarrow> (unit, ('u, 'c) vm_state) py"
    by (simp add: py_bind_def py_return_def split: prod.splits sum.splits)
  define flag' where "flag' = (flag \<and> \<not> has_placeholder (node_at h n))"
  have body: "py_ensures (\<lambda>_ s. vm_wf s \<and> vars_step n h (snd s))
    (case node_kind (node_at h n) of
       ConstantFill t \<Rightarrow>
         if flag' then py_bind (get_constant_prefix_var uuid3 now t (m, h)) (\<lambda>v s. bind_node n v s)
         else py_bind (get_local_var_by_content uuid3 sid t (m, h)) (\<lambda>v s. bind_node n v s)
     | PlaceholderFill param \<Rightarrow>
         if should_create param then
           py_bind (create_local_var_by_name uuid3 sid (param_name param) (m, h)) (\<lambda>v s.
           py_bind (py_bind (parrot_assert (has_value param) s) (\<lambda>_ s. set_content v (param_value param) s)) (\<lambda>_ s. bind_node n v s))
         else py_bind (get_local_var_by_id sid (param_var_id param) (m, h)) (\<lambda>v s. bind_node n v s)
     | PlaceholderGen param \<Rightarrow>
         py_bind (create_local_var_by_name uuid3 sid (param_name param) (m, h)) (\<lambda>v s. bind_node n v s)
     | NativeFuncNode _ \<Rightarrow> py_raise ParrotError (m, h))"
  proof (cases "node_kind (node_at h n)")
    case (ConstantFill t)
    then have ng: "is_gen (node_at h n) = False" by (simp add: is_gen_def)
    show ?thesis
      unfolding ConstantFill node_kind.case
      using bind [unfolded ng, OF get_constant_prefix_var_result [OF ok]] bind [unfolded ng, OF local_var_results(2) [OF ok]]
      by simp
  next
    case (PlaceholderFill param)
    then have ng: "is_gen (node_at h n) = False" by (simp add: is_gen_def)
    let ?set = "\<lambda>v s. py_bind (parrot_assert (has_value param) s) (\<lambda>_ s. set_content v (param_value param) s)"
    have set_ok: "py_ensures (\<lambda>_ s'. svs_grow (snd s) (snd s') \<and> vm_ok (length (heap_svs (snd s'))) (fst s')) (?set v s)"
      if "vm_ok (length (heap_svs (snd s))) (fst s)" for v and s :: "('u, 'c) vm_state"
      using set_content_result [OF that] that by (cases "has_value param") simp_all
    have "py_ensures (vm_result False h)
      (py_bind (create_local_var_by_name uuid3 sid (param_name param) (m, h)) (\<lambda>v s. py_bind (?set v s) (\<lambda>_ s. py_return v s)))"
    proof (rule py_ensures_bind [OF local_var_results(1) [OF ok]])
      fix v and s :: "('u, 'c) vm_state"
      assume s: "vm_result True h (Inr v) s"
      show "py_ensures (vm_result False h) (py_bind (?set v s) (\<lambda>_ s. py_return v s))"
        by (rule py_ensures_bind [OF set_ok])
           (use s svs_grow_trans [of h "snd s"] svs_grow_len [of "snd s"] in \<open>auto simp: vm_result_def var_result_def intro: less_le_trans\<close>)
    qed (simp add: vm_result_def var_result_def)
    from bind [unfolded ng, OF this] bind [unfolded ng, OF local_var_results(3) [OF ok]] show ?thesis
      unfolding PlaceholderFill node_kind.case assoc by simp
  next
    case (PlaceholderGen param)
    then have g: "is_gen (node_at h n) = True" by (simp add: is_gen_def)
    show ?thesis unfolding PlaceholderGen node_kind.case by (rule bind [unfolded g]) (rule local_var_results(1) [OF ok])
  next
    case (NativeFuncNode rq)
    with wf un show ?thesis by (auto simp: vars_step_def unbound_from_def)
  qed
  have reassoc: "py_bind (parrot_assert b s) (\<lambda>_ s. py_bind (f s) g) = py_bind (py_bind (parrot_assert b s) (\<lambda>_ s. f s)) g"
    for b and s :: "('u, 'c) vm_state" and f :: "('u, 'c) vm_state \<Rightarrow> (unit, ('u, 'c) vm_state) py" and g :: "unit \<Rightarrow> ('u, 'c) vm_state \<Rightarrow> (unit, ('u, 'c) vm_state) py"
    by (cases b) simp_all
  show ?thesis
    unfolding create_node_var_def Let_def snd_conv
    by (rule py_ensures_bind [OF body [unfolded flag'_def, folded reassoc]]) simp_all
qed

lemma create_node_vars_wf:
  fixes h :: "'c graph_heap" and m :: "'u variable_manager"
  assumes "vm_wf (m, h)" and "set ns \<subseteq> {..<length (heap_nodes h)}" and "increasing ns" and "\<And>n. n \<in> set ns \<Longrightarrow> unbound_from n h"
  shows "py_ensures (\<lambda>_ s. vm_wf s \<and> heap_requests (snd s) = heap_requests h \<and> heap_chains (snd s) = heap_chains h \<and> length (heap_nodes (snd s)) = length (heap_nodes h) \<and> rows_kept h (snd s))
    (create_node_vars uuid3 now sid ns flag (m, h))"
  using assms
proof (induction ns arbitrary: flag m h)
  case (Cons n ns)
  have n: "n < length (heap_nodes h)" "unbound_from n h" using Cons.prems by auto
  show ?case
    unfolding create_node_vars.simps
  proof (rule py_ensures_bind [OF create_node_var_wf [OF Cons.prems(1) n]])
    fix f and s :: "('u, 'c) vm_state"
    assume s: "vm_wf s \<and> vars_step n h (snd s)"
    obtain m1 h1 where s1: "s = (m1, h1)" by (cases s)
    have h1: "vm_wf (m1, h1)" "heap_requests h1 = heap_requests h" "heap_chains h1 = heap_chains h" "length (heap_nodes h1) = length (heap_nodes h)" "rows_kept h h1" "unbound_from (Suc n) h1"
      using s s1 n(2) by (simp_all add: vars_step_def)
    have "unbound_from k h1" if "k \<in> set ns" for k
      using h1(6) Cons.prems(3) that by (fastforce simp: unbound_from_def increasing_def)
    then have "py_ensures (\<lambda>_ s. vm_wf s \<and> heap_requests (snd s) = heap_requests h1 \<and> heap_chains (snd s) = heap_chains h1 \<and>
        length (heap_nodes (snd s)) = length (heap_nodes h1) \<and> rows_kept h1 (snd s)) (create_node_vars uuid3 now sid ns f s)"
      using Cons.IH [of m1 h1 f] h1 Cons.prems by (simp add: s1 increasing_def)
    from py_ensures_mono [OF this] h1 rows_kept_trans [OF h1(5)] show "py_ensures (\<lambda>_ s. vm_wf s \<and> heap_requests (snd s) = heap_requests h \<and> heap_chains (snd s) = heap_chains h \<and>
        length (heap_nodes (snd s)) = length (heap_nodes h) \<and> rows_kept h (snd s)) (create_node_vars uuid3 now sid ns f s)"
      by (simp add: s1 increasing_def)
  qed (simp add: vars_step_def)
qed simp

section \<open>Inserting into the graph\<close>

text \<open>The nodes agree in all that the order of the variables depends on, and producers are only added.\<close>

definition links_kept :: "'c graph_heap \<Rightarrow> 'c graph_heap \<Rightarrow> bool" where
  "links_kept h h' \<longleftrightarrow>
    heap_requests h' = heap_requests h \<and> length (heap_nodes h') = length (heap_nodes h) \<and> length (heap_svs h') = length (heap_svs h) \<and>
    map chain_first_node (heap_chains h') = map chain_first_node (heap_chains h) \<and>
    (\<forall>n < length (heap_nodes h). is_gen (node_at h' n) = is_gen (node_at h n) \<and> node_sv (node_at h' n) = node_sv (node_at h n) \<and>
       input_vars (node_at h' n) = input_vars (node_at h n) \<and> output_vars (node_at h' n) = output_vars (node_at h n) \<and>
       edge_a_prev (node_at h' n) = edge_a_prev (node_at h n) \<and> edge_a_next (node_at h' n) = edge_a_next (node_at h n) \<and>
       completion_chain_of (node_at h' n) = completion_chain_of (node_at h n))"

lemma links_kept_refl [simp]: "links_kept h h"
  by (simp add: links_kept_def)

lemma links_kept_trans: "links_kept h1 h2 \<Longrightarrow> links_kept h2 h3 \<Longrightarrow> links_kept h1 h3"
  by (simp add: links_kept_def)

lemma graph_wf_links:
  fixes h h' :: "'c graph_heap"
  assumes wf: "graph_wf h" and keep: "links_kept h h'"
    and prod: "\<And>v p. v < length (heap_svs h) \<Longrightarrow> producer (sv_at h' v) = Some p \<Longrightarrow> producer (sv_at h v) = Some p \<or>
      p < length (heap_nodes h) \<and> writes (node_at h p) v"
  shows "graph_wf h'"
proof -
  have len: "length (heap_nodes h') = length (heap_nodes h)" "length (heap_svs h') = length (heap_svs h)"
    using keep by (simp_all add: links_kept_def)
  have lc: "length (heap_chains h') = length (heap_chains h)"
    using keep map_eq_imp_length_eq by (auto simp: links_kept_def)
  have first: "chain_first_node (chain_at h' c) = chain_first_node (chain_at h c)" if "c < length (heap_chains h)" for c
  proof -
    have "map chain_first_node (heap_chains h') ! c = map chain_first_node (heap_chains h) ! c" using keep by (simp add: links_kept_def)
    with that lc show ?thesis by simp
  qed
  have nd: "is_gen (node_at h' n) = is_gen (node_at h n)" "node_sv (node_at h' n) = node_sv (node_at h n)"
      "input_vars (node_at h' n) = input_vars (node_at h n)" "output_vars (node_at h' n) = output_vars (node_at h n)"
      "edge_a_prev (node_at h' n) = edge_a_prev (node_at h n)" "edge_a_next (node_at h' n) = edge_a_next (node_at h n)"
      "completion_chain_of (node_at h' n) = completion_chain_of (node_at h n)" if "n < length (heap_nodes h)" for n
    using keep that by (simp_all add: links_kept_def)
  have st: "struct_wf h" and vw: "vars_wf h" using wf by (simp_all add: graph_wf_def)
  have "struct_wf (h'\<lparr>heap_chains := heap_chains h\<rparr>)"
    by (rule struct_wf_fields [OF st]) (simp_all add: len nd)
  then have "struct_wf h'" using first by (simp add: struct_wf_def lc)
  moreover have wr: "writes (node_at h' n) v = writes (node_at h n) v" if "n < length (heap_nodes h)" for n v
    using nd [OF that] by (simp add: writes_def)
  have "var_refs_ok (length (heap_svs h')) (node_at h' n)" if "n < length (heap_nodes h)" for n
    using vars_wfD(1) [OF vw that] nd [OF that] by (simp add: var_refs_ok_def len)
  moreover have "gens_ordered (heap_nodes h')"
    unfolding gens_ordered_def len
  proof (intro allI impI)
    fix p v n w
    assume a: "p < length (heap_nodes h)" "is_gen (node_at h' p)" "node_sv (node_at h' p) = Some v" "n < p" "node_sv (node_at h' n) = Some w"
    then have "n < length (heap_nodes h)" by simp
    with a nd gens_orderedD [OF vars_wfD(2) [OF vw] a(1), of v n w] show "w < v" by simp
  qed
  moreover have "natives_ordered (heap_nodes h')"
    unfolding natives_ordered_def len
  proof (intro allI ballI impI)
    fix q w v
    assume q: "q < length (heap_nodes h)" and a: "w \<in> set (dict_values (input_vars (node_at h' q)))" "v \<in> set (dict_values (output_vars (node_at h' q)))"
    have "w < v \<or> (\<forall>p < length (heap_nodes h). \<not> writes (node_at h p) w)"
      by (rule natives_orderedD [OF vars_wfD(3) [OF vw] q]) (use a nd [OF q] in simp_all)
    with wr show "w < v \<or> (\<forall>p < length (heap_nodes h). \<not> writes (node_at h' p) w)" by blast
  qed
  moreover have "p < length (heap_nodes h) \<and> writes (node_at h' p) v" if "v < length (heap_svs h)" "producer (sv_at h' v) = Some p" for v p
    using vars_wfD(4) [OF vw that(1), of p] prod [OF that] wr by blast
  ultimately show ?thesis by (simp add: graph_wf_def vars_wf_def len)
qed

text \<open>An update of a node that touches none of the linked fields, and an update of a variable.\<close>

lemma links_kept_node:
  assumes "\<And>x. is_gen (f x) = is_gen x \<and> node_sv (f x) = node_sv x \<and> input_vars (f x) = input_vars x \<and> output_vars (f x) = output_vars x \<and>
      edge_a_prev (f x) = edge_a_prev x \<and> edge_a_next (f x) = edge_a_next x \<and> completion_chain_of (f x) = completion_chain_of x"
  shows "links_kept h (on_node n f h)"
  using assms by (cases "n < length (heap_nodes h)") (simp_all add: links_kept_def on_node_def nth_list_update)

lemma graph_wf_node:
  assumes "graph_wf h"
    and "\<And>x. is_gen (f x) = is_gen x \<and> node_sv (f x) = node_sv x \<and> input_vars (f x) = input_vars x \<and> output_vars (f x) = output_vars x \<and>
      edge_a_prev (f x) = edge_a_prev x \<and> edge_a_next (f x) = edge_a_next x \<and> completion_chain_of (f x) = completion_chain_of x"
  shows "graph_wf (on_node n f h)"
  by (rule graph_wf_links [OF assms(1) links_kept_node [OF assms(2)]]) (simp add: on_node_def)

definition kept_wf :: "'c graph_heap \<Rightarrow> 'c graph_heap \<Rightarrow> bool" where
  "kept_wf h h' \<longleftrightarrow> graph_wf h' \<and> links_kept h h' \<and> heap_chains h' = heap_chains h"

lemma kept_wf_trans: "kept_wf h1 h2 \<Longrightarrow> kept_wf h2 h3 \<Longrightarrow> kept_wf h1 h3"
  using links_kept_trans by (auto simp: kept_wf_def)

lemma kept_writes: "kept_wf h h' \<Longrightarrow> n < length (heap_nodes h) \<Longrightarrow> writes (node_at h' n) v = writes (node_at h n) v"
  by (simp add: kept_wf_def links_kept_def writes_def)

lemma on_sv_kept:
  fixes h :: "'c graph_heap"
  assumes wf: "graph_wf h" and op: "op = assign_producer n \<and> n < length (heap_nodes h) \<and> writes (node_at h n) v \<or> op = add_consumer n"
  shows "py_ensures (\<lambda>_ h'. kept_wf h h') (on_sv v op h)"
proof -
  obtain r x where x: "op (sv_at h v) = (r, x)" by fastforce
  let ?h = "h\<lparr>heap_svs := (heap_svs h)[v := x]\<rparr>"
  have px: "producer x = producer (sv_at h v) \<or> producer x = Some n \<and> n < length (heap_nodes h) \<and> writes (node_at h n) v"
    using op x by (auto simp: assign_producer_def add_consumer_def parrot_assert_def py_return_def py_raise_def py_bind_def split: if_splits)
  have keep: "links_kept h ?h" by (simp add: links_kept_def)
  have "graph_wf ?h"
  proof (rule graph_wf_links [OF wf keep])
    fix u p
    assume u: "u < length (heap_svs h)" and p: "producer (sv_at ?h u) = Some p"
    show "producer (sv_at h u) = Some p \<or> p < length (heap_nodes h) \<and> writes (node_at h p) u"
    proof (cases "u = v")
      case True
      with u p have "producer x = Some p" by simp
      with px True show ?thesis by auto
    next
      case False
      with p show ?thesis by simp
    qed
  qed
  with keep x show ?thesis by (simp add: on_sv_def kept_wf_def)
qed

lemma for_svs_kept:
  fixes h :: "'c graph_heap"
  assumes "graph_wf h" and "op = assign_producer n \<and> n < length (heap_nodes h) \<and> (\<forall>v \<in> set vs. writes (node_at h n) v) \<or> op = add_consumer n"
  shows "py_ensures (\<lambda>_ h'. kept_wf h h') (for_svs op vs h)"
  unfolding for_svs_def
proof (rule py_ensures_for)
  fix v and h1 :: "'c graph_heap"
  assume v: "v \<in> set vs" and h1: "kept_wf h h1"
  have "py_ensures (\<lambda>_ h'. kept_wf h1 h') (on_sv v op h1)"
    by (rule on_sv_kept [where n = n]) (use h1 assms(2) v kept_writes [OF h1] in \<open>auto simp: kept_wf_def links_kept_def\<close>)
  then show "py_ensures (\<lambda>_ h'. kept_wf h h') (on_sv v op h1)"
    by (rule py_ensures_mono) (rule kept_wf_trans [OF h1])
qed (simp add: kept_wf_def assms(1))

lemma insert_node_kept:
  fixes h :: "'c graph_heap"
  assumes wf: "graph_wf h" and n: "n < length (heap_nodes h)"
  shows "py_ensures (\<lambda>_ s. kept_wf h (snd s)) (insert_node n (g, h))"
proof -
  obtain r p where p: "pool_allocate (node_id_pool g) = (r, p)" by fastforce
  show ?thesis
  proof (cases r)
    case (Inl e)
    with p wf show ?thesis by (simp add: insert_node_def Let_def kept_wf_def)
  next
    case (Inr i)
    let ?h = "on_node n (set_id_in_graph i) h"
    let ?nd = "node_at ?h n"
    have h1: "kept_wf h ?h"
      unfolding kept_wf_def
      by (intro conjI graph_wf_node [OF wf] links_kept_node) (simp_all add: set_id_in_graph_def is_gen_def on_node_def)
    have n1: "n < length (heap_nodes ?h)" using n by (simp add: on_node_def)
    show ?thesis
    proof (cases "is_native ?nd")
      case False
      show ?thesis
      proof (cases "node_sv ?nd")
        case None
        with False p Inr h1 show ?thesis by (simp add: insert_node_def Let_def get_node_sv_def)
      next
        case (Some v)
        have "py_ensures (\<lambda>_ h'. kept_wf ?h h') (on_sv v (if is_gen ?nd then assign_producer n else add_consumer n) ?h)"
          by (rule on_sv_kept [where n = n]) (use h1 n1 Some in \<open>auto simp: kept_wf_def writes_def\<close>)
        then have "py_ensures (\<lambda>_ h'. kept_wf h h') (on_sv v (if is_gen ?nd then assign_producer n else add_consumer n) ?h)"
          by (rule py_ensures_mono) (rule kept_wf_trans [OF h1])
        with False p Inr Some show ?thesis by (simp add: insert_node_def Let_def get_node_sv_def py_ensures_lift)
      qed
    next
      case True
      then have ng: "\<not> is_gen ?nd" by (auto simp: is_gen_def is_native_def split: node_kind.splits)
      have gw: "graph_wf ?h" using h1 by (simp add: kept_wf_def)
      have "py_ensures (\<lambda>_ h'. kept_wf ?h h')
        (py_bind (for_svs (add_consumer n) (dict_values (input_vars ?nd)) ?h) (\<lambda>_ h. for_svs (assign_producer n) (dict_values (output_vars ?nd)) h))"
      proof (rule py_ensures_bind)
        show "py_ensures (\<lambda>_ h'. kept_wf ?h h') (for_svs (add_consumer n) (dict_values (input_vars ?nd)) ?h)"
          by (rule for_svs_kept [where n = n]) (use gw in auto)
      next
        fix u and h2 :: "'c graph_heap"
        assume h2: "kept_wf ?h h2"
        have "py_ensures (\<lambda>_ h'. kept_wf h2 h') (for_svs (assign_producer n) (dict_values (output_vars ?nd)) h2)"
          by (rule for_svs_kept [where n = n])
             (use h2 n1 ng kept_writes [OF h2 n1] in \<open>auto simp: kept_wf_def links_kept_def writes_def\<close>)
        then show "py_ensures (\<lambda>_ h'. kept_wf ?h h') (for_svs (assign_producer n) (dict_values (output_vars ?nd)) h2)"
          by (rule py_ensures_mono) (rule kept_wf_trans [OF h2])
      qed simp
      then have "py_ensures (\<lambda>_ h'. kept_wf h h')
        (py_bind (for_svs (add_consumer n) (dict_values (input_vars ?nd)) ?h) (\<lambda>_ h. for_svs (assign_producer n) (dict_values (output_vars ?nd)) h))"
        by (rule py_ensures_mono) (rule kept_wf_trans [OF h1])
      with True p Inr show ?thesis by (simp add: insert_node_def Let_def py_ensures_lift)
    qed
  qed
qed

text \<open>A request chain: only its own parameter infos change besides.\<close>

definition inserted :: "'c graph_heap \<Rightarrow> 'c graph_heap \<Rightarrow> bool" where
  "inserted h h' \<longleftrightarrow> graph_wf h' \<and> length (heap_nodes h') = length (heap_nodes h) \<and> length (heap_svs h') = length (heap_svs h) \<and>
    heap_chains h' = heap_chains h \<and> map comp_chains (heap_requests h') = map comp_chains (heap_requests h) \<and> rows_kept h h'"

lemma inserted_trans: "inserted h1 h2 \<Longrightarrow> inserted h2 h3 \<Longrightarrow> inserted h1 h3"
  using rows_kept_trans [of h1 h2 h3] by (simp add: inserted_def)

lemma inserted_kept: "kept_wf h h' \<Longrightarrow> inserted h h'"
  by (simp add: kept_wf_def links_kept_def inserted_def rows_kept_def)

lemma graph_wf_request: "graph_wf (on_request r f h) \<longleftrightarrow> graph_wf h"
  by (simp add: graph_wf_def struct_wf_def vars_wf_def)

lemma insert_chain_node_wf:
  fixes h :: "'c graph_heap"
  assumes wf: "graph_wf h" and n: "n < length (heap_nodes h)"
  shows "py_ensures (\<lambda>_ s. inserted h (snd s)) (insert_chain_node rq n (g, h))"
  unfolding insert_chain_node_def
proof (rule py_ensures_bind [OF insert_node_kept [OF wf n]])
  fix u and s :: "'c graph_state"
  assume k: "kept_wf h (snd s)"
  obtain g1 h1 where s: "s = (g1, h1)" by (cases s)
  have i: "inserted h h1" using k s inserted_kept by simp
  have rows: "rows_kept h (on_request rq f h1)" for f using i by (simp add: inserted_def rows_kept_def)
  have r: "inserted h (on_request rq (\<lambda>r. r\<lparr>request_param_info := request_param_info r @ [x]\<rparr>) h1)" for x
    using i rows
    by (simp add: inserted_def graph_wf_request)
      (simp add: on_request_def map_update list_update_same_conv; metis list_update_id map_update request_chain.select_convs(5) request_chain.surjective request_chain.update_convs(6))
  show "py_ensures (\<lambda>_ s. inserted h (snd s)) (case s of (g, h) \<Rightarrow> py_bind (get_node_sv (node_at h n) (g, h)) (\<lambda>_ (g, h).
      if has_placeholder (node_at h n) then
        (case placeholder_param (node_at h n) of
           None \<Rightarrow> py_raise AttributeError (g, h)
         | Some parameter \<Rightarrow>
             py_return () (g, on_request rq (\<lambda>r. r\<lparr>request_param_info := request_param_info r @
               [\<lparr>info_parameter_name = param_name parameter, info_is_output = is_output parameter,
                 info_var_name = node_sv_name h (node_at h n), info_var_id = node_sv_id h (node_at h n)\<rparr>]\<rparr>) h))
      else py_return () (g, h)))"
    using i r by (cases "node_sv (node_at h1 n)") (auto simp: s get_node_sv_def split: option.splits)
qed (simp add: inserted_kept)

lemma insert_chain_nodes_wf:
  fixes h :: "'c graph_heap"
  assumes "graph_wf h" and "set ns \<subseteq> {..<length (heap_nodes h)}"
  shows "py_ensures (\<lambda>_ s. inserted h (snd s)) (py_for (insert_chain_node rq) ns (g, h))"
proof (rule py_ensures_for)
  fix n and s :: "'c graph_state"
  assume n: "n \<in> set ns" and s: "inserted h (snd s)"
  obtain g1 h1 where s1: "s = (g1, h1)" by (cases s)
  have "py_ensures (\<lambda>_ s. inserted h1 (snd s)) (insert_chain_node rq n (g1, h1))"
    by (rule insert_chain_node_wf) (use s s1 n assms(2) in \<open>auto simp: inserted_def\<close>)
  then show "py_ensures (\<lambda>_ s. inserted h (snd s)) (insert_chain_node rq n s)"
    unfolding s1 by (rule py_ensures_mono) (use s s1 inserted_trans in auto)
qed (simp add: inserted_def assms(1))

lemma insert_request_wf:
  fixes h :: "'c graph_heap"
  assumes wf: "graph_wf h" and rq: "first_node (request_at h rq) < length (heap_nodes h)"
  shows "pyo_ensures (\<lambda>_ s. inserted h (snd s)) (insert_and_update_request_chain rq (g, h))"
proof -
  have refl: "inserted h h" using wf by (simp add: inserted_def)
  have e: "edges_ok (heap_nodes h)" using wf by (simp add: graph_wf_def struct_wf_def)
  obtain ns where ns: "request_iter (heap_nodes h) (Some (first_node (request_at h rq))) = Some ns" "set ns \<subseteq> {..<length (heap_nodes h)}"
    using request_iter_returns [OF e rq] by fastforce
  have loop: "pyo_ensures (\<lambda>_ s. inserted h (snd s)) (pyo_bind (Some (py_for (insert_chain_node rq) ns (g, h)))
      (\<lambda>_ (g, h). Some (py_return () (g\<lparr>graph_chains := graph_chains g @ comp_chains (request_at h rq)\<rparr>, h))))" for g
    by (rule pyo_ensures_bind [where P = "\<lambda>_ s. inserted h (snd s)"])
       (use insert_chain_nodes_wf [OF wf ns(2)] in \<open>auto simp: pyo_ensures_Some_iff\<close>)
  obtain r where sv: "request_sv_created rq h = (r, h)"
    by (cases "node_sv (node_at h (first_node (request_at h rq)))") (auto simp: request_sv_created_def get_node_sv_def py_raise_def py_return_def)
  show ?thesis
  proof (cases r)
    case (Inl e)
    with sv refl show ?thesis by (simp add: insert_and_update_request_chain_def)
  next
    case (Inr b)
    with sv refl ns(1) loop [of g] show ?thesis
      by (cases b; cases "request_is_inserted rq h") (simp_all add: insert_and_update_request_chain_def parrot_assert_def)
  qed
qed

section \<open>Native functions\<close>

lemma add_output_wf:
  fixes h :: "'c graph_heap"
  assumes wf: "graph_wf h" and n: "n < length (heap_nodes h)" and ng: "\<not> is_gen (node_at h n)" and v: "v < length (heap_svs h)"
    and prod: "\<And>u. u < length (heap_svs h) \<Longrightarrow> producer (sv_at h u) \<noteq> Some n"
    and fresh: "\<And>k. k < length (heap_nodes h) \<Longrightarrow> var_refs_ok v (node_at h k)"
  shows "graph_wf (on_node n (\<lambda>x. x\<lparr>output_vars := dict_set key v (output_vars x)\<rparr>) h)"
proof -
  let ?f = "\<lambda>x :: 'c graph_node. x\<lparr>output_vars := dict_set key v (output_vars x)\<rparr>"
  let ?h = "on_node n ?f h"
  have vw: "vars_wf h" and st: "struct_wf h" using wf by (simp_all add: graph_wf_def)
  have len: "length (heap_nodes ?h) = length (heap_nodes h)" "heap_svs ?h = heap_svs h" "heap_chains ?h = heap_chains h" by (simp_all add: on_node_def)
  have nd: "node_at ?h k = (if k = n then ?f (node_at h n) else node_at h k)" if "k < length (heap_nodes h)" for k
    using that n by (simp add: on_node_def nth_list_update)
  have out: "u \<in> set (dict_values (output_vars (node_at ?h k))) \<Longrightarrow> u \<in> set (dict_values (output_vars (node_at h k))) \<or> k = n \<and> u = v"
    if "k < length (heap_nodes h)" for k u
    using nd [OF that] dict_set_subset [of key v "output_vars (node_at h n)"] by (auto split: if_splits)
  have same: "is_gen (node_at ?h k) = is_gen (node_at h k)" "node_sv (node_at ?h k) = node_sv (node_at h k)"
      "input_vars (node_at ?h k) = input_vars (node_at h k)" if "k < length (heap_nodes h)" for k
    using nd [OF that] by (simp_all add: is_gen_def)
  have "struct_wf ?h" by (rule struct_wf_fields [OF st len(3,1)]) (simp add: nd is_gen_def)
  moreover have "var_refs_ok (length (heap_svs h)) (node_at ?h k)" if "k < length (heap_nodes h)" for k
    using vars_wfD(1) [OF vw that, unfolded var_refs_ok_def] out [OF that] v unfolding var_refs_ok_def same [OF that] by blast
  moreover have "gens_ordered (heap_nodes ?h)"
    unfolding gens_ordered_def len
  proof (intro allI impI)
    fix p u k w
    assume a: "p < length (heap_nodes h)" "is_gen (node_at ?h p)" "node_sv (node_at ?h p) = Some u" "k < p" "node_sv (node_at ?h k) = Some w"
    then have "k < length (heap_nodes h)" by simp
    with a same gens_orderedD [OF vars_wfD(2) [OF vw] a(1), of u k w] show "w < u" by simp
  qed
  moreover have wr: "writes (node_at ?h k) u \<Longrightarrow> writes (node_at h k) u \<or> u = v" if "k < length (heap_nodes h)" for k u
    using same [OF that] out [OF that] by (auto simp: writes_def split: if_splits)
  have "natives_ordered (heap_nodes ?h)"
    unfolding natives_ordered_def len
  proof (intro allI ballI impI)
    fix q w u
    assume q: "q < length (heap_nodes h)" and a: "w \<in> set (dict_values (input_vars (node_at ?h q)))" "u \<in> set (dict_values (output_vars (node_at ?h q)))"
    have w: "w \<in> set (dict_values (input_vars (node_at h q)))" using a(1) same [OF q] by simp
    with fresh [OF q] have wv: "w < v" by (auto simp: var_refs_ok_def)
    from out [OF q a(2)] show "w < u \<or> (\<forall>p < length (heap_nodes h). \<not> writes (node_at ?h p) w)"
      using natives_orderedD [OF vars_wfD(3) [OF vw] q w, of u] wv wr by blast
  qed
  moreover have "p < length (heap_nodes h) \<and> writes (node_at ?h p) u" if u: "u < length (heap_svs h)" "producer (sv_at h u) = Some p" for u p
  proof -
    have "p \<noteq> n" using prod u by auto
    with vars_wfD(4) [OF vw u] nd [of p] show ?thesis by simp
  qed
  ultimately show ?thesis by (simp add: graph_wf_def vars_wf_def len)
qed

lemma add_input_wf:
  fixes h :: "'c graph_heap"
  assumes wf: "graph_wf h" and n: "n < length (heap_nodes h)" and v: "v < length (heap_svs h)"
    and old: "(\<forall>u \<in> set (dict_values (output_vars (node_at h n))). v < u) \<or> (\<forall>p < length (heap_nodes h). \<not> writes (node_at h p) v)"
  shows "graph_wf (on_node n (\<lambda>x. x\<lparr>input_vars := dict_set key v (input_vars x)\<rparr>) h)"
proof -
  let ?f = "\<lambda>x :: 'c graph_node. x\<lparr>input_vars := dict_set key v (input_vars x)\<rparr>"
  let ?h = "on_node n ?f h"
  have vw: "vars_wf h" and st: "struct_wf h" using wf by (simp_all add: graph_wf_def)
  have len: "length (heap_nodes ?h) = length (heap_nodes h)" "heap_svs ?h = heap_svs h" "heap_chains ?h = heap_chains h" by (simp_all add: on_node_def)
  have nd: "node_at ?h k = (if k = n then ?f (node_at h n) else node_at h k)" if "k < length (heap_nodes h)" for k
    using that n by (simp add: on_node_def nth_list_update)
  have inp: "u \<in> set (dict_values (input_vars (node_at ?h k))) \<Longrightarrow> u \<in> set (dict_values (input_vars (node_at h k))) \<or> k = n \<and> u = v"
    if "k < length (heap_nodes h)" for k u
    using nd [OF that] dict_set_subset [of key v "input_vars (node_at h n)"] by (auto split: if_splits)
  have same: "is_gen (node_at ?h k) = is_gen (node_at h k)" "node_sv (node_at ?h k) = node_sv (node_at h k)"
      "output_vars (node_at ?h k) = output_vars (node_at h k)" if "k < length (heap_nodes h)" for k
    using nd [OF that] by (simp_all add: is_gen_def)
  have "struct_wf ?h" by (rule struct_wf_fields [OF st len(3,1)]) (simp add: nd is_gen_def)
  moreover have "var_refs_ok (length (heap_svs h)) (node_at ?h k)" if "k < length (heap_nodes h)" for k
    using vars_wfD(1) [OF vw that, unfolded var_refs_ok_def] inp [OF that] v unfolding var_refs_ok_def same [OF that] by blast
  moreover have "gens_ordered (heap_nodes ?h)"
    unfolding gens_ordered_def len
  proof (intro allI impI)
    fix p u k w
    assume a: "p < length (heap_nodes h)" "is_gen (node_at ?h p)" "node_sv (node_at ?h p) = Some u" "k < p" "node_sv (node_at ?h k) = Some w"
    then have "k < length (heap_nodes h)" by simp
    with a same gens_orderedD [OF vars_wfD(2) [OF vw] a(1), of u k w] show "w < u" by simp
  qed
  moreover have wr: "writes (node_at ?h k) u = writes (node_at h k) u" if "k < length (heap_nodes h)" for k u
    using same [OF that] by (simp add: writes_def)
  have "natives_ordered (heap_nodes ?h)"
    unfolding natives_ordered_def len
  proof (intro allI ballI impI)
    fix q w u
    assume q: "q < length (heap_nodes h)" and a: "w \<in> set (dict_values (input_vars (node_at ?h q)))" "u \<in> set (dict_values (output_vars (node_at ?h q)))"
    have u: "u \<in> set (dict_values (output_vars (node_at h q)))" using a(2) same [OF q] by simp
    from inp [OF q a(1)] show "w < u \<or> (\<forall>p < length (heap_nodes h). \<not> writes (node_at ?h p) w)"
      using natives_orderedD [OF vars_wfD(3) [OF vw] q _ u, of w] old u wr by blast
  qed
  moreover have "p < length (heap_nodes h) \<and> writes (node_at ?h p) u" if "u < length (heap_svs h)" "producer (sv_at h u) = Some p" for u p
    using vars_wfD(4) [OF vw that] wr by blast
  ultimately show ?thesis by (simp add: graph_wf_def vars_wf_def len)
qed

text \<open>The ids of a session, and that they stay.\<close>

definition session_lookup :: "'u variable_manager \<Rightarrow> int \<Rightarrow> string \<Rightarrow> sv_ref option" where
  "session_lookup m sid t = (case map_of (session_namespaces m) sid of None \<Rightarrow> None | Some ns \<Rightarrow> map_of (ns_vars ns) t)"

lemma session_lookup_ok: "vm_ok k m \<Longrightarrow> session_lookup m sid t = Some v \<Longrightarrow> v < k"
  using ns_ok_lookup map_of_SomeD [of "session_namespaces m" sid]
  by (fastforce simp: session_lookup_def vm_ok_def split: option.splits)

lemma new_var_by_name_lookup:
  assumes "map_of (ns_vars (fst s)) t = Some v"
  shows "map_of (ns_vars (fst (snd (new_var_by_name uuid3 nm pre s)))) t = Some v"
  using assms
  by (cases s)
     (auto simp: new_var_by_name_def py_bind_def py_lift_def parrot_assert_def py_return_def py_raise_def alloc_sv_def Let_def
        map_of_eq_None_iff map_of_Some_key split: prod.splits sum.splits if_splits)

lemma create_local_var_lookup:
  assumes "session_lookup (fst s) sid t = Some v"
  shows "session_lookup (fst (snd (create_local_var_by_name uuid3 sid nm s))) sid t = Some v"
proof -
  obtain m h where s: "s = (m, h)" by (cases s)
  obtain ns where ns: "map_of (session_namespaces m) sid = Some ns" "map_of (ns_vars ns) t = Some v"
    using assms s by (auto simp: session_lookup_def split: option.splits)
  obtain r ns' h' where op: "new_var_by_name uuid3 nm False (ns, h) = (r, (ns', h'))" by (metis prod.exhaust)
  have "map_of (ns_vars ns') t = Some v" using new_var_by_name_lookup [of "(ns, h)" t v uuid3 nm False] ns(2) op by simp
  with ns(1) op show ?thesis by (simp add: s create_local_var_by_name_def in_session_def session_lookup_def)
qed

lemma get_local_var_by_id_lookup:
  "get_local_var_by_id sid vid s = (Inr v, s') \<Longrightarrow> \<exists>t. vid = JStr t \<and> session_lookup (fst s) sid t = Some v"
  by (cases s; cases vid)
     (auto simp: get_local_var_by_id_def in_session_def session_lookup_def get_var_by_id_def dict_get_def py_bind_def py_lift_def
        py_return_def py_raise_def split: option.splits prod.splits)

text \<open>
  A native node \<open>n\<close> while its variables are created: the ids that the session had before (\<open>ids\<close>) stand for
  variables below \<open>L\<close>, and the outputs of the node for later ones; every other id of the session is one of those
  that its namespace makes (\<open>created_ids\<close>). \<open>K\<close> is the number of chains and \<open>f\<close> the hash of the namespaces.
\<close>

definition created_ids :: "('u \<Rightarrow> string \<Rightarrow> string) \<Rightarrow> 'u variable_manager \<Rightarrow> int \<Rightarrow> string set" where
  "created_ids uuid3 m sid = (case map_of (session_namespaces m) sid of None \<Rightarrow> {} | Some ns \<Rightarrow> range (uuid3 (namespace_uuid ns)))"

definition native_building :: "('u \<Rightarrow> string \<Rightarrow> string) \<Rightarrow> string set \<Rightarrow> nat \<Rightarrow> int \<Rightarrow> nat \<Rightarrow> (string \<Rightarrow> sv_ref option) \<Rightarrow> node_ref \<Rightarrow> 'c native_request \<Rightarrow> ('u, 'c) vm_state \<Rightarrow> bool" where
  "native_building f own K sid L ids n rq s \<longleftrightarrow> vm_wf s \<and> length (heap_chains (snd s)) = K \<and> n < length (heap_nodes (snd s)) \<and> node_kind (node_at (snd s) n) = NativeFuncNode rq \<and>
    (\<forall>u < length (heap_svs (snd s)). producer (sv_at (snd s) u) \<noteq> Some n) \<and>
    (\<forall>u \<in> set (dict_values (output_vars (node_at (snd s) n))). L \<le> u) \<and> L \<le> length (heap_svs (snd s)) \<and>
    (\<forall>t v. ids t = Some v \<longrightarrow> v < L \<and> session_lookup (fst s) sid t = Some v) \<and>
    created_ids f (fst s) sid \<subseteq> own \<and> (\<forall>t v. session_lookup (fst s) sid t = Some v \<longrightarrow> ids t = Some v \<or> t \<in> own)"

text \<open>
  An id that a parameter names is an id of the session already, or one that no variable of the session can get: only
  a guess of an id that the namespace will make (\<open>own\<close>) is excluded.
\<close>

definition param_known :: "(string \<Rightarrow> sv_ref option) \<Rightarrow> string set \<Rightarrow> function_parameter \<Rightarrow> bool" where
  "param_known ids own param \<longleftrightarrow> should_create param \<or> (\<forall>t. param_var_id param = JStr t \<longrightarrow> ids t \<noteq> None \<or> t \<notin> own)"

text \<open>An operation adds to a session only ids that its namespace makes.\<close>

definition session_frame :: "('u \<Rightarrow> string \<Rightarrow> string) \<Rightarrow> int \<Rightarrow> 'u variable_manager \<Rightarrow> 'u variable_manager \<Rightarrow> bool" where
  "session_frame f sid m m' \<longleftrightarrow> created_ids f m' sid = created_ids f m sid \<and>
    (\<forall>t v. session_lookup m' sid t = Some v \<longrightarrow> session_lookup m sid t = Some v \<or> t \<in> created_ids f m sid)"

lemma session_frame_refl [simp]: "session_frame f sid m m"
  by (simp add: session_frame_def)

lemma new_var_by_name_frame:
  "namespace_uuid (fst (snd (new_var_by_name uuid3 nm pre s))) = namespace_uuid (fst s) \<and>
   (map_of (ns_vars (fst (snd (new_var_by_name uuid3 nm pre s)))) t = Some v \<longrightarrow>
     map_of (ns_vars (fst s)) t = Some v \<or> t \<in> range (uuid3 (namespace_uuid (fst s))))"
  by (cases s)
     (auto simp: new_var_by_name_def py_bind_def py_lift_def parrot_assert_def py_return_def py_raise_def alloc_sv_def Let_def
        get_hashed_var_id_def split: prod.splits sum.splits if_splits)

lemma create_local_var_frame:
  "session_frame uuid3 sid (fst s) (fst (snd (create_local_var_by_name uuid3 sid nm s)))"
proof -
  obtain m h where s: "s = (m, h)" by (cases s)
  show ?thesis
  proof (cases "map_of (session_namespaces m) sid")
    case None
    then show ?thesis by (simp add: s create_local_var_by_name_def in_session_def dict_get_def)
  next
    case (Some ns)
    obtain r ns' h' where op: "new_var_by_name uuid3 nm False (ns, h) = (r, (ns', h'))" by (metis prod.exhaust)
    with new_var_by_name_frame [of uuid3 nm False "(ns, h)"] Some show ?thesis
      by (auto simp: s create_local_var_by_name_def in_session_def session_frame_def created_ids_def session_lookup_def)
  qed
qed

lemma native_building_grow:
  assumes b: "native_building f own K sid L ids n rq s" and g: "svs_grow (snd s) (snd s')" and ok: "vm_ok (length (heap_svs (snd s'))) (fst s')"
    and look: "\<And>t v. session_lookup (fst s) sid t = Some v \<Longrightarrow> session_lookup (fst s') sid t = Some v"
    and ns: "session_frame f sid (fst s) (fst s')"
  shows "native_building f own K sid L ids n rq s'"
  using assms graph_wf_svs_grow [OF _ g] unfolding native_building_def vm_wf_def svs_grow_def session_frame_def by auto blast

text \<open>A variable for the parameter, with whether it was created.\<close>

definition param_var :: "('u \<Rightarrow> string \<Rightarrow> string) \<Rightarrow> int \<Rightarrow> json \<times> function_parameter \<Rightarrow> ('u, 'c) vm_state \<Rightarrow> (sv_ref, ('u, 'c) vm_state) py" where
  "param_var uuid3 sid kp s =
    (if should_create (snd kp) then
       py_bind (create_local_var_by_name uuid3 sid (fst kp) s) (\<lambda>v s.
         if has_value (snd kp) then py_bind (set_content v (param_value (snd kp)) s) (\<lambda>_ s. py_return v s)
         else py_return v s)
     else get_local_var_by_id sid (param_var_id (snd kp)) s)"

definition bind_param :: "node_ref \<Rightarrow> json \<times> function_parameter \<Rightarrow> sv_ref \<Rightarrow> 'c graph_heap \<Rightarrow> 'c graph_heap" where
  "bind_param n kp v h = on_node n (\<lambda>x. if py_truth (is_output (snd kp))
     then x\<lparr>output_vars := dict_set (fst kp) v (output_vars x)\<rparr>
     else x\<lparr>input_vars := dict_set (fst kp) v (input_vars x)\<rparr>) h"

lemma create_param_var_eq:
  "create_param_var uuid3 sid n kp s = py_bind (param_var uuid3 sid kp s) (\<lambda>v s. py_return () (fst s, bind_param n kp v (snd s)))"
  by (cases kp) (simp add: create_param_var_def param_var_def bind_param_def cong: if_cong)

lemma param_var_building:
  fixes s :: "('u, 'c) vm_state"
  assumes b: "native_building f own K sid L ids n rq s" and known: "param_known ids own (snd kp)"
  shows "py_ensures (\<lambda>r s'. native_building f own K sid L ids n rq s' \<and>
      (\<forall>v. r = Inr v \<longrightarrow> v < length (heap_svs (snd s')) \<and>
        (if should_create (snd kp) then L \<le> v \<and> (\<forall>k < length (heap_nodes (snd s')). var_refs_ok v (node_at (snd s') k)) else v < L)))
    (param_var f sid kp s)"
proof -
  obtain m h where s: "s = (m, h)" by (cases s)
  have ok: "vm_ok (length (heap_svs h)) m" and gw: "graph_wf h" and L: "L \<le> length (heap_svs h)"
    using b by (simp_all add: s native_building_def vm_wf_def)
  show ?thesis
  proof (cases "should_create (snd kp)")
    case False
    obtain r s' where op: "get_local_var_by_id sid (param_var_id (snd kp)) s = (r, s')" by (metis prod.exhaust)
    have res: "vm_result False h r s'" using local_var_results(3) [OF ok, of sid "param_var_id (snd kp)"] op by (simp add: s)
    have look: "session_lookup (fst s') sid t = Some v" if "session_lookup (fst s) sid t = Some v" for t v
      using op that by (auto simp: s get_local_var_by_id_def in_session_def session_lookup_def dict_get_def py_bind_def py_lift_def
          py_return_def py_raise_def split: option.splits prod.splits if_splits json.splits)
    have fr: "session_frame f sid (fst s) (fst s')"
      using op by (auto simp: s get_local_var_by_id_def in_session_def session_frame_def created_ids_def session_lookup_def dict_get_def
          py_bind_def py_lift_def py_return_def py_raise_def split: option.splits prod.splits if_splits json.splits)
    have nb: "native_building f own K sid L ids n rq s'"
      by (rule native_building_grow [OF b]) (use res look fr in \<open>auto simp: s vm_result_def var_result_def\<close>)
    have "v < L" if v: "r = Inr v" for v
    proof -
      obtain t where t: "param_var_id (snd kp) = JStr t" "session_lookup m sid t = Some v"
        using get_local_var_by_id_lookup [of sid "param_var_id (snd kp)" s v s'] op v s by auto
      moreover have "ids t = Some v \<or> t \<in> own" using b t(2) unfolding native_building_def s by auto
      ultimately obtain w where "ids t = Some w" using known False unfolding param_known_def by auto
      with b t(2) show ?thesis unfolding native_building_def s by auto
    qed
    with nb op False res show ?thesis by (simp add: param_var_def vm_result_def var_result_def)
  next
    case True
    have cr: "py_ensures (\<lambda>r s'. native_building f own K sid L ids n rq s' \<and> vm_result True h r s') (create_local_var_by_name f sid (fst kp) s)"
    proof -
      obtain r s' where op: "create_local_var_by_name f sid (fst kp) s = (r, s')" by (metis prod.exhaust)
      have res: "vm_result True h r s'" using local_var_results(1) [OF ok, of f sid "fst kp"] op by (simp add: s)
      have look: "session_lookup (fst s') sid t = Some v" if "session_lookup (fst s) sid t = Some v" for t v
        using create_local_var_lookup [OF that, of f "fst kp"] op by simp
      have fr: "session_frame f sid (fst s) (fst s')" using create_local_var_frame [of f sid s "fst kp"] op by simp
      have "native_building f own K sid L ids n rq s'"
        by (rule native_building_grow [OF b]) (use res look fr in \<open>auto simp: s vm_result_def var_result_def\<close>)
      with op res show ?thesis by simp
    qed
    have fresh: "L \<le> v \<and> (\<forall>k < length (heap_nodes h1). var_refs_ok v (node_at h1 k))" if "length (heap_svs h) \<le> v" "heap_nodes h1 = heap_nodes h" for v h1
    proof -
      have "vars_wf h" using gw by (simp add: graph_wf_def)
      with vars_wfD(1) var_refs_ok_mono that L show ?thesis by (metis le_trans)
    qed
    have "py_ensures (\<lambda>r s'. native_building f own K sid L ids n rq s' \<and>
        (\<forall>v. r = Inr v \<longrightarrow> v < length (heap_svs (snd s')) \<and> L \<le> v \<and> (\<forall>k < length (heap_nodes (snd s')). var_refs_ok v (node_at (snd s') k))))
      (py_bind (create_local_var_by_name f sid (fst kp) s) (\<lambda>v s.
         if has_value (snd kp) then py_bind (set_content v (param_value (snd kp)) s) (\<lambda>_ s. py_return v s)
         else py_return v s))"
    proof (rule py_ensures_bind [OF cr])
      fix v and s1 :: "('u, 'c) vm_state"
      assume a: "native_building f own K sid L ids n rq s1 \<and> vm_result True h (Inr v) s1"
      then have g: "svs_grow h (snd s1)" "length (heap_svs h) \<le> v" "v < length (heap_svs (snd s1))" "vm_ok (length (heap_svs (snd s1))) (fst s1)"
        by (simp_all add: vm_result_def var_result_def)
      let ?set = "set_content v (param_value (snd kp)) s1"
      have fst_set: "fst (snd ?set) = fst s1" by (cases "on_sv v (sv_set (param_value (snd kp))) (snd s1)") (simp add: set_content_def)
      have st: "svs_grow (snd s1) (snd (snd ?set)) \<and> vm_ok (length (heap_svs (snd (snd ?set)))) (fst (snd ?set))"
        using set_content_result [OF g(4), of v "param_value (snd kp)"] by (simp add: py_ensures_def)
      have nb: "native_building f own K sid L ids n rq (snd ?set)"
        by (rule native_building_grow [of f own K sid L ids n rq s1]) (use a st fst_set in auto)
      have nodes: "heap_nodes (snd s1) = heap_nodes h" "heap_nodes (snd (snd ?set)) = heap_nodes h" "v < length (heap_svs (snd (snd ?set)))"
        using g st by (auto simp: svs_grow_def)
      have "py_ensures (\<lambda>r s'. native_building f own K sid L ids n rq s' \<and>
          (\<forall>v. r = Inr v \<longrightarrow> v < length (heap_svs (snd s')) \<and> L \<le> v \<and> (\<forall>k < length (heap_nodes (snd s')). var_refs_ok v (node_at (snd s') k))))
        (py_bind ?set (\<lambda>_ s. py_return v s))"
        using nb nodes(3) fresh [OF g(2) nodes(2)] by (cases ?set; cases "fst ?set") auto
      with a g(3) fresh [OF g(2) nodes(1)] show "py_ensures (\<lambda>r s'. native_building f own K sid L ids n rq s' \<and>
          (\<forall>v. r = Inr v \<longrightarrow> v < length (heap_svs (snd s')) \<and> L \<le> v \<and> (\<forall>k < length (heap_nodes (snd s')). var_refs_ok v (node_at (snd s') k))))
        (if has_value (snd kp) then py_bind ?set (\<lambda>_ s. py_return v s) else py_return v s1)"
        by simp
    qed simp
    with True show ?thesis by (simp add: param_var_def)
  qed
qed

lemma create_param_var_building:
  fixes s :: "('u, 'c) vm_state"
  assumes b: "native_building f own K sid L ids n rq s" and known: "param_known ids own (snd kp)"
  shows "py_ensures (\<lambda>_ s'. native_building f own K sid L ids n rq s') (create_param_var f sid n kp s)"
  unfolding create_param_var_eq
proof (rule py_ensures_bind [OF param_var_building [OF b known]])
  fix v and s1 :: "('u, 'c) vm_state"
  assume a: "native_building f own K sid L ids n rq s1 \<and> (\<forall>u. Inr v = Inr u \<longrightarrow> u < length (heap_svs (snd s1)) \<and>
    (if should_create (snd kp) then L \<le> u \<and> (\<forall>k < length (heap_nodes (snd s1)). var_refs_ok u (node_at (snd s1) k)) else u < L))"
  let ?h = "snd s1"
  have nb: "native_building f own K sid L ids n rq s1" and v: "v < length (heap_svs ?h)" using a by simp_all
  have gw: "graph_wf ?h" and n: "n < length (heap_nodes ?h)" and ng: "\<not> is_gen (node_at ?h n)"
    and out: "\<forall>u \<in> set (dict_values (output_vars (node_at ?h n))). L \<le> u"
    using nb by (auto simp: native_building_def vm_wf_def is_gen_def)
  have fresh: "should_create (snd kp) \<Longrightarrow> L \<le> v \<and> (\<forall>k < length (heap_nodes ?h). var_refs_ok v (node_at ?h k))"
    and old: "\<not> should_create (snd kp) \<Longrightarrow> v < L" using a by simp_all
  have wf: "graph_wf (bind_param n kp v ?h)"
  proof (cases "py_truth (is_output (snd kp))")
    case True
    then have "should_create (snd kp)" by (simp add: should_create_def)
    with fresh nb have "graph_wf (on_node n (\<lambda>x. x\<lparr>output_vars := dict_set (fst kp) v (output_vars x)\<rparr>) ?h)"
      by (intro add_output_wf [OF gw n ng v]) (auto simp: native_building_def)
    with True show ?thesis by (simp add: bind_param_def)
  next
    case False
    have "\<not> writes (node_at ?h k) v" if "should_create (snd kp)" "k < length (heap_nodes ?h)" for k
      using fresh [OF that(1)] that(2) by (auto simp: writes_def var_refs_ok_def)
    with old out have "(\<forall>u \<in> set (dict_values (output_vars (node_at ?h n))). v < u) \<or> (\<forall>k < length (heap_nodes ?h). \<not> writes (node_at ?h k) v)"
      by (meson less_le_trans)
    from add_input_wf [OF gw n v this] False show ?thesis by (simp add: bind_param_def)
  qed
  have len: "length (heap_nodes (bind_param n kp v ?h)) = length (heap_nodes ?h)" "heap_svs (bind_param n kp v ?h) = heap_svs ?h"
    "heap_chains (bind_param n kp v ?h) = heap_chains ?h"
    by (simp_all add: bind_param_def on_node_def)
  have nd: "node_kind (node_at (bind_param n kp v ?h) n) = node_kind (node_at ?h n)" using n by (simp add: bind_param_def on_node_def)
  have "\<forall>u \<in> set (dict_values (output_vars (node_at (bind_param n kp v ?h) n))). L \<le> u"
  proof (cases "py_truth (is_output (snd kp))")
    case True
    then have "L \<le> v" using fresh by (simp add: should_create_def)
    with True out n dict_set_subset [of "fst kp" v "output_vars (node_at ?h n)"] show ?thesis
      by (fastforce simp: bind_param_def on_node_def)
  next
    case False
    with out n show ?thesis by (simp add: bind_param_def on_node_def)
  qed
  with nb wf len nd show "py_ensures (\<lambda>_ s'. native_building f own K sid L ids n rq s') (py_return () (fst s1, bind_param n kp v (snd s1)))"
    by (simp add: native_building_def vm_wf_def)
qed simp

lemma create_pynative_building:
  fixes s :: "('u, 'c) vm_state"
  assumes b: "native_building f own K sid L ids n rq s" and known: "list_all (\<lambda>kp. param_known ids own (snd kp)) (native_parameters_map rq)"
  shows "py_ensures (\<lambda>_ s'. native_building f own K sid L ids n rq s') (create_vars_for_pynative_func f sid n s)"
proof -
  have k: "node_kind (node_at (snd s) n) = NativeFuncNode rq" using b by (simp add: native_building_def)
  show ?thesis
    unfolding create_vars_for_pynative_func_def k node_kind.case
  proof (rule py_ensures_for)
    fix kp and s1 :: "('u, 'c) vm_state"
    assume "kp \<in> set (native_parameters_map rq)" "native_building f own K sid L ids n rq s1"
    with known show "py_ensures (\<lambda>_ s'. native_building f own K sid L ids n rq s') (create_param_var f sid n kp s1)"
      by (intro create_param_var_building) (auto simp: list_all_iff)
  qed (rule b)
qed

lemma native_param_step_kept:
  fixes s :: "'c graph_state"
  assumes "graph_wf (snd s)"
  shows "py_ensures (\<lambda>_ s'. kept_wf (snd s) (snd s')) (native_param_step n kp s)"
proof -
  obtain key param g h where e: "kp = (key, param)" "s = (g, h)" by (cases kp; cases s)
  have "kept_wf h (on_node n (\<lambda>x. x\<lparr>node_param_info := f x\<rparr>) h)" for f
    unfolding kept_wf_def
    by (intro conjI graph_wf_node links_kept_node) (use assms e in \<open>simp_all add: is_gen_def on_node_def\<close>)
  moreover have "kept_wf h h" using assms e by (simp add: kept_wf_def)
  ultimately show ?thesis
    by (auto simp: e native_param_step_def Let_def dict_get_def split: option.splits)
qed

lemma insert_native_wf:
  fixes h :: "'c graph_heap"
  assumes wf: "graph_wf h" and n: "n < length (heap_nodes h)"
  shows "py_ensures (\<lambda>_ s. kept_wf h (snd s)) (insert_native_func_node n (g, h))"
  unfolding insert_native_func_node_def
proof (rule py_ensures_bind [OF insert_node_kept [OF wf n]])
  fix u and s :: "'c graph_state"
  assume k: "kept_wf h (snd s)"
  show "py_ensures (\<lambda>_ s. kept_wf h (snd s)) (case node_kind (node_at (snd s) n) of
      NativeFuncNode rq \<Rightarrow> py_for (native_param_step n) (native_parameters_map rq) s
    | _ \<Rightarrow> py_raise AttributeError s)"
  proof (cases "node_kind (node_at (snd s) n)")
    case (NativeFuncNode rq)
    have "py_ensures (\<lambda>_ s. kept_wf h (snd s)) (py_for (native_param_step n) (native_parameters_map rq) s)"
    proof (rule py_ensures_for)
      fix kp and s1 :: "'c graph_state"
      assume s1: "kept_wf h (snd s1)"
      then have "py_ensures (\<lambda>_ s'. kept_wf (snd s1) (snd s')) (native_param_step n kp s1)"
        by (intro native_param_step_kept) (simp add: kept_wf_def)
      then show "py_ensures (\<lambda>_ s. kept_wf h (snd s)) (native_param_step n kp s1)"
        by (rule py_ensures_mono) (rule kept_wf_trans [OF s1])
    qed (rule k)
    with NativeFuncNode show ?thesis by simp
  qed (use k in simp_all)
qed simp

text \<open>The node of a native call before its variables are created.\<close>

lemma new_native_building:
  fixes h :: "'c graph_heap" and m :: "'u variable_manager"
  assumes wf: "vm_wf (m, h)" and al: "alloc_node (new_native_node rq) h = (n, h')"
  shows "native_building f (created_ids f m sid) (length (heap_chains h)) sid (length (heap_svs h)) (session_lookup m sid) n rq (m, h')"
proof -
  let ?L = "length (heap_nodes h)"
  have gw: "graph_wf h" and ok: "vm_ok (length (heap_svs h)) m" using wf by (simp_all add: vm_wf_def)
  have n: "n = ?L" and h': "heap_nodes h' = heap_nodes h @ [new_native_node rq]" "heap_svs h' = heap_svs h" "heap_chains h' = heap_chains h"
    using al by (auto simp: alloc_node_def)
  have st: "struct_wf h" and vw: "vars_wf h" using gw by (simp_all add: graph_wf_def)
  have old: "node_at h' k = node_at h k" if "k < ?L" for k using that h' by (simp add: nth_append)
  have new: "node_at h' ?L = new_native_node rq" by (simp add: h')
  have e2: "edges_ok (heap_nodes h')"
  proof -
    have e: "edges_ok (heap_nodes h)" using st by (simp add: struct_wf_def)
    show ?thesis
      unfolding edges_ok_def
    proof (intro allI impI)
      fix k
      assume k: "k < length (heap_nodes h')"
      show "(\<forall>m. edge_a_next (node_at h' k) = Some m \<longrightarrow> k < m \<and> m < length (heap_nodes h')) \<and>
          (\<forall>m. edge_a_prev (node_at h' k) = Some m \<longrightarrow> m < k)"
      proof (cases "k = ?L")
        case True
        then show ?thesis by (simp add: new new_native_node_def new_semantic_node_def)
      next
        case False
        then have "k < ?L" using k h' by simp
        with e old [of k] show ?thesis unfolding edges_ok_def h' by (metis length_append_singleton less_Suc_eq)
      qed
    qed
  qed
  have "struct_wf h'"
    by (rule struct_grow [OF st _ h'(3) e2])
       (use old new h' in \<open>auto simp: less_Suc_eq_le new_native_node_def new_semantic_node_def\<close>)
  moreover have "adds_row h h'"
    using old new h' by (auto simp: adds_row_def less_Suc_eq_le new_native_node_def new_semantic_node_def)
  then have "vars_wf h'" by (rule vars_wf_row [OF vw])
  moreover have "producer (sv_at h u) \<noteq> Some n" if "u < length (heap_svs h)" for u
    using vars_wfD(4) [OF vw that, of n] n by auto
  ultimately show ?thesis
    using ok session_lookup_ok [OF ok] new
    by (auto simp: native_building_def vm_wf_def graph_wf_def n h' new_native_node_def new_semantic_node_def)
qed

section \<open>Activation\<close>

lemma graph_wf_evolves:
  fixes h h' :: "'c graph_heap"
  assumes wf: "graph_wf h" and ev: "evolves h h'"
  shows "graph_wf h'"
proof -
  let ?h = "h'\<lparr>heap_requests := heap_requests h\<rparr>"
  have nodes: "heap_nodes h' = heap_nodes h" using ev by (simp add: evolves_def)
  have "links_kept h ?h" using ev evolves_length(1) [OF ev] nodes by (simp add: links_kept_def evolves_def)
  then have "graph_wf ?h"
    by (rule graph_wf_links [OF wf]) (use evolves_producer [OF ev] in simp)
  then show ?thesis by (simp add: graph_wf_def struct_wf_def vars_wf_def)
qed

definition activated :: "'c graph_heap \<Rightarrow> 'c graph_heap \<Rightarrow> bool" where
  "activated h h' \<longleftrightarrow> graph_wf h' \<and> evolves h h'"

text \<open>On a graph in order the traversal returns.\<close>

lemma activate_sv_wf:
  fixes h :: "'c graph_heap"
  assumes wf: "graph_wf h" and v: "v < length (heap_svs h)"
  shows "pyo_ensures (\<lambda>_ h'. activated h h') (activate_sv v crit h)"
proof -
  obtain r h' where "activate_sv v crit h = Some (r, h')" "evolves h h'"
    using activate_sv_ok [OF graph_wf_ranked [OF wf] _ v, of False crit] by (auto simp: depths_when_def)
  with graph_wf_evolves [OF wf] show ?thesis by (simp add: activated_def)
qed

end
