(* ===== verification/Serve_Core.thy ===== *)
theory Serve_Core
  imports Graph_Executor Graph_Growth
begin

text \<open>
  \<^verbatim>\<open>serve/core.py\<close>: the calls of the HTTP API and the serving loop, over the state of \<^verbatim>\<open>Session_Manager\<close>, together with the
  coroutines of the executors. \<open>core_reach\<close> are the states that calls, iterations of the loop and steps of the
  coroutines lead to, in any order. A payload is a JSON dictionary; the clock is read once per call and
  is an argument, and so is the UUID that a new session draws. Configuration parsing and log lines
  are left out.
\<close>

section \<open>The calls\<close>

type_synonym payload = "(string, json) dict"

definition new_serve_core :: "'u \<Rightarrow> global_scheduler_config \<Rightarrow> int \<Rightarrow> int \<Rightarrow> int \<Rightarrow> ('u, 'code, 'tok) serve_core" where
  "new_serve_core u cfg life heartbeat_timeout prefix_timeout =
    \<lparr>core_heap = empty_heap, var_mgr = new_variable_manager u prefix_timeout,
     global_sched = new_global_scheduler cfg (new_engine_manager [] new_context_manager heartbeat_timeout),
     task_id_pool = new_pool None False, session_objs = [], sessions = [], session_id_pool = new_pool None False,
     session_last_access_time = [], session_life_span = life, coroutines = [], task_chains = [], posts = [], core_down = False\<rparr>"

datatype core_reply =
    EngineId int
  | SessionId int
  | Accepted
  | Submitted int "param_info list"
  | VarId string
  | AwaitVar sv_ref

definition core_register_engine :: "('u, 'code, 'tok) environment \<Rightarrow> int \<Rightarrow> engine_config \<Rightarrow> ('u, 'code, 'tok) serve_core \<Rightarrow>
    (core_reply, ('u, 'code, 'tok) serve_core) py" where
  "core_register_engine env now cfg s =
    py_bind (in_engines (register_engine (env_lib env) now cfg) s) (\<lambda>eid s. py_return (EngineId eid) s)"

definition core_engine_heartbeat :: "int \<Rightarrow> int \<Rightarrow> engine_runtime_info \<Rightarrow> ('u, 'code, 'tok) serve_core \<Rightarrow>
    (core_reply, ('u, 'code, 'tok) serve_core) py" where
  "core_engine_heartbeat now eid info s =
    py_bind (in_engines (engine_heartbeat now eid info) s) (\<lambda>_ s. py_return Accepted s)"

definition core_register_session :: "'u \<Rightarrow> int \<Rightarrow> ('u, 'code, 'tok) serve_core \<Rightarrow> (core_reply, ('u, 'code, 'tok) serve_core) py" where
  "core_register_session u now s = py_bind (register_session u now s) (\<lambda>sid s. py_return (SessionId sid) s)"

definition core_remove_session :: "('u, 'code, 'tok) environment \<Rightarrow> int \<Rightarrow> ('u, 'code, 'tok) serve_core \<Rightarrow>
    (core_reply, ('u, 'code, 'tok) serve_core) py" where
  "core_remove_session env sid s =
    py_bind (check_session_status (JInt sid) s) (\<lambda>sid s.
    py_bind (remove_session (env_net env) sid s) (\<lambda>_ s. py_return Accepted s))"

text \<open>Both kinds of calls: the session of the payload is checked, its access time is updated and the request added.\<close>

definition core_submit_call :: "('u, 'code, 'tok) environment \<Rightarrow> int \<Rightarrow> payload \<Rightarrow> bool \<Rightarrow> ('u, 'code, 'tok) serve_core \<Rightarrow>
    (core_reply, ('u, 'code, 'tok) serve_core) pyo" where
  "core_submit_call env now payload native s =
    pyo_bind (Some (dict_get payload ''session_id'' s)) (\<lambda>key s.
    pyo_bind (Some (check_session_status key s)) (\<lambda>sid s.
    pyo_bind (Some (session_access_update now sid s)) (\<lambda>_ s.
    pyo_bind (Some (get_session sid s)) (\<lambda>r s.
    pyo_bind (add_request (env_uuid3 env) (env_deserialize env) now r payload native s) (\<lambda>(rid, info) s.
      Some (py_return (Submitted rid info) s))))))"

definition register_semantic_variable :: "('u, 'code, 'tok) environment \<Rightarrow> int \<Rightarrow> payload \<Rightarrow> ('u, 'code, 'tok) serve_core \<Rightarrow>
    (core_reply, ('u, 'code, 'tok) serve_core) pyo" where
  "register_semantic_variable env now payload s =
    pyo_bind (Some (dict_get payload ''session_id'' s)) (\<lambda>key s.
    pyo_bind (Some (dict_get payload ''var_name'' s)) (\<lambda>nm s.
    pyo_bind (Some (check_session_status key s)) (\<lambda>sid s.
    pyo_bind (Some (session_access_update now sid s)) (\<lambda>_ s.
    pyo_bind (in_vars (\<lambda>x. Some (create_var (env_uuid3 env) sid nm x)) s) (\<lambda>v s.
      Some (py_return (VarId (var_id (sv_at (core_heap s) v))) s))))))"

text \<open>The log line behind \<^verbatim>\<open>var.set\<close> evaluates \<^verbatim>\<open>len(content)\<close>.\<close>

definition set_semantic_variable :: "int \<Rightarrow> string \<Rightarrow> payload \<Rightarrow> ('u, 'code, 'tok) serve_core \<Rightarrow>
    (core_reply, ('u, 'code, 'tok) serve_core) pyo" where
  "set_semantic_variable now vid payload s =
    pyo_bind (Some (dict_get payload ''session_id'' s)) (\<lambda>key s.
    pyo_bind (Some (dict_get payload ''content'' s)) (\<lambda>x s.
    pyo_bind (Some (check_session_status key s)) (\<lambda>sid s.
    pyo_bind (Some (session_access_update now sid s)) (\<lambda>_ s.
    pyo_bind (in_vars (\<lambda>x. Some (get_var sid vid x)) s) (\<lambda>v s.
    pyo_bind (in_heap (\<lambda>h. Some (on_sv v (sv_set x) h)) s) (\<lambda>_ s.
      if has_len x then Some (py_return Accepted s) else Some (py_raise TypeError s)))))))"

text \<open>
  \<^verbatim>\<open>get_semantic_variable\<close> up to its await, and the rest once the variable is ready. A criteria that is no string
  equals none of the known ones.
\<close>

definition get_semantic_variable :: "int \<Rightarrow> string \<Rightarrow> payload \<Rightarrow> ('u, 'code, 'tok) serve_core \<Rightarrow>
    (core_reply, ('u, 'code, 'tok) serve_core) pyo" where
  "get_semantic_variable now vid payload s =
    pyo_bind (Some (dict_get payload ''session_id'' s)) (\<lambda>key s.
    pyo_bind (Some (dict_get payload ''criteria'' s)) (\<lambda>crit s.
    pyo_bind (Some (check_session_status key s)) (\<lambda>sid s.
    pyo_bind (Some (session_access_update now sid s)) (\<lambda>_ s.
    pyo_bind (in_vars (\<lambda>x. Some (get_var sid vid x)) s) (\<lambda>v s.
    pyo_bind (if has_producer (sv_at (core_heap s) v) \<and> \<not> sv_is_activated (sv_at (core_heap s) v)
              then pyo_bind (Some (case crit of JStr t \<Rightarrow> get_performance_criteria t s | _ \<Rightarrow> py_raise NotImplementedError s))
                     (\<lambda>c s. in_heap (activate_sv v c) s)
              else Some (py_return () s)) (\<lambda>_ s.
      Some (py_return (AwaitVar v) s)))))))"

definition get_semantic_variable_rest :: "sv_ref \<Rightarrow> ('u, 'code, 'tok) serve_core \<Rightarrow> (json, ('u, 'code, 'tok) serve_core) py option" where
  "get_semantic_variable_rest v s =
    (if sv_is_ready (sv_at (core_heap s) v) then Some (sv_get (sv_at (core_heap s) v) s) else None)"

datatype 'u core_request =
    RegisterEngine engine_config
  | EngineHeartbeat int engine_runtime_info
  | RegisterSession 'u
  | RemoveSession int
  | SubmitSemanticCall payload
  | SubmitPyNativeCall payload
  | RegisterVariable payload
  | SetVariable string payload
  | GetVariable string payload

definition core_call :: "('u, 'code, 'tok) environment \<Rightarrow> int \<Rightarrow> 'u core_request \<Rightarrow> ('u, 'code, 'tok) serve_core \<Rightarrow>
    (core_reply, ('u, 'code, 'tok) serve_core) pyo" where
  "core_call env now rq s =
    (case rq of
       RegisterEngine cfg \<Rightarrow> Some (core_register_engine env now cfg s)
     | EngineHeartbeat eid info \<Rightarrow> Some (core_engine_heartbeat now eid info s)
     | RegisterSession u \<Rightarrow> Some (core_register_session u now s)
     | RemoveSession sid \<Rightarrow> Some (core_remove_session env sid s)
     | SubmitSemanticCall p \<Rightarrow> core_submit_call env now p False s
     | SubmitPyNativeCall p \<Rightarrow> core_submit_call env now p True s
     | RegisterVariable p \<Rightarrow> register_semantic_variable env now p s
     | SetVariable vid p \<Rightarrow> set_semantic_variable now vid p s
     | GetVariable vid p \<Rightarrow> get_semantic_variable now vid p s)"

section \<open>The serving loop\<close>

text \<open>
  The tasks hold their chains by reference; the views of the chains are brought up to date before the
  scheduler reads them.
\<close>

definition refresh_tasks :: "('u, 'code, 'tok) serve_core \<Rightarrow> ('u, 'code, 'tok) serve_core option" where
  "refresh_tasks s =
    map_option (\<lambda>chs. s\<lparr>global_sched := (global_sched s)\<lparr>gs_tasks :=
        map2 (\<lambda>ch t. t\<lparr>chain := ch\<rparr>) chs (gs_tasks (global_sched s))\<rparr>\<rparr>)
      (those (map (chain_view (core_heap s)) (task_chains s)))"

definition drop_prefix_contexts :: "('u, 'code, 'tok) environment \<Rightarrow> sv_ref list \<Rightarrow> ('u, 'code, 'tok) serve_core \<Rightarrow>
    (unit, ('u, 'code, 'tok) serve_core) py" where
  "drop_prefix_contexts env vs s =
    py_for (\<lambda>v s. in_contexts (free_constant_prefix_contexts (core_store s) (env_net env) (var_id (sv_at (core_heap s) v))) s) vs s"

definition serve_iteration :: "('u, 'code, 'tok) environment \<Rightarrow> int \<Rightarrow> ('u, 'code, 'tok) serve_core \<Rightarrow>
    (unit, ('u, 'code, 'tok) serve_core) pyo" where
  "serve_iteration env now s =
    pyo_bind (Some (check_running_sessions now s)) (\<lambda>_ s.
    pyo_bind (Some (sweep_not_running_sessions (env_net env) s)) (\<lambda>_ s.
    pyo_bind (Some (in_engines (update_expired_engines now) s)) (\<lambda>_ s.
    pyo_bind (Some (in_engines sweep_not_running_engines s)) (\<lambda>_ s.
    pyo_bind (in_vars (\<lambda>x. Some (free_expired_constant_prefix_vars now x)) s) (\<lambda>vs s.
    pyo_bind (Some (drop_prefix_contexts env vs s)) (\<lambda>_ s.
      Option.bind (refresh_tasks s) (\<lambda>s.
        Some (py_lift (\<lambda>gs. s\<lparr>global_sched := gs\<rparr>) (schedule (global_sched s))))))))))"

section \<open>Reachable states\<close>

text \<open>
  The session that a payload addresses, if the call gets as far as adding its request. An input of a native call that
  names a variable by its id names one that this session has, or an id that no variable of the session can get (then the call
  raises). The id of an output of the same call, which the client would have to guess, could close a cycle.
\<close>

definition addressed_session :: "payload \<Rightarrow> ('u, 'code, 'tok) serve_core \<Rightarrow> session_ref option" where
  "addressed_session p s =
    (case map_of p ''session_id'' of
       None \<Rightarrow> None
     | Some key \<Rightarrow> (case int_key key of Inr (Some sid) \<Rightarrow> map_of (sessions s) sid | _ \<Rightarrow> None))"

definition request_known :: "('u, 'code, 'tok) environment \<Rightarrow> 'u core_request \<Rightarrow> ('u, 'code, 'tok) serve_core \<Rightarrow> bool" where
  "request_known env rq s \<longleftrightarrow>
    (case rq of
       SubmitPyNativeCall p \<Rightarrow>
         (case addressed_session p s of
            None \<Rightarrow> True
          | Some r \<Rightarrow>
              (let sid = sess_id (session_at s r)
               in case parse_native_from_payload (env_deserialize env) (request_id_counter (session_at s r)) sid p of
                    Inl _ \<Rightarrow> True
                  | Inr nrq \<Rightarrow>
                      list_all (\<lambda>kp. param_known (session_lookup (var_mgr s) sid) (created_ids (env_uuid3 env) (var_mgr s) sid) (snd kp))
                        (native_parameters_map nrq)))
     | _ \<Rightarrow> True)"

inductive core_reach :: "('u, 'code, 'tok) environment \<Rightarrow> ('u, 'code, 'tok) serve_core \<Rightarrow> bool" for env where
  reach_init: "core_reach env (new_serve_core u cfg life hb pt)"
| reach_call: "core_reach env s \<Longrightarrow> request_known env rq s \<Longrightarrow> core_call env now rq s = Some (x, s') \<Longrightarrow> core_reach env s'"
| reach_loop: "core_reach env s \<Longrightarrow> serve_iteration env now s = Some (x, s') \<Longrightarrow> core_reach env s'"
| reach_coroutine: "core_reach env s \<Longrightarrow> k < length (coroutines s) \<Longrightarrow> coroutine_step env resp k s = Some s' \<Longrightarrow> core_reach env s'"

end
