(* ===== verification/Context_Filling.thy ===== *)
theory Context_Filling
  imports Graph_Executor
begin

text \<open>
  Who fills a context. Tasks share the contexts of a common prefix; the coroutine that starts a context
  posts its filling, and the others wait for its ready event. The theorems say that a context is
  posted by one coroutine only, that nothing but the answer to that post makes it ready,
  and what a failed post leaves behind.
\<close>

section \<open>The contexts of a step\<close>

abbreviation ctxs :: "('u, 'code, 'tok) serve_core \<Rightarrow> ctx list" where
  "ctxs s \<equiv> ctx_heap (core_contexts s)"

text \<open>No context is lost or gets another id, no event is cleared, and only contexts of \<open>R\<close> become ready.\<close>

definition ctx_step :: "context_ref set \<Rightarrow> ctx list \<Rightarrow> ctx list \<Rightarrow> bool" where
  "ctx_step R a b \<longleftrightarrow> length a \<le> length b \<and>
    (\<forall>c < length a. context_id (b ! c) = context_id (a ! c) \<and> (start_event (a ! c) \<longrightarrow> start_event (b ! c)) \<and>
       (ctx.ready_event (a ! c) \<longrightarrow> ctx.ready_event (b ! c)) \<and> (ctx.ready_event (b ! c) \<longrightarrow> ctx.ready_event (a ! c) \<or> c \<in> R))"

lemma ctx_step_refl [simp]: "ctx_step R a a"
  by (simp add: ctx_step_def)

lemma ctx_step_trans: "ctx_step R a b \<Longrightarrow> ctx_step R b d \<Longrightarrow> ctx_step R a d"
proof -
  assume a: "ctx_step R a b" and b: "ctx_step R b d"
  have "context_id (d ! c) = context_id (a ! c) \<and> (start_event (a ! c) \<longrightarrow> start_event (d ! c)) \<and>
      (ctx.ready_event (a ! c) \<longrightarrow> ctx.ready_event (d ! c)) \<and> (ctx.ready_event (d ! c) \<longrightarrow> ctx.ready_event (a ! c) \<or> c \<in> R)"
    if c: "c < length a" for c
  proof -
    have "c < length b" using a c by (simp add: ctx_step_def)
    then have "context_id (d ! c) = context_id (b ! c) \<and> (start_event (b ! c) \<longrightarrow> start_event (d ! c)) \<and>
      (ctx.ready_event (b ! c) \<longrightarrow> ctx.ready_event (d ! c)) \<and> (ctx.ready_event (d ! c) \<longrightarrow> ctx.ready_event (b ! c) \<or> c \<in> R)"
      using b by (simp add: ctx_step_def)
    moreover have "context_id (b ! c) = context_id (a ! c) \<and> (start_event (a ! c) \<longrightarrow> start_event (b ! c)) \<and>
      (ctx.ready_event (a ! c) \<longrightarrow> ctx.ready_event (b ! c)) \<and> (ctx.ready_event (b ! c) \<longrightarrow> ctx.ready_event (a ! c) \<or> c \<in> R)"
      using a c by (simp add: ctx_step_def)
    ultimately show ?thesis by auto
  qed
  with a b show ?thesis by (simp add: ctx_step_def)
qed

lemma ctx_step_mono: "ctx_step {} a b \<Longrightarrow> ctx_step R a b"
  by (auto simp: ctx_step_def)

lemma ctx_step_append: "ctx_step R a (a @ xs)"
  by (simp add: ctx_step_def nth_append)

lemma ctx_step_start: "ctx_step R a (a[c := start_event_update (\<lambda>_. True) (a ! c)])"
  by (cases "c < length a") (auto simp: ctx_step_def nth_list_update)

lemma ctx_step_ready: "ctx_step {c} a (a[c := ctx.ready_event_update (\<lambda>_. True) (a ! c)])"
  by (cases "c < length a") (auto simp: ctx_step_def nth_list_update)

text \<open>A part of a step that posts nothing.\<close>

definition quiet :: "context_ref set \<Rightarrow> ('u, 'code, 'tok) serve_core \<Rightarrow> ('u, 'code, 'tok) serve_core \<Rightarrow> bool" where
  "quiet R s s' \<longleftrightarrow> ctx_step R (ctxs s) (ctxs s') \<and> posts s' = posts s \<and> coroutines s' = coroutines s"

lemma quiet_refl [simp]: "quiet R s s"
  by (simp add: quiet_def)

lemma quiet_trans: "quiet R s s1 \<Longrightarrow> quiet R s1 s2 \<Longrightarrow> quiet R s s2"
  using ctx_step_trans by (auto simp: quiet_def)

lemma quiet_mono: "quiet {} s s' \<Longrightarrow> quiet R s s'"
  by (simp add: quiet_def ctx_step_mono)

lemma quiet_fields [simp]:
  "quiet R s (s'\<lparr>core_heap := h\<rparr>) = quiet R s s'" "quiet R s (s'\<lparr>var_mgr := v\<rparr>) = quiet R s s'"
  "quiet R s (s'\<lparr>task_id_pool := p\<rparr>) = quiet R s s'" "quiet R s (s'\<lparr>session_objs := x\<rparr>) = quiet R s s'"
  "quiet R s (s'\<lparr>task_chains := y\<rparr>) = quiet R s s'" "quiet R s (on_session r f s') = quiet R s s'"
  "quiet R s (on_task t g s') = quiet R s s'" "quiet R s (exception_interrupt r e s') = quiet R s s'"
  "quiet R s (refresh_task t ch s') = quiet R s s'"
  by (simp_all add: quiet_def on_session_def on_task_def exception_interrupt_def refresh_task_def)

lemma quiet_sched:
  "ctx_heap (em_context_mgr (gs_engine_mgr g)) = ctxs s' \<Longrightarrow> quiet R s (s'\<lparr>global_sched := g\<rparr>) = quiet R s s'"
  by (simp add: quiet_def)

lemma quiet_start: "quiet R s (start_ctx c s)"
  by (simp add: quiet_def start_ctx_def on_ctx_def put_contexts_def ctx_step_start)

lemma quiet_ready: "quiet {c} s (ready_ctx c s)"
  by (simp add: quiet_def ready_ctx_def on_ctx_def put_contexts_def ctx_step_ready)

abbreviation quietly :: "context_ref set \<Rightarrow> ('u, 'code, 'tok) serve_core \<Rightarrow> ('a, ('u, 'code, 'tok) serve_core) py \<Rightarrow> bool" where
  "quietly R s r \<equiv> py_ensures (\<lambda>_ s'. quiet R s s') r"

lemma quietly_bind:
  assumes "quietly R s r" and "\<And>x s1. quietly R s1 (f x s1)"
  shows "quietly R s (py_bind r f)"
proof (rule py_ensures_bind [OF assms(1)])
  fix x s1
  assume "quiet R s s1"
  with assms(2) [of s1 x] quiet_trans show "quietly R s (f x s1)" by (auto simp: py_ensures_def)
qed

subsection \<open>What frees and binds contexts\<close>

lemma free_context_heap: "ctx_heap (snd (free_context_obj E net c m)) = ctx_heap m"
  by (simp add: free_context_obj_def Let_def py_bind_def py_lift_def parrot_assert_def dict_get_def py_return_def py_raise_def
      split: option.split prod.split sum.split if_split)

lemma free_refs_heap: "ctx_heap (snd (free_refs E net cs visited m)) = ctx_heap m"
proof (induction cs arbitrary: visited m)
  case (Cons c cs)
  have "py_ensures (\<lambda>_ m'. ctx_heap m' = ctx_heap m) (free_context_obj E net c m)"
    by (simp add: py_ensures_def free_context_heap)
  then have "py_ensures (\<lambda>_ m'. ctx_heap m' = ctx_heap m)
      (py_bind (free_context_obj E net c m) (\<lambda>_ m. free_refs E net cs (insert (cid_of m c) visited) m))"
    by (rule py_ensures_bind) (use Cons.IH in \<open>simp_all add: py_ensures_def\<close>)
  with Cons.IH show ?case by (simp add: py_ensures_def)
qed simp

definition extends :: "context_manager \<Rightarrow> context_manager \<Rightarrow> bool" where
  "extends m m' \<longleftrightarrow> (\<exists>xs. ctx_heap m' = ctx_heap m @ xs)"

lemma extends_refl [simp]: "extends m m"
  by (simp add: extends_def)

lemma extends_trans: "extends a b \<Longrightarrow> extends b c \<Longrightarrow> extends a c"
  by (auto simp: extends_def)

lemma extends_eq: "ctx_heap m' = ctx_heap m1 \<Longrightarrow> extends m m' = extends m m1"
  by (simp add: extends_def)

lemma enter_extends: "py_ensures (\<lambda>_ m'. extends m m') (enter_context x m)"
  by (simp add: enter_context_def Let_def add_ref_counter_def extends_def)

lemma new_contexts_extend:
  "py_ensures (\<lambda>_ m'. extends m m') (new_context e m)" "py_ensures (\<lambda>_ m'. extends m m') (fork_context c m)"
proof -
  have alloc: "py_ensures (\<lambda>_ m'. extends m m') (allocate_context_id m)" for m
    by (simp add: allocate_context_id_def py_ensures_def py_lift_def extends_def)
  have enter: "py_ensures (\<lambda>_ m'. extends m m') (enter_context x m1)" if "extends m m1" for x m1
    by (rule py_ensures_mono [OF enter_extends]) (rule extends_trans [OF that])
  show "py_ensures (\<lambda>_ m'. extends m m') (new_context e m)"
    unfolding new_context_def by (rule py_ensures_bind [OF alloc _ enter])
  show "py_ensures (\<lambda>_ m'. extends m m') (fork_context c m)"
    unfolding fork_context_def by (rule py_ensures_bind [OF alloc _ enter])
qed

lemma constant_prefix_heap: "py_ensures (\<lambda>_ m'. ctx_heap m' = ctx_heap m) (add_constant_prefix v c m)"
proof -
  have "ctx_heap (add_ref_counter c m) = ctx_heap m" for m by (simp add: add_ref_counter_def Let_def)
  then show ?thesis
    unfolding add_constant_prefix_def Let_def
    by (intro py_ensures_bind [where P = "\<lambda>_ m'. ctx_heap m' = ctx_heap m"]) (simp_all add: py_ensures_def parrot_assert_def py_return_def py_raise_def)
qed

lemma make_context_extends: "py_ensures (\<lambda>_ m'. extends m m') (make_node_context t eng node m)"
proof -
  have prefix: "py_ensures (\<lambda>_ m'. extends m m') (py_bind (add_constant_prefix v c m1) (\<lambda>_ m. py_return c m))" if "extends m m1" for v c m1
    by (rule py_ensures_bind [OF constant_prefix_heap]) (use that in \<open>simp_all add: extends_def\<close>)
  have "py_ensures (\<lambda>_ m'. extends m m') (py_bind (new_context eng m) (\<lambda>c m.
         if node_is_constant_prefix node
         then py_bind (add_constant_prefix (node_var_id node) c m) (\<lambda>_ m. py_return c m)
         else py_return c m))"
    by (rule py_ensures_bind [OF new_contexts_extend(1)]) (use prefix in auto)
  then show ?thesis by (simp add: make_node_context_def new_contexts_extend)
qed

lemma set_nodes_extends: "py_ensures (\<lambda>_ s'. extends m (snd s')) (set_nodes E eng nodes h no_cache (t, m))"
proof (induction nodes arbitrary: h no_cache t m)
  case (Cons node nodes)
  have rest: "py_ensures (\<lambda>_ s'. extends m (snd s')) (set_nodes E eng nodes h' b (t', m'))" if "extends m m'" for h' b t' m'
    by (rule py_ensures_mono [OF Cons.IH]) (rule extends_trans [OF that])
  have ref: "extends m (add_ref_counter c m)" for c by (simp add: add_ref_counter_def Let_def extends_def)
  have reuse: "py_ensures (\<lambda>_ s'. extends m (snd s')) (py_bind (dict_get (mgr_contexts m) cid (t, m)) (\<lambda>c (t, m).
            set_nodes E eng nodes h' False (t\<lparr>contexts := contexts t @ [c]\<rparr>, add_ref_counter c m)))" for cid h'
    by (cases "map_of (mgr_contexts m) cid") (simp_all add: dict_get_def rest ref)
  have make: "py_ensures (\<lambda>_ s'. extends m (snd s')) (py_lift (Pair t) (make_node_context t eng node m))"
    using make_context_extends [of m t eng node] by (simp add: py_ensures_def py_lift_def)
  have cache: "py_ensures (\<lambda>_ s'. extends m (snd s')) (py_bind (py_lift (\<lambda>pc. (t', m'\<lparr>prefix_caches := dict_set k pc (prefix_caches m')\<rparr>)) r) (\<lambda>_ s.
                set_nodes E eng nodes h' True s))" if "extends m m'" for t' m' k h' and r :: "(unit, prefix_cache) py"
  proof (rule py_ensures_bind [where P = "\<lambda>_ s'. extends m (snd s')"])
    fix u and s :: "completion_task \<times> context_manager"
    assume "extends m (snd s)"
    with rest show "py_ensures (\<lambda>_ s'. extends m (snd s')) (set_nodes E eng nodes h' True s)" by (cases s) simp
  qed (use that in \<open>simp_all add: py_ensures_def py_lift_def extends_def\<close>)
  have "py_ensures (\<lambda>_ s'. extends m (snd s')) (py_bind (py_lift (Pair t) (make_node_context t eng node m)) (\<lambda>c (t, m).
            let t = t\<lparr>contexts := contexts t @ [c]\<rparr> in
            if \<not> node_is_gen node then
              py_bind (py_lift (\<lambda>pc. (t, m\<lparr>prefix_caches := dict_set eid pc (prefix_caches m)\<rparr>))
                         (cache_prefix_context h' (cid_of m c) (cache_of m eid))) (\<lambda>_ s.
                set_nodes E eng nodes h' True s)
            else set_nodes E eng nodes h' True (t, m)))" for eid h'
  proof (rule py_ensures_bind [OF make])
    fix c and s :: "completion_task \<times> context_manager"
    assume s: "extends m (snd s)"
    obtain t' m' where t': "s = (t', m')" by (cases s)
    with s have m': "extends m m'" by simp
    show "py_ensures (\<lambda>_ s'. extends m (snd s')) ((\<lambda>(t, m).
            let t = t\<lparr>contexts := contexts t @ [c]\<rparr> in
            if \<not> node_is_gen node then
              py_bind (py_lift (\<lambda>pc. (t, m\<lparr>prefix_caches := dict_set eid pc (prefix_caches m)\<rparr>))
                         (cache_prefix_context h' (cid_of m c) (cache_of m eid))) (\<lambda>_ s.
                set_nodes E eng nodes h' True s)
            else set_nodes E eng nodes h' True (t, m)) s)"
      unfolding t' Let_def prod.case using rest [OF m'] cache [OF m'] by simp
  qed simp
  with reuse show ?case by (simp add: Let_def)
qed simp

lemma set_contexts_extends: "py_ensures (\<lambda>_ s'. extends m (snd s')) (set_task_contexts E (t, m))"
  using set_nodes_extends [of m E]
  by (simp add: set_task_contexts_def parrot_assert_def dict_get_def split: option.split)

subsection \<open>The parts of a step\<close>

lemma quietly_same: "snd r = s \<Longrightarrow> quietly R s r"
  by (simp add: py_ensures_def)

lemma quietly_finish: "quietly R s (finish_chain env t s)"
proof -
  have "quietly R s (in_contexts (free_task_contexts (core_store s) (env_net env) (core_task s t)) s)" for s :: "('a, 'b, 'c) serve_core"
    by (simp add: py_ensures_def in_contexts_def in_engines_def py_lift_def quiet_sched free_task_contexts_def free_refs_heap)
  moreover have "quietly R s (py_lift (\<lambda>(p, es). s\<lparr>task_id_pool := p,
                 global_sched := (global_sched s)\<lparr>gs_engine_mgr := (core_engines s)\<lparr>engine_objs := es\<rparr>\<rparr>\<rparr>) r)"
    for s :: "('a, 'b, 'c) serve_core" and r :: "(unit, recycle_pool \<times> execution_engine list) py"
    by (simp add: py_ensures_def py_lift_def quiet_sched split: prod.split)
  ultimately show ?thesis
    unfolding finish_chain_def by (intro quietly_bind) simp_all
qed

lemma quietly_fail_node: "quietly R s (fail_node r t c e s)"
proof -
  have "ctx_heap (em_context_mgr (snd (raise_exception eid x m))) = ctx_heap (em_context_mgr m)" for eid x and m :: "'c engine_manager"
    by (cases "map_of (engines m) eid") (simp_all add: raise_exception_def dict_get_def)
  then have "quietly R s (in_engines (raise_exception eid x) s)" for eid x
    by (simp add: py_ensures_def in_engines_def py_lift_def quiet_sched)
  then show ?thesis
    unfolding fail_node_def by (rule quietly_bind) simp
qed

lemma quietly_fail_finish: "quietly R s (py_bind (fail_node r t c e s) (\<lambda>_ s. finish_chain env t s))"
  by (rule quietly_bind [OF quietly_fail_node quietly_finish])

text \<open>The context that a primitive is for.\<close>

fun sent_context :: "sent_primitive \<Rightarrow> int" where
  "sent_context (FillTokens sid tid cid pid ids) = cid"
| "sent_context (FillText sid tid cid pid x) = cid"
| "sent_context (GenerateWith sid tid cid pid sc) = cid"

definition made_for :: "int \<Rightarrow> ('u, 'code, 'tok) serve_core \<Rightarrow> (sent_primitive, ('u, 'code, 'tok) serve_core) py \<Rightarrow> bool" where
  "made_for cid s r \<longleftrightarrow> global_sched (snd r) = global_sched s \<and> posts (snd r) = posts s \<and> coroutines (snd r) = coroutines s \<and>
    (case fst r of Inr p \<Rightarrow> sent_context p = cid | Inl e \<Rightarrow> True)"

lemma primitives_made:
  "made_for (context_id (core_ctx s c)) s (generate_primitive r t n c loc s)"
  "made_for (context_id (core_ctx s c)) s (fill_primitive r t n i c loc s)"
proof -
  show "made_for (context_id (core_ctx s c)) s (generate_primitive r t n c loc s)"
    by (simp add: made_for_def generate_primitive_def Let_def py_return_def py_raise_def split: option.split prod.split json.split)
  show "made_for (context_id (core_ctx s c)) s (fill_primitive r t n i c loc s)"
    by (simp add: made_for_def fill_primitive_def Let_def dict_get_def py_bind_def py_lift_def py_return_def py_raise_def
        split: option.split prod.split sum.split)
qed

text \<open>
  What a step may do: at most one post, for a context that no one had started, which is started now and which the
  coroutine waits for.
\<close>

definition posts_once :: "('u, 'code, 'tok) serve_core \<Rightarrow> py_error + chain_stage \<Rightarrow> ('u, 'code, 'tok) serve_core \<Rightarrow> bool" where
  "posts_once s x s' \<longleftrightarrow>
    (posts s' = posts s \<or>
     (\<exists>t i loc url p. x = Inr (AwaitResponse t i loc) \<and> posts s' = posts s @ [(url, p)] \<and>
        (let c = contexts (core_task s' t) ! i in
           (c < length (ctxs s) \<longrightarrow> \<not> start_event (core_ctx s c)) \<and>
           (c < length (ctxs s') \<longrightarrow> start_event (core_ctx s' c) \<and> sent_context p = context_id (core_ctx s' c)))))"

definition step_ok :: "context_ref set \<Rightarrow> ('u, 'code, 'tok) serve_core \<Rightarrow> py_error + chain_stage \<Rightarrow> ('u, 'code, 'tok) serve_core \<Rightarrow> bool" where
  "step_ok R s x s' \<longleftrightarrow> ctx_step R (ctxs s) (ctxs s') \<and> posts_once s x s' \<and> coroutines s' = coroutines s"

lemma quiet_step: "quiet R s s' \<Longrightarrow> step_ok R s x s'"
  by (simp add: quiet_def step_ok_def posts_once_def)

lemma quiet_then: 
  assumes "quiet R s s1" and "step_ok R s1 x s'"
  shows "step_ok R s x s'"
proof -
  have "ctx_step R (ctxs s) (ctxs s')" using assms ctx_step_trans by (auto simp: quiet_def step_ok_def)
  moreover have "c < length (ctxs s1) \<and> (start_event (core_ctx s c) \<longrightarrow> start_event (core_ctx s1 c))" if "c < length (ctxs s)" for c
    using assms(1) that by (simp add: quiet_def ctx_step_def)
  then have "posts_once s x s'"
    using assms by (fastforce simp: quiet_def step_ok_def posts_once_def Let_def)
  ultimately show ?thesis using assms by (simp add: step_ok_def quiet_def)
qed

abbreviation steps_ok :: "context_ref set \<Rightarrow> ('u, 'code, 'tok) serve_core \<Rightarrow> (chain_stage, ('u, 'code, 'tok) serve_core) py \<Rightarrow> bool" where
  "steps_ok R s r \<equiv> py_ensures (step_ok R s) r"

lemma quietly_steps: "quietly R s r \<Longrightarrow> steps_ok R s r"
  by (erule py_ensures_mono) (rule quiet_step)

lemma quiet_steps: "quiet R s s1 \<Longrightarrow> steps_ok R s1 r \<Longrightarrow> steps_ok R s r"
  by (erule py_ensures_mono) (rule quiet_then)

lemma execute_from_ok: "steps_ok R s (execute_from env r t loc i ns s)"
proof (induction ns arbitrary: i s)
  case Nil
  show ?case by (simp add: quietly_steps quietly_finish)
next
  case (Cons n ns)
  define c where "c = contexts (core_task s t) ! i"
  define p where "p = (if is_gen (node_at (core_heap s) n) then generate_primitive r t n c loc (start_ctx c s)
                  else fill_primitive r t n i c loc (start_ctx c s))"
  obtain x s1 where x: "p = (x, s1)" by (cases p)
  have made: "made_for (context_id (core_ctx (start_ctx c s) c)) (start_ctx c s) p"
    using primitives_made [where s = "start_ctx c s" and c = c] by (cases "is_gen (node_at (core_heap s) n)") (simp_all add: p_def)
  have s1: "global_sched s1 = global_sched (start_ctx c s)" "posts s1 = posts s" "coroutines s1 = coroutines s"
    using made x by (simp_all add: made_for_def start_ctx_def on_ctx_def put_contexts_def)
  have q: "quiet R s s1" using quiet_start [of R s c] s1 by (simp add: quiet_def)
  have t: "contexts (core_task s1 t) ! i = c"
    using s1(1) by (simp add: c_def start_ctx_def on_ctx_def put_contexts_def)
  have st: "start_event (core_ctx s1 c)" if "c < length (ctxs s1)"
    using that s1(1) by (simp add: start_ctx_def on_ctx_def put_contexts_def)
  have body: "steps_ok R s (case p of
      (Inl e, s) \<Rightarrow> py_bind (fail_node r t c (e, True) s) (\<lambda>_ s. finish_chain env t s)
    | (Inr q, s) \<Rightarrow> py_return (AwaitResponse t i loc) (s\<lparr>posts := posts s @ [(engine_url (core_store s) (core_ctx s c), q)]\<rparr>))"
    if ns: "\<not> start_event (core_ctx s c)"
  proof (cases x)
    case (Inl e)
    with x quiet_steps [OF q quietly_steps [OF quietly_fail_finish]] show ?thesis by simp
  next
    case (Inr y)
    have "sent_context y = context_id (core_ctx s1 c)"
      using made x Inr s1(1) by (simp add: made_for_def)
    with x Inr q s1(2) t st ns show ?thesis by (simp add: step_ok_def posts_once_def quiet_def)
  qed
  show ?case
    using Cons.IH body
    unfolding execute_from.simps Let_def c_def [symmetric] p_def [symmetric] by (simp add: quiet_step)
qed

section \<open>A step of a chain\<close>

lemma quietly_node_result: "quietly R s (node_result env n loc ids answer s)"
proof -
  have "quietly R s (case loc of Some (name, eos) \<Rightarrow> py_lift (\<lambda>_. s) (detokenize (env_lib env) ids name (em_tokenizers (core_engines s)))
            | None \<Rightarrow> py_return answer s)"
    by (auto simp: py_ensures_def py_lift_def split: option.split)
  moreover have "quietly R s (py_bind (get_node_sv nd s) (\<lambda>v s. py_lift (\<lambda>h. s\<lparr>core_heap := h\<rparr>) (on_sv v (sv_set x) (core_heap s))))"
    for nd :: "'b graph_node" and x and s :: "('a, 'b, 'c) serve_core"
    by (cases "node_sv nd") (simp_all add: get_node_sv_def py_ensures_def py_lift_def)
  ultimately show ?thesis
    unfolding node_result_def by (simp add: quietly_bind)
qed

lemma on_response_ok:
  "steps_ok (case resp of Answered ids answer \<Rightarrow> {contexts (core_task s t) ! i} | Failed e \<Rightarrow> {}) s (on_response env r t loc i ns resp s)"
proof (cases ns)
  case Nil
  then show ?thesis by (simp add: on_response_def quietly_steps quietly_finish)
next
  case (Cons n rest)
  let ?c = "contexts (core_task s t) ! i"
  show ?thesis
  proof (cases resp)
    case (Failed e)
    with Cons show ?thesis by (simp add: on_response_def quietly_steps quietly_fail_finish)
  next
    case (Answered ids answer)
    obtain x s1 where x: "node_result env n loc ids answer s = (x, s1)" by (cases "node_result env n loc ids answer s")
    with quietly_node_result [of "{?c}" s env n loc ids answer] have q: "quiet {?c} s s1" by simp
    have "steps_ok {?c} s (on_response env r t loc i ns resp s)"
    proof (cases x)
      case (Inl e)
      have "steps_ok {?c} s (py_bind (fail_node r t ?c (e, True) s1) (\<lambda>_ s. finish_chain env t s))"
        by (rule quiet_steps [OF q quietly_steps [OF quietly_fail_finish]])
      with Cons Answered x Inl show ?thesis by (simp add: on_response_def Let_def)
    next
      case (Inr y)
      have "quiet {?c} s (on_task t (\<lambda>x. x\<lparr>task_status := FINISHED\<rparr>) (ready_ctx ?c s1))"
        using quiet_trans [OF q quiet_ready] by simp
      from quiet_steps [OF this execute_from_ok] Cons Answered x Inr show ?thesis by (simp add: on_response_def Let_def)
    qed
    with Answered show ?thesis by simp
  qed
qed

abbreviation chain_ok :: "context_ref set \<Rightarrow> ('u, 'code, 'tok) serve_core \<Rightarrow> (chain_stage, ('u, 'code, 'tok) serve_core) pyo \<Rightarrow> bool" where
  "chain_ok R s r \<equiv> (case r of None \<Rightarrow> True | Some p \<Rightarrow> steps_ok R s p)"

lemma chain_ok_bind: "(\<And>y. x = Some y \<Longrightarrow> chain_ok R s (f y)) \<Longrightarrow> chain_ok R s (Option.bind x f)"
  by (cases x) simp_all

lemma scheduling_error_ok: "quiet R s s1 \<Longrightarrow> steps_ok R s (scheduling_error r e s1)"
  by (simp add: scheduling_error_def quiet_step)

lemma submit_chain_ok: "quiet R s s1 \<Longrightarrow> chain_ok R s (submit_chain env r c t s1)"
proof -
  assume q: "quiet R s s1"
  have sub: "quiet R s (s2\<lparr>global_sched := g\<rparr>)" if "quiet R s s2" "submit_task t (global_sched s3) = (x, g)" "ctxs s3 = ctxs s2"
    for x g s2 s3
    using that by (cases x) (auto simp: submit_task_def quiet_sched split: if_splits)
  have same: "ctxs (on_task t f s2) = ctxs s2" for f and s2 :: "('a, 'b, 'c) serve_core" by (simp add: on_task_def)
  show ?thesis
    unfolding submit_chain_def
    by (rule chain_ok_bind) (auto simp: Let_def scheduling_error_ok sub same q quiet_step split: prod.split sum.split)
qed

lemma await_inputs_ok: "quiet R s s1 \<Longrightarrow> chain_ok R s (await_inputs env r c t ns stop s1)"
proof (induction ns)
  case Nil
  then show ?case by (cases stop) (simp_all add: scheduling_error_ok submit_chain_ok)
next
  case (Cons n ns)
  then show ?case by (simp add: scheduling_error_ok quiet_step split: prod.split sum.split bool.split)
qed

lemma create_task_ok: "chain_ok R s (create_chain_task env r c s)"
proof -
  have "chain_ok R s (await_inputs env r c t fs stop (s\<lparr>task_id_pool := p, task_chains := cs, global_sched := (global_sched s)\<lparr>gs_tasks := ts\<rparr>\<rparr>))"
    for t fs stop p cs ts
    by (rule await_inputs_ok) (simp add: quiet_sched)
  then show ?thesis
    unfolding create_chain_task_def
    by (intro chain_ok_bind) (auto simp: Let_def scheduling_error_ok intro!: chain_ok_bind split: prod.split sum.split)
qed

lemma execute_locals_quiet: "quietly R s (execute_locals env t s)"
  by (auto simp: execute_locals_def Let_def py_ensures_def py_bind_def py_lift_def parrot_assert_def py_return_def py_raise_def engine_tokenizer_name_def
      split: option.split prod.split sum.split if_split)

lemma begin_execution_ok: "chain_ok R s (begin_execution env r c t s)"
proof -
  define q where "q = py_lift (\<lambda>(task, cm). put_contexts cm (on_task t (\<lambda>_. task) s)) (set_task_contexts (core_store s) (core_task s t, core_contexts s))"
  have "quiet R s (put_contexts cm (on_task t (\<lambda>_. task) s))" if "extends (core_contexts s) cm" for task cm
    using that by (auto simp: quiet_def put_contexts_def on_task_def extends_def ctx_step_append)
  with set_contexts_extends [of "core_contexts s" "core_store s" "core_task s t"]
  have q: "quietly R s q"
    by (auto simp: q_def py_ensures_def py_lift_def split: prod.split)
  obtain x s1 where x: "q = (x, s1)" by (cases q)
  with q have s1: "quiet R s s1" by simp
  obtain y s2 where y: "execute_locals env t s1 = (y, s2)" by (cases "execute_locals env t s1")
  with execute_locals_quiet [of R s1 env t] quiet_trans [OF s1] have s2: "quiet R s s2" by simp
  have "chain_ok R s (Option.bind (chain_nodes_of (core_heap s2) c) (\<lambda>ns. Some (execute_from env r t loc 0 ns s2)))" for loc
    by (rule chain_ok_bind) (simp add: quiet_steps [OF s2 execute_from_ok])
  with x y s1 s2 show ?thesis
    unfolding begin_execution_def q_def [symmetric] by (cases x; cases y) (simp_all add: quiet_step)
qed

text \<open>The contexts that a coroutine may make ready.\<close>

definition answered :: "response option \<Rightarrow> chain_stage \<Rightarrow> ('u, 'code, 'tok) serve_core \<Rightarrow> context_ref set" where
  "answered resp stage s =
    (case (stage, resp) of (AwaitResponse t i loc, Some (Answered ids answer)) \<Rightarrow> {contexts (core_task s t) ! i} | _ \<Rightarrow> {})"

lemma chain_step_ok: "chain_ok (answered resp stage s) s (chain_step env resp r c stage s)"
proof (cases stage)
  case AwaitActivated
  then show ?thesis
    by (cases "node_sv (node_at (core_heap s) (chain_gen_node (chain_at (core_heap s) c)))")
       (simp_all add: chain_step_def get_node_sv_def py_raise_def py_return_def scheduling_error_ok create_task_ok quiet_step)
next
  case (AwaitInputs t ns stop)
  then show ?thesis by (simp add: chain_step_def await_inputs_ok)
next
  case (AwaitScheduled t)
  then show ?thesis by (simp add: chain_step_def begin_execution_ok quiet_step)
next
  case (AwaitContext t i loc)
  then show ?thesis by (auto simp: chain_step_def quiet_step execute_from_ok intro!: chain_ok_bind)
next
  case (AwaitResponse t i loc)
  show ?thesis
  proof (cases resp)
    case None
    with AwaitResponse show ?thesis by (simp add: chain_step_def quiet_step)
  next
    case (Some rsp)
    have "answered resp stage s = (case rsp of Answered ids answer \<Rightarrow> {contexts (core_task s t) ! i} | Failed e \<Rightarrow> {})"
      using AwaitResponse Some by (cases rsp) (simp_all add: answered_def)
    with AwaitResponse Some show ?thesis
      by (simp add: chain_step_def) (rule chain_ok_bind, simp add: on_response_ok)
  qed
next
  case ChainDone
  then show ?thesis by (simp add: chain_step_def quiet_step)
qed

lemma quiet_run_native: "quiet R s (run_native env r n s)"
proof -
  have "quiet R s (snd (execute_native env r n s))"
    by (auto simp: execute_native_def Let_def split: node_kind.splits prod.splits sum.splits option.splits)
  then show ?thesis
    by (cases "execute_native env r n s") (simp add: run_native_def split: node_kind.split option.split)
qed

lemma native_step_quiet: "quietly R s (native_step env r n stage s)"
  by (auto simp: native_step_def Let_def quiet_run_native split: native_stage.split prod.split sum.split bool.split)

text \<open>
  C16. A context that tasks share is filled once, and by its owner. A step of a coroutine clears no event of a context;
  it posts at most one primitive, for a context that no coroutine had started, which is started from then
  on and which this coroutine waits for; and a context becomes ready only by the answer to the post of the
  coroutine that waits for it.
\<close>

theorem contexts_filled_once:
  assumes k: "k < length (coroutines s)" and step: "coroutine_step env resp k s = Some s'"
  shows "(\<forall>c < length (ctxs s). (start_event (core_ctx s c) \<longrightarrow> start_event (core_ctx s' c)) \<and>
      (ctx.ready_event (core_ctx s c) \<longrightarrow> ctx.ready_event (core_ctx s' c)) \<and>
      (ctx.ready_event (core_ctx s' c) \<and> \<not> ctx.ready_event (core_ctx s c) \<longrightarrow>
         (\<exists>r ch t i loc ids answer. coroutines s ! k = ChainCoroutine r ch (AwaitResponse t i loc) \<and>
            resp = Some (Answered ids answer) \<and> contexts (core_task s t) ! i = c))) \<and>
    (posts s' = posts s \<or>
     (\<exists>r ch t i loc url p. coroutines s' ! k = ChainCoroutine r ch (AwaitResponse t i loc) \<and> posts s' = posts s @ [(url, p)] \<and>
        (let c = contexts (core_task s' t) ! i in
           (c < length (ctxs s) \<longrightarrow> \<not> start_event (core_ctx s c)) \<and>
           (c < length (ctxs s') \<longrightarrow> start_event (core_ctx s' c) \<and> sent_context p = context_id (core_ctx s' c)))))"
proof (cases "coroutines s ! k")
  case (ChainCoroutine r ch stage)
  obtain x s1 where s1: "chain_step env resp r ch stage s = Some (x, s1)"
    using step ChainCoroutine by (cases "chain_step env resp r ch stage s") (auto simp: coroutine_step_def)
  define stage' where "stage' = (case x of Inr st \<Rightarrow> st | Inl e \<Rightarrow> ChainDone)"
  have s': "ctxs s' = ctxs s1" "posts s' = posts s1" "global_sched s' = global_sched s1"
      "coroutines s' = (coroutines s1)[k := ChainCoroutine r ch stage']"
    using step ChainCoroutine s1 by (cases x; simp add: coroutine_step_def put_coroutine_def stage'_def; fastforce)+
  have ok: "step_ok (answered resp stage s) s x s1" using chain_step_ok [of resp stage s env r ch] s1 by simp
  have rdy: "\<exists>t i loc ids answer. stage = AwaitResponse t i loc \<and> resp = Some (Answered ids answer) \<and> contexts (core_task s t) ! i = c"
    if "c \<in> answered resp stage s" for c
    using that by (auto simp: answered_def split: chain_stage.splits option.splits response.splits)
  have posted: "posts s1 = posts s \<or>
     (\<exists>r' ch' t i loc url p. coroutines s' ! k = ChainCoroutine r' ch' (AwaitResponse t i loc) \<and> posts s1 = posts s @ [(url, p)] \<and>
        (let c = contexts (core_task s1 t) ! i in
           (c < length (ctxs s) \<longrightarrow> \<not> start_event (core_ctx s c)) \<and>
           (c < length (ctxs s1) \<longrightarrow> start_event (core_ctx s1 c) \<and> sent_context p = context_id (core_ctx s1 c))))"
    using ok k s'(4) by (fastforce simp: step_ok_def posts_once_def stage'_def)
  have events: "(start_event (core_ctx s c) \<longrightarrow> start_event (core_ctx s1 c)) \<and>
      (ctx.ready_event (core_ctx s c) \<longrightarrow> ctx.ready_event (core_ctx s1 c)) \<and>
      (ctx.ready_event (core_ctx s1 c) \<and> \<not> ctx.ready_event (core_ctx s c) \<longrightarrow>
         (\<exists>r ch t i loc ids answer. coroutines s ! k = ChainCoroutine r ch (AwaitResponse t i loc) \<and>
            resp = Some (Answered ids answer) \<and> contexts (core_task s t) ! i = c))" if "c < length (ctxs s)" for c
  proof -
    have "(start_event (core_ctx s c) \<longrightarrow> start_event (core_ctx s1 c)) \<and> (ctx.ready_event (core_ctx s c) \<longrightarrow> ctx.ready_event (core_ctx s1 c)) \<and>
      (ctx.ready_event (core_ctx s1 c) \<longrightarrow> ctx.ready_event (core_ctx s c) \<or> c \<in> answered resp stage s)"
      using ok that by (simp add: step_ok_def ctx_step_def)
    with rdy [of c] show ?thesis unfolding ChainCoroutine by blast
  qed
  show ?thesis unfolding s'(2,3) using posted events by blast
next
  case (NativeCoroutine r n stage)
  obtain x s1 where s1: "native_step env r n stage s = (x, s1)" by (cases "native_step env r n stage s")
  with native_step_quiet [of "{}" s env r n stage] have q: "quiet {} s s1" by simp
  have "ctxs s' = ctxs s1" "posts s' = posts s1"
    using step NativeCoroutine s1 by (cases x; auto simp: coroutine_step_def put_coroutine_def)+
  with q show ?thesis by (auto simp: quiet_def ctx_step_def)
qed

text \<open>A task whose first context is being filled; the answer makes it ready, and the generation is posted.\<close>

abbreviation demo_env :: "(unit, unit, unit) environment" where
  "demo_env \<equiv> \<lparr>env_uuid3 = \<lambda>_ t. t, env_deserialize = \<lambda>_. Inr (), env_lib = demo_lib, env_eos = \<lambda>_. 2, env_net = \<lambda>_ _. True,
     env_run = \<lambda>_ _ _. Inr (\<lambda>_. JStr ''done'')\<rparr>"

definition demo_filling :: "(unit, unit, unit) serve_core" where
  "demo_filling =
    (let nodes = [(new_semantic_node (ConstantFill ''Hi''))\<lparr>edge_a_next := Some 1, completion_chain_of := Some 0\<rparr>,
                  (new_semantic_node (PlaceholderGen (example_output ''y'')))\<lparr>edge_a_prev := Some 0, completion_chain_of := Some 0\<rparr>];
         chains = [\<lparr>chain_request = 0, chain_first_node = Some 0, chain_gen_node = 1, chain_group_list = []\<rparr>];
         task = example_task\<lparr>contexts := [0, 1], task_engine := Some 0, scheduled_event := True, tokenized_result := Some [(''tok'', [[1, 2]])]\<rparr>;
         cm = new_context_manager\<lparr>ctx_heap := [(new_ctx 0 0 None)\<lparr>start_event := True\<rparr>, new_ctx 1 0 (Some 0)]\<rparr>
     in demo_no_session\<lparr>
          core_heap := \<lparr>heap_svs = [], heap_nodes = nodes, heap_chains = chains, heap_requests = [], heap_groups = []\<rparr>,
          global_sched := (new_global_scheduler default_scheduler_config (demo_cluster\<lparr>em_context_mgr := cm\<rparr>))\<lparr>gs_tasks := [task]\<rparr>,
          session_objs := [new_session 0 600], task_chains := [0],
          coroutines := [ChainCoroutine 0 0 (AwaitResponse 0 0 (Some (''tok'', 2)))]\<rparr>)"

lemma demo_filling_nodes: "chain_nodes_of (core_heap demo_filling) 0 = Some [0, 1]"
  by code_simp

lemma demo_filling_fields:
  "coroutines demo_filling = [ChainCoroutine 0 0 (AwaitResponse 0 0 (Some (''tok'', 2)))]"
  "contexts (core_task demo_filling 0) = [0, 1]" "length (gs_tasks (global_sched demo_filling)) = 1"
  "ctxs demo_filling = [(new_ctx 0 0 None)\<lparr>start_event := True\<rparr>, new_ctx 1 0 (Some 0)]" "posts demo_filling = []"
  "\<not> is_gen (node_at (core_heap demo_filling) 0)" "is_gen (node_at (core_heap demo_filling) (Suc 0))"
  "node_kind (node_at (core_heap demo_filling) (Suc 0)) = PlaceholderGen (example_output ''y'')"
  by (simp_all add: demo_filling_def new_global_scheduler_def is_gen_def new_semantic_node_def)

lemma demo_filling_step:
  "map_option (\<lambda>s. (map ctx.ready_event (ctxs s), map start_event (ctxs s), length (posts s)))
     (coroutine_step demo_env (Some (Answered [] [])) 0 demo_filling) = Some ([True, False], [True, True], 1)"
  by (simp add: coroutine_step_def chain_step_def demo_filling_nodes demo_filling_fields on_response_def node_result_def
      ready_ctx_def start_ctx_def on_ctx_def put_contexts_def on_task_def Let_def put_coroutine_def generate_primitive_def
      placeholder_param_def new_ctx_def default_sampling_config_def py_truth.simps py_return_def)

theorem contexts_filled_once_witness:
  "\<exists>s' r ch t i loc. coroutine_step demo_env (Some (Answered [] [])) 0 demo_filling = Some s' \<and>
    coroutines s' ! 0 = ChainCoroutine r ch (AwaitResponse t i loc) \<and>
    \<not> ctx.ready_event (core_ctx demo_filling 0) \<and> ctx.ready_event (core_ctx s' 0)"
proof -
  obtain s' where s': "coroutine_step demo_env (Some (Answered [] [])) 0 demo_filling = Some s'"
      "map ctx.ready_event (ctxs s') = [True, False]" "length (posts s') = 1"
    using demo_filling_step by auto
  have k: "0 < length (coroutines demo_filling)" by (simp add: demo_filling_fields)
  have p: "posts s' \<noteq> posts demo_filling" using s'(3) by (auto simp: demo_filling_fields)
  from contexts_filled_once [OF k s'(1)] p
  have "\<exists>r ch t i loc. coroutines s' ! 0 = ChainCoroutine r ch (AwaitResponse t i loc)" by blast
  moreover have "ctx.ready_event (core_ctx s' 0)" using s'(2) by (cases "ctxs s'") auto
  ultimately show ?thesis using s'(1) by (simp add: demo_filling_fields new_ctx_def)
qed

section \<open>Failures\<close>

lemma finish_chain_result:
  "session_objs (snd (finish_chain env t s)) = session_objs s"
  "fst (finish_chain env t s) = Inr st \<Longrightarrow> st = ChainDone"
  by (auto simp: finish_chain_def in_contexts_def in_engines_def py_bind_def py_lift_def py_return_def split: prod.splits sum.splits)

lemma fail_node_result:
  assumes "r < length (session_objs s)"
  shows "case map_of (engines (core_engines s)) (engine_id (core_store s (ctx_engine (core_ctx s c)))) of
      None \<Rightarrow> fail_node r t c e s = (Inl KeyError, s)
    | Some eng \<Rightarrow> \<exists>s1. fail_node r t c e s = (Inr (), s1) \<and> executor_bad_exception (session_at s1 r) = Some e"
  using assms
  by (auto simp: fail_node_def in_engines_def raise_exception_def dict_get_def on_task_def exception_interrupt_def on_session_def
      py_return_def py_raise_def py_lift_def py_bind_def split: option.split)

text \<open>
  C18. A failed post. When the HTTP call for a primitive fails, the coroutine ends, posts nothing more and makes no
  context ready: the context it has started stays started and not ready. When the engine is still
  registered, the session keeps the exception; when the engine has been removed meanwhile, the handler
  itself raises and the process quits.
\<close>

theorem failed_post:
  assumes co: "coroutines s ! k = ChainCoroutine r ch (AwaitResponse t i loc)" and k: "k < length (coroutines s)"
    and ns: "chain_nodes_of (core_heap s) ch = Some ns" and i: "i < length ns" and r: "r < length (session_objs s)"
    and eid: "eid = engine_id (core_store s (ctx_engine (core_ctx s (contexts (core_task s t) ! i))))"
  shows "\<exists>s'. coroutine_step env (Some (Failed e)) k s = Some s' \<and> coroutines s' ! k = ChainCoroutine r ch ChainDone \<and> posts s' = posts s \<and>
    (\<forall>c < length (ctxs s). ctx.ready_event (core_ctx s' c) = ctx.ready_event (core_ctx s c)) \<and>
    (if eid \<in> fst ` set (engines (core_engines s)) then executor_bad_exception (session_at s' r) = Some e else core_down s')"
proof -
  let ?c = "contexts (core_task s t) ! i"
  have ns': "drop i ns = ns ! i # drop (Suc i) ns" using i by (simp add: Cons_nth_drop_Suc)
  define q where "q = py_bind (fail_node r t ?c e s) (\<lambda>_ s. finish_chain env t s)"
  obtain x s1 where x: "q = (x, s1)" by (cases q)
  have run: "chain_step env (Some (Failed e)) r ch (AwaitResponse t i loc) s = Some (x, s1)"
    using x by (simp add: chain_step_def ns ns' on_response_def Let_def q_def)
  have ok: "step_ok {} s x s1" using chain_step_ok [of "Some (Failed e)" "AwaitResponse t i loc" s env r ch] run by (simp add: answered_def)
  have outcome: "(\<forall>st. x = Inr st \<longrightarrow> st = ChainDone) \<and>
    (if eid \<in> fst ` set (engines (core_engines s)) then executor_bad_exception (session_at s1 r) = Some e else \<exists>e. x = Inl e)"
  proof (cases "map_of (engines (core_engines s)) eid")
    case None
    then have "q = (Inl KeyError, s)" using fail_node_result [OF r, where c = ?c and t = t and e = e] eid by (simp add: q_def)
    with x None show ?thesis by (auto simp: map_of_eq_None_iff)
  next
    case (Some eng)
    then obtain s2 where s2: "fail_node r t ?c e s = (Inr (), s2)" "executor_bad_exception (session_at s2 r) = Some e"
      using fail_node_result [OF r, where c = ?c and t = t and e = e] eid by auto
    then have "finish_chain env t s2 = (x, s1)" using x by (simp add: q_def)
    with finish_chain_result [of env t s2] s2(2) map_of_Some_key [OF Some] show ?thesis by simp
  qed
  have "coroutine_step env (Some (Failed e)) k s = Some (case x of Inr st \<Rightarrow> put_coroutine k (ChainCoroutine r ch st) s1
      | Inl e \<Rightarrow> (put_coroutine k (ChainCoroutine r ch ChainDone) s1)\<lparr>core_down := True\<rparr>)"
    using run by (cases x) (simp_all add: coroutine_step_def co)
  moreover have "k < length (coroutines s1)" "posts s1 = posts s" using ok k outcome by (auto simp: step_ok_def posts_once_def)
  moreover have "\<forall>c < length (ctxs s). ctx.ready_event (core_ctx s1 c) = ctx.ready_event (core_ctx s c)"
    using ok by (auto simp: step_ok_def ctx_step_def)
  ultimately show ?thesis
    using outcome by (cases x) (auto simp: put_coroutine_def split: if_splits)
qed

theorem failed_post_witness:
  "\<exists>s'. coroutine_step demo_env (Some (Failed (RuntimeError, True))) 0 demo_filling = Some s' \<and>
     coroutines s' ! 0 = ChainCoroutine 0 0 ChainDone \<and> \<not> ctx.ready_event (core_ctx s' 0) \<and>
     executor_bad_exception (session_at s' 0) = Some (RuntimeError, True)"
proof -
  define eid where "eid = engine_id (core_store demo_filling (ctx_engine (core_ctx demo_filling (contexts (core_task demo_filling 0) ! 0))))"
  have r: "0 < length (session_objs demo_filling)" by (simp add: demo_filling_def)
  have "eid \<in> fst ` set (engines (core_engines demo_filling))" unfolding eid_def by code_simp
  with failed_post [OF _ _ demo_filling_nodes _ r eid_def, of 0 "Some (''tok'', 2)" demo_env "(RuntimeError, True)"]
  show ?thesis by (auto simp: demo_filling_fields new_ctx_def)
qed

text \<open>
  A native function without outputs. Its coroutine waits for the activation of one of its outputs, and to
  wait for none of them is an error that leaves the coroutine: its first step quits the process, whatever the
  state of the core.
\<close>

lemma native_without_outputs:
  assumes "coroutines s ! k = NativeCoroutine r n NativeAwaitActivated" and "output_vars (node_at (core_heap s) n) = []"
  shows "\<exists>s'. coroutine_step env resp k s = Some s' \<and> core_down s'"
  using assms by (simp add: coroutine_step_def native_step_def Let_def native_wait_activated_def py_raise_def)

end
