(* ===== verification/Core_Returns.thy ===== *)
theory Core_Returns
  imports Serve_Core Context_Filling
begin

text \<open>
  The state of the serve core in order (\<open>core_wf\<close>): the graph and its variables, the namespaces of the sessions and the
  chains that coroutines and tasks hold. Every call, every iteration of the loop and every step of a coroutine keeps
  it and returns; so does every call in every reachable state. What the engines and native functions do is arbitrary.
\<close>

section \<open>The core in order\<close>

text \<open>
  What the calls rely on: the graph is in order, the chains that coroutines and tasks hold exist, and there are at
  least \<open>k\<close> chains.
\<close>

definition chains_held :: "nat \<Rightarrow> ('u, 'code, 'tok) serve_core \<Rightarrow> bool" where
  "chains_held k s \<longleftrightarrow>
    (\<forall>co \<in> set (coroutines s). case co of ChainCoroutine r c stage \<Rightarrow> c < k | NativeCoroutine _ _ _ \<Rightarrow> True) \<and>
    (\<forall>c \<in> set (task_chains s). c < k)"

definition core_wf :: "nat \<Rightarrow> ('u, 'code, 'tok) serve_core \<Rightarrow> bool" where
  "core_wf k s \<longleftrightarrow>
    vm_wf (var_mgr s, core_heap s) \<and> chains_held (length (heap_chains (core_heap s))) s \<and> k \<le> length (heap_chains (core_heap s))"

lemma core_wf_fields [simp]:
  "core_wf k (s\<lparr>sessions := a\<rparr>) = core_wf k s" "core_wf k (s\<lparr>session_objs := b\<rparr>) = core_wf k s"
  "core_wf k (s\<lparr>session_id_pool := p\<rparr>) = core_wf k s" "core_wf k (s\<lparr>session_last_access_time := t\<rparr>) = core_wf k s"
  "core_wf k (s\<lparr>global_sched := g\<rparr>) = core_wf k s" "core_wf k (s\<lparr>task_id_pool := p\<rparr>) = core_wf k s"
  "core_wf k (s\<lparr>posts := q\<rparr>) = core_wf k s" "core_wf k (s\<lparr>core_down := d\<rparr>) = core_wf k s"
  by (simp_all add: core_wf_def chains_held_def)

lemma core_wf_session [simp]: "core_wf k (on_session r f s) = core_wf k s"
  by (simp add: on_session_def)

lemma chains_held_mono: "chains_held k s \<Longrightarrow> k \<le> k' \<Longrightarrow> chains_held k' s"
  by (fastforce simp: chains_held_def split: coroutine.splits)

text \<open>A new heap and manager in order.\<close>

lemma core_wf_update:
  assumes "core_wf k s" and "vm_wf (m, h)" and "length (heap_chains (core_heap s)) \<le> length (heap_chains h)"
  shows "core_wf k (s\<lparr>core_heap := h, var_mgr := m\<rparr>)"
proof -
  have "chains_held (length (heap_chains h)) s" using assms(1,3) chains_held_mono by (auto simp: core_wf_def)
  with assms show ?thesis by (simp add: core_wf_def chains_held_def)
qed

lemma core_wf_heap:
  assumes "core_wf k s" and "graph_wf h" and "length (heap_svs (core_heap s)) \<le> length (heap_svs h)"
    and "length (heap_chains (core_heap s)) \<le> length (heap_chains h)"
  shows "core_wf k (s\<lparr>core_heap := h\<rparr>)"
proof -
  have "vm_ok (length (heap_svs h)) (var_mgr s)" using assms(1,3) vm_ok_mono by (auto simp: core_wf_def vm_wf_def)
  with core_wf_update [OF assms(1), of "var_mgr s" h] assms(2,4) show ?thesis by (simp add: vm_wf_def)
qed

abbreviation keeps_core :: "nat \<Rightarrow> ('a, ('u, 'code, 'tok) serve_core) py \<Rightarrow> bool" where
  "keeps_core k r \<equiv> py_ensures (\<lambda>_ s. core_wf k s) r"

abbreviation returns_core :: "nat \<Rightarrow> ('a, ('u, 'code, 'tok) serve_core) pyo \<Rightarrow> bool" where
  "returns_core k r \<equiv> pyo_ensures (\<lambda>_ s. core_wf k s) r"

lemma keeps_bind: "keeps_core k r \<Longrightarrow> (\<And>x s. core_wf k s \<Longrightarrow> keeps_core k (f x s)) \<Longrightarrow> keeps_core k (py_bind r f)"
  by (rule py_ensures_bind)

lemma returns_bind: "returns_core k r \<Longrightarrow> (\<And>x s. core_wf k s \<Longrightarrow> returns_core k (f x s)) \<Longrightarrow> returns_core k (pyo_bind r f)"
  by (rule pyo_ensures_bind)

lemma returns_Some: "keeps_core k r \<Longrightarrow> returns_core k (Some r)"
  by (simp add: pyo_ensures_Some_iff)

lemma keeps_in_engines: "core_wf k s \<Longrightarrow> keeps_core k (in_engines op s)"
  by (simp add: in_engines_def py_ensures_def py_lift_def)

lemma keeps_in_contexts: "core_wf k s \<Longrightarrow> keeps_core k (in_contexts op s)"
  by (simp add: in_contexts_def keeps_in_engines)

lemma keeps_dict_get: "core_wf k s \<Longrightarrow> keeps_core k (dict_get d key s)"
  by (simp add: py_ensures_def)

lemma keeps_assert: "core_wf k s \<Longrightarrow> keeps_core k (parrot_assert b s)"
  by (cases b) simp_all

lemma keeps_lift: "(\<And>p. core_wf k (put p)) \<Longrightarrow> keeps_core k (py_lift put r)"
  by (simp add: py_ensures_def py_lift_def)

subsection \<open>Sessions\<close>

lemma vm_ok_register:
  "vm_ok k m \<Longrightarrow> vm_ok k (snd (register_local_var_space u sid m))"
proof -
  assume ok: "vm_ok k m"
  have new: "ns_ok k (new_namespace u)" by (simp add: ns_ok_def new_namespace_def)
  show ?thesis
    using ok new dict_set_subset [of sid "new_namespace u" "session_namespaces m"]
    by (cases "dict_mem sid (session_namespaces m)") (auto simp: register_local_var_space_def vm_ok_def)
qed

lemma vm_ok_free: "vm_ok k m \<Longrightarrow> vm_ok k (snd (free_local_var_space sid m))"
  using dict_pop_subset [of sid "session_namespaces m"]
  by (cases "dict_mem sid (session_namespaces m)") (auto simp: free_local_var_space_def vm_ok_def)

lemma core_wf_var_mgr: "core_wf k s \<Longrightarrow> vm_ok (length (heap_svs (core_heap s))) m \<Longrightarrow> core_wf k (s\<lparr>var_mgr := m\<rparr>)"
  by (simp add: core_wf_def vm_wf_def chains_held_def)

lemma keeps_register_session: "core_wf k s \<Longrightarrow> keeps_core k (register_session u now s)"
  unfolding register_session_def register_session_resources_def
proof (intro keeps_bind keeps_in_contexts)
  fix sid v s and w :: unit
  assume s: "core_wf k (s :: ('a, 'b, 'c) serve_core)"
  then have "vm_ok (length (heap_svs (core_heap s))) (var_mgr s)" by (simp add: core_wf_def vm_wf_def)
  from core_wf_var_mgr [OF s vm_ok_register [OF this]]
  show "keeps_core k (py_lift (\<lambda>m. s\<lparr>var_mgr := m\<rparr>) (register_local_var_space u sid (var_mgr s)))"
    by (simp add: py_ensures_def py_lift_def)
qed (simp_all add: keeps_lift)

lemma keeps_drop_session: "core_wf k s \<Longrightarrow> keeps_core k (drop_session net sid s)"
  unfolding drop_session_def free_session_resources_def Let_def
proof (intro keeps_bind keeps_dict_get keeps_in_contexts)
  fix r v w x and s :: "('a, 'b, 'c) serve_core"
  assume s: "core_wf k s"
  then have "vm_ok (length (heap_svs (core_heap s))) (var_mgr s)" by (simp add: core_wf_def vm_wf_def)
  from core_wf_var_mgr [OF s vm_ok_free [OF this]]
  show "keeps_core k (py_lift (\<lambda>m. s\<lparr>var_mgr := m\<rparr>) (free_local_var_space v (var_mgr s)))" for v
    by (simp add: py_ensures_def py_lift_def)
qed (simp_all add: keeps_lift)

lemma keeps_session_ops:
  assumes "core_wf k s"
  shows "keeps_core k (check_session_status key s)" and "keeps_core k (session_access_update now sid s)"
    and "keeps_core k (get_session sid s)" and "keeps_core k (remove_session net sid s)"
    and "keeps_core k (check_running_sessions now s)" and "keeps_core k (sweep_not_running_sessions net s)"
proof -
  show "keeps_core k (check_session_status key s)"
    using assms by (simp add: check_session_status_def split: sum.split option.split)
  show "keeps_core k (session_access_update now sid s)"
    using assms by (cases "dict_mem sid (sessions s)") (simp_all add: session_access_update_def)
  show "keeps_core k (get_session sid s)"
    unfolding get_session_def using assms by (intro keeps_bind keeps_assert keeps_dict_get)
  show "keeps_core k (remove_session net sid s)"
    unfolding remove_session_def using assms by (intro keeps_bind keeps_assert keeps_drop_session)
  have "keeps_core k (check_session now item t)" if "core_wf k t" for item and t :: "('a, 'b, 'c) serve_core"
    using that by (cases "map_of (sessions t) (fst item)") (simp_all add: check_session_def Let_def split: option.split prod.split)
  then show "keeps_core k (check_running_sessions now s)"
    unfolding check_running_sessions_def using assms by (intro py_ensures_for) auto
  have "keeps_core k (sweep_session net item t)" if "core_wf k t" for item and t :: "('a, 'b, 'c) serve_core"
    using that keeps_drop_session [OF that] by (simp add: sweep_session_def)
  then show "keeps_core k (sweep_not_running_sessions net s)"
    unfolding sweep_not_running_sessions_def using assms by (intro py_ensures_for) auto
qed


subsection \<open>Requests\<close>

lemma pyo_ensures_refl: "pyo_ensures Q r \<Longrightarrow> pyo_ensures (\<lambda>x s. r = Some (x, s) \<and> Q x s) r"
  by (auto simp: pyo_ensures_def)

lemma read_criteria_state: "snd (read_criteria crit s) = s"
  by (cases crit) (simp_all add: read_criteria_def get_performance_criteria_def)

lemma last_output_result:
  "snd (last_output rq h) = h \<and> (\<forall>v. fst (last_output rq h) = Inr v \<longrightarrow> comp_chains (request_at h rq) \<noteq> [] \<and>
    node_sv (node_at h (chain_gen_node (chain_at h (last (comp_chains (request_at h rq)))))) = Some v)"
  by (simp add: last_output_def get_node_sv_def split: option.split)

lemma activate_with_wf:
  assumes "graph_wf h" and "v < length (heap_svs h)"
  shows "pyo_ensures (\<lambda>_ h'. activated h h') (activate_with c v h)"
  using activate_sv_wf [OF assms] assms(1)
  by (cases c; cases "sv_is_activated (sv_at h v)") (simp_all add: activate_with_def activated_def)

text \<open>From a core in order, an operation of the heap whose outcome is in order and has no fewer variables and chains.\<close>

lemma returns_in_heap:
  assumes "core_wf k s"
    and "pyo_ensures (\<lambda>_ h. graph_wf h \<and> length (heap_svs (core_heap s)) \<le> length (heap_svs h) \<and>
      length (heap_chains (core_heap s)) \<le> length (heap_chains h)) (op (core_heap s))"
  shows "returns_core k (in_heap op s)"
  unfolding in_heap_def pyo_ensures_lift
  using assms(2) by (rule pyo_ensures_mono) (use core_wf_heap [OF assms(1)] in auto)

lemma returns_in_vars:
  assumes "core_wf k s"
    and "pyo_ensures (\<lambda>_ x. vm_wf x \<and> length (heap_chains (core_heap s)) \<le> length (heap_chains (snd x))) (op (var_mgr s, core_heap s))"
  shows "returns_core k (in_vars op s)"
  unfolding in_vars_def pyo_ensures_lift
  using assms(2) by (rule pyo_ensures_mono) (use core_wf_update [OF assms(1)] in \<open>auto split: prod.split\<close>)

lemma activated_frame: "activated h h' \<Longrightarrow> graph_wf h' \<and> length (heap_svs h') = length (heap_svs h) \<and>
    length (heap_chains h') = length (heap_chains h) \<and> heap_nodes h' = heap_nodes h"
  using evolves_length [of h h'] by (simp add: activated_def evolves_def)

lemma activate_request_wf:
  assumes wf: "graph_wf h" and range: "\<forall>c \<in> set (comp_chains (request_at h rq)). chain_exists h c"
  shows "pyo_ensures (\<lambda>_ h'. activated h h') (activate_request crit rq h)"
proof -
  have refl: "activated h h" using wf by (simp add: activated_def)
  show ?thesis
  proof (cases "crit = JNone")
    case True
    with refl show ?thesis by (simp add: activate_request_def)
  next
    case False
    obtain r where r: "read_criteria crit h = (r, h)"
      using read_criteria_state [of crit h] by (cases "read_criteria crit h") simp
    obtain q where q: "last_output rq h = (q, h)" and qv: "\<And>v. q = Inr v \<Longrightarrow> comp_chains (request_at h rq) \<noteq> [] \<and>
        node_sv (node_at h (chain_gen_node (chain_at h (last (comp_chains (request_at h rq)))))) = Some v"
      using last_output_result [of rq h] by (cases "last_output rq h") simp
    have "v < length (heap_svs h)" if "q = Inr v" for v
    proof -
      have "chain_gen_node (chain_at h (last (comp_chains (request_at h rq)))) < length (heap_nodes h)"
        using qv [OF that] range by (simp add: chain_exists_def)
      with qv [OF that] wf vars_wfD(1) [of h] show ?thesis by (auto simp: graph_wf_def var_refs_ok_def)
    qed
    with False r q refl activate_with_wf [OF wf] show ?thesis
      by (cases r; cases q) (simp_all add: activate_request_def)
  qed
qed


definition vars_added :: "request_ref \<Rightarrow> 'code graph_heap \<Rightarrow> ('u, 'code) vm_state \<Rightarrow> bool" where
  "vars_added rq h s \<longleftrightarrow> vm_wf s \<and> heap_chains (snd s) = heap_chains h \<and> length (heap_nodes (snd s)) = length (heap_nodes h) \<and>
    heap_requests (snd s) = heap_requests h \<and> rows_kept h (snd s)"

lemma create_request_vars_wf:
  fixes h :: "'code graph_heap" and m :: "'u variable_manager"
  assumes wf: "vm_wf (m, h)" and row: "adds_row h0 h" and rq: "length (heap_nodes h0) \<le> first_node (request_at h rq)"
    "first_node (request_at h rq) < length (heap_nodes h)"
  shows "pyo_ensures (\<lambda>_ s. vars_added rq h s) (create_vars_for_semantic_request_chain uuid3 now sid rq (m, h))"
proof -
  have e: "edges_ok (heap_nodes h)" using wf by (simp add: vm_wf_def graph_wf_def struct_wf_def)
  obtain ns where ns: "request_iter (heap_nodes h) (Some (first_node (request_at h rq))) = Some ns"
      "set ns \<subseteq> {first_node (request_at h rq)..<length (heap_nodes h)}" "increasing ns"
    using request_iter_returns [OF e rq(2)] by blast
  have "unbound_from n h" if "n \<in> set ns" for n
    unfolding unbound_from_def
  proof (intro allI impI)
    fix k
    assume k: "k < length (heap_nodes h)" "n \<le> k"
    have "length (heap_nodes h0) \<le> n" using ns(2) rq(1) that by fastforce
    with row k show "node_sv (node_at h k) = None" by (simp add: adds_row_def)
  qed
  moreover have "set ns \<subseteq> {..<length (heap_nodes h)}" using ns(2) by fastforce
  ultimately have "py_ensures (\<lambda>_ s. vars_added rq h s)
      (create_node_vars uuid3 now sid ns (py_truth (cache_prefix (chain_meta (request_at h rq)))) (m, h))"
    using create_node_vars_wf [OF wf _ ns(3)] by (simp add: vars_added_def conj_ac)
  then show ?thesis by (simp add: create_vars_for_semantic_request_chain_def ns(1) pyo_ensures_Some_iff)
qed

lemma traverse_no_chain:
  assumes "producer (sv_at h v) = Some p" and "is_gen (node_at h p)" and "completion_chain_of (node_at h p) = None"
  shows "\<exists>e. activate_sv v crit h = Some (Inl e, h)"
proof (cases "sv_is_activated (sv_at h v)")
  case False
  have "\<exists>e. traverse v crit None h = Some (Inl e, h)"
  proof (cases "crit = LATENCY \<or> crit = THROUGHPUT")
    case True
    with traverse_gen_simple [OF assms(1,2)] assms(3) show ?thesis by blast
  next
    case False
    then show ?thesis by (subst traverse.simps) (simp add: back_propagate_criteria_def py_raise_def)
  qed
  with False show ?thesis by (auto simp: activate_sv_def parrot_assert_def py_return_def)
qed (simp add: activate_sv_def parrot_assert_def py_raise_def)

text \<open>
  C39. A request with several outputs, submitted to a graph and a variable manager in order. Building its chains returns, one per output, but when its
  variables have been created and it has been inserted, activating its last output raises, whatever the criteria, and changes
  nothing: the Gen node that produces it has been assigned to none of the chains.
\<close>

theorem last_output_never_activates:
  fixes h :: "'code graph_heap" and m :: "'u variable_manager"
  assumes wf: "vm_wf (m, h)" and kinds: "map (chunk_kind (parameters_map creq)) (body creq) = map Some ((k :: 'code node_kind) # ks)"
    and first: "\<not> gen_kind k" and two: "2 \<le> length (gens (k # ks))"
  shows "\<exists>rq h1. from_chunked_request creq h = Some (Inr rq, h1) \<and>
    length (comp_chains (request_at h1 rq)) = length (gens (k # ks)) \<and>
    (\<forall>m2 h2 g g3 h3 v crit.
       create_vars_for_semantic_request_chain uuid3 now sid rq (m, h1) = Some (Inr (), (m2, h2)) \<longrightarrow>
       insert_and_update_request_chain rq (g, h2) = Some (Inr (), (g3, h3)) \<longrightarrow>
       producer (sv_at h3 v) = Some (length (heap_nodes h) + last (gens (k # ks))) \<longrightarrow>
       (\<exists>e. activate_sv v crit h3 = Some (Inl e, h3)))"
proof -
  let ?g = "length (heap_nodes h) + last (gens (k # ks))"
  obtain rq h1 where b: "from_chunked_request creq h = Some (Inr rq, h1)" "length (comp_chains (request_at h1 rq)) = length (gens (k # ks))"
      "?g < length (heap_nodes h1)" "is_gen (node_at h1 ?g)" "completion_chain_of (node_at h1 ?g) = None"
    using last_output_has_no_chain [OF kinds first two, of h] by blast
  have row: "graph_wf h1" "adds_row h h1" "length (heap_nodes h) \<le> first_node (request_at h1 rq)"
      "first_node (request_at h1 rq) < length (heap_nodes h1)"
    using graph_wf_from_chunked [of h creq] wf b(1) by (auto simp: vm_wf_def pyo_ensures_def)
  have wf1: "vm_wf (m, h1)" using row(1,2) wf vm_ok_mono [of _ m] by (auto simp: vm_wf_def adds_row_def)
  have "\<exists>e. activate_sv v crit h3 = Some (Inl e, h3)"
    if v: "create_vars_for_semantic_request_chain uuid3 now sid rq (m, h1) = Some (Inr (), (m2, h2))"
      and i: "insert_and_update_request_chain rq (g, h2) = Some (Inr (), (g3, h3))" and p: "producer (sv_at h3 v) = Some ?g"
    for m2 h2 g g3 h3 v crit
  proof -
    have s2: "vars_added rq h1 (m2, h2)"
      using create_request_vars_wf [OF wf1 row(2-4), of uuid3 now sid] v by (simp add: pyo_ensures_def)
    then have "inserted h2 h3"
      using insert_request_wf [of h2 rq g] row(4) i by (simp add: vars_added_def vm_wf_def pyo_ensures_def)
    with s2 have "rows_kept h1 h3" using rows_kept_trans [of h1 h2 h3] by (simp add: vars_added_def inserted_def)
    with b(3-5) have "is_gen (node_at h3 ?g)" "completion_chain_of (node_at h3 ?g) = None" by (simp_all add: rows_kept_def)
    with p show ?thesis by (rule traverse_no_chain)
  qed
  with b(1,2) show ?thesis by blast
qed

text \<open>Two outputs: the activation of the first one succeeds, that of the second one raises.\<close>

definition two_outputs :: chunked_request where
  "two_outputs = example_request [TextChunk 0 ''Hi'', PlaceholderChunk 1 ''y'', TextChunk 2 ''so'', PlaceholderChunk 3 ''z'']"

definition two_outputs_built :: "unit graph_heap" where
  "two_outputs_built = snd (the (from_chunked_request two_outputs empty_heap))"

definition two_outputs_vars :: "(unit, unit) vm_state" where
  "two_outputs_vars = snd (the (create_vars_for_semantic_request_chain demo_uuid3 7 0 0
     (snd (register_local_var_space () 0 (new_variable_manager () 1)), two_outputs_built)))"

definition two_outputs_graph :: "unit graph_state" where
  "two_outputs_graph = snd (the (insert_and_update_request_chain 0 (new_compute_graph, snd two_outputs_vars)))"

theorem last_output_never_activates_witness:
  "(\<exists>e. activate_sv 3 LATENCY (snd two_outputs_graph) = Some (Inl e, snd two_outputs_graph)) \<and>
    fst (the (activate_sv 1 LATENCY (snd two_outputs_graph))) = Inr ()"
proof -
  let ?m = "snd (register_local_var_space () 0 (new_variable_manager () 1)) :: unit variable_manager"
  have wf: "vm_wf (?m, empty_heap :: unit graph_heap)" 
    by (simp add: register_local_var_space_def vm_wf_def graph_wf_def struct_wf_def edges_ok_def vars_wf_def gens_ordered_def natives_ordered_def vm_ok_def ns_ok_def new_variable_manager_def new_namespace_def parrot_assert_def py_return_def)
  have g: "gens [ConstantFill ''Hi'' :: unit node_kind, PlaceholderGen (example_output ''y''), ConstantFill ''so'',
      PlaceholderGen (example_output ''z'')] = [1, 3]"
    by (simp add: gens_def gen_kind_def)
  have steps: "fst (the (from_chunked_request two_outputs (empty_heap :: unit graph_heap))) = Inr 0"
      "create_vars_for_semantic_request_chain demo_uuid3 7 0 0 (?m, two_outputs_built) = Some (Inr (), two_outputs_vars)"
      "insert_and_update_request_chain 0 (new_compute_graph, snd two_outputs_vars) = Some (Inr (), two_outputs_graph)"
      "producer (sv_at (snd two_outputs_graph) 3) = Some 3"
      "fst (the (activate_sv 1 LATENCY (snd two_outputs_graph))) = Inr ()" by code_simp+
  have "map (chunk_kind (parameters_map two_outputs)) (body two_outputs) = map Some (ConstantFill ''Hi'' #
      [PlaceholderGen (example_output ''y''), ConstantFill ''so'', PlaceholderGen (example_output ''z'') :: unit node_kind])"
    by (simp add: two_outputs_def chunk_kind_def)
  from last_output_never_activates [OF wf this, of demo_uuid3 7 0] g steps show ?thesis
    by (auto simp: gen_kind_def two_outputs_built_def) (metis prod.collapse)
qed

lemma core_wf_parts: "core_wf k s \<Longrightarrow> graph_wf (core_heap s) \<and> vm_ok (length (heap_svs (core_heap s))) (var_mgr s) \<and> vm_wf (var_mgr s, core_heap s)"
  by (simp add: core_wf_def vm_wf_def)

text \<open>A core in order whose heap has grown from \<open>h\<close>, with the nodes of the chains of a request.\<close>

definition request_state :: "nat \<Rightarrow> request_ref \<Rightarrow> ('u, 'code, 'tok) serve_core \<Rightarrow> bool" where
  "request_state k rq s \<longleftrightarrow> core_wf k s \<and> (\<forall>c \<in> set (comp_chains (request_at (core_heap s) rq)). chain_exists (core_heap s) c)"

lemma returns_executor_add:
  assumes st: "request_state k rq s" and fst: "first_node (request_at (core_heap s) rq) < length (heap_nodes (core_heap s))"
    and rq: "rq < length (heap_requests (core_heap s))"
  shows "pyo_ensures (\<lambda>x s. core_wf k s \<and> (x = Inr () \<longrightarrow> request_state k rq s)) (executor_add_request r rq s)"
  unfolding executor_add_request_def
proof (rule pyo_ensures_bind)
  have wf: "core_wf k s" and gw: "graph_wf (core_heap s)" using st core_wf_parts by (auto simp: request_state_def)
  show "pyo_ensures (\<lambda>_ s. request_state k rq s) (in_graph r (insert_and_update_request_chain rq) s)"
    unfolding in_graph_def pyo_ensures_lift
  proof (rule pyo_ensures_mono [OF insert_request_wf [OF gw fst]])
    fix x and p :: "'b graph_state"
    assume i: "inserted (core_heap s) (snd p)"
    have "length (map comp_chains (heap_requests (snd p))) = length (map comp_chains (heap_requests (core_heap s)))"
      using i by (simp only: inserted_def)
    then have "comp_chains (request_at (snd p) rq) = comp_chains (request_at (core_heap s) rq)"
      using i rq nth_map [of rq "heap_requests (snd p)" comp_chains] nth_map [OF rq, of comp_chains]
      by (simp add: inserted_def)
    with i st core_wf_heap [OF wf, of "snd p"]
    show "request_state k rq (case p of (g, h) \<Rightarrow> on_session r (\<lambda>x. x\<lparr>executor_graph := g\<rparr>) (s\<lparr>core_heap := h\<rparr>))"
      by (cases p) (simp add: request_state_def inserted_def chain_exists_def on_session_def)
  qed
next
  fix u and s :: "('a, 'b, 'c) serve_core"
  assume s: "request_state k rq s"
  have "core_wf k (spawn (map (\<lambda>c. ChainCoroutine r c AwaitActivated) (comp_chains (request_at (core_heap s) rq))) s)"
    using s by (auto simp: request_state_def core_wf_def chains_held_def spawn_def chain_exists_def)
  with s show "pyo_ensures (\<lambda>x s. core_wf k s \<and> (x = Inr () \<longrightarrow> request_state k rq s))
      (Some (py_return () (spawn (map (\<lambda>c. ChainCoroutine r c AwaitActivated) (comp_chains (request_at (core_heap s) rq))) s)))"
    by (simp add: request_state_def spawn_def)
qed (simp add: request_state_def)

lemma returns_semantic:
  assumes wf: "core_wf k s"
  shows "returns_core k (add_semantic_request uuid3 now r rid payload s)"
proof (cases "parse_from_payload rid (sess_id (session_at s r)) payload")
  case (Inl e)
  with wf show ?thesis by (simp add: add_semantic_request_def)
next
  case (Inr creq)
  define sid where "sid = sess_id (session_at s r)"
  have gw: "graph_wf (core_heap s)" using core_wf_parts [OF wf] by simp
  let ?Q1 = "\<lambda>x s1. core_wf k s1 \<and> (\<forall>rq. x = Inr rq \<longrightarrow> rq < length (heap_requests (core_heap s1)) \<and> adds_row (core_heap s) (core_heap s1) \<and>
    length (heap_nodes (core_heap s)) \<le> first_node (request_at (core_heap s1) rq) \<and>
    first_node (request_at (core_heap s1) rq) < length (heap_nodes (core_heap s1)) \<and>
    (\<forall>c \<in> set (comp_chains (request_at (core_heap s1) rq)). chain_exists (core_heap s1) c))"
  let ?Q2 = "\<lambda>rq x s2. core_wf k s2 \<and> (x = Inr () \<longrightarrow> request_state k rq s2 \<and> rq < length (heap_requests (core_heap s2)) \<and>
    first_node (request_at (core_heap s2) rq) < length (heap_nodes (core_heap s2)))"
  have "returns_core k (pyo_bind (in_heap (from_chunked_request creq) s) (\<lambda>rq s.
         pyo_bind (in_vars (create_vars_for_semantic_request_chain uuid3 now sid rq) s) (\<lambda>_ s.
         pyo_bind (executor_add_request r rq s) (\<lambda>_ s.
         pyo_bind (in_heap (activate_request (output_criteria (metadata creq)) rq) s) (\<lambda>_ s.
           in_heap (\<lambda>h. Some (get_request_param_info rq h)) s)))))"
  proof (rule pyo_ensures_bind)
    show "pyo_ensures ?Q1 (in_heap (from_chunked_request creq) s)"
      unfolding in_heap_def pyo_ensures_lift
      by (rule pyo_ensures_mono [OF graph_wf_from_chunked [OF gw]]) (use core_wf_heap [OF wf] in \<open>auto simp: adds_row_def\<close>)
  next
    fix rq and s1 :: "('a, 'b, 'c) serve_core"
    assume s1: "?Q1 (Inr rq) s1"
    show "returns_core k (pyo_bind (in_vars (create_vars_for_semantic_request_chain uuid3 now sid rq) s1) (\<lambda>_ s.
         pyo_bind (executor_add_request r rq s) (\<lambda>_ s.
         pyo_bind (in_heap (activate_request (output_criteria (metadata creq)) rq) s) (\<lambda>_ s.
           in_heap (\<lambda>h. Some (get_request_param_info rq h)) s))))"
    proof (rule pyo_ensures_bind)
      have w1: "core_wf k s1" "vm_wf (var_mgr s1, core_heap s1)" using s1 core_wf_parts by auto
      show "pyo_ensures (?Q2 rq) (in_vars (create_vars_for_semantic_request_chain uuid3 now sid rq) s1)"
        unfolding in_vars_def pyo_ensures_lift
      proof (rule pyo_ensures_mono [OF create_request_vars_wf [OF w1(2)]])
        fix x and p :: "('a, 'b) vm_state"
        assume v: "vars_added rq (core_heap s1) p"
        with s1 core_wf_update [OF w1(1)] show "?Q2 rq x (case p of (m, h) \<Rightarrow> s1\<lparr>core_heap := h, var_mgr := m\<rparr>)"
          by (cases p) (auto simp: vars_added_def request_state_def chain_exists_def)
      qed (use s1 in auto)
    next
      fix u and s2 :: "('a, 'b, 'c) serve_core"
      assume s2: "?Q2 rq (Inr u) s2"
      show "returns_core k (pyo_bind (executor_add_request r rq s2) (\<lambda>_ s.
         pyo_bind (in_heap (activate_request (output_criteria (metadata creq)) rq) s) (\<lambda>_ s.
           in_heap (\<lambda>h. Some (get_request_param_info rq h)) s)))"
      proof (rule pyo_ensures_bind [OF returns_executor_add])
        fix u and s3 :: "('a, 'b, 'c) serve_core"
        assume s3: "core_wf k s3 \<and> (Inr u = Inr () \<longrightarrow> request_state k rq s3)"
        show "returns_core k (pyo_bind (in_heap (activate_request (output_criteria (metadata creq)) rq) s3) (\<lambda>_ s.
           in_heap (\<lambda>h. Some (get_request_param_info rq h)) s))"
        proof (rule returns_bind [OF returns_in_heap])
          show "pyo_ensures (\<lambda>_ h. graph_wf h \<and> length (heap_svs (core_heap s3)) \<le> length (heap_svs h) \<and>
              length (heap_chains (core_heap s3)) \<le> length (heap_chains h))
            (activate_request (output_criteria (metadata creq)) rq (core_heap s3))"
            by (rule pyo_ensures_mono [OF activate_request_wf])
               (use s3 core_wf_parts activated_frame in \<open>auto simp: request_state_def chain_exists_def\<close>)
        next
          fix x and s4 :: "('a, 'b, 'c) serve_core"
          assume "core_wf k s4"
          then show "returns_core k (in_heap (\<lambda>h. Some (get_request_param_info rq h)) s4)"
            by (cases "request_is_inserted rq (core_heap s4)") (simp_all add: in_heap_def get_request_param_info_def)
        qed (use s3 in simp)
      qed (use s2 in auto)
    qed simp
  qed simp
  with Inr show ?thesis by (simp add: add_semantic_request_def sid_def Let_def)
qed


lemma activate_outputs_wf:
  assumes wf: "graph_wf h" and n: "n < length (heap_nodes h)"
  shows "pyo_ensures (\<lambda>_ h'. activated h h') (activate_outputs crit n h)"
proof -
  have refl: "activated h h" using wf by (simp add: activated_def)
  have outs: "\<forall>v \<in> set (dict_values (output_vars (node_at h n))). v < length (heap_svs h)"
    using wf vars_wfD(1) [of h n] n by (auto simp: graph_wf_def var_refs_ok_def)
  obtain r where r: "read_criteria crit h = (r, h)"
    using read_criteria_state [of crit h] by (cases "read_criteria crit h") simp
  have loop: "pyo_ensures (\<lambda>_ h'. activated h h')
    (pyo_fold (\<lambda>v _ h. activate_with c v h) (dict_values (output_vars (node_at h n))) () h)" for c
  proof -
    have "pyo_ensures (\<lambda>r h'. case r of Inl e \<Rightarrow> activated h h' | Inr acc \<Rightarrow> activated h h')
      (pyo_fold (\<lambda>v _ h. activate_with c v h) (dict_values (output_vars (node_at h n))) () h)"
    proof (rule pyo_ensures_fold [where I = "\<lambda>_. activated h"])
      fix v u and h1 :: "'a graph_heap"
      assume v: "v \<in> set (dict_values (output_vars (node_at h n)))" and h1: "activated h h1"
      have "pyo_ensures (\<lambda>_ h'. activated h1 h') (activate_with c v h1)"
        by (rule activate_with_wf) (use outs v activated_frame [OF h1] in auto)
      then show "pyo_ensures (\<lambda>r h'. case r of Inl e \<Rightarrow> activated h h' | Inr acc \<Rightarrow> activated h h') (activate_with c v h1)"
        by (rule pyo_ensures_mono) (use h1 evolves_trans in \<open>auto simp: activated_def split: sum.split\<close>)
    qed (rule refl)
    then show ?thesis by (rule pyo_ensures_mono) (simp split: sum.splits)
  qed
  show ?thesis
    using refl r loop by (cases "crit = JNone"; cases r) (simp_all add: activate_outputs_def)
qed

lemma returns_native:
  assumes wf: "core_wf k s"
    and known: "\<And>nrq. parse_native_from_payload deserialize rid (sess_id (session_at s r)) payload = Inr nrq \<Longrightarrow>
      list_all (\<lambda>kp. param_known (session_lookup (var_mgr s) (sess_id (session_at s r)))
        (created_ids uuid3 (var_mgr s) (sess_id (session_at s r))) (snd kp)) (native_parameters_map nrq)"
  shows "returns_core k (add_py_native_request uuid3 deserialize r rid payload s)"
proof (cases "parse_native_from_payload deserialize rid (sess_id (session_at s r)) payload")
  case (Inl e)
  with wf show ?thesis by (simp add: add_py_native_request_def)
next
  case (Inr nrq)
  define sid where "sid = sess_id (session_at s r)"
  obtain n h where al: "alloc_node (new_native_node nrq) (core_heap s) = (n, h)" by (metis prod.exhaust)
  define K L where "K = length (heap_chains (core_heap s))" and "L = length (heap_svs (core_heap s))"
  let ?ids = "session_lookup (var_mgr s) sid" and ?own = "created_ids uuid3 (var_mgr s) sid"
  define s0 where "s0 = s\<lparr>core_heap := h\<rparr>"
  have b0: "native_building uuid3 ?own K sid L ?ids n nrq (var_mgr s, h)"
    unfolding K_def L_def using new_native_building core_wf_parts [OF wf] al by blast
  have w0: "core_wf k s0"
    unfolding s0_def using core_wf_heap [OF wf, of h] b0 by (simp add: native_building_def vm_wf_def K_def L_def)
  have kn: "list_all (\<lambda>kp. param_known ?ids ?own (snd kp)) (native_parameters_map nrq)" using known Inr by (simp add: sid_def)
  let ?Q = "\<lambda>_ s1. core_wf k s1 \<and> n < length (heap_nodes (core_heap s1))"
  have "returns_core k (pyo_bind (in_vars (\<lambda>x. Some (create_vars_for_pynative_func uuid3 sid n x)) s0) (\<lambda>_ s.
          pyo_bind (add_native_func r n s) (\<lambda>_ s.
          pyo_bind (in_heap (activate_outputs (native_output_criteria (native_metadata nrq)) n) s) (\<lambda>_ s.
            in_heap (\<lambda>h. Some (get_native_param_info (node_at h n) h)) s))))"
  proof (rule pyo_ensures_bind)
    have "pyo_ensures (\<lambda>_ x. native_building uuid3 ?own K sid L ?ids n nrq x) (Some (create_vars_for_pynative_func uuid3 sid n (var_mgr s0, core_heap s0)))"
      unfolding pyo_ensures_Some_iff by (rule create_pynative_building [OF _ kn]) (simp add: s0_def b0)
    then show "pyo_ensures ?Q (in_vars (\<lambda>x. Some (create_vars_for_pynative_func uuid3 sid n x)) s0)"
      unfolding in_vars_def pyo_ensures_lift
    proof (rule pyo_ensures_mono)
      fix x and p :: "('a, 'b) vm_state"
      assume p: "native_building uuid3 ?own K sid L ?ids n nrq p"
      have "length (heap_chains (core_heap s0)) = K" using b0 by (simp add: s0_def native_building_def)
      with p core_wf_update [OF w0, of "fst p" "snd p"] show "?Q x (case p of (m, h) \<Rightarrow> s0\<lparr>core_heap := h, var_mgr := m\<rparr>)"
        by (cases p) (simp add: native_building_def)
    qed
  next
    fix u and s1 :: "('a, 'b, 'c) serve_core"
    assume s1: "?Q (Inr u) s1"
    show "returns_core k (pyo_bind (add_native_func r n s1) (\<lambda>_ s.
          pyo_bind (in_heap (activate_outputs (native_output_criteria (native_metadata nrq)) n) s) (\<lambda>_ s.
            in_heap (\<lambda>h. Some (get_native_param_info (node_at h n) h)) s)))"
    proof (rule pyo_ensures_bind)
      show "pyo_ensures ?Q (add_native_func r n s1)"
        unfolding add_native_func_def
      proof (rule pyo_ensures_bind)
        have gw: "graph_wf (core_heap s1)" using s1 core_wf_parts by blast
        show "pyo_ensures ?Q (in_graph r (\<lambda>g. Some (insert_native_func_node n g)) s1)"
          unfolding in_graph_def pyo_ensures_lift pyo_ensures_Some_iff
        proof (rule py_ensures_mono [OF insert_native_wf [OF gw]])
          fix x and p :: "'b graph_state"
          assume k: "kept_wf (core_heap s1) (snd p)"
          with s1 core_wf_heap [of k s1 "snd p"]
          show "?Q x (case p of (g, h) \<Rightarrow> on_session r (\<lambda>x. x\<lparr>executor_graph := g\<rparr>) (s1\<lparr>core_heap := h\<rparr>))"
            by (cases p) (simp add: kept_wf_def links_kept_def on_session_def)
        qed (use s1 in simp)
      next
        fix u and s2 :: "('a, 'b, 'c) serve_core"
        assume "?Q (Inr u) s2"
        then show "pyo_ensures ?Q (Some (py_return () (spawn [NativeCoroutine r n NativeAwaitActivated] s2)))"
          by (auto simp: spawn_def core_wf_def chains_held_def split: coroutine.splits)
      qed
    next
      fix u and s2 :: "('a, 'b, 'c) serve_core"
      assume s2: "?Q (Inr u) s2"
      show "returns_core k (pyo_bind (in_heap (activate_outputs (native_output_criteria (native_metadata nrq)) n) s2) (\<lambda>_ s.
            in_heap (\<lambda>h. Some (get_native_param_info (node_at h n) h)) s))"
      proof (rule returns_bind [OF returns_in_heap])
        show "pyo_ensures (\<lambda>_ h. graph_wf h \<and> length (heap_svs (core_heap s2)) \<le> length (heap_svs h) \<and>
            length (heap_chains (core_heap s2)) \<le> length (heap_chains h))
          (activate_outputs (native_output_criteria (native_metadata nrq)) n (core_heap s2))"
          by (rule pyo_ensures_mono [OF activate_outputs_wf]) (use s2 core_wf_parts activated_frame in auto)
      next
        fix x and s3 :: "('a, 'b, 'c) serve_core"
        assume "core_wf k s3"
        then show "returns_core k (in_heap (\<lambda>h. Some (get_native_param_info (node_at h n) h)) s3)"
          by (cases "is_inserted (node_at (core_heap s3) n)") (simp_all add: in_heap_def get_native_param_info_def)
      qed (use s2 in simp)
    qed simp
  qed simp
  with Inr al show ?thesis by (simp add: add_py_native_request_def sid_def s0_def Let_def)
qed

lemma returns_add_request:
  assumes wf: "core_wf k s"
    and known: "\<And>nrq. native \<Longrightarrow> parse_native_from_payload (env_deserialize env) (request_id_counter (session_at s r)) (sess_id (session_at s r)) payload = Inr nrq \<Longrightarrow>
      list_all (\<lambda>kp. param_known (session_lookup (var_mgr s) (sess_id (session_at s r)))
        (created_ids (env_uuid3 env) (var_mgr s) (sess_id (session_at s r))) (snd kp)) (native_parameters_map nrq)"
  shows "returns_core k (add_request (env_uuid3 env) (env_deserialize env) now r payload native s)"
proof -
  define s1 where "s1 = on_session r (\<lambda>x. x\<lparr>request_id_counter := request_id_counter (session_at s r) + 1\<rparr>) s"
  have w1: "core_wf k s1" using wf by (simp add: s1_def)
  have vm: "var_mgr s1 = var_mgr s" by (simp add: s1_def on_session_def)
  have sid: "sess_id (session_at s1 r) = sess_id (session_at s r)"
    by (cases "r < length (session_objs s)") (simp_all add: s1_def on_session_def list_update_beyond)
  have "returns_core k (if native then add_py_native_request (env_uuid3 env) (env_deserialize env) r (request_id_counter (session_at s r)) payload s1
      else add_semantic_request (env_uuid3 env) now r (request_id_counter (session_at s r)) payload s1)"
    using returns_native [OF w1, where r = r, unfolded vm sid, OF known] returns_semantic [OF w1] by (cases native) simp_all
  then show ?thesis
    unfolding add_request_def Let_def s1_def [symmetric] by (rule returns_bind) simp
qed

subsection \<open>Variables\<close>

lemma get_var_result:
  assumes "vm_ok (length (heap_svs h)) m"
  shows "py_ensures (\<lambda>r s. s = (m, h) \<and> (\<forall>v. r = Inr v \<longrightarrow> v < length (heap_svs h))) (get_var sid vid (m, h))"
proof -
  have c: "v < length (heap_svs h)" if "map_of (ns_vars (constant_prefix_namespace m)) vid = Some v" for v
    using ns_ok_lookup [OF _ that] assms by (simp add: vm_ok_def)
  have l: "v < length (heap_svs h)" if "map_of (session_namespaces m) sid = Some ns" "map_of (ns_vars ns) vid = Some v" for ns v
    using session_lookup_ok [OF assms, of sid vid v] that by (simp add: session_lookup_def)
  show ?thesis
    using c l
    by (cases "map_of (ns_vars (constant_prefix_namespace m)) vid"; cases "map_of (session_namespaces m) sid")
       (auto simp: get_var_def get_var_by_id_def key_iff_map_of split: option.split)
qed

lemma returns_get_var:
  assumes "core_wf k s"
  shows "pyo_ensures (\<lambda>r s. core_wf k s \<and> (\<forall>v. r = Inr v \<longrightarrow> v < length (heap_svs (core_heap s)))) (in_vars (\<lambda>x. Some (get_var sid vid x)) s)"
  unfolding in_vars_def pyo_ensures_lift pyo_ensures_Some_iff
  by (rule py_ensures_mono [OF get_var_result])
     (use assms core_wf_parts [OF assms] core_wf_update [OF assms] in auto)

lemma returns_create_var:
  assumes "core_wf k s"
  shows "returns_core k (in_vars (\<lambda>x. Some (create_var uuid3 sid nm x)) s)"
proof (rule returns_in_vars [OF assms])
  have p: "graph_wf (core_heap s)" "vm_ok (length (heap_svs (core_heap s))) (var_mgr s)" using core_wf_parts [OF assms] by simp_all
  have "py_ensures (\<lambda>_ x. vm_wf x \<and> length (heap_chains (core_heap s)) \<le> length (heap_chains (snd x)))
    (create_local_var_by_name uuid3 sid nm (var_mgr s, core_heap s))"
    by (rule py_ensures_mono [OF local_var_results(1) [OF p(2)]])
       (use graph_wf_svs_grow [OF p(1)] in \<open>auto simp: vm_result_def var_result_def vm_wf_def svs_grow_def\<close>)
  with p show "pyo_ensures (\<lambda>_ x. vm_wf x \<and> length (heap_chains (core_heap s)) \<le> length (heap_chains (snd x)))
      (Some (create_var uuid3 sid nm (var_mgr s, core_heap s)))"
    by (cases "dict_mem sid (session_namespaces (var_mgr s))")
       (simp_all add: create_var_def create_local_var_by_name_def pyo_ensures_Some_iff vm_wf_def)
qed

lemma returns_set_content:
  assumes "core_wf k s"
  shows "returns_core k (in_heap (\<lambda>h. Some (on_sv v (sv_set x) h)) s)"
proof (rule returns_in_heap [OF assms])
  have g: "svs_grow (core_heap s) (snd (on_sv v (sv_set x) (core_heap s)))" by (rule svs_grow_set)
  with graph_wf_svs_grow [OF _ g] core_wf_parts [OF assms]
  show "pyo_ensures (\<lambda>_ h. graph_wf h \<and> length (heap_svs (core_heap s)) \<le> length (heap_svs h) \<and>
      length (heap_chains (core_heap s)) \<le> length (heap_chains h)) (Some (on_sv v (sv_set x) (core_heap s)))"
    by (simp add: pyo_ensures_Some_iff py_ensures_def svs_grow_def)
qed


subsection \<open>Coroutines\<close>

lemma core_wf_execution [simp]:
  "core_wf k (on_task t f s) = core_wf k s" "core_wf k (put_contexts cm s) = core_wf k s"
  "core_wf k (on_ctx c g s) = core_wf k s" "core_wf k (start_ctx c s) = core_wf k s" "core_wf k (ready_ctx c s) = core_wf k s"
  "core_wf k (exception_interrupt r e s) = core_wf k s" "core_wf k (refresh_task t ch s) = core_wf k s"
  by (simp_all add: on_task_def put_contexts_def on_ctx_def start_ctx_def ready_ctx_def exception_interrupt_def refresh_task_def)

lemma keeps_primitives:
  assumes wf: "core_wf k s"
  shows "is_gen (node_at (core_heap s) n) \<Longrightarrow> keeps_core k (generate_primitive r t n c loc s)"
    and "keeps_core k (fill_primitive r t n i c loc s)"
proof -
  have heap: "core_wf k (s\<lparr>core_heap := on_node n (\<lambda>x. x\<lparr>node_kind := PlaceholderGen p\<rparr>) (core_heap s)\<rparr>)"
    if k: "is_gen (node_at (core_heap s) n)" for p
  proof (rule core_wf_heap [OF wf])
    let ?h = "on_node n (\<lambda>x. x\<lparr>node_kind := PlaceholderGen p\<rparr>) (core_heap s)"
    have keep: "links_kept (core_heap s) ?h"
      using k by (cases "n < length (heap_nodes (core_heap s))") (auto simp: links_kept_def on_node_def nth_list_update is_gen_def)
    have gw: "graph_wf (core_heap s)" using core_wf_parts [OF wf] by simp
    show "graph_wf ?h" by (rule graph_wf_links [OF gw keep]) (simp add: on_node_def)
  qed (simp_all add: on_node_def)
  show "keeps_core k (generate_primitive r t n c loc s)" if "is_gen (node_at (core_heap s) n)"
    using wf heap [OF that]
    by (simp add: generate_primitive_def Let_def split: option.split prod.split json.split)
  have "snd (node_get (node_at (core_heap s) n) (core_heap s)) = core_heap s"
    by (cases "node_sv (node_at (core_heap s) n)") (simp_all add: node_get_def get_node_sv_def sv_get_def parrot_assert_def)
  then have "keeps_core k (py_lift (\<lambda>h. s\<lparr>core_heap := h\<rparr>) (node_get (node_at (core_heap s) n) (core_heap s)))"
    using wf by (simp add: py_ensures_def py_lift_def)
  then have "keeps_core k (py_bind (py_lift (\<lambda>h. s\<lparr>core_heap := h\<rparr>) (node_get (node_at (core_heap s) n) (core_heap s))) (\<lambda>x s.
      if has_len x then py_return (FillText sid tid cid pid x) s else py_raise TypeError s))" for sid tid cid pid
    by (rule keeps_bind) simp
  then show "keeps_core k (fill_primitive r t n i c loc s)"
    using wf by (auto simp: fill_primitive_def Let_def dict_get_def split: option.splits sum.splits)
qed

lemma keeps_finish: "core_wf k s \<Longrightarrow> keeps_core k (finish_chain env t s)"
  unfolding finish_chain_def
  by (intro keeps_bind keeps_in_contexts keeps_lift) (auto split: prod.splits)

lemma keeps_fail_node: "core_wf k s \<Longrightarrow> keeps_core k (fail_node r t c e s)"
  unfolding fail_node_def by (intro keeps_bind keeps_in_engines) simp_all

lemma keeps_fail_finish: "core_wf k s \<Longrightarrow> keeps_core k (py_bind (fail_node r t c e s) (\<lambda>_ s. finish_chain env t s))"
  by (intro keeps_bind keeps_fail_node keeps_finish)


lemma keeps_execute_from: "core_wf k s \<Longrightarrow> keeps_core k (execute_from env r t loc i ns s)"
proof (induction ns arbitrary: i s)
  case Nil
  then show ?case by (simp add: keeps_finish)
next
  case (Cons n ns)
  define c where "c = contexts (core_task s t) ! i"
  define p where "p = (if is_gen (node_at (core_heap s) n) then generate_primitive r t n c loc (start_ctx c s)
                  else fill_primitive r t n i c loc (start_ctx c s))"
  have heap: "core_heap (start_ctx c s) = core_heap s" by (simp add: start_ctx_def on_ctx_def put_contexts_def)
  have w: "core_wf k (start_ctx c s)" using Cons.prems by (simp add: start_ctx_def on_ctx_def put_contexts_def)
  have p: "keeps_core k p"
  proof (cases "is_gen (node_at (core_heap s) n)")
    case True
    with keeps_primitives(1) [OF w, of n r t c loc] heap show ?thesis by (simp add: p_def)
  next
    case False
    with keeps_primitives(2) [OF w, of r t n i c loc] show ?thesis by (simp add: p_def)
  qed
  obtain x s1 where x: "p = (x, s1)" by (cases p)
  have "keeps_core k (case p of
      (Inl e, s) \<Rightarrow> py_bind (fail_node r t c (e, True) s) (\<lambda>_ s. finish_chain env t s)
    | (Inr q, s) \<Rightarrow> py_return (AwaitResponse t i loc) (s\<lparr>posts := posts s @ [(engine_url (core_store s) (core_ctx s c), q)]\<rparr>))"
    using p x keeps_fail_finish by (cases x) simp_all
  with Cons.IH Cons.prems show ?case
    unfolding execute_from.simps Let_def c_def [symmetric] p_def [symmetric] by simp
qed

lemma keeps_node_result: "core_wf k s \<Longrightarrow> keeps_core k (node_result env n loc ids txt s)"
proof -
  assume wf: "core_wf k s"
  have set_ok: "keeps_core k (py_lift (\<lambda>h. s\<lparr>core_heap := h\<rparr>) (on_sv v (sv_set x) (core_heap s)))" if "core_wf k s"
    for v x and s :: "('a, 'b, 'c) serve_core"
    using returns_set_content [OF that, of v x] by (simp add: in_heap_def pyo_lift_def pyo_ensures_Some_iff)
  have sv: "keeps_core k (get_node_sv nd s)" if "core_wf k s" for nd :: "'b graph_node" and s :: "('a, 'b, 'c) serve_core"
    using that by (cases "node_sv nd") (simp_all add: get_node_sv_def)
  have "keeps_core k (case loc of Some (name, eos) \<Rightarrow> py_lift (\<lambda>_. s) (detokenize (env_lib env) ids name (em_tokenizers (core_engines s)))
            | None \<Rightarrow> py_return txt s)"
    using wf by (auto simp: py_ensures_def py_lift_def split: option.splits)
  then show ?thesis
    unfolding node_result_def using wf set_ok sv by (auto intro!: keeps_bind)
qed

lemma keeps_on_response: "core_wf k s \<Longrightarrow> keeps_core k (on_response env r t loc i ns resp s)"
proof (cases ns)
  case Nil
  assume "core_wf k s"
  with Nil show ?thesis by (simp add: on_response_def keeps_finish)
next
  case (Cons n rest)
  assume wf: "core_wf k s"
  show ?thesis
  proof (cases resp)
    case (Failed e)
    with Cons wf show ?thesis by (simp add: on_response_def keeps_fail_finish)
  next
    case (Answered ids answer)
    have k: "keeps_core k (node_result env n loc ids answer s)" using wf by (rule keeps_node_result)
    obtain x s1 where "node_result env n loc ids answer s = (x, s1)" by (cases "node_result env n loc ids answer s")
    with k Cons Answered show ?thesis
      by (cases x) (simp_all add: on_response_def Let_def keeps_fail_finish keeps_execute_from)
  qed
qed

lemma chain_iters:
  assumes "core_wf k s" and "c < length (heap_chains (core_heap s))"
  shows "\<exists>ns. chain_nodes_of (core_heap s) c = Some ns" and "\<exists>ch. chain_view (core_heap s) c = Some ch"
    and "\<exists>fs stop. fill_iter (heap_nodes (core_heap s)) (chain_first_node (chain_at (core_heap s) c)) = Some (fs, stop)"
proof -
  have st: "struct_wf (core_heap s)" using core_wf_parts [OF assms(1)] by (simp add: graph_wf_def)
  obtain f where f: "f < length (heap_nodes (core_heap s))" "chain_first_node (chain_at (core_heap s) c) = Some f"
    using st assms(2) by (auto simp: struct_wf_def)
  have e: "edges_ok (heap_nodes (core_heap s))" using st by (simp add: struct_wf_def)
  show "\<exists>ns. chain_nodes_of (core_heap s) c = Some ns"
    using completion_iter_returns [OF e f(1)] f(2) by (auto simp: chain_nodes_of_def)
  show "\<exists>fs stop. fill_iter (heap_nodes (core_heap s)) (chain_first_node (chain_at (core_heap s) c)) = Some (fs, stop)"
    using fill_iter_returns [OF e f(1)] f(2) by auto
  show "\<exists>ch. chain_view (core_heap s) c = Some ch"
    using completion_iter_returns [OF e f(1)] fill_iter_returns [OF e f(1)] f(2) by (auto simp: chain_view_def Let_def)
qed

lemma scheduling_error_wf: "core_wf k s \<Longrightarrow> returns_core k (Some (scheduling_error r e s))"
  by (simp add: scheduling_error_def)

lemma returns_submit_chain:
  assumes "core_wf k s" and "c < length (heap_chains (core_heap s))"
  shows "returns_core k (submit_chain env r c t s)"
proof -
  obtain ch where ch: "chain_view (core_heap s) c = Some ch" using chain_iters [OF assms] by blast
  show ?thesis
    unfolding submit_chain_def ch bind.simps Let_def
    using assms(1) by (auto simp: scheduling_error_wf split: prod.split sum.split)
qed

lemma returns_await_inputs:
  assumes "core_wf k s" and "c < length (heap_chains (core_heap s))"
  shows "returns_core k (await_inputs env r c t ns stop s)"
  using assms
proof (induction ns)
  case Nil
  then show ?case using returns_submit_chain by (auto simp: scheduling_error_wf split: option.split)
next
  case (Cons n ns)
  then show ?case by (auto simp: scheduling_error_wf split: prod.split sum.split bool.split)
qed

lemma returns_create_task:
  assumes wf: "core_wf k s" and c: "c < length (heap_chains (core_heap s))"
  shows "returns_core k (create_chain_task env r c s)"
proof -
  obtain ch where ch: "chain_view (core_heap s) c = Some ch" using chain_iters [OF assms] by blast
  obtain fs stop where fs: "fill_iter (heap_nodes (core_heap s)) (chain_first_node (chain_at (core_heap s) c)) = Some (fs, stop)"
    using chain_iters [OF assms] by blast
  obtain x p where x: "create_task ch (task_id_pool s) = (x, p)" by (cases "create_task ch (task_id_pool s)")
  have "core_wf k (s\<lparr>task_id_pool := p, task_chains := task_chains s @ [c], global_sched := g\<rparr>)" for g
    using wf c by (auto simp: core_wf_def chains_held_def)
  with x fs ch wf c show ?thesis
    by (cases x) (simp_all add: create_chain_task_def Let_def scheduling_error_wf returns_await_inputs)
qed

lemma returns_begin:
  assumes wf: "core_wf k s" and c: "c < length (heap_chains (core_heap s))"
  shows "returns_core k (begin_execution env r c t s)"
proof -
  let ?k = "length (heap_chains (core_heap s))"
  let ?P = "\<lambda>_ s. core_wf k s \<and> c < length (heap_chains (core_heap s))"
  show ?thesis
    unfolding begin_execution_def
  proof (rule pyo_ensures_bind [where P = ?P])
    show "pyo_ensures ?P (Some (py_lift (\<lambda>(task, cm). put_contexts cm (on_task t (\<lambda>_. task) s)) (set_task_contexts (core_store s) (core_task s t, core_contexts s))))"
      using wf c by (auto simp: pyo_ensures_Some_iff py_ensures_def py_lift_def put_contexts_def on_task_def split: prod.split)
  next
    fix u and s1 :: "('a, 'b, 'c) serve_core"
    assume s1: "?P (Inr u) s1"
    show "returns_core k (pyo_bind (Some (execute_locals env t s1)) (\<lambda>loc s. Option.bind (chain_nodes_of (core_heap s) c) (\<lambda>ns. Some (execute_from env r t loc 0 ns s))))"
    proof (rule pyo_ensures_bind [where P = ?P])
      have "snd (execute_locals env t s1) = s1 \<or> snd (execute_locals env t s1) = on_task t (\<lambda>x. x\<lparr>task_status := EXECUTING\<rparr>) s1"
        by (auto simp: execute_locals_def Let_def py_bind_def py_lift_def parrot_assert_def py_return_def py_raise_def engine_tokenizer_name_def
            split: option.split prod.split sum.split if_split)
      with s1 show "pyo_ensures ?P (Some (execute_locals env t s1))"
        by (auto simp: pyo_ensures_Some_iff py_ensures_def on_task_def)
    next
      fix loc and s2 :: "('a, 'b, 'c) serve_core"
      assume s2: "?P (Inr loc) s2"
      then obtain ns where "chain_nodes_of (core_heap s2) c = Some ns" using chain_iters by blast
      with s2 show "returns_core k (Option.bind (chain_nodes_of (core_heap s2) c) (\<lambda>ns. Some (execute_from env r t loc 0 ns s2)))"
        by (simp add: returns_Some keeps_execute_from)
    qed simp
  qed simp
qed

lemma returns_chain_step:
  assumes wf: "core_wf k s" and c: "c < length (heap_chains (core_heap s))"
  shows "returns_core k (chain_step env resp r c stage s)"
proof (cases stage)
  case AwaitActivated
  then show ?thesis
    using wf returns_create_task [OF wf c]
    by (cases "node_sv (node_at (core_heap s) (chain_gen_node (chain_at (core_heap s) c)))")
       (simp_all add: chain_step_def get_node_sv_def py_raise_def py_return_def scheduling_error_wf)
next
  case (AwaitInputs t ns stop)
  then show ?thesis using returns_await_inputs [OF wf c] by (simp add: chain_step_def)
next
  case (AwaitScheduled t)
  then show ?thesis using wf returns_begin [OF wf c] by (simp add: chain_step_def)
next
  case (AwaitContext t i loc)
  obtain ns where "chain_nodes_of (core_heap s) c = Some ns" using chain_iters [OF wf c] by blast
  with AwaitContext wf show ?thesis by (simp add: chain_step_def returns_Some keeps_execute_from)
next
  case (AwaitResponse t i loc)
  obtain ns where "chain_nodes_of (core_heap s) c = Some ns" using chain_iters [OF wf c] by blast
  with AwaitResponse wf show ?thesis by (cases resp) (simp_all add: chain_step_def returns_Some keeps_on_response)
next
  case ChainDone
  with wf show ?thesis by (simp add: chain_step_def)
qed

subsection \<open>Native functions and steps of the coroutines\<close>

lemma write_outputs_grows: "svs_grow h (snd (write_outputs res outs h))"
proof -
  have "py_ensures (\<lambda>_ h'. svs_grow h h') (write_outputs res outs h)"
    unfolding write_outputs_def
  proof (rule py_ensures_for)
    fix e and h1 :: "'a graph_heap"
    assume "svs_grow h h1"
    then show "py_ensures (\<lambda>_ h'. svs_grow h h') ((\<lambda>(key, v) h. on_sv v (sv_set (res key)) h) e h1)"
      by (cases e) (auto simp: py_ensures_def intro: svs_grow_trans svs_grow_set)
  qed simp
  then show ?thesis by (simp add: py_ensures_def)
qed

lemma core_wf_outputs:
  assumes "write_outputs res outs (core_heap s) = (x, h)" and "core_wf k s"
  shows "core_wf k (s\<lparr>core_heap := h\<rparr>)"
proof -
  have g: "svs_grow (core_heap s) h" using write_outputs_grows [of "core_heap s" res outs] assms(1) by simp
  show ?thesis
    using core_wf_heap [OF assms(2), of h] graph_wf_svs_grow [OF _ g] core_wf_parts [OF assms(2)] g by (simp add: svs_grow_def)
qed

lemma core_wf_execute_native: "core_wf k s \<Longrightarrow> core_wf k (snd (execute_native env r n s))"
  by (auto simp: execute_native_def Let_def dest: core_wf_outputs split: node_kind.splits prod.splits sum.splits option.splits)

lemma core_wf_run_native: "core_wf k s \<Longrightarrow> core_wf k (run_native env r n s)"
  using core_wf_execute_native [of k s env r n]
  by (cases "execute_native env r n s") (simp add: run_native_def split: node_kind.split option.split)

lemma keeps_native_step: "core_wf k s \<Longrightarrow> keeps_core k (native_step env r n stage s)"
  using core_wf_run_native [of k s env r n]
  by (auto simp: native_step_def Let_def split: native_stage.split prod.split sum.split bool.split)

lemma core_wf_put_coroutine:
  assumes "core_wf k s" and "case co of ChainCoroutine r c stage \<Rightarrow> c < k | NativeCoroutine _ _ _ \<Rightarrow> True"
  shows "core_wf k (put_coroutine i co s)"
proof -
  let ?ok = "\<lambda>co. case co of ChainCoroutine r c stage \<Rightarrow> c < length (heap_chains (core_heap s)) | NativeCoroutine _ _ _ \<Rightarrow> True"
  have "?ok co" using assms by (auto simp: core_wf_def split: coroutine.splits)
  moreover have "\<forall>x \<in> set (coroutines s). ?ok x" using assms(1) by (simp add: core_wf_def chains_held_def)
  ultimately have "\<forall>x \<in> set ((coroutines s)[i := co]). ?ok x"
    using set_update_subset_insert [of "coroutines s" i co] by blast
  with assms(1) show ?thesis by (simp add: core_wf_def chains_held_def put_coroutine_def)
qed

lemma core_wf_mono: "core_wf k s \<Longrightarrow> j \<le> k \<Longrightarrow> core_wf j s"
  by (simp add: core_wf_def)

lemma coroutine_step_returns:
  assumes wf: "core_wf k s" and i: "i < length (coroutines s)"
  shows "\<exists>s'. coroutine_step env resp i s = Some s' \<and> core_wf k s'"
proof (cases "coroutines s ! i")
  case (ChainCoroutine r c stage)
  let ?k = "length (heap_chains (core_heap s))"
  have c: "c < ?k"
    using wf nth_mem [OF i] ChainCoroutine by (auto simp: core_wf_def chains_held_def split: coroutine.splits)
  have wf': "core_wf ?k s" using wf by (simp add: core_wf_def)
  from returns_chain_step [OF wf' c, of env resp r stage] obtain x s1 where
    s1: "chain_step env resp r c stage s = Some (x, s1)" "core_wf ?k s1" by (auto simp: pyo_ensures_def)
  have "core_wf ?k (put_coroutine i (ChainCoroutine r c st) s1)" for st using core_wf_put_coroutine [OF s1(2)] c by simp
  moreover have "k \<le> ?k" using wf by (simp add: core_wf_def)
  ultimately have "core_wf k (put_coroutine i (ChainCoroutine r c st) s1)" for st using core_wf_mono by blast
  with ChainCoroutine s1(1) show ?thesis by (cases x) (simp_all add: coroutine_step_def)
next
  case (NativeCoroutine r n stage)
  obtain x s1 where s1: "native_step env r n stage s = (x, s1)" by (cases "native_step env r n stage s")
  with keeps_native_step [OF wf, of env r n stage] have "core_wf k s1" by simp
  then have "core_wf k (put_coroutine i (NativeCoroutine r n st) s1)" for st by (rule core_wf_put_coroutine) simp
  with NativeCoroutine s1 show ?thesis by (cases x) (simp_all add: coroutine_step_def)
qed

subsection \<open>The serving loop\<close>

lemma free_var_keeps:
  assumes "ns_ok l ns"
  shows "py_ensures (\<lambda>_ s. ns_ok l (fst s) \<and> snd s = h) (free_var v (ns, h))"
  using assms dict_pop_subset [of "var_id (sv_at h v)" "ns_vars ns"]
  by (cases "dict_mem (var_id (sv_at h v)) (ns_vars ns)"; cases "pool_free (var_seed (sv_at h v)) (seed_pool ns)"; cases "fst (pool_free (var_seed (sv_at h v)) (seed_pool ns))")
     (auto simp: free_var_def ns_ok_def)

lemma expire_loop_keeps:
  assumes "vm_ok l m"
  shows "py_ensures (\<lambda>_ s. vm_ok l (fst s) \<and> snd s = h) (expire_loop now items ret (m, h))"
  using assms
proof (induction items arbitrary: ret m)
  case (Cons e items)
  obtain vid t where e: "e = (vid, t)" by (cases e)
  show ?case
  proof (cases "now - t > constant_prefix_var_timeout m * 1000000000")
    case True
    note late = this
    show ?thesis
    proof (cases "get_var_by_id (constant_prefix_namespace m) vid")
      case (Some v)
      have "ns_ok l (constant_prefix_namespace m)" using Cons.prems by (simp add: vm_ok_def)
      from free_var_keeps [OF this, of h v]
      have p: "py_ensures (\<lambda>_ s. vm_ok l (fst s) \<and> snd s = h)
          (py_lift (\<lambda>(ns, h). (m\<lparr>constant_prefix_namespace := ns\<rparr>, h)) (free_var v (constant_prefix_namespace m, h)))"
        unfolding py_ensures_lift by (rule py_ensures_mono) (use Cons.prems in \<open>auto simp: vm_ok_def\<close>)
      have "py_ensures (\<lambda>_ s. vm_ok l (fst s) \<and> snd s = h)
          (py_bind (py_lift (\<lambda>(ns, h). (m\<lparr>constant_prefix_namespace := ns\<rparr>, h)) (free_var v (constant_prefix_namespace m, h)))
            (\<lambda>_ (m, h). expire_loop now items (ret @ [v])
                 (m\<lparr>constant_prefix_last_access_time := dict_pop vid (constant_prefix_last_access_time m)\<rparr>, h)))"
        by (rule py_ensures_bind [OF p]) (use Cons.IH in \<open>auto simp: vm_ok_def\<close>)
      with late Some e show ?thesis by simp
    qed (use late e Cons.prems in simp)
  qed (use e Cons in simp)
qed simp

lemma returns_expire:
  assumes "core_wf k s"
  shows "returns_core k (in_vars (\<lambda>x. Some (free_expired_constant_prefix_vars now x)) s)"
proof (rule returns_in_vars [OF assms])
  have p: "graph_wf (core_heap s)" "vm_ok (length (heap_svs (core_heap s))) (var_mgr s)" using core_wf_parts [OF assms] by simp_all
  show "pyo_ensures (\<lambda>_ x. vm_wf x \<and> length (heap_chains (core_heap s)) \<le> length (heap_chains (snd x)))
      (Some (free_expired_constant_prefix_vars now (var_mgr s, core_heap s)))"
    unfolding pyo_ensures_Some_iff free_expired_constant_prefix_vars_def
    by (rule py_ensures_mono [OF expire_loop_keeps [OF p(2)]]) (use p(1) in \<open>auto simp: vm_wf_def\<close>)
qed

lemma keeps_drop_prefix: "core_wf k s \<Longrightarrow> keeps_core k (drop_prefix_contexts env vs s)"
  unfolding drop_prefix_contexts_def by (intro py_ensures_for keeps_in_contexts)

lemma refresh_tasks_returns:
  assumes "core_wf k s"
  shows "\<exists>s'. refresh_tasks s = Some s' \<and> core_wf k s'"
proof -
  have "\<forall>c \<in> set (task_chains s). \<exists>ch. chain_view (core_heap s) c = Some ch"
    using chain_iters(2) [OF assms] assms by (auto simp: core_wf_def chains_held_def)
  then have "those (map (chain_view (core_heap s)) cs) \<noteq> None" if "set cs \<subseteq> set (task_chains s)" for cs
    using that by (induction cs) auto
  then obtain chs where "those (map (chain_view (core_heap s)) (task_chains s)) = Some chs" by blast
  with assms show ?thesis by (simp add: refresh_tasks_def)
qed

lemma returns_serve_iteration:
  assumes wf: "core_wf k s"
  shows "returns_core k (serve_iteration env now s)"
  unfolding serve_iteration_def
proof (intro returns_bind returns_Some keeps_session_ops keeps_in_engines returns_expire keeps_drop_prefix)
  fix s :: "('a, 'b, 'c) serve_core"
  assume "core_wf k s"
  with refresh_tasks_returns obtain s' where "refresh_tasks s = Some s'" "core_wf k s'" by blast
  then show "returns_core k (Option.bind (refresh_tasks s) (\<lambda>s. Some (py_lift (\<lambda>gs. s\<lparr>global_sched := gs\<rparr>) (schedule (global_sched s)))))"
    by (simp add: returns_Some keeps_lift)
qed (rule wf)

subsection \<open>The calls\<close>

lemma returns_submit_call:
  assumes wf: "core_wf k s" and known: "native \<Longrightarrow> request_known env (SubmitPyNativeCall payload) s"
  shows "returns_core k (core_submit_call env now payload native s)"
proof -
  let ?P = "\<lambda>s1. core_wf k s1 \<and> var_mgr s1 = var_mgr s \<and> sessions s1 = sessions s \<and> session_objs s1 = session_objs s"
  let ?A = "\<lambda>sid. \<exists>key. map_of payload ''session_id'' = Some key \<and> int_key key = Inr (Some sid)"
  have dict: "pyo_ensures (\<lambda>x s1. ?P s1 \<and> (\<forall>key. x = Inr key \<longrightarrow> map_of payload ''session_id'' = Some key)) (Some (dict_get payload ''session_id'' s))"
    using wf by (cases "map_of payload ''session_id''") (simp_all add: dict_get_def pyo_ensures_Some_iff)
  have status: "pyo_ensures (\<lambda>x s1. ?P s1 \<and> (\<forall>sid. x = Inr sid \<longrightarrow> ?A sid)) (Some (check_session_status key s1))"
    if "?P s1" "map_of payload ''session_id'' = Some key" for key s1
    using that by (auto simp: check_session_status_def pyo_ensures_Some_iff split: sum.split option.split)
  have access: "pyo_ensures (\<lambda>_. ?P) (Some (session_access_update now sid s1))" if "?P s1" for sid s1
    using that by (cases "dict_mem sid (sessions s1)") (simp_all add: session_access_update_def pyo_ensures_Some_iff)
  have sess: "pyo_ensures (\<lambda>x s1. ?P s1 \<and> (\<forall>r. x = Inr r \<longrightarrow> map_of (sessions s) sid = Some r)) (Some (get_session sid s1))" if "?P s1" for sid s1
    using that by (cases "map_of (sessions s) sid") (auto simp: get_session_def dict_get_def pyo_ensures_Some_iff py_ensures_def parrot_assert_def dict_mem_def)
  have add: "returns_core k (pyo_bind (add_request (env_uuid3 env) (env_deserialize env) now r payload native s1)
      (\<lambda>(rid, info) s. Some (py_return (Submitted rid info) s)))" if "?P s1" "?A sid" "map_of (sessions s) sid = Some r" for sid r s1
  proof (rule returns_bind [OF returns_add_request])
    fix nrq
    have a: "addressed_session payload s = Some r" using that(2,3) by (auto simp: addressed_session_def)
    assume native "parse_native_from_payload (env_deserialize env) (request_id_counter (session_at s1 r)) (sess_id (session_at s1 r)) payload = Inr nrq"
    with known a that(1) show "list_all (\<lambda>kp. param_known (session_lookup (var_mgr s1) (sess_id (session_at s1 r)))
        (created_ids (env_uuid3 env) (var_mgr s1) (sess_id (session_at s1 r))) (snd kp)) (native_parameters_map nrq)"
      by (simp add: request_known_def Let_def)
  qed (use that in \<open>auto split: prod.split\<close>)
  show ?thesis
    unfolding core_submit_call_def
    by (rule pyo_ensures_bind [OF dict], simp, rule pyo_ensures_bind [OF status], simp, simp, simp,
        rule pyo_ensures_bind [OF access], simp, simp, rule pyo_ensures_bind [OF sess], simp, simp, rule add, simp, simp, simp)
qed

lemma returns_activate:
  assumes wf: "core_wf k s" and v: "v < length (heap_svs (core_heap s))"
  shows "returns_core k (in_heap (activate_sv v c) s)"
proof (rule returns_in_heap [OF wf])
  show "pyo_ensures (\<lambda>_ h. graph_wf h \<and> length (heap_svs (core_heap s)) \<le> length (heap_svs h) \<and>
      length (heap_chains (core_heap s)) \<le> length (heap_chains h)) (activate_sv v c (core_heap s))"
    by (rule pyo_ensures_mono [OF activate_sv_wf]) (use core_wf_parts [OF wf] v activated_frame in auto)
qed

lemma returns_get_variable:
  assumes wf: "core_wf k s"
  shows "returns_core k (get_semantic_variable now vid payload s)"
  unfolding get_semantic_variable_def
proof (intro returns_bind [OF returns_Some] keeps_dict_get keeps_session_ops)
  fix sid :: int and crit and s :: "('a, 'b, 'c) serve_core"
  assume s: "core_wf k s"
  show "returns_core k (pyo_bind (in_vars (\<lambda>x. Some (get_var sid vid x)) s) (\<lambda>v s.
    pyo_bind (if has_producer (sv_at (core_heap s) v) \<and> \<not> sv_is_activated (sv_at (core_heap s) v)
              then pyo_bind (Some (case crit of JStr t \<Rightarrow> get_performance_criteria t s | _ \<Rightarrow> py_raise NotImplementedError s))
                     (\<lambda>c s. in_heap (activate_sv v c) s)
              else Some (py_return () s)) (\<lambda>_ s.
      Some (py_return (AwaitVar v) s))))"
  proof (rule pyo_ensures_bind [OF returns_get_var [OF s]])
    fix v and s1 :: "('a, 'b, 'c) serve_core"
    assume s1: "core_wf k s1 \<and> (\<forall>w. Inr v = Inr w \<longrightarrow> w < length (heap_svs (core_heap s1)))"
    let ?r = "case crit of JStr t \<Rightarrow> get_performance_criteria t s1 | _ \<Rightarrow> py_raise NotImplementedError s1"
    have "snd ?r = s1" by (simp add: get_performance_criteria_def split: json.split)
    have act: "returns_core k (in_heap (activate_sv v c) s1)" for c by (rule returns_activate) (use s1 in auto)
    with \<open>snd ?r = s1\<close> have "returns_core k (pyo_bind (Some ?r) (\<lambda>c s. in_heap (activate_sv v c) s))"
      using s1 by (cases ?r; cases "fst ?r") simp_all
    with s1 show "returns_core k (pyo_bind (if has_producer (sv_at (core_heap s1) v) \<and> \<not> sv_is_activated (sv_at (core_heap s1) v)
              then pyo_bind (Some ?r) (\<lambda>c s. in_heap (activate_sv v c) s)
              else Some (py_return () s1)) (\<lambda>_ s. Some (py_return (AwaitVar v) s)))"
      by (intro returns_bind) simp_all
  qed simp
qed (rule wf)

lemma returns_lookup: "core_wf k s \<Longrightarrow> returns_core k (in_vars (\<lambda>x. Some (get_var sid vid x)) s)"
  by (rule pyo_ensures_mono [OF returns_get_var]) auto

lemma returns_core_call:
  assumes wf: "core_wf k s" and known: "request_known env rq s"
  shows "returns_core k (core_call env now rq s)"
proof (cases rq)
  case (SetVariable vid p)
  have "returns_core k (set_semantic_variable now vid p s)"
    unfolding set_semantic_variable_def
    by (intro returns_bind returns_Some keeps_dict_get keeps_session_ops returns_lookup returns_set_content)
      (use wf in auto)
  with SetVariable show ?thesis by (simp add: core_call_def)
next
  case (SubmitSemanticCall p)
  with wf show ?thesis by (simp add: core_call_def returns_submit_call)
next
  case (SubmitPyNativeCall p)
  with wf known returns_submit_call [OF wf, of True env p] show ?thesis by (simp add: core_call_def)
next
  case (RegisterVariable p)
  have "returns_core k (register_semantic_variable env now p s)"
    unfolding register_semantic_variable_def
    by (intro returns_bind returns_Some keeps_dict_get keeps_session_ops returns_create_var) (use wf in auto)
  with RegisterVariable show ?thesis by (simp add: core_call_def)
next
  case (GetVariable vid p)
  with wf show ?thesis by (simp add: core_call_def returns_get_variable)
next
  case (RemoveSession sid)
  have "keeps_core k (core_remove_session env sid s)"
    unfolding core_remove_session_def by (intro keeps_bind keeps_session_ops) (use wf in auto)
  with RemoveSession show ?thesis by (simp add: core_call_def returns_Some)
next
  case (RegisterSession u)
  have "keeps_core k (core_register_session u now s)"
    unfolding core_register_session_def by (intro keeps_bind keeps_register_session) (use wf in auto)
  with RegisterSession show ?thesis by (simp add: core_call_def returns_Some)
next
  case (RegisterEngine cfg)
  have "keeps_core k (core_register_engine env now cfg s)"
    unfolding core_register_engine_def by (intro keeps_bind keeps_in_engines) (use wf in auto)
  with RegisterEngine show ?thesis by (simp add: core_call_def returns_Some)
next
  case (EngineHeartbeat eid info)
  have "keeps_core k (core_engine_heartbeat now eid info s)"
    unfolding core_engine_heartbeat_def by (intro keeps_bind keeps_in_engines) (use wf in auto)
  with EngineHeartbeat show ?thesis by (simp add: core_call_def returns_Some)
qed

subsection \<open>Every reachable state\<close>

lemma core_wf_new: "core_wf 0 (new_serve_core u cfg life hb pt)"
  by (simp add: core_wf_def new_serve_core_def vm_wf_def graph_wf_def struct_wf_def edges_ok_def vars_wf_def gens_ordered_def natives_ordered_def vm_ok_def ns_ok_def chains_held_def new_variable_manager_def new_namespace_def)

lemma core_reach_wf: "core_reach env s \<Longrightarrow> core_wf 0 s"
proof (induction rule: core_reach.induct)
  case (reach_call s rq now x s')
  from returns_core_call [OF this(4) this(2), of now] this(3) show ?case by (simp add: pyo_ensures_def)
next
  case (reach_loop s now x s')
  from returns_serve_iteration [OF this(3), of env now] this(2) show ?case by (simp add: pyo_ensures_def)
next
  case (reach_coroutine s k resp s')
  from coroutine_step_returns [OF this(4) this(2), of env resp] this(3) show ?case by simp
qed (rule core_wf_new)

text \<open>
  An interleaving as a list of events, which the definitions compute. A native call is a known request
  when its session has every variable it names (\<open>names_session_vars\<close>, which computes).
\<close>

datatype 'u core_event = Call int "'u core_request" | Serve int | Step nat "response option"

fun core_event_step :: "('u, 'code, 'tok) environment \<Rightarrow> 'u core_event \<Rightarrow> ('u, 'code, 'tok) serve_core \<Rightarrow> ('u, 'code, 'tok) serve_core option" where
  "core_event_step env (Call now rq) s = map_option snd (core_call env now rq s)"
| "core_event_step env (Serve now) s = map_option snd (serve_iteration env now s)"
| "core_event_step env (Step k resp) s = (if k < length (coroutines s) then coroutine_step env resp k s else None)"

fun run_core :: "('u, 'code, 'tok) environment \<Rightarrow> 'u core_event list \<Rightarrow> ('u, 'code, 'tok) serve_core \<Rightarrow> ('u, 'code, 'tok) serve_core option" where
  "run_core env [] s = Some s"
| "run_core env (e # es) s = Option.bind (core_event_step env e s) (run_core env es)"

definition no_native_call :: "'u core_event \<Rightarrow> bool" where
  "no_native_call e = (case e of Call now rq \<Rightarrow> (case rq of SubmitPyNativeCall p \<Rightarrow> False | _ \<Rightarrow> True) | _ \<Rightarrow> True)"

lemma core_event_reach:
  assumes "core_reach env s" and "no_native_call e" and "core_event_step env e s = Some s'"
  shows "core_reach env s'"
proof (cases e)
  case (Call now rq)
  with assms(2) have "request_known env rq s" by (cases rq) (simp_all add: no_native_call_def request_known_def)
  with Call assms(1,3) show ?thesis by (auto intro: reach_call)
next
  case (Serve now)
  with assms show ?thesis by (auto intro: reach_loop)
next
  case (Step k resp)
  with assms show ?thesis by (auto intro: reach_coroutine split: if_splits)
qed

lemma run_core_reach:
  "core_reach env s \<Longrightarrow> list_all no_native_call es \<Longrightarrow> run_core env es s = Some s' \<Longrightarrow> core_reach env s'"
proof (induction es arbitrary: s)
  case (Cons e es)
  then obtain s1 where "core_event_step env e s = Some s1" "run_core env es s1 = Some s'" by (auto simp: bind_eq_Some_conv)
  with Cons core_event_reach show ?case by fastforce
qed simp

text \<open>
  C2. The operations of the serve core return. In every state that calls, iterations of the serving loop and steps
  of the executors' coroutines lead to, in any order and whatever the engines answer and the native
  functions do, each call of the API, each iteration of the loop and each step of a coroutine comes to its
  end, with a result or an exception. The one condition, on the calls that led to the state and on the call itself: an input of a
  native call does not guess the id of a variable that its session has yet to create (an id that is in the session, or that no
  variable of the session can get, is fine). With the id of an output of the same call the graph would be cyclic.
\<close>

theorem core_calls_return:
  assumes "core_reach env s"
  shows "(\<forall>rq now. request_known env rq s \<longrightarrow> core_call env now rq s \<noteq> None) \<and>
    (\<forall>now. serve_iteration env now s \<noteq> None) \<and>
    (\<forall>k resp. k < length (coroutines s) \<longrightarrow> coroutine_step env resp k s \<noteq> None)"
proof -
  have wf: "core_wf 0 s" using assms by (rule core_reach_wf)
  show ?thesis
    using returns_core_call [OF wf] returns_serve_iteration [OF wf] coroutine_step_returns [OF wf]
    by (simp add: pyo_ensures_def) blast
qed


text \<open>A core with one engine and one session, which has submitted one call.\<close>

abbreviation demo_core :: "(unit, unit, unit) serve_core" where
  "demo_core \<equiv> new_serve_core () default_scheduler_config 600 600 600"

definition demo_call :: payload where
  "demo_call =
    [(''session_id'', JInt 0), (''template'', JStr ''Hi {{a}}!{{b}}''), (''output_criteria'', JStr ''latency''),
     (''parameters'', JList
       [JDict [(''name'', JStr ''a''), (''is_output'', JBool False), (''value'', JStr ''x'')],
        JDict [(''name'', JStr ''b''), (''is_output'', JBool True)]])]"

definition demo_events :: "unit core_event list" where
  "demo_events =
    [Call 0 (RegisterEngine (default_engine_config\<lparr>cfg_model := ''m'', cfg_tokenizer := ''tok''\<rparr>)),
     Call 1 (RegisterSession ()), Call 2 (SubmitSemanticCall demo_call)]"

lemma demo_run:
  "map_option coroutines (run_core demo_env demo_events demo_core) = Some [ChainCoroutine 0 0 AwaitActivated]"
  by code_simp

text \<open>A native call whose input is the output of the first call, given by its variable id.\<close>

definition demo_native_call :: payload where
  "demo_native_call =
    [(''session_id'', JInt 0), (''func_name'', JStr ''f''), (''func_code'', JStr ''c''),
     (''parameters'', JList
       [JDict [(''name'', JStr ''x''), (''is_output'', JBool False), (''var_id'', JStr ''1'')],
        JDict [(''name'', JStr ''y''), (''is_output'', JBool True)]])]"

definition names_session_vars :: "('u, 'code, 'tok) environment \<Rightarrow> payload \<Rightarrow> ('u, 'code, 'tok) serve_core \<Rightarrow> bool" where
  "names_session_vars env p s =
    (case addressed_session p s of
       None \<Rightarrow> True
     | Some r \<Rightarrow>
         (case parse_native_from_payload (env_deserialize env) (request_id_counter (session_at s r)) (sess_id (session_at s r)) p of
            Inl _ \<Rightarrow> True
          | Inr nrq \<Rightarrow>
              list_all (\<lambda>(_, q). should_create q \<or>
                (case param_var_id q of JStr t \<Rightarrow> session_lookup (var_mgr s) (sess_id (session_at s r)) t \<noteq> None | _ \<Rightarrow> True))
                (native_parameters_map nrq)))"

lemma names_session_vars_known: "names_session_vars env p s \<Longrightarrow> request_known env (SubmitPyNativeCall p) s"
  by (auto simp: names_session_vars_def request_known_def param_known_def Let_def list_all_iff split: option.splits sum.splits)

definition demo_native_ok :: "(unit, unit, unit) serve_core \<Rightarrow> bool" where
  "demo_native_ok s \<longleftrightarrow> names_session_vars demo_env demo_native_call s \<and> addressed_session demo_native_call s = Some 0 \<and>
    session_lookup (var_mgr s) (sess_id (session_at s 0)) ''1'' \<noteq> None"

lemma demo_native_run: "map_option demo_native_ok (run_core demo_env demo_events demo_core) = Some True"
  by code_simp

theorem core_calls_return_witness:
  "\<exists>s s'. run_core demo_env demo_events demo_core = Some s \<and> coroutines s = [ChainCoroutine 0 0 AwaitActivated] \<and>
    coroutine_step demo_env None 0 s \<noteq> None \<and> serve_iteration demo_env 3 s \<noteq> None \<and>
    addressed_session demo_native_call s = Some 0 \<and> session_lookup (var_mgr s) (sess_id (session_at s 0)) ''1'' \<noteq> None \<and>
    core_event_step demo_env (Call 3 (SubmitPyNativeCall demo_native_call)) s = Some s' \<and> serve_iteration demo_env 4 s' \<noteq> None"
proof -
  obtain s where s: "run_core demo_env demo_events demo_core = Some s" "coroutines s = [ChainCoroutine 0 0 AwaitActivated]"
    using demo_run by auto
  have "list_all no_native_call demo_events" by code_simp
  with run_core_reach [OF reach_init _ s(1)] have r: "core_reach demo_env s" by simp
  have ok: "demo_native_ok s" using demo_native_run s(1) by simp
  then have k: "request_known demo_env (SubmitPyNativeCall demo_native_call) s"
    by (auto simp: demo_native_ok_def intro: names_session_vars_known)
  obtain x s' where s': "core_call demo_env 3 (SubmitPyNativeCall demo_native_call) s = Some (x, s')"
    using core_calls_return [OF r] k by fastforce
  then have "core_reach demo_env s'" using reach_call [OF r k] by blast
  from core_calls_return [OF this] core_calls_return [OF r] s s' ok show ?thesis by (auto simp: demo_native_ok_def)
qed

end
