(* ===== verification/Http_Client.thy ===== *)
theory Http_Client
  imports Call_Request
begin

text \<open>
  The client side of the HTTP API: \<^verbatim>\<open>protocol/base_response.py\<close>, \<^verbatim>\<open>protocol/http_utils.py\<close>,
  \<^verbatim>\<open>protocol/public/apis.py\<close>, and \<^verbatim>\<open>protocol/internal/layer_apis.py\<close>. What a request returns or raises is a
  parameter, \<open>network\<close>, and so is pydantic's conversion of a JSON value to the type of a field. The log
  lines of the handlers, which raise the exception again, are left out.
\<close>

section \<open>Requests and responses\<close>

record http_request =
  http_method :: string
  http_url :: string
  http_json :: "(string, json) dict"
  http_timeout :: json

text \<open>A response with what its \<^verbatim>\<open>json()\<close> returns or raises.\<close>

record http_response =
  status_code :: int
  resp_json :: "py_error + json"

type_synonym 'w network = "http_request \<Rightarrow> 'w \<Rightarrow> (http_response, 'w) py"

datatype field_type = IntField | StrField | BoolField | ListField | IntListField | DictField

text \<open>A response class: its fields, with their types and defaults.\<close>

type_synonym response_class = "(string \<times> field_type \<times> json option) list"

type_synonym pydantic = "field_type \<Rightarrow> json \<Rightarrow> json option"

text \<open>\<^verbatim>\<open>resp_cls(**d)\<close>: a missing or wrong field is a \<^verbatim>\<open>ValidationError\<close>, a \<^verbatim>\<open>ValueError\<close>; other keys are ignored.\<close>

fun new_response :: "pydantic \<Rightarrow> response_class \<Rightarrow> (string, json) dict \<Rightarrow> py_error + (string, json) dict" where
  "new_response coerce [] d = Inr []"
| "new_response coerce ((k, t, dflt) # cls) d =
    (case (case map_of d k of Some v \<Rightarrow> coerce t v | None \<Rightarrow> dflt) of
       None \<Rightarrow> Inl ValueError
     | Some v \<Rightarrow>
        (case new_response coerce cls d of Inl e \<Rightarrow> Inl e | Inr r \<Rightarrow> Inr ((k, v) # r)))"

definition make_response :: "pydantic \<Rightarrow> response_class \<Rightarrow> http_response \<Rightarrow> py_error + (string, json) dict" where
  "make_response coerce cls resp =
    (case resp_json resp of
       Inl e \<Rightarrow> Inl e
     | Inr (JDict d) \<Rightarrow> new_response coerce cls d
     | Inr _ \<Rightarrow> Inl AttributeError)"

text \<open>The asynchronous variant reads the fields of the class, and no others.\<close>

fun read_fields :: "response_class \<Rightarrow> (string, json) dict \<Rightarrow> py_error + (string, json) dict" where
  "read_fields [] d = Inr []"
| "read_fields ((k, t, dflt) # cls) d =
    (case map_of d k of
       None \<Rightarrow> Inl KeyError
     | Some v \<Rightarrow> (case read_fields cls d of Inl e \<Rightarrow> Inl e | Inr r \<Rightarrow> Inr ((k, v) # r)))"

definition async_make_response :: "pydantic \<Rightarrow> response_class \<Rightarrow> http_response \<Rightarrow> py_error + (string, json) dict" where
  "async_make_response coerce cls resp =
    (case resp_json resp of
       Inl e \<Rightarrow> Inl e
     | Inr j \<Rightarrow>
        if cls = [] then Inr []
        else (case j of
                JDict d \<Rightarrow> (case read_fields cls d of Inl e \<Rightarrow> Inl e | Inr r \<Rightarrow> new_response coerce cls r)
              | _ \<Rightarrow> Inl TypeError))"

section \<open>Sending\<close>

text \<open>
  The keywords of a call \<^verbatim>\<open>send_http_request(cls, addr, url, retry_times=n, key=v, ..., **payload)\<close>. A key of the
  payload that is given already, or that names one of the first parameters, is a \<^verbatim>\<open>TypeError\<close>.
\<close>

definition send_positional :: "string list" where
  "send_positional = [''response_cls'', ''http_addr'', ''api_url'', ''retry_times'']"

definition call_keywords :: "(string, json) dict \<Rightarrow> (string, json) dict \<Rightarrow> py_error + (string, json) dict" where
  "call_keywords explicit payload =
    (if list_ex (\<lambda>k. k \<in> set (send_positional @ dict_keys explicit)) (dict_keys payload) then Inl TypeError
     else Inr (explicit @ payload))"

text \<open>
  Binding the keywords: \<^verbatim>\<open>timeout\<close> and \<^verbatim>\<open>method\<close> are parameters of \<^verbatim>\<open>send_http_request\<close>, the rest is the
  JSON body.
\<close>

definition bind_method :: "(string, json) dict \<Rightarrow> json" where
  "bind_method kwargs = (case map_of kwargs ''method'' of None \<Rightarrow> JStr ''POST'' | Some m \<Rightarrow> m)"

definition bind_request :: "string \<Rightarrow> (string, json) dict \<Rightarrow> http_request option" where
  "bind_request url kwargs =
    (case bind_method kwargs of
       JStr m \<Rightarrow>
         if m \<in> {''GET'', ''POST'', ''DELETE''}
         then Some \<lparr>http_method = m, http_url = url,
                    http_json = dict_pop ''method'' (dict_pop ''timeout'' kwargs),
                    http_timeout = field_or_none kwargs ''timeout''\<rparr>
         else None
     | _ \<Rightarrow> None)"

text \<open>\<^verbatim>\<open>assert "error" in resp_data\<close> and \<^verbatim>\<open>assert "traceback" in resp_data\<close>, then the two subscripts.\<close>

fun json_contains :: "string \<Rightarrow> json \<Rightarrow> bool option" where
  "json_contains k (JDict d) = Some (dict_mem k d)"
| "json_contains k (JList xs) = Some (JStr k \<in> set xs)"
| "json_contains k (JStr t) = Some (sublist k t)"
| "json_contains k _ = None"

definition server_error :: "json \<Rightarrow> py_error" where
  "server_error j =
    (case json_contains ''error'' j of
       None \<Rightarrow> TypeError
     | Some False \<Rightarrow> AssertionError
     | Some True \<Rightarrow>
        (if json_contains ''traceback'' j = Some False then AssertionError
         else case j of JDict d \<Rightarrow> RuntimeError | _ \<Rightarrow> TypeError))"

text \<open>The loop of \<^verbatim>\<open>send_http_request\<close>, with its local variables \<^verbatim>\<open>error\<close> and \<^verbatim>\<open>error_resp\<close>.\<close>

fun send_loop ::
  "'w network \<Rightarrow> pydantic \<Rightarrow> response_class \<Rightarrow> http_request option \<Rightarrow> nat \<Rightarrow> py_error option \<Rightarrow> http_response option \<Rightarrow>
   'w \<Rightarrow> ((string, json) dict, 'w) py" where
  "send_loop net coerce cls rq 0 error error_resp w =
    (case error_resp of
       Some resp \<Rightarrow>
         (case resp_json resp of Inl e \<Rightarrow> py_raise e w | Inr j \<Rightarrow> py_raise (server_error j) w)
     | None \<Rightarrow>
         (case error of None \<Rightarrow> py_raise AssertionError w | Some e \<Rightarrow> py_raise e w))"
| "send_loop net coerce cls rq (Suc n) error error_resp w =
    (case rq of
       None \<Rightarrow> send_loop net coerce cls rq n (Some ValueError) error_resp w
     | Some r \<Rightarrow>
        (case net r w of
           (Inl e, w) \<Rightarrow> send_loop net coerce cls rq n (Some e) error_resp w
         | (Inr resp, w) \<Rightarrow>
             if status_code resp \<noteq> 200 then send_loop net coerce cls rq n error (Some resp) w
             else (case make_response coerce cls resp of
                     Inl e \<Rightarrow> send_loop net coerce cls rq n (Some e) error_resp w
                   | Inr r \<Rightarrow> py_return r w)))"

definition send_http_request ::
  "'w network \<Rightarrow> pydantic \<Rightarrow> response_class \<Rightarrow> string \<Rightarrow> string \<Rightarrow> nat \<Rightarrow> (string, json) dict \<Rightarrow> 'w \<Rightarrow>
   ((string, json) dict, 'w) py" where
  "send_http_request net coerce cls http_addr api_url retry_times kwargs w =
    send_loop net coerce cls (bind_request (http_addr @ api_url) kwargs) retry_times None None w"

text \<open>
  \<^verbatim>\<open>async_send_http_request\<close> has no retries: a keyword \<^verbatim>\<open>retry_times\<close> goes into the JSON body. \<^verbatim>\<open>resp.ok\<close> is a
  status below 400.
\<close>

definition async_send_http_request ::
  "'w network \<Rightarrow> pydantic \<Rightarrow> response_class \<Rightarrow> string \<Rightarrow> string \<Rightarrow> (string, json) dict \<Rightarrow> 'w \<Rightarrow>
   ((string, json) dict, 'w) py" where
  "async_send_http_request net coerce cls http_addr api_url kwargs w =
    (case bind_request (http_addr @ api_url) kwargs of
       None \<Rightarrow> py_raise ValueError w
     | Some rq \<Rightarrow>
        py_bind (net rq w) (\<lambda>resp w.
          if \<not> status_code resp < 400 then py_raise AssertionError w
          else (case async_make_response coerce cls resp of
                  Inl e \<Rightarrow> py_raise e w
                | Inr r \<Rightarrow> py_return r w)))"

text \<open>Both with the keywords of the call: binding them comes first.\<close>

definition with_keywords ::
  "py_error + (string, json) dict \<Rightarrow> ((string, json) dict \<Rightarrow> 'w \<Rightarrow> ('a, 'w) py) \<Rightarrow> 'w \<Rightarrow> ('a, 'w) py" where
  "with_keywords kw f w = (case kw of Inl e \<Rightarrow> py_raise e w | Inr kwargs \<Rightarrow> f kwargs w)"

section \<open>The public API\<close>

definition API_VERSION :: string where
  "API_VERSION = ''v1''"

definition public_url :: "string \<Rightarrow> string" where
  "public_url path = ''/'' @ API_VERSION @ path"

definition RegisterSessionResponse :: response_class where
  "RegisterSessionResponse = [(''session_id'', IntField, None), (''session_auth'', StrField, None)]"

definition RemoveSessionResponse :: response_class where
  "RemoveSessionResponse = []"

definition SubmitSemanticCallResponse :: response_class where
  "SubmitSemanticCallResponse = [(''request_id'', IntField, None), (''param_info'', ListField, None)]"

definition SubmitPyNativeCallResponse :: response_class where
  "SubmitPyNativeCallResponse = [(''request_id'', IntField, None), (''param_info'', ListField, None)]"

definition RegisterSemanticVariableResponse :: response_class where
  "RegisterSemanticVariableResponse = [(''var_id'', StrField, None)]"

definition SetSemanticVariableResponse :: response_class where
  "SetSemanticVariableResponse = []"

definition GetSemanticVariableResponse :: response_class where
  "GetSemanticVariableResponse = [(''content'', StrField, None)]"

text \<open>The client of a core: the network, pydantic, and the address of the core.\<close>

record 'w api_client =
  api_net :: "'w network"
  api_pydantic :: pydantic
  api_addr :: string

definition api_send ::
  "'w api_client \<Rightarrow> response_class \<Rightarrow> string \<Rightarrow> nat \<Rightarrow> (string, json) dict \<Rightarrow> (string, json) dict \<Rightarrow> 'w \<Rightarrow>
   ((string, json) dict, 'w) py" where
  "api_send c cls url n explicit payload w =
    with_keywords (call_keywords explicit payload)
      (send_http_request (api_net c) (api_pydantic c) cls (api_addr c) url n) w"

text \<open>
  The coroutine version passes \<^verbatim>\<open>client_session\<close> and keeps \<^verbatim>\<open>retry_times\<close> among the keywords.
\<close>

definition api_asend ::
  "'w api_client \<Rightarrow> response_class \<Rightarrow> string \<Rightarrow> (string, json) dict \<Rightarrow> (string, json) dict \<Rightarrow> 'w \<Rightarrow>
   ((string, json) dict, 'w) py" where
  "api_asend c cls url explicit payload w =
    with_keywords
      (if dict_mem ''client_session'' payload then Inl TypeError
       else call_keywords ((''retry_times'', JInt 1) # explicit) payload)
      (async_send_http_request (api_net c) (api_pydantic c) cls (api_addr c) url) w"

definition api_register_session :: "'w api_client \<Rightarrow> string \<Rightarrow> 'w \<Rightarrow> ((string, json) dict, 'w) py" where
  "api_register_session c api_key w =
    api_send c RegisterSessionResponse (public_url ''/session'') 1 [(''api_key'', JStr api_key)] [] w"

definition api_get_session_info :: "'w api_client \<Rightarrow> int \<Rightarrow> json \<Rightarrow> 'w \<Rightarrow> ((string, json) dict, 'w) py" where
  "api_get_session_info c sid auth w =
    api_send c [] (public_url (''/session/'' @ py_str sid)) 1 [(''method'', JStr ''GET''), (''session_auth'', auth)] [] w"

definition api_remove_session :: "'w api_client \<Rightarrow> int \<Rightarrow> json \<Rightarrow> 'w \<Rightarrow> (unit, 'w) py" where
  "api_remove_session c sid auth w =
    py_bind (api_send c RemoveSessionResponse (public_url (''/session/'' @ py_str sid)) 1
               [(''session_auth'', auth), (''method'', JStr ''DELETE'')] [] w) (\<lambda>_ w. py_return () w)"

definition api_submit_semantic_call :: "'w api_client \<Rightarrow> int \<Rightarrow> (string, json) dict \<Rightarrow> 'w \<Rightarrow> ((string, json) dict, 'w) py" where
  "api_submit_semantic_call c sid payload w =
    api_send c SubmitSemanticCallResponse (public_url ''/semantic_call'') 1 [(''session_id'', JInt sid)] payload w"

definition api_asubmit_semantic_call :: "'w api_client \<Rightarrow> int \<Rightarrow> (string, json) dict \<Rightarrow> 'w \<Rightarrow> ((string, json) dict, 'w) py" where
  "api_asubmit_semantic_call c sid payload w =
    api_asend c SubmitSemanticCallResponse (public_url ''/semantic_call'') [(''session_id'', JInt sid)] payload w"

definition api_submit_py_native_call :: "'w api_client \<Rightarrow> int \<Rightarrow> (string, json) dict \<Rightarrow> 'w \<Rightarrow> ((string, json) dict, 'w) py" where
  "api_submit_py_native_call c sid payload w =
    api_send c SubmitPyNativeCallResponse (public_url ''/py_native_call'') 1 [(''session_id'', JInt sid)] payload w"

definition api_asubmit_py_native_call :: "'w api_client \<Rightarrow> int \<Rightarrow> (string, json) dict \<Rightarrow> 'w \<Rightarrow> ((string, json) dict, 'w) py" where
  "api_asubmit_py_native_call c sid payload w =
    api_asend c SubmitPyNativeCallResponse (public_url ''/submit_py_native_call'') [(''session_id'', JInt sid)] payload w"

definition api_register_semantic_variable :: "'w api_client \<Rightarrow> int \<Rightarrow> json \<Rightarrow> string \<Rightarrow> 'w \<Rightarrow> ((string, json) dict, 'w) py" where
  "api_register_semantic_variable c sid auth var_name w =
    api_send c RegisterSemanticVariableResponse (public_url ''/semantic_var'') 1
      [(''session_id'', JInt sid), (''session_auth'', auth), (''var_name'', JStr var_name)] [] w"

definition api_set_semantic_variable :: "'w api_client \<Rightarrow> int \<Rightarrow> json \<Rightarrow> string \<Rightarrow> json \<Rightarrow> 'w \<Rightarrow> ((string, json) dict, 'w) py" where
  "api_set_semantic_variable c sid auth vid txt w =
    api_send c SetSemanticVariableResponse (public_url (''/semantic_var/'' @ vid)) 1
      [(''session_id'', JInt sid), (''session_auth'', auth), (''content'', txt)] [] w"

definition api_get_semantic_variable :: "'w api_client \<Rightarrow> int \<Rightarrow> json \<Rightarrow> string \<Rightarrow> string \<Rightarrow> 'w \<Rightarrow> ((string, json) dict, 'w) py" where
  "api_get_semantic_variable c sid auth vid crit w =
    api_send c GetSemanticVariableResponse (public_url (''/semantic_var/'' @ vid)) 1
      [(''method'', JStr ''GET''), (''session_id'', JInt sid), (''session_auth'', auth), (''criteria'', JStr crit)] [] w"

definition api_aget_semantic_variable :: "'w api_client \<Rightarrow> int \<Rightarrow> json \<Rightarrow> string \<Rightarrow> string \<Rightarrow> 'w \<Rightarrow> ((string, json) dict, 'w) py" where
  "api_aget_semantic_variable c sid auth vid crit w =
    api_asend c GetSemanticVariableResponse (public_url (''/semantic_var/'' @ vid))
      [(''method'', JStr ''GET''), (''session_id'', JInt sid), (''session_auth'', auth), (''criteria'', JStr crit)] [] w"

section \<open>The calls between the layers\<close>

definition EngineHeartbeatResponse :: response_class where
  "EngineHeartbeatResponse = []"

definition RegisterEngineResponse :: response_class where
  "RegisterEngineResponse = [(''engine_id'', IntField, None)]"

definition PingEngineResponse :: response_class where
  "PingEngineResponse = [(''pong'', BoolField, Some (JBool True)), (''runtime_info'', DictField, Some (JDict []))]"

definition FreeContextResponse :: response_class where
  "FreeContextResponse = [(''context_len'', IntField, None)]"

definition layer_free_context :: "'w api_client \<Rightarrow> int \<Rightarrow> 'w \<Rightarrow> ((string, json) dict, 'w) py" where
  "layer_free_context c cid w = api_send c FreeContextResponse ''/free_context'' 1 [(''context_id'', JInt cid)] [] w"

text \<open>\<^verbatim>\<open>ping_engine\<close> turns every exception into a response that says no.\<close>

definition layer_ping_engine :: "'w api_client \<Rightarrow> 'w \<Rightarrow> ((string, json) dict, 'w) py" where
  "layer_ping_engine c w =
    (case api_send c PingEngineResponse ''/ping'' 5 [] [] w of
       (Inl e, w) \<Rightarrow> py_return [(''pong'', JBool False), (''runtime_info'', JDict [])] w
     | (Inr r, w) \<Rightarrow> py_return r w)"

definition layer_register_engine :: "'w api_client \<Rightarrow> (string, json) dict \<Rightarrow> 'w \<Rightarrow> ((string, json) dict, 'w) py" where
  "layer_register_engine c cfg w =
    api_send c RegisterEngineResponse ''/register_engine'' 1 [(''engine_config'', JDict cfg)] [] w"

definition layer_engine_heartbeat :: "'w api_client \<Rightarrow> int \<Rightarrow> string \<Rightarrow> (string, json) dict \<Rightarrow> 'w \<Rightarrow> ((string, json) dict, 'w) py" where
  "layer_engine_heartbeat c eid name info w =
    api_send c EngineHeartbeatResponse ''/engine_heartbeat'' 3
      [(''engine_id'', JInt eid), (''engine_name'', JStr name), (''runtime_info'', JDict info)] [] w"

end
