(* ===== verification/Frontend_Function.thy ===== *)
theory Frontend_Function
  imports Call_Request
begin

text \<open>
  The functions of the client library: \<^verbatim>\<open>frontend/pfunc/function_body.py\<close>, the parser and the constructors of
  \<^verbatim>\<open>frontend/pfunc/function.py\<close>, and \<^verbatim>\<open>frontend/pfunc/interface.py\<close>. A semantic function is a prompt template
  that is cut into pieces by the same regular expression as the server's. The lemmas relate the two parsers:
  the pieces print back to the template, and the server cuts the printed template into the same pieces.
\<close>

section \<open>Parameters and pieces\<close>

datatype param_type = INPUT_LOC | OUTPUT_LOC | INPUT_PYOBJ

record func_param =
  fparam_name :: string
  fparam_typ :: param_type
  fparam_sampling_config :: "sampling_config option"

definition is_input_loc :: "func_param \<Rightarrow> bool" where
  "is_input_loc p = (fparam_typ p = INPUT_LOC)"

definition is_output_loc :: "func_param \<Rightarrow> bool" where
  "is_output_loc p = (fparam_typ p = OUTPUT_LOC)"

definition get_param_str :: "func_param \<Rightarrow> string" where
  "get_param_str p = ''{{'' @ fparam_name p @ ''}}''"

datatype func_piece =
    Constant (piece_idx: nat) (piece_text: string)
  | ParameterLoc (piece_idx: nat) (piece_param: func_param)

fun is_output_piece :: "func_piece \<Rightarrow> bool" where
  "is_output_piece (Constant i t) = False"
| "is_output_piece (ParameterLoc i p) = is_output_loc p"

definition push_to_body :: "(nat \<Rightarrow> func_piece) \<Rightarrow> func_piece list \<Rightarrow> func_piece list" where
  "push_to_body piece_cls ret = ret @ [piece_cls (length ret)]"

text \<open>\<^verbatim>\<open>BasicFunction.__init__\<close>: the tables over the parameters.\<close>

definition params_map_of :: "func_param list \<Rightarrow> (string, func_param) dict" where
  "params_map_of params = foldl (\<lambda>d p. dict_set (fparam_name p) p d) [] params"

definition inputs_of :: "func_param list \<Rightarrow> func_param list" where
  "inputs_of params = filter (\<lambda>p. fparam_typ p \<noteq> OUTPUT_LOC) params"

definition outputs_of :: "func_param list \<Rightarrow> func_param list" where
  "outputs_of params = filter (\<lambda>p. fparam_typ p = OUTPUT_LOC) params"

section \<open>Parsing the body of a function\<close>

text \<open>
  One round of the loop over the matches; the local variables are the pieces, the names of the outputs so far
  and \<^verbatim>\<open>last_output_loc_idx\<close>.
\<close>

definition parse_match ::
  "string \<Rightarrow> (string, func_param) dict \<Rightarrow> nat \<Rightarrow> nat \<times> nat \<Rightarrow> func_piece list \<times> string list \<times> int \<Rightarrow>
   py_error + func_piece list \<times> string list \<times> int" where
  "parse_match body_str params_map last_pos m acc =
    (let (start, stop) = m;
         (ret, outputs, last_output) = acc;
         chunk = slice last_pos start body_str;
         ret = (if chunk \<noteq> [] then push_to_body (\<lambda>i. Constant i chunk) ret else ret)
     in case map_of params_map (slice (start + 2) (stop - 2) body_str) of
          None \<Rightarrow> Inl AssertionError
        | Some p \<Rightarrow>
            if \<not> is_output_loc p then Inr (push_to_body (\<lambda>i. ParameterLoc i p) ret, outputs, last_output)
            else if ret = [] then Inl IndexError
            else if is_output_piece (last ret) then Inl AssertionError
            else if fparam_name p \<in> set outputs then Inl AssertionError
            else (let ret = push_to_body (\<lambda>i. ParameterLoc i p) ret
                  in Inr (ret, fparam_name p # outputs, int (length ret) - 1)))"

fun parse_matches ::
  "string \<Rightarrow> (string, func_param) dict \<Rightarrow> nat \<Rightarrow> (nat \<times> nat) list \<Rightarrow> func_piece list \<times> string list \<times> int \<Rightarrow>
   py_error + nat \<times> func_piece list \<times> string list \<times> int" where
  "parse_matches body_str params_map last_pos [] acc = Inr (last_pos, acc)"
| "parse_matches body_str params_map last_pos (m # ms) acc =
    (case parse_match body_str params_map last_pos m acc of
       Inl e \<Rightarrow> Inl e
     | Inr acc \<Rightarrow> parse_matches body_str params_map (snd m) ms acc)"

definition parse_func_body ::
  "string \<Rightarrow> (string, func_param) dict \<Rightarrow> semantic_call_metadata \<Rightarrow> py_error + func_piece list" where
  "parse_func_body body_str params_map md =
    (case parse_matches body_str params_map 0 (finditer 0 body_str) ([], [], -1) of
       Inl e \<Rightarrow> Inl e
     | Inr (last_pos, ret, outputs, last_output) \<Rightarrow>
         Inr (if py_truth (remove_pure_fill md) then take (nat (last_output + 1)) ret
              else if last_pos < length body_str
              then push_to_body (\<lambda>i. Constant i (drop last_pos body_str)) ret
              else ret))"

section \<open>Functions\<close>

record basic_function =
  fn_name :: string
  fn_params :: "func_param list"

record semantic_function = basic_function +
  fn_metadata :: semantic_call_metadata
  fn_body :: "func_piece list"

text \<open>The code of a native function as the base64 text that is sent.\<close>

record native_function = basic_function +
  fn_code :: string
  fn_native_metadata :: native_call_metadata

text \<open>\<^verbatim>\<open>d.update(**kwargs)\<close>, the construction \<^verbatim>\<open>Metadata(**d)\<close>, and \<^verbatim>\<open>asdict\<close>.\<close>

definition dict_update :: "('k, 'v) dict \<Rightarrow> ('k, 'v) dict \<Rightarrow> ('k, 'v) dict" where
  "dict_update d kwargs = foldl (\<lambda>d (k, v). dict_set k v d) d kwargs"

definition new_semantic_metadata :: "(string, json) dict \<Rightarrow> py_error + semantic_call_metadata" where
  "new_semantic_metadata kwargs =
    (if list_all (\<lambda>k. k \<in> set SEMANTIC_METADATA_KEYS) (dict_keys kwargs)
     then Inr (semantic_metadata_of_dict (dict_update semantic_default_dict kwargs)) else Inl TypeError)"

definition new_native_metadata :: "(string, json) dict \<Rightarrow> py_error + native_call_metadata" where
  "new_native_metadata kwargs =
    (if list_all (\<lambda>k. k \<in> set NATIVE_METADATA_KEYS) (dict_keys kwargs)
     then Inr (native_metadata_of_dict (dict_update native_default_dict kwargs)) else Inl TypeError)"

definition semantic_metadata_asdict :: "semantic_call_metadata \<Rightarrow> (string, json) dict" where
  "semantic_metadata_asdict md =
    [(''models'', models md), (''model_type'', metadata_model_type md), (''remove_pure_fill'', remove_pure_fill md),
     (''cache_prefix'', cache_prefix md), (''output_criteria'', output_criteria md), (''fuse_fill'', fuse_fill md)]"

definition native_metadata_asdict :: "native_call_metadata \<Rightarrow> (string, json) dict" where
  "native_metadata_asdict md =
    [(''timeout'', native_call_metadata.timeout md), (''output_criteria'', native_output_criteria md)]"

definition sampling_asdict :: "sampling_config \<Rightarrow> (string, json) dict" where
  "sampling_asdict c =
    [(''temperature'', temperature c), (''top_p'', top_p c), (''max_gen_length'', max_gen_length c),
     (''ignore_tokenizer_eos'', ignore_tokenizer_eos c), (''stop_token_ids'', stop_token_ids c), (''stop_str'', stop_str c),
     (''presence_penalty'', presence_penalty c), (''frequency_penalty'', frequency_penalty c), (''n'', sample_n c),
     (''best_of'', best_of c), (''logit_bias'', logit_bias c), (''repetition_penalty'', repetition_penalty c),
     (''length_penalty'', length_penalty c)]"

text \<open>
  \<^verbatim>\<open>SemanticFunction.__init__\<close> without the registration, which is an operation of the virtual machine:
  the metadata first, then the body.
\<close>

definition new_semantic_function ::
  "string \<Rightarrow> func_param list \<Rightarrow> string option \<Rightarrow> func_piece list option \<Rightarrow> (string, json) dict \<Rightarrow>
   py_error + semantic_function" where
  "new_semantic_function name params func_body_str func_body metadata_kwargs =
    (case new_semantic_metadata metadata_kwargs of
       Inl e \<Rightarrow> Inl e
     | Inr md \<Rightarrow>
        (case (case func_body_str of
                 Some t \<Rightarrow> parse_func_body t (params_map_of params) md
               | None \<Rightarrow> (case func_body of Some b \<Rightarrow> Inr b | None \<Rightarrow> Inl ValueError)) of
           Inl e \<Rightarrow> Inl e
         | Inr b \<Rightarrow> Inr \<lparr>fn_name = name, fn_params = params, fn_metadata = md, fn_body = b\<rparr>))"

definition new_native_function ::
  "string \<Rightarrow> string \<Rightarrow> func_param list \<Rightarrow> (string, json) dict \<Rightarrow> py_error + native_function" where
  "new_native_function name code params metadata_kwargs =
    (case new_native_metadata metadata_kwargs of
       Inl e \<Rightarrow> Inl e
     | Inr md \<Rightarrow> Inr \<lparr>fn_name = name, fn_params = params, fn_code = code, fn_native_metadata = md\<rparr>)"

fun piece_str :: "func_piece \<Rightarrow> string" where
  "piece_str (Constant i t) = t"
| "piece_str (ParameterLoc i p) = get_param_str p"

definition body_to_str :: "func_piece list \<Rightarrow> string" where
  "body_to_str ps = concat (map piece_str ps)"

definition to_template_str :: "semantic_function \<Rightarrow> string" where
  "to_template_str f = body_to_str (fn_body f)"

section \<open>Replacing in strings\<close>

text \<open>\<^verbatim>\<open>s.replace(src, tgt)\<close>: from the left, without overlaps; an empty \<open>src\<close> matches at every position.\<close>

function replace_loop :: "string \<Rightarrow> string \<Rightarrow> string \<Rightarrow> string" where
  "replace_loop src tgt s =
    (case s of
       [] \<Rightarrow> []
     | c # cs \<Rightarrow>
         if src \<noteq> [] \<and> prefix src s then tgt @ replace_loop src tgt (drop (length src) s)
         else c # replace_loop src tgt cs)"
  by pat_completeness auto
termination
  by (relation "measure (\<lambda>(src, tgt, s). length s)") auto

declare replace_loop.simps [simp del]

definition py_replace :: "string \<Rightarrow> string \<Rightarrow> string \<Rightarrow> string" where
  "py_replace src tgt s =
    (if src = [] then tgt @ concat (map (\<lambda>c. c # tgt) s) else replace_loop src tgt s)"

section \<open>Decorators\<close>

text \<open>
  The annotation of a parameter of the decorated Python function: the classes themselves, an instance of
  \<^verbatim>\<open>Output\<close> with its sampling configuration, or anything else.
\<close>

datatype annotation = InputClass | OutputClass | OutputInstance "sampling_config option" | OtherAnnotation

record py_signature =
  sig_name :: string
  sig_doc :: "string option"
  sig_params :: "(string \<times> annotation) list"
  sig_returns :: bool

fun annotated_param :: "string \<times> annotation \<Rightarrow> func_param" where
  "annotated_param (n, InputClass) = \<lparr>fparam_name = n, fparam_typ = INPUT_LOC, fparam_sampling_config = None\<rparr>"
| "annotated_param (n, OutputClass) =
    \<lparr>fparam_name = n, fparam_typ = OUTPUT_LOC, fparam_sampling_config = Some default_sampling_config\<rparr>"
| "annotated_param (n, OutputInstance c) = \<lparr>fparam_name = n, fparam_typ = OUTPUT_LOC, fparam_sampling_config = c\<rparr>"
| "annotated_param (n, OtherAnnotation) = \<lparr>fparam_name = n, fparam_typ = INPUT_PYOBJ, fparam_sampling_config = None\<rparr>"

text \<open>
  \<^verbatim>\<open>semantic_function\<close> up to the registration; \<open>transforms\<close> are the \<^verbatim>\<open>transform\<close> methods of the formatter and of the
  conversation template, where they are not \<^verbatim>\<open>None\<close>.
\<close>

definition semantic_function_decorator ::
  "(semantic_function \<Rightarrow> py_error + semantic_function) list \<Rightarrow> (string, json) dict \<Rightarrow> py_signature \<Rightarrow>
   py_error + semantic_function" where
  "semantic_function_decorator transforms metadata_kwargs f =
    (if sig_returns f then Inl ValueError
     else foldl (\<lambda>r g. case r of Inl e \<Rightarrow> Inl e | Inr x \<Rightarrow> g x)
            (new_semantic_function (sig_name f) (map annotated_param (sig_params f)) (sig_doc f) None metadata_kwargs)
            transforms)"

definition native_annotated_param :: "string \<times> annotation \<Rightarrow> func_param" where
  "native_annotated_param a = (annotated_param a)\<lparr>fparam_sampling_config := None\<rparr>"

definition native_function_decorator ::
  "string \<Rightarrow> (string, json) dict \<Rightarrow> py_signature \<Rightarrow> py_error + native_function" where
  "native_function_decorator code metadata_kwargs f =
    (if sig_returns f then Inl ValueError
     else new_native_function (sig_name f) code (map native_annotated_param (sig_params f)) metadata_kwargs)"

section \<open>Matches in a prefix of the template\<close>

lemma match_here_of_take: "match_here (take k s) = Some n \<Longrightarrow> match_here s = Some n"
proof -
  assume "match_here (take k s) = Some n"
  then obtain name rest where t: "take k s = ''{{'' @ name @ ''}}'' @ rest" "ident name" "n = length name + 4"
    by (rule match_here_shape)
  have "s = ''{{'' @ name @ ''}}'' @ (rest @ drop k s)"
    using append_take_drop_id [of k s] t(1) by (simp del: append_take_drop_id)
  then show ?thesis using match_here_ident [OF t(2), of "rest @ drop k s"] t(3) by simp
qed

lemma match_here_take:
  assumes "match_here s = Some n" and "n \<le> k"
  shows "match_here (take k s) = Some n"
proof -
  obtain name rest where t: "s = ''{{'' @ name @ ''}}'' @ rest" "ident name" "n = length name + 4"
    using assms(1) by (rule match_here_shape)
  have "take k s = ''{{'' @ name @ ''}}'' @ take (k - n) rest"
    using assms(2) t(1,3) by (simp add: take_Cons' numeral_eq_Suc)
  then show ?thesis using match_here_ident [OF t(2)] t(3) by simp
qed

lemma finditer_bounds: "(a, b) \<in> set (finditer i s) \<Longrightarrow> i \<le> a \<and> a + 4 \<le> b \<and> b \<le> i + length s"
proof (induction i s rule: finditer.induct)
  case (1 i s)
  show ?case
  proof (cases s)
    case Nil
    with 1 show ?thesis by simp
  next
    case (Cons c cs)
    show ?thesis
    proof (cases "match_here s")
      case None
      then have "(a, b) \<in> set (finditer (i + 1) cs)" using "1.prems" Cons finditer_skip by simp
      with "1.IH"(1) [OF Cons None] Cons show ?thesis by simp
    next
      case (Some n)
      have n: "4 \<le> n" "n \<le> length s" using Some match_here_length [OF Some] by (auto elim: match_here_shape)
      from "1.prems" finditer_match [OF Some, of i]
      have "(a, b) = (i, i + n) \<or> (a, b) \<in> set (finditer (i + n) (drop n s))" by auto
      then show ?thesis
      proof
        assume "(a, b) \<in> set (finditer (i + n) (drop n s))"
        with "1.IH"(2) [OF Cons Some] Cons n show ?thesis by auto
      qed (use n in auto)
    qed
  qed
qed

lemma finditer_prefix:
  "finditer i t = ms1 @ ms2 \<Longrightarrow> ms1 \<noteq> [] \<Longrightarrow> finditer i (take (snd (last ms1) - i) t) = ms1"
proof (induction i t arbitrary: ms1 rule: finditer.induct)
  case (1 i t)
  define e where "e = snd (last ms1)"
  have le: "i + 4 \<le> e"
    using "1.prems" finditer_bounds [of "fst (last ms1)" e i t] last_in_set [of ms1] by (auto simp: e_def)
  show ?case
  proof (cases t)
    case Nil
    with "1.prems" show ?thesis by simp
  next
    case (Cons c cs)
    show ?thesis
    proof (cases "match_here t")
      case None
      have tk: "take (e - i) t = c # take (e - (i + 1)) cs" using Cons le by (simp add: take_Cons')
      have "match_here (take (e - i) t) = None" using None match_here_of_take by (metis option.exhaust)
      moreover have "finditer (i + 1) (take (e - (i + 1)) cs) = ms1"
        using "1.IH"(1) [OF Cons None, of ms1] "1.prems" None Cons finditer_skip e_def by simp
      ultimately show ?thesis unfolding e_def [symmetric] tk by (simp add: finditer_skip)
    next
      case (Some n)
      obtain m ms where ms1: "ms1 = m # ms" using "1.prems"(2) by (cases ms1) auto
      have m: "m = (i, i + n)" and rest: "finditer (i + n) (drop n t) = ms @ ms2"
        using "1.prems"(1) ms1 finditer_match [OF Some, of i] by auto
      have n: "n \<le> e - i \<and> (ms = [] \<longrightarrow> e = i + n)"
      proof (cases "ms = []")
        case True
        then show ?thesis using ms1 m e_def by simp
      next
        case False
        then have "last ms \<in> set (finditer (i + n) (drop n t))" using rest by simp
        then have "i + n \<le> snd (last ms)" using finditer_bounds [of "fst (last ms)" "snd (last ms)"] by fastforce
        then show ?thesis using False ms1 e_def by simp
      qed
      have tail: "finditer (i + n) (drop n (take (e - i) t)) = ms"
      proof (cases "ms = []")
        case True
        then show ?thesis using n by simp
      next
        case False
        then have "finditer (i + n) (take (snd (last ms) - (i + n)) (drop n t)) = ms"
          using "1.IH"(2) [OF Cons Some, of ms] rest Cons by simp
        moreover have "drop n (take (e - i) t) = take (snd (last ms) - (i + n)) (drop n t)"
          using False ms1 e_def by (simp add: drop_take)
        ultimately show ?thesis by simp
      qed
      have "match_here (take (e - i) t) = Some n" using match_here_take [OF Some] n by blast
      from finditer_match [OF this, of i] tail have "finditer i (take (e - i) t) = ms1" by (simp add: ms1 m)
      then show ?thesis unfolding e_def .
    qed
  qed
qed

lemma slice_take: "b \<le> k \<Longrightarrow> slice a b (take k t) = slice a b t"
  by (cases "a \<le> b") (simp_all add: slice_def drop_take min_def)

lemma push_matches_take:
  "\<forall>(a, b) \<in> set ms. a \<le> b \<and> b \<le> k \<Longrightarrow> push_matches (take k t) lp ms r = push_matches t lp ms r"
proof (induction ms arbitrary: lp r)
  case (Cons m ms)
  obtain a b where m: "m = (a, b)" "b \<le> k" "b - 2 \<le> k" "a \<le> k" using Cons.prems by (cases m) auto
  then show ?case using Cons by (simp add: slice_take [OF m(3)] slice_take [OF m(4)] Let_def)
qed simp

section \<open>The client's pieces and the server's chunks\<close>

fun chunk_of :: "func_piece \<Rightarrow> body_chunk" where
  "chunk_of (Constant i t) = TextChunk (int i) t"
| "chunk_of (ParameterLoc i p) = PlaceholderChunk (int i) (fparam_name p)"

definition names_ok :: "(string, func_param) dict \<Rightarrow> bool" where
  "names_ok pm \<longleftrightarrow> list_all (\<lambda>(n, p). fparam_name p = n) pm"

lemma names_okD: "names_ok pm \<Longrightarrow> map_of pm n = Some p \<Longrightarrow> fparam_name p = n"
  by (auto simp: names_ok_def list_all_iff dest: map_of_SomeD)

lemma names_ok_params_map: "names_ok (params_map_of params)"
proof -
  have "names_ok d \<Longrightarrow> names_ok (foldl (\<lambda>d p. dict_set (fparam_name p) p d) d params)" for d
  proof (induction params arbitrary: d)
    case (Cons p params)
    have "names_ok (dict_set (fparam_name p) p d)"
      using Cons.prems dict_set_subset [of "fparam_name p" p d] by (auto simp: names_ok_def list_all_iff)
    with Cons.IH show ?case by simp
  qed simp
  then show ?thesis by (simp add: params_map_of_def names_ok_def)
qed

lemma print_chunk_of: "print_body (map chunk_of ps) = body_to_str ps"
proof (induction ps)
  case (Cons p ps)
  then show ?case by (cases p) (auto simp: body_to_str_def get_param_str_def)
qed (simp add: body_to_str_def)

lemma chunk_of_push [simp]: "map chunk_of (push_to_body (\<lambda>i. Constant i t) ret) = map chunk_of ret @ [TextChunk (int (length ret)) t]"
  "map chunk_of (push_to_body (\<lambda>i. ParameterLoc i p) ret) =
    map chunk_of ret @ [PlaceholderChunk (int (length ret)) (fparam_name p)]"
  by (simp_all add: push_to_body_def)

text \<open>One round of the client's loop pushes what the server's loop pushes.\<close>

lemma parse_match_push:
  assumes "parse_match t pm lp (start, stop) (ret, outs, lo) = Inr (ret', outs', lo')"
    and "names_ok pm" and "body r = map chunk_of ret"
  shows "push_matches t lp [(start, stop)] r = (stop, r\<lparr>body := map chunk_of ret'\<rparr>)"
proof -
  define chunk where "chunk = slice lp start t"
  define mid where "mid = (if chunk \<noteq> [] then push_to_body (\<lambda>i. Constant i chunk) ret else ret)"
  obtain p where p: "map_of pm (slice (start + 2) (stop - 2) t) = Some p"
      "ret' = push_to_body (\<lambda>i. ParameterLoc i p) mid"
    using assms(1) unfolding parse_match_def Let_def chunk_def mid_def
    by (auto split: option.splits if_splits)
  have "body (if chunk \<noteq> [] then push_chunk TextChunk chunk r else r) = map chunk_of mid"
    using assms(3) by (simp add: mid_def)
  moreover have "(if chunk \<noteq> [] then push_chunk TextChunk chunk r else r) = r\<lparr>body := map chunk_of mid\<rparr>"
    using assms(3) by (simp add: mid_def push_chunk_def)
  moreover have "fparam_name p = slice (start + 2) (stop - 2) t" using names_okD [OF assms(2) p(1)] .
  ultimately show ?thesis using p(2) by (simp add: Let_def push_chunk_def flip: chunk_def)
qed

lemma push_matches_append:
  "push_matches t lp (ms1 @ ms2) r = (let (lp1, r1) = push_matches t lp ms1 r in push_matches t lp1 ms2 r1)"
  by (induction t lp ms1 r rule: push_matches.induct) (simp_all add: Let_def)

lemma parse_matches_push:
  assumes "parse_matches t pm lp ms (ret, outs, lo) = Inr (lp', ret', outs', lo')"
    and "names_ok pm" and "body r = map chunk_of ret"
  shows "push_matches t lp ms r = (lp', r\<lparr>body := map chunk_of ret'\<rparr>)"
  using assms
proof (induction ms arbitrary: lp ret outs lo r)
  case Nil
  then show ?case by simp
next
  case (Cons m ms)
  obtain start stop where m: "m = (start, stop)" by (cases m)
  obtain ret1 outs1 lo1 where step: "parse_match t pm lp m (ret, outs, lo) = Inr (ret1, outs1, lo1)"
    using Cons.prems(1) by (auto split: sum.splits)
  let ?r1 = "r\<lparr>body := map chunk_of ret1\<rparr>"
  have "push_matches t lp [m] r = (stop, ?r1)"
    using parse_match_push [OF _ Cons.prems(2,3)] step m by blast
  moreover have "push_matches t stop ms ?r1 = (lp', ?r1\<lparr>body := map chunk_of ret'\<rparr>)"
    using Cons.IH [of stop ret1 outs1 lo1 ?r1] Cons.prems(1,2) step m by simp
  ultimately show ?case using push_matches_append [of t lp "[m]" ms r] by simp
qed

text \<open>
  Where \<^verbatim>\<open>last_output_loc_idx\<close> cuts: the matches up to the last output push exactly the pieces that are kept.
\<close>

lemma parse_match_grows:
  assumes "parse_match t pm lp m (ret, outs, lo) = Inr (ret1, outs1, lo1)"
  shows "prefix ret ret1 \<and> (lo1 = lo \<or> nat (lo1 + 1) = length ret1)"
proof -
  obtain start stop where m: "m = (start, stop)" by (cases m)
  define mid where "mid = (if slice lp start t \<noteq> [] then push_to_body (\<lambda>i. Constant i (slice lp start t)) ret else ret)"
  have "prefix ret mid" by (simp add: mid_def push_to_body_def)
  moreover have "prefix mid ret1 \<and> (lo1 = lo \<or> nat (lo1 + 1) = length ret1)"
    using assms unfolding parse_match_def m prod.case Let_def mid_def [symmetric]
    by (auto simp: push_to_body_def split: option.splits if_splits)
  ultimately show ?thesis by (meson prefix_order.trans)
qed

lemma parse_matches_cut:
  assumes "parse_matches t pm lp ms (ret, outs, lo) = Inr (lp', ret', outs', lo')"
  shows "prefix ret ret' \<and> (lo' = lo \<or> (\<exists>ms1 ms2 lp1 outs1. ms = ms1 @ ms2 \<and> ms1 \<noteq> [] \<and>
    parse_matches t pm lp ms1 (ret, outs, lo) = Inr (lp1, take (nat (lo' + 1)) ret', outs1, lo')))"
  using assms
proof (induction ms arbitrary: lp ret outs lo)
  case Nil
  then show ?case by simp
next
  case (Cons m ms)
  obtain ret1 outs1 lo1 where step: "parse_match t pm lp m (ret, outs, lo) = Inr (ret1, outs1, lo1)"
    using Cons.prems by (auto split: sum.splits)
  note IH = Cons.IH [of "snd m" ret1 outs1 lo1]
  have run: "parse_matches t pm (snd m) ms (ret1, outs1, lo1) = Inr (lp', ret', outs', lo')"
    using Cons.prems step by simp
  note g = parse_match_grows [OF step]
  have pre: "prefix ret ret'" using g IH [OF run] by (meson prefix_order.trans)
  from IH [OF run] consider "lo' = lo1"
    | ms1 ms2 lp1 outs2 where "ms = ms1 @ ms2" "parse_matches t pm (snd m) ms1 (ret1, outs1, lo1) =
        Inr (lp1, take (nat (lo' + 1)) ret', outs2, lo')"
    by blast
  then show ?case
  proof cases
    case 1
    show ?thesis
    proof (cases "lo1 = lo")
      case False
      then have "take (nat (lo' + 1)) ret' = ret1"
        using g 1 IH [OF run] by (auto simp: prefix_def)
      then have "parse_matches t pm lp [m] (ret, outs, lo) = Inr (snd m, take (nat (lo' + 1)) ret', outs1, lo')"
        using step 1 by simp
      with pre show ?thesis by (metis append_Cons append_Nil list.distinct(1))
    qed (use 1 pre in simp)
  next
    case 2
    have "parse_matches t pm lp (m # ms1) (ret, outs, lo) = Inr (lp1, take (nat (lo' + 1)) ret', outs2, lo')"
      using step 2(2) by simp
    with pre 2(1) show ?thesis by (metis append_Cons list.distinct(1))
  qed
qed

text \<open>What the server makes of a template: the body that \<^verbatim>\<open>parse_from_payload\<close> builds.\<close>

definition server_body :: "bool \<Rightarrow> string \<Rightarrow> body_chunk list" where
  "server_body drop_tail t =
    (let (last_pos, r) = push_matches t 0 (finditer 0 t) (new_chunked_request 0 0 semantic_metadata_default)
     in body (if \<not> drop_tail \<and> drop last_pos t \<noteq> [] then push_chunk TextChunk (drop last_pos t) r else r))"

lemma push_matches_whole:
  assumes "push_matches t 0 (finditer 0 t) (new_chunked_request rid sid md) = (lp, r)"
  shows "print_body (body r) @ drop lp t = t" and "body_wf r" and "lp \<le> length t"
proof -
  have "body_wf (new_chunked_request rid sid md)" by (simp add: body_wf_def new_chunked_request_def positions_ok_def)
  moreover have "push_matches ([] @ [] @ t) (length ([] :: string)) (finditer (length ([] :: string) + length ([] :: string)) t)
      (new_chunked_request rid sid md) = (lp, r)"
    using assms by simp
  ultimately have "print_body (body r) @ drop lp ([] @ [] @ t) = print_body (body (new_chunked_request rid sid md)) @ [] @ t \<and>
      body_wf r \<and> lp \<le> length ([] @ [] @ t)"
    by (intro push_matches_prints)
  then show "print_body (body r) @ drop lp t = t" and "body_wf r" and "lp \<le> length t"
    by (simp_all add: new_chunked_request_def)
qed

lemma parse_matches_end:
  "parse_matches t pm lp ms acc = Inr (lp', acc') \<Longrightarrow> lp' = (if ms = [] then lp else snd (last ms))"
  by (induction ms arbitrary: lp acc) (auto split: sum.splits)

text \<open>The pieces of a function, printed, are cut by the server into the same pieces.\<close>

lemma parsed_body_resent:
  assumes "parse_func_body t pm md = Inr ps" and "names_ok pm"
  shows "server_body (py_truth (remove_pure_fill md)) (body_to_str ps) = map chunk_of ps"
proof -
  let ?r = "new_chunked_request 0 0 semantic_metadata_default"
  let ?ms = "finditer 0 t"
  have r: "body ?r = map chunk_of []" by (simp add: new_chunked_request_def)
  obtain lp ret outs lo where run: "parse_matches t pm 0 ?ms ([], [], -1) = Inr (lp, ret, outs, lo)"
    and ps: "ps = (if py_truth (remove_pure_fill md) then take (nat (lo + 1)) ret
              else if lp < length t then push_to_body (\<lambda>i. Constant i (drop lp t)) ret else ret)"
    using assms(1) by (auto simp: parse_func_body_def split: sum.splits)
  have full: "push_matches t 0 ?ms ?r = (lp, ?r\<lparr>body := map chunk_of ret\<rparr>)"
    by (rule parse_matches_push [OF run assms(2) r])
  show ?thesis
  proof (cases "py_truth (remove_pure_fill md)")
    case False
    have "body_to_str ps = print_body (map chunk_of ret) @ drop lp t"
      using ps False push_matches_whole(3) [OF full] by (auto simp: print_chunk_of push_to_body_def body_to_str_def)
    then have "body_to_str ps = t" using push_matches_whole(1) [OF full] by simp
    with full ps False push_matches_whole(3) [OF full] show ?thesis
      by (auto simp: server_body_def push_to_body_def)
  next
    case True
    have empty: "server_body True [] = []" by (simp add: server_body_def r)
    consider "lo = -1" | ms1 ms2 lp1 outs1 where "?ms = ms1 @ ms2" "ms1 \<noteq> []"
        "parse_matches t pm 0 ms1 ([], [], -1) = Inr (lp1, ps, outs1, lo)"
      using parse_matches_cut [OF run] ps True by auto
    then show ?thesis
    proof cases
      case 1
      then show ?thesis using ps True empty by (simp add: body_to_str_def)
    next
      case 2
      have lp1: "lp1 = snd (last ms1)" using parse_matches_end [OF 2(3)] 2(2) by simp
      let ?s = "take lp1 t"
      have fi: "finditer 0 ?s = ms1" using finditer_prefix [OF 2(1,2)] lp1 by simp
      have "push_matches t 0 ms1 ?r = (lp1, ?r\<lparr>body := map chunk_of ps\<rparr>)"
        by (rule parse_matches_push [OF 2(3) assms(2) r])
      moreover have "push_matches ?s 0 ms1 ?r = push_matches t 0 ms1 ?r"
        using finditer_bounds [of _ _ 0 ?s] unfolding fi by (intro push_matches_take) fastforce
      ultimately have cut: "push_matches ?s 0 (finditer 0 ?s) ?r = (lp1, ?r\<lparr>body := map chunk_of ps\<rparr>)"
        using fi by simp
      have "body_to_str ps = ?s" using push_matches_whole(1) [OF cut] by (simp add: print_chunk_of)
      with cut True show ?thesis by (simp add: server_body_def)
    qed
  qed
qed

text \<open>
  The pieces of a function print to the template up to the text that \<^verbatim>\<open>remove_pure_fill\<close> drops, and their
  indexes number them.
\<close>

lemma parse_func_body_prints:
  assumes "parse_func_body t pm md = Inr ps" and "names_ok pm"
  shows "\<exists>tail. body_to_str ps @ tail = t \<and> (py_truth (remove_pure_fill md) \<or> tail = [])"
    and "map piece_idx ps = [0..<length ps]"
proof -
  let ?r = "new_chunked_request 0 0 semantic_metadata_default"
  have r: "body ?r = map chunk_of []" by (simp add: new_chunked_request_def)
  obtain lp ret outs lo where run: "parse_matches t pm 0 (finditer 0 t) ([], [], -1) = Inr (lp, ret, outs, lo)"
    and ps: "ps = (if py_truth (remove_pure_fill md) then take (nat (lo + 1)) ret
              else if lp < length t then push_to_body (\<lambda>i. Constant i (drop lp t)) ret else ret)"
    using assms(1) by (auto simp: parse_func_body_def split: sum.splits)
  note full = parse_matches_push [OF run assms(2) r]
  have pr: "body_to_str ret @ drop lp t = t" "positions_ok (map chunk_of ret)"
    using push_matches_whole(1,2) [OF full] by (simp_all add: print_chunk_of body_wf_def)
  show "\<exists>tail. body_to_str ps @ tail = t \<and> (py_truth (remove_pure_fill md) \<or> tail = [])"
  proof (cases "py_truth (remove_pure_fill md)")
    case True
    then have "ret = ps @ drop (nat (lo + 1)) ret" using ps by simp
    then have "body_to_str ret = body_to_str ps @ body_to_str (drop (nat (lo + 1)) ret)"
      by (metis body_to_str_def concat_append map_append)
    with pr(1) True show ?thesis by (metis append_assoc)
  next
    case False
    with pr(1) ps push_matches_whole(3) [OF full] show ?thesis by (auto simp: body_to_str_def push_to_body_def)
  qed
  have idx: "pos_id (chunk_of p) = int (piece_idx p)" for p by (cases p) auto
  have "map int (map piece_idx ret) = map int [0..<length ret]"
    using pr(2) by (simp add: positions_ok_def comp_def idx)
  then have "map piece_idx ret = [0..<length ret]" by (metis map_injective inj_of_nat)
  then show "map piece_idx ps = [0..<length ps]"
    using ps by (auto simp: push_to_body_def take_map [symmetric] take_upt min_def)
qed

text \<open>A body that begins with an output, and two outputs with no text between them, cannot be parsed.\<close>

lemma output_first_raises:
  assumes "ident n" and "map_of pm n = Some p" and "is_output_loc p"
  shows "parse_func_body (''{{'' @ n @ ''}}'' @ rest) pm md = Inl IndexError"
  using assms(2,3) finditer_ident [OF assms(1), of 0 rest] slice_name [of "[]" n rest]
  by (simp add: parse_func_body_def parse_match_def slice_def)

text \<open>The dictionaries of \<^verbatim>\<open>asdict\<close> give the objects back.\<close>

lemma semantic_metadata_roundtrip [simp]: "new_semantic_metadata (semantic_metadata_asdict md) = Inr md"
  by (simp add: new_semantic_metadata_def semantic_metadata_asdict_def SEMANTIC_METADATA_KEYS_def dict_update_def
      semantic_default_dict_def semantic_metadata_of_dict_def field_or_none_def)

lemma sampling_roundtrip [simp]: "sampling_config_of_dict (sampling_asdict c) c0 = Some c"
  by (simp add: sampling_asdict_def set_sampling_field_def)

end
