(* ===== verification/Frontend_VM.thy ===== *)
theory Frontend_VM
  imports Http_Client Frontend_Function
begin

text \<open>
  The client process: the semantic variables of \<^verbatim>\<open>frontend/pfunc/semantic_variable.py\<close>, the calls of
  \<^verbatim>\<open>frontend/pfunc/function.py\<close> and the virtual machines of \<^verbatim>\<open>frontend/pfunc/vm.py\<close>. Variables and virtual
  machines are objects in lists, referred to by their index; the class attributes
  \<^verbatim>\<open>_virtual_machine_env\<close> are such references. \<open>world\<close> is what the network acts on.
\<close>

section \<open>State\<close>

text \<open>A Python object as an argument is seen through \<^verbatim>\<open>str(o)\<close> and through its JSON image.\<close>

datatype py_obj = PyObj (obj_str: string) (obj_json: json) | SVar nat

record front_var =
  fv_name :: string
  fv_id :: "string option"
  fv_content :: json

record virtual_machine =
  core_http_addr :: string
  vm_session_id :: int
  vm_session_auth :: json
  function_registry :: "(string, basic_function) dict"
  anonymous_funcname_counter :: int

record 'w front =
  front_vars :: "front_var list"
  var_counter :: int
  vms :: "virtual_machine list"
  function_env :: "nat option"
  variable_env :: "nat option"
  world :: 'w

definition NONE_SESSION_ID :: int where
  "NONE_SESSION_ID = -1"

definition new_virtual_machine :: "string \<Rightarrow> virtual_machine" where
  "new_virtual_machine addr =
    \<lparr>core_http_addr = addr, vm_session_id = NONE_SESSION_ID, vm_session_auth = JStr [], function_registry = [],
     anonymous_funcname_counter = 0\<rparr>"

definition new_front :: "'w \<Rightarrow> 'w front" where
  "new_front w = \<lparr>front_vars = [], var_counter = 0, vms = [], function_env = None, variable_env = None, world = w\<rparr>"

abbreviation vm_at :: "'w front \<Rightarrow> nat \<Rightarrow> virtual_machine" where
  "vm_at s k \<equiv> vms s ! k"

abbreviation fv_at :: "'w front \<Rightarrow> nat \<Rightarrow> front_var" where
  "fv_at s r \<equiv> front_vars s ! r"

definition on_vm :: "nat \<Rightarrow> (virtual_machine \<Rightarrow> virtual_machine) \<Rightarrow> 'w front \<Rightarrow> 'w front" where
  "on_vm k f s = s\<lparr>vms := (vms s)[k := f (vm_at s k)]\<rparr>"

definition on_fv :: "nat \<Rightarrow> (front_var \<Rightarrow> front_var) \<Rightarrow> 'w front \<Rightarrow> 'w front" where
  "on_fv r f s = s\<lparr>front_vars := (front_vars s)[r := f (fv_at s r)]\<rparr>"

text \<open>A call of the API by a virtual machine, to the address it has.\<close>

definition vm_api ::
  "'w api_client \<Rightarrow> nat \<Rightarrow> ('w api_client \<Rightarrow> virtual_machine \<Rightarrow> 'w \<Rightarrow> ('a, 'w) py) \<Rightarrow> 'w front \<Rightarrow> ('a, 'w front) py" where
  "vm_api lib k f s =
    py_lift (\<lambda>w. s\<lparr>world := w\<rparr>) (f (lib\<lparr>api_addr := core_http_addr (vm_at s k)\<rparr>) (vm_at s k) (world s))"

section \<open>Handlers of the virtual machine for variables\<close>

text \<open>The ids that the core sends are strings; pydantic checks it.\<close>

definition register_semantic_variable_handler :: "'w api_client \<Rightarrow> nat \<Rightarrow> string \<Rightarrow> 'w front \<Rightarrow> (string, 'w front) py" where
  "register_semantic_variable_handler lib k var_name s =
    py_bind (vm_api lib k (\<lambda>c m. api_register_semantic_variable c (vm_session_id m) (vm_session_auth m) var_name) s)
      (\<lambda>resp s. case map_of resp ''var_id'' of Some (JStr v) \<Rightarrow> py_return v s | _ \<Rightarrow> py_raise ValueError s)"

text \<open>\<^verbatim>\<open>f"{var_id}"\<close>\<close>

definition var_id_str :: "string option \<Rightarrow> string" where
  "var_id_str vid = (case vid of None \<Rightarrow> ''None'' | Some v \<Rightarrow> v)"

definition set_semantic_variable_handler ::
  "'w api_client \<Rightarrow> nat \<Rightarrow> string option \<Rightarrow> json \<Rightarrow> 'w front \<Rightarrow> (unit, 'w front) py" where
  "set_semantic_variable_handler lib k vid txt s =
    py_bind (vm_api lib k (\<lambda>c m. api_set_semantic_variable c (vm_session_id m) (vm_session_auth m) (var_id_str vid) txt) s)
      (\<lambda>_ s. py_return () s)"

definition get_semantic_variable_handler ::
  "'w api_client \<Rightarrow> nat \<Rightarrow> string option \<Rightarrow> performance_criteria \<Rightarrow> 'w front \<Rightarrow> (json, 'w front) py" where
  "get_semantic_variable_handler lib k vid crit s =
    py_bind (vm_api lib k (\<lambda>c m. api_get_semantic_variable c (vm_session_id m) (vm_session_auth m) (var_id_str vid)
                                    (get_performance_criteria_str crit)) s)
      (\<lambda>resp s. py_return (field_or_none resp ''content'') s)"

definition aget_semantic_variable_handler ::
  "'w api_client \<Rightarrow> nat \<Rightarrow> string option \<Rightarrow> performance_criteria \<Rightarrow> 'w front \<Rightarrow> (json, 'w front) py" where
  "aget_semantic_variable_handler lib k vid crit s =
    py_bind (vm_api lib k (\<lambda>c m. api_aget_semantic_variable c (vm_session_id m) (vm_session_auth m) (var_id_str vid)
                                    (get_performance_criteria_str crit)) s)
      (\<lambda>resp s. py_return (field_or_none resp ''content'') s)"

section \<open>Semantic variables\<close>

definition set_variable_of :: "'w api_client \<Rightarrow> string option \<Rightarrow> json \<Rightarrow> 'w front \<Rightarrow> (unit, 'w front) py" where
  "set_variable_of lib vid txt s =
    (case variable_env s of
       Some k \<Rightarrow> set_semantic_variable_handler lib k vid txt s
     | None \<Rightarrow> py_return () s)"

definition get_variable_of :: "'w api_client \<Rightarrow> string option \<Rightarrow> performance_criteria \<Rightarrow> 'w front \<Rightarrow> (json, 'w front) py" where
  "get_variable_of lib vid crit s =
    (case variable_env s of
       Some k \<Rightarrow> get_semantic_variable_handler lib k vid crit s
     | None \<Rightarrow> py_return (JStr []) s)"

definition aget_variable_of :: "'w api_client \<Rightarrow> string option \<Rightarrow> performance_criteria \<Rightarrow> 'w front \<Rightarrow> (json, 'w front) py" where
  "aget_variable_of lib vid crit s =
    (case variable_env s of
       Some k \<Rightarrow> aget_semantic_variable_handler lib k vid crit s
     | None \<Rightarrow> py_return (JStr []) s)"

definition alloc_fv :: "front_var \<Rightarrow> 'w front \<Rightarrow> (nat, 'w front) py" where
  "alloc_fv v s = py_return (length (front_vars s)) (s\<lparr>front_vars := front_vars s @ [v]\<rparr>)"

text \<open>\<^verbatim>\<open>SemanticVariable.__init__\<close>: an object whose constructor raises is never seen.\<close>

definition new_front_var :: "'w api_client \<Rightarrow> string option \<Rightarrow> json \<Rightarrow> bool \<Rightarrow> 'w front \<Rightarrow> (nat, 'w front) py" where
  "new_front_var lib name txt register s =
    (let (nm, s) = (case name of
                      None \<Rightarrow> (''var_'' @ py_str (var_counter s), s\<lparr>var_counter := var_counter s + 1\<rparr>)
                    | Some n \<Rightarrow> (n, s))
     in py_bind (case variable_env s of
                   Some k \<Rightarrow>
                     if register then py_bind (register_semantic_variable_handler lib k nm s) (\<lambda>v s. py_return (Some v) s)
                     else py_return None s
                 | None \<Rightarrow> py_return None s) (\<lambda>vid s.
        py_bind (if txt = JNone then py_return () s else set_variable_of lib vid txt s) (\<lambda>_ s.
          alloc_fv \<lparr>fv_name = nm, fv_id = vid, fv_content = txt\<rparr> s)))"

definition is_registered :: "front_var \<Rightarrow> bool" where
  "is_registered v = (fv_id v \<noteq> None)"

definition front_is_ready :: "front_var \<Rightarrow> bool" where
  "front_is_ready v = (fv_content v \<noteq> JNone)"

text \<open>
  \<^verbatim>\<open>set\<close>, \<^verbatim>\<open>get\<close> and \<^verbatim>\<open>aget\<close>. The \<^verbatim>\<open>assert\<close> statements of the source are over tuples, which are always true.
\<close>

definition front_set :: "'w api_client \<Rightarrow> nat \<Rightarrow> json \<Rightarrow> 'w front \<Rightarrow> (unit, 'w front) py" where
  "front_set lib r txt s =
    py_bind (set_variable_of lib (fv_id (fv_at s r)) txt s) (\<lambda>_ s.
      py_return () (on_fv r (\<lambda>v. v\<lparr>fv_content := txt\<rparr>) s))"

definition front_get :: "'w api_client \<Rightarrow> nat \<Rightarrow> performance_criteria \<Rightarrow> 'w front \<Rightarrow> (json, 'w front) py" where
  "front_get lib r crit s =
    (if front_is_ready (fv_at s r) then py_return (fv_content (fv_at s r)) s
     else py_bind (get_variable_of lib (fv_id (fv_at s r)) crit s) (\<lambda>txt s.
            py_return txt (on_fv r (\<lambda>v. v\<lparr>fv_content := txt\<rparr>) s)))"

definition front_aget :: "'w api_client \<Rightarrow> nat \<Rightarrow> performance_criteria \<Rightarrow> 'w front \<Rightarrow> (json, 'w front) py" where
  "front_aget lib r crit s =
    (if front_is_ready (fv_at s r) then py_return (fv_content (fv_at s r)) s
     else aget_variable_of lib (fv_id (fv_at s r)) crit s)"

section \<open>Bindings\<close>

type_synonym bindings = "(string, py_obj) dict"

record call =
  call_bindings :: bindings
  call_output_vars :: "nat list"

definition set_value :: "func_param \<Rightarrow> py_obj \<Rightarrow> bindings \<Rightarrow> 'w front \<Rightarrow> (bindings, 'w front) py" where
  "set_value p v b s =
    (case fparam_typ p of
       INPUT_PYOBJ \<Rightarrow> py_return (dict_set (fparam_name p) v b) s
     | INPUT_LOC \<Rightarrow>
         (case v of
            SVar r \<Rightarrow> py_return (dict_set (fparam_name p) v b) s
          | PyObj t j \<Rightarrow>
              py_bind (alloc_fv \<lparr>fv_name = fparam_name p, fv_id = None, fv_content = JStr t\<rparr> s) (\<lambda>r s.
                py_return (dict_set (fparam_name p) (SVar r) b) s))
     | OUTPUT_LOC \<Rightarrow>
         (case v of
            SVar r \<Rightarrow> py_return (dict_set (fparam_name p) v b) s
          | PyObj t j \<Rightarrow> py_raise TypeError s))"

text \<open>The loops of \<^verbatim>\<open>set_bindings\<close>: positional arguments meet the inputs in order.\<close>

fun set_positional :: "func_param list \<Rightarrow> py_obj list \<Rightarrow> bindings \<Rightarrow> 'w front \<Rightarrow> (bindings, 'w front) py" where
  "set_positional inputs [] b s = py_return b s"
| "set_positional [] (v # vs) b s = py_raise ValueError s"
| "set_positional (p # inputs) (v # vs) b s = py_bind (set_value p v b s) (set_positional inputs vs)"

fun set_keywords :: "(string, func_param) dict \<Rightarrow> (string, py_obj) dict \<Rightarrow> bindings \<Rightarrow> 'w front \<Rightarrow> (bindings, 'w front) py" where
  "set_keywords params_map [] b s = py_return b s"
| "set_keywords params_map ((name, v) # kwargs) b s =
    (if dict_mem name b then py_raise AssertionError s
     else case map_of params_map name of
            None \<Rightarrow> py_raise AssertionError s
          | Some p \<Rightarrow> py_bind (set_value p v b s) (set_keywords params_map kwargs))"

fun create_outputs :: "func_param list \<Rightarrow> call \<Rightarrow> 'w front \<Rightarrow> (call, 'w front) py" where
  "create_outputs [] c s = py_return c s"
| "create_outputs (p # outputs) c s =
    (if dict_mem (fparam_name p) (call_bindings c) then create_outputs outputs c s
     else py_bind (alloc_fv \<lparr>fv_name = fparam_name p, fv_id = None, fv_content = JNone\<rparr> s) (\<lambda>r s.
          py_bind (set_value p (SVar r) (call_bindings c) s) (\<lambda>b s.
            create_outputs outputs \<lparr>call_bindings = b, call_output_vars = call_output_vars c @ [r]\<rparr> s)))"

definition new_call :: "func_param list \<Rightarrow> py_obj list \<Rightarrow> (string, py_obj) dict \<Rightarrow> 'w front \<Rightarrow> (call, 'w front) py" where
  "new_call params args kwargs s =
    py_bind (set_positional (inputs_of params) args [] s) (\<lambda>b s.
    py_bind (set_keywords (params_map_of params) kwargs b s) (\<lambda>b s.
      create_outputs (outputs_of params) \<lparr>call_bindings = b, call_output_vars = []\<rparr> s))"

text \<open>
  \<^verbatim>\<open>update_var_ids\<close>: the infos are JSON dictionaries of the core. An id that is no string, which the core does
  not send, is not in the model.
\<close>

definition update_var_id :: "bindings \<Rightarrow> json \<Rightarrow> 'w front \<Rightarrow> (unit, 'w front) py" where
  "update_var_id b mapping s =
    (case mapping of
       JDict d \<Rightarrow>
         py_bind (dict_get d ''parameter_name'' s) (\<lambda>name s.
         py_bind (dict_get d ''var_id'' s) (\<lambda>vid s.
         py_bind (case name of JStr n \<Rightarrow> dict_get b n s
                  | _ \<Rightarrow> if py_hashable name then py_raise KeyError s else py_raise TypeError s) (\<lambda>v s.
           case v of
             PyObj t j \<Rightarrow> py_raise AssertionError s
           | SVar r \<Rightarrow>
               (case vid of
                  JStr i \<Rightarrow> py_return () (on_fv r (\<lambda>x. x\<lparr>fv_id := Some i\<rparr>) s)
                | _ \<Rightarrow> py_raise TypeError s))))
     | _ \<Rightarrow> py_raise TypeError s)"

definition update_var_ids :: "bindings \<Rightarrow> json list \<Rightarrow> 'w front \<Rightarrow> (unit, 'w front) py" where
  "update_var_ids b param_info s = py_for (update_var_id b) param_info s"

section \<open>Request payloads\<close>

definition semantic_param_dict :: "func_param \<Rightarrow> (string, json) dict" where
  "semantic_param_dict p =
    [(''name'', JStr (fparam_name p)), (''is_output'', JBool (is_output_loc p))] @
    (if is_output_loc p
     then (case fparam_sampling_config p of None \<Rightarrow> [] | Some c \<Rightarrow> [(''sampling_config'', JDict (sampling_asdict c))])
     else [])"

text \<open>
  What a variable adds to the dictionary of its parameter: its id, or, for an input, its value; \<^verbatim>\<open>get\<close> may ask
  the core for it.
\<close>

definition var_fields :: "'w api_client \<Rightarrow> func_param \<Rightarrow> nat \<Rightarrow> 'w front \<Rightarrow> ((string, json) dict, 'w front) py" where
  "var_fields lib p r s =
    (case fv_id (fv_at s r) of
       Some i \<Rightarrow> py_return [(''var_id'', JStr i)] s
     | None \<Rightarrow>
        if is_output_loc p then py_return [] s
        else py_bind (front_get lib r THROUGHPUT s) (\<lambda>x s. py_return [(''value'', x)] s))"

text \<open>The loop of \<^verbatim>\<open>SemanticCall.to_request_payload\<close>, with the template and the list of parameters.\<close>

fun semantic_payload_loop ::
  "'w api_client \<Rightarrow> bindings \<Rightarrow> func_param list \<Rightarrow> string \<Rightarrow> json list \<Rightarrow> 'w front \<Rightarrow>
   (string \<times> json list, 'w front) py" where
  "semantic_payload_loop lib b [] template_str parameters s = py_return (template_str, parameters) s"
| "semantic_payload_loop lib b (p # params) template_str parameters s =
    py_bind (dict_get b (fparam_name p) s) (\<lambda>v s.
      if is_output_loc p \<and> fparam_sampling_config p = None then py_raise AssertionError s
      else case v of
             SVar r \<Rightarrow>
               py_bind (var_fields lib p r s) (\<lambda>d s.
                 semantic_payload_loop lib b params template_str
                   (parameters @ [JDict (semantic_param_dict p @ d)]) s)
           | PyObj t j \<Rightarrow>
               semantic_payload_loop lib b params (py_replace (get_param_str p) t template_str) parameters s)"

definition semantic_payload :: "'w api_client \<Rightarrow> semantic_function \<Rightarrow> call \<Rightarrow> 'w front \<Rightarrow> ((string, json) dict, 'w front) py" where
  "semantic_payload lib f c s =
    py_bind (semantic_payload_loop lib (call_bindings c) (fn_params f) (to_template_str f) [] s)
      (\<lambda>(template_str, parameters) s.
        py_return (semantic_metadata_asdict (fn_metadata f) @
          [(''template'', JStr template_str), (''parameters'', JList parameters), (''func_name'', JStr (fn_name f))]) s)"

text \<open>\<^verbatim>\<open>PyNativeCall.to_request_payload\<close>\<close>

fun native_payload_loop ::
  "'w api_client \<Rightarrow> bindings \<Rightarrow> func_param list \<Rightarrow> json list \<Rightarrow> 'w front \<Rightarrow> (json list, 'w front) py" where
  "native_payload_loop lib b [] parameters s = py_return parameters s"
| "native_payload_loop lib b (p # params) parameters s =
    py_bind (dict_get b (fparam_name p) s) (\<lambda>v s.
    py_bind (case v of SVar r \<Rightarrow> var_fields lib p r s | PyObj t j \<Rightarrow> py_return [(''value'', j)] s) (\<lambda>d s.
      native_payload_loop lib b params
        (parameters @ [JDict ([(''name'', JStr (fparam_name p)), (''is_output'', JBool (is_output_loc p))] @ d)]) s))"

definition native_payload :: "'w api_client \<Rightarrow> bool \<Rightarrow> native_function \<Rightarrow> call \<Rightarrow> 'w front \<Rightarrow> ((string, json) dict, 'w front) py" where
  "native_payload lib with_code f c s =
    py_bind (native_payload_loop lib (call_bindings c) (fn_params f) [] s) (\<lambda>parameters s.
      py_return (native_metadata_asdict (fn_native_metadata f) @
        [(''parameters'', JList parameters), (''func_name'', JStr (fn_name f))] @
        (if with_code then [(''func_code'', JStr (fn_code f))] else [])) s)"

section \<open>Functions and their calls\<close>

definition register_function_handler :: "nat \<Rightarrow> basic_function \<Rightarrow> 'w front \<Rightarrow> 'w front" where
  "register_function_handler k f s =
    (if dict_mem (fn_name f) (function_registry (vm_at s k)) then s
     else on_vm k (\<lambda>m. m\<lparr>function_registry := dict_set (fn_name f) f (function_registry m)\<rparr>) s)"

text \<open>\<^verbatim>\<open>BasicFunction._register_function\<close>, which the constructors call.\<close>

definition register_function :: "('a) basic_function_scheme \<Rightarrow> 'w front \<Rightarrow> 'w front" where
  "register_function f s =
    (case function_env s of
       Some k \<Rightarrow> register_function_handler k \<lparr>fn_name = fn_name f, fn_params = fn_params f\<rparr> s
     | None \<Rightarrow> s)"

definition make_semantic_function ::
  "string \<Rightarrow> func_param list \<Rightarrow> string option \<Rightarrow> bool \<Rightarrow> (string, json) dict \<Rightarrow> 'w front \<Rightarrow> (semantic_function, 'w front) py" where
  "make_semantic_function name params func_body_str try_register metadata_kwargs s =
    (case new_semantic_function name params func_body_str None metadata_kwargs of
       Inl e \<Rightarrow> py_raise e s
     | Inr f \<Rightarrow> py_return f (if try_register then register_function f s else s))"

text \<open>The decorators: the function is registered before the formatters transform it.\<close>

definition decorate_semantic ::
  "(semantic_function \<Rightarrow> py_error + semantic_function) list \<Rightarrow> bool \<Rightarrow> (string, json) dict \<Rightarrow> py_signature \<Rightarrow> 'w front \<Rightarrow>
   (semantic_function, 'w front) py" where
  "decorate_semantic transforms try_register metadata_kwargs f s =
    (case semantic_function_decorator [] metadata_kwargs f of
       Inl e \<Rightarrow> py_raise e s
     | Inr g \<Rightarrow>
        (let s = (if try_register then register_function g s else s)
         in case semantic_function_decorator transforms metadata_kwargs f of
              Inl e \<Rightarrow> py_raise e s
            | Inr g \<Rightarrow> py_return g s))"

definition decorate_native :: "string \<Rightarrow> (string, json) dict \<Rightarrow> py_signature \<Rightarrow> 'w front \<Rightarrow> (native_function, 'w front) py" where
  "decorate_native code metadata_kwargs f s =
    (case native_function_decorator code metadata_kwargs f of
       Inl e \<Rightarrow> py_raise e s
     | Inr g \<Rightarrow> py_return g (register_function g s))"

definition response_infos :: "(string, json) dict \<Rightarrow> json list" where
  "response_infos resp = (case map_of resp ''param_info'' of Some (JList xs) \<Rightarrow> xs | _ \<Rightarrow> [])"

definition submit_semantic_call_handler ::
  "'w api_client \<Rightarrow> nat \<Rightarrow> semantic_function \<Rightarrow> call \<Rightarrow> 'w front \<Rightarrow> (json list, 'w front) py" where
  "submit_semantic_call_handler lib k f c s =
    py_bind (semantic_payload lib f c s) (\<lambda>payload s.
    py_bind (vm_api lib k (\<lambda>api m. api_submit_semantic_call api (vm_session_id m) payload) s) (\<lambda>resp s.
      py_return (response_infos resp) s))"

definition asubmit_semantic_call_handler ::
  "'w api_client \<Rightarrow> nat \<Rightarrow> semantic_function \<Rightarrow> call \<Rightarrow> 'w front \<Rightarrow> (json list, 'w front) py" where
  "asubmit_semantic_call_handler lib k f c s =
    py_bind (semantic_payload lib f c s) (\<lambda>payload s.
    py_bind (vm_api lib k (\<lambda>api m. api_asubmit_semantic_call api (vm_session_id m) payload) s) (\<lambda>resp s.
      py_return (response_infos resp) s))"

definition submit_py_native_call_handler ::
  "'w api_client \<Rightarrow> nat \<Rightarrow> native_function \<Rightarrow> call \<Rightarrow> 'w front \<Rightarrow> (json list, 'w front) py" where
  "submit_py_native_call_handler lib k f c s =
    py_bind (native_payload lib True f c s) (\<lambda>payload s.
    py_bind (vm_api lib k (\<lambda>api m. api_submit_py_native_call api (vm_session_id m) payload) s) (\<lambda>resp s.
      py_return (response_infos resp) s))"

definition asubmit_py_native_call_handler ::
  "'w api_client \<Rightarrow> nat \<Rightarrow> native_function \<Rightarrow> call \<Rightarrow> 'w front \<Rightarrow> (json list, 'w front) py" where
  "asubmit_py_native_call_handler lib k f c s =
    py_bind (native_payload lib True f c s) (\<lambda>payload s.
    py_bind (vm_api lib k (\<lambda>api m. api_asubmit_py_native_call api (vm_session_id m) payload) s) (\<lambda>resp s.
      py_return (response_infos resp) s))"

text \<open>What a call returns: the call itself without an environment, one variable, or the tuple of them.\<close>

datatype call_result = TheCall call | OneVar nat | VarTuple "nat list"

definition unpack_outputs :: "call \<Rightarrow> call_result" where
  "unpack_outputs c = (case call_output_vars c of [r] \<Rightarrow> OneVar r | rs \<Rightarrow> VarTuple rs)"

definition finish_call :: "(nat \<Rightarrow> call \<Rightarrow> 'w front \<Rightarrow> (json list, 'w front) py) \<Rightarrow> call \<Rightarrow> 'w front \<Rightarrow> (call_result, 'w front) py" where
  "finish_call submit c s =
    (case function_env s of
       None \<Rightarrow> py_return (TheCall c) s
     | Some k \<Rightarrow>
         py_bind (submit k c s) (\<lambda>param_info s.
         py_bind (update_var_ids (call_bindings c) param_info s) (\<lambda>_ s.
           py_return (unpack_outputs c) s)))"

definition call_semantic ::
  "'w api_client \<Rightarrow> semantic_function \<Rightarrow> py_obj list \<Rightarrow> (string, py_obj) dict \<Rightarrow> 'w front \<Rightarrow> (call_result, 'w front) py" where
  "call_semantic lib f args kwargs s =
    py_bind (new_call (fn_params f) args kwargs s) (finish_call (\<lambda>k. submit_semantic_call_handler lib k f))"

definition acall_semantic ::
  "'w api_client \<Rightarrow> semantic_function \<Rightarrow> py_obj list \<Rightarrow> (string, py_obj) dict \<Rightarrow> 'w front \<Rightarrow> (call_result, 'w front) py" where
  "acall_semantic lib f args kwargs s =
    py_bind (new_call (fn_params f) args kwargs s) (finish_call (\<lambda>k. asubmit_semantic_call_handler lib k f))"

text \<open>Both \<^verbatim>\<open>_call_func\<close> and \<^verbatim>\<open>_acall_func\<close> of a native function submit synchronously.\<close>

definition call_native ::
  "'w api_client \<Rightarrow> native_function \<Rightarrow> py_obj list \<Rightarrow> (string, py_obj) dict \<Rightarrow> 'w front \<Rightarrow> (call_result, 'w front) py" where
  "call_native lib f args kwargs s =
    py_bind (new_call (fn_params f) args kwargs s) (finish_call (\<lambda>k. submit_py_native_call_handler lib k f))"

section \<open>Sessions of a virtual machine\<close>

definition vm_session_registered :: "virtual_machine \<Rightarrow> bool" where
  "vm_session_registered m = (vm_session_id m \<noteq> NONE_SESSION_ID)"

definition vm_register_session :: "'w api_client \<Rightarrow> nat \<Rightarrow> 'w front \<Rightarrow> (unit, 'w front) py" where
  "vm_register_session lib k s =
    py_bind (vm_api lib k (\<lambda>c m. api_register_session c ''1'') s) (\<lambda>resp s.
      case map_of resp ''session_id'' of
        Some (JInt sid) \<Rightarrow>
          py_return () (on_vm k (\<lambda>m. m\<lparr>vm_session_id := sid, vm_session_auth := field_or_none resp ''session_auth''\<rparr>) s)
      | _ \<Rightarrow> py_raise ValueError s)"

definition vm_unregister_session :: "'w api_client \<Rightarrow> nat \<Rightarrow> 'w front \<Rightarrow> (unit, 'w front) py" where
  "vm_unregister_session lib k s =
    (if \<not> vm_session_registered (vm_at s k) then py_return () s
     else py_bind (vm_api lib k (\<lambda>c m. api_remove_session c (vm_session_id m) (vm_session_auth m)) s) (\<lambda>_ s.
            py_return () (on_vm k (\<lambda>m. m\<lparr>vm_session_id := NONE_SESSION_ID, vm_session_auth := JStr []\<rparr>) s)))"

definition set_global_env :: "'w api_client \<Rightarrow> nat \<Rightarrow> 'w front \<Rightarrow> (unit, 'w front) py" where
  "set_global_env lib k s = vm_register_session lib k (s\<lparr>function_env := Some k, variable_env := Some k\<rparr>)"

definition unset_global_env :: "'w api_client \<Rightarrow> nat \<Rightarrow> 'w front \<Rightarrow> (unit, 'w front) py" where
  "unset_global_env lib k s = vm_unregister_session lib k (s\<lparr>function_env := None, variable_env := Some k\<rparr>)"

text \<open>
  \<^verbatim>\<open>running_scope\<close>: an exception of the program is printed and does not leave the scope. \<^verbatim>\<open>run\<close> runs a program
  under it; its coroutines and clocks are left out.
\<close>

definition running_scope :: "'w api_client \<Rightarrow> nat \<Rightarrow> ('w front \<Rightarrow> (unit, 'w front) py) \<Rightarrow> 'w front \<Rightarrow> (unit, 'w front) py" where
  "running_scope lib k program s =
    py_bind (set_global_env lib k s) (\<lambda>_ s. unset_global_env lib k (snd (program s)))"

text \<open>\<^verbatim>\<open>define_function\<close>, which completes the parameters it is given.\<close>

definition complete_param :: "func_param \<Rightarrow> func_param" where
  "complete_param p =
    (if fparam_typ p = OUTPUT_LOC \<and> fparam_sampling_config p = None
     then p\<lparr>fparam_sampling_config := Some default_sampling_config\<rparr> else p)"

definition define_function ::
  "nat \<Rightarrow> string option \<Rightarrow> string \<Rightarrow> func_param list \<Rightarrow> bool \<Rightarrow> (string, json) dict \<Rightarrow> 'w front \<Rightarrow>
   (semantic_function, 'w front) py" where
  "define_function k given_name func_body params try_register metadata_kwargs s =
    (let (name, s) =
       (case given_name of
          Some n \<Rightarrow> (n, s)
        | None \<Rightarrow> (''anonymous_'' @ py_str (anonymous_funcname_counter (vm_at s k)),
                   on_vm k (\<lambda>m. m\<lparr>anonymous_funcname_counter := anonymous_funcname_counter m + 1\<rparr>) s))
     in py_bind (make_semantic_function name (map complete_param params) (Some func_body) try_register metadata_kwargs s)
          (\<lambda>f s. py_return f (register_function_handler k \<lparr>fn_name = fn_name f, fn_params = fn_params f\<rparr> s)))"

end
