(* ===== verification/Frontend_Requests.thy ===== *)
theory Frontend_Requests
  imports Frontend_VM
begin

text \<open>
  What arrives at the server. The payload that a call builds is parsed by \<^verbatim>\<open>parse_from_payload\<close> of the serve core to the
  pieces, the metadata and the parameters of the function; where it is not, the theorems say what is lost
  or refused: a preallocated output variable, the timeout of a native function, text with
  braces in a Python object.
\<close>

section \<open>Sending a request\<close>

definition sent_request :: "string \<Rightarrow> string \<Rightarrow> (string, json) dict \<Rightarrow> http_request" where
  "sent_request addr url d = \<lparr>http_method = ''POST'', http_url = addr @ url, http_json = d, http_timeout = JNone\<rparr>"

lemma call_keywords_session:
  assumes "fst ` set payload \<inter> set (''session_id'' # send_positional) = {}"
  shows "call_keywords [(''session_id'', JInt sid)] payload = Inr ((''session_id'', JInt sid) # payload)"
  using assms by (force simp: call_keywords_def list_ex_iff)

lemma bind_request_plain:
  assumes "''method'' \<notin> fst ` set d" and "''timeout'' \<notin> fst ` set d"
  shows "bind_request (addr @ url) d = Some (sent_request addr url d)"
  using assms
  by (simp add: bind_request_def bind_method_def sent_request_def dict_pop_absent field_or_none_def
      map_of_eq_None_iff [THEN iffD2])

text \<open>The keys of the two payloads.\<close>

lemma semantic_payload_keys:
  "semantic_payload lib f c s = (Inr payload, s') \<Longrightarrow>
    dict_keys payload = SEMANTIC_METADATA_KEYS @ [''template'', ''parameters'', ''func_name'']"
  by (auto simp: semantic_payload_def py_bind_eq_Inr semantic_metadata_asdict_def SEMANTIC_METADATA_KEYS_def)

lemma submit_semantic_sends:
  assumes "semantic_payload lib f c s = (Inr payload, s')"
  shows "submit_semantic_call_handler lib k f c s =
    py_bind (vm_api lib k (\<lambda>api m. send_loop (api_net api) (api_pydantic api) SubmitSemanticCallResponse
        (Some (sent_request (api_addr api) (public_url ''/semantic_call'') ((''session_id'', JInt (vm_session_id m)) # payload)))
        1 None None) s')
      (\<lambda>resp s. py_return (response_infos resp) s)"
proof -
  have keys: "fst ` set payload = set (SEMANTIC_METADATA_KEYS @ [''template'', ''parameters'', ''func_name''])"
    using arg_cong [OF semantic_payload_keys [OF assms], of set] by simp
  have "call_keywords [(''session_id'', JInt sid)] payload = Inr ((''session_id'', JInt sid) # payload)" for sid
    by (rule call_keywords_session) (simp add: keys SEMANTIC_METADATA_KEYS_def send_positional_def)
  moreover have "bind_request (addr @ url) ((''session_id'', JInt sid) # payload) =
      Some (sent_request addr url ((''session_id'', JInt sid) # payload))" for addr url sid
    by (rule bind_request_plain) (simp_all add: keys SEMANTIC_METADATA_KEYS_def)
  ultimately have "api_submit_semantic_call api sid payload = send_loop (api_net api) (api_pydantic api) SubmitSemanticCallResponse
      (Some (sent_request (api_addr api) (public_url ''/semantic_call'') ((''session_id'', JInt sid) # payload))) 1 None None" for api :: "'a api_client" and sid
    by (intro ext) (simp add: api_submit_semantic_call_def api_send_def with_keywords_def send_http_request_def)
  then show ?thesis using assms by (simp add: submit_semantic_call_handler_def)
qed

section \<open>The parameters of a payload\<close>

text \<open>A binding that the server accepts: an output has no id yet, an input has an id or a content.\<close>

definition sendable :: "front_var list \<Rightarrow> bindings \<Rightarrow> func_param \<Rightarrow> bool" where
  "sendable vs b p \<longleftrightarrow>
    (case map_of b (fparam_name p) of
       Some (SVar r) \<Rightarrow>
         r < length vs \<and>
         (if is_output_loc p then fv_id (vs ! r) = None \<and> fparam_sampling_config p \<noteq> None
          else fv_id (vs ! r) \<noteq> None \<or> fv_content (vs ! r) \<noteq> JNone)
     | _ \<Rightarrow> False)"

definition bound_var :: "front_var list \<Rightarrow> bindings \<Rightarrow> func_param \<Rightarrow> front_var" where
  "bound_var vs b p = (case map_of b (fparam_name p) of Some (SVar r) \<Rightarrow> vs ! r | _ \<Rightarrow> undefined)"

text \<open>The parameter that the server makes of it.\<close>

definition server_parameter :: "front_var list \<Rightarrow> bindings \<Rightarrow> func_param \<Rightarrow> semantic_function_parameter" where
  "server_parameter vs b p =
    (let v = bound_var vs b p
     in \<lparr>param_name = JStr (fparam_name p), is_output = JBool (is_output_loc p),
         param_var_id = (case fv_id v of Some i \<Rightarrow> JStr i | None \<Rightarrow> JNone),
         param_value = (if is_output_loc p \<or> fv_id v \<noteq> None then JNone else fv_content v),
         param_sampling_config = (if is_output_loc p then fparam_sampling_config p else None)\<rparr>)"

definition var_dict :: "front_var list \<Rightarrow> bindings \<Rightarrow> func_param \<Rightarrow> (string, json) dict" where
  "var_dict vs b p =
    (case fv_id (bound_var vs b p) of
       Some i \<Rightarrow> [(''var_id'', JStr i)]
     | None \<Rightarrow> if is_output_loc p then [] else [(''value'', fv_content (bound_var vs b p))])"

lemma sendable_parameter:
  assumes "sendable vs b p"
  shows "new_semantic_parameter (JDict (semantic_param_dict p @ var_dict vs b p)) = Inr (server_parameter vs b p)"
proof -
  obtain r where r: "map_of b (fparam_name p) = Some (SVar r)" "bound_var vs b p = vs ! r"
    using assms by (auto simp: sendable_def bound_var_def split: option.splits py_obj.splits)
  show ?thesis
  proof (cases "is_output_loc p")
    case True
    with assms r obtain c where "fparam_sampling_config p = Some c" "fv_id (vs ! r) = None"
      by (auto simp: sendable_def)
    with True r show ?thesis
      by (simp add: new_semantic_parameter_def check_keywords_def semantic_param_dict_def var_dict_def field_or_none_def
          semantic_param_post_init_def server_parameter_def)
  next
    case False
    with assms r show ?thesis
      by (cases "fv_id (vs ! r)")
        (simp_all add: new_semantic_parameter_def check_keywords_def semantic_param_dict_def var_dict_def field_or_none_def
          semantic_param_post_init_def server_parameter_def sendable_def)
  qed
qed

lemma add_parameters_sent:
  assumes "\<forall>p \<in> set params. new (j p) = Inr (q p) \<and> nameof (q p) = JStr (fparam_name p)"
    and "distinct (map fparam_name params)" and "\<forall>p \<in> set params. JStr (fparam_name p) \<notin> fst ` set m"
  shows "add_parameters new nameof (map j params) m = Inr (m @ map (\<lambda>p. (JStr (fparam_name p), q p)) params)"
  using assms
proof (induction params arbitrary: m)
  case (Cons p params)
  let ?e = "(JStr (fparam_name p), q p)"
  have new: "JStr (fparam_name p) \<notin> fst ` set m" using Cons.prems(3) by simp
  have "\<forall>p' \<in> set params. JStr (fparam_name p') \<notin> fst ` set (m @ [?e])"
    using Cons.prems(2,3) by (fastforce simp: image_iff)
  then have "add_parameters new nameof (map j params) (m @ [?e]) = Inr ((m @ [?e]) @ map (\<lambda>p. (JStr (fparam_name p), q p)) params)"
    using Cons.IH [of "m @ [?e]"] Cons.prems(1,2) by simp
  with Cons.prems(1) new show ?case by (simp add: dict_set_append)
qed simp

lemma payload_loop_sent:
  assumes "list_all (sendable (front_vars s) b) params"
  shows "semantic_payload_loop lib b params t acc s =
    py_return (t, acc @ map (\<lambda>p. JDict (semantic_param_dict p @ var_dict (front_vars s) b p)) params) s"
  using assms
proof (induction params arbitrary: acc)
  case (Cons p params)
  then obtain r where r: "map_of b (fparam_name p) = Some (SVar r)" "bound_var (front_vars s) b p = fv_at s r"
    by (auto simp: sendable_def bound_var_def split: option.splits py_obj.splits)
  have "var_fields lib p r s = py_return (var_dict (front_vars s) b p) s"
    using Cons.prems r
    by (auto simp: var_fields_def var_dict_def sendable_def front_get_def front_is_ready_def split: option.split)
  moreover have "(is_output_loc p \<and> fparam_sampling_config p = None) = False"
    using Cons.prems r by (auto simp: sendable_def)
  moreover have "semantic_payload_loop lib b params t acc' s =
      py_return (t, acc' @ map (\<lambda>p. JDict (semantic_param_dict p @ var_dict (front_vars s) b p)) params) s" for acc'
    using Cons by simp
  ultimately show ?case using r(1) by (cases "is_output_loc p") auto
qed simp

section \<open>The body and the metadata\<close>

lemma push_matches_body:
  "body r = body r' \<Longrightarrow>
    fst (push_matches t lp ms r) = fst (push_matches t lp ms r') \<and>
    body (snd (push_matches t lp ms r)) = body (snd (push_matches t lp ms r'))"
proof (induction t lp ms r arbitrary: r' rule: push_matches.induct)
  case (2 t lp start stop ms r)
  let ?next = "\<lambda>r. push_chunk PlaceholderChunk (slice (start + 2) (stop - 2) t)
    (if slice lp start t \<noteq> [] then push_chunk TextChunk (slice lp start t) r else r)"
  have "body (?next r) = body (?next r')" using "2.prems" by simp
  from "2.IH" [OF refl refl refl, of "?next r'"] this show ?case by (simp add: Let_def)
qed simp

text \<open>A key that the parser does not know makes no difference.\<close>

lemma parse_from_payload_other_key:
  assumes "k \<notin> set (''template'' # ''parameters'' # SEMANTIC_METADATA_KEYS)"
  shows "parse_from_payload rid sid ((k, v) # d) = parse_from_payload rid sid d"
proof -
  have "override_metadata keys ((k, v) # d) x = override_metadata keys d x" if "k \<notin> set keys" for keys x
    unfolding override_metadata_def by (rule foldl_cong) (use that in auto)
  then have "override_metadata SEMANTIC_METADATA_KEYS ((k, v) # d) x = override_metadata SEMANTIC_METADATA_KEYS d x" for x
    using assms by simp
  moreover have "map_of ((k, v) # d) ''template'' = map_of d ''template''" "map_of ((k, v) # d) ''parameters'' = map_of d ''parameters''"
    using assms by auto
  ultimately show ?thesis by (simp only: parse_from_payload_def)
qed

text \<open>A payload is parsed to the server's body of its template, with the metadata its keys give.\<close>

lemma parse_from_payload_body:
  assumes "map_of payload ''template'' = Some (JStr t)" and "map_of payload ''parameters'' = Some (JList ps)"
    and "add_parameters new_semantic_parameter param_name ps [] = Inr pm"
    and "\<forall>k \<in> set SEMANTIC_METADATA_KEYS. map_of payload k = map_of (semantic_metadata_asdict md) k"
  shows "\<exists>r. parse_from_payload rid sid payload = Inr r \<and> metadata r = md \<and> parameters_map r = pm \<and>
    body r = server_body (py_truth (remove_pure_fill md)) t"
proof -
  have "semantic_metadata_of_dict (override_metadata SEMANTIC_METADATA_KEYS payload semantic_default_dict) = md"
    using assms(4)
    by (simp add: semantic_metadata_of_dict_def field_or_none_def override_metadata_lookup SEMANTIC_METADATA_KEYS_def
        semantic_metadata_asdict_def)
  note md = this
  let ?r0 = "(new_chunked_request rid sid md)\<lparr>parameters_map := pm\<rparr>"
  let ?r1 = "new_chunked_request 0 0 semantic_metadata_default"
  obtain lp r where run: "push_matches t 0 (finditer 0 t) ?r0 = (lp, r)"
    by (cases "push_matches t 0 (finditer 0 t) ?r0")
  obtain lp1 r1 where run1: "push_matches t 0 (finditer 0 t) ?r1 = (lp1, r1)"
    by (cases "push_matches t 0 (finditer 0 t) ?r1")
  have "lp = lp1 \<and> body r = body r1"
    using push_matches_body [of ?r0 ?r1 t 0 "finditer 0 t"] run run1 by (simp add: new_chunked_request_def)
  moreover have "metadata r = md \<and> parameters_map r = pm"
    using push_matches_frame [OF run] by (simp add: new_chunked_request_def)
  ultimately show ?thesis
    using assms(1-3) run run1 by (auto simp: parse_from_payload_def md server_body_def Let_def)
qed

text \<open>
  An ordinary call makes such bindings: positional arguments for all inputs, each a plain object or a variable
  with an id or a content, and no preallocated outputs.
\<close>

definition arg_ok :: "front_var list \<Rightarrow> py_obj \<Rightarrow> bool" where
  "arg_ok vs v = (case v of PyObj t j \<Rightarrow> True
    | SVar r \<Rightarrow> r < length vs \<and> (fv_id (vs ! r) \<noteq> None \<or> fv_content (vs ! r) \<noteq> JNone))"

definition more_vars :: "'w front \<Rightarrow> 'w front \<Rightarrow> bool" where
  "more_vars s s' \<longleftrightarrow> (\<exists>vs. s' = s\<lparr>front_vars := front_vars s @ vs\<rparr>)"

lemma more_vars_refl [simp]: "more_vars s s"
  unfolding more_vars_def by (rule exI [of _ "[]"]) simp

lemma more_vars_trans: "more_vars s t \<Longrightarrow> more_vars t u \<Longrightarrow> more_vars s u"
  by (auto simp: more_vars_def)

lemma more_varsD:
  "more_vars s s' \<Longrightarrow> sendable (front_vars s) b p \<Longrightarrow> sendable (front_vars s') b p"
  "more_vars s s' \<Longrightarrow> arg_ok (front_vars s) v \<Longrightarrow> arg_ok (front_vars s') v"
  by (auto simp: more_vars_def sendable_def arg_ok_def nth_append split: option.splits py_obj.splits if_splits)

lemma sendable_dict_set: "n \<noteq> fparam_name p \<Longrightarrow> sendable vs (dict_set n v b) p = sendable vs b p"
  by (simp add: sendable_def)

lemma set_input_ok:
  assumes "fparam_typ p = INPUT_LOC" and "arg_ok (front_vars s) v"
  shows "\<exists>b' s'. set_value p v b s = (Inr b', s') \<and> more_vars s s' \<and> sendable (front_vars s') b' p \<and>
    (\<exists>x. b' = dict_set (fparam_name p) x b)"
proof (cases v)
  case (PyObj t j)
  with assms show ?thesis
    by (auto simp: set_value_def alloc_fv_def more_vars_def sendable_def is_output_loc_def)
next
  case (SVar r)
  with assms show ?thesis
    by (auto simp: set_value_def sendable_def is_output_loc_def arg_ok_def)
qed

lemma set_positional_ok:
  assumes "length args = length inputs" and "\<forall>p \<in> set inputs. fparam_typ p = INPUT_LOC"
    and "distinct (map fparam_name inputs)" and "list_all (arg_ok (front_vars s)) args"
  shows "\<exists>b' s'. set_positional inputs args b s = (Inr b', s') \<and> more_vars s s' \<and>
    (\<forall>p \<in> set inputs. sendable (front_vars s') b' p) \<and>
    (\<forall>n. n \<notin> fparam_name ` set inputs \<longrightarrow> map_of b' n = map_of b n)"
  using assms
proof (induction args inputs arbitrary: b s rule: list_induct2)
  case (Cons v vs p inputs)
  obtain b1 s1 x where s1: "set_value p v b s = (Inr b1, s1)" "more_vars s s1" "sendable (front_vars s1) b1 p"
      "b1 = dict_set (fparam_name p) x b"
    using set_input_ok [of p s v b] Cons.prems by auto
  have "list_all (arg_ok (front_vars s1)) vs"
    using Cons.prems(3) more_varsD(2) [OF s1(2)] by (auto simp: list_all_iff)
  then obtain b2 s2 where s2: "set_positional inputs vs b1 s1 = (Inr b2, s2)" "more_vars s1 s2"
      "\<forall>p \<in> set inputs. sendable (front_vars s2) b2 p" "\<forall>n. n \<notin> fparam_name ` set inputs \<longrightarrow> map_of b2 n = map_of b1 n"
    using Cons.IH [of s1 b1] Cons.prems(1,2) by auto
  have "sendable (front_vars s2) b2 p = sendable (front_vars s2) b1 p"
    using s2(4) Cons.prems(2) by (simp add: sendable_def)
  then have "sendable (front_vars s2) b2 p" using more_varsD(1) [OF s2(2) s1(3)] by simp
  with s1 s2 more_vars_trans [OF s1(2) s2(2)] show ?case by auto
qed simp

lemma create_outputs_ok:
  assumes "\<forall>p \<in> set outputs. is_output_loc p \<and> fparam_sampling_config p \<noteq> None \<and> fparam_name p \<notin> fst ` set (call_bindings c)"
    and "distinct (map fparam_name outputs)"
  shows "\<exists>c' s'. create_outputs outputs c s = (Inr c', s') \<and> more_vars s s' \<and>
    (\<forall>p \<in> set outputs. sendable (front_vars s') (call_bindings c') p) \<and>
    (\<forall>n. n \<notin> fparam_name ` set outputs \<longrightarrow> map_of (call_bindings c') n = map_of (call_bindings c) n)"
  using assms
proof (induction outputs arbitrary: c s)
  case (Cons p outputs)
  let ?r = "length (front_vars s)"
  let ?s1 = "s\<lparr>front_vars := front_vars s @ [\<lparr>fv_name = fparam_name p, fv_id = None, fv_content = JNone\<rparr>]\<rparr>"
  let ?c1 = "\<lparr>call_bindings = dict_set (fparam_name p) (SVar ?r) (call_bindings c), call_output_vars = call_output_vars c @ [?r]\<rparr>"
  have p: "fparam_typ p = OUTPUT_LOC" "fparam_name p \<notin> fst ` set (call_bindings c)" "fparam_name p \<notin> fparam_name ` set outputs"
    using Cons.prems by (auto simp: is_output_loc_def)
  have step: "create_outputs (p # outputs) c s = create_outputs outputs ?c1 ?s1"
    using p by (simp add: alloc_fv_def set_value_def py_return_def)
  have "\<forall>q \<in> set outputs. is_output_loc q \<and> fparam_sampling_config q \<noteq> None \<and>
      fparam_name q \<notin> fst ` set (call_bindings ?c1)"
  proof
    fix q
    assume q: "q \<in> set outputs"
    with p(3) have "fparam_name q \<noteq> fparam_name p" by (metis imageI)
    with Cons.prems(1) q show "is_output_loc q \<and> fparam_sampling_config q \<noteq> None \<and> fparam_name q \<notin> fst ` set (call_bindings ?c1)"
      by (simp add: dict_keys_set)
  qed
  then obtain c2 s2 where s2: "create_outputs outputs ?c1 ?s1 = (Inr c2, s2)" "more_vars ?s1 s2"
      "\<forall>p \<in> set outputs. sendable (front_vars s2) (call_bindings c2) p"
      "\<forall>n. n \<notin> fparam_name ` set outputs \<longrightarrow> map_of (call_bindings c2) n = map_of (call_bindings ?c1) n"
    using Cons.IH [of ?c1 ?s1] Cons.prems(2) by auto
  have "sendable (front_vars ?s1) (call_bindings ?c1) p" using Cons.prems(1) by (simp add: sendable_def)
  from more_varsD(1) [OF s2(2) this] have "sendable (front_vars s2) (call_bindings ?c1) p" .
  moreover have "map_of (call_bindings c2) (fparam_name p) = map_of (call_bindings ?c1) (fparam_name p)"
    using s2(4) p(3) by blast
  ultimately have "sendable (front_vars s2) (call_bindings c2) p" by (simp only: sendable_def)
  moreover have "more_vars s s2" using s2(2) by (auto simp: more_vars_def)
  ultimately show ?case using step s2 by auto
qed simp

lemma ordinary_call_sendable:
  assumes "length args = length (inputs_of params)" and "distinct (map fparam_name params)"
    and "\<forall>p \<in> set params. fparam_typ p \<noteq> INPUT_PYOBJ \<and> (is_output_loc p \<longrightarrow> fparam_sampling_config p \<noteq> None)"
    and "list_all (arg_ok (front_vars s)) args"
  shows "\<exists>c s'. new_call params args [] s = (Inr c, s') \<and> more_vars s s' \<and>
    list_all (sendable (front_vars s') (call_bindings c)) params"
proof -
  have ty: "\<forall>p \<in> set (inputs_of params). fparam_typ p = INPUT_LOC"
    using assms(3) by (auto simp: inputs_of_def) (metis param_type.exhaust)
  have dist: "distinct (map fparam_name (inputs_of params))" "distinct (map fparam_name (outputs_of params))"
    using assms(2) by (simp_all add: inputs_of_def outputs_of_def distinct_map_filter)
  have other: "fparam_name p \<noteq> fparam_name q" if "p \<in> set (inputs_of params)" "q \<in> set (outputs_of params)" for p q
    using that assms(2) by (auto simp: inputs_of_def outputs_of_def distinct_map dest: inj_onD)
  obtain b s1 where s1: "set_positional (inputs_of params) args [] s = (Inr b, s1)" "more_vars s s1"
      "\<forall>p \<in> set (inputs_of params). sendable (front_vars s1) b p"
      "\<forall>n. n \<notin> fparam_name ` set (inputs_of params) \<longrightarrow> map_of b n = None"
    using set_positional_ok [OF assms(1) ty dist(1) assms(4), of "[]"] by auto
  let ?c = "\<lparr>call_bindings = b, call_output_vars = []\<rparr>"
  have "fparam_name q \<notin> fst ` set b" if "q \<in> set (outputs_of params)" for q
  proof -
    have "fparam_name q \<notin> fparam_name ` set (inputs_of params)" using other [OF _ that] by (metis imageE)
    with s1(4) show ?thesis by (simp add: key_iff_map_of)
  qed
  then have "\<forall>p \<in> set (outputs_of params). is_output_loc p \<and> fparam_sampling_config p \<noteq> None \<and>
      fparam_name p \<notin> fst ` set (call_bindings ?c)"
    using assms(3) by (auto simp: outputs_of_def is_output_loc_def)
  then obtain c s2 where s2: "create_outputs (outputs_of params) ?c s1 = (Inr c, s2)" "more_vars s1 s2"
      "\<forall>p \<in> set (outputs_of params). sendable (front_vars s2) (call_bindings c) p"
      "\<forall>n. n \<notin> fparam_name ` set (outputs_of params) \<longrightarrow> map_of (call_bindings c) n = map_of b n"
    using create_outputs_ok [of "outputs_of params" ?c s1] dist(2) by auto
  have "sendable (front_vars s2) (call_bindings c) p" if "p \<in> set params" for p
  proof (cases "p \<in> set (outputs_of params)")
    case False
    then have p: "p \<in> set (inputs_of params)" using that by (auto simp: inputs_of_def outputs_of_def)
    then have "map_of (call_bindings c) (fparam_name p) = map_of b (fparam_name p)" using s2(4) other by auto
    moreover have "sendable (front_vars s2) b p" using more_varsD(1) [OF s2(2)] s1(3) p by blast
    ultimately show ?thesis by (simp add: sendable_def)
  qed (use s2(3) in blast)
  with s1 s2 more_vars_trans [OF s1(2) s2(2)] show ?thesis
    by (auto simp: new_call_def list_all_iff)
qed

text \<open>
  What the client means is what the server reads: the call of a function parsed from a template, with
  variables for all its parameters (inputs with an id or a content, outputs without an id), gives a payload
  that the serve core parses to a request whose chunks are the pieces of the function, whose
  metadata are its metadata, and whose parameters are its parameters with the ids and values of their
  variables.
\<close>

definition call_request_of ::
  "semantic_function \<Rightarrow> front_var list \<Rightarrow> bindings \<Rightarrow> chunked_request \<Rightarrow> bool" where
  "call_request_of f vs b r \<longleftrightarrow> body r = map chunk_of (fn_body f) \<and> metadata r = fn_metadata f \<and>
    parameters_map r = map (\<lambda>p. (JStr (fparam_name p), server_parameter vs b p)) (fn_params f)"

lemma semantic_call_arrives:
  assumes f: "new_semantic_function name params (Some t) None kwargs = Inr f"
    and distinct: "distinct (map fparam_name params)"
    and bound: "list_all (sendable (front_vars s) (call_bindings c)) params"
  shows "\<exists>d. semantic_payload lib f c s = (Inr d, s) \<and>
    (\<forall>rid sid n. \<exists>r. parse_from_payload rid sid ((''session_id'', JInt n) # d) = Inr r \<and>
       call_request_of f (front_vars s) (call_bindings c) r)"
proof -
  have parsed: "parse_func_body t (params_map_of params) (fn_metadata f) = Inr (fn_body f)" "fn_params f = params"
    using f by (auto simp: new_semantic_function_def split: sum.splits)
  let ?j = "\<lambda>p. JDict (semantic_param_dict p @ var_dict (front_vars s) (call_bindings c) p)"
  let ?pm = "map (\<lambda>p. (JStr (fparam_name p), server_parameter (front_vars s) (call_bindings c) p)) params"
  let ?d = "semantic_metadata_asdict (fn_metadata f) @ [(''template'', JStr (to_template_str f)),
      (''parameters'', JList (map ?j params)), (''func_name'', JStr (fn_name f))]"
  have pay: "semantic_payload lib f c s = (Inr ?d, s)"
    using payload_loop_sent [OF bound, of lib "to_template_str f" "[]"] parsed(2)
    by (simp add: semantic_payload_def py_return_def)
  have pm: "add_parameters new_semantic_parameter param_name (map ?j params) [] = Inr ?pm"
    using add_parameters_sent [of params new_semantic_parameter ?j _ param_name "[]"] sendable_parameter bound distinct
    by (simp add: list_all_iff server_parameter_def Let_def)
  have "\<exists>r. parse_from_payload rid sid ((''session_id'', JInt n) # ?d) = Inr r \<and>
      call_request_of f (front_vars s) (call_bindings c) r" for rid sid n
  proof -
    have "parse_from_payload rid sid ((''session_id'', JInt n) # ?d) = parse_from_payload rid sid ?d"
      by (rule parse_from_payload_other_key) (simp add: SEMANTIC_METADATA_KEYS_def)
    moreover obtain r where r: "parse_from_payload rid sid ?d = Inr r" "metadata r = fn_metadata f"
        "parameters_map r = ?pm" "body r = server_body (py_truth (remove_pure_fill (fn_metadata f))) (to_template_str f)"
      using parse_from_payload_body [of ?d "to_template_str f" "map ?j params" ?pm "fn_metadata f" rid sid] pm
      by (auto simp: semantic_metadata_asdict_def SEMANTIC_METADATA_KEYS_def)
    moreover have "body r = map chunk_of (fn_body f)"
      using r(4) parsed_body_resent [OF parsed(1) names_ok_params_map] by (simp add: to_template_str_def)
    ultimately show ?thesis using parsed(2) by (auto simp: call_request_of_def)
  qed
  with pay show ?thesis by blast
qed

abbreviation idle_client :: "unit api_client" where
  "idle_client \<equiv> \<lparr>api_net = (\<lambda>_ w. py_raise TimeoutError w), api_pydantic = (\<lambda>_ x. Some x), api_addr = []\<rparr>"

abbreviation ask_params :: "func_param list" where
  "ask_params \<equiv> [\<lparr>fparam_name = ''q'', fparam_typ = INPUT_LOC, fparam_sampling_config = None\<rparr>,
    \<lparr>fparam_name = ''a'', fparam_typ = OUTPUT_LOC, fparam_sampling_config = Some default_sampling_config\<rparr>]"

lemma ask_function:
  "map_sum (\<lambda>e. e) fn_body (new_semantic_function ''ask'' ask_params (Some ''Q: {{q}} A: {{a}} end'') None []) =
    Inr [Constant 0 ''Q: '', ParameterLoc 1 (ask_params ! 0), Constant 2 '' A: '', ParameterLoc 3 (ask_params ! 1)]"
  by code_simp

lemma ask_function_made:
  "\<exists>f. new_semantic_function ''ask'' ask_params (Some ''Q: {{q}} A: {{a}} end'') None [] = Inr f \<and>
    map chunk_of (fn_body f) = [TextChunk 0 ''Q: '', PlaceholderChunk 1 ''q'', TextChunk 2 '' A: '', PlaceholderChunk 3 ''a'']"
  using ask_function by (cases "new_semantic_function ''ask'' ask_params (Some ''Q: {{q}} A: {{a}} end'') None []") auto

section \<open>What does not arrive\<close>

text \<open>Reading the value of a variable changes no id; the parameters of a payload are those bound to variables.\<close>

lemma fv_id_update: "fv_id (vs[r := (vs ! r)\<lparr>fv_content := x\<rparr>] ! q) = fv_id (vs ! q)"
  by (cases "r < length vs"; cases "q = r") (simp_all add: list_update_beyond)

lemma front_get_ids: "front_get lib r crit s = (x, s') \<Longrightarrow> fv_id (fv_at s' q) = fv_id (fv_at s q)"
  by (auto simp: front_get_def get_variable_of_def get_semantic_variable_handler_def vm_api_def py_lift_def py_bind_def
      on_fv_def fv_id_update py_return_def split: if_splits option.splits prod.splits sum.splits)

lemma var_fields_ids: "var_fields lib p r s = (Inr d, s') \<Longrightarrow> fv_id (fv_at s' q) = fv_id (fv_at s q)"
  by (auto simp: var_fields_def py_bind_eq_Inr split: option.splits if_splits dest: front_get_ids [of _ _ _ _ _ _ q])

lemma payload_loop_parameters:
  assumes "semantic_payload_loop lib b params t acc s = (Inr (t', ps), s')"
  shows "\<exists>es. ps = acc @ map (\<lambda>(p, d). JDict (semantic_param_dict p @ d)) es \<and> subseq (map fst es) params \<and>
    (\<forall>p \<in> set params. \<forall>r i. map_of b (fparam_name p) = Some (SVar r) \<longrightarrow> fv_id (fv_at s r) = Some i \<longrightarrow>
       (p, [(''var_id'', JStr i)]) \<in> set es)"
  using assms
proof (induction params arbitrary: t acc s)
  case Nil
  then show ?case by (auto simp: py_return_def intro!: exI [of _ "[]"])
next
  case (Cons p params)
  obtain v where v: "map_of b (fparam_name p) = Some v"
    using Cons.prems by (auto simp: py_bind_eq_Inr dict_get_eq_Inr)
  show ?case
  proof (cases v)
    case (PyObj o1 o2)
    with Cons.prems v have "semantic_payload_loop lib b params (py_replace (get_param_str p) o1 t) acc s = (Inr (t', ps), s')"
      by (auto split: if_splits)
    from Cons.IH [OF this] PyObj v show ?thesis by (auto intro!: list_emb_Cons)
  next
    case (SVar r)
    obtain d s1 where d: "var_fields lib p r s = (Inr d, s1)"
        "semantic_payload_loop lib b params t (acc @ [JDict (semantic_param_dict p @ d)]) s1 = (Inr (t', ps), s')"
      using Cons.prems v SVar by (auto simp: py_bind_eq_Inr split: if_splits)
    obtain es where es: "ps = (acc @ [JDict (semantic_param_dict p @ d)]) @ map (\<lambda>(p, d). JDict (semantic_param_dict p @ d)) es"
        "subseq (map fst es) params"
        "\<forall>p \<in> set params. \<forall>r i. map_of b (fparam_name p) = Some (SVar r) \<longrightarrow> fv_id (fv_at s1 r) = Some i \<longrightarrow>
           (p, [(''var_id'', JStr i)]) \<in> set es"
      using Cons.IH [OF d(2)] by blast
    have "d = [(''var_id'', JStr i)]" if "fv_id (fv_at s r) = Some i" for i
      using d(1) that by (simp add: var_fields_def)
    then show ?thesis
      using es v SVar var_fields_ids [OF d(1)] by (intro exI [of _ "(p, d) # es"]) auto
  qed
qed

text \<open>A list of parameters with different names of which one is refused.\<close>

lemma new_parameter_name:
  "new_semantic_parameter (JDict (semantic_param_dict p @ d)) = Inr q \<Longrightarrow> param_name q = JStr (fparam_name p)"
proof -
  assume new: "new_semantic_parameter (JDict (semantic_param_dict p @ d)) = Inr q"
  have post: "semantic_param_post_init nm out vid v samp = Inr q \<Longrightarrow> param_name q = nm" for nm out vid v samp
    by (auto simp: semantic_param_post_init_def Let_def split: if_splits option.splits)
  have "field_or_none (semantic_param_dict p @ d) ''name'' = JStr (fparam_name p)"
    by (simp add: field_or_none_def semantic_param_dict_def)
  with new show ?thesis by (auto simp: new_semantic_parameter_def split: if_splits dest: post)
qed

lemma add_parameters_refused:
  assumes "distinct (map (fparam_name \<circ> fst) es)" and "\<forall>e \<in> set es. JStr (fparam_name (fst e)) \<notin> fst ` set m"
    and "\<exists>e \<in> set es. \<forall>q. new_semantic_parameter (JDict (semantic_param_dict (fst e) @ snd e)) \<noteq> Inr q"
  shows "add_parameters new_semantic_parameter param_name (map (\<lambda>(p, d). JDict (semantic_param_dict p @ d)) es) m =
    Inl ParrotCoreUserError"
  using assms
proof (induction es arbitrary: m)
  case (Cons e es)
  obtain p d where e: "e = (p, d)" by (cases e)
  show ?case
  proof (cases "new_semantic_parameter (JDict (semantic_param_dict p @ d))")
    case (Inr q)
    have nm: "param_name q = JStr (fparam_name p)" by (rule new_parameter_name [OF Inr])
    have new: "JStr (fparam_name p) \<notin> fst ` set m" using Cons.prems(2) e by simp
    have "\<forall>e' \<in> set es. JStr (fparam_name (fst e')) \<notin> fst ` set (dict_set (param_name q) q m)"
    proof
      fix e'
      assume e': "e' \<in> set es"
      then have "(fparam_name \<circ> fst) e' \<in> set (map (fparam_name \<circ> fst) es)" by simp
      then have "fparam_name (fst e') \<noteq> fparam_name p" using Cons.prems(1) e by (metis comp_apply distinct.simps(2) fst_conv list.simps(9))
      with Cons.prems(2) e' nm show "JStr (fparam_name (fst e')) \<notin> fst ` set (dict_set (param_name q) q m)"
        by (simp add: dict_keys_set)
    qed
    with Cons.IH [of "dict_set (param_name q) q m"] Cons.prems(1,3) e Inr nm new show ?thesis by auto
  qed (simp add: e)
qed simp

lemma distinct_subseq: "subseq xs ys \<Longrightarrow> distinct ys \<Longrightarrow> distinct xs \<and> set xs \<subseteq> set ys"
  by (induction rule: list_emb.induct) auto

lemma preallocated_refused:
  assumes "is_output_loc p"
  shows "new_semantic_parameter (JDict (semantic_param_dict p @ [(''var_id'', JStr i)])) \<noteq> Inr q"
  using assms
  by (cases "fparam_sampling_config p")
    (simp_all add: new_semantic_parameter_def check_keywords_def semantic_param_dict_def field_or_none_def
      semantic_param_post_init_def)

text \<open>
  C34. Preallocated outputs do not work: the comment of \<^verbatim>\<open>__call__\<close> lets the caller pass an output variable
  by keyword, but when this variable has an id the payload names it, and the serve core refuses the whole
  request as an error of the user.
\<close>

theorem preallocated_output_refused:
  assumes "semantic_payload lib f c s = (Inr d, s')" and "distinct (map fparam_name (fn_params f))"
    and "p \<in> set (fn_params f)" and "is_output_loc p"
    and "map_of (call_bindings c) (fparam_name p) = Some (SVar r)" and "fv_id (fv_at s r) = Some i"
  shows "parse_from_payload rid sid ((''session_id'', JInt n) # d) = Inl ParrotCoreUserError"
proof -
  obtain t ps where loop: "semantic_payload_loop lib (call_bindings c) (fn_params f) (to_template_str f) [] s = (Inr (t, ps), s')"
    and d: "d = semantic_metadata_asdict (fn_metadata f) @
      [(''template'', JStr t), (''parameters'', JList ps), (''func_name'', JStr (fn_name f))]"
    using assms(1) by (auto simp: semantic_payload_def py_bind_eq_Inr)
  obtain es where es: "ps = map (\<lambda>(p, d). JDict (semantic_param_dict p @ d)) es" "subseq (map fst es) (fn_params f)"
      "(p, [(''var_id'', JStr i)]) \<in> set es"
    using payload_loop_parameters [OF loop] assms(3,5,6) by auto
  have "distinct (map fparam_name (map fst es))"
    using distinct_subseq [OF subseq_map [OF es(2)] assms(2)] by blast
  then have "add_parameters new_semantic_parameter param_name ps [] = Inl ParrotCoreUserError"
    unfolding es(1) using es(3) preallocated_refused [OF assms(4)]
    by (intro add_parameters_refused) (auto simp: comp_def intro!: bexI [of _ "(p, [(''var_id'', JStr i)])"])
  moreover have "parse_from_payload rid sid ((''session_id'', JInt n) # d) = parse_from_payload rid sid d"
    by (rule parse_from_payload_other_key) (simp add: SEMANTIC_METADATA_KEYS_def)
  ultimately show ?thesis
    by (simp add: d parse_from_payload_def semantic_metadata_asdict_def)
qed

theorem preallocated_output_refused_witness:
  "\<exists>(c :: call) (s :: unit front) d. new_call ask_params [PyObj ''why'' (JStr ''why'')] [(''a'', SVar 0)]
      ((new_front ())\<lparr>front_vars := [\<lparr>fv_name = ''a'', fv_id = Some ''v1'', fv_content = JNone\<rparr>]\<rparr>) = (Inr c, s) \<and>
    parse_from_payload 0 0 ((''session_id'', JInt 5) # d) = Inl ParrotCoreUserError"
proof -
  obtain f where f: "new_semantic_function ''ask'' ask_params (Some ''Q: {{q}} A: {{a}} end'') None [] = Inr f"
      "map chunk_of (fn_body f) = [TextChunk 0 ''Q: '', PlaceholderChunk 1 ''q'', TextChunk 2 '' A: '', PlaceholderChunk 3 ''a'']"
    using ask_function_made by (elim exE conjE)
  have params: "fn_params f = ask_params" using f(1) by (auto simp: new_semantic_function_def split: sum.splits)
  let ?v = "\<lparr>fv_name = ''a'', fv_id = Some ''v1'', fv_content = JNone\<rparr>"
  let ?w = "\<lparr>fv_name = ''q'', fv_id = None, fv_content = JStr ''why''\<rparr>"
  let ?s = "(new_front ())\<lparr>front_vars := [?v, ?w]\<rparr>"
  let ?c = "\<lparr>call_bindings = [(''q'', SVar 1), (''a'', SVar 0)], call_output_vars = []\<rparr>"
  have call: "new_call ask_params [PyObj ''why'' (JStr ''why'')] [(''a'', SVar 0)] ((new_front ())\<lparr>front_vars := [?v]\<rparr>) = (Inr ?c, ?s)"
    by (simp add: new_call_def inputs_of_def outputs_of_def params_map_of_def set_value_def alloc_fv_def py_return_def)
  obtain d where d: "semantic_payload idle_client f ?c ?s = (Inr d, ?s)"
    by (simp add: semantic_payload_def params var_fields_def is_output_loc_def front_get_def front_is_ready_def py_return_def)
  have "is_output_loc (ask_params ! 1)" "ask_params ! 1 \<in> set (fn_params f)" by (simp_all add: is_output_loc_def params)
  with preallocated_output_refused [OF d, of "ask_params ! 1" 0 "''v1''" 0 0 5] call show ?thesis
    by (auto simp: params)
qed

text \<open>
  C35. The timeout of a native function stays on the client: \<^verbatim>\<open>timeout\<close> is a key of the payload and a parameter
  of \<^verbatim>\<open>send_http_request\<close>, so it limits the HTTP request and is not in its body; the request that the serve core
  parses always has the default timeout, while the output criteria arrives.
\<close>

theorem native_timeout_stays:
  assumes "native_payload lib with_code f c s = (Inr payload, s')"
  shows "\<exists>rq. api_submit_py_native_call api sid payload =
      send_loop (api_net api) (api_pydantic api) SubmitPyNativeCallResponse (Some rq) 1 None None \<and>
    http_timeout rq = native_call_metadata.timeout (fn_native_metadata f) \<and>
    (\<forall>r. parse_native_from_payload deserialize rid sid' (http_json rq) = Inr r \<longrightarrow>
       native_call_metadata.timeout (native_metadata r) = JFloat 1 \<and>
       native_output_criteria (native_metadata r) = native_output_criteria (fn_native_metadata f))"
proof -
  obtain rest where pay: "payload = native_metadata_asdict (fn_native_metadata f) @ rest"
      "dict_keys rest = [''parameters'', ''func_name''] @ (if with_code then [''func_code''] else [])"
    using assms by (auto simp: native_payload_def py_bind_eq_Inr)
  have keys: "fst ` set rest = set ([''parameters'', ''func_name''] @ (if with_code then [''func_code''] else []))"
    using arg_cong [OF pay(2), of set] by simp
  let ?md = "fn_native_metadata f"
  let ?body = "(''session_id'', JInt sid) # (''output_criteria'', native_output_criteria ?md) # rest"
  let ?rq = "\<lparr>http_method = ''POST'', http_url = api_addr api @ public_url ''/py_native_call'', http_json = ?body,
      http_timeout = native_call_metadata.timeout ?md\<rparr>"
  have none: "map_of rest ''method'' = None" "map_of rest ''timeout'' = None" "map_of rest ''output_criteria'' = None"
    by (simp_all add: map_of_eq_None_iff keys)
  have "call_keywords [(''session_id'', JInt sid)] payload = Inr ((''session_id'', JInt sid) # payload)"
    by (rule call_keywords_session) (simp add: pay(1) keys native_metadata_asdict_def send_positional_def)
  moreover have "bind_request (api_addr api @ public_url ''/py_native_call'') ((''session_id'', JInt sid) # payload) = Some ?rq"
    using none by (simp add: pay(1) native_metadata_asdict_def bind_request_def bind_method_def field_or_none_def
        dict_pop_absent keys)
  ultimately have "api_submit_py_native_call api sid payload =
      send_loop (api_net api) (api_pydantic api) SubmitPyNativeCallResponse (Some ?rq) 1 None None"
    by (intro ext) (simp add: api_submit_py_native_call_def api_send_def with_keywords_def send_http_request_def)
  moreover have "native_metadata r = \<lparr>timeout = JFloat 1, native_output_criteria = native_output_criteria ?md\<rparr>"
    if "parse_native_from_payload deserialize rid sid' ?body = Inr r" for r
  proof -
    have "override_metadata NATIVE_METADATA_KEYS ?body native_default_dict =
        [(''timeout'', JFloat 1), (''output_criteria'', native_output_criteria ?md)]"
      using none by (simp add: override_metadata_def NATIVE_METADATA_KEYS_def native_default_dict_def)
    with that show ?thesis
      by (auto simp: parse_native_from_payload_def Let_def native_metadata_of_dict_def field_or_none_def
          split: option.splits if_splits sum.splits)
  qed
  ultimately show ?thesis by (intro exI [of _ ?rq]) auto
qed

abbreviation slow_function :: native_function where
  "slow_function \<equiv> \<lparr>fn_name = ''slow'', fn_params = [\<lparr>fparam_name = ''x'', fparam_typ = INPUT_LOC, fparam_sampling_config = None\<rparr>],
    fn_code = ''AAAA'', fn_native_metadata = \<lparr>timeout = JInt 60, native_output_criteria = JNone\<rparr>\<rparr>"

theorem native_timeout_stays_witness:
  "\<exists>rq. api_submit_py_native_call idle_client 3
      [(''timeout'', JInt 60), (''output_criteria'', JNone),
       (''parameters'', JList [JDict [(''name'', JStr ''x''), (''is_output'', JBool False), (''value'', JStr ''1'')]]),
       (''func_name'', JStr ''slow''), (''func_code'', JStr ''AAAA'')] =
      send_loop (api_net idle_client) (api_pydantic idle_client) SubmitPyNativeCallResponse (Some rq) 1 None None \<and>
    http_timeout rq = JInt 60 \<and>
    (\<forall>r. parse_native_from_payload Inr 0 3 (http_json rq) = Inr r \<longrightarrow> native_call_metadata.timeout (native_metadata r) = JFloat 1)"
proof -
  let ?s = "(new_front ())\<lparr>front_vars := [\<lparr>fv_name = ''x'', fv_id = None, fv_content = JStr ''1''\<rparr>]\<rparr>"
  have "native_payload idle_client True slow_function \<lparr>call_bindings = [(''x'', SVar 0)], call_output_vars = []\<rparr> ?s =
      (Inr [(''timeout'', JInt 60), (''output_criteria'', JNone),
         (''parameters'', JList [JDict [(''name'', JStr ''x''), (''is_output'', JBool False), (''value'', JStr ''1'')]]),
         (''func_name'', JStr ''slow''), (''func_code'', JStr ''AAAA'')], ?s)"
    by (simp add: native_payload_def var_fields_def front_get_def front_is_ready_def is_output_loc_def py_return_def
        native_metadata_asdict_def)
  from native_timeout_stays [OF this, of idle_client 3 Inr 0 3] show ?thesis by auto
qed

text \<open>
  The text of a Python object is pasted into the template: braces in it are placeholders for the server.
\<close>

lemma object_text_becomes_placeholder:
  "map_sum (\<lambda>e. e) (\<lambda>f. server_body True (py_replace ''{{x}}'' ''see {{a}}'' (to_template_str f)))
     (new_semantic_function ''f''
       [\<lparr>fparam_name = ''x'', fparam_typ = INPUT_PYOBJ, fparam_sampling_config = None\<rparr>, ask_params ! 1]
       (Some ''X: {{x}}. A: {{a}}'') None []) =
   Inr [TextChunk 0 ''X: see '', PlaceholderChunk 1 ''a'', TextChunk 2 ''. A: '', PlaceholderChunk 3 ''a'']"
  by code_simp

end
