(* ===== verification/Core_Server.thy ===== *)
theory Core_Server
  imports Serve_Core Frontend_Requests
begin

text \<open>
  The public routes of \<^verbatim>\<open>serve/http_server.py\<close> over the serve core, and the client of \<^verbatim>\<open>Http_Client\<close> against
  them. What belongs to FastAPI is a parameter, \<open>web_framework\<close>: the conversion of a path parameter to an
  integer, the response to a request without a route or with a bad path parameter, and the response to an
  exception without a handler. The environment variable that switches the simulated latency is an argument.
\<close>

section \<open>Routes\<close>

record web_framework =
  path_int :: "string \<Rightarrow> int option"
  not_found :: "string \<Rightarrow> string \<Rightarrow> http_response"
  unhandled :: http_response
  error_repr :: "py_error \<Rightarrow> string"
  error_traceback :: "py_error \<Rightarrow> string"
  exception_as_json :: json

text \<open>A path of the API with one parameter at its end, which has no slash.\<close>

definition path_arg :: "string \<Rightarrow> string \<Rightarrow> string option" where
  "path_arg pre path =
    (if prefix pre path \<and> drop (length pre) path \<noteq> [] \<and> CHR ''/'' \<notin> set (drop (length pre) path)
     then Some (drop (length pre) path) else None)"

datatype route =
    PostSession | DeleteSession int | GetSessionInfo int
  | PostSemanticCall | PostPyNativeCall
  | PostVariable | PostVariableContent string | GetVariableContent string | GetVariableList

definition find_route :: "web_framework \<Rightarrow> string \<Rightarrow> string \<Rightarrow> route option" where
  "find_route fw m path =
    (if m = ''POST'' then
       (if path = public_url ''/session'' then Some PostSession
        else if path = public_url ''/semantic_call'' then Some PostSemanticCall
        else if path = public_url ''/py_native_call'' then Some PostPyNativeCall
        else if path = public_url ''/semantic_var'' then Some PostVariable
        else map_option PostVariableContent (path_arg (public_url ''/semantic_var/'') path))
     else if m = ''DELETE'' then
       (case path_arg (public_url ''/session/'') path of
          Some x \<Rightarrow> map_option DeleteSession (path_int fw x)
        | None \<Rightarrow> None)
     else if m = ''GET'' then
       (if path = public_url ''/semantic_var'' then Some GetVariableList
        else case path_arg (public_url ''/session/'') path of
               Some x \<Rightarrow> map_option GetSessionInfo (path_int fw x)
             | None \<Rightarrow> map_option GetVariableContent (path_arg (public_url ''/semantic_var/'') path))
     else None)"

section \<open>Responses\<close>

definition ok_response :: "json \<Rightarrow> http_response" where
  "ok_response j = \<lparr>status_code = 200, resp_json = Inr j\<rparr>"

fun info_json :: "param_info \<Rightarrow> json" where
  "info_json i = JDict [(''parameter_name'', info_parameter_name i), (''is_output'', info_is_output i),
     (''var_name'', info_var_name i), (''var_id'', JStr (info_var_id i))]"

fun reply_json :: "core_reply \<Rightarrow> json" where
  "reply_json (EngineId n) = JDict [(''engine_id'', JInt n)]"
| "reply_json (SessionId n) = JDict [(''session_id'', JInt n), (''session_auth'', JStr ''1'')]"
| "reply_json Accepted = JDict []"
| "reply_json (Submitted rid infos) = JDict [(''request_id'', JInt rid), (''param_info'', JList (map info_json infos))]"
| "reply_json (VarId v) = JDict [(''var_id'', JStr v)]"
| "reply_json (AwaitVar v) = JDict []"

text \<open>The exception handlers of the application: an error of the user is answered in JSON, others are unhandled.\<close>

definition error_response :: "web_framework \<Rightarrow> py_error \<Rightarrow> http_response" where
  "error_response fw e =
    (if e = ParrotCoreUserError
     then \<lparr>status_code = 500,
           resp_json = Inr (JDict [(''error'', JStr (error_repr fw e)), (''traceback'', JStr (error_traceback fw e))])\<rparr>
     else unhandled fw)"

definition respond :: "web_framework \<Rightarrow> (json, 's) py \<Rightarrow> (http_response, 's) py" where
  "respond fw r = (case r of (Inl e, s) \<Rightarrow> py_return (error_response fw e) s | (Inr j, s) \<Rightarrow> py_return (ok_response j) s)"

section \<open>The handlers\<close>

text \<open>
  The steps of \<^verbatim>\<open>submit_semantic_call\<close> before the core: the setting of the latency. \<^verbatim>\<open>int\<close> of a string
  allows spaces around, a sign, leading zeros and single underscores between digits; a value that is no number, or neither 0
  nor 1, makes the handler return the exception.
\<close>

definition py_space :: "char \<Rightarrow> bool" where
  "py_space c \<longleftrightarrow> (let n = (of_char c :: nat) in 9 \<le> n \<and> n \<le> 13 \<or> 28 \<le> n \<and> n \<le> 32 \<or> n = 133 \<or> n = 160)"

definition py_strip :: "string \<Rightarrow> string" where
  "py_strip t = rev (dropWhile py_space (rev (dropWhile py_space t)))"

fun digits_value :: "nat \<Rightarrow> bool \<Rightarrow> string \<Rightarrow> nat option" where
  "digits_value n after_digit [] = (if after_digit then Some n else None)"
| "digits_value n after_digit (c # cs) =
    (if in_range (CHR ''0'') (CHR ''9'') c then digits_value (10 * n + (of_char c - 48)) True cs
     else if c = CHR ''_'' \<and> after_digit then digits_value n False cs
     else None)"

definition py_int :: "string \<Rightarrow> int option" where
  "py_int t =
    (case py_strip t of
       [] \<Rightarrow> None
     | c # cs \<Rightarrow>
         if c = CHR ''-'' then map_option (\<lambda>n. - int n) (digits_value 0 False cs)
         else if c = CHR ''+'' then map_option int (digits_value 0 False cs)
         else map_option int (digits_value 0 False (c # cs)))"

definition latency_setting :: "string option \<Rightarrow> py_error + bool option" where
  "latency_setting env_var =
    (case env_var of
       None \<Rightarrow> Inl AssertionError
     | Some v \<Rightarrow>
         (case py_int v of
            None \<Rightarrow> Inr None
          | Some n \<Rightarrow> if n = 0 then Inr (Some False) else if n = 1 then Inr (Some True) else Inr None))"

lemma latency_settings:
  "latency_setting (Some ''0'') = Inr (Some False)" "latency_setting (Some '' +0_1 '') = Inr (Some True)"
  "latency_setting (Some ''00'') = Inr (Some False)" "latency_setting (Some ''2'') = Inr None" "latency_setting (Some ''1_'') = Inr None"
  by code_simp+

definition core_reply_of :: "('u, 'code, 'tok) environment \<Rightarrow> int \<Rightarrow> 'u core_request \<Rightarrow> ('u, 'code, 'tok) serve_core \<Rightarrow>
    (json, ('u, 'code, 'tok) serve_core) pyo" where
  "core_reply_of env now rq s = pyo_bind (core_call env now rq s) (\<lambda>r s. Some (py_return (reply_json r) s))"

text \<open>
  A handler calls the core and returns its reply. \<open>u\<close> is the UUID that a new session draws. Getting a variable
  waits for it: the request that is not ready yet is not answered here (\<open>None\<close>).
\<close>

definition handle_route ::
  "web_framework \<Rightarrow> ('u, 'code, 'tok) environment \<Rightarrow> int \<Rightarrow> 'u \<Rightarrow> string option \<Rightarrow> (string, json) dict \<Rightarrow> route \<Rightarrow>
   ('u, 'code, 'tok) serve_core \<Rightarrow> (json, ('u, 'code, 'tok) serve_core) pyo" where
  "handle_route fw env now u latency payload rt s =
    (case rt of
       PostSession \<Rightarrow> core_reply_of env now (RegisterSession u) s
     | DeleteSession sid \<Rightarrow> core_reply_of env now (RemoveSession sid) s
     | GetSessionInfo sid \<Rightarrow> Some (py_raise NotImplementedError s)
     | PostSemanticCall \<Rightarrow>
         (case latency_setting latency of
            Inl e \<Rightarrow> Some (py_raise e s)
          | Inr None \<Rightarrow> Some (py_return (exception_as_json fw) s)
          | Inr (Some b) \<Rightarrow> core_reply_of env now (SubmitSemanticCall payload) s)
     | PostPyNativeCall \<Rightarrow> core_reply_of env now (SubmitPyNativeCall payload) s
     | PostVariable \<Rightarrow> core_reply_of env now (RegisterVariable payload) s
     | PostVariableContent vid \<Rightarrow> core_reply_of env now (SetVariable vid payload) s
     | GetVariableContent vid \<Rightarrow>
         pyo_bind (core_call env now (GetVariable vid payload) s) (\<lambda>r s.
           case r of
             AwaitVar v \<Rightarrow>
               pyo_bind (get_semantic_variable_rest v s) (\<lambda>x s. Some (py_return (JDict [(''content'', x)]) s))
           | _ \<Rightarrow> Some (py_return (reply_json r) s))
     | GetVariableList \<Rightarrow> Some (py_raise NotImplementedError s))"

definition serve_http ::
  "web_framework \<Rightarrow> ('u, 'code, 'tok) environment \<Rightarrow> int \<Rightarrow> 'u \<Rightarrow> string option \<Rightarrow> string \<Rightarrow> http_request \<Rightarrow>
   ('u, 'code, 'tok) serve_core \<Rightarrow> (http_response, ('u, 'code, 'tok) serve_core) pyo" where
  "serve_http fw env now u latency path rq s =
    (case find_route fw (http_method rq) path of
       None \<Rightarrow> Some (py_return (not_found fw (http_method rq) path) s)
     | Some rt \<Rightarrow> map_option (respond fw) (handle_route fw env now u latency (http_json rq) rt s))"

text \<open>
  The network that carries the requests of a client to this server. \<open>None\<close> is a request that is not answered while the server is
  in this state (it waits for a variable); then nothing is said of what the client sees.
\<close>

definition core_network ::
  "web_framework \<Rightarrow> ('u, 'code, 'tok) environment \<Rightarrow> int \<Rightarrow> 'u \<Rightarrow> string option \<Rightarrow> string \<Rightarrow>
   http_request \<Rightarrow> ('u, 'code, 'tok) serve_core \<Rightarrow> (http_response, ('u, 'code, 'tok) serve_core) pyo" where
  "core_network fw env now u latency addr rq s = serve_http fw env now u latency (drop (length addr) (http_url rq)) rq s"

text \<open>A client talks to this server when its network gives it every answer of the server.\<close>

definition carries :: "(http_request \<Rightarrow> 's \<Rightarrow> (http_response, 's) pyo) \<Rightarrow> 's network \<Rightarrow> bool" where
  "carries server net \<longleftrightarrow> (\<forall>rq s r. server rq s = Some r \<longrightarrow> net rq s = r)"

lemma carriesD: "carries server net \<Longrightarrow> server rq s = Some r \<Longrightarrow> net rq s = r"
  by (simp add: carries_def del: split_paired_All)

section \<open>The client against the server\<close>

text \<open>
  What is documented of the libraries: pydantic keeps a value of the right type; the response to an unhandled
  exception is plain text with status 500, and its \<^verbatim>\<open>json()\<close> raises a \<^verbatim>\<open>ValueError\<close>; a missing route is an error
  status.
\<close>

definition pydantic_exact :: "pydantic \<Rightarrow> bool" where
  "pydantic_exact coerce \<longleftrightarrow> (\<forall>n. coerce IntField (JInt n) = Some (JInt n)) \<and> (\<forall>t. coerce StrField (JStr t) = Some (JStr t)) \<and>
    (\<forall>xs. coerce ListField (JList xs) = Some (JList xs))"

definition framework_ok :: "web_framework \<Rightarrow> bool" where
  "framework_ok fw \<longleftrightarrow> status_code (unhandled fw) = 500 \<and> resp_json (unhandled fw) = Inl ValueError \<and>
    (\<forall>m p. 400 \<le> status_code (not_found fw m p))"

text \<open>The exception that the client raises for an exception of the core.\<close>

definition client_error :: "py_error \<Rightarrow> py_error" where
  "client_error e = (if e = ParrotCoreUserError then RuntimeError else ValueError)"

lemma routes [simp]:
  "find_route fw ''POST'' (public_url ''/session'') = Some PostSession"
  "find_route fw ''POST'' (public_url ''/semantic_call'') = Some PostSemanticCall"
  "find_route fw ''POST'' (public_url ''/py_native_call'') = Some PostPyNativeCall"
  "find_route fw ''POST'' (public_url ''/semantic_var'') = Some PostVariable"
  "find_route fw ''GET'' (public_url ''/semantic_var'') = Some GetVariableList"
  "find_route fw ''POST'' (public_url ''/submit_py_native_call'') = None"
  by (simp_all add: find_route_def public_url_def API_VERSION_def path_arg_def)

lemma send_error:
  assumes "framework_ok fw" and "net rq w = py_return (error_response fw e) w'"
  shows "send_loop net coerce cls (Some rq) (Suc 0) None None w = py_raise (client_error e) w'"
  using assms
  by (auto simp: framework_ok_def error_response_def client_error_def server_error_def py_return_def)

lemma pyo_bind_returns:
  "pyo_bind r f = Some (Inr y, t) \<longleftrightarrow> (\<exists>x s. r = Some (Inr x, s) \<and> f x s = Some (Inr y, t))"
  by (cases r) (auto simp: pyo_bind_def py_raise_def split: sum.splits)

lemma core_submit_reply:
  assumes "core_call env now (if native then SubmitPyNativeCall p else SubmitSemanticCall p) s = Some (Inr x, s')"
  obtains i infos where "x = Submitted i infos"
proof -
  have "core_submit_call env now p native s = Some (Inr x, s')" using assms by (auto simp: core_call_def split: if_splits)
  then have "\<exists>i infos. x = Submitted i infos"
    by (auto simp: core_submit_call_def pyo_bind_returns)
  with that show thesis by blast
qed

text \<open>What a client gets back for a submitted call.\<close>

definition submit_outcome :: "(core_reply, 's) py \<Rightarrow> ((string, json) dict, 's) py" where
  "submit_outcome r =
    (case r of
       (Inl e, s') \<Rightarrow> py_raise (client_error e) s'
     | (Inr x, s') \<Rightarrow> (case reply_json x of JDict d \<Rightarrow> py_return d s' | _ \<Rightarrow> py_raise AttributeError s'))"

lemma send_submit:
  assumes ok: "framework_ok fw" "pydantic_exact coerce"
    and cls: "cls = [(''request_id'', IntField, None), (''param_info'', ListField, None)]"
    and rq: "rq = (if native then SubmitPyNativeCall d else SubmitSemanticCall d)"
    and net: "map_option (respond fw) (core_reply_of env now rq s) = Some (net hrq s)" and Some: "core_call env now rq s = Some r"
  shows "send_loop net coerce cls (Some hrq) (Suc 0) None None s = submit_outcome r"
proof -
  obtain x s' where r: "r = (x, s')" by (cases r)
  show ?thesis
  proof (cases x)
    case (Inl e)
    with Some r net have "net hrq s = py_return (error_response fw e) s'"
      by (simp add: core_reply_of_def respond_def)
    from send_error [OF ok(1), of net hrq s e s', OF this] show ?thesis by (simp add: r Inl submit_outcome_def)
  next
    case (Inr y)
    then have "core_call env now (if native then SubmitPyNativeCall d else SubmitSemanticCall d) s = Some (Inr y, s')"
      using Some r rq by simp
    then obtain i infos where y: "y = Submitted i infos" by (rule core_submit_reply)
    with Some r Inr net have "net hrq s = py_return (ok_response (reply_json y)) s'"
      by (simp add: core_reply_of_def respond_def py_return_def)
    moreover have "make_response coerce cls (ok_response (reply_json y)) =
        Inr [(''request_id'', JInt i), (''param_info'', JList (map info_json infos))]"
      using ok(2) by (simp add: y cls ok_response_def make_response_def pydantic_exact_def)
    moreover have "status_code (ok_response (reply_json y)) = 200" by (simp add: ok_response_def)
    ultimately have "send_loop net coerce cls (Some hrq) (Suc 0) None None s =
        py_return [(''request_id'', JInt i), (''param_info'', JList (map info_json infos))] s'"
      by (simp add: py_return_def)
    then show ?thesis by (simp add: r Inr y submit_outcome_def)
  qed
qed

text \<open>
  C3. A semantic call end to end. The client cuts the template of a function, sends the printed pieces and the
  bindings over HTTP, and the serve core parses the payload to the pieces, the metadata and the
  parameters of that very function, with the ids and values of the variables; what the call gets back is
  the reply of the core to this payload, or, for an exception of the core, a \<^verbatim>\<open>RuntimeError\<close> if it is an
  error of the user and the failed decoding of the response otherwise.
\<close>

theorem semantic_call_through_http:
  assumes f: "new_semantic_function name params (Some t) None kwargs = Inr f"
    and distinct: "distinct (map fparam_name params)"
    and bound: "list_all (sendable (front_vars s) (call_bindings c)) params"
    and libs: "framework_ok fw" "pydantic_exact (api_pydantic lib)"
    and net: "carries (core_network fw env now u (Some ''0'') (core_http_addr (vm_at s k))) (api_net lib)"
  shows "\<exists>d. map_of d ''session_id'' = Some (JInt (vm_session_id (vm_at s k))) \<and>
    (\<forall>rid sid. \<exists>r. parse_from_payload rid sid d = Inr r \<and> call_request_of f (front_vars s) (call_bindings c) r) \<and>
    (\<forall>r. core_call env now (SubmitSemanticCall d) (world s) = Some r \<longrightarrow>
      submit_semantic_call_handler lib k f c s =
        py_bind (py_lift (\<lambda>w. s\<lparr>world := w\<rparr>) (submit_outcome r)) (\<lambda>resp s. py_return (response_infos resp) s))"
proof -
  obtain d where d: "semantic_payload lib f c s = (Inr d, s)"
      "\<forall>rid sid n. \<exists>r. parse_from_payload rid sid ((''session_id'', JInt n) # d) = Inr r \<and>
         call_request_of f (front_vars s) (call_bindings c) r"
    using semantic_call_arrives [OF f distinct bound] by blast
  let ?addr = "core_http_addr (vm_at s k)"
  let ?d = "(''session_id'', JInt (vm_session_id (vm_at s k))) # d"
  let ?hrq = "sent_request ?addr (public_url ''/semantic_call'') ?d"
  have server: "core_network fw env now u (Some ''0'') ?addr ?hrq w = map_option (respond fw) (core_reply_of env now (SubmitSemanticCall ?d) w)" for w
    by (simp add: core_network_def sent_request_def serve_http_def handle_route_def latency_settings(1))
  have "send_loop (api_net lib) (api_pydantic lib) SubmitSemanticCallResponse (Some ?hrq) (Suc 0) None None (world s) = submit_outcome r"
    if r: "core_call env now (SubmitSemanticCall ?d) (world s) = Some r" for r
  proof (rule send_submit [OF libs, where native = False and d = ?d])
    obtain a where a: "map_option (respond fw) (core_reply_of env now (SubmitSemanticCall ?d) (world s)) = Some a"
      using r by (cases r; cases "fst r") (auto simp: core_reply_of_def)
    with carriesD [OF net, of ?hrq "world s" a] server
    show "map_option (respond fw) (core_reply_of env now (SubmitSemanticCall ?d) (world s)) = Some (api_net lib ?hrq (world s))"
      by simp
  qed (use r in \<open>simp_all add: SubmitSemanticCallResponse_def\<close>)
  with submit_semantic_sends [OF d(1), of k] d(2) show ?thesis
    by (intro exI [of _ ?d]) (auto simp: vm_api_def)
qed

abbreviation demo_framework :: web_framework where
  "demo_framework \<equiv>
    \<lparr>path_int = (\<lambda>_. None), not_found = (\<lambda>_ _. \<lparr>status_code = 404, resp_json = Inr (JDict [(''detail'', JStr ''Not Found'')])\<rparr>),
     unhandled = \<lparr>status_code = 500, resp_json = Inl ValueError\<rparr>, error_repr = (\<lambda>_. ''ParrotError''), error_traceback = (\<lambda>_. []),
     exception_as_json = JDict []\<rparr>"

abbreviation core_client :: "('u, 'code, 'tok) environment \<Rightarrow> 'u \<Rightarrow> ('u, 'code, 'tok) serve_core api_client" where
  "core_client env u \<equiv>
    \<lparr>api_net = (\<lambda>rq s. case core_network demo_framework env 0 u (Some ''0'') ''http://core'' rq s of Some r \<Rightarrow> r | None \<Rightarrow> (Inl TimeoutError, s)), api_pydantic = (\<lambda>_ x. Some x), api_addr = []\<rparr>"

abbreviation fresh_client :: "'u \<Rightarrow> ('u, 'code, 'tok) serve_core front" where
  "fresh_client u \<equiv> (new_front (new_serve_core u default_scheduler_config 600 600 600))\<lparr>vms := [new_virtual_machine ''http://core'']\<rparr>"

text \<open>A call by a virtual machine that has no session: the core refuses it, and the client raises a \<^verbatim>\<open>RuntimeError\<close>.\<close>

theorem semantic_call_through_http_witness:
  "\<forall>env :: (unit, unit, unit) environment. \<exists>f c s.
    new_semantic_function ''ask'' ask_params (Some ''Q: {{q}} A: {{a}} end'') None [] = Inr f \<and>
    new_call ask_params [PyObj ''why'' (JStr ''why'')] [] (fresh_client ()) = (Inr c, s) \<and>
    submit_semantic_call_handler (core_client env ()) 0 f c s = (Inl RuntimeError, s)"
proof
  fix env :: "(unit, unit, unit) environment"
  obtain f where f: "new_semantic_function ''ask'' ask_params (Some ''Q: {{q}} A: {{a}} end'') None [] = Inr f"
      "map chunk_of (fn_body f) = [TextChunk 0 ''Q: '', PlaceholderChunk 1 ''q'', TextChunk 2 '' A: '', PlaceholderChunk 3 ''a'']"
    using ask_function_made by (elim exE conjE)
  have params: "length [PyObj ''why'' (JStr ''why'')] = length (inputs_of ask_params)" "distinct (map fparam_name ask_params)"
      "\<forall>p \<in> set ask_params. fparam_typ p \<noteq> INPUT_PYOBJ \<and> (is_output_loc p \<longrightarrow> fparam_sampling_config p \<noteq> None)"
      "list_all (arg_ok (front_vars (fresh_client () :: (unit, unit, unit) serve_core front))) [PyObj ''why'' (JStr ''why'')]"
    by (simp_all add: inputs_of_def arg_ok_def is_output_loc_def)
  obtain c and s :: "(unit, unit, unit) serve_core front" where c: "new_call ask_params [PyObj ''why'' (JStr ''why'')] [] (fresh_client ()) = (Inr c, s)"
      "more_vars (fresh_client ()) s" "list_all (sendable (front_vars s) (call_bindings c)) ask_params"
    using ordinary_call_sendable [OF params] by blast
  have s: "vm_at s 0 = new_virtual_machine ''http://core''" "world s = new_serve_core () default_scheduler_config 600 600 600"
    using c(2) by (auto simp: more_vars_def new_front_def)
  have libs: "framework_ok demo_framework" "pydantic_exact (api_pydantic (core_client env ()))"
    by (simp_all add: framework_ok_def pydantic_exact_def)
  have net: "carries (core_network demo_framework env 0 () (Some ''0'') (core_http_addr (vm_at s 0))) (api_net (core_client env ()))"
    by (simp add: s new_virtual_machine_def carries_def)
  from semantic_call_through_http [OF f(1) params(2) c(3) libs net]
  obtain d where d: "map_of d ''session_id'' = Some (JInt (-1))"
      "\<And>r. core_call env 0 (SubmitSemanticCall d) (world s) = Some r \<Longrightarrow> submit_semantic_call_handler (core_client env ()) 0 f c s =
        py_bind (py_lift (\<lambda>w. s\<lparr>world := w\<rparr>) (submit_outcome r)) (\<lambda>resp s. py_return (response_infos resp) s)"
    using s(1) by (auto simp: new_virtual_machine_def NONE_SESSION_ID_def)
  have call: "core_call env 0 (SubmitSemanticCall d) (world s) = Some (Inl ParrotCoreUserError, world s)"
    using d(1) by (simp add: core_call_def core_submit_call_def check_session_status_def int_key_def s(2) new_serve_core_def py_raise_def)
  have "submit_semantic_call_handler (core_client env ()) 0 f c s = (Inl RuntimeError, s)"
    unfolding d(2) [OF call] by (simp add: submit_outcome_def client_error_def py_raise_def)
  with f c show "\<exists>f c s. new_semantic_function ''ask'' ask_params (Some ''Q: {{q}} A: {{a}} end'') None [] = Inr f \<and>
      new_call ask_params [PyObj ''why'' (JStr ''why'')] [] (fresh_client ()) = (Inr c, s) \<and>
      submit_semantic_call_handler (core_client env ()) 0 f c s = (Inl RuntimeError, s)"
    by blast
qed

text \<open>
  The coroutine that submits a native call posts to \<^verbatim>\<open>/v1/submit_py_native_call\<close>, which no route has: it always
  raises and the core never sees the call.
\<close>

lemma native_payload_keys:
  "native_payload lib with_code f c s = (Inr payload, s') \<Longrightarrow>
    dict_keys payload = [''timeout'', ''output_criteria'', ''parameters'', ''func_name''] @ (if with_code then [''func_code''] else [])"
  by (auto simp: native_payload_def py_bind_eq_Inr native_metadata_asdict_def)

lemma async_native_has_no_route:
  assumes "framework_ok fw" and "carries (core_network fw env now u latency (core_http_addr (vm_at s' k))) (api_net lib)"
    and "native_payload lib True f c s = (Inr payload, s')"
  shows "asubmit_py_native_call_handler lib k f c s = (Inl AssertionError, s')"
proof -
  have keys: "fst ` set payload = {''timeout'', ''output_criteria'', ''parameters'', ''func_name'', ''func_code''}"
    using arg_cong [OF native_payload_keys [OF assms(3)], of set] by auto
  let ?lib = "lib\<lparr>api_addr := core_http_addr (vm_at s' k)\<rparr>"
  let ?kw = "(''retry_times'', JInt 1) # (''session_id'', JInt (vm_session_id (vm_at s' k))) # payload"
  have kw: "call_keywords [(''retry_times'', JInt 1), (''session_id'', JInt (vm_session_id (vm_at s' k)))] payload = Inr ?kw"
    using keys by (auto simp: call_keywords_def list_ex_iff send_positional_def)
  have "bind_request url ?kw = Some \<lparr>http_method = ''POST'', http_url = url,
      http_json = dict_pop ''method'' (dict_pop ''timeout'' ?kw), http_timeout = field_or_none ?kw ''timeout''\<rparr>" for url
    using keys by (simp add: bind_request_def bind_method_def map_of_eq_None_iff [THEN iffD2])
  moreover have "\<not> status_code (not_found fw ''POST'' (public_url ''/submit_py_native_call'')) < 400"
    using assms(1) by (simp add: framework_ok_def not_less)
  moreover have "api_net lib rq w = py_return (not_found fw ''POST'' (public_url ''/submit_py_native_call'')) w"
    if "http_method rq = ''POST''" "http_url rq = core_http_addr (vm_at s' k) @ public_url ''/submit_py_native_call''" for rq w
    by (rule carriesD [OF assms(2)]) (use that in \<open>simp add: core_network_def serve_http_def\<close>)
  ultimately have "async_send_http_request (api_net lib) (api_pydantic lib) SubmitPyNativeCallResponse (core_http_addr (vm_at s' k))
      (public_url ''/submit_py_native_call'') ?kw w = py_raise AssertionError w" for w
    by (simp add: async_send_http_request_def)
  with kw have "api_asubmit_py_native_call ?lib (vm_session_id (vm_at s' k)) payload w = py_raise AssertionError w" for w
    using keys by (simp add: api_asubmit_py_native_call_def api_asend_def with_keywords_def)
  with assms(3) show ?thesis
    by (simp add: asubmit_py_native_call_handler_def vm_api_def py_raise_def)
qed

end
