(* ===== verification/Frontend_Transforms.thy ===== *)
theory Frontend_Transforms
  imports Frontend_Function
begin

text \<open>
  The transforms of semantic functions under \<^verbatim>\<open>frontend/pfunc/transforms\<close>: \<^verbatim>\<open>func_mutator.py\<close>, the formatters of
  \<^verbatim>\<open>prompt_formatter.py\<close>, \<^verbatim>\<open>sequential.py\<close> and the chat templates of \<^verbatim>\<open>conversation_template.py\<close>. The lemmas show
  that they rewrite the texts of a prompt and leave its placeholders, also in the eyes of the server.
\<close>

section \<open>Mutators\<close>

text \<open>The methods that a subclass of \<^verbatim>\<open>FuncMutator\<close> provides.\<close>

record mutator =
  visit_constant :: "string \<Rightarrow> string"
  visit_parameter :: "func_param \<Rightarrow> func_param"
  visit_func :: "semantic_function \<Rightarrow> py_error + semantic_function"

definition param_remap :: "mutator \<Rightarrow> func_param list \<Rightarrow> (string, func_param) dict" where
  "param_remap m params = foldl (\<lambda>d p. dict_set (fparam_name p) (visit_parameter m p) d) [] params"

fun visit_body_piece :: "mutator \<Rightarrow> (string, func_param) dict \<Rightarrow> func_piece \<Rightarrow> py_error + func_piece" where
  "visit_body_piece m remap (Constant i t) = Inr (Constant i (visit_constant m t))"
| "visit_body_piece m remap (ParameterLoc i p) =
    (case map_of remap (fparam_name p) of None \<Rightarrow> Inl KeyError | Some q \<Rightarrow> Inr (ParameterLoc i q))"

fun visit_body :: "mutator \<Rightarrow> (string, func_param) dict \<Rightarrow> func_piece list \<Rightarrow> py_error + func_piece list" where
  "visit_body m remap [] = Inr []"
| "visit_body m remap (p # ps) =
    (case visit_body_piece m remap p of
       Inl e \<Rightarrow> Inl e
     | Inr q \<Rightarrow> (case visit_body m remap ps of Inl e \<Rightarrow> Inl e | Inr qs \<Rightarrow> Inr (q # qs)))"

definition transform :: "mutator \<Rightarrow> semantic_function \<Rightarrow> py_error + semantic_function" where
  "transform m f =
    (case visit_body m (param_remap m (fn_params f)) (fn_body f) of
       Inl e \<Rightarrow> Inl e
     | Inr new_body \<Rightarrow>
        (case new_semantic_function (fn_name f) (map (visit_parameter m) (fn_params f)) None (Some new_body)
                (semantic_metadata_asdict (fn_metadata f)) of
           Inl e \<Rightarrow> Inl e
         | Inr new_func \<Rightarrow> visit_func m new_func))"

text \<open>\<^verbatim>\<open>Sequential.transform\<close>\<close>

fun sequential :: "(semantic_function \<Rightarrow> py_error + semantic_function) list \<Rightarrow> semantic_function \<Rightarrow> py_error + semantic_function" where
  "sequential [] f = Inr f"
| "sequential (t # ts) f = (case t f of Inl e \<Rightarrow> Inl e | Inr f \<Rightarrow> sequential ts f)"

section \<open>Formatters\<close>

definition replace_pairs :: "(string \<times> string) list \<Rightarrow> string \<Rightarrow> string" where
  "replace_pairs pairs t = foldl (\<lambda>t (src, tgt). py_replace src tgt t) t pairs"

definition prompt_formatter :: "(string \<times> string) list \<Rightarrow> mutator" where
  "prompt_formatter pairs = \<lparr>visit_constant = replace_pairs pairs, visit_parameter = (\<lambda>p. p), visit_func = Inr\<rparr>"

definition PyIndentRemover :: "(string \<times> string) list" where
  "PyIndentRemover = [([CHR 0x09], []), (''    '', [])]"

definition SquashIntoOneLine :: "(string \<times> string) list" where
  "SquashIntoOneLine = [([CHR 0x0A], '' '')]"

definition AlwaysOneSpace :: "(string \<times> string) list" where
  "AlwaysOneSpace = map (\<lambda>i. (replicate i (CHR '' ''), '' '')) (rev [2..<17])"

definition standard_formatter :: "semantic_function \<Rightarrow> py_error + semantic_function" where
  "standard_formatter =
    sequential [transform (prompt_formatter PyIndentRemover), transform (prompt_formatter SquashIntoOneLine),
                transform (prompt_formatter AlwaysOneSpace)]"

definition allowing_newline :: "semantic_function \<Rightarrow> py_error + semantic_function" where
  "allowing_newline =
    sequential [transform (prompt_formatter PyIndentRemover), transform (prompt_formatter AlwaysOneSpace)]"

section \<open>Conversation templates\<close>

datatype separator_style = ADD_COLON_SINGLE | ADD_COLON_TWO

text \<open>The format string \<^verbatim>\<open>system_template\<close> is the function that its \<^verbatim>\<open>format\<close> computes.\<close>

record conversation_template =
  system_message :: string
  roles :: "string \<times> string"
  system_template :: "string \<Rightarrow> string"
  seperator_style :: separator_style
  sep :: string
  sep2 :: string

definition conversation_piece :: "conversation_template \<Rightarrow> func_piece \<Rightarrow> func_piece list \<times> bool \<Rightarrow> func_piece list \<times> bool" where
  "conversation_piece ct piece acc =
    (let (new_body, round_start) = acc;
         new_body = (if round_start then push_to_body (\<lambda>i. Constant i (fst (roles ct) @ '': '')) new_body else new_body);
         is_out = is_output_piece piece;
         new_body = (if is_out then push_to_body (\<lambda>i. Constant i (sep ct @ snd (roles ct) @ '': '')) new_body else new_body);
         new_body = push_to_body (\<lambda>i. case piece of Constant _ t \<Rightarrow> Constant i t | ParameterLoc _ p \<Rightarrow> ParameterLoc i p) new_body;
         new_body = (if is_out
                     then push_to_body (\<lambda>i. Constant i (case seperator_style ct of ADD_COLON_SINGLE \<Rightarrow> sep ct | ADD_COLON_TWO \<Rightarrow> sep2 ct)) new_body
                     else new_body)
     in (new_body, is_out))"

definition conversation_body :: "conversation_template \<Rightarrow> func_piece list \<Rightarrow> func_piece list" where
  "conversation_body ct ps =
    fst (fold (conversation_piece ct) ps
           (push_to_body (\<lambda>i. Constant i (system_template ct (system_message ct) @ sep ct)) [], True))"

definition conversation_visit_func :: "conversation_template \<Rightarrow> semantic_function \<Rightarrow> py_error + semantic_function" where
  "conversation_visit_func ct f =
    new_semantic_function (fn_name f) (fn_params f) None (Some (conversation_body ct (fn_body f)))
      (semantic_metadata_asdict (fn_metadata f))"

definition conversation_mutator :: "conversation_template \<Rightarrow> mutator" where
  "conversation_mutator ct =
    \<lparr>visit_constant = (\<lambda>t. t), visit_parameter = (\<lambda>p. p), visit_func = conversation_visit_func ct\<rparr>"

definition vicuna_template :: conversation_template where
  "vicuna_template =
    \<lparr>system_message = ''A chat between a curious user and an artificial intelligence assistant. '' @
       ''The assistant gives helpful, detailed, and polite answers to the user's questions.'',
     roles = (''USER'', ''ASSISTANT''), system_template = (\<lambda>m. m), seperator_style = ADD_COLON_TWO,
     sep = '' '', sep2 = ''</s>''\<rparr>"

section \<open>What the server sees of a body\<close>

fun placeholder_name :: "body_chunk \<Rightarrow> string option" where
  "placeholder_name (TextChunk i t) = None"
| "placeholder_name (PlaceholderChunk i n) = Some n"

definition placeholder_names :: "body_chunk list \<Rightarrow> string list" where
  "placeholder_names cs = map the (filter (\<lambda>x. x \<noteq> None) (map placeholder_name cs))"

definition loc_names :: "func_piece list \<Rightarrow> string list" where
  "loc_names ps = placeholder_names (map chunk_of ps)"

text \<open>A text without an opening brace, in the constants of a body.\<close>

definition plain :: "string \<Rightarrow> bool" where
  "plain t \<longleftrightarrow> CHR ''{'' \<notin> set t"

fun plain_piece :: "func_piece \<Rightarrow> bool" where
  "plain_piece (Constant i t) = plain t"
| "plain_piece (ParameterLoc i p) = True"

fun ident_piece :: "func_piece \<Rightarrow> bool" where
  "ident_piece (Constant i t) = True"
| "ident_piece (ParameterLoc i p) = ident (fparam_name p)"

lemma placeholder_names_simps [simp]:
  "placeholder_names [] = []"
  "placeholder_names (TextChunk i t # cs) = placeholder_names cs"
  "placeholder_names (PlaceholderChunk i n # cs) = n # placeholder_names cs"
  "placeholder_names (cs @ ds) = placeholder_names cs @ placeholder_names ds"
  by (simp_all add: placeholder_names_def)

lemma loc_names_simps [simp]:
  "loc_names [] = []" "loc_names (ps @ qs) = loc_names ps @ loc_names qs"
  "loc_names (Constant i t # ps) = loc_names ps"
  "loc_names (ParameterLoc i p # ps) = fparam_name p # loc_names ps"
  by (simp_all add: loc_names_def)

lemma placeholder_names_renumber [simp]: "placeholder_names (renumber k cs) = placeholder_names cs"
  by (induction k cs rule: renumber.induct) auto

text \<open>Merging the texts between two placeholders gives a canonical body that prints the same.\<close>

fun merge_texts :: "string \<Rightarrow> func_piece list \<Rightarrow> body_chunk list" where
  "merge_texts u [] = text_chunks u"
| "merge_texts u (Constant i t # ps) = merge_texts (u @ t) ps"
| "merge_texts u (ParameterLoc i p # ps) = text_chunks u @ PlaceholderChunk 0 (fparam_name p) # merge_texts [] ps"

lemma merge_texts_print: "print_body (merge_texts u ps) = u @ body_to_str ps"
  by (induction u ps rule: merge_texts.induct) (auto simp: body_to_str_def get_param_str_def)

lemma merge_texts_names: "placeholder_names (merge_texts u ps) = loc_names ps"
  by (induction u ps rule: merge_texts.induct) auto

lemma merge_texts_canonical:
  "plain u \<Longrightarrow> list_all plain_piece ps \<Longrightarrow> list_all ident_piece ps \<Longrightarrow> canonical (merge_texts u ps)"
  by (induction u ps rule: merge_texts.induct) (auto simp: plain_def)

lemma server_sees_locations:
  assumes "list_all plain_piece ps" and "list_all ident_piece ps"
  shows "placeholder_names (server_body d (body_to_str ps)) = loc_names ps"
proof -
  let ?cs = "merge_texts [] ps"
  let ?r = "new_chunked_request 0 0 semantic_metadata_default"
  have can: "canonical ?cs" using merge_texts_canonical [of "[]" ps] assms by (simp add: plain_def)
  obtain lp r where run: "push_matches (body_to_str ps) 0 (finditer 0 (body_to_str ps)) ?r = (lp, r)"
    by (cases "push_matches (body_to_str ps) 0 (finditer 0 (body_to_str ps)) ?r")
  have "push_tail (body_to_str ps) (lp, r) = ?r\<lparr>body := renumber 0 ?cs\<rparr>"
    using push_matches_canonical [OF can, of "[]" "[]" ?r] merge_texts_print [of "[]" ps] run
    by (simp add: new_chunked_request_def)
  then have "placeholder_names (body (push_tail (body_to_str ps) (lp, r))) = loc_names ps"
    by (simp add: merge_texts_names)
  then have "placeholder_names (body r) = loc_names ps"
    by (auto simp: push_tail_def Let_def split: if_splits)
  then show ?thesis by (simp add: server_body_def run)
qed

section \<open>The transforms keep the placeholders\<close>

lemma set_replace_loop: "set (replace_loop src tgt s) \<subseteq> set tgt \<union> set s"
proof (induction src tgt s rule: replace_loop.induct)
  case (1 src tgt s)
  show ?case
  proof (cases s)
    case Nil
    then show ?thesis by (simp add: replace_loop.simps)
  next
    case (Cons c cs)
    show ?thesis
    proof (cases "src \<noteq> [] \<and> prefix src s")
      case True
      then have eq: "replace_loop src tgt s = tgt @ replace_loop src tgt (drop (length src) s)"
        using Cons by (subst replace_loop.simps) simp
      from "1.IH"(1) [OF Cons] True Cons set_drop_subset [of "length src" s] show ?thesis
        unfolding eq by auto
    next
      case False
      then have eq: "replace_loop src tgt s = c # replace_loop src tgt cs"
        using Cons by (subst replace_loop.simps) auto
      from "1.IH"(2) [OF Cons] False Cons show ?thesis unfolding eq by auto
    qed
  qed
qed

lemma plain_append [simp]: "plain (s @ t) \<longleftrightarrow> plain s \<and> plain t"
  by (simp add: plain_def)

lemma plain_replace: "plain tgt \<Longrightarrow> plain s \<Longrightarrow> plain (py_replace src tgt s)"
  using set_replace_loop [of src tgt s] by (auto simp: plain_def py_replace_def)

lemma plain_replace_pairs: "list_all (\<lambda>e. plain (snd e)) pairs \<Longrightarrow> plain t \<Longrightarrow> plain (replace_pairs pairs t)"
proof (induction pairs arbitrary: t)
  case (Cons e pairs)
  then show ?case by (cases e) (simp add: replace_pairs_def plain_replace)
qed (simp add: replace_pairs_def)

text \<open>Every location of a body names a parameter of the function.\<close>

fun piece_declared :: "func_param list \<Rightarrow> func_piece \<Rightarrow> bool" where
  "piece_declared params (Constant i t) = True"
| "piece_declared params (ParameterLoc i p) = (fparam_name p \<in> fparam_name ` set params)"

lemma params_map_keys: "fst ` set (params_map_of params) = fparam_name ` set params"
proof -
  have "fst ` set (foldl (\<lambda>d p. dict_set (fparam_name p) p d) d params) = fst ` set d \<union> fparam_name ` set params" for d
    by (induction params arbitrary: d) (auto simp: dict_keys_set)
  then show ?thesis by (simp add: params_map_of_def)
qed

lemma visit_body_keeps:
  assumes "list_all (piece_declared params) ps" and "visit_parameter m = (\<lambda>p. p)"
  shows "\<exists>qs. visit_body m (param_remap m params) ps = Inr qs \<and> loc_names qs = loc_names ps \<and>
    list_all (piece_declared params) qs \<and> list_all ident_piece qs = list_all ident_piece ps \<and>
    ((\<forall>t. plain t \<longrightarrow> plain (visit_constant m t)) \<longrightarrow> list_all plain_piece ps \<longrightarrow> list_all plain_piece qs)"
  using assms(1)
proof (induction ps)
  case (Cons p ps)
  have remap: "param_remap m params = params_map_of params"
    by (simp add: param_remap_def params_map_of_def assms(2))
  obtain qs where qs: "visit_body m (params_map_of params) ps = Inr qs" "loc_names qs = loc_names ps"
      "list_all (piece_declared params) qs" "list_all ident_piece qs = list_all ident_piece ps"
      "(\<forall>t. plain t \<longrightarrow> plain (visit_constant m t)) \<longrightarrow> list_all plain_piece ps \<longrightarrow> list_all plain_piece qs"
    using Cons remap by auto
  show ?case
  proof (cases p)
    case (Constant i t)
    with qs remap show ?thesis by simp
  next
    case (ParameterLoc i q)
    with Cons.prems have "fparam_name q \<in> fst ` set (params_map_of params)" by (simp add: params_map_keys)
    then obtain q' where q': "map_of (params_map_of params) (fparam_name q) = Some q'" using key_map_of_Some by metis
    have nm: "fparam_name q' = fparam_name q" using names_okD [OF names_ok_params_map q'] .
    from ParameterLoc qs remap q' nm Cons.prems show ?thesis by simp
  qed
qed simp

text \<open>The template loop adds its own texts and renumbers; what is said of a piece must not depend on its index.\<close>

definition template_texts :: "conversation_template \<Rightarrow> string set" where
  "template_texts ct =
    {system_template ct (system_message ct) @ sep ct, fst (roles ct) @ '': '', sep ct @ snd (roles ct) @ '': '', sep ct, sep2 ct}"

definition kept_by_template :: "conversation_template \<Rightarrow> (func_piece \<Rightarrow> bool) \<Rightarrow> bool" where
  "kept_by_template ct Q \<longleftrightarrow> (\<forall>i t. t \<in> template_texts ct \<longrightarrow> Q (Constant i t)) \<and>
    (\<forall>i j t. Q (Constant i t) \<longrightarrow> Q (Constant j t)) \<and> (\<forall>i j p. Q (ParameterLoc i p) \<longrightarrow> Q (ParameterLoc j p))"

lemma push_to_body_keeps [simp]:
  "loc_names (push_to_body (\<lambda>i. Constant i t) ps) = loc_names ps"
  "list_all Q (push_to_body f ps) \<longleftrightarrow> list_all Q ps \<and> Q (f (length ps))"
  by (simp_all add: push_to_body_def)

lemma conversation_piece_keeps:
  assumes "conversation_piece ct p (ps, b) = (qs, b')"
  shows "loc_names qs = loc_names (ps @ [p])"
    and "kept_by_template ct Q \<Longrightarrow> list_all Q (ps @ [p]) \<Longrightarrow> list_all Q qs"
proof -
  show "loc_names qs = loc_names (ps @ [p])"
    using assms by (cases p) (auto simp: conversation_piece_def Let_def push_to_body_def split: if_splits)
  assume Q: "kept_by_template ct Q" and all: "list_all Q (ps @ [p])"
  have texts: "Q (Constant i (fst (roles ct) @ '': ''))" "Q (Constant i (sep ct @ snd (roles ct) @ '': ''))"
      "Q (Constant i (sep ct))" "Q (Constant i (sep2 ct))" for i
    using Q by (auto simp: kept_by_template_def template_texts_def)
  have "Q (case p of Constant _ t \<Rightarrow> Constant i t | ParameterLoc _ q \<Rightarrow> ParameterLoc i q)" for i
    using Q all by (cases p) (auto simp: kept_by_template_def)
  then show "list_all Q qs"
    using assms all by (auto simp: conversation_piece_def Let_def texts split: separator_style.split if_splits)
qed

lemma conversation_fold_keeps:
  assumes "fold (conversation_piece ct) us (ps, b) = (qs, b')"
  shows "loc_names qs = loc_names (ps @ us) \<and>
    (\<forall>Q. kept_by_template ct Q \<longrightarrow> list_all Q (ps @ us) \<longrightarrow> list_all Q qs)"
  using assms
proof (induction us arbitrary: ps b)
  case (Cons u us)
  obtain ps1 b1 where s: "conversation_piece ct u (ps, b) = (ps1, b1)" by (cases "conversation_piece ct u (ps, b)")
  have "loc_names (u # us) = loc_names [u] @ loc_names us" by (cases u) auto
  with Cons.IH [of ps1 b1] Cons.prems s conversation_piece_keeps [OF s] show ?case by auto
qed simp

lemma conversation_body_keeps:
  "loc_names (conversation_body ct ps) = loc_names ps"
  "kept_by_template ct Q \<Longrightarrow> list_all Q ps \<Longrightarrow> list_all Q (conversation_body ct ps)"
proof -
  let ?c = "[Constant 0 (system_template ct (system_message ct) @ sep ct)]"
  obtain qs b where s: "fold (conversation_piece ct) ps (?c, True) = (qs, b)"
    by (cases "fold (conversation_piece ct) ps (?c, True)")
  have body: "conversation_body ct ps = qs" using s by (simp add: conversation_body_def push_to_body_def)
  show "loc_names (conversation_body ct ps) = loc_names ps" using conversation_fold_keeps [OF s] body by simp
  assume Q: "kept_by_template ct Q" and "list_all Q ps"
  moreover have "Q (Constant 0 (system_template ct (system_message ct) @ sep ct))"
    using Q by (auto simp: kept_by_template_def template_texts_def)
  ultimately show "list_all Q (conversation_body ct ps)" using conversation_fold_keeps [OF s] body by auto
qed

text \<open>The transforms that the library offers: formatters and templates whose texts have no opening brace.\<close>

definition prompt_transform :: "mutator \<Rightarrow> bool" where
  "prompt_transform m \<longleftrightarrow>
    (\<exists>pairs. m = prompt_formatter pairs \<and> list_all (\<lambda>e. plain (snd e)) pairs) \<or>
    (\<exists>ct. m = conversation_mutator ct \<and> (\<forall>t \<in> template_texts ct. plain t))"

lemma new_semantic_function_of_body:
  "new_semantic_function name params None (Some b) (semantic_metadata_asdict md) =
    Inr \<lparr>fn_name = name, fn_params = params, fn_metadata = md, fn_body = b\<rparr>"
  by (simp add: new_semantic_function_def)

text \<open>A function whose locations name its parameters, with identifiers, and whose texts have no opening brace.\<close>

definition clean_function :: "semantic_function \<Rightarrow> bool" where
  "clean_function f \<longleftrightarrow> list_all (piece_declared (fn_params f)) (fn_body f) \<and> list_all ident_piece (fn_body f) \<and>
    list_all plain_piece (fn_body f)"

lemma transform_keeps:
  assumes "prompt_transform m" and "clean_function f"
  shows "\<exists>g. transform m f = Inr g \<and> clean_function g \<and> fn_name g = fn_name f \<and> fn_params g = fn_params f \<and>
    fn_metadata g = fn_metadata f \<and> loc_names (fn_body g) = loc_names (fn_body f)"
proof -
  note c = assms(2) [unfolded clean_function_def]
  have par: "visit_parameter m = (\<lambda>p. p)" and con: "plain t \<longrightarrow> plain (visit_constant m t)" for t
    using assms(1) plain_replace_pairs
    by (auto simp: prompt_transform_def prompt_formatter_def conversation_mutator_def)
  obtain qs where qs: "visit_body m (param_remap m (fn_params f)) (fn_body f) = Inr qs" "loc_names qs = loc_names (fn_body f)"
      "list_all (piece_declared (fn_params f)) qs" "list_all ident_piece qs" "list_all plain_piece qs"
    using visit_body_keeps [OF _ par, of "fn_params f" "fn_body f"] c con by auto
  let ?g = "\<lparr>fn_name = fn_name f, fn_params = fn_params f, fn_metadata = fn_metadata f, fn_body = qs\<rparr>"
  have tr: "transform m f = visit_func m ?g"
    using qs(1) by (simp add: transform_def par new_semantic_function_of_body)
  from assms(1) show ?thesis
    unfolding prompt_transform_def
  proof (elim disjE exE conjE)
    fix pairs
    assume "m = prompt_formatter pairs"
    with tr qs show ?thesis by (simp add: prompt_formatter_def clean_function_def)
  next
    fix ct
    assume m: "m = conversation_mutator ct" and texts: "\<forall>t \<in> template_texts ct. plain t"
    have "kept_by_template ct (piece_declared (fn_params f))" "kept_by_template ct ident_piece"
        "kept_by_template ct plain_piece"
      using texts by (simp_all add: kept_by_template_def)
    with tr qs m conversation_body_keeps show ?thesis
      by (simp add: conversation_mutator_def conversation_visit_func_def new_semantic_function_of_body clean_function_def)
  qed
qed

lemma sequential_keeps:
  assumes "list_all prompt_transform ms" and "clean_function f"
  shows "\<exists>g. sequential (map transform ms) f = Inr g \<and> clean_function g \<and> fn_name g = fn_name f \<and> fn_params g = fn_params f \<and>
    fn_metadata g = fn_metadata f \<and> loc_names (fn_body g) = loc_names (fn_body f)"
  using assms
proof (induction ms arbitrary: f)
  case (Cons m ms)
  obtain g where g: "transform m f = Inr g" "clean_function g" "fn_name g = fn_name f" "fn_params g = fn_params f"
      "fn_metadata g = fn_metadata f" "loc_names (fn_body g) = loc_names (fn_body f)"
    using transform_keeps [of m f] Cons.prems by auto
  with Cons.IH [OF _ g(2)] Cons.prems show ?case by auto
qed simp

lemma standard_formatter_is: "standard_formatter = sequential (map transform (map prompt_formatter [PyIndentRemover, SquashIntoOneLine, AlwaysOneSpace]))"
  by (simp add: standard_formatter_def)

lemma formatters_are_transforms:
  "list_all prompt_transform (map prompt_formatter [PyIndentRemover, SquashIntoOneLine, AlwaysOneSpace])"
  "prompt_transform (conversation_mutator vicuna_template)"
proof -
  have "list_all (\<lambda>e. plain (snd e)) PyIndentRemover" "list_all (\<lambda>e. plain (snd e)) SquashIntoOneLine"
      "list_all (\<lambda>e. plain (snd e)) AlwaysOneSpace"
    by (simp_all add: plain_def PyIndentRemover_def SquashIntoOneLine_def AlwaysOneSpace_def list_all_iff)
  then show "list_all prompt_transform (map prompt_formatter [PyIndentRemover, SquashIntoOneLine, AlwaysOneSpace])"
    by (auto simp: prompt_transform_def)
  have "\<forall>t \<in> template_texts vicuna_template. plain t"
    by (simp add: template_texts_def vicuna_template_def plain_def)
  then show "prompt_transform (conversation_mutator vicuna_template)"
    unfolding prompt_transform_def by blast
qed

text \<open>A parsed body names parameters of the function and has identifiers as names.\<close>

lemma parse_matches_declared:
  assumes "parse_matches t pm lp ms (ret, outs, lo) = Inr (lp', ret', outs', lo')"
    and "\<And>n p. map_of pm n = Some p \<Longrightarrow> p \<in> P" and "\<forall>i p. ParameterLoc i p \<in> set ret \<longrightarrow> p \<in> P"
  shows "\<forall>i p. ParameterLoc i p \<in> set ret' \<longrightarrow> p \<in> P"
  using assms(1,3)
proof (induction ms arbitrary: lp ret outs lo)
  case (Cons m ms)
  obtain ret1 outs1 lo1 where s: "parse_match t pm lp m (ret, outs, lo) = Inr (ret1, outs1, lo1)"
    using Cons.prems(1) by (auto split: sum.splits)
  have "\<forall>i p. ParameterLoc i p \<in> set ret1 \<longrightarrow> p \<in> P"
    using s Cons.prems(2) assms(2)
    by (fastforce simp: parse_match_def push_to_body_def Let_def split: prod.splits option.splits if_splits)
  with Cons.IH [of "snd m" ret1 outs1 lo1] Cons.prems(1) s show ?case by simp
qed simp

lemma params_map_values: "map_of (params_map_of params) n = Some p \<Longrightarrow> p \<in> set params"
proof -
  have "map_of (foldl (\<lambda>d p. dict_set (fparam_name p) p d) d params) n = Some p \<Longrightarrow> p \<in> set params \<or> map_of d n = Some p" for d
    by (induction params arbitrary: d) (force split: if_splits)+
  from this [of "[]"] show "map_of (params_map_of params) n = Some p \<Longrightarrow> p \<in> set params"
    by (simp add: params_map_of_def)
qed

lemma parsed_pieces:
  assumes "parse_func_body t (params_map_of params) md = Inr ps"
  shows "list_all (piece_declared params) ps" and "list_all ident_piece ps"
proof -
  let ?r = "new_chunked_request 0 0 semantic_metadata_default"
  obtain lp ret outs lo where run: "parse_matches t (params_map_of params) 0 (finditer 0 t) ([], [], -1) = Inr (lp, ret, outs, lo)"
    and ps: "ps = (if py_truth (remove_pure_fill md) then take (nat (lo + 1)) ret
              else if lp < length t then push_to_body (\<lambda>i. Constant i (drop lp t)) ret else ret)"
    using assms by (auto simp: parse_func_body_def split: sum.splits)
  have sub: "p \<in> set ps \<Longrightarrow> p \<in> set ret \<or> (\<exists>i u. p = Constant i u)" for p
    using ps by (auto simp: push_to_body_def split: if_splits dest: in_set_takeD)
  have "push_matches t 0 (finditer 0 t) ?r = (lp, ?r\<lparr>body := map chunk_of ret\<rparr>)"
    by (rule parse_matches_push [OF run names_ok_params_map]) (simp add: new_chunked_request_def)
  then have "list_all chunk_ok (map chunk_of ret)" using push_matches_whole(2) by (force simp: body_wf_def)
  then have ident: "ident_piece p" if "p \<in> set ret" for p
    using that by (cases p) (force simp: list_all_iff)+
  have declared: "\<forall>i p. ParameterLoc i p \<in> set ret \<longrightarrow> p \<in> set params"
    using parse_matches_declared [OF run, of "set params"] params_map_values by fastforce
  show "list_all (piece_declared params) ps"
    unfolding list_all_iff
  proof
    fix p
    assume "p \<in> set ps"
    with sub [of p] declared show "piece_declared params p" by (cases p) auto
  qed
  show "list_all ident_piece ps" using sub ident by (force simp: list_all_iff)
qed

lemma new_semantic_function_parsed:
  assumes "new_semantic_function name params (Some t) b kwargs = Inr f"
  shows "parse_func_body t (params_map_of params) (fn_metadata f) = Inr (fn_body f)"
    and "fn_params f = params" and "fn_name f = name"
  using assms by (auto simp: new_semantic_function_def split: sum.splits)

text \<open>
  C20. Formatters and conversation templates leave the placeholders of a prompt alone, when no text contains an opening brace,
  neither the texts of the function nor the replacements of a formatter nor the texts of a conversation template: on a function parsed
  from such a template every sequence of such transforms succeeds, keeps the name, the
  parameters and the metadata, and the server finds in the printed result the placeholders of the
  function, in their order.
\<close>

theorem transforms_keep_placeholders:
  assumes "new_semantic_function name params (Some t) None kwargs = Inr f" and "list_all plain_piece (fn_body f)"
    and "list_all prompt_transform ms"
  shows "\<exists>g. sequential (map transform ms) f = Inr g \<and> fn_name g = name \<and> fn_params g = params \<and> fn_metadata g = fn_metadata f \<and>
    placeholder_names (server_body d (to_template_str g)) = loc_names (fn_body f)"
proof -
  note f = new_semantic_function_parsed [OF assms(1)]
  have "clean_function f" using parsed_pieces [OF f(1)] f(2) assms(2) by (simp add: clean_function_def)
  from sequential_keeps [OF assms(3) this] f show ?thesis
    by (auto simp: clean_function_def to_template_str_def server_sees_locations)
qed

abbreviation joke_params :: "func_param list" where
  "joke_params \<equiv> [\<lparr>fparam_name = ''topic'', fparam_typ = INPUT_LOC, fparam_sampling_config = None\<rparr>,
    \<lparr>fparam_name = ''joke'', fparam_typ = OUTPUT_LOC, fparam_sampling_config = Some default_sampling_config\<rparr>]"

definition joke_template :: string where
  "joke_template = ''A joke'' @ [CHR 0x0A] @ ''    about {{topic}}: {{joke}} Bye.''"

lemma joke_function:
  "map_sum (\<lambda>e. e) fn_body (new_semantic_function ''tell'' joke_params (Some joke_template) None []) =
    Inr [Constant 0 (''A joke'' @ [CHR 0x0A] @ ''    about ''), ParameterLoc 1 (joke_params ! 0), Constant 2 '': '',
         ParameterLoc 3 (joke_params ! 1)]"
  by code_simp

theorem transforms_keep_placeholders_witness:
  "\<exists>f g. new_semantic_function ''tell'' joke_params (Some joke_template) None [] = Inr f \<and>
    sequential (map transform (map prompt_formatter [PyIndentRemover, SquashIntoOneLine, AlwaysOneSpace] @
      [conversation_mutator vicuna_template])) f = Inr g \<and>
    placeholder_names (server_body True (to_template_str g)) = [''topic'', ''joke'']"
proof -
  obtain f where f: "new_semantic_function ''tell'' joke_params (Some joke_template) None [] = Inr f"
    using joke_function by (cases "new_semantic_function ''tell'' joke_params (Some joke_template) None []") auto
  with joke_function have b: "fn_body f = [Constant 0 (''A joke'' @ [CHR 0x0A] @ ''    about ''), ParameterLoc 1 (joke_params ! 0),
      Constant 2 '': '', ParameterLoc 3 (joke_params ! 1)]" by simp
  have "list_all plain_piece (fn_body f)" unfolding b by (simp add: plain_def)
  moreover have "list_all prompt_transform (map prompt_formatter [PyIndentRemover, SquashIntoOneLine, AlwaysOneSpace] @
      [conversation_mutator vicuna_template])"
    using formatters_are_transforms by simp
  ultimately obtain g where g: "sequential (map transform (map prompt_formatter [PyIndentRemover, SquashIntoOneLine, AlwaysOneSpace] @
      [conversation_mutator vicuna_template])) f = Inr g"
      "placeholder_names (server_body True (to_template_str g)) = loc_names (fn_body f)"
    using transforms_keep_placeholders [OF f, of _ True] by blast
  have "loc_names (fn_body f) = [''topic'', ''joke'']" unfolding b by simp
  with f g show ?thesis by auto
qed

text \<open>
  With braces in the texts a formatter can make a placeholder: the indent between the braces and the name goes away.
\<close>

lemma formatter_makes_placeholder:
  "map_sum (\<lambda>e. e) (\<lambda>f. placeholder_names (server_body True (to_template_str f)))
     (new_semantic_function ''f'' joke_params (Some ''{{    topic}} {{joke}}'') None []) = Inr [''joke'']"
  "map_sum (\<lambda>e. e) (\<lambda>f. placeholder_names (server_body True (to_template_str f)))
     (case new_semantic_function ''f'' joke_params (Some ''{{    topic}} {{joke}}'') None [] of
        Inl e \<Rightarrow> Inl e | Inr f \<Rightarrow> transform (prompt_formatter PyIndentRemover) f) = Inr [''topic'', ''joke'']"
  by code_simp+

end
