(* ===== verification/OpenAI_Engine.thy ===== *)
theory OpenAI_Engine
  imports Builtin_Engine
begin

text \<open>
  The engine that forwards generation to the OpenAI service
  (\<^verbatim>\<open>engine/openai/openai_engine.py\<close>, \<^verbatim>\<open>api_endpoint.py\<close>, \<^verbatim>\<open>OpenAIConfig\<close> of \<^verbatim>\<open>engine/config.py\<close>). It
  shares the scheduler and the context manager with the built-in engine, but its contexts hold
  chat text. A fill runs inside the iteration; a generation leaves the running jobs and goes
  on as a task of the event loop: \<open>oa_background\<close> holds those tasks. Such a task is two steps,
  the request it sends and what it does with the answer of the service, which is an input of
  the model. A task that raises ends the process (\<^verbatim>\<open>create_task_in_loop\<close> is fail-fast).
  The main theorem: in every reachable state an iteration succeeds, fills the contexts of the
  scheduled fill jobs in order, starts the scheduled generations and leaves nothing running.
\<close>

section \<open>State and configuration\<close>

datatype endpoint = COMPLETION | CHAT

definition ENDPOINT_MAP :: "(string, endpoint) dict" where
  "ENDPOINT_MAP = [(''completion'', COMPLETION), (''chat'', CHAT)]"

record openai_engine =
  oa_scheduler :: engine_scheduler
  oa_contexts :: text_store
  oa_endpoint :: endpoint
  oa_model :: json
  oa_background :: "job_ref list"

abbreviation oa_job :: "openai_engine \<Rightarrow> job_ref \<Rightarrow> primitive_job" where
  "oa_job e j \<equiv> job_at (oa_scheduler e) j"

abbreviation oa_ctx :: "openai_engine \<Rightarrow> ctx_ref \<Rightarrow> text_context" where
  "oa_ctx e c \<equiv> ctx_at (oa_contexts e) c"

abbreviation oa_waiting :: "openai_engine \<Rightarrow> job_ref list" where
  "oa_waiting e \<equiv> waiting_jobs (oa_scheduler e)"

abbreviation oa_running :: "openai_engine \<Rightarrow> job_ref list" where
  "oa_running e \<equiv> running_jobs (oa_scheduler e)"

definition upd_oa_job :: "job_ref \<Rightarrow> (primitive_job \<Rightarrow> primitive_job) \<Rightarrow> openai_engine \<Rightarrow> openai_engine" where
  "upd_oa_job j f e = e\<lparr>oa_scheduler := upd_job j f (oa_scheduler e)\<rparr>"

definition upd_oa_ctx :: "ctx_ref \<Rightarrow> (text_context \<Rightarrow> text_context) \<Rightarrow> openai_engine \<Rightarrow> openai_engine" where
  "upd_oa_ctx c f e = e\<lparr>oa_contexts := upd_ctx c f (oa_contexts e)\<rparr>"

text \<open>\<^verbatim>\<open>OpenAIConfig.__post_init__\<close>.\<close>

definition openai_config_endpoint :: "string \<Rightarrow> py_error + endpoint" where
  "openai_config_endpoint api_endpoint =
    (case map_of ENDPOINT_MAP api_endpoint of None \<Rightarrow> Inl ValueError | Some ep \<Rightarrow> Inr ep)"

text \<open>The limits of the scheduler are overwritten.\<close>

definition openai_unlimited :: "scheduler_config \<Rightarrow> scheduler_config" where
  "openai_unlimited cfg = cfg\<lparr>cfg_max_batch_size := 9999999999999, cfg_max_num_batched_tokens := 9999999999999,
     cfg_max_total_tokens := 9999999999999\<rparr>"

definition new_openai_engine :: "scheduler_config \<Rightarrow> endpoint \<Rightarrow> json \<Rightarrow> openai_engine" where
  "new_openai_engine cfg ep mdl =
    \<lparr>oa_scheduler = new_engine_scheduler (openai_unlimited cfg), oa_contexts = \<lparr>ec_heap = [], ec_map = []\<rparr>,
     oa_endpoint = ep, oa_model = mdl, oa_background = []\<rparr>"

section \<open>Requests\<close>

definition oa_bind_job :: "job_ref \<Rightarrow> openai_engine \<Rightarrow> (unit, openai_engine) py" where
  "oa_bind_job j e =
    py_bind (py_lift (\<lambda>s. e\<lparr>oa_contexts := s\<rparr>)
      (bind_job_context new_text_context (job_context_id (oa_job e j)) (job_parent_context_id (oa_job e j)) (oa_contexts e)))
      (\<lambda>c e. py_return () (upd_oa_job j (\<lambda>x. x\<lparr>job_context := Some c\<rparr>) e))"

text \<open>\<^verbatim>\<open>_add_job\<close>, for a job object that was just created.\<close>

definition oa_add_job :: "int \<Rightarrow> primitive_job \<Rightarrow> openai_engine \<Rightarrow> (job_ref, openai_engine) py" where
  "oa_add_job now job e =
    (let j = length (es_jobs (oa_scheduler e));
         e = e\<lparr>oa_scheduler := (oa_scheduler e)\<lparr>es_jobs := es_jobs (oa_scheduler e) @ [job]\<rparr>\<rparr>;
         e = e\<lparr>oa_scheduler := add_job now j (oa_scheduler e)\<rparr>
     in py_bind (oa_bind_job j e) (\<lambda>_ e. py_return j e))"

text \<open>A handler awaits the event of its job between the request and the response.\<close>

definition oa_fill_request :: "int \<Rightarrow> int \<Rightarrow> int \<Rightarrow> int \<Rightarrow> int \<Rightarrow> string \<Rightarrow> openai_engine \<Rightarrow> (job_ref, openai_engine) py" where
  "oa_fill_request now sid tid cid pid txt = oa_add_job now (new_fill sid tid cid pid False None (Some txt))"

definition oa_fill_response :: "(job_ref \<Rightarrow> int) \<Rightarrow> job_ref \<Rightarrow> openai_engine \<Rightarrow> (int, openai_engine) py" where
  "oa_fill_response clk j e =
    py_bind (py_lift (\<lambda>s. e\<lparr>oa_scheduler := s\<rparr>) (finish_jobs clk (oa_scheduler e))) (\<lambda>_ e.
      case primitive_of (oa_job e j) of
        Fill _ (Some txt) \<Rightarrow> py_return (int (length txt)) e
      | Fill _ None \<Rightarrow> py_raise TypeError e
      | Generate _ _ _ _ \<Rightarrow> py_raise AttributeError e)"

definition oa_generate_request ::
  "int \<Rightarrow> int \<Rightarrow> int \<Rightarrow> int \<Rightarrow> int \<Rightarrow> (string, json) dict \<Rightarrow> openai_engine \<Rightarrow> (job_ref, openai_engine) py" where
  "oa_generate_request now sid tid cid pid sampling e =
    (case sampling_config_of_dict sampling default_sampling_config of
       None \<Rightarrow> py_raise TypeError e
     | Some cfg \<Rightarrow> oa_add_job now (new_generate sid tid cid pid cfg False) e)"

text \<open>The generated text and the (empty) generated ids.\<close>

definition oa_generate_response :: "job_ref \<Rightarrow> openai_engine \<Rightarrow> (string \<times> int list, openai_engine) py" where
  "oa_generate_response j e =
    (case job_context (oa_job e j) of
       None \<Rightarrow> py_raise AttributeError e
     | Some c \<Rightarrow> py_return (get_latest_context_text (oa_ctx e c), []) e)"

definition oa_generate_stream :: "openai_engine \<Rightarrow> (unit, openai_engine) py" where
  "oa_generate_stream e = py_raise NotImplementedError e"

definition oa_free_context :: "int \<Rightarrow> openai_engine \<Rightarrow> (int, openai_engine) py" where
  "oa_free_context cid e =
    py_lift (\<lambda>s. e\<lparr>oa_contexts := s\<rparr>) (free_engine_context text_this_len text_destruction cid (oa_contexts e))"

text \<open>The fields about memory are \<^verbatim>\<open>UNKNOWN_DATA_FIELD\<close>, those not given have their defaults.\<close>

definition oa_get_runtime_info :: "openai_engine \<Rightarrow> engine_runtime_info" where
  "oa_get_runtime_info e = default_engine_runtime_info\<lparr>num_cached_tokens := -1,
     num_running_jobs := num_running_jobs_of (oa_scheduler e), num_total_jobs := num_total_jobs_of (oa_scheduler e),
     cache_mem := UNKNOWN_DATA_FIELD, model_mem := UNKNOWN_DATA_FIELD, recent_average_latency := 0\<rparr>"

section \<open>Jobs\<close>

text \<open>
  What the service gets. An endless walk to the root is Python's \<^verbatim>\<open>RecursionError\<close>, a \<^verbatim>\<open>RuntimeError\<close>;
  a reachable engine has none.
\<close>

datatype openai_request =
    CompletionRequest string json "(string, json) dict"
  | ChatRequest "text_chunk list" json "(string, json) dict"

definition openai_request_of :: "ctx_ref \<Rightarrow> sampling_config \<Rightarrow> openai_engine \<Rightarrow> py_error + openai_request" where
  "openai_request_of c cfg e =
    (case oa_endpoint e of
       COMPLETION \<Rightarrow>
         (case get_whole_context_text (ec_heap (oa_contexts e)) c of
            None \<Rightarrow> Inl RuntimeError
          | Some prompt \<Rightarrow> Inr (CompletionRequest prompt (oa_model e) (get_openai_params cfg)))
     | CHAT \<Rightarrow>
         (case get_whole_chat_messages (ec_heap (oa_contexts e)) c of
            None \<Rightarrow> Inl RuntimeError
          | Some chat_messages \<Rightarrow> Inr (ChatRequest chat_messages (oa_model e) (get_openai_params cfg))))"

text \<open>The first part of a generation task, up to the await.\<close>

definition oa_send :: "job_ref \<Rightarrow> openai_engine \<Rightarrow> (openai_request, openai_engine) py" where
  "oa_send j e =
    (case (job_context (oa_job e j), primitive_of (oa_job e j)) of
       (Some c, Generate cfg _ _ _) \<Rightarrow> (openai_request_of c cfg e, e)
     | _ \<Rightarrow> py_raise AttributeError e)"

text \<open>
  The choices of an answer: those of the chat endpoint have a \<^verbatim>\<open>message\<close> with its \<^verbatim>\<open>content\<close>, those of
  the completion endpoint have a \<^verbatim>\<open>text\<close> and no \<^verbatim>\<open>message\<close>.
\<close>

datatype api_choice = TextChoice string | MessageChoice string

text \<open>\<^verbatim>\<open>choices[0].message.content\<close>, which both branches of the source read.\<close>

fun message_content :: "api_choice list \<Rightarrow> py_error + string" where
  "message_content [] = Inl IndexError"
| "message_content (TextChoice _ # _) = Inl AttributeError"
| "message_content (MessageChoice content # _) = Inr content"

text \<open>The rest of the task: \<open>answer\<close> is what the call of the client raises or returns.\<close>

definition oa_receive :: "job_ref \<Rightarrow> py_error + api_choice list \<Rightarrow> openai_engine \<Rightarrow> (unit, openai_engine) py" where
  "oa_receive j answer e0 =
    (let e = e0\<lparr>oa_background := remove1 j (oa_background e0)\<rparr> in
     case answer of
       Inl err \<Rightarrow> py_raise err e
     | Inr choices \<Rightarrow>
        (case message_content choices of
           Inl err \<Rightarrow> py_raise err e
         | Inr generated_result \<Rightarrow>
            (case job_context (oa_job e j) of
               None \<Rightarrow> py_raise AttributeError e
             | Some c \<Rightarrow> py_return () (upd_oa_job j (\<lambda>x. x\<lparr>finish_event := True\<rparr>)
                 (upd_oa_ctx c (append_text generated_result False) e)))))"

text \<open>The loop body of \<^verbatim>\<open>_execute_iter\<close>, with the branch of \<^verbatim>\<open>_execute_job\<close> for a fill.\<close>

definition oa_start_job :: "job_ref \<Rightarrow> openai_engine \<Rightarrow> (unit, openai_engine) py" where
  "oa_start_job j e =
    (case primitive_of (oa_job e j) of
       Fill _ None \<Rightarrow> py_raise TypeError e
     | Fill _ (Some txt) \<Rightarrow>
        (case job_context (oa_job e j) of
           None \<Rightarrow> py_raise AttributeError e
         | Some c \<Rightarrow> py_return () (upd_oa_job j (\<lambda>x. x\<lparr>finish_event := True\<rparr>) (upd_oa_ctx c (append_text txt True) e)))
     | Generate _ _ _ _ \<Rightarrow>
        if j \<notin> set (oa_running e) then py_raise ValueError e
        else py_return () (e\<lparr>oa_scheduler := (oa_scheduler e)\<lparr>running_jobs := remove1 j (oa_running e)\<rparr>,
                             oa_background := oa_background e @ [j]\<rparr>))"

definition text_clen :: "text_store \<Rightarrow> ctx_ref \<Rightarrow> int" where
  "text_clen s c = the (get_context_len text_this_len (ec_heap s) c)"

definition oa_execute_iter :: "(job_ref \<Rightarrow> int) \<Rightarrow> openai_engine \<Rightarrow> (unit, openai_engine) py" where
  "oa_execute_iter clk e =
    py_bind (py_lift (\<lambda>s. e\<lparr>oa_scheduler := s\<rparr>) (schedule_jobs (text_clen (oa_contexts e)) clk (oa_scheduler e))) (\<lambda>js e.
    py_bind (py_for oa_start_job js e) (\<lambda>_ e.
      py_lift (\<lambda>s. e\<lparr>oa_scheduler := s\<rparr>) (finish_jobs clk (oa_scheduler e))))"

definition oa_engine_iter :: "(job_ref \<Rightarrow> int) \<Rightarrow> openai_engine \<Rightarrow> (unit, openai_engine) py" where
  "oa_engine_iter clk e = (if scheduler_is_empty (oa_scheduler e) then py_return () e else oa_execute_iter clk e)"


section \<open>Reachable engines\<close>

text \<open>A job of this engine as its requests create it, bound to a context of the heap.\<close>

definition oa_job_ok :: "openai_engine \<Rightarrow> job_ref \<Rightarrow> bool" where
  "oa_job_ok e j \<longleftrightarrow> j < length (es_jobs (oa_scheduler e)) \<and> \<not> end_flag (oa_job e j) \<and>
    (\<exists>c. job_context (oa_job e j) = Some c \<and> c < length (ec_heap (oa_contexts e))) \<and>
    (\<forall>toks content. primitive_of (oa_job e j) = Fill toks content \<longrightarrow> toks = None \<and> content \<noteq> None)"

definition oa_ok :: "openai_engine \<Rightarrow> bool" where
  "oa_ok e \<longleftrightarrow> is_fifo (oa_scheduler e) \<and> max_batch_size (oa_scheduler e) = 9999999999999 \<and>
    max_num_batched_tokens (oa_scheduler e) = 9999999999999 \<and> max_total_tokens (oa_scheduler e) = 9999999999999 \<and>
    oa_running e = [] \<and> distinct (oa_waiting e) \<and>
    distinct (map (\<lambda>j. job_context_id (oa_job e j)) (oa_waiting e)) \<and>
    (\<forall>j \<in> set (oa_waiting e). oa_job_ok e j \<and>
       dict_mem (job_context_id (oa_job e j)) (job_arrival_time (oa_scheduler e)) \<and>
       dict_mem (job_task_id (oa_job e j)) (task_arrival_time (oa_scheduler e))) \<and>
    (\<forall>j \<in> set (oa_background e). oa_job_ok e j) \<and>
    parents_ok (ec_heap (oa_contexts e)) \<and> (\<forall>c \<in> snd ` set (ec_map (oa_contexts e)). c < length (ec_heap (oa_contexts e)))"

subsection \<open>The loop over the scheduled jobs\<close>

text \<open>The user messages that the fills among \<open>js\<close> add to context \<open>c\<close>.\<close>

fun fill_text :: "primitive \<Rightarrow> string" where
  "fill_text (Fill _ (Some txt)) = txt"
| "fill_text _ = []"

definition fill_chunks :: "openai_engine \<Rightarrow> job_ref list \<Rightarrow> ctx_ref \<Rightarrow> text_chunk list" where
  "fill_chunks e js c = map (\<lambda>j. \<lparr>text_chunk.chunk_text = fill_text (primitive_of (oa_job e j)), chunk_role = User\<rparr>)
     (filter (\<lambda>j. \<not> is_generate (oa_job e j) \<and> job_context (oa_job e j) = Some c) js)"

text \<open>The effect of the loop on the engine, field by field.\<close>

definition oa_started :: "job_ref list \<Rightarrow> openai_engine \<Rightarrow> openai_engine \<Rightarrow> bool" where
  "oa_started js e e' \<longleftrightarrow>
    (\<exists>jobs heap run. e' = e\<lparr>oa_scheduler := (oa_scheduler e)\<lparr>es_jobs := jobs, running_jobs := run\<rparr>,
       oa_contexts := (oa_contexts e)\<lparr>ec_heap := heap\<rparr>, oa_background := oa_background e @ filter (\<lambda>j. is_generate (oa_job e j)) js\<rparr> \<and>
     run = filter (\<lambda>j. j \<notin> set js \<or> \<not> is_generate (oa_job e j)) (oa_running e) \<and>
     length jobs = length (es_jobs (oa_scheduler e)) \<and> length heap = length (ec_heap (oa_contexts e)) \<and>
     (\<forall>i < length jobs. jobs ! i = (if i \<in> set js \<and> \<not> is_generate (oa_job e i) then (oa_job e i)\<lparr>finish_event := True\<rparr> else oa_job e i)) \<and>
     (\<forall>c < length heap. heap ! c = (oa_ctx e c)\<lparr>text_context.text_chunks := text_context.text_chunks (oa_ctx e c) @ fill_chunks e js c\<rparr>))"

lemma oa_started_run:
  assumes "oa_started js e e'"
  shows "oa_running e' = filter (\<lambda>j. j \<notin> set js \<or> \<not> is_generate (oa_job e j)) (oa_running e)"
    "length (es_jobs (oa_scheduler e')) = length (es_jobs (oa_scheduler e))"
    "length (ec_heap (oa_contexts e')) = length (ec_heap (oa_contexts e))"
  using assms by (auto simp: oa_started_def)

lemma oa_started_job:
  assumes "oa_started js e e'" and "i < length (es_jobs (oa_scheduler e))"
  shows "oa_job e' i = (if i \<in> set js \<and> \<not> is_generate (oa_job e i) then (oa_job e i)\<lparr>finish_event := True\<rparr> else oa_job e i)"
  using assms by (auto simp: oa_started_def)

lemma oa_started_fields:
  assumes "oa_started js e e'" and "i < length (es_jobs (oa_scheduler e))"
  shows "primitive_of (oa_job e' i) = primitive_of (oa_job e i)" "job_context (oa_job e' i) = job_context (oa_job e i)"
    "job_context_id (oa_job e' i) = job_context_id (oa_job e i)" "job_task_id (oa_job e' i) = job_task_id (oa_job e i)"
    "end_flag (oa_job e' i) = end_flag (oa_job e i)" "is_generate (oa_job e' i) = is_generate (oa_job e i)"
  using oa_started_job [OF assms] by (simp_all add: is_generate_def)

lemma oa_started_ok: "oa_started js e e' \<Longrightarrow> oa_job_ok e j \<Longrightarrow> oa_job_ok e' j"
  using oa_started_fields [of js e e' j] oa_started_run [of js e e'] by (simp add: oa_job_ok_def)

lemma oa_started_ctx:
  assumes "oa_started js e e'" and "c < length (ec_heap (oa_contexts e))"
  shows "oa_ctx e' c = (oa_ctx e c)\<lparr>text_context.text_chunks := text_context.text_chunks (oa_ctx e c) @ fill_chunks e js c\<rparr>"
  using assms by (auto simp: oa_started_def)

lemma oa_started_trans:
  assumes 1: "oa_started [j] e e1" and 2: "oa_started js e1 e2" and js: "\<forall>i \<in> set (j # js). i < length (es_jobs (oa_scheduler e))"
  shows "oa_started (j # js) e e2"
proof -
  note f = oa_started_fields [OF 1] oa_started_job [OF 1] oa_started_run [OF 1] oa_started_ctx [OF 1]
  have gen: "is_generate (oa_job e1 i) = is_generate (oa_job e i)" if "i \<in> set js" for i using f(6) js that by simp
  have gens: "filter (\<lambda>i. is_generate (oa_job e1 i)) js = filter (\<lambda>i. is_generate (oa_job e i)) js"
    by (rule filter_cong [OF refl gen])
  have run: "filter (\<lambda>i. i \<notin> set js \<or> \<not> is_generate (oa_job e1 i)) xs = filter (\<lambda>i. i \<notin> set js \<or> \<not> is_generate (oa_job e i)) xs" for xs
    by (rule filter_cong [OF refl]) (use gen in auto)
  have fc: "fill_chunks e (j # js) c = fill_chunks e [j] c @ fill_chunks e1 js c" for c
  proof -
    have "filter (\<lambda>i. \<not> is_generate (oa_job e1 i) \<and> job_context (oa_job e1 i) = Some c) js =
        filter (\<lambda>i. \<not> is_generate (oa_job e i) \<and> job_context (oa_job e i) = Some c) js"
      by (rule filter_cong [OF refl]) (use f(2,6) js in simp)
    then show ?thesis using f(1) js by (simp add: fill_chunks_def)
  qed
  from 1 obtain jobs1 heap1 run1 where a: "e1 = e\<lparr>oa_scheduler := (oa_scheduler e)\<lparr>es_jobs := jobs1, running_jobs := run1\<rparr>,
       oa_contexts := (oa_contexts e)\<lparr>ec_heap := heap1\<rparr>, oa_background := oa_background e @ filter (\<lambda>i. is_generate (oa_job e i)) [j]\<rparr>"
    unfolding oa_started_def by blast
  from 2 obtain jobs2 heap2 run2 where b: "e2 = e1\<lparr>oa_scheduler := (oa_scheduler e1)\<lparr>es_jobs := jobs2, running_jobs := run2\<rparr>,
       oa_contexts := (oa_contexts e1)\<lparr>ec_heap := heap2\<rparr>, oa_background := oa_background e1 @ filter (\<lambda>i. is_generate (oa_job e1 i)) js\<rparr>"
    "run2 = filter (\<lambda>i. i \<notin> set js \<or> \<not> is_generate (oa_job e1 i)) (oa_running e1)"
    "length jobs2 = length (es_jobs (oa_scheduler e1))" "length heap2 = length (ec_heap (oa_contexts e1))"
    unfolding oa_started_def by blast
  show ?thesis unfolding oa_started_def
  proof (intro exI conjI allI impI)
    show "e2 = e\<lparr>oa_scheduler := (oa_scheduler e)\<lparr>es_jobs := jobs2, running_jobs := run2\<rparr>,
       oa_contexts := (oa_contexts e)\<lparr>ec_heap := heap2\<rparr>, oa_background := oa_background e @ filter (\<lambda>i. is_generate (oa_job e i)) (j # js)\<rparr>"
      unfolding b(1) gens by (simp add: a)
    show "run2 = filter (\<lambda>i. i \<notin> set (j # js) \<or> \<not> is_generate (oa_job e i)) (oa_running e)"
      unfolding b(2) run f(8) by (auto intro: filter_cong)
    show "length jobs2 = length (es_jobs (oa_scheduler e))" "length heap2 = length (ec_heap (oa_contexts e))"
      using b(3,4) f(9,10) by simp_all
    show "jobs2 ! i = (if i \<in> set (j # js) \<and> \<not> is_generate (oa_job e i) then (oa_job e i)\<lparr>finish_event := True\<rparr> else oa_job e i)"
      if "i < length jobs2" for i
      using that b(1,3) f(6,7,9) oa_started_job [OF 2, of i] by auto
    show "heap2 ! c = (oa_ctx e c)\<lparr>text_context.text_chunks := text_context.text_chunks (oa_ctx e c) @ fill_chunks e (j # js) c\<rparr>" if "c < length heap2" for c
      using that b(1,4) f(10,11) oa_started_ctx [OF 2, of c] unfolding fc by simp
  qed
qed

lemma oa_started_Nil: "oa_started [] e e"
  unfolding oa_started_def by (intro exI [of _ "es_jobs (oa_scheduler e)"] exI [of _ "ec_heap (oa_contexts e)"] exI [of _ "oa_running e"])
    (simp add: fill_chunks_def)

lemma oa_start_job:
  assumes ok: "oa_job_ok e j" and run: "distinct (oa_running e)" "j \<in> set (oa_running e)"
  shows "\<exists>e'. oa_start_job j e = (Inr (), e') \<and> oa_started [j] e e'"
proof (cases "primitive_of (oa_job e j)")
  case (Generate cfg queue body n)
  then have g: "is_generate (oa_job e j)" by (simp add: is_generate_def)
  let ?e = "e\<lparr>oa_scheduler := (oa_scheduler e)\<lparr>running_jobs := remove1 j (oa_running e)\<rparr>, oa_background := oa_background e @ [j]\<rparr>"
  have "oa_started [j] e ?e"
    unfolding oa_started_def
    by (intro exI [of _ "es_jobs (oa_scheduler e)"] exI [of _ "ec_heap (oa_contexts e)"] exI [of _ "remove1 j (oa_running e)"])
      (use g run in \<open>auto simp: fill_chunks_def distinct_remove1_removeAll removeAll_filter_not_eq intro!: filter_cong\<close>)
  then show ?thesis using Generate run by (simp add: oa_start_job_def)
next
  case (Fill toks content)
  then obtain t c where t: "content = Some t" and c: "job_context (oa_job e j) = Some c" "c < length (ec_heap (oa_contexts e))"
    and j: "j < length (es_jobs (oa_scheduler e))" using ok by (auto simp: oa_job_ok_def)
  have g: "\<not> is_generate (oa_job e j)" using Fill by (simp add: is_generate_def)
  let ?e = "upd_oa_job j (\<lambda>x. x\<lparr>finish_event := True\<rparr>) (upd_oa_ctx c (append_text t True) e)"
  have "oa_started [j] e ?e"
    unfolding oa_started_def
    by (intro exI [of _ "(es_jobs (oa_scheduler e))[j := (oa_job e j)\<lparr>finish_event := True\<rparr>]"]
        exI [of _ "(ec_heap (oa_contexts e))[c := append_text t True (oa_ctx e c)]"] exI [of _ "oa_running e"])
      (use g c j Fill t in \<open>auto simp: fill_chunks_def upd_oa_job_def upd_oa_ctx_def upd_job_def upd_ctx_def append_text_def nth_list_update\<close>)
  then show ?thesis using Fill t c by (simp add: oa_start_job_def)
qed

lemma oa_start_jobs:
  assumes "\<forall>j \<in> set js. oa_job_ok e j" and "distinct (oa_running e)" and "distinct js" and "set js \<subseteq> set (oa_running e)"
  shows "\<exists>e'. py_for oa_start_job js e = (Inr (), e') \<and> oa_started js e e'"
  using assms
proof (induction js arbitrary: e)
  case Nil
  then show ?case using oa_started_Nil by simp
next
  case (Cons j js)
  obtain e1 where 1: "oa_start_job j e = (Inr (), e1)" "oa_started [j] e e1" using oa_start_job [of e j] Cons.prems by auto
  have "set js \<subseteq> set (oa_running e1)" "distinct (oa_running e1)"
    using Cons.prems oa_started_run(1) [OF 1(2)] by auto
  then obtain e2 where 2: "py_for oa_start_job js e1 = (Inr (), e2)" "oa_started js e1 e2"
    using Cons.IH [of e1] Cons.prems oa_started_ok [OF 1(2)] by auto
  have "oa_started (j # js) e e2" by (rule oa_started_trans [OF 1(2) 2(2)]) (use Cons.prems in \<open>auto simp: oa_job_ok_def\<close>)
  with 1 2 show ?case by simp
qed


subsection \<open>The end of the iteration\<close>

text \<open>What neither the scheduler nor the loops change of a job.\<close>

definition job_core :: "primitive_job \<Rightarrow> primitive \<times> ctx_ref option \<times> int \<times> int \<times> bool" where
  "job_core x = (primitive_of x, job_context x, job_context_id x, job_task_id x, end_flag x)"

lemma job_coreD:
  assumes "job_core x = job_core y"
  shows "primitive_of x = primitive_of y" "job_context x = job_context y" "job_context_id x = job_context_id y"
    "job_task_id x = job_task_id y" "end_flag x = end_flag y" "is_generate x = is_generate y"
  using assms by (simp_all add: job_core_def is_generate_def)

lemma same_jobs_core:
  assumes "same_jobs s s'"
  shows "length (es_jobs s') = length (es_jobs s)"
    "j < length (es_jobs s) \<Longrightarrow> job_core (job_at s' j) = job_core (job_at s j) \<and> finish_event (job_at s' j) = finish_event (job_at s j)"
proof -
  show len: "length (es_jobs s') = length (es_jobs s)" using assms unfolding same_jobs_def by (metis length_map)
  assume "j < length (es_jobs s)"
  then have eq: "(job_at s' j)\<lparr>start_time := 0\<rparr> = (job_at s j)\<lparr>start_time := 0\<rparr>"
    using assms len unfolding same_jobs_def by (metis nth_map)
  show "job_core (job_at s' j) = job_core (job_at s j) \<and> finish_event (job_at s' j) = finish_event (job_at s j)"
    using arg_cong [OF eq, of job_core] arg_cong [OF eq, of finish_event] by (simp add: job_core_def)
qed

lemma oa_started_core:
  "oa_started js e e' \<Longrightarrow> i < length (es_jobs (oa_scheduler e)) \<Longrightarrow> job_core (oa_job e' i) = job_core (oa_job e i)"
  using oa_started_fields [of js e e' i] by (simp add: job_core_def)

lemma finish_loop_all:
  assumes "\<forall>j \<in> set js. j < length (es_jobs s) \<and> finish_event (job_at s j) \<and> \<not> end_flag (job_at s j) \<and>
      job_context_id (job_at s j) \<in> fst ` set (job_arrival_time s)"
    and "distinct (map (\<lambda>j. job_context_id (job_at s j)) js)"
  shows "\<exists>jobs times. finish_loop clk js acc s = (Inr acc, s\<lparr>es_jobs := jobs, job_arrival_time := times\<rparr>) \<and>
    length jobs = length (es_jobs s) \<and>
    (\<forall>i < length jobs. job_core (jobs ! i) = job_core (job_at s i) \<and> finish_event (jobs ! i) = finish_event (job_at s i)) \<and>
    fst ` set times = fst ` set (job_arrival_time s) - (\<lambda>j. job_context_id (job_at s j)) ` set js"
  using assms
proof (induction js arbitrary: s)
  case Nil
  show ?case by (intro exI [of _ "es_jobs s"] exI [of _ "job_arrival_time s"]) (simp add: py_return_def)
next
  case (Cons j js)
  define s1 where "s1 = upd_job j (\<lambda>x. x\<lparr>end_time := clk j\<rparr>)
     (s\<lparr>job_arrival_time := dict_pop (job_context_id (job_at s j)) (job_arrival_time s)\<rparr>)"
  have jobs1: "es_jobs s1 = (es_jobs s)[j := (job_at s j)\<lparr>end_time := clk j\<rparr>]"
    and times1: "job_arrival_time s1 = dict_pop (job_context_id (job_at s j)) (job_arrival_time s)"
    by (simp_all add: s1_def upd_job_def)
  have at: "job_core (job_at s1 i) = job_core (job_at s i)" "finish_event (job_at s1 i) = finish_event (job_at s i)"
    if "i < length (es_jobs s)" for i using that unfolding jobs1 by (cases "i = j"; simp add: job_core_def)+
  have step: "finish_loop clk (j # js) acc s = finish_loop clk js acc s1"
    using Cons.prems(1) by (simp add: remove_job_def s1_def)
  have ids: "map (\<lambda>j. job_context_id (job_at s1 j)) js = map (\<lambda>j. job_context_id (job_at s j)) js"
    using Cons.prems(1) job_coreD(3) [OF at(1)] by simp
  have pre: "\<forall>i \<in> set js. i < length (es_jobs s1) \<and> finish_event (job_at s1 i) \<and> \<not> end_flag (job_at s1 i) \<and>
      job_context_id (job_at s1 i) \<in> fst ` set (job_arrival_time s1)"
  proof
    fix i
    assume i: "i \<in> set js"
    then have lt: "i < length (es_jobs s)" and "job_context_id (job_at s i) \<noteq> job_context_id (job_at s j)"
      using Cons.prems by (simp, metis (no_types, lifting) distinct.simps(2) image_eqI list.set_map list.simps(9))
    then show "i < length (es_jobs s1) \<and> finish_event (job_at s1 i) \<and> \<not> end_flag (job_at s1 i) \<and>
        job_context_id (job_at s1 i) \<in> fst ` set (job_arrival_time s1)"
      using Cons.prems(1) i at(2) [OF lt] job_coreD(3,5) [OF at(1) [OF lt]] unfolding times1 dict_keys_pop by (simp add: jobs1)
  qed
  have "distinct (map (\<lambda>j. job_context_id (job_at s1 j)) js)" using Cons.prems(2) unfolding ids by simp
  from Cons.IH [OF pre this] obtain jobs times where
    r: "finish_loop clk js acc s1 = (Inr acc, s1\<lparr>es_jobs := jobs, job_arrival_time := times\<rparr>)"
    "length jobs = length (es_jobs s1)"
    "\<forall>i < length jobs. job_core (jobs ! i) = job_core (job_at s1 i) \<and> finish_event (jobs ! i) = finish_event (job_at s1 i)"
    "fst ` set times = fst ` set (job_arrival_time s1) - (\<lambda>j. job_context_id (job_at s1 j)) ` set js"
    by blast
  have "(\<lambda>j. job_context_id (job_at s1 j)) ` set js = (\<lambda>j. job_context_id (job_at s j)) ` set js"
    using arg_cong [OF ids, of set] by simp
  then show ?case unfolding step using r at
    by (intro exI [of _ jobs] exI [of _ times]) (auto simp: jobs1 times1 dict_keys_pop s1_def upd_job_def)
qed


subsection \<open>An iteration\<close>

lemma oa_job_ok_core:
  assumes "oa_job_ok e j" and "job_core (oa_job e' j) = job_core (oa_job e j)"
    and "length (es_jobs (oa_scheduler e)) \<le> length (es_jobs (oa_scheduler e'))"
    and "length (ec_heap (oa_contexts e)) \<le> length (ec_heap (oa_contexts e'))"
  shows "oa_job_ok e' j"
  using assms job_coreD [OF assms(2)] unfolding oa_job_ok_def by (metis less_le_trans)

text \<open>The batch that the scheduler returns: a selection of the waiting jobs, in order of arrival.\<close>

lemma oa_batch:
  assumes ok: "oa_ok e" and sch: "schedule_jobs clen clk (oa_scheduler e) = (Inr ret, s')"
  shows "mset (oa_waiting e) = mset ret + mset (waiting_jobs s')" "running_jobs s' = ret" "same_jobs (oa_scheduler e) s'"
    "distinct ret" "set ret \<subseteq> set (oa_waiting e)" "distinct (waiting_jobs s')" "set (waiting_jobs s') \<subseteq> set (oa_waiting e)"
    "set ret \<inter> set (waiting_jobs s') = {}"
proof -
  have j: "jobs_ok (oa_scheduler e)" "is_fifo (oa_scheduler e)" using ok by (auto simp: oa_ok_def jobs_ok_def oa_job_ok_def)
  obtain adm rest pre where f: "oa_waiting e = adm @ rest" "sort_key (arrival (oa_scheduler e)) (oa_running e @ adm) = ret @ pre"
    "running_jobs s' = ret" "waiting_jobs s' = rev pre @ rest" "same_jobs (oa_scheduler e) s'"
    using fifo_steps [OF j sch] by metis
  have run: "oa_running e = []" and dw: "distinct (oa_waiting e)" using ok by (simp_all add: oa_ok_def)
  have "mset adm = mset ret + mset pre" using arg_cong [OF f(2), of mset] run by simp
  then show m: "mset (oa_waiting e) = mset ret + mset (waiting_jobs s')" using f(1,4) by simp
  show "running_jobs s' = ret" "same_jobs (oa_scheduler e) s'" by fact+
  have "mset (oa_waiting e) = mset (ret @ waiting_jobs s')" using m by simp
  then have d: "distinct (ret @ waiting_jobs s')" and st: "set (oa_waiting e) = set (ret @ waiting_jobs s')"
    using dw by (metis mset_eq_imp_distinct_iff, metis mset_eq_setD)
  show "distinct ret" "distinct (waiting_jobs s')" "set ret \<inter> set (waiting_jobs s') = {}" using d by auto
  show "set ret \<subseteq> set (oa_waiting e)" "set (waiting_jobs s') \<subseteq> set (oa_waiting e)" using st by auto
qed

text \<open>Everything an iteration does after the scheduler has chosen the batch \<open>ret\<close>.\<close>

lemma oa_execute_batch:
  assumes ok: "oa_ok e" and ne: "oa_waiting e \<noteq> []"
    and sch: "schedule_jobs (text_clen (oa_contexts e)) clk (oa_scheduler e) = (Inr ret, s')"
  obtains jobs times heap where
    "oa_engine_iter clk e = (Inr (), e\<lparr>oa_scheduler := s'\<lparr>running_jobs := [], es_jobs := jobs, job_arrival_time := times\<rparr>,
       oa_contexts := (oa_contexts e)\<lparr>ec_heap := heap\<rparr>, oa_background := oa_background e @ filter (\<lambda>j. is_generate (oa_job e j)) ret\<rparr>)"
    "length jobs = length (es_jobs (oa_scheduler e))" "\<forall>i < length jobs. job_core (jobs ! i) = job_core (oa_job e i)"
    "\<forall>j \<in> set ret. \<not> is_generate (oa_job e j) \<longrightarrow> finish_event (jobs ! j)"
    "fst ` set times = fst ` set (job_arrival_time (oa_scheduler e)) -
       (\<lambda>j. job_context_id (oa_job e j)) ` {j \<in> set ret. \<not> is_generate (oa_job e j)}"
    "length heap = length (ec_heap (oa_contexts e))"
    "\<forall>c < length heap. heap ! c = (oa_ctx e c)\<lparr>text_context.text_chunks := text_context.text_chunks (oa_ctx e c) @ fill_chunks e ret c\<rparr>"
proof -
  note b = oa_batch [OF ok sch]
  note core = same_jobs_core [OF b(3)]
  let ?e1 = "e\<lparr>oa_scheduler := s'\<rparr>"
  have lt: "j < length (es_jobs (oa_scheduler e))" if "j \<in> set ret" for j using that b(5) ok by (auto simp: oa_ok_def oa_job_ok_def)
  have ok1: "\<forall>j \<in> set ret. oa_job_ok ?e1 j"
  proof
    fix j
    assume j: "j \<in> set ret"
    then have "oa_job_ok e j" using ok b(5) by (auto simp: oa_ok_def)
    then show "oa_job_ok ?e1 j" by (rule oa_job_ok_core) (use core(1) core(2) [OF lt [OF j]] in simp_all)
  qed
  have r1: "oa_running ?e1 = ret" using b(2) by simp
  have "distinct (oa_running ?e1)" "set ret \<subseteq> set (oa_running ?e1)" unfolding r1 by (rule b(4), rule order_refl)
  from oa_start_jobs [OF ok1 this(1) b(4) this(2)]
  obtain e2 where e2: "py_for oa_start_job ret ?e1 = (Inr (), e2)" "oa_started ret ?e1 e2" by blast
  have cc: "job_core (oa_job ?e1 j) = job_core (oa_job e j)" if "j \<in> set ret" for j using core(2) [OF lt [OF that]] by simp
  note gen = job_coreD(6) [OF cc]
  have gens: "filter (\<lambda>j. is_generate (oa_job ?e1 j)) ret = filter (\<lambda>j. is_generate (oa_job e j)) ret"
    by (rule filter_cong [OF refl gen])
  have fc: "fill_chunks ?e1 ret c = fill_chunks e ret c" for c
  proof -
    have "filter (\<lambda>j. \<not> is_generate (oa_job ?e1 j) \<and> job_context (oa_job ?e1 j) = Some c) ret =
        filter (\<lambda>j. \<not> is_generate (oa_job e j) \<and> job_context (oa_job e j) = Some c) ret"
      by (rule filter_cong [OF refl]) (use gen job_coreD(2) [OF cc] in simp)
    then show ?thesis unfolding fill_chunks_def using job_coreD(1) [OF cc] by (simp cong: map_cong)
  qed
  define fills where "fills = filter (\<lambda>j. \<not> is_generate (oa_job e j)) ret"
  have run2: "oa_running e2 = fills"
    unfolding oa_started_run(1) [OF e2(2)] fills_def using gen b(2) by (auto intro!: filter_cong)
  obtain jobs2 heap2 where eq: "e2 = ?e1\<lparr>oa_scheduler := s'\<lparr>es_jobs := jobs2, running_jobs := fills\<rparr>,
       oa_contexts := (oa_contexts e)\<lparr>ec_heap := heap2\<rparr>, oa_background := oa_background e @ filter (\<lambda>j. is_generate (oa_job e j)) ret\<rparr>"
    "\<forall>c < length heap2. heap2 ! c = (oa_ctx e c)\<lparr>text_context.text_chunks := text_context.text_chunks (oa_ctx e c) @ fill_chunks e ret c\<rparr>"
  proof -
    from e2(2) obtain jobs2 heap2 run where x: "e2 = ?e1\<lparr>oa_scheduler := (oa_scheduler ?e1)\<lparr>es_jobs := jobs2, running_jobs := run\<rparr>,
       oa_contexts := (oa_contexts ?e1)\<lparr>ec_heap := heap2\<rparr>, oa_background := oa_background ?e1 @ filter (\<lambda>j. is_generate (oa_job ?e1 j)) ret\<rparr>"
      "\<forall>c < length heap2. heap2 ! c = (oa_ctx ?e1 c)\<lparr>text_context.text_chunks := text_context.text_chunks (oa_ctx ?e1 c) @ fill_chunks ?e1 ret c\<rparr>"
      unfolding oa_started_def by blast
    have "run = fills" using x(1) run2 by simp
    then show thesis using that x unfolding gens fc by simp
  qed
  have times2: "job_arrival_time (oa_scheduler e2) = job_arrival_time (oa_scheduler e)"
    using b(3) by (simp add: eq(1) same_jobs_def)
  have len2: "length (es_jobs (oa_scheduler e2)) = length (es_jobs (oa_scheduler e))" "length (ec_heap (oa_contexts e2)) = length (ec_heap (oa_contexts e))"
    using oa_started_run(2,3) [OF e2(2)] core(1) by simp_all
  have core2: "job_core (oa_job e2 i) = job_core (oa_job e i)" if "i < length (es_jobs (oa_scheduler e))" for i
    using oa_started_core [OF e2(2), of i] core that by simp
  have ids: "map (\<lambda>j. job_context_id (oa_job e2 j)) fills = map (\<lambda>j. job_context_id (oa_job e j)) fills"
    using job_coreD(3) [OF core2] lt by (auto simp: fills_def)
  have "distinct (map (\<lambda>j. job_context_id (oa_job e j)) fills)"
  proof -
    have "inj_on (\<lambda>j. job_context_id (oa_job e j)) (set (oa_waiting e))" using ok by (simp add: oa_ok_def distinct_map)
    then show ?thesis using b(4,5) by (auto simp: fills_def distinct_map intro: inj_on_subset)
  qed
  then have dist: "distinct (map (\<lambda>j. job_context_id (oa_job e2 j)) fills)" unfolding ids .
  have fin: "\<forall>j \<in> set fills. j < length (es_jobs (oa_scheduler e2)) \<and> finish_event (oa_job e2 j) \<and> \<not> end_flag (oa_job e2 j) \<and>
      job_context_id (oa_job e2 j) \<in> fst ` set (job_arrival_time (oa_scheduler e2))"
  proof
    fix j
    assume j: "j \<in> set fills"
    then have r: "j \<in> set ret" "\<not> is_generate (oa_job e j)" by (simp_all add: fills_def)
    have "finish_event (oa_job e2 j)" using oa_started_job [OF e2(2), of j] r gen lt core(1) by simp
    moreover have "\<not> end_flag (oa_job e j)" "job_context_id (oa_job e j) \<in> fst ` set (job_arrival_time (oa_scheduler e))"
      using ok b(5) r by (auto simp: oa_ok_def oa_job_ok_def)
    ultimately show "j < length (es_jobs (oa_scheduler e2)) \<and> finish_event (oa_job e2 j) \<and> \<not> end_flag (oa_job e2 j) \<and>
      job_context_id (oa_job e2 j) \<in> fst ` set (job_arrival_time (oa_scheduler e2))"
      using job_coreD(3,5) [OF core2 [OF lt [OF r(1)]]] lt [OF r(1)] len2 times2 by simp
  qed
  obtain jobs times where fl: "finish_loop clk fills [] (oa_scheduler e2) = (Inr [], (oa_scheduler e2)\<lparr>es_jobs := jobs, job_arrival_time := times\<rparr>)"
    "length jobs = length (es_jobs (oa_scheduler e2))"
    "\<forall>i < length jobs. job_core (jobs ! i) = job_core (oa_job e2 i) \<and> finish_event (jobs ! i) = finish_event (oa_job e2 i)"
    "fst ` set times = fst ` set (job_arrival_time (oa_scheduler e2)) - (\<lambda>j. job_context_id (oa_job e2 j)) ` set fills"
    using finish_loop_all [OF fin dist] by blast
  show thesis
  proof (rule that)
    show "oa_engine_iter clk e = (Inr (), e\<lparr>oa_scheduler := s'\<lparr>running_jobs := [], es_jobs := jobs, job_arrival_time := times\<rparr>,
       oa_contexts := (oa_contexts e)\<lparr>ec_heap := heap2\<rparr>, oa_background := oa_background e @ filter (\<lambda>j. is_generate (oa_job e j)) ret\<rparr>)"
    proof -
      have "\<not> scheduler_is_empty (oa_scheduler e)" using ne by (cases "oa_waiting e") (simp_all add: scheduler_is_empty_def num_total_jobs_of_def)
      then show ?thesis using sch e2(1) fl(1) run2 by (simp add: oa_engine_iter_def oa_execute_iter_def finish_jobs_def eq(1) py_return_def)
    qed
    show "length jobs = length (es_jobs (oa_scheduler e))" using fl(2) len2 by simp
    then show "\<forall>i < length jobs. job_core (jobs ! i) = job_core (oa_job e i)" using fl(3) core2 by simp
    show "\<forall>j \<in> set ret. \<not> is_generate (oa_job e j) \<longrightarrow> finish_event (jobs ! j)"
      using fl(2,3) fin by (auto simp: fills_def)
    show "fst ` set times = fst ` set (job_arrival_time (oa_scheduler e)) -
       (\<lambda>j. job_context_id (oa_job e j)) ` {j \<in> set ret. \<not> is_generate (oa_job e j)}"
      using fl(4) arg_cong [OF ids, of set] unfolding times2 by (simp add: fills_def)
    show "length heap2 = length (ec_heap (oa_contexts e))" using len2(2) by (simp add: eq(1))
    show "\<forall>c < length heap2. heap2 ! c = (oa_ctx e c)\<lparr>text_context.text_chunks := text_context.text_chunks (oa_ctx e c) @ fill_chunks e ret c\<rparr>"
      by (rule eq(2))
  qed
qed

subsection \<open>Invariant\<close>

lemma oa_ok_transfer:
  assumes ok: "oa_ok e" and same: "policy (oa_scheduler e') = policy (oa_scheduler e)" "max_batch_size (oa_scheduler e') = max_batch_size (oa_scheduler e)"
      "max_num_batched_tokens (oa_scheduler e') = max_num_batched_tokens (oa_scheduler e)" "max_total_tokens (oa_scheduler e') = max_total_tokens (oa_scheduler e)"
    and queue: "oa_running e' = []" "distinct (oa_waiting e')" "set (oa_waiting e') \<subseteq> set (oa_waiting e)"
      "set (oa_background e') \<subseteq> set (oa_waiting e) \<union> set (oa_background e)"
    and jobs: "length (es_jobs (oa_scheduler e)) \<le> length (es_jobs (oa_scheduler e'))"
      "\<And>j. j < length (es_jobs (oa_scheduler e)) \<Longrightarrow> job_core (oa_job e' j) = job_core (oa_job e j)"
    and times: "\<And>j. j \<in> set (oa_waiting e') \<Longrightarrow> job_context_id (oa_job e j) \<in> fst ` set (job_arrival_time (oa_scheduler e'))"
      "fst ` set (task_arrival_time (oa_scheduler e)) \<subseteq> fst ` set (task_arrival_time (oa_scheduler e'))"
    and ctx: "length (ec_heap (oa_contexts e)) \<le> length (ec_heap (oa_contexts e'))" "parents_ok (ec_heap (oa_contexts e'))"
      "\<forall>c \<in> snd ` set (ec_map (oa_contexts e')). c < length (ec_heap (oa_contexts e'))"
  shows "oa_ok e'"
proof -
  have old: "oa_job_ok e j" if "j \<in> set (oa_waiting e) \<union> set (oa_background e)" for j using ok that by (auto simp: oa_ok_def)
  then have core: "job_core (oa_job e' j) = job_core (oa_job e j)" if "j \<in> set (oa_waiting e) \<union> set (oa_background e)" for j
    using jobs(2) that by (simp add: oa_job_ok_def)
  have new: "oa_job_ok e' j" if "j \<in> set (oa_waiting e) \<union> set (oa_background e)" for j
    by (rule oa_job_ok_core [OF old [OF that] core [OF that] jobs(1) ctx(1)])
  have cid: "job_context_id (oa_job e' j) = job_context_id (oa_job e j)" "job_task_id (oa_job e' j) = job_task_id (oa_job e j)"
    if "j \<in> set (oa_waiting e')" for j using job_coreD(3,4) [OF core] that queue(3) by blast+
  have "inj_on (\<lambda>j. job_context_id (oa_job e j)) (set (oa_waiting e))" using ok by (simp add: oa_ok_def distinct_map)
  then have "inj_on (\<lambda>j. job_context_id (oa_job e' j)) (set (oa_waiting e'))"
    using queue(3) cid(1) by (metis (no_types, lifting) inj_on_cong inj_on_subset)
  then have d: "distinct (map (\<lambda>j. job_context_id (oa_job e' j)) (oa_waiting e'))" using queue(2) by (simp add: distinct_map)
  have tid: "job_task_id (oa_job e j) \<in> fst ` set (task_arrival_time (oa_scheduler e'))" if "j \<in> set (oa_waiting e')" for j
  proof -
    have "j \<in> set (oa_waiting e)" using queue(3) that by blast
    then have "job_task_id (oa_job e j) \<in> fst ` set (task_arrival_time (oa_scheduler e))" using ok by (simp add: oa_ok_def)
    then show ?thesis using times(2) by blast
  qed
  show ?thesis unfolding oa_ok_def dict_mem_iff
  proof (intro conjI ballI)
    show "is_fifo (oa_scheduler e')" using ok same(1) by (simp add: oa_ok_def is_fifo_def)
    show "job_context_id (oa_job e' j) \<in> fst ` set (job_arrival_time (oa_scheduler e'))" if "j \<in> set (oa_waiting e')" for j
      using cid(1) times(1) that by simp
    show "job_task_id (oa_job e' j) \<in> fst ` set (task_arrival_time (oa_scheduler e'))" if "j \<in> set (oa_waiting e')" for j
      using cid(2) tid that by simp
    show "oa_job_ok e' j" if "j \<in> set (oa_waiting e')" for j using new queue(3) that by blast
    show "oa_job_ok e' j" if "j \<in> set (oa_background e')" for j using new queue(4) that by blast
  qed (use ok same queue ctx d in \<open>auto simp: oa_ok_def\<close>)
qed


lemma parents_ok_child:
  assumes "parents_ok h" and "\<forall>p. parent = Some p \<longrightarrow> p < length h" and "link_parent cid parent h = (d, h')"
    and "parent_context x = parent"
  shows "parents_ok (h' @ [x]) \<and> length h' = length h"
proof -
  have "length h' = length h" using assms(3) by (auto simp: link_parent_def split: option.splits)
  moreover have "parent_context (h' ! r) = parent_context (h ! r)" for r
    using assms(3) by (cases "parent = Some r"; cases "r < length h") (auto simp: link_parent_def nth_list_update list_update_beyond split: option.splits)
  ultimately have "length h' = length h" "\<forall>r < length h. parent_context (h' ! r) = parent_context (h ! r)" by simp_all
  then show ?thesis using assms(1,2,4) by (auto simp: parents_ok_def nth_append less_Suc_eq)
qed

text \<open>Binding a job to its context, new or not.\<close>

lemma bind_text_context:
  assumes p: "parents_ok (ec_heap s)" and m: "\<forall>c \<in> snd ` set (ec_map s). c < length (ec_heap s)"
    and b: "bind_job_context new_text_context cid pid s = (Inr c, s')"
  shows "parents_ok (ec_heap s') \<and> (\<forall>c \<in> snd ` set (ec_map s'). c < length (ec_heap s')) \<and>
    length (ec_heap s) \<le> length (ec_heap s') \<and> c < length (ec_heap s')"
proof (cases "dict_mem cid (ec_map s)")
  case True
  then have "map_of (ec_map s) cid = Some c \<and> s' = s" using b by (auto simp: bind_job_context_def dict_get_eq_Inr)
  then show ?thesis using p m map_of_SomeD [of "ec_map s" cid c] by force
next
  case False
  obtain par0 s0 where 0: "(if pid = NONE_CONTEXT_ID then py_return None s
        else py_bind (dict_get (ec_map s) pid s) (\<lambda>p s. py_return (Some p) s)) = (Inr par0, s0)"
      "py_bind (new_text_context cid par0 s0) (\<lambda>r s. py_return () (s\<lparr>ec_map := dict_set cid r (ec_map s)\<rparr>)) = (Inr (), s')"
      "map_of (ec_map s') cid = Some c"
    using b False unfolding bind_job_context_def by (fastforce simp: py_bind_eq_Inr dict_get_eq_Inr simp del: dict_mem_iff)
  have "s0 = s" "\<forall>p. par0 = Some p \<longrightarrow> p < length (ec_heap s)"
    using 0(1) m by (auto simp: py_bind_eq_Inr dict_get_eq_Inr dest!: map_of_SomeD split: if_splits)
  then obtain parent where par: "\<forall>p. parent = Some p \<longrightarrow> p < length (ec_heap s)"
      "py_bind (new_text_context cid parent s) (\<lambda>r s. py_return () (s\<lparr>ec_map := dict_set cid r (ec_map s)\<rparr>)) = (Inr (), s')"
      "map_of (ec_map s') cid = Some c"
    using 0(2,3) by blast
  obtain d h where h: "link_parent cid parent (ec_heap s) = (d, h)" by fastforce
  let ?x = "\<lparr>ll_context_id = cid, sub_context_ids = [], ll_depth = d, parent_context = parent, text_context.text_chunks = []\<rparr>"
  have s': "s' = s\<lparr>ec_heap := h @ [?x], ec_map := dict_set cid (length h) (ec_map s)\<rparr>"
    using par(2) h by (simp add: new_text_context_def)
  have ph: "parents_ok (h @ [?x]) \<and> length h = length (ec_heap s)" by (rule parents_ok_child [OF p par(1) h]) simp
  then have "c = length h" using par(3) s' by simp
  have sub: "snd ` set (dict_set cid (length h) (ec_map s)) \<subseteq> insert (length h) (snd ` set (ec_map s))"
    using dict_set_subset [of cid "length h" "ec_map s"] by auto
  have "x < Suc (length (ec_heap s))" if "x \<in> snd ` set (dict_set cid (length h) (ec_map s))" for x
  proof -
    have "x = length h \<or> x \<in> snd ` set (ec_map s)" using subsetD [OF sub that] by blast
    then show ?thesis using m conjunct2 [OF ph] less_SucI by auto
  qed
  then show ?thesis using s' ph \<open>c = length h\<close> by simp
qed

lemma oa_ok_add_job:
  assumes ok: "oa_ok e" and job: "job_context job = None" "\<not> end_flag job"
      "\<forall>toks content. primitive_of job = Fill toks content \<longrightarrow> toks = None \<and> content \<noteq> None"
    and new: "job_context_id job \<notin> (\<lambda>j. job_context_id (oa_job e j)) ` set (oa_waiting e)"
    and add: "oa_add_job now job e = (Inr j, e')"
  shows "oa_ok e'"
proof -
  let ?n = "length (es_jobs (oa_scheduler e))"
  let ?s = "add_job now ?n ((oa_scheduler e)\<lparr>es_jobs := es_jobs (oa_scheduler e) @ [job]\<rparr>)"
  have at0: "job_at ?s ?n = job" by (simp add: add_job_def Let_def)
  obtain c s' where b: "bind_job_context new_text_context (job_context_id job) (job_parent_context_id job) (oa_contexts e) = (Inr c, s')"
    and e': "e' = e\<lparr>oa_scheduler := upd_job ?n (\<lambda>x. x\<lparr>job_context := Some c\<rparr>) ?s, oa_contexts := s'\<rparr>"
  proof (cases "bind_job_context new_text_context (job_context_id job) (job_parent_context_id job) (oa_contexts e)")
    case (Pair r s')
    with add at0 that show thesis
      by (cases r) (simp_all add: oa_add_job_def oa_bind_job_def upd_oa_job_def Let_def)
  qed
  have ctx: "parents_ok (ec_heap s') \<and> (\<forall>c \<in> snd ` set (ec_map s'). c < length (ec_heap s')) \<and>
      length (ec_heap (oa_contexts e)) \<le> length (ec_heap s') \<and> c < length (ec_heap s')"
    by (rule bind_text_context [OF _ _ b]) (use ok in \<open>simp_all add: oa_ok_def\<close>)
  have sch: "es_jobs (oa_scheduler e') = es_jobs (oa_scheduler e) @ [job\<lparr>job_context := Some c\<rparr>]"
    "oa_waiting e' = oa_waiting e @ [?n]" "oa_running e' = oa_running e" "oa_background e' = oa_background e" "oa_contexts e' = s'"
    "policy (oa_scheduler e') = policy (oa_scheduler e)" "max_batch_size (oa_scheduler e') = max_batch_size (oa_scheduler e)"
    "max_num_batched_tokens (oa_scheduler e') = max_num_batched_tokens (oa_scheduler e)"
    "max_total_tokens (oa_scheduler e') = max_total_tokens (oa_scheduler e)"
    "fst ` set (job_arrival_time (oa_scheduler e')) = insert (job_context_id job) (fst ` set (job_arrival_time (oa_scheduler e)))"
    "fst ` set (task_arrival_time (oa_scheduler e')) = insert (job_task_id job) (fst ` set (task_arrival_time (oa_scheduler e)))"
    unfolding e' by (auto simp: add_job_def Let_def upd_job_def dict_keys_set)
  have old: "j < ?n" if "j \<in> set (oa_waiting e) \<union> set (oa_background e)" for j using ok that by (auto simp: oa_ok_def oa_job_ok_def)
  have at: "oa_job e' j = oa_job e j" if "j < ?n" for j using that by (simp add: sch(1) nth_append)
  have atn: "oa_job e' ?n = job\<lparr>job_context := Some c\<rparr>" by (simp add: sch(1))
  have okj: "oa_job_ok e' j" if "oa_job_ok e j" for j
    by (rule oa_job_ok_core [OF that]) (use that at ctx sch(1,5) in \<open>simp_all add: oa_job_ok_def\<close>)
  have okn: "oa_job_ok e' ?n" using job ctx by (simp add: oa_job_ok_def atn sch(1,5))
  have ids: "map (\<lambda>j. job_context_id (oa_job e' j)) (oa_waiting e) = map (\<lambda>j. job_context_id (oa_job e j)) (oa_waiting e)"
    using at old by simp
  have "distinct (map (\<lambda>j. job_context_id (oa_job e' j)) (oa_waiting e'))"
    using ok new by (simp add: sch(2) ids atn oa_ok_def)
  moreover have "distinct (oa_waiting e')" using ok old by (auto simp: sch(2) oa_ok_def)
  ultimately show ?thesis unfolding oa_ok_def dict_mem_iff
  proof (intro conjI ballI)
    show "oa_job_ok e' j" "job_context_id (oa_job e' j) \<in> fst ` set (job_arrival_time (oa_scheduler e'))"
      "job_task_id (oa_job e' j) \<in> fst ` set (task_arrival_time (oa_scheduler e'))" if "j \<in> set (oa_waiting e')" for j
      using that ok okj okn at old atn unfolding sch(2,10,11) by (auto simp: oa_ok_def)
    show "oa_job_ok e' j" if "j \<in> set (oa_background e')" for j using that ok okj by (auto simp: sch(4) oa_ok_def)
    show "is_fifo (oa_scheduler e')" using ok sch(6) by (simp add: oa_ok_def is_fifo_def)
  qed (use ok ctx sch in \<open>auto simp: oa_ok_def\<close>)
qed


lemma ll_destruction_shape:
  assumes "ll_destruction r h = (res, h')"
  shows "length h' = length h \<and> (\<forall>i. parent_context (h' ! i) = parent_context (h ! i))"
proof -
  have "parent_context (h[p := (h ! p)\<lparr>sub_context_ids := xs\<rparr>] ! i) = parent_context (h ! i)" for p xs i
    by (cases "p = i"; cases "p < length h") (simp_all add: list_update_beyond)
  then show ?thesis using assms
    by (auto simp: ll_destruction_def py_bind_def py_return_def py_raise_def split: option.splits if_splits sum.splits prod.splits)
qed

lemma oa_ok_free:
  assumes ok: "oa_ok e" and f: "oa_free_context cid e = (res, e')"
  shows "oa_ok e'"
proof -
  obtain s' where s': "free_engine_context text_this_len text_destruction cid (oa_contexts e) = (res, s')" "e' = e\<lparr>oa_contexts := s'\<rparr>"
    using f by (cases "free_engine_context text_this_len text_destruction cid (oa_contexts e)") (auto simp: oa_free_context_def)
  have "length (ec_heap s') = length (ec_heap (oa_contexts e)) \<and> (\<forall>i. parent_context (ec_heap s' ! i) = parent_context (oa_ctx e i)) \<and>
      set (ec_map s') \<subseteq> set (ec_map (oa_contexts e))"
  proof (cases "map_of (ec_map (oa_contexts e)) cid")
    case None
    with s'(1) show ?thesis by (simp add: free_engine_context_def)
  next
    case (Some r)
    obtain x h where h: "ll_destruction r (ec_heap (oa_contexts e)) = (x, h)" by fastforce
    have "s' = (oa_contexts e)\<lparr>ec_map := dict_pop cid (ec_map (oa_contexts e)), ec_heap := h\<rparr>"
      using s'(1) Some h by (cases x) (auto simp: free_engine_context_def text_destruction_def)
    then show ?thesis using ll_destruction_shape [OF h] dict_pop_subset [of cid "ec_map (oa_contexts e)"] by simp
  qed
  note shape = this
  show ?thesis
  proof (rule oa_ok_transfer [OF ok])
    show "parents_ok (ec_heap (oa_contexts e'))" using ok shape s'(2) by (simp add: oa_ok_def parents_ok_def)
    show "\<forall>c \<in> snd ` set (ec_map (oa_contexts e')). c < length (ec_heap (oa_contexts e'))"
      using ok shape s'(2) by (auto simp: oa_ok_def)
  qed (use ok shape s'(2) in \<open>auto simp: oa_ok_def\<close>)
qed

lemma oa_ok_engine_iter:
  assumes ok: "oa_ok e" and it: "oa_engine_iter clk e = (Inr (), e')"
  shows "oa_ok e'"
proof (cases "oa_waiting e = []")
  case True
  then have "e' = e" using ok it by (simp add: oa_engine_iter_def scheduler_is_empty_def num_total_jobs_of_def oa_ok_def)
  with ok show ?thesis by simp
next
  case False
  obtain r s' where sch: "schedule_jobs (text_clen (oa_contexts e)) clk (oa_scheduler e) = (r, s')" by fastforce
  have "\<not> scheduler_is_empty (oa_scheduler e)"
    using False by (cases "oa_waiting e") (simp_all add: scheduler_is_empty_def num_total_jobs_of_def)
  then obtain ret where ret: "r = Inr ret" using it sch by (cases r) (auto simp: oa_engine_iter_def oa_execute_iter_def)
  note b = oa_batch [OF ok sch [unfolded ret]]
  obtain jobs times heap where e': "e' = e\<lparr>oa_scheduler := s'\<lparr>running_jobs := [], es_jobs := jobs, job_arrival_time := times\<rparr>,
       oa_contexts := (oa_contexts e)\<lparr>ec_heap := heap\<rparr>, oa_background := oa_background e @ filter (\<lambda>j. is_generate (oa_job e j)) ret\<rparr>"
    and x: "length jobs = length (es_jobs (oa_scheduler e))" "\<forall>i < length jobs. job_core (jobs ! i) = job_core (oa_job e i)"
    "fst ` set times = fst ` set (job_arrival_time (oa_scheduler e)) -
       (\<lambda>j. job_context_id (oa_job e j)) ` {j \<in> set ret. \<not> is_generate (oa_job e j)}"
    "length heap = length (ec_heap (oa_contexts e))"
    "\<forall>c < length heap. heap ! c = (oa_ctx e c)\<lparr>text_context.text_chunks := text_context.text_chunks (oa_ctx e c) @ fill_chunks e ret c\<rparr>"
    by (rule oa_execute_batch [OF ok False sch [unfolded ret]]) (use it in simp)
  have "\<forall>c < length heap. parent_context (heap ! c) = parent_context (oa_ctx e c)" using x(5) by simp
  then have par: "parents_ok heap" using ok x(4) by (simp add: oa_ok_def parents_ok_def)
  show ?thesis
  proof (rule oa_ok_transfer [OF ok])
    fix j
    assume "j \<in> set (oa_waiting e')"
    then have j: "j \<in> set (waiting_jobs s')" by (simp add: e')
    then have w: "j \<in> set (oa_waiting e)" using b(7) by blast
    have "job_context_id (oa_job e j) \<noteq> job_context_id (oa_job e i)" if "i \<in> set ret" for i
    proof -
      have "inj_on (\<lambda>j. job_context_id (oa_job e j)) (set (oa_waiting e))" using ok by (simp add: oa_ok_def distinct_map)
      moreover have "i \<noteq> j" "i \<in> set (oa_waiting e)" using b(5,8) j that by auto
      ultimately show ?thesis using w by (metis inj_onD)
    qed
    then show "job_context_id (oa_job e j) \<in> fst ` set (job_arrival_time (oa_scheduler e'))"
      using ok w x(3) by (auto simp: e' oa_ok_def)
  next
    show "fst ` set (task_arrival_time (oa_scheduler e)) \<subseteq> fst ` set (task_arrival_time (oa_scheduler e'))"
      using b(3) by (simp add: e' same_jobs_def)
    show "parents_ok (ec_heap (oa_contexts e'))" using par by (simp add: e')
    show "job_core (oa_job e' j) = job_core (oa_job e j)" if "j < length (es_jobs (oa_scheduler e))" for j
      using that x(1,2) by (simp add: e')
    show "\<forall>c \<in> snd ` set (ec_map (oa_contexts e')). c < length (ec_heap (oa_contexts e'))"
      using ok x(4) by (simp add: e' oa_ok_def)
  qed (use b(3,5,6,7) x(1,4) in \<open>auto simp: e' same_jobs_def\<close>)
qed

lemma oa_ok_receive:
  assumes ok: "oa_ok e" and r: "oa_receive j answer e = (Inr (), e')"
  shows "oa_ok e'"
proof -
  obtain c t where c: "job_context (oa_job e j) = Some c"
      "e' = upd_oa_job j (\<lambda>x. x\<lparr>finish_event := True\<rparr>) (upd_oa_ctx c (append_text t False) (e\<lparr>oa_background := remove1 j (oa_background e)\<rparr>))"
    using r by (auto simp: oa_receive_def Let_def split: sum.splits option.splits)
  have heap: "ec_heap (oa_contexts e') = (ec_heap (oa_contexts e))[c := append_text t False (oa_ctx e c)]"
    and jobs: "es_jobs (oa_scheduler e') = (es_jobs (oa_scheduler e))[j := (oa_job e j)\<lparr>finish_event := True\<rparr>]"
    by (simp_all add: c(2) upd_oa_job_def upd_oa_ctx_def upd_job_def upd_ctx_def)
  have "parent_context (ec_heap (oa_contexts e') ! i) = parent_context (oa_ctx e i)" for i
    unfolding heap by (cases "c = i"; cases "c < length (ec_heap (oa_contexts e))") (simp_all add: append_text_def list_update_beyond)
  then have par: "parents_ok (ec_heap (oa_contexts e'))" using ok by (simp add: oa_ok_def parents_ok_def heap)
  show ?thesis
  proof (rule oa_ok_transfer [OF ok])
    show "job_core (oa_job e' i) = job_core (oa_job e i)" for i
      unfolding jobs by (cases "i = j"; cases "j < length (es_jobs (oa_scheduler e))") (simp_all add: job_core_def list_update_beyond)
    show "set (oa_background e') \<subseteq> set (oa_waiting e) \<union> set (oa_background e)"
      using set_remove1_subset [of j "oa_background e"] by (auto simp: c(2) upd_oa_job_def upd_oa_ctx_def)
  qed (use ok par in \<open>auto simp: oa_ok_def heap jobs c(2) upd_oa_job_def upd_oa_ctx_def upd_job_def upd_ctx_def\<close>)
qed

lemma oa_fill_response_same: "oa_running e = [] \<Longrightarrow> oa_fill_response clk j e = (r, e') \<Longrightarrow> e' = e"
  by (auto simp: oa_fill_response_def finish_jobs_def split: primitive.splits option.splits)

text \<open>
  What can happen to an engine with a policy of the fifo kind: requests (never two at a time
  for one context, as the comment of the scheduler demands), responses, frees of any context,
  iterations, and the answers of the service, in any order. A call that raises inside the event
  loop ends the process, and a request that raises is the subject of \<open>unknown_parent_stops\<close>.
\<close>

inductive oa_reach :: "openai_engine \<Rightarrow> bool" where
  init: "cfg_policy cfg \<notin> {''tgi'', ''fifo_v1''} \<Longrightarrow> oa_reach (new_openai_engine cfg ep mdl)"
| fill: "oa_reach e \<Longrightarrow> \<forall>j \<in> set (oa_waiting e). job_context_id (oa_job e j) \<noteq> cid \<Longrightarrow>
    oa_fill_request now sid tid cid pid content e = (Inr j, e') \<Longrightarrow> oa_reach e'"
| generate: "oa_reach e \<Longrightarrow> \<forall>j \<in> set (oa_waiting e). job_context_id (oa_job e j) \<noteq> cid \<Longrightarrow>
    oa_generate_request now sid tid cid pid sampling e = (Inr j, e') \<Longrightarrow> oa_reach e'"
| fill_response: "oa_reach e \<Longrightarrow> oa_fill_response clk j e = (r, e') \<Longrightarrow> oa_reach e'"
| free: "oa_reach e \<Longrightarrow> oa_free_context cid e = (len, e') \<Longrightarrow> oa_reach e'"
| iter: "oa_reach e \<Longrightarrow> oa_engine_iter clk e = (Inr (), e') \<Longrightarrow> oa_reach e'"
| answer: "oa_reach e \<Longrightarrow> j \<in> set (oa_background e) \<Longrightarrow> oa_receive j answer e = (Inr (), e') \<Longrightarrow> oa_reach e'"

lemma oa_reach_ok: "oa_reach e \<Longrightarrow> oa_ok e"
proof (induction rule: oa_reach.induct)
  case (init cfg ep mdl)
  then show ?case
    by (auto simp: new_openai_engine_def openai_unlimited_def new_engine_scheduler_def oa_ok_def is_fifo_def parents_ok_def)
next
  case (fill e cid now sid tid pid content j e')
  show ?case
    by (rule oa_ok_add_job [OF fill(4) _ _ _ _ fill(3) [unfolded oa_fill_request_def]])
      (use fill(2) in \<open>auto simp: new_fill_def new_job_def\<close>)
next
  case (generate e cid now sid tid pid sampling j e')
  obtain cfg where "oa_add_job now (new_generate sid tid cid pid cfg False) e = (Inr j, e')"
    using generate(3) by (auto simp: oa_generate_request_def split: option.splits)
  then show ?case
    by (rule oa_ok_add_job [OF generate(4), rotated -1]) (use generate(2) in \<open>auto simp: new_generate_def new_job_def\<close>)
next
  case (fill_response e clk j r e')
  then show ?case using oa_fill_response_same [of e clk j r e'] by (simp add: oa_ok_def)
qed (blast intro: oa_ok_free oa_ok_engine_iter oa_ok_receive)+


section \<open>Batches that take every job\<close>

lemma job_num_tokens_nonneg: "0 \<le> job_num_tokens j"
  by (simp add: job_num_tokens_def split: primitive.split option.split)

lemma fifo_loop_all:
  assumes "waiting_jobs s = js" and "\<forall>j \<in> set js. j < length (es_jobs s)"
    and "num + int (length js) \<le> max_batch_size s"
    and "batched + sum_list (map (\<lambda>j. job_num_tokens (job_at s j)) js) \<le> max_num_batched_tokens s"
  shows "waiting_jobs (fifo_loop clk js num batched s) = []"
  using assms
proof (induction js arbitrary: num batched s)
  case (Cons j js)
  let ?n = "job_num_tokens (job_at s j)"
  let ?s = "start_job clk j s"
  note st = start_job_same [where s = s and clk = clk and j = j]
  have m: "map (\<lambda>j. job_num_tokens (job_at ?s j)) js = map (\<lambda>j. job_num_tokens (job_at s j)) js"
    using Cons.prems(2) same_jobs_at(1) [OF st(1)] by simp
  have lim: "max_batch_size ?s = max_batch_size s" "max_num_batched_tokens ?s = max_num_batched_tokens s"
    using st(1) by (simp_all add: same_jobs_def)
  have "0 \<le> sum_list (map (\<lambda>j. job_num_tokens (job_at s j)) js)" by (rule sum_list_nonneg) (auto simp: job_num_tokens_nonneg)
  then have "\<not> (num + 1 > max_batch_size s \<or> batched + ?n > max_num_batched_tokens s)" using Cons.prems(3,4) by simp
  then have "fifo_loop clk (j # js) num batched s = fifo_loop clk js (num + 1) (batched + ?n) ?s" by simp
  then show ?case using Cons.IH [of ?s "num + 1" "batched + ?n"] Cons.prems st(3,4) m lim by (simp add: algebra_simps)
qed simp

lemma preempt_loop_all:
  assumes "\<forall>j \<in> set js. \<exists>c. job_context (job_at s j) = Some c \<and> 0 \<le> clen c"
    and "tot + sum_list (map (\<lambda>j. clen (the (job_context (job_at s j)))) js) \<le> max_total_tokens s"
  shows "preempt_loop clen js acc tot False s = (Inr (acc @ js), s)"
  using assms
proof (induction js arbitrary: acc tot)
  case (Cons j js)
  obtain c where c: "job_context (job_at s j) = Some c" "0 \<le> clen c" using Cons.prems(1) by auto
  have "0 \<le> sum_list (map (\<lambda>j. clen (the (job_context (job_at s j)))) js)"
    by (rule sum_list_nonneg) (use Cons.prems(1) in auto)
  then have "\<not> tot + clen c > max_total_tokens s" using Cons.prems(2) c by simp
  then show ?case using Cons.IH [of "tot + clen c" "acc @ [j]"] Cons.prems c by (simp add: job_total_tokens_def)
qed (simp add: py_return_def)

text \<open>When the waiting jobs fit into the limits and nothing runs, the batch is all of them, oldest first.\<close>

lemma schedule_all:
  assumes ok: "jobs_ok s" "is_fifo s" and run: "running_jobs s = []"
    and keys: "\<forall>j \<in> set (waiting_jobs s). \<exists>k. arrival_key s j = Inr k"
    and ctx: "\<forall>j \<in> set (waiting_jobs s). \<exists>c. job_context (job_at s j) = Some c \<and> 0 \<le> clen c"
    and lim: "int (length (waiting_jobs s)) \<le> max_batch_size s"
      "sum_list (map (\<lambda>j. job_num_tokens (job_at s j)) (waiting_jobs s)) \<le> max_num_batched_tokens s"
      "sum_list (map (\<lambda>j. clen (the (job_context (job_at s j)))) (waiting_jobs s)) \<le> max_total_tokens s"
  shows "\<exists>s'. schedule_jobs clen clk s = (Inr (sort_key (arrival s) (waiting_jobs s)), s') \<and> waiting_jobs s' = []"
proof -
  define s1 where "s1 = fifo_loop clk (waiting_jobs s) 0 0 s"
  have w: "\<forall>j \<in> set (waiting_jobs s). j < length (es_jobs s)" using ok(1) by (simp add: jobs_ok_def)
  have empty: "waiting_jobs s1 = []" unfolding s1_def by (rule fifo_loop_all [OF refl w]) (use lim in simp_all)
  obtain adm rest where a: "waiting_jobs s = adm @ rest" "same_jobs s s1" "running_jobs s1 = running_jobs s @ adm" "waiting_jobs s1 = rest"
    using fifo_loop_spec [OF refl w, of clk 0 0] unfolding s1_def by blast
  then have r1: "running_jobs s1 = waiting_jobs s" using empty run by simp
  have ar: "arrival_key s1 j = arrival_key s j" if "j \<in> set (waiting_jobs s)" for j using same_jobs_at(3) [OF a(2)] w that by blast
  define q where "q = sort_key (arrival s) (waiting_jobs s)"
  have q: "sort_key (arrival s1) (running_jobs s1) = q"
    unfolding q_def r1 by (rule sort_key_cong) (simp add: ar)
  have "find (\<lambda>j. isl (arrival_key s1 j)) (running_jobs s1) = None"
    unfolding find_None r1 using keys ar by fastforce
  then have sr: "sort_running s1 = (Inr (), s1\<lparr>running_jobs := q\<rparr>)" using q by (simp add: sort_running_def)
  have same: "job_context (job_at s1 j) = job_context (job_at s j)" if "j \<in> set (waiting_jobs s)" for j
    using job_coreD(2) [OF conjunct1 [OF same_jobs_core(2) [OF a(2)]]] w that by blast
  have perm: "sum_list (map f q) = sum_list (map f (waiting_jobs s))" for f :: "job_ref \<Rightarrow> int"
    by (simp add: q_def flip: sum_mset_sum_list)
  have m: "map (\<lambda>j. clen (the (job_context (job_at s1 j)))) (waiting_jobs s) = map (\<lambda>j. clen (the (job_context (job_at s j)))) (waiting_jobs s)"
    using same by simp
  have tot: "sum_list (map (\<lambda>j. clen (the (job_context (job_at s1 j)))) q) \<le> max_total_tokens s1"
    unfolding perm m using lim(3) a(2) by (simp add: same_jobs_def)
  have "preempt_loop clen q [] 0 False (s1\<lparr>running_jobs := q\<rparr>) = (Inr q, s1\<lparr>running_jobs := q\<rparr>)"
    using preempt_loop_all [of q "s1\<lparr>running_jobs := q\<rparr>" clen 0 "[]"] tot ctx same by (simp add: q_def)
  then have "schedule_fifo clen clk s = (Inr q, s1\<lparr>running_jobs := q\<rparr>)"
    using sr run by (simp add: schedule_fifo_def Let_def flip: s1_def)
  then show ?thesis using ok(2) empty unfolding q_def by (auto simp: schedule_jobs_def is_fifo_def)
qed

section \<open>Properties\<close>

lemma oa_context_lineage: "oa_ok e \<Longrightarrow> c < length (ec_heap (oa_contexts e)) \<Longrightarrow> \<exists>ps. lineage (ec_heap (oa_contexts e)) c ps"
  by (rule lineage_exists) (simp_all add: oa_ok_def)

lemma text_clen_nonneg: "oa_ok e \<Longrightarrow> c < length (ec_heap (oa_contexts e)) \<Longrightarrow> 0 \<le> text_clen (oa_contexts e) c"
  using oa_context_lineage [of e c] get_context_len_lineage [of "ec_heap (oa_contexts e)" c _ text_this_len]
  by (auto simp: text_clen_def text_this_len_def intro!: sum_list_nonneg)

text \<open>
  C19. One iteration of the OpenAI engine serves every waiting job. It is assumed that the policy is of the fifo kind (neither
  \<^verbatim>\<open>tgi\<close> nor \<^verbatim>\<open>fifo_v1\<close>), that a request comes only when no other job waits for its context, and that no earlier request,
  iteration or answer has raised (\<open>oa_reach\<close>). In every state reached so whose
  waiting jobs stay below the (practically infinite) limits of its scheduler, the iteration raises
  nothing and leaves no waiting and no running job. The texts of the waiting fills are appended
  to their contexts as user messages, in the order of arrival, and nothing else is added
  to any context; these fills are finished, and the waiting generations, in the order of
  arrival, become tasks that talk to the service in the background.
\<close>

theorem openai_iteration_serves_all:
  assumes "oa_reach e" and "int (length (oa_waiting e)) \<le> 9999999999999"
    and "sum_list (map (\<lambda>j. text_clen (oa_contexts e) (the (job_context (oa_job e j)))) (oa_waiting e)) \<le> 9999999999999"
    and "js = sort_key (arrival (oa_scheduler e)) (oa_waiting e)"
  shows "\<exists>e'. oa_engine_iter clk e = (Inr (), e') \<and> oa_waiting e' = [] \<and> oa_running e' = [] \<and>
    oa_background e' = oa_background e @ filter (\<lambda>j. is_generate (oa_job e j)) js \<and>
    list_all (\<lambda>j. is_generate (oa_job e j) \<or> finish_event (oa_job e' j)) js \<and>
    ec_heap (oa_contexts e') = map (\<lambda>c. (oa_ctx e c)\<lparr>text_context.text_chunks := text_context.text_chunks (oa_ctx e c) @ fill_chunks e js c\<rparr>)
      [0..<length (ec_heap (oa_contexts e))]"
proof (cases "oa_waiting e = []")
  case True
  have "oa_running e = []" using oa_reach_ok [OF assms(1)] by (simp add: oa_ok_def)
  with True assms(4) show ?thesis
    by (simp add: oa_engine_iter_def scheduler_is_empty_def num_total_jobs_of_def py_return_def fill_chunks_def map_nth)
next
  case False
  note ok = oa_reach_ok [OF assms(1)]
  have w: "oa_job_ok e j" if "j \<in> set (oa_waiting e)" for j using ok that by (simp add: oa_ok_def)
  have keys: "\<forall>j \<in> set (oa_waiting e). \<exists>k. arrival_key (oa_scheduler e) j = Inr k"
    using ok by (fastforce simp: oa_ok_def dict_mem_def arrival_key_def simp del: dict_mem_iff)
  have one: "map (\<lambda>j. job_num_tokens (oa_job e j)) (oa_waiting e) = map (\<lambda>j. 1) (oa_waiting e)"
    using w by (fastforce simp: job_num_tokens_def oa_job_ok_def split: primitive.split option.split)
  have "\<exists>s'. schedule_jobs (text_clen (oa_contexts e)) clk (oa_scheduler e) = (Inr js, s') \<and> waiting_jobs s' = []"
    unfolding assms(4)
  proof (rule schedule_all [OF _ _ _ keys])
    show "jobs_ok (oa_scheduler e)" using ok w by (auto simp: jobs_ok_def oa_ok_def oa_job_ok_def)
    show "\<forall>j \<in> set (oa_waiting e). \<exists>c. job_context (oa_job e j) = Some c \<and> 0 \<le> text_clen (oa_contexts e) c"
      using w text_clen_nonneg [OF ok] by (fastforce simp: oa_job_ok_def)
    show "sum_list (map (\<lambda>j. job_num_tokens (oa_job e j)) (oa_waiting e)) \<le> max_num_batched_tokens (oa_scheduler e)"
      unfolding one using ok assms(2) by (simp add: oa_ok_def sum_list_triv)
  qed (use ok assms(2,3) in \<open>simp_all add: oa_ok_def\<close>)
  then obtain s' where sch: "schedule_jobs (text_clen (oa_contexts e)) clk (oa_scheduler e) = (Inr js, s')" "waiting_jobs s' = []" by blast
  obtain jobs times heap where x: "oa_engine_iter clk e = (Inr (), e\<lparr>oa_scheduler := s'\<lparr>running_jobs := [], es_jobs := jobs, job_arrival_time := times\<rparr>,
       oa_contexts := (oa_contexts e)\<lparr>ec_heap := heap\<rparr>, oa_background := oa_background e @ filter (\<lambda>j. is_generate (oa_job e j)) js\<rparr>)"
    "\<forall>j \<in> set js. \<not> is_generate (oa_job e j) \<longrightarrow> finish_event (jobs ! j)" "length heap = length (ec_heap (oa_contexts e))"
    "\<forall>c < length heap. heap ! c = (oa_ctx e c)\<lparr>text_context.text_chunks := text_context.text_chunks (oa_ctx e c) @ fill_chunks e js c\<rparr>"
    by (rule oa_execute_batch [OF ok False sch(1)])
  have "heap = map (\<lambda>c. (oa_ctx e c)\<lparr>text_context.text_chunks := text_context.text_chunks (oa_ctx e c) @ fill_chunks e js c\<rparr>)
      [0..<length (ec_heap (oa_contexts e))]"
    by (rule nth_equalityI) (simp_all add: x(3) x(4) [rule_format])
  moreover have "list_all (\<lambda>j. is_generate (oa_job e j) \<or> finish_event (jobs ! j)) js" using x(2) by (auto simp: list_all_iff)
  ultimately show ?thesis using sch(2) by - (intro exI conjI, rule x(1), simp_all)
qed


text \<open>A text for context 5 and a generation in its child 6 wait in an engine of the chat endpoint.\<close>

abbreviation oa_demo0 :: openai_engine where
  "oa_demo0 \<equiv> new_openai_engine \<lparr>cfg_max_batch_size = 1, cfg_max_num_batched_tokens = 1, cfg_max_total_tokens = 1,
     cfg_policy = ''fifo''\<rparr> CHAT (JStr ''gpt'')"

abbreviation oa_demo1 :: openai_engine where
  "oa_demo1 \<equiv> snd (oa_fill_request 10 0 1 5 (-1) ''Hi'' oa_demo0)"

abbreviation oa_demo :: openai_engine where
  "oa_demo \<equiv> snd (oa_generate_request 11 0 1 6 5 [(''n'', JInt 1)] oa_demo1)"

lemma oa_demo_reach: "oa_reach oa_demo"
proof (rule oa_reach.generate [OF oa_reach.fill [OF oa_reach.init]])
  have "fst (oa_fill_request 10 0 1 5 (-1) ''Hi'' oa_demo0) = Inr 0" by code_simp
  then show "oa_fill_request 10 0 1 5 (-1) ''Hi'' oa_demo0 = (Inr 0, oa_demo1)" by (simp add: prod_eq_iff)
  have "fst (oa_generate_request 11 0 1 6 5 [(''n'', JInt 1)] oa_demo1) = Inr 1" by code_simp
  then show "oa_generate_request 11 0 1 6 5 [(''n'', JInt 1)] oa_demo1 = (Inr 1, oa_demo)" by (simp add: prod_eq_iff)
  have "list_all (\<lambda>j. job_context_id (oa_job oa_demo1 j) \<noteq> 6) (oa_waiting oa_demo1)" by code_simp
  then show "\<forall>j \<in> set (oa_waiting oa_demo1). job_context_id (oa_job oa_demo1 j) \<noteq> 6" by (simp add: list_all_iff)
qed (simp_all add: new_openai_engine_def new_engine_scheduler_def)

theorem openai_iteration_serves_all_witness:
  "\<exists>e'. oa_engine_iter (\<lambda>_. 99) oa_demo = (Inr (), e') \<and> oa_waiting oa_demo = [0, 1] \<and> oa_waiting e' = [] \<and> oa_background e' = [1] \<and>
    map text_context.text_chunks (ec_heap (oa_contexts e')) = [[\<lparr>text_chunk.chunk_text = ''Hi'', chunk_role = User\<rparr>], []]"
proof -
  let ?js = "sort_key (arrival (oa_scheduler oa_demo)) (oa_waiting oa_demo)"
  have w: "oa_waiting oa_demo = [0, 1]" "length (ec_heap (oa_contexts oa_demo)) = 2" by code_simp+
  have js: "?js = [0, 1]" by code_simp
  have l: "sum_list (map (\<lambda>j. text_clen (oa_contexts oa_demo) (the (job_context (oa_job oa_demo j)))) (oa_waiting oa_demo)) = 0" by code_simp
  have g: "is_generate (oa_job oa_demo 0) = False" "is_generate (oa_job oa_demo 1) = True" "oa_background oa_demo = []" by code_simp+
  have c: "text_context.text_chunks (oa_ctx oa_demo 0) @ fill_chunks oa_demo [0, 1] 0 = [\<lparr>text_chunk.chunk_text = ''Hi'', chunk_role = User\<rparr>]"
    "text_context.text_chunks (oa_ctx oa_demo 1) @ fill_chunks oa_demo [0, 1] 1 = []" by code_simp+
  have le: "int (length (oa_waiting oa_demo)) \<le> 9999999999999"
    "sum_list (map (\<lambda>j. text_clen (oa_contexts oa_demo) (the (job_context (oa_job oa_demo j)))) (oa_waiting oa_demo)) \<le> 9999999999999"
    unfolding l unfolding w by simp_all
  from openai_iteration_serves_all [OF oa_demo_reach le refl, of "\<lambda>_. 99"]
  obtain e' where e': "oa_engine_iter (\<lambda>_. 99) oa_demo = (Inr (), e')" "oa_waiting e' = []"
    "oa_background e' = oa_background oa_demo @ filter (\<lambda>j. is_generate (oa_job oa_demo j)) ?js"
    "ec_heap (oa_contexts e') = map (\<lambda>c. (oa_ctx oa_demo c)\<lparr>text_context.text_chunks := text_context.text_chunks (oa_ctx oa_demo c) @ fill_chunks oa_demo ?js c\<rparr>)
      [0..<length (ec_heap (oa_contexts oa_demo))]"
    by (elim exE conjE)
  have "oa_background e' = [1]" using e'(3) unfolding js by (simp only: filter.simps g if_True if_False append.simps)
  moreover have "map text_context.text_chunks (ec_heap (oa_contexts e')) = [[\<lparr>text_chunk.chunk_text = ''Hi'', chunk_role = User\<rparr>], []]"
    using c unfolding e'(4) js w(2) by (simp add: upt_rec numeral_2_eq_2)
  ultimately show ?thesis by - (intro exI conjI, rule e'(1), rule w(1), rule e'(2))
qed

section \<open>What the service sees, and what it may answer\<close>

text \<open>
  A generation task of a reachable engine sends the whole text of its context and its ancestors,
  as alternating messages.
\<close>

lemma openai_chat_request:
  assumes "oa_reach e" and "j \<in> set (oa_background e)" and "primitive_of (oa_job e j) = Generate cfg queue gen n" and "oa_endpoint e = CHAT"
  shows "\<exists>c ms. job_context (oa_job e j) = Some c \<and>
    oa_send j e = (Inr (ChatRequest ms (oa_model e) (get_openai_params cfg)), e) \<and> alternating ms \<and>
    get_whole_context_text (ec_heap (oa_contexts e)) c = Some (concat (map text_chunk.chunk_text ms))"
proof -
  note ok = oa_reach_ok [OF assms(1)]
  obtain c where c: "job_context (oa_job e j) = Some c" "c < length (ec_heap (oa_contexts e))"
    using ok assms(2) by (auto simp: oa_ok_def oa_job_ok_def)
  obtain ps where "lineage (ec_heap (oa_contexts e)) c ps" using oa_context_lineage [OF ok c(2)] by blast
  from chat_messages_merge [OF this] show ?thesis
    using c assms(3,4) by (auto simp: oa_send_def openai_request_of_def)
qed

text \<open>
  The branch for the completion endpoint reads the answer like a chat answer. Completions have
  no \<^verbatim>\<open>message\<close>, so every generation raises, the job never finishes and nothing is appended.
\<close>

lemma completion_answer_never_read:
  assumes "job_context (oa_job e j) = Some c"
  shows "oa_receive j (Inr (map TextChoice ts)) e =
    py_raise (if ts = [] then IndexError else AttributeError) (e\<lparr>oa_background := remove1 j (oa_background e)\<rparr>)"
  by (cases ts) (simp_all add: oa_receive_def Let_def)

text \<open>
  Generations in flight are neither waiting nor running: however many there are, the heartbeat
  reports no running job.
\<close>

lemma openai_reports_no_running:
  assumes "oa_reach e"
  shows "num_running_jobs (oa_get_runtime_info e) = 0 \<and> num_total_jobs (oa_get_runtime_info e) = int (length (oa_waiting e))"
  using oa_reach_ok [OF assms] by (simp add: oa_get_runtime_info_def num_running_jobs_of_def num_total_jobs_of_def oa_ok_def)

text \<open>The arrival times of generations and of tasks stay for ever: only finished fills are removed.\<close>

lemma openai_arrival_times_stay:
  assumes "oa_reach e" and "oa_engine_iter clk e = (Inr (), e')" and "js = filter (\<lambda>j. \<not> is_generate (oa_job e j)) (oa_waiting e)"
  shows "task_arrival_time (oa_scheduler e') = task_arrival_time (oa_scheduler e) \<and>
    fst ` set (job_arrival_time (oa_scheduler e)) - (\<lambda>j. job_context_id (oa_job e j)) ` set js
      \<subseteq> fst ` set (job_arrival_time (oa_scheduler e'))"
proof (cases "oa_waiting e = []")
  case True
  then have "e' = e" using oa_reach_ok [OF assms(1)] assms(2)
    by (simp add: oa_engine_iter_def scheduler_is_empty_def num_total_jobs_of_def oa_ok_def)
  then show ?thesis by auto
next
  case False
  note ok = oa_reach_ok [OF assms(1)]
  obtain r s' where sch: "schedule_jobs (text_clen (oa_contexts e)) clk (oa_scheduler e) = (r, s')" by fastforce
  have "\<not> scheduler_is_empty (oa_scheduler e)"
    using False by (cases "oa_waiting e") (simp_all add: scheduler_is_empty_def num_total_jobs_of_def)
  then obtain ret where ret: "r = Inr ret" using assms(2) sch by (cases r) (auto simp: oa_engine_iter_def oa_execute_iter_def)
  note b = oa_batch [OF ok sch [unfolded ret]]
  obtain jobs times heap where e': "e' = e\<lparr>oa_scheduler := s'\<lparr>running_jobs := [], es_jobs := jobs, job_arrival_time := times\<rparr>,
       oa_contexts := (oa_contexts e)\<lparr>ec_heap := heap\<rparr>, oa_background := oa_background e @ filter (\<lambda>j. is_generate (oa_job e j)) ret\<rparr>"
    and times: "fst ` set times = fst ` set (job_arrival_time (oa_scheduler e)) -
       (\<lambda>j. job_context_id (oa_job e j)) ` {j \<in> set ret. \<not> is_generate (oa_job e j)}"
    by (rule oa_execute_batch [OF ok False sch [unfolded ret]]) (use assms(2) in simp)
  have "{j \<in> set ret. \<not> is_generate (oa_job e j)} \<subseteq> set js" using b(5) assms(3) by auto
  then show ?thesis using times b(3) unfolding e' by (auto simp: same_jobs_def)
qed

text \<open>
  A request that names an unknown parent context is answered with an error, but its job was
  queued before: the next iteration raises, which ends the engine.
\<close>

lemma unknown_parent_stops:
  assumes "oa_ok e" and "oa_waiting e = []" and "cid \<notin> fst ` set (ec_map (oa_contexts e))"
    and "pid \<noteq> NONE_CONTEXT_ID" and "pid \<notin> fst ` set (ec_map (oa_contexts e))"
  shows "\<exists>e'. oa_fill_request now sid tid cid pid content e = (Inl KeyError, e') \<and> fst (oa_engine_iter clk e') = Inl AttributeError"
proof -
  let ?job = "new_fill sid tid cid pid False None (Some content)"
  let ?n = "length (es_jobs (oa_scheduler e))"
  let ?s = "add_job now ?n ((oa_scheduler e)\<lparr>es_jobs := es_jobs (oa_scheduler e) @ [?job]\<rparr>)"
  let ?e = "e\<lparr>oa_scheduler := ?s\<rparr>"
  have job: "job_context_id ?job = cid" "job_task_id ?job = tid" "job_context ?job = None" "job_parent_context_id ?job = pid"
    by (simp_all add: new_fill_def new_job_def)
  have at: "job_at ?s ?n = ?job" by (simp add: add_job_def Let_def)
  have "map_of (ec_map (oa_contexts e)) pid = None" using assms(5) by (simp add: map_of_eq_None_iff)
  then have "bind_job_context new_text_context cid pid (oa_contexts e) = (Inl KeyError, oa_contexts e)"
    using assms(3,4) by (simp add: bind_job_context_def py_raise_def)
  then have 1: "oa_fill_request now sid tid cid pid content e = (Inl KeyError, ?e)"
    by (simp add: oa_fill_request_def oa_add_job_def oa_bind_job_def at job Let_def)
  have s: "waiting_jobs ?s = [?n]" "running_jobs ?s = []" "policy ?s = policy (oa_scheduler e)"
    "max_batch_size ?s = 9999999999999" "max_num_batched_tokens ?s = 9999999999999"
    "\<exists>t. map_of (job_arrival_time ?s) cid = Some t" "\<exists>t. map_of (task_arrival_time ?s) tid = Some t" "es_jobs ?s = es_jobs (oa_scheduler e) @ [?job]"
    using assms(1,2) by (auto simp: add_job_def Let_def oa_ok_def job map_of_eq_None_iff dict_keys_set simp flip: not_None_eq)
  let ?s1 = "start_job clk ?n ?s"
  note st = start_job_same [where s = ?s and clk = clk and j = ?n]
  have lt: "?n < length (es_jobs ?s)" by (simp add: s(8))
  have "job_num_tokens (job_at ?s ?n) = 1" unfolding at by (simp add: job_num_tokens_def new_fill_def new_job_def)
  then have fl: "fifo_loop clk [?n] 0 0 ?s = ?s1" using s(4,5) by simp
  have "arrival_key ?s1 ?n = arrival_key ?s ?n" by (rule same_jobs_at(3) [OF st(1) lt])
  then have "\<not> isl (arrival_key ?s1 ?n)" using s(6,7) at job by (auto simp: arrival_key_def)
  then have sr: "sort_running ?s1 = (Inr (), ?s1\<lparr>running_jobs := [?n]\<rparr>)"
    using st(2) s(2) by (simp add: sort_running_def py_return_def)
  have "job_context (job_at ?s1 ?n) = None" using job_coreD(2) [OF conjunct1 [OF same_jobs_core(2) [OF st(1) lt]]] at job by simp
  then have "fst (schedule_fifo (text_clen (oa_contexts e)) clk ?s) = Inl AttributeError"
    using s(1,2) fl sr by (simp add: schedule_fifo_def job_total_tokens_def del: fifo_loop.simps)
  then have "fst (schedule_jobs (text_clen (oa_contexts e)) clk ?s) = Inl AttributeError"
    using assms(1) s(3) by (simp add: schedule_jobs_def oa_ok_def is_fifo_def)
  then have "fst (oa_engine_iter clk ?e) = Inl AttributeError"
    using s(1) by (cases "schedule_jobs (text_clen (oa_contexts e)) clk ?s")
      (simp add: oa_engine_iter_def oa_execute_iter_def scheduler_is_empty_def num_total_jobs_of_def s(2))
  with 1 show ?thesis by blast
qed

end
