(* ===== verification/Engine_Creation.thy ===== *)
theory Engine_Creation
  imports OpenAI_Engine Http_Client
begin

text \<open>
  From a configuration to a running engine: \<^verbatim>\<open>engine/engine_creator.py\<close>, \<^verbatim>\<open>EngineConfig.from_dict\<close>
  (\<^verbatim>\<open>engine/config.py\<close>), the constructor, the registration and the heartbeat of \<^verbatim>\<open>engine/llm_engine.py\<close>, and
  the constructor of the OpenAI engine. A configuration is the dictionary that was read from a
  JSON file. The seeding of the random generators and the client object of the OpenAI package
  are left out.
\<close>

section \<open>Choosing the engine\<close>

datatype engine_class = BuiltinEngineClass | OpenAIEngineClass

text \<open>\<^verbatim>\<open>engine_config["instance"]["device"] = override_args["device"]\<close>, and the override without the key.\<close>

definition override_device ::
  "(string, json) dict \<Rightarrow> (string, json) dict \<Rightarrow> py_error + (string, json) dict \<times> (string, json) dict" where
  "override_device cfg override_args =
    (case map_of override_args ''device'' of
       None \<Rightarrow> Inr (cfg, override_args)
     | Some d \<Rightarrow>
        (case map_of cfg ''instance'' of
           None \<Rightarrow> Inl KeyError
         | Some (JDict inst) \<Rightarrow> Inr (dict_set ''instance'' (JDict (dict_set ''device'' d inst)) cfg, dict_pop ''device'' override_args)
         | Some _ \<Rightarrow> Inl TypeError))"

definition create_engine ::
  "(string, json) dict \<Rightarrow> (string, json) dict \<Rightarrow> py_error + engine_class \<times> (string, json) dict" where
  "create_engine file_config override_args =
    (case override_device file_config override_args of
       Inl err \<Rightarrow> Inl err
     | Inr (cfg, override_args) \<Rightarrow>
        (let cfg = foldl (\<lambda>d (k, v). dict_set k v d) cfg override_args in
         case fst (verify_config cfg ()) of
           Inl err \<Rightarrow> Inl err
         | Inr False \<Rightarrow> Inl ParrotEngineInternalError
         | Inr True \<Rightarrow>
            if map_of cfg ''engine_type'' = Some (JStr ENGINE_TYPE_BUILTIN) then Inr (BuiltinEngineClass, cfg)
            else if map_of cfg ''engine_type'' = Some (JStr ENGINE_TYPE_OPENAI) then Inr (OpenAIEngineClass, cfg)
            else Inl ParrotEngineInternalError))"

section \<open>The base class\<close>

definition ENGINE_CONFIG_FIELDS :: "string list" where
  "ENGINE_CONFIG_FIELDS = [''model'', ''host'', ''port'', ''heartbeat_interval'', ''engine_name'', ''engine_type'', ''random_seed'',
     ''tokenizer'', ''fill_chunk_size'', ''dtype'', ''device'', ''tasks_capacity'', ''tokens_capacity'']"

text \<open>\<^verbatim>\<open>EngineConfig.from_dict\<close>: the keywords that the dataclass is built from.\<close>

definition engine_config_from_dict :: "(string, json) dict \<Rightarrow> py_error + (string, json) dict" where
  "engine_config_from_dict config_dict =
    (if \<not> dict_mem ''instance'' config_dict \<or> \<not> dict_mem ''scheduler'' config_dict \<or> \<not> dict_mem ''serve_core'' config_dict
     then Inl KeyError
     else
       (let kwargs = dict_pop ''serve_core'' (dict_pop ''scheduler'' (dict_pop ''instance'' config_dict))
        in if list_all (\<lambda>(k, _). k \<in> set ENGINE_CONFIG_FIELDS) kwargs then Inr kwargs else Inl TypeError))"

text \<open>\<^verbatim>\<open>LLMEngine.__init__\<close>: the keywords of the configuration, and host and port of the core to connect to.\<close>

definition llm_engine_init :: "bool \<Rightarrow> (string, json) dict \<Rightarrow> py_error + (string, json) dict \<times> (json \<times> json) option" where
  "llm_engine_init connect_to_core engine_config =
    (if \<not> dict_mem ''random_seed'' engine_config then Inl KeyError
     else case engine_config_from_dict engine_config of
       Inl err \<Rightarrow> Inl err
     | Inr kwargs \<Rightarrow>
        if \<not> connect_to_core then Inr (kwargs, None)
        else (case map_of engine_config ''serve_core'' of
                None \<Rightarrow> Inl AssertionError
              | Some (JDict core_config) \<Rightarrow>
                  (case (map_of core_config ''host'', map_of core_config ''port'') of
                     (Some h, Some p) \<Rightarrow> Inr (kwargs, Some (h, p))
                   | _ \<Rightarrow> Inl KeyError)
              | Some _ \<Rightarrow> Inl TypeError))"

text \<open>\<^verbatim>\<open>_register_engine\<close>: the id of the engine; \<open>client\<close> is \<open>None\<close> without \<^verbatim>\<open>connect_to_core\<close>.\<close>

definition llm_register_engine :: "'w api_client option \<Rightarrow> (string, json) dict \<Rightarrow> 'w \<Rightarrow> (json, 'w) py" where
  "llm_register_engine client cfg w =
    (case client of
       None \<Rightarrow> py_return (JInt 0) w
     | Some c \<Rightarrow> py_bind (layer_register_engine c cfg w) (\<lambda>resp w. dict_get resp ''engine_id'' w))"

text \<open>\<^verbatim>\<open>asdict(runtime_info)\<close>.\<close>

definition runtime_info_asdict :: "engine_runtime_info \<Rightarrow> (string, json) dict" where
  "runtime_info_asdict i =
    [(''num_cached_tokens'', JInt (num_cached_tokens i)), (''num_max_blocks'', JInt (num_max_blocks i)),
     (''num_running_jobs'', JInt (num_running_jobs i)), (''num_total_jobs'', JInt (num_total_jobs i)),
     (''cache_mem'', JFloat (cache_mem i)), (''model_mem'', JFloat (model_mem i)),
     (''profiled_cpu_mem'', JFloat (profiled_cpu_mem i)), (''profiled_gpu_tensor_mem'', JFloat (profiled_gpu_tensor_mem i)),
     (''profiled_gpu_allocate_mem'', JFloat (profiled_gpu_allocate_mem i)),
     (''recent_average_latency'', JFloat (recent_average_latency i))]"

definition llm_heartbeat :: "'w api_client option \<Rightarrow> int \<Rightarrow> string \<Rightarrow> engine_runtime_info \<Rightarrow> 'w \<Rightarrow> (unit, 'w) py" where
  "llm_heartbeat client eid name info w =
    (case client of
       None \<Rightarrow> py_return () w
     | Some c \<Rightarrow> py_bind (layer_engine_heartbeat c eid name (runtime_info_asdict info) w) (\<lambda>_ w. py_return () w))"

text \<open>Some rounds of the daemon; an exception leaves the loop and ends the thread.\<close>

definition heartbeat_daemon :: "'w api_client option \<Rightarrow> int \<Rightarrow> string \<Rightarrow> engine_runtime_info list \<Rightarrow> 'w \<Rightarrow> (unit, 'w) py" where
  "heartbeat_daemon client eid name infos = py_for (llm_heartbeat client eid name) infos"

section \<open>The constructor of the OpenAI engine\<close>

text \<open>\<^verbatim>\<open>C(**d)\<close> for a dataclass with these required and optional fields.\<close>

definition check_fields :: "string list \<Rightarrow> string list \<Rightarrow> (string, json) dict \<Rightarrow> bool" where
  "check_fields required optional d \<longleftrightarrow>
    list_all (\<lambda>k. dict_mem k d) required \<and> list_all (\<lambda>(k, _). k \<in> set required \<union> set optional) d"

text \<open>\<^verbatim>\<open>SchedulerConfig(**d)\<close>. The limits are overwritten by the engine, and a policy that is no string is the default one.\<close>

definition openai_scheduler_config :: "json \<Rightarrow> py_error + scheduler_config" where
  "openai_scheduler_config d =
    (case d of
       JDict d \<Rightarrow>
         if check_fields [''max_batch_size'', ''max_num_batched_tokens'', ''max_total_tokens''] [''policy''] d
         then Inr \<lparr>cfg_max_batch_size = 0, cfg_max_num_batched_tokens = 0, cfg_max_total_tokens = 0,
                cfg_policy = (case map_of d ''policy'' of Some (JStr p) \<Rightarrow> p | _ \<Rightarrow> ''fifo'')\<rparr>
         else Inl TypeError
     | _ \<Rightarrow> Inl TypeError)"

text \<open>\<^verbatim>\<open>OpenAIConfig(**d)\<close> with its \<^verbatim>\<open>__post_init__\<close>.\<close>

definition openai_config :: "json \<Rightarrow> py_error + endpoint" where
  "openai_config d =
    (case d of
       JDict d \<Rightarrow>
         if check_fields [''api_key'', ''api_endpoint''] [''base_url'', ''is_azure'', ''azure_api_version'', ''azure_endpoint''] d
         then (case map_of d ''api_endpoint'' of
                 Some (JStr ep) \<Rightarrow> openai_config_endpoint ep
               | Some v \<Rightarrow> Inl (if py_hashable v then ValueError else TypeError)
               | None \<Rightarrow> Inl TypeError)
         else Inl TypeError
     | _ \<Rightarrow> Inl TypeError)"

definition openai_init :: "bool \<Rightarrow> (string, json) dict \<Rightarrow> py_error + openai_engine" where
  "openai_init connect_to_core engine_config =
    (case llm_engine_init connect_to_core engine_config of
       Inl err \<Rightarrow> Inl err
     | Inr (kwargs, _) \<Rightarrow>
        (case openai_scheduler_config (the (map_of engine_config ''scheduler'')) of
           Inl err \<Rightarrow> Inl err
         | Inr sched \<Rightarrow>
            (case openai_config (the (map_of engine_config ''instance'')) of
               Inl err \<Rightarrow> Inl err
             | Inr ep \<Rightarrow> Inr (new_openai_engine sched ep
                 (case map_of kwargs ''model'' of Some m \<Rightarrow> m | None \<Rightarrow> JStr ''unknown'')))))"

section \<open>Configurations\<close>

text \<open>An engine that was created from a configuration with a policy of the fifo kind is a reachable one.\<close>

lemma openai_init_reach:
  assumes "openai_init b cfg = Inr e" and "is_fifo (oa_scheduler e)"
  shows "oa_reach e"
proof -
  obtain sched ep mdl where e: "e = new_openai_engine sched ep mdl"
    using assms(1) by (auto simp: openai_init_def split: sum.splits prod.splits)
  have "cfg_policy sched \<notin> {''tgi'', ''fifo_v1''}"
    using assms(2) by (simp add: e new_openai_engine_def new_engine_scheduler_def openai_unlimited_def is_fifo_def)
  then show ?thesis unfolding e by (rule oa_reach.init)
qed

text \<open>The class of the created engine is the one the configuration names; the final \<^verbatim>\<open>raise\<close> is not reached.\<close>

lemma create_engine_class:
  assumes "create_engine file_config override_args = Inr (cls, cfg)"
  shows "dict_mem ''instance'' cfg \<and> dict_mem ''scheduler'' cfg \<and>
    map_of cfg ''engine_type'' = Some (JStr (case cls of BuiltinEngineClass \<Rightarrow> ENGINE_TYPE_BUILTIN | OpenAIEngineClass \<Rightarrow> ENGINE_TYPE_OPENAI))"
  using assms
  by (auto simp: create_engine_def verify_config_def Let_def py_bind_def py_return_def dict_get_def simp del: dict_mem_iff
      split: sum.splits prod.splits bool.splits if_splits)

lemma create_engine_verified:
  assumes "fst (verify_config cfg ()) = Inr True"
  shows "map_of cfg ''engine_type'' \<in> {Some (JStr ENGINE_TYPE_BUILTIN), Some (JStr ENGINE_TYPE_OPENAI)}"
  using assms
  by (auto simp: verify_config_def dict_get_def ENGINE_TYPES_def py_raise_def split: if_splits option.splits)

text \<open>
  An engine without a core still needs the section \<^verbatim>\<open>serve_core\<close>: \<^verbatim>\<open>from_dict\<close> pops it from every
  configuration, before the assertion that is meant to ask for it, which therefore never fails.
\<close>

lemma standalone_needs_core_section:
  assumes "\<not> dict_mem ''serve_core'' cfg"
  shows "llm_engine_init b cfg = Inl KeyError"
  using assms by (simp add: llm_engine_init_def engine_config_from_dict_def)

lemma core_assertion_never_fails: "llm_engine_init b cfg \<noteq> Inl AssertionError"
  by (auto simp: llm_engine_init_def engine_config_from_dict_def dict_mem_def Let_def simp del: dict_mem_iff
      split: option.splits json.splits if_splits)

text \<open>One heartbeat that fails, after its retries, is the last one of the engine.\<close>

lemma heartbeat_stops:
  assumes "llm_heartbeat client eid name info w = (Inl err, w')"
  shows "heartbeat_daemon client eid name (info # infos) w = (Inl err, w')"
  using assms by (simp add: heartbeat_daemon_def)

text \<open>
  The example configuration \<^verbatim>\<open>sample_configs/engine/openai-example-config.json\<close> is accepted and
  gives an engine of the completion endpoint, whose answers are never read (\<open>completion_answer_never_read\<close>).
\<close>

abbreviation openai_example :: "(string, json) dict" where
  "openai_example \<equiv>
    [(''model'', JStr ''gpt''), (''engine_name'', JStr ''Azure''), (''host'', JStr ''localhost''), (''port'', JInt 9001),
     (''engine_type'', JStr ''openai''), (''random_seed'', JInt 0), (''tasks_capacity'', JInt 64),
     (''instance'', JDict [(''api_key'', JStr ''xxx''), (''api_endpoint'', JStr ''completion''), (''is_azure'', JBool True),
        (''azure_api_version'', JStr ''2023-07-01-preview''), (''azure_endpoint'', JStr ''xxx'')]),
     (''scheduler'', JDict [(''max_batch_size'', JInt 256), (''max_num_batched_tokens'', JInt 99999999), (''max_total_tokens'', JInt 99999999)]),
     (''serve_core'', JDict [(''host'', JStr ''localhost''), (''port'', JInt 9000)])]"

lemma example_config_completes:
  "create_engine openai_example [] = Inr (OpenAIEngineClass, openai_example) \<and>
   map_sum id oa_endpoint (openai_init True openai_example) = Inr COMPLETION"
proof -
  have "create_engine openai_example [] = Inr (OpenAIEngineClass, openai_example)" by code_simp
  moreover have "map_sum id oa_endpoint (openai_init True openai_example) = Inr COMPLETION" by code_simp
  ultimately show ?thesis by (rule conjI)
qed

end
